(* ===== verification/Prelude.thy ===== *)
theory Prelude
  imports "HOL-Library.Word" "HOL-Library.Monad_Syntax"
begin

text \<open>
  Shared vocabulary of the development: the machine integers of the C code as words, error
  messages as strings, C arrays as lists whose reads may fail, little-endian decoding of the file
  buffer, and the generic lemmas the component theories use.

  Conventions used everywhere:
  \<^item> a function of the C code that reads memory returns an \<open>option\<close>; \<open>None\<close> stands for
    behaviour the C program does not define: a read outside the allocation, a call through a null
    function pointer, or a loop that never returns;
  \<^item> a function that reports an error through \<open>const char** error\<close> returns a sum; \<open>Inl\<close> carries
    the message, \<open>Inr\<close> the result;
  \<^item> the asserts of the code are compiled out (\<open>setup.py\<close> passes \<open>-DNDEBUG\<close>), so after an
    \<open>assert(0)\<close> the model returns what the next statement of the C function returns.
\<close>

unbundle bit_operations_syntax

type_synonym u8 = "8 word"
type_synonym u16 = "16 word"
type_synonym u32 = "32 word"
type_synonym u64 = "64 word"

text \<open>Signed integers share the words; \<open>sint\<close> reads them, as two's complement does in C.\<close>

type_synonym i8 = "8 word"
type_synonym i16 = "16 word"
type_synonym i32 = "32 word"
type_synonym i64 = "64 word"

type_synonym err = string

abbreviation (input) UINT8_MAX :: "'a::len word" where "UINT8_MAX \<equiv> 255"
abbreviation (input) UINT16_MAX :: "'a::len word" where "UINT16_MAX \<equiv> 65535"
abbreviation (input) UINT32_MAX :: "'a::len word" where "UINT32_MAX \<equiv> 4294967295"

named_theorems safe_read \<open>facts that a read of the model stays inside its buffer\<close>
named_theorems preserves \<open>facts that an operation keeps an invariant\<close>

section \<open>The convenience macros of the header\<close>

text \<open>\<open>SIMPLE_CMP\<close>, \<open>SIMPLE_MIN\<close>, \<open>SIMPLE_MAX\<close> and \<open>ICEIL\<close> of \<open>pointless_defs.h\<close>.\<close>

definition SIMPLE_CMP :: "'a::linorder \<Rightarrow> 'a \<Rightarrow> int" where
  "SIMPLE_CMP a b = (if a = b then 0 else if a < b then -1 else 1)"

definition SIMPLE_MIN :: "'a::linorder \<Rightarrow> 'a \<Rightarrow> 'a" where
  "SIMPLE_MIN a b = (if a < b then a else b)"

definition SIMPLE_MAX :: "'a::linorder \<Rightarrow> 'a \<Rightarrow> 'a" where
  "SIMPLE_MAX a b = (if a > b then a else b)"

definition ICEIL :: "'a::len word \<Rightarrow> 'a word \<Rightarrow> 'a word" where
  "ICEIL a d = (if a mod d \<noteq> 0 then a div d + 1 else a div d)"

lemma SIMPLE_CMP_eq_0 [simp]: "SIMPLE_CMP a b = 0 \<longleftrightarrow> a = b"
  by (simp add: SIMPLE_CMP_def)

lemma SIMPLE_CMP_less_0 [simp]: "SIMPLE_CMP a b < 0 \<longleftrightarrow> a < b"
  by (auto simp: SIMPLE_CMP_def)

lemma SIMPLE_CMP_greater_0 [simp]: "0 < SIMPLE_CMP a b \<longleftrightarrow> b < a"
  by (auto simp: SIMPLE_CMP_def)

lemma SIMPLE_CMP_swap: "SIMPLE_CMP b a = - SIMPLE_CMP a b"
  by (auto simp: SIMPLE_CMP_def)

lemma nat_ceil_8: "(n + 7) div 8 = (if n mod 8 \<noteq> 0 then n div 8 + 1 else n div (8::nat))"
proof -
  have "n = 8 * (n div 8) + n mod 8" by simp
  then obtain q r where n: "n = 8 * q + r" "r < 8" by (metis mod_less_divisor zero_less_numeral)
  then have "n div 8 = q" "n mod 8 = r" by simp_all
  moreover have "(n + 7) div 8 = q + (r + 7) div 8" using n by simp
  moreover have "(r + 7) div 8 = (if r = 0 then 0 else 1)"
    using n(2) by (simp add: nat_div_as_int) linarith
  ultimately show ?thesis by simp
qed

lemma unat_ICEIL_8: "unat (ICEIL (a :: u32) 8) = (unat a + 7) div 8"
proof -
  have d: "unat (a div 8) = unat a div 8" and m: "unat (a mod 8) = unat a mod 8"
    by (simp_all add: unat_div unat_mod)
  have "unat a < 2 ^ 32"
    using unsigned_less [of a] by simp
  then have "unat (a div 8) + unat (1 :: u32) < 2 ^ LENGTH(32)"
    by (simp add: d)
  then have "unat (a div 8 + 1) = unat a div 8 + 1"
    by (subst unat_add_lem [THEN iffD1]) (simp_all add: d)
  moreover have "a mod 8 = 0 \<longleftrightarrow> unat a mod 8 = 0"
    by (simp only: m [symmetric] unsigned_eq_0_iff)
  ultimately show ?thesis
    by (simp add: ICEIL_def d nat_ceil_8)
qed

section \<open>C arrays\<close>

text \<open>
  A pointer to an array is the list of the elements from the pointer to the end of its
  allocation; indexing past that list is undefined, which is \<open>None\<close>. A null pointer is the
  empty list.
\<close>

definition arr_get :: "'a list \<Rightarrow> nat \<Rightarrow> 'a option" where
  "arr_get xs i = (if i < length xs then Some (xs ! i) else None)"

lemma arr_get_Some_iff: "arr_get xs i = Some x \<longleftrightarrow> i < length xs \<and> xs ! i = x"
  by (auto simp: arr_get_def)

lemma arr_get_in [simp, safe_read]: "i < length xs \<Longrightarrow> arr_get xs i = Some (xs ! i)"
  by (simp add: arr_get_def)

lemma arr_get_None_iff: "arr_get xs i = None \<longleftrightarrow> length xs \<le> i"
  by (auto simp: arr_get_def)

text \<open>Writing to an array element; a write past the allocation is undefined.\<close>

definition arr_set :: "'a list \<Rightarrow> nat \<Rightarrow> 'a \<Rightarrow> 'a list option" where
  "arr_set xs i x = (if i < length xs then Some (xs[i := x]) else None)"

lemma arr_set_in [simp]: "i < length xs \<Longrightarrow> arr_set xs i x = Some (xs[i := x])"
  by (simp add: arr_set_def)

lemma arr_set_Some_iff: "arr_set xs i x = Some ys \<longleftrightarrow> i < length xs \<and> ys = xs[i := x]"
  by (auto simp: arr_set_def)

section \<open>Loops that may fail\<close>

text \<open>A \<open>for\<close> loop over the listed indices that threads a state and leaves at the first error.\<close>

fun for_loop :: "('i \<Rightarrow> 's \<Rightarrow> ('e + 's) option) \<Rightarrow> 'i list \<Rightarrow> 's \<Rightarrow> ('e + 's) option" where
  "for_loop f [] s = Some (Inr s)"
| "for_loop f (i # is) s =
     do { r \<leftarrow> f i s;
          (case r of Inl e \<Rightarrow> Some (Inl e) | Inr s' \<Rightarrow> for_loop f is s') }"

lemma for_loop_Cons_Inr:
  "for_loop f (i # is) s = Some (Inr s'') \<longleftrightarrow>
     (\<exists>s'. f i s = Some (Inr s') \<and> for_loop f is s' = Some (Inr s''))"
  by (cases "f i s") (auto split: sum.split)

lemma for_loop_invariant:
  assumes "for_loop f is s = Some (Inr s')" and "P s"
    and "\<And>i s s'. i \<in> set is \<Longrightarrow> P s \<Longrightarrow> f i s = Some (Inr s') \<Longrightarrow> P s'"
  shows "P s'"
  using assms by (induction "is" arbitrary: s) (auto simp: for_loop_Cons_Inr simp del: for_loop.simps(2))

text \<open>Later arguments cannot change what a loop over the same step computes.\<close>

lemma for_loop_cong [fundef_cong]:
  assumes "is = js" and "s = t" and "\<And>i s. i \<in> set js \<Longrightarrow> f i s = g i s"
  shows "for_loop f is s = for_loop g js t"
proof -
  have "for_loop f js t = for_loop g js t"
    using assms(3)
  proof (induction js arbitrary: t)
    case (Cons j js)
    then have "f j t = g j t" "for_loop f js = for_loop g js" by (simp_all add: fun_eq_iff)
    then show ?case by simp
  qed simp
  with assms(1,2) show ?thesis by simp
qed

section \<open>Little-endian bytes\<close>

fun le_word :: "u8 list \<Rightarrow> 'a::len word" where
  "le_word [] = 0"
| "le_word (b # bs) = ucast b OR push_bit 8 (le_word bs)"

text \<open>The same by arithmetic, which evaluates faster.\<close>

fun le_int :: "u8 list \<Rightarrow> int" where
  "le_int [] = 0"
| "le_int (b # bs) = uint b + 256 * le_int bs"

lemma le_word_code [code]: "le_word bs = word_of_int (le_int bs)"
proof (induction bs)
  case (Cons b bs)
  have "ucast b OR push_bit 8 w = ucast b + push_bit 8 w" for w :: "'a word"
    by (rule disjunctive_add [symmetric]) (auto simp: bit_simps dest: bit_imp_le_length)
  with Cons show ?case by (simp add: push_bit_eq_mult ac_simps)
qed simp

definition le_bytes :: "nat \<Rightarrow> 'a::len word \<Rightarrow> u8 list" where
  "le_bytes n w = map (\<lambda>k. ucast (drop_bit (8 * k) w)) [0..<n]"

lemma length_le_bytes [simp]: "length (le_bytes n w) = n"
  by (simp add: le_bytes_def)

lemma le_bytes_Suc: "le_bytes (Suc n) w = ucast w # le_bytes n (drop_bit 8 w)"
proof -
  have "[0..<Suc n] = 0 # map Suc [0..<n]"
    by (simp only: map_Suc_upt) (simp add: upt_conv_Cons)
  then show ?thesis
    by (simp add: le_bytes_def drop_bit_drop_bit o_def add.commute)
qed

lemma le_word_le_bytes: "le_word (le_bytes n (w :: 'a::len word)) = take_bit (8 * n) w"
proof (induction n arbitrary: w)
  case 0
  then show ?case by (simp add: le_bytes_def)
next
  case (Suc n)
  show ?case
    by (rule bit_word_eqI) (auto simp: le_bytes_Suc Suc bit_simps)
qed

lemma le_word_le_bytes_full [simp]:
  "LENGTH('a) \<le> 8 * n \<Longrightarrow> le_word (le_bytes n w) = (w :: 'a::len word)"
  by (simp add: le_word_le_bytes take_bit_word_eq_self)

text \<open>Reading an integer of \<open>n\<close> bytes at a byte position of a buffer.\<close>

definition read_le :: "nat \<Rightarrow> u8 list \<Rightarrow> nat \<Rightarrow> 'a::len word option" where
  "read_le n buf pos =
     (if pos + n \<le> length buf then Some (le_word (take n (drop pos buf))) else None)"

abbreviation read_u32 :: "u8 list \<Rightarrow> nat \<Rightarrow> u32 option" where "read_u32 \<equiv> read_le 4"
abbreviation read_u64 :: "u8 list \<Rightarrow> nat \<Rightarrow> u64 option" where "read_u64 \<equiv> read_le 8"

lemma read_le_Some_iff [safe_read]:
  "(\<exists>x. read_le n buf pos = Some x) \<longleftrightarrow> pos + n \<le> length buf"
  by (simp add: read_le_def)

lemma read_le_SomeD: "read_le n buf pos = Some x \<Longrightarrow> pos + n \<le> length buf"
  by (simp add: read_le_def split: if_splits)

lemma read_le_in [simp]:
  "pos + n \<le> length buf \<Longrightarrow> read_le n buf pos = Some (le_word (take n (drop pos buf)))"
  by (simp add: read_le_def)

text \<open>
  An array of \<open>n\<close>-byte integers that starts at a byte position is the list of all whole
  elements from there to the end of the buffer.
\<close>

function chunks :: "nat \<Rightarrow> u8 list \<Rightarrow> u8 list list" where
  "chunks n bs = (if n = 0 \<or> length bs < n then [] else take n bs # chunks n (drop n bs))"
  by pat_completeness auto
termination
  by (relation "measure (\<lambda>(n, bs). length bs)") auto

declare chunks.simps [simp del]

lemma chunks_code [code]:
  "chunks n bs =
     (let c = take n bs in if n = 0 \<or> length c < n then [] else c # chunks n (drop n bs))"
  by (subst chunks.simps) auto

definition view_le :: "nat \<Rightarrow> u8 list \<Rightarrow> nat \<Rightarrow> 'a::len word list" where
  "view_le n buf pos = map le_word (chunks n (drop pos buf))"

lemma length_chunks: "0 < n \<Longrightarrow> length (chunks n bs) = length bs div n"
proof (induction n bs rule: chunks.induct)
  case (1 n bs)
  then show ?case
    by (cases "length bs < n") (simp_all add: chunks.simps [of n bs] le_div_geq)
qed

lemma nth_chunks:
  "0 < n \<Longrightarrow> i < length bs div n \<Longrightarrow> chunks n bs ! i = take n (drop (n * i) bs)"
proof (induction n bs arbitrary: i rule: chunks.induct)
  case (1 n bs)
  then have ge: "\<not> length bs < n" by auto
  show ?case
  proof (cases i)
    case 0
    with 1 ge show ?thesis by (simp add: chunks.simps [of n bs])
  next
    case (Suc j)
    with 1 ge have "j < length (drop n bs) div n" by (simp add: le_div_geq)
    with 1 ge Suc show ?thesis by (simp add: chunks.simps [of n bs] add.commute)
  qed
qed

lemma length_view_le: "0 < n \<Longrightarrow> length (view_le n buf pos) = (length buf - pos) div n"
  by (simp add: view_le_def length_chunks)

lemma arr_get_view_le:
  assumes "0 < n"
  shows "arr_get (view_le n buf pos) i = read_le n buf (pos + n * i)"
proof (cases "pos + n * i + n \<le> length buf")
  case True
  then have "n * Suc i \<le> length buf - pos" by simp
  then have "Suc i \<le> (length buf - pos) div n"
    using assms by (metis div_le_mono nonzero_mult_div_cancel_left not_gr_zero)
  then have "i < (length buf - pos) div n" by simp
  with True assms show ?thesis
    by (simp add: arr_get_def length_view_le) (simp add: view_le_def length_chunks nth_chunks
        add.commute)
next
  case False
  have "\<not> i < (length buf - pos) div n"
  proof
    assume "i < (length buf - pos) div n"
    then have "Suc i * n \<le> (length buf - pos) div n * n" by (intro mult_le_mono1) simp
    also have "\<dots> \<le> length buf - pos" by simp
    finally show False using False assms by (simp add: algebra_simps)
  qed
  with False assms show ?thesis
    by (simp add: arr_get_def length_view_le read_le_def)
qed

section \<open>Lexicographic comparison\<close>

text \<open>
  The reference for every comparison of sequences in the code: the first differing elements decide,
  a proper prefix comes first.
\<close>

fun lex_cmp :: "('a \<Rightarrow> 'b \<Rightarrow> int) \<Rightarrow> 'a list \<Rightarrow> 'b list \<Rightarrow> int" where
  "lex_cmp c [] [] = 0"
| "lex_cmp c [] (y # ys) = -1"
| "lex_cmp c (x # xs) [] = 1"
| "lex_cmp c (x # xs) (y # ys) = (if c x y \<noteq> 0 then c x y else lex_cmp c xs ys)"

lemma lex_cmp_eq_0: "(\<And>x y. c x y = 0 \<longleftrightarrow> x = y) \<Longrightarrow> lex_cmp c xs ys = 0 \<longleftrightarrow> xs = ys"
  by (induction c xs ys rule: lex_cmp.induct) auto

lemma lex_cmp_swap:
  "(\<And>x y. d y x = - c x y) \<Longrightarrow> lex_cmp d ys xs = - lex_cmp c xs ys"
  by (induction c xs ys rule: lex_cmp.induct) auto

lemma lex_cmp_trans_le:
  assumes "\<And>x y. c x y = 0 \<longleftrightarrow> x = y" and "\<And>x y z. c x y < 0 \<Longrightarrow> c y z < 0 \<Longrightarrow> c x z < 0"
    and "lex_cmp c xs ys < 0" and "lex_cmp c ys zs < 0"
  shows "lex_cmp c xs zs < 0"
  using assms(3,4)
proof (induction xs arbitrary: ys zs)
  case Nil
  then show ?case by (cases ys; cases zs) (auto split: if_splits)
next
  case (Cons x xs)
  then obtain y ys' z zs' where eq: "ys = y # ys'" "zs = z # zs'"
    by (cases ys; cases zs) auto
  show ?case
  proof (cases "c x y = 0 \<and> c y z = 0")
    case True
    then have "c x z = 0" using assms(1) by metis
    with True Cons eq show ?thesis by auto
  next
    case False
    with Cons.prems eq have "c x y < 0 \<and> c y z < 0 \<or> c x y < 0 \<and> y = z \<or> x = y \<and> c y z < 0"
      using assms(1) by (auto split: if_splits)
    then have "c x z < 0" using assms(2) by blast
    with eq show ?thesis by auto
  qed
qed

section \<open>Generic lemmas\<close>

lemma bind_eq_Some_E:
  assumes "Option.bind m f = Some y"
  obtains x where "m = Some x" and "f x = Some y"
  using assms by (cases m) auto

lemma unat_u32_less [simp]: "unat (w :: u32) < 4294967296"
  using unsigned_less [of w] by simp

lemma unat_u64_less [simp]: "unat (w :: u64) < 18446744073709551616"
  using unsigned_less [of w] by simp

lemma unat_plus_one: "n < len \<Longrightarrow> unat (n + 1) = unat n + 1" for n len :: "'a::len word"
proof -
  assume "n < len"
  then have "Suc (unat n) \<le> unat len" by (simp add: word_less_nat_alt)
  also have "unat len < 2 ^ LENGTH('a)" by (rule unsigned_less)
  finally have "unat n + 1 < 2 ^ LENGTH('a)" by simp
  then show ?thesis by (simp add: unat_word_ariths)
qed

lemma unat_ucast_up:
  "LENGTH('a::len) \<le> LENGTH('b::len) \<Longrightarrow> unat (ucast (w :: 'a word) :: 'b word) = unat w"
  by (simp add: unsigned_ucast_eq take_bit_nat_eq_self_iff order_less_le_trans [OF unsigned_less])

end
