(* ===== verification/Probe_Sequence.thy ===== *)
theory Probe_Sequence
  imports Prelude
begin

text \<open>
  The probing recurrence of the hash tables, \<open>i = 5 * i + perturb + 1; perturb >>= 5\<close> on
  \<open>uint32_t\<close>, and the number theory behind the claim in the comments of
  \<open>src/pointless_hash_table.c\<close>: in a table of \<open>2 ^ k\<close> buckets the sequence visits every bucket. The
  perturbation is zero after seven steps; from then on the recurrence is a linear congruential
  generator of full period.
\<close>

unbundle bit_operations_syntax

section \<open>The recurrence\<close>

definition probe_next :: "u32 \<times> u32 \<Rightarrow> u32 \<times> u32" where
  "probe_next s = (case s of (i, perturb) \<Rightarrow> (push_bit 2 i + i + perturb + 1, drop_bit 5 perturb))"

definition probe_state :: "u32 \<Rightarrow> nat \<Rightarrow> u32 \<times> u32" where
  "probe_state h m = (probe_next ^^ m) (h, h)"

definition probe_bucket :: "u32 \<Rightarrow> u32 \<Rightarrow> nat \<Rightarrow> nat" where
  "probe_bucket h msk m = unat (fst (probe_state h m) AND msk)"

lemma probe_state_0 [simp]: "probe_state h 0 = (h, h)"
  by (simp add: probe_state_def)

lemma probe_state_Suc [simp]: "probe_state h (Suc m) = probe_next (probe_state h m)"
  by (simp add: probe_state_def)

lemma perturb_after: "snd (probe_state h m) = drop_bit (5 * m) h"
  by (induction m) (auto simp: probe_next_def drop_bit_drop_bit split: prod.split)

lemma perturb_zero: "7 \<le> m \<Longrightarrow> snd (probe_state h m) = 0"
  by (simp add: perturb_after bit_word_eqI bit_simps)

lemma probe_step_linear:
  assumes "7 \<le> m"
  shows "fst (probe_state h (Suc m)) = 5 * fst (probe_state h m) + 1"
proof -
  have "push_bit 2 w + w = 5 * w" for w :: u32
    by (simp add: push_bit_eq_mult)
  moreover obtain i where "probe_state h m = (i, 0)"
    using perturb_zero [OF assms, of h] by (metis prod.collapse)
  ultimately show ?thesis by (simp add: probe_next_def)
qed

section \<open>The period of the linear recurrence\<close>

fun lcg :: "int \<Rightarrow> nat \<Rightarrow> int" where
  "lcg x 0 = x"
| "lcg x (Suc m) = 5 * lcg x m + 1"

lemma lcg_closed: "4 * lcg x m + 1 = 5 ^ m * (4 * x + 1)"
  by (induction m) simp_all

lemma five_pow_mod_4: "(5 :: int) ^ e mod 4 = 1"
  by (induction e) (simp_all add: mod_mult_right_eq [symmetric])

lemma five_pow_odd_mod_8: "odd e \<Longrightarrow> (5 :: int) ^ e mod 8 = 5"
proof -
  assume "odd e"
  then obtain k where e: "e = 2 * k + 1" by (elim oddE)
  have step: "(25 * x) mod 8 = 5" if "x mod 8 = 5" for x :: int
  proof -
    have "(25 * x) mod 8 = (25 mod 8) * (x mod 8) mod 8" by (rule mod_mult_eq [symmetric])
    then show ?thesis by (simp add: that)
  qed
  have "(5 * 25 ^ k) mod 8 = (5 :: int)"
  proof (induction k)
    case (Suc k)
    show ?case using step [OF Suc] by (simp add: mult.left_commute)
  qed simp
  then show ?thesis by (simp add: e power_mult)
qed

lemma two_pow_dvd_mult_odd: "odd q \<Longrightarrow> 2 ^ n dvd a * q \<longleftrightarrow> 2 ^ n dvd a"
  for a q :: int
  by (rule coprime_dvd_mult_left_iff) (simp add: coprime_power_left_iff)

lemma four_residue:
  fixes x :: int
  assumes "x mod 4 = 1"
  shows "x + 1 = 2 * ((x + 1) div 2)" "odd ((x + 1) div 2)"
proof -
  obtain m where x: "x = 4 * m + 1" using assms by (metis mult_div_mod_eq)
  show "x + 1 = 2 * ((x + 1) div 2)" "odd ((x + 1) div 2)" by (simp_all add: x)
qed

text \<open>The multiplicative order of 5 modulo \<open>2 ^ (k + 2)\<close> is a multiple of \<open>2 ^ k\<close>.\<close>

lemma order_of_five: "2 ^ (k + 2) dvd (5 :: int) ^ d - 1 \<Longrightarrow> 2 ^ k dvd d"
proof (induction k arbitrary: d)
  case 0
  then show ?case by simp
next
  case (Suc k)
  have "(2 :: int) ^ 3 dvd 2 ^ (Suc k + 2)" by (rule le_imp_power_dvd) simp
  then have "8 dvd (5 :: int) ^ d - 1" using Suc.prems dvd_trans by fastforce
  then have "(5 :: int) ^ d mod 8 = 1" using mod_eq_dvd_iff [of "(5 :: int) ^ d" 8 1] by simp
  then have "even d" using five_pow_odd_mod_8 [of d] by auto
  then obtain e where d: "d = 2 * e" by blast
  define q where "q = ((5 :: int) ^ e + 1) div 2"
  have q: "(5 :: int) ^ e + 1 = 2 * q" "odd q"
    using four_residue [OF five_pow_mod_4 [of e]] unfolding q_def by simp_all
  have "(5 :: int) ^ d - 1 = (5 ^ e - 1) * (5 ^ e + 1)"
    by (simp add: d power_mult power2_eq_square algebra_simps flip: power_mult_distrib)
  with q have "(5 :: int) ^ d - 1 = 2 * ((5 ^ e - 1) * q)" by simp
  with Suc.prems have "2 * 2 ^ (k + 2) dvd 2 * ((5 ^ e - 1) * q)" by (simp add: ac_simps)
  then have "2 ^ (k + 2) dvd (5 ^ e - 1) * q" by (simp only: dvd_mult_cancel_left, simp)
  then have "2 ^ (k + 2) dvd (5 :: int) ^ e - 1"
    using two_pow_dvd_mult_odd [OF q(2)] by blast
  then have "2 ^ k dvd e" by (rule Suc.IH)
  then show ?case by (simp add: d)
qed

lemma lcg_add: "lcg x (m + d) = lcg (lcg x m) d"
  by (induction d) simp_all

lemma lcg_collide:
  assumes "2 ^ k dvd lcg x d - x"
  shows "2 ^ k dvd d"
proof -
  have "(2 :: int) ^ (k + 2) = 2 ^ k * 4" by (simp add: power_add)
  then have "2 ^ (k + 2) dvd (lcg x d - x) * 4" using assms by (metis mult_dvd_mono dvd_refl)
  also have "(lcg x d - x) * 4 = (5 ^ d - 1) * (4 * x + 1)"
    using lcg_closed [of x d] by (simp add: algebra_simps)
  finally have "2 ^ (k + 2) dvd (5 :: int) ^ d - 1"
    by (subst (asm) two_pow_dvd_mult_odd) simp_all
  then show ?thesis by (rule order_of_five)
qed

lemma lcg_inj: "inj_on (\<lambda>m. lcg x m mod 2 ^ k) {..<2 ^ k}"
proof (rule linorder_inj_onI)
  fix m n :: nat
  assume "m < n" and n: "n \<in> {..<2 ^ k}"
  show "lcg x m mod 2 ^ k \<noteq> lcg x n mod 2 ^ k"
  proof
    assume "lcg x m mod 2 ^ k = lcg x n mod 2 ^ k"
    then have "2 ^ k dvd lcg (lcg x m) (n - m) - lcg x m"
      using lcg_add [of x m "n - m"] \<open>m < n\<close> by (simp add: mod_eq_dvd_iff [symmetric])
    then have "2 ^ k dvd n - m" by (rule lcg_collide)
    with n \<open>m < n\<close> show False by (auto dest: dvd_imp_le)
  qed
qed auto

lemma lcg_full_period:
  assumes "0 \<le> b" "b < 2 ^ k"
  shows "\<exists>m < 2 ^ k. lcg x m mod 2 ^ k = b"
proof -
  let ?f = "\<lambda>m. lcg x m mod 2 ^ k"
  have "?f ` {..<2 ^ k} \<subseteq> {0..<2 ^ k}" by auto
  moreover have "card (?f ` {..<2 ^ k}) = 2 ^ k" by (simp add: card_image [OF lcg_inj])
  ultimately have "?f ` {..<2 ^ k} = {0..<2 ^ k}"
    by (intro card_subset_eq) (simp_all add: nat_power_eq)
  moreover have "b \<in> {0..<2 ^ k}" using assms by simp
  ultimately have "b \<in> ?f ` {..<2 ^ k}" by simp
  then show ?thesis by (elim imageE) (simp, metis lessThan_iff)
qed

section \<open>Every bucket is visited\<close>

lemma probe_state_lcg:
  "fst (probe_state h (7 + m)) = word_of_int (lcg (uint (fst (probe_state h 7))) m)"
proof (induction m)
  case 0
  show ?case by simp
next
  case (Suc m)
  have "fst (probe_state h (Suc (7 + m))) = 5 * fst (probe_state h (7 + m)) + 1"
    by (rule probe_step_linear) simp
  then show ?case using Suc by simp
qed

lemma bucket_of_mask:
  fixes i :: u32
  assumes "k < 32"
  shows "unat (i AND (2 ^ k - 1)) = nat (uint i mod 2 ^ k)"
proof -
  have "i AND (2 ^ k - 1) = take_bit k i" by (simp add: take_bit_eq_mask mask_eq_exp_minus_1)
  moreover have "uint (take_bit k i) = uint i mod 2 ^ k"
    by (subst unsigned_take_bit_eq) (rule take_bit_eq_mod)
  ultimately have "uint (i AND (2 ^ k - 1)) = uint i mod 2 ^ k" by (rule ssubst)
  then show ?thesis by (simp only: unat_eq_nat_uint)
qed

lemma probe_visits:
  assumes "k < 32" "b < 2 ^ k"
  shows "\<exists>m < 7 + 2 ^ k. probe_bucket h (2 ^ k - 1) m = b"
proof -
  obtain m where m: "m < 2 ^ k" "lcg (uint (fst (probe_state h 7))) m mod 2 ^ k = int b"
    using lcg_full_period [of "int b" k] assms(2) by auto
  have "uint (word_of_int z :: u32) mod 2 ^ k = z mod 2 ^ k" for z
  proof -
    have "(2 :: int) ^ k dvd 2 ^ 32" using assms(1) by (intro le_imp_power_dvd) simp
    then show ?thesis by (simp add: uint_word_of_int mod_mod_cancel)
  qed
  then have "probe_bucket h (2 ^ k - 1) (7 + m) = b"
    by (simp only: probe_bucket_def bucket_of_mask [OF assms(1)] probe_state_lcg m(2) nat_int)
  with m(1) show ?thesis by (intro exI [of _ "7 + m"]) simp
qed

lemma probe_bucket_less:
  assumes "k < 32"
  shows "probe_bucket h (2 ^ k - 1) m < 2 ^ k"
proof -
  have "uint i mod 2 ^ k < 2 ^ k" for i :: u32 by simp
  then show ?thesis
    by (simp add: probe_bucket_def bucket_of_mask [OF assms] nat_less_iff)
qed

end
