(* ===== verification/Pointless_Defs.thy ===== *)
theory Pointless_Defs
  imports Prelude
begin

text \<open>
  The data model of \<open>include/pointless/pointless_defs.h\<close>: the type tags, the 32-bit and 64-bit
  data unions (kept as the raw word, with one reader per member, in the little-endian layout and
  the low-bits-first bitfield order of the compilers the code targets), the value records of the
  file and of the creation phase, and the headers of the file format.
\<close>

unbundle bit_operations_syntax

section \<open>Type tags\<close>

abbreviation (input) POINTLESS_VECTOR_VALUE :: u32 where "POINTLESS_VECTOR_VALUE \<equiv> 0"
abbreviation (input) POINTLESS_VECTOR_VALUE_HASHABLE :: u32 where "POINTLESS_VECTOR_VALUE_HASHABLE \<equiv> 1"
abbreviation (input) POINTLESS_VECTOR_I8 :: u32 where "POINTLESS_VECTOR_I8 \<equiv> 2"
abbreviation (input) POINTLESS_VECTOR_U8 :: u32 where "POINTLESS_VECTOR_U8 \<equiv> 3"
abbreviation (input) POINTLESS_VECTOR_I16 :: u32 where "POINTLESS_VECTOR_I16 \<equiv> 4"
abbreviation (input) POINTLESS_VECTOR_U16 :: u32 where "POINTLESS_VECTOR_U16 \<equiv> 5"
abbreviation (input) POINTLESS_VECTOR_I32 :: u32 where "POINTLESS_VECTOR_I32 \<equiv> 6"
abbreviation (input) POINTLESS_VECTOR_U32 :: u32 where "POINTLESS_VECTOR_U32 \<equiv> 7"
abbreviation (input) POINTLESS_VECTOR_FLOAT :: u32 where "POINTLESS_VECTOR_FLOAT \<equiv> 8"
abbreviation (input) POINTLESS_VECTOR_EMPTY :: u32 where "POINTLESS_VECTOR_EMPTY \<equiv> 9"
abbreviation (input) POINTLESS_VECTOR_I64 :: u32 where "POINTLESS_VECTOR_I64 \<equiv> 25"
abbreviation (input) POINTLESS_VECTOR_U64 :: u32 where "POINTLESS_VECTOR_U64 \<equiv> 26"
abbreviation (input) POINTLESS_UNICODE :: u32 where "POINTLESS_UNICODE \<equiv> 10"
abbreviation (input) POINTLESS_STRING :: u32 where "POINTLESS_STRING \<equiv> 29"
abbreviation (input) POINTLESS_BITVECTOR :: u32 where "POINTLESS_BITVECTOR \<equiv> 11"
abbreviation (input) POINTLESS_BITVECTOR_0 :: u32 where "POINTLESS_BITVECTOR_0 \<equiv> 12"
abbreviation (input) POINTLESS_BITVECTOR_1 :: u32 where "POINTLESS_BITVECTOR_1 \<equiv> 13"
abbreviation (input) POINTLESS_BITVECTOR_01 :: u32 where "POINTLESS_BITVECTOR_01 \<equiv> 14"
abbreviation (input) POINTLESS_BITVECTOR_10 :: u32 where "POINTLESS_BITVECTOR_10 \<equiv> 15"
abbreviation (input) POINTLESS_BITVECTOR_PACKED :: u32 where "POINTLESS_BITVECTOR_PACKED \<equiv> 16"
abbreviation (input) POINTLESS_SET_VALUE :: u32 where "POINTLESS_SET_VALUE \<equiv> 17"
abbreviation (input) POINTLESS_MAP_VALUE_VALUE :: u32 where "POINTLESS_MAP_VALUE_VALUE \<equiv> 18"
abbreviation (input) POINTLESS_EMPTY_SLOT :: u32 where "POINTLESS_EMPTY_SLOT \<equiv> 19"
abbreviation (input) POINTLESS_I32 :: u32 where "POINTLESS_I32 \<equiv> 20"
abbreviation (input) POINTLESS_U32 :: u32 where "POINTLESS_U32 \<equiv> 21"
abbreviation (input) POINTLESS_FLOAT :: u32 where "POINTLESS_FLOAT \<equiv> 22"
abbreviation (input) POINTLESS_BOOLEAN :: u32 where "POINTLESS_BOOLEAN \<equiv> 23"
abbreviation (input) POINTLESS_NULL :: u32 where "POINTLESS_NULL \<equiv> 24"
abbreviation (input) POINTLESS_I64 :: u32 where "POINTLESS_I64 \<equiv> 27"
abbreviation (input) POINTLESS_U64 :: u32 where "POINTLESS_U64 \<equiv> 28"

abbreviation (input) POINTLESS_FF_VERSION_OFFSET_32_OLDHASH :: u32
  where "POINTLESS_FF_VERSION_OFFSET_32_OLDHASH \<equiv> 0"
abbreviation (input) POINTLESS_FF_VERSION_OFFSET_32_NEWHASH :: u32
  where "POINTLESS_FF_VERSION_OFFSET_32_NEWHASH \<equiv> 1"
abbreviation (input) POINTLESS_FF_VERSION_OFFSET_64_NEWHASH :: u32
  where "POINTLESS_FF_VERSION_OFFSET_64_NEWHASH \<equiv> 2"

abbreviation (input) POINTLESS_CREATE_VALUE_FAIL :: u32 where "POINTLESS_CREATE_VALUE_FAIL \<equiv> UINT32_MAX"
abbreviation (input) POINTLESS_MAX_DEPTH :: nat where "POINTLESS_MAX_DEPTH \<equiv> 512"

section \<open>The data unions\<close>

type_synonym pointless_value_data_t = u32
type_synonym pointless_complete_value_data_t = u64

definition bitvector_packed_n_bits :: "pointless_value_data_t \<Rightarrow> u32" where
  "bitvector_packed_n_bits d = take_bit 5 d"

definition bitvector_packed_bits :: "pointless_value_data_t \<Rightarrow> u32" where
  "bitvector_packed_bits d = drop_bit 5 d"

definition bitvector_n_bits_a :: "pointless_value_data_t \<Rightarrow> u16" where
  "bitvector_n_bits_a d = ucast d"

definition bitvector_n_bits_b :: "pointless_value_data_t \<Rightarrow> u16" where
  "bitvector_n_bits_b d = ucast (drop_bit 16 d)"

text \<open>Writing the members.\<close>

definition mk_bitvector_packed :: "u32 \<Rightarrow> u32 \<Rightarrow> pointless_value_data_t" where
  "mk_bitvector_packed n bits = take_bit 5 n OR push_bit 5 bits"

definition mk_bitvector_01_or_10 :: "u16 \<Rightarrow> u16 \<Rightarrow> pointless_value_data_t" where
  "mk_bitvector_01_or_10 a b = ucast a OR push_bit 16 (ucast b)"

text \<open>\<open>data_u32\<close> and \<open>data_i32\<close> of the 64-bit union are its low half.\<close>

definition complete_data_u32 :: "pointless_complete_value_data_t \<Rightarrow> u32" where
  "complete_data_u32 d = ucast d"

lemma bitvector_n_bits_a_mk [simp]: "bitvector_n_bits_a (mk_bitvector_01_or_10 a b) = a"
  by (rule bit_word_eqI) (auto simp: bitvector_n_bits_a_def mk_bitvector_01_or_10_def bit_simps)

lemma bitvector_n_bits_b_mk [simp]: "bitvector_n_bits_b (mk_bitvector_01_or_10 a b) = b"
  by (rule bit_word_eqI)
    (auto simp: bitvector_n_bits_b_def mk_bitvector_01_or_10_def bit_simps dest: bit_imp_le_length)

lemma bitvector_packed_n_bits_mk_take:
  "bitvector_packed_n_bits (mk_bitvector_packed n bits) = take_bit 5 n"
  by (rule bit_word_eqI)
    (auto simp: bitvector_packed_n_bits_def mk_bitvector_packed_def bit_simps)

lemma bitvector_packed_n_bits_mk:
  assumes "n < 32"
  shows "bitvector_packed_n_bits (mk_bitvector_packed n bits) = n"
proof -
  from assms have "unat n < 32" by (simp add: word_less_nat_alt)
  then have "take_bit 5 n = n"
    by (simp add: take_bit_eq_mod word_unat_eq_iff unat_mod)
  then show ?thesis by (simp add: bitvector_packed_n_bits_mk_take)
qed

section \<open>Values\<close>

record pointless_value_t =
  v_type :: u32
  v_data :: pointless_value_data_t

record pointless_complete_value_t =
  cv_type :: u32
  cv_data :: pointless_complete_value_data_t

text \<open>
  The creation header packs a 29-bit type and three flags in one word. Every type stored there is
  one of the tags above, so the type is kept at 32 bits; the one place that stores a caller's tag
  cuts it to 29 bits itself.
\<close>

record pointless_create_value_header_t =
  type_29 :: u32
  is_compressed_vector :: bool
  is_set_map_vector :: bool
  is_outside_vector :: bool

record pointless_create_value_t =
  cr_header :: pointless_create_value_header_t
  cr_data :: pointless_value_data_t

record pointless_complete_create_value_t =
  cc_header :: pointless_create_value_header_t
  cc_data :: pointless_complete_value_data_t

section \<open>The file headers\<close>

record pointless_header_t =
  root :: pointless_value_t
  n_string_unicode :: u32
  n_vector :: u32
  n_bitvector :: u32
  n_set :: u32
  n_map :: u32
  version :: u32

text \<open>The map header extends the set header by one vector; both are read from the heap.\<close>

record pointless_set_header_t =
  sh_n_items :: u32
  sh_padding :: u32
  sh_hash_vector :: pointless_value_t
  sh_key_vector :: pointless_value_t

record pointless_map_header_t =
  mh_n_items :: u32
  mh_padding :: u32
  mh_hash_vector :: pointless_value_t
  mh_key_vector :: pointless_value_t
  mh_value_vector :: pointless_value_t

end
