(* ===== verification/Float32.thy ===== *)
theory Float32
  imports Prelude
begin

text \<open>
  What the code uses of C's \<open>float\<close>: the IEEE 754 single format read from its 32 bits, the
  comparisons \<open>==\<close> and \<open><\<close>, the conversion from an integer (round to nearest, ties to even), and
  the exact widening to \<open>double\<close> followed by \<open>modf\<close>. A finite value is an integer number of the
  smallest subnormal, \<open>2 ^ -149\<close>; both zeros are the value 0.
\<close>

unbundle bit_operations_syntax

datatype f32 = F_NaN | F_Inf bool | F_Fin int

definition f32_bits_val :: "u32 \<Rightarrow> f32" where
  "f32_bits_val w =
     (let neg = bit w 31; e = unat (take_bit 8 (drop_bit 23 w)); m = uint (take_bit 23 w);
          s = (if neg then -1 else 1)
      in if e = 255 then (if m = 0 then F_Inf neg else F_NaN)
         else if e = 0 then F_Fin (s * m)
         else F_Fin (s * (8388608 + m) * 2 ^ (e - 1)))"

fun f32_eq :: "f32 \<Rightarrow> f32 \<Rightarrow> bool" where
  "f32_eq F_NaN _ = False"
| "f32_eq _ F_NaN = False"
| "f32_eq (F_Inf a) (F_Inf b) = (a = b)"
| "f32_eq (F_Fin a) (F_Fin b) = (a = b)"
| "f32_eq _ _ = False"

fun f32_less :: "f32 \<Rightarrow> f32 \<Rightarrow> bool" where
  "f32_less F_NaN _ = False"
| "f32_less _ F_NaN = False"
| "f32_less (F_Inf a) (F_Inf b) = (a \<and> \<not> b)"
| "f32_less (F_Inf a) (F_Fin _) = a"
| "f32_less (F_Fin _) (F_Inf b) = (\<not> b)"
| "f32_less (F_Fin a) (F_Fin b) = (a < b)"

text \<open>\<open>SIMPLE_CMP\<close> at type \<open>float\<close>.\<close>

definition SIMPLE_CMP_f :: "f32 \<Rightarrow> f32 \<Rightarrow> int" where
  "SIMPLE_CMP_f a b = (if f32_eq a b then 0 else if f32_less a b then -1 else 1)"

lemma SIMPLE_CMP_f_Fin [simp]: "SIMPLE_CMP_f (F_Fin a) (F_Fin b) = SIMPLE_CMP a b"
  by (simp add: SIMPLE_CMP_f_def SIMPLE_CMP_def)

lemma SIMPLE_CMP_f_swap:
  "a \<noteq> F_NaN \<Longrightarrow> b \<noteq> F_NaN \<Longrightarrow> SIMPLE_CMP_f b a = - SIMPLE_CMP_f a b"
  by (cases a; cases b) (auto simp: SIMPLE_CMP_f_def)

text \<open>Number of bits of a natural number, and rounding to 24 significant bits.\<close>

fun bit_len :: "nat \<Rightarrow> nat" where
  "bit_len n = (if n = 0 then 0 else Suc (bit_len (n div 2)))"

declare bit_len.simps [simp del]

definition round24 :: "nat \<Rightarrow> nat" where
  "round24 n =
     (if n < 16777216 then n
      else let e = bit_len n - 24; q = n div 2 ^ e; r = n mod 2 ^ e; h = 2 ^ (e - 1)
           in (if h < r \<or> (r = h \<and> odd q) then q + 1 else q) * 2 ^ e)"

definition f32_of_int :: "int \<Rightarrow> f32" where
  "f32_of_int n = F_Fin (sgn n * int (round24 (nat \<bar>n\<bar>)) * 2 ^ 149)"

lemma f32_of_int_small: "\<bar>n\<bar> < 16777216 \<Longrightarrow> f32_of_int n = F_Fin (n * 2 ^ 149)"
proof -
  assume "\<bar>n\<bar> < 16777216"
  then have "nat \<bar>n\<bar> < 16777216" by linarith
  then have "round24 (nat \<bar>n\<bar>) = nat \<bar>n\<bar>" by (simp add: round24_def)
  then show ?thesis by (simp add: f32_of_int_def sgn_mult_abs)
qed

text \<open>
  The integer value of a float without fraction: what \<open>modf((double)f, &di)\<close> leaves in \<open>di\<close> when
  it returns 0.0. Infinities have no fraction either, but no integer value; \<open>None\<close> covers them, a
  fraction, and NaN, since the code treats all of them alike.
\<close>

definition f32_integral :: "f32 \<Rightarrow> int option" where
  "f32_integral f =
     (case f of F_Fin k \<Rightarrow> (if k mod 2 ^ 149 = 0 then Some (k div 2 ^ 149) else None) | _ \<Rightarrow> None)"

lemma f32_integral_Fin_mult [simp]: "f32_integral (F_Fin (n * 2 ^ 149)) = Some n"
  by (simp add: f32_integral_def)

lemma f32_integral_SomeD: "f32_integral f = Some n \<Longrightarrow> f = F_Fin (n * 2 ^ 149)"
  by (auto simp: f32_integral_def split: f32.splits if_splits)

end
