(* ===== verification/Value.thy ===== *)
theory Value
  imports Pointless_Defs Float32
begin

text \<open>
  \<open>src/pointless_value.c\<close>: the constructors of creation-time and read-time values, the accessors,
  the conversions between the 64-bit and 96-bit value forms, and the type classifiers.
\<close>

unbundle bit_operations_syntax

section \<open>Creation-time values\<close>

definition mk_header :: "u32 \<Rightarrow> pointless_create_value_header_t" where
  "mk_header t = \<lparr>type_29 = t, is_compressed_vector = False, is_set_map_vector = False,
                  is_outside_vector = False\<rparr>"

definition pointless_value_create_i32 :: "i32 \<Rightarrow> pointless_create_value_t" where
  "pointless_value_create_i32 v = \<lparr>cr_header = mk_header POINTLESS_I32, cr_data = v\<rparr>"

definition pointless_value_create_u32 :: "u32 \<Rightarrow> pointless_create_value_t" where
  "pointless_value_create_u32 v = \<lparr>cr_header = mk_header POINTLESS_U32, cr_data = v\<rparr>"

definition pointless_value_create_float :: "u32 \<Rightarrow> pointless_create_value_t" where
  "pointless_value_create_float v = \<lparr>cr_header = mk_header POINTLESS_FLOAT, cr_data = v\<rparr>"

definition pointless_value_create_bool_false :: pointless_create_value_t where
  "pointless_value_create_bool_false = \<lparr>cr_header = mk_header POINTLESS_BOOLEAN, cr_data = 0\<rparr>"

definition pointless_value_create_bool_true :: pointless_create_value_t where
  "pointless_value_create_bool_true = \<lparr>cr_header = mk_header POINTLESS_BOOLEAN, cr_data = 1\<rparr>"

definition pointless_value_create_null :: pointless_create_value_t where
  "pointless_value_create_null = \<lparr>cr_header = mk_header POINTLESS_NULL, cr_data = 0\<rparr>"

definition pointless_value_create_empty_slot :: pointless_create_value_t where
  "pointless_value_create_empty_slot = \<lparr>cr_header = mk_header POINTLESS_EMPTY_SLOT, cr_data = 0\<rparr>"

section \<open>Read-time values\<close>

definition pointless_value_create_as_read_i32 :: "i32 \<Rightarrow> pointless_value_t" where
  "pointless_value_create_as_read_i32 v = \<lparr>v_type = POINTLESS_I32, v_data = v\<rparr>"

definition pointless_value_create_as_read_u32 :: "u32 \<Rightarrow> pointless_value_t" where
  "pointless_value_create_as_read_u32 v = \<lparr>v_type = POINTLESS_U32, v_data = v\<rparr>"

definition pointless_value_create_as_read_float :: "u32 \<Rightarrow> pointless_value_t" where
  "pointless_value_create_as_read_float v = \<lparr>v_type = POINTLESS_FLOAT, v_data = v\<rparr>"

definition pointless_value_create_as_read_bool_false :: pointless_value_t where
  "pointless_value_create_as_read_bool_false = \<lparr>v_type = POINTLESS_BOOLEAN, v_data = 0\<rparr>"

definition pointless_value_create_as_read_bool_true :: pointless_value_t where
  "pointless_value_create_as_read_bool_true = \<lparr>v_type = POINTLESS_BOOLEAN, v_data = 1\<rparr>"

definition pointless_value_create_as_read_null :: pointless_value_t where
  "pointless_value_create_as_read_null = \<lparr>v_type = POINTLESS_NULL, v_data = 0\<rparr>"

definition pointless_value_create_as_read_empty_slot :: pointless_value_t where
  "pointless_value_create_as_read_empty_slot = \<lparr>v_type = POINTLESS_EMPTY_SLOT, v_data = 0\<rparr>"

section \<open>Conversions between the 64-bit and the 96-bit form\<close>

definition pointless_value_from_complete :: "pointless_complete_value_t \<Rightarrow> pointless_value_t" where
  "pointless_value_from_complete a =
     \<lparr>v_type = cv_type a, v_data = complete_data_u32 (cv_data a)\<rparr>"

definition pointless_value_to_complete :: "pointless_value_t \<Rightarrow> pointless_complete_value_t" where
  "pointless_value_to_complete a = \<lparr>cv_type = v_type a, cv_data = ucast (v_data a)\<rparr>"

definition pointless_create_value_from_complete ::
    "pointless_complete_create_value_t \<Rightarrow> pointless_create_value_t" where
  "pointless_create_value_from_complete a =
     \<lparr>cr_header = cc_header a, cr_data = complete_data_u32 (cc_data a)\<rparr>"

definition pointless_create_value_to_complete ::
    "pointless_create_value_t \<Rightarrow> pointless_complete_create_value_t" where
  "pointless_create_value_to_complete a = \<lparr>cc_header = cr_header a, cc_data = ucast (cr_data a)\<rparr>"

section \<open>Values that exist only while hashing and comparing\<close>

definition pointless_complete_value_create_i32 :: "i32 \<Rightarrow> pointless_complete_create_value_t" where
  "pointless_complete_value_create_i32 v =
     pointless_create_value_to_complete (pointless_value_create_i32 v)"

definition pointless_complete_value_create_u32 :: "u32 \<Rightarrow> pointless_complete_create_value_t" where
  "pointless_complete_value_create_u32 v =
     pointless_create_value_to_complete (pointless_value_create_u32 v)"

definition pointless_complete_value_create_i64 :: "i64 \<Rightarrow> pointless_complete_create_value_t" where
  "pointless_complete_value_create_i64 v = \<lparr>cc_header = mk_header POINTLESS_I64, cc_data = v\<rparr>"

definition pointless_complete_value_create_u64 :: "u64 \<Rightarrow> pointless_complete_create_value_t" where
  "pointless_complete_value_create_u64 v = \<lparr>cc_header = mk_header POINTLESS_U64, cc_data = v\<rparr>"

definition pointless_complete_value_create_float :: "u32 \<Rightarrow> pointless_complete_create_value_t" where
  "pointless_complete_value_create_float v =
     pointless_create_value_to_complete (pointless_value_create_float v)"

definition pointless_complete_value_create_as_read_i32 :: "i32 \<Rightarrow> pointless_complete_value_t" where
  "pointless_complete_value_create_as_read_i32 v =
     pointless_value_to_complete (pointless_value_create_as_read_i32 v)"

definition pointless_complete_value_create_as_read_u32 :: "u32 \<Rightarrow> pointless_complete_value_t" where
  "pointless_complete_value_create_as_read_u32 v =
     pointless_value_to_complete (pointless_value_create_as_read_u32 v)"

definition pointless_complete_value_create_as_read_i64 :: "i64 \<Rightarrow> pointless_complete_value_t" where
  "pointless_complete_value_create_as_read_i64 v = \<lparr>cv_type = POINTLESS_I64, cv_data = v\<rparr>"

definition pointless_complete_value_create_as_read_u64 :: "u64 \<Rightarrow> pointless_complete_value_t" where
  "pointless_complete_value_create_as_read_u64 v = \<lparr>cv_type = POINTLESS_U64, cv_data = v\<rparr>"

definition pointless_complete_value_create_as_read_float :: "u32 \<Rightarrow> pointless_complete_value_t" where
  "pointless_complete_value_create_as_read_float v =
     pointless_value_to_complete (pointless_value_create_as_read_float v)"

definition pointless_complete_value_create_as_read_null :: pointless_complete_value_t where
  "pointless_complete_value_create_as_read_null =
     pointless_value_to_complete pointless_value_create_as_read_null"

section \<open>Accessors\<close>

text \<open>The asserts on the type are compiled out, so the accessors only select a union member.\<close>

definition pointless_value_get_i32 :: "u32 \<Rightarrow> pointless_value_data_t \<Rightarrow> i32" where
  "pointless_value_get_i32 t v = v"

definition pointless_value_get_u32 :: "u32 \<Rightarrow> pointless_value_data_t \<Rightarrow> u32" where
  "pointless_value_get_u32 t v = v"

definition pointless_value_get_float :: "u32 \<Rightarrow> pointless_value_data_t \<Rightarrow> u32" where
  "pointless_value_get_float t v = v"

definition pointless_value_get_bool :: "u32 \<Rightarrow> pointless_value_data_t \<Rightarrow> u32" where
  "pointless_value_get_bool t v = v"

definition pointless_get_int_as_int64 :: "u32 \<Rightarrow> pointless_value_data_t \<Rightarrow> i64" where
  "pointless_get_int_as_int64 t v =
     (if t = POINTLESS_I32 then scast (pointless_value_get_i32 t v)
      else ucast (pointless_value_get_u32 t v))"

definition pointless_create_value_get_i32 :: "pointless_create_value_t \<Rightarrow> i32" where
  "pointless_create_value_get_i32 v = cr_data v"

definition pointless_create_value_get_u32 :: "pointless_create_value_t \<Rightarrow> u32" where
  "pointless_create_value_get_u32 v = cr_data v"

definition pointless_create_value_get_float :: "pointless_create_value_t \<Rightarrow> u32" where
  "pointless_create_value_get_float v = cr_data v"

definition pointless_create_get_int_as_int64 :: "pointless_create_value_t \<Rightarrow> i64" where
  "pointless_create_get_int_as_int64 v =
     (if type_29 (cr_header v) = POINTLESS_I32 then scast (pointless_create_value_get_i32 v)
      else ucast (pointless_create_value_get_u32 v))"

definition pointless_complete_value_get_as_i64 ::
    "u32 \<Rightarrow> pointless_complete_value_data_t \<Rightarrow> i64" where
  "pointless_complete_value_get_as_i64 t v =
     (if t = POINTLESS_I32 then scast (complete_data_u32 v)
      else if t = POINTLESS_BOOLEAN then ucast (complete_data_u32 v)
      else if t = POINTLESS_I64 then v
      else 0)"

definition pointless_complete_value_get_as_u64 ::
    "u32 \<Rightarrow> pointless_complete_value_data_t \<Rightarrow> u64" where
  "pointless_complete_value_get_as_u64 t v =
     (if t \<in> {POINTLESS_U32, POINTLESS_BOOLEAN} then ucast (complete_data_u32 v)
      else if t = POINTLESS_U64 then v
      else 0)"

definition pointless_complete_value_get_float ::
    "u32 \<Rightarrow> pointless_complete_value_data_t \<Rightarrow> u32" where
  "pointless_complete_value_get_float t v = complete_data_u32 v"

section \<open>Classification of types\<close>

definition pointless_is_vector_type :: "u32 \<Rightarrow> bool" where
  "pointless_is_vector_type t \<longleftrightarrow>
     t \<in> {POINTLESS_VECTOR_VALUE, POINTLESS_VECTOR_VALUE_HASHABLE, POINTLESS_VECTOR_I8,
          POINTLESS_VECTOR_U8, POINTLESS_VECTOR_I16, POINTLESS_VECTOR_U16, POINTLESS_VECTOR_I32,
          POINTLESS_VECTOR_U32, POINTLESS_VECTOR_I64, POINTLESS_VECTOR_U64,
          POINTLESS_VECTOR_FLOAT, POINTLESS_VECTOR_EMPTY}"

definition pointless_is_integer_type :: "u32 \<Rightarrow> bool" where
  "pointless_is_integer_type t \<longleftrightarrow>
     t \<in> {POINTLESS_I32, POINTLESS_U32, POINTLESS_I64, POINTLESS_U64}"

definition pointless_is_bitvector_type :: "u32 \<Rightarrow> bool" where
  "pointless_is_bitvector_type t \<longleftrightarrow>
     t \<in> {POINTLESS_BITVECTOR, POINTLESS_BITVECTOR_0, POINTLESS_BITVECTOR_1,
          POINTLESS_BITVECTOR_01, POINTLESS_BITVECTOR_10, POINTLESS_BITVECTOR_PACKED}"

section \<open>Lemmas\<close>

lemma complete_data_u32_ucast [simp]: "complete_data_u32 (ucast (d :: u32)) = d"
  by (rule bit_word_eqI) (simp add: complete_data_u32_def bit_simps)

lemma value_from_to_complete [simp]:
  "pointless_value_from_complete (pointless_value_to_complete v) = v"
  by (simp add: pointless_value_from_complete_def pointless_value_to_complete_def)

lemma create_value_from_to_complete [simp]:
  "pointless_create_value_from_complete (pointless_create_value_to_complete v) = v"
  by (simp add: pointless_create_value_from_complete_def pointless_create_value_to_complete_def)

lemma cv_type_to_complete [simp]: "cv_type (pointless_value_to_complete v) = v_type v"
  by (simp add: pointless_value_to_complete_def)

lemma cv_data_to_complete [simp]: "cv_data (pointless_value_to_complete v) = ucast (v_data v)"
  by (simp add: pointless_value_to_complete_def)

lemma sint_scast_i64 [simp]: "sint (scast (w :: 32 word) :: 64 word) = sint w"
  by (rule sint_up_scast) (simp add: is_up)

lemma uint_ucast_u64 [simp]: "uint (ucast (w :: 32 word) :: 64 word) = uint w"
  by (simp add: uint_up_ucast is_up)

end
