(* ===== verification/Hash_Table.thy ===== *)
theory Hash_Table
  imports Probe_Sequence Value
begin

text \<open>
  \<open>src/pointless_hash_table.c\<close>: the open-addressing hash tables of sets and maps. Loops that may not
  end are \<open>partial_function\<close>s over \<open>option\<close>, so that not returning is \<open>None\<close>. The key comparison is a
  parameter of the two loops here (\<open>pointless_cmp_reader\<close>, the caller's callback, or
  \<open>pointless_cmp_create\<close>); the theories that import this one instantiate it.
\<close>

unbundle bit_operations_syntax

section \<open>The number of buckets\<close>

partial_function (option) next_power_of_2_loop :: "u32 \<Rightarrow> u32 \<Rightarrow> u32 option" where
  "next_power_of_2_loop n p = (if p < n then next_power_of_2_loop n (push_bit 1 p) else Some p)"

declare next_power_of_2_loop.simps [code]

definition next_power_of_2 :: "u32 \<Rightarrow> u32 option" where
  "next_power_of_2 n = next_power_of_2_loop n 1"

definition pointless_hash_compute_n_buckets :: "u32 \<Rightarrow> u32 option" where
  "pointless_hash_compute_n_buckets n_items =
     (if n_items = 1 then Some 2 else next_power_of_2 (n_items + n_items div 2))"

section \<open>Probing for a key\<close>

abbreviation (input) POINTLESS_HASH_TABLE_PROBE_MISS :: u32
  where "POINTLESS_HASH_TABLE_PROBE_MISS \<equiv> UINT32_MAX"
abbreviation (input) POINTLESS_HASH_TABLE_PROBE_ERROR :: u32
  where "POINTLESS_HASH_TABLE_PROBE_ERROR \<equiv> 4294967294"

text \<open>
  The equality test answers \<open>Inr is_equal\<close>, or \<open>Inl\<close> the error that makes the probe answer
  \<open>POINTLESS_HASH_TABLE_PROBE_ERROR\<close>; that answer is the \<open>Inl\<close> of the result.
\<close>

partial_function (option) probe_loop ::
    "(pointless_complete_value_t \<Rightarrow> (err + bool) option) \<Rightarrow> u32 \<Rightarrow> u32 \<Rightarrow> u32 list \<Rightarrow>
     pointless_value_t list \<Rightarrow> u32 \<Rightarrow> u32 \<Rightarrow> (err + u32) option" where
  "probe_loop eq value_hash msk hash_vector key_vector i perturb =
     (let bucket = i AND msk in
      do { k \<leftarrow> arr_get key_vector (unat bucket);
           if v_type k = POINTLESS_EMPTY_SLOT then Some (Inr POINTLESS_HASH_TABLE_PROBE_MISS)
           else do {
             h \<leftarrow> arr_get hash_vector (unat bucket);
             if value_hash = h then do {
               r \<leftarrow> eq (pointless_value_to_complete k);
               (case r of
                  Inl e \<Rightarrow> Some (Inl e)
                | Inr is_equal \<Rightarrow>
                    if is_equal then Some (Inr bucket)
                    else probe_loop eq value_hash msk hash_vector key_vector
                           (push_bit 2 i + i + perturb + 1) (drop_bit 5 perturb)) }
             else probe_loop eq value_hash msk hash_vector key_vector
                    (push_bit 2 i + i + perturb + 1) (drop_bit 5 perturb) } })"

declare probe_loop.simps [code]

definition pointless_hash_table_probe_priv ::
    "(pointless_complete_value_t \<Rightarrow> (err + bool) option) \<Rightarrow> u32 \<Rightarrow> u32 \<Rightarrow> u32 list \<Rightarrow>
     pointless_value_t list \<Rightarrow> (err + u32) option" where
  "pointless_hash_table_probe_priv eq value_hash n_buckets hash_vector key_vector =
     probe_loop eq value_hash (n_buckets - 1) hash_vector key_vector value_hash value_hash"

text \<open>
  The caller's callback answers a \<open>uint32_t\<close>, any non-zero of which means equal.
\<close>

definition pointless_hash_table_probe_ext ::
    "u32 \<Rightarrow> (pointless_complete_value_t \<Rightarrow> (err + u32) option) \<Rightarrow> u32 \<Rightarrow> u32 list \<Rightarrow>
     pointless_value_t list \<Rightarrow> (err + u32) option" where
  "pointless_hash_table_probe_ext value_hash cb n_buckets hash_vector key_vector =
     pointless_hash_table_probe_priv
       (\<lambda>v_a. map_option (map_sum id (\<lambda>r. r \<noteq> 0)) (cb v_a))
       value_hash n_buckets hash_vector key_vector"

section \<open>The hash iterator\<close>

record pointless_hash_iter_state_t =
  it_perturb :: u32
  it_i :: u32
  it_mask :: u32

definition pointless_hash_table_probe_hash_init :: "u32 \<Rightarrow> u32 \<Rightarrow> pointless_hash_iter_state_t" where
  "pointless_hash_table_probe_hash_init value_hash n_buckets =
     \<lparr>it_perturb = value_hash, it_i = value_hash, it_mask = n_buckets - 1\<rparr>"

text \<open>The answer is the bucket and the advanced state, or \<open>None\<close> inside when the probe has ended.\<close>

definition pointless_hash_table_probe_hash ::
    "pointless_value_t list \<Rightarrow> pointless_hash_iter_state_t \<Rightarrow>
     (u32 \<times> pointless_hash_iter_state_t) option option" where
  "pointless_hash_table_probe_hash key_vector state =
     (let bucket = it_i state AND it_mask state in
      do { k \<leftarrow> arr_get key_vector (unat bucket);
           if v_type k = POINTLESS_EMPTY_SLOT then Some None
           else Some (Some (bucket,
             state\<lparr>it_i := push_bit 2 (it_i state) + it_i state + it_perturb state + 1,
                   it_perturb := drop_bit 5 (it_perturb state)\<rparr>)) })"

section \<open>Filling a table\<close>

record hash_table =
  hash_serialize :: "u32 list"
  keys_serialize :: "u32 list"
  values_serialize :: "u32 list option"

definition store_slot :: "hash_table \<Rightarrow> nat \<Rightarrow> u32 \<Rightarrow> u32 \<Rightarrow> u32 option \<Rightarrow> hash_table option" where
  "store_slot tbl bucket value_hash key val =
     do { hs \<leftarrow> arr_set (hash_serialize tbl) bucket value_hash;
          ks \<leftarrow> arr_set (keys_serialize tbl) bucket key;
          (case values_serialize tbl of
             None \<Rightarrow> Some (tbl\<lparr>hash_serialize := hs, keys_serialize := ks\<rparr>)
           | Some vs \<Rightarrow> do {
               v \<leftarrow> val;
               vs' \<leftarrow> arr_set vs bucket v;
               Some (tbl\<lparr>hash_serialize := hs, keys_serialize := ks,
                         values_serialize := Some vs'\<rparr>) }) }"

partial_function (option) populate_slot_loop ::
    "(u32 \<Rightarrow> u32 \<Rightarrow> (err + int) option) \<Rightarrow> u32 \<Rightarrow> u32 \<Rightarrow> u32 \<Rightarrow> u32 \<Rightarrow> u32 option \<Rightarrow> hash_table \<Rightarrow>
     u32 \<Rightarrow> u32 \<Rightarrow> (err + hash_table) option" where
  "populate_slot_loop cmp empty_slot_handle msk value_hash key val tbl i perturb =
     (let bucket = unat (i AND msk) in
      do { k \<leftarrow> arr_get (keys_serialize tbl) bucket;
           if k = empty_slot_handle then map_option Inr (store_slot tbl bucket value_hash key val)
           else do {
             h \<leftarrow> arr_get (hash_serialize tbl) bucket;
             if h = value_hash then do {
               r \<leftarrow> cmp k key;
               (case r of
                  Inl e \<Rightarrow> Some (Inl e)
                | Inr c \<Rightarrow>
                    if c = 0 then Some (Inl ''there are duplicate keys in the set/map'')
                    else populate_slot_loop cmp empty_slot_handle msk value_hash key val tbl
                           (push_bit 2 i + i + perturb + 1) (drop_bit 5 perturb)) }
             else populate_slot_loop cmp empty_slot_handle msk value_hash key val tbl
                    (push_bit 2 i + i + perturb + 1) (drop_bit 5 perturb) } })"

declare populate_slot_loop.simps [code]

definition values_at :: "u32 list option \<Rightarrow> nat \<Rightarrow> u32 option" where
  "values_at values_vector j = (case values_vector of None \<Rightarrow> None | Some vs \<Rightarrow> arr_get vs j)"

fun populate_loop ::
    "(u32 \<Rightarrow> u32 \<Rightarrow> (err + int) option) \<Rightarrow> u32 \<Rightarrow> u32 \<Rightarrow> u32 list \<Rightarrow> u32 list \<Rightarrow> u32 list option \<Rightarrow>
     nat list \<Rightarrow> hash_table \<Rightarrow> (err + hash_table) option" where
  "populate_loop cmp empty_slot_handle msk hash_vector keys_vector values_vector [] tbl =
     Some (Inr tbl)"
| "populate_loop cmp empty_slot_handle msk hash_vector keys_vector values_vector (j # js) tbl =
     do { value_hash \<leftarrow> arr_get hash_vector j;
          key \<leftarrow> arr_get keys_vector j;
          r \<leftarrow> populate_slot_loop cmp empty_slot_handle msk value_hash key
                 (values_at values_vector j) tbl value_hash value_hash;
          (case r of
             Inl e \<Rightarrow> Some (Inl e)
           | Inr tbl' \<Rightarrow> populate_loop cmp empty_slot_handle msk hash_vector keys_vector
                           values_vector js tbl') }"

text \<open>The checks that precede the filling, in their order.\<close>

fun populate_check_keys :: "u32 list \<Rightarrow> u32 \<Rightarrow> nat list \<Rightarrow> (err + unit) option" where
  "populate_check_keys keys_vector empty_slot_handle [] = Some (Inr ())"
| "populate_check_keys keys_vector empty_slot_handle (j # js) =
     do { k \<leftarrow> arr_get keys_vector j;
          if k = empty_slot_handle
          then Some (Inl ''pointless_hash_table_populate(): internal invariant error A'')
          else populate_check_keys keys_vector empty_slot_handle js }"

fun populate_check_buckets :: "hash_table \<Rightarrow> u32 \<Rightarrow> nat list \<Rightarrow> (err + unit) option" where
  "populate_check_buckets tbl empty_slot_handle [] = Some (Inr ())"
| "populate_check_buckets tbl empty_slot_handle (j # js) =
     do { h \<leftarrow> arr_get (hash_serialize tbl) j;
          if h \<noteq> 0 then Some (Inl ''pointless_hash_table_populate(): internal invariant error B'')
          else do {
            k \<leftarrow> arr_get (keys_serialize tbl) j;
            if k \<noteq> empty_slot_handle
            then Some (Inl ''pointless_hash_table_populate(): internal invariant error C'')
            else (case values_serialize tbl of
                    None \<Rightarrow> populate_check_buckets tbl empty_slot_handle js
                  | Some vs \<Rightarrow> do {
                      v \<leftarrow> arr_get vs j;
                      if v \<noteq> empty_slot_handle
                      then Some (Inl ''pointless_hash_table_populate(): internal invariant error D'')
                      else populate_check_buckets tbl empty_slot_handle js }) } }"

definition pointless_hash_table_populate ::
    "(u32 \<Rightarrow> u32 \<Rightarrow> (err + int) option) \<Rightarrow> u32 list \<Rightarrow> u32 list \<Rightarrow> u32 list option \<Rightarrow> u32 \<Rightarrow> hash_table \<Rightarrow>
     u32 \<Rightarrow> u32 \<Rightarrow> (err + hash_table) option" where
  "pointless_hash_table_populate cmp hash_vector keys_vector values_vector n_keys tbl n_buckets
       empty_slot_handle =
     (if n_keys > 0 \<and> (values_vector = None) \<noteq> (values_serialize tbl = None) then
        Some (Inl (''pointless_hash_table_populate(): caller must specify either both of '' @
                   ''values_vector/values_serialize or neither''))
      else do {
        a \<leftarrow> populate_check_keys keys_vector empty_slot_handle [0..<unat n_keys];
        (case a of
           Inl e \<Rightarrow> Some (Inl e)
         | Inr _ \<Rightarrow> do {
             b \<leftarrow> populate_check_buckets tbl empty_slot_handle [0..<unat n_buckets];
             (case b of
                Inl e \<Rightarrow> Some (Inl e)
              | Inr _ \<Rightarrow> populate_loop cmp empty_slot_handle (n_buckets - 1) hash_vector
                           keys_vector values_vector [0..<unat n_keys] tbl) }) })"

end
