(* ===== verification/Hash_Table_Laws.thy ===== *)
theory Hash_Table_Laws
  imports Hash_Table
begin

text \<open>
  Correctness of the hash tables of \<open>src/pointless_hash_table.c\<close>: the number of buckets, the result
  of both probing loops as the first bucket at which they stop, their termination, what
  \<open>pointless_hash_table_populate\<close> puts where, and that a later probe finds exactly the keys put in.
\<close>

unbundle bit_operations_syntax

section \<open>The number of buckets\<close>

lemma shift_power:
  assumes "k < 31"
  shows "push_bit 1 ((2 :: u32) ^ k) = 2 ^ Suc k"
  by (simp add: push_bit_eq_mult)

lemma unat_power_u32: "unat ((2 :: u32) ^ k) = 2 ^ k mod 2 ^ 32"
proof -
  have "(2 :: u32) ^ k = of_nat (2 ^ k)" by simp
  then show ?thesis by (simp only: unat_of_nat) simp
qed

lemma power_u32_less: "k < 32 \<Longrightarrow> unat ((2 :: u32) ^ k) = 2 ^ k"
  by (simp only: unat_power_u32, rule mod_less, rule power_strict_increasing) simp_all

lemma next_power_of_2_loop_terminates:
  assumes "k \<le> 31" and "n \<le> 2 ^ 31" and "k = 0 \<or> 2 ^ (k - 1) < n"
  shows "\<exists>j \<le> 31. next_power_of_2_loop n (2 ^ k) = Some (2 ^ j) \<and> n \<le> 2 ^ j \<and>
           (j = 0 \<or> 2 ^ (j - 1) < n)"
  using assms
proof (induction "31 - k" arbitrary: k)
  case 0
  then have k: "k = 31" by simp
  with 0 have "next_power_of_2_loop n (2 ^ k) = Some (2 ^ k)"
    by (subst next_power_of_2_loop.simps) (simp add: not_less [symmetric] del: not_less)
  with 0 k show ?case by (intro exI [of _ 31]) simp
next
  case (Suc d)
  show ?case
  proof (cases "2 ^ k < n")
    case True
    have "next_power_of_2_loop n (2 ^ k) = next_power_of_2_loop n (2 ^ Suc k)"
      using True Suc(2) by (subst next_power_of_2_loop.simps) (simp only: shift_power if_True)
    moreover have "\<exists>j \<le> 31. next_power_of_2_loop n (2 ^ Suc k) = Some (2 ^ j) \<and> n \<le> 2 ^ j \<and>
        (j = 0 \<or> 2 ^ (j - 1) < n)"
      using True Suc.prems Suc(2) by (intro Suc(1)) simp_all
    ultimately show ?thesis by simp
  next
    case False
    then have "next_power_of_2_loop n (2 ^ k) = Some (2 ^ k)"
      by (subst next_power_of_2_loop.simps) simp
    with False Suc.prems show ?thesis by (intro exI [of _ k]) (simp add: not_less)
  qed
qed

text \<open>A result of the loop is a shifted one and is at least \<open>n\<close>.\<close>

lemma next_power_of_2_loop_result:
  assumes "next_power_of_2_loop n p = Some y"
  shows "n \<le> y \<and> (\<exists>k. y = push_bit k p)"
  using assms
proof (induction rule: next_power_of_2_loop.raw_induct [rotated, consumes 1, case_names step])
  case (step loop n p y)
  show ?case
  proof (cases "p < n")
    case True
    with step(2) have "loop n (push_bit 1 p) = Some y" by simp
    from step(1) [OF this] obtain k where "n \<le> y" "y = push_bit k (push_bit 1 p)" by blast
    then have "n \<le> y \<and> y = push_bit (Suc k) p"
      by (simp only: push_bit_push_bit) simp
    then show ?thesis by blast
  next
    case False
    with step(2) show ?thesis by (auto intro: exI [of _ 0])
  qed
qed

lemma push_bit_1_le: "push_bit k (1 :: u32) \<le> 2 ^ 31"
proof (cases "k < 32")
  case True
  then have "(2 :: nat) ^ k \<le> 2 ^ 31" by (intro power_increasing) simp_all
  with True have "unat ((2 :: u32) ^ k) \<le> unat ((2 :: u32) ^ 31)"
    by (simp only: power_u32_less)
  then show ?thesis by (metis push_bit_of_1 word_le_nat_alt)
next
  case False
  then have "(2 :: nat) ^ 32 dvd 2 ^ k" by (intro le_imp_power_dvd) simp
  then have "unat ((2 :: u32) ^ k) = 0" by (simp only: unat_power_u32 mod_eq_0_iff_dvd)
  then have "(2 :: u32) ^ k = 0" by (simp only: unsigned_eq_0_iff)
  then show ?thesis by (simp only: push_bit_of_1) simp
qed

lemma next_power_of_2_hangs: "2 ^ 31 < n \<Longrightarrow> next_power_of_2 n = None"
proof (rule ccontr)
  assume n: "2 ^ 31 < n" and "next_power_of_2 n \<noteq> None"
  then obtain y where "next_power_of_2_loop n 1 = Some y" by (auto simp: next_power_of_2_def)
  from next_power_of_2_loop_result [OF this] push_bit_1_le have "n \<le> 2 ^ 31"
    using order_trans by blast
  with n show False by simp
qed

lemma next_power_of_2_exact:
  assumes "n \<le> 2 ^ 31"
  shows "\<exists>j \<le> 31. next_power_of_2 n = Some (2 ^ j) \<and> n \<le> 2 ^ j \<and> (j = 0 \<or> 2 ^ (j - 1) < n)"
  using next_power_of_2_loop_terminates [of 0 n] assms by (simp add: next_power_of_2_def)

lemma sum_half_unat:
  assumes "unat (n :: u32) + unat n div 2 < 2 ^ 32"
  shows "unat (n + n div 2) = unat n + unat n div 2"
  using assms by (simp add: unat_word_ariths unat_div)

lemma n_buckets_some:
  assumes "unat n + unat n div 2 \<le> 2 ^ 31"
  shows "\<exists>k \<le> 31. pointless_hash_compute_n_buckets n = Some (2 ^ k) \<and> unat n < 2 ^ k"
proof (cases "n = 1")
  case True
  then show ?thesis
    by (intro exI [of _ 1]) (simp add: pointless_hash_compute_n_buckets_def)
next
  case False
  let ?m = "n + n div 2"
  have m: "unat ?m = unat n + unat n div 2" by (rule sum_half_unat) (use assms in simp)
  then have "unat ?m \<le> unat ((2 :: u32) ^ 31)" using assms by simp
  then have "?m \<le> 2 ^ 31" by (simp only: word_le_nat_alt)
  from next_power_of_2_exact [OF this] obtain j where
    j: "j \<le> 31" "next_power_of_2 ?m = Some (2 ^ j)" "?m \<le> 2 ^ j" by blast
  have "unat ?m \<le> 2 ^ j" using j(1,3) by (simp only: word_le_nat_alt) (simp add: power_u32_less)
  moreover have "unat n < unat ?m \<or> unat n = 0"
  proof -
    have "unat n \<noteq> 1" using False by (simp add: word_unat_eq_iff)
    then show ?thesis using m by linarith
  qed
  ultimately have "unat n < 2 ^ j" by auto
  with j False show ?thesis by (auto simp: pointless_hash_compute_n_buckets_def)
qed

section \<open>A probing loop stops at the first bucket that ends it\<close>

text \<open>
  Both loops have this shape: a bucket either ends the loop with a result or passes it on to the
  next state of the recurrence.
\<close>

definition probing_loop :: "(u32 \<Rightarrow> u32 \<Rightarrow> 'r) \<Rightarrow> (nat \<Rightarrow> 'r option) \<Rightarrow> u32 \<Rightarrow> bool" where
  "probing_loop F act msk \<longleftrightarrow>
     (\<forall>i q. F i q = (case act (unat (i AND msk)) of
        Some r \<Rightarrow> r
      | None \<Rightarrow> F (push_bit 2 i + i + q + 1) (drop_bit 5 q)))"

lemma probing_loop_step:
  assumes "probing_loop F act msk"
  shows "act (unat (i AND msk)) = Some r \<Longrightarrow> F i q = r"
    and "act (unat (i AND msk)) = None \<Longrightarrow> F i q = F (push_bit 2 i + i + q + 1) (drop_bit 5 q)"
  by (subst assms [unfolded probing_loop_def, rule_format], simp)+

lemma probe_state_advance:
  assumes loop: "probing_loop F act msk"
    and pass: "\<forall>m' < m. act (probe_bucket h msk m') = None"
  shows "F h h = F (fst (probe_state h m)) (snd (probe_state h m))"
  using pass
proof (induction m)
  case 0
  show ?case by simp
next
  case (Suc m)
  obtain i q where iq: "probe_state h m = (i, q)" by (metis prod.collapse)
  have "act (unat (i AND msk)) = None"
    using Suc.prems [rule_format, of m] iq by (simp add: probe_bucket_def)
  then have "F i q = F (push_bit 2 i + i + q + 1) (drop_bit 5 q)"
    by (rule probing_loop_step(2) [OF loop])
  moreover have "F h h = F i q" using Suc iq by simp
  ultimately show ?case by (simp add: probe_next_def iq)
qed

lemma probing_stops:
  assumes loop: "probing_loop F act msk"
    and pass: "\<forall>m' < m. act (probe_bucket h msk m') = None"
    and stop: "act (probe_bucket h msk m) = Some r"
  shows "F h h = r"
proof -
  have "F h h = F (fst (probe_state h m)) (snd (probe_state h m))"
    by (rule probe_state_advance [OF loop pass])
  also have "\<dots> = r"
    by (rule probing_loop_step(1) [OF loop stop [unfolded probe_bucket_def]])
  finally show ?thesis .
qed

text \<open>In a table of \<open>2 ^ k\<close> buckets with one that ends the loop, the loop ends.\<close>

lemma first_stop:
  assumes "k < 32" and "b < 2 ^ k" and "act b \<noteq> None"
  shows "\<exists>m < 7 + 2 ^ k. act (probe_bucket h (2 ^ k - 1) m) \<noteq> None \<and>
           (\<forall>m' < m. act (probe_bucket h (2 ^ k - 1) m') = None)"
proof -
  let ?P = "\<lambda>m. act (probe_bucket h (2 ^ k - 1) m) \<noteq> None"
  obtain n where n: "n < 7 + 2 ^ k" "?P n"
    using probe_visits [OF assms(1,2), of h] assms(3) by auto
  define M where "M = (LEAST m. ?P m)"
  have "?P M" unfolding M_def by (rule LeastI [of ?P, OF n(2)])
  moreover have "M \<le> n" unfolding M_def by (rule Least_le [of ?P, OF n(2)])
  with n(1) have "M < 7 + 2 ^ k" by (rule le_less_trans [rotated])
  moreover have "\<forall>m' < M. \<not> ?P m'" unfolding M_def using not_less_Least by blast
  ultimately show ?thesis by blast
qed

section \<open>The result of a probe\<close>

text \<open>What the reading loop does at a bucket: end with a result, or pass.\<close>

definition probe_act ::
    "(pointless_complete_value_t \<Rightarrow> (err + bool) option) \<Rightarrow> u32 \<Rightarrow> u32 list \<Rightarrow>
     pointless_value_t list \<Rightarrow> nat \<Rightarrow> (err + u32) option option" where
  "probe_act eq value_hash hv kv b =
     (case arr_get kv b of
        None \<Rightarrow> Some None
      | Some k \<Rightarrow>
          if v_type k = POINTLESS_EMPTY_SLOT then Some (Some (Inr POINTLESS_HASH_TABLE_PROBE_MISS))
          else (case arr_get hv b of
                  None \<Rightarrow> Some None
                | Some h \<Rightarrow>
                    if value_hash \<noteq> h then None
                    else (case eq (pointless_value_to_complete k) of
                            None \<Rightarrow> Some None
                          | Some (Inl e) \<Rightarrow> Some (Some (Inl e))
                          | Some (Inr is_equal) \<Rightarrow>
                              if is_equal then Some (Some (Inr (of_nat b))) else None)))"

lemmas loop_case_simps = Let_def option.case Option.bind.simps sum.case option.map

lemma probe_loop_act_bucket:
 "probe_loop eq h msk hv kv i q = (case probe_act eq h hv kv (unat (i AND msk)) of Some r \<Rightarrow> r
      | None \<Rightarrow> probe_loop eq h msk hv kv (push_bit 2 i + i + q + 1) (drop_bit 5 q))"
proof (cases "arr_get kv (unat (i AND msk))")
  case None
  then show ?thesis
    by (subst probe_loop.simps) (simp only: probe_act_def loop_case_simps)
next
  case k: (Some k)
  show ?thesis
  proof (cases "arr_get hv (unat (i AND msk))")
    case None
    with k show ?thesis
      by (subst probe_loop.simps)
        (simp only: probe_act_def loop_case_simps split: if_split, simp)
  next
    case h': (Some h')
    show ?thesis
    proof (cases "eq (pointless_value_to_complete k)")
      case None
      with k h' show ?thesis
        by (subst probe_loop.simps)
          (simp only: probe_act_def loop_case_simps split: if_split, simp)
    next
      case r: (Some r)
      with k h' show ?thesis
        by (subst probe_loop.simps, simp only: probe_act_def loop_case_simps, cases r)
          (simp_all only: probe_act_def loop_case_simps split: if_split, simp_all)
    qed
  qed
qed

lemma probe_loop_act:
  "probing_loop (probe_loop eq h msk hv kv) (probe_act eq h hv kv) msk"
  unfolding probing_loop_def by (intro allI probe_loop_act_bucket)

text \<open>Whatever the equality test, a table with an empty slot or a match never makes a probe hang.\<close>

lemma probe_stops:
  assumes "k < 32" and "b < 2 ^ k" and "probe_act eq h hv kv b \<noteq> None"
  shows "\<exists>m < 7 + 2 ^ k. probe_act eq h hv kv (probe_bucket h (2 ^ k - 1) m) =
             Some (pointless_hash_table_probe_priv eq h (2 ^ k) hv kv) \<and>
           (\<forall>m' < m. probe_act eq h hv kv (probe_bucket h (2 ^ k - 1) m') = None)"
proof -
  let ?act = "probe_act eq h hv kv"
  obtain m r where m: "m < 7 + 2 ^ k" "?act (probe_bucket h (2 ^ k - 1) m) = Some r"
    "\<forall>m' < m. ?act (probe_bucket h (2 ^ k - 1) m') = None"
    using first_stop [of k b ?act h] assms by auto
  have "probe_loop eq h (2 ^ k - 1) hv kv h h = r"
    by (rule probing_stops [OF probe_loop_act m(3,2)])
  with m show ?thesis by (auto simp: pointless_hash_table_probe_priv_def)
qed

section \<open>Filling a table\<close>

text \<open>What the filling loop does at a bucket.\<close>

definition slot_act ::
    "(u32 \<Rightarrow> u32 \<Rightarrow> (err + int) option) \<Rightarrow> u32 \<Rightarrow> u32 \<Rightarrow> u32 \<Rightarrow> u32 option \<Rightarrow> hash_table \<Rightarrow> nat \<Rightarrow>
     (err + hash_table) option option" where
  "slot_act cmp e value_hash key val tbl b =
     (case arr_get (keys_serialize tbl) b of
        None \<Rightarrow> Some None
      | Some k \<Rightarrow>
          if k = e then Some (map_option Inr (store_slot tbl b value_hash key val))
          else (case arr_get (hash_serialize tbl) b of
                  None \<Rightarrow> Some None
                | Some h \<Rightarrow>
                    if h \<noteq> value_hash then None
                    else (case cmp k key of
                            None \<Rightarrow> Some None
                          | Some (Inl err) \<Rightarrow> Some (Some (Inl err))
                          | Some (Inr c) \<Rightarrow>
                              if c = 0
                              then Some (Some (Inl ''there are duplicate keys in the set/map''))
                              else None)))"

lemma slot_loop_act_bucket:
  "populate_slot_loop cmp e msk vh key val tbl i q =
     (case slot_act cmp e vh key val tbl (unat (i AND msk)) of Some r \<Rightarrow> r
      | None \<Rightarrow> populate_slot_loop cmp e msk vh key val tbl
                  (push_bit 2 i + i + q + 1) (drop_bit 5 q))"
proof (cases "arr_get (keys_serialize tbl) (unat (i AND msk))")
  case None
  then show ?thesis
    by (subst populate_slot_loop.simps) (simp only: slot_act_def loop_case_simps)
next
  case k: (Some k)
  show ?thesis
  proof (cases "arr_get (hash_serialize tbl) (unat (i AND msk))")
    case None
    with k show ?thesis
      by (subst populate_slot_loop.simps)
        (simp only: slot_act_def loop_case_simps split: if_split, simp)
  next
    case h': (Some h')
    show ?thesis
    proof (cases "cmp k key")
      case None
      with k h' show ?thesis
        by (subst populate_slot_loop.simps)
          (simp only: slot_act_def loop_case_simps split: if_split, simp)
    next
      case r: (Some r)
      with k h' show ?thesis
        by (subst populate_slot_loop.simps, simp only: slot_act_def loop_case_simps, cases r)
          (simp_all only: slot_act_def loop_case_simps split: if_split, simp_all)
    qed
  qed
qed

lemma slot_loop_act:
  "probing_loop (populate_slot_loop cmp e msk vh key val tbl) (slot_act cmp e vh key val tbl) msk"
  unfolding probing_loop_def by (intro allI slot_loop_act_bucket)

text \<open>
  After \<open>j\<close> keys are in, key \<open>i\<close> sits with its hash and value in its own bucket \<open>p i\<close>, no other
  bucket is touched, and the probe sequence of a key meets no empty bucket before its own.
\<close>

definition reached :: "nat \<Rightarrow> u32 \<Rightarrow> hash_table \<Rightarrow> u32 \<Rightarrow> nat \<Rightarrow> bool" where
  "reached k e tbl h b \<longleftrightarrow>
     (\<exists>m. probe_bucket h (2 ^ k - 1) m = b \<and>
          (\<forall>m' < m. keys_serialize tbl ! probe_bucket h (2 ^ k - 1) m' \<noteq> e))"

definition table_shape :: "nat \<Rightarrow> u32 list option \<Rightarrow> hash_table \<Rightarrow> bool" where
  "table_shape k vv tbl \<longleftrightarrow>
     length (hash_serialize tbl) = 2 ^ k \<and> length (keys_serialize tbl) = 2 ^ k \<and>
     (values_serialize tbl = None \<longleftrightarrow> vv = None) \<and>
     (\<forall>vs. values_serialize tbl = Some vs \<longrightarrow> length vs = 2 ^ k)"

definition untouched :: "nat \<Rightarrow> u32 \<Rightarrow> hash_table \<Rightarrow> bool" where
  "untouched k e tbl \<longleftrightarrow>
     (\<forall>b < 2 ^ k. keys_serialize tbl ! b = e \<longrightarrow> hash_serialize tbl ! b = 0 \<and>
        (\<forall>vs. values_serialize tbl = Some vs \<longrightarrow> vs ! b = e))"

definition placed ::
    "nat \<Rightarrow> u32 \<Rightarrow> u32 list \<Rightarrow> u32 list \<Rightarrow> u32 list option \<Rightarrow> nat \<Rightarrow> (nat \<Rightarrow> nat) \<Rightarrow> hash_table \<Rightarrow> bool" where
  "placed k e hv ks vv j p tbl \<longleftrightarrow>
     table_shape k vv tbl \<and> untouched k e tbl \<and> inj_on p {..<j} \<and>
     p ` {..<j} = {b. b < 2 ^ k \<and> keys_serialize tbl ! b \<noteq> e} \<and>
     (\<forall>i < j. keys_serialize tbl ! p i = ks ! i \<and> hash_serialize tbl ! p i = hv ! i \<and>
        (\<forall>vs xs. values_serialize tbl = Some vs \<longrightarrow> vv = Some xs \<longrightarrow> vs ! p i = xs ! i) \<and>
        reached k e tbl (hv ! i) (p i))"

lemma placed_bucket:
  assumes "placed k e hv ks vv j p tbl" and "b < 2 ^ k" and "keys_serialize tbl ! b \<noteq> e"
  obtains i where "i < j" "p i = b" "keys_serialize tbl ! b = ks ! i" "hash_serialize tbl ! b = hv ! i"
proof -
  have "b \<in> p ` {..<j}" using assms by (simp add: placed_def)
  then obtain i where "i < j" "p i = b" by auto
  with assms(1) that show ?thesis by (auto simp: placed_def)
qed

lemma placed_empty_bucket:
  assumes "placed k e hv ks vv j p tbl" and "j < 2 ^ k"
  obtains b where "b < 2 ^ k" "keys_serialize tbl ! b = e"
proof -
  have "inj_on p {..<j}" using assms(1) by (simp only: placed_def)
  then have "card (p ` {..<j}) = j" by (simp only: card_image card_lessThan)
  then have "p ` {..<j} \<noteq> {..<2 ^ k}" using assms(2) by (metis card_lessThan nat_neq_iff)
  moreover have "p ` {..<j} \<subseteq> {..<2 ^ k}" using assms(1) by (auto simp: placed_def)
  ultimately obtain b where "b < 2 ^ k" "b \<notin> p ` {..<j}" by blast
  with assms(1) that show ?thesis by (auto simp: placed_def)
qed

lemma slot_act_nonempty:
  assumes "placed k e hv ks vv j p tbl" and "i < j"
  shows "slot_act cmp e vh key val tbl (p i) =
    (if hv ! i \<noteq> vh then None
     else (case cmp (ks ! i) key of
             None \<Rightarrow> Some None
           | Some (Inl err) \<Rightarrow> Some (Some (Inl err))
           | Some (Inr c) \<Rightarrow>
               if c = 0 then Some (Some (Inl ''there are duplicate keys in the set/map''))
               else None))"
proof -
  have "p i \<in> p ` {..<j}" using assms(2) by simp
  then have "p i < 2 ^ k" "keys_serialize tbl ! p i \<noteq> e" using assms(1) by (auto simp: placed_def)
  moreover have "keys_serialize tbl ! p i = ks ! i" "hash_serialize tbl ! p i = hv ! i"
    "length (keys_serialize tbl) = 2 ^ k" "length (hash_serialize tbl) = 2 ^ k"
    using assms by (simp_all add: placed_def table_shape_def)
  ultimately show ?thesis by (simp add: slot_act_def)
qed

lemma store_slot_eq:
  assumes "table_shape k vv tbl" and "b < 2 ^ k" and "vv = None \<longleftrightarrow> val = None"
  shows "\<exists>tbl'. store_slot tbl b h key val = Some tbl' \<and>
    keys_serialize tbl' = (keys_serialize tbl)[b := key] \<and>
    hash_serialize tbl' = (hash_serialize tbl)[b := h] \<and>
    values_serialize tbl' = map_option (\<lambda>vs. vs[b := the val]) (values_serialize tbl)"
proof (cases "values_serialize tbl")
  case None
  then show ?thesis using assms by (simp add: store_slot_def table_shape_def)
next
  case (Some vs)
  then obtain v where "val = Some v" using assms by (auto simp: table_shape_def)
  with Some show ?thesis using assms by (simp add: store_slot_def table_shape_def)
qed

lemma reached_update:
  assumes "reached k e tbl h b" and "k < 32"
    and "keys_serialize tbl' = (keys_serialize tbl)[b' := key]" and "key \<noteq> e"
    and "length (keys_serialize tbl) = 2 ^ k"
  shows "reached k e tbl' h b"
proof -
  obtain m where m: "probe_bucket h (2 ^ k - 1) m = b"
    "\<forall>m' < m. keys_serialize tbl ! probe_bucket h (2 ^ k - 1) m' \<noteq> e"
    using assms(1) by (auto simp: reached_def)
  have "keys_serialize tbl' ! probe_bucket h (2 ^ k - 1) m' \<noteq> e" if "m' < m" for m'
    using m(2) that assms(3-5) probe_bucket_less [OF assms(2), of h m']
    by (cases "b' = probe_bucket h (2 ^ k - 1) m'") simp_all
  with m(1) show ?thesis by (auto simp: reached_def)
qed

lemma placed_store:
  assumes p: "placed k e hv ks vv j p tbl" and k: "k < 32" and b: "b < 2 ^ k"
    and empty: "keys_serialize tbl ! b = e" and key: "ks ! j \<noteq> e"
    and vv: "\<forall>xs. vv = Some xs \<longrightarrow> j < length xs"
    and reach: "reached k e tbl (hv ! j) b"
  shows "\<exists>tbl'. store_slot tbl b (hv ! j) (ks ! j) (values_at vv j) = Some tbl' \<and>
           placed k e hv ks vv (Suc j) (p(j := b)) tbl'"
proof -
  have shape: "table_shape k vv tbl" and un: "untouched k e tbl" and inj: "inj_on p {..<j}"
    and img: "p ` {..<j} = {b. b < 2 ^ k \<and> keys_serialize tbl ! b \<noteq> e}"
    using p by (simp_all only: placed_def)
  have "vv = None \<longleftrightarrow> values_at vv j = None"
    using vv by (auto simp: values_at_def split: option.split)
  from store_slot_eq [OF shape b this] obtain tbl' where
    st: "store_slot tbl b (hv ! j) (ks ! j) (values_at vv j) = Some tbl'" and
    ks': "keys_serialize tbl' = (keys_serialize tbl)[b := ks ! j]" and
    hs': "hash_serialize tbl' = (hash_serialize tbl)[b := hv ! j]" and
    vs': "values_serialize tbl' =
            map_option (\<lambda>vs. vs[b := the (values_at vv j)]) (values_serialize tbl)" by blast
  have len: "length (keys_serialize tbl) = 2 ^ k" "length (hash_serialize tbl) = 2 ^ k"
    "\<And>vs. values_serialize tbl = Some vs \<Longrightarrow> length vs = 2 ^ k"
    using shape by (simp_all add: table_shape_def)
  have fresh: "b \<notin> p ` {..<j}" using img empty by simp
  have shape': "table_shape k vv tbl'"
    using shape by (auto simp: table_shape_def ks' hs' vs')
  have un': "untouched k e tbl'"
    unfolding untouched_def
  proof (intro allI impI)
    fix c
    assume c: "c < 2 ^ k" "keys_serialize tbl' ! c = e"
    then have "c \<noteq> b" using key b len(1) by (auto simp: ks')
    then show "hash_serialize tbl' ! c = 0 \<and> (\<forall>vs. values_serialize tbl' = Some vs \<longrightarrow> vs ! c = e)"
      using un c by (auto simp: untouched_def ks' hs' vs')
  qed
  have same: "(p(j := b)) ` {..<j} = p ` {..<j}" by (rule image_cong) simp_all
  have "inj_on (p(j := b)) {..<j} \<longleftrightarrow> inj_on p {..<j}" by (rule inj_on_cong) simp
  then have inj': "inj_on (p(j := b)) {..<Suc j}"
    using inj fresh same by (simp only: lessThan_Suc inj_on_insert) simp
  have img': "(p(j := b)) ` {..<Suc j} = {b. b < 2 ^ k \<and> keys_serialize tbl' ! b \<noteq> e}"
  proof -
    have "(p(j := b)) ` {..<Suc j} = insert b (p ` {..<j})"
      by (simp only: lessThan_Suc image_insert same fun_upd_same)
    also have "\<dots> = {b. b < 2 ^ k \<and> keys_serialize tbl' ! b \<noteq> e}"
    proof (rule set_eqI)
      fix c
      show "c \<in> insert b (p ` {..<j}) \<longleftrightarrow> c \<in> {b. b < 2 ^ k \<and> keys_serialize tbl' ! b \<noteq> e}"
        unfolding img ks' using b key len(1) by (cases "c = b") simp_all
    qed
    finally show ?thesis .
  qed
  have reached': "reached k e tbl' h c" if "reached k e tbl h c" for h c
    using reached_update [OF that k ks' key len(1)] .
  let ?each = "\<lambda>t q i. keys_serialize t ! q i = ks ! i \<and> hash_serialize t ! q i = hv ! i \<and>
      (\<forall>vs xs. values_serialize t = Some vs \<longrightarrow> vv = Some xs \<longrightarrow> vs ! q i = xs ! i) \<and>
      reached k e t (hv ! i) (q i)"
  have each: "?each tbl' (p(j := b)) i" if i: "i < Suc j" for i
  proof (cases "i = j")
    case True
    have "xs ! j = the (values_at vv j)" if "vv = Some xs" for xs
      using that vv by (simp add: values_at_def)
    moreover have "b < length vs" if "values_serialize tbl = Some vs" for vs
      using len(3) [OF that] b by simp
    ultimately show ?thesis using True b len(1,2) reached' [OF reach]
      by (simp add: ks' hs' vs') fastforce
  next
    case False
    with i have ij: "i < j" by simp
    then have "p i \<noteq> b" using fresh by auto
    moreover have "?each tbl p i" using p ij unfolding placed_def by blast
    ultimately show ?thesis using False reached' by (auto simp: ks' hs' vs')
  qed
  then have "\<forall>i < Suc j. ?each tbl' (p(j := b)) i" by blast
  with shape' un' inj' img' have "placed k e hv ks vv (Suc j) (p(j := b)) tbl'"
    by (simp only: placed_def)
  with st show ?thesis by blast
qed

text \<open>Inserting the next key: into its own bucket, or the duplicate error.\<close>

lemma slot_loop_fresh:
  assumes p: "placed k e hv ks vv j p tbl" and k: "k < 32" and j: "j < 2 ^ k" and key: "ks ! j \<noteq> e"
    and vv: "\<forall>xs. vv = Some xs \<longrightarrow> j < length xs"
    and distinct: "\<forall>i < j. hv ! i = hv ! j \<longrightarrow> (\<exists>c. cmp (ks ! i) (ks ! j) = Some (Inr c) \<and> c \<noteq> 0)"
  shows "\<exists>p' tbl'. populate_slot_loop cmp e (2 ^ k - 1) (hv ! j) (ks ! j) (values_at vv j) tbl
             (hv ! j) (hv ! j) = Some (Inr tbl') \<and> placed k e hv ks vv (Suc j) p' tbl'"
proof -
  let ?act = "slot_act cmp e (hv ! j) (ks ! j) (values_at vv j) tbl"
  let ?bkt = "probe_bucket (hv ! j) (2 ^ k - 1)"
  have len: "length (keys_serialize tbl) = 2 ^ k" using p by (simp add: placed_def table_shape_def)
  have pass: "?act b = None \<longleftrightarrow> keys_serialize tbl ! b \<noteq> e" if b: "b < 2 ^ k" for b
  proof (cases "keys_serialize tbl ! b = e")
    case True
    then show ?thesis using b len by (simp add: slot_act_def)
  next
    case False
    from placed_bucket [OF p b False] obtain i where i: "i < j" "p i = b" by blast
    with distinct have "?act b = None"
      using slot_act_nonempty [OF p i(1), of cmp "hv ! j" "ks ! j" "values_at vv j"]
      by (cases "hv ! i = hv ! j") auto
    with False show ?thesis by simp
  qed
  obtain b0 where "b0 < 2 ^ k" "keys_serialize tbl ! b0 = e" by (rule placed_empty_bucket [OF p j])
  then have "?act b0 \<noteq> None" using pass [of b0] by simp
  from first_stop [OF k \<open>b0 < 2 ^ k\<close>, of ?act "hv ! j", OF this] obtain m where
    m: "?act (?bkt m) \<noteq> None" "\<forall>m' < m. ?act (?bkt m') = None" by blast
  have bm: "?bkt m' < 2 ^ k" for m' by (rule probe_bucket_less [OF k])
  have empty: "keys_serialize tbl ! ?bkt m = e" using m(1) pass [OF bm, of m] by simp
  have "reached k e tbl (hv ! j) (?bkt m)" 
    unfolding reached_def
  proof (intro exI [of _ m] conjI allI impI)
    fix m'
    assume "m' < m"
    then show "keys_serialize tbl ! ?bkt m' \<noteq> e" using m(2) pass [OF bm, of m'] by simp
  qed simp
  from placed_store [OF p k bm empty key vv this] obtain tbl' where
    st: "store_slot tbl (?bkt m) (hv ! j) (ks ! j) (values_at vv j) = Some tbl'" and
    pl: "placed k e hv ks vv (Suc j) (p(j := ?bkt m)) tbl'" by blast
  have "?act (?bkt m) = Some (Some (Inr tbl'))"
    using empty bm len by (simp add: slot_act_def st)
  then have "populate_slot_loop cmp e (2 ^ k - 1) (hv ! j) (ks ! j) (values_at vv j) tbl
      (hv ! j) (hv ! j) = Some (Inr tbl')"
    by (rule probing_stops [OF slot_loop_act m(2)])
  with pl show ?thesis by blast
qed

lemma slot_loop_duplicate:
  assumes p: "placed k e hv ks vv j p tbl" and k: "k < 32"
    and total: "\<forall>i < j. hv ! i = hv ! j \<longrightarrow> (\<exists>c. cmp (ks ! i) (ks ! j) = Some (Inr c))"
    and dup: "i < j" "hv ! i = hv ! j" "cmp (ks ! i) (ks ! j) = Some (Inr 0)"
  shows "populate_slot_loop cmp e (2 ^ k - 1) (hv ! j) (ks ! j) (values_at vv j) tbl
           (hv ! j) (hv ! j) = Some (Inl ''there are duplicate keys in the set/map'')"
proof -
  let ?act = "slot_act cmp e (hv ! j) (ks ! j) (values_at vv j) tbl"
  let ?bkt = "probe_bucket (hv ! j) (2 ^ k - 1)"
  have bm: "?bkt m' < 2 ^ k" for m' by (rule probe_bucket_less [OF k])
  have "reached k e tbl (hv ! i) (p i)" using p dup(1) by (simp add: placed_def)
  then obtain m where m: "?bkt m = p i" "\<forall>m' < m. keys_serialize tbl ! ?bkt m' \<noteq> e"
    using dup(2) by (auto simp: reached_def)
  have pi: "p i < 2 ^ k" "keys_serialize tbl ! p i \<noteq> e"
    using p dup(1) by (auto simp: placed_def)
  have stop: "?act (?bkt m) \<noteq> None"
    using slot_act_nonempty [OF p dup(1), of cmp "hv ! j" "ks ! j" "values_at vv j"] dup(2,3) m(1)
    by simp
  define M where "M = (LEAST n. ?act (?bkt n) \<noteq> None)"
  have M: "?act (?bkt M) \<noteq> None" unfolding M_def using stop by (rule LeastI)
  have "M \<le> m" unfolding M_def using stop by (rule Least_le)
  then have "keys_serialize tbl ! ?bkt M \<noteq> e" using m pi(2) by (cases "M = m") auto
  from placed_bucket [OF p bm this] obtain i' where i': "i' < j" "p i' = ?bkt M" by metis
  have "?act (?bkt M) = Some (Some (Inl ''there are duplicate keys in the set/map''))"
    using slot_act_nonempty [OF p i'(1), of cmp "hv ! j" "ks ! j" "values_at vv j"] i' M total
    by (auto split: if_splits)
  moreover have "\<forall>m' < M. ?act (?bkt m') = None"
    unfolding M_def using not_less_Least by blast
  ultimately show ?thesis by (intro probing_stops [OF slot_loop_act])
qed

text \<open>The loop over the keys.\<close>

lemma populate_loop_distinct:
  assumes "placed k e hv ks vv j p tbl" and k: "k < 32" and "j \<le> n" and n: "n < 2 ^ k"
    and len: "n \<le> length hv" "n \<le> length ks" "\<forall>xs. vv = Some xs \<longrightarrow> n \<le> length xs"
    and keys: "\<forall>i < n. ks ! i \<noteq> e"
    and distinct: "\<forall>l < n. \<forall>i < l. hv ! i = hv ! l \<longrightarrow>
                     (\<exists>c. cmp (ks ! i) (ks ! l) = Some (Inr c) \<and> c \<noteq> 0)"
  shows "\<exists>p' tbl'. populate_loop cmp e (2 ^ k - 1) hv ks vv [j..<n] tbl = Some (Inr tbl') \<and>
           placed k e hv ks vv n p' tbl'"
  using assms(1,3)
proof (induction "n - j" arbitrary: j p tbl)
  case 0
  then have "j = n" by simp
  with 0 show ?case by auto
next
  case (Suc d)
  then have j: "j < n" by simp
  then have upt: "[j..<n] = j # [Suc j..<n]" by (rule upt_conv_Cons)
  have "\<exists>p' tbl'. populate_slot_loop cmp e (2 ^ k - 1) (hv ! j) (ks ! j) (values_at vv j) tbl
             (hv ! j) (hv ! j) = Some (Inr tbl') \<and> placed k e hv ks vv (Suc j) p' tbl'"
    using j n len keys distinct by (intro slot_loop_fresh [OF Suc.prems(1) k]) auto
  then obtain p1 tbl1 where
    s: "populate_slot_loop cmp e (2 ^ k - 1) (hv ! j) (ks ! j) (values_at vv j) tbl
          (hv ! j) (hv ! j) = Some (Inr tbl1)" "placed k e hv ks vv (Suc j) p1 tbl1" by blast
  have "d = n - Suc j" "Suc j \<le> n" using Suc(2) j by simp_all
  from Suc(1) [OF this(1) s(2) this(2)] show ?case
    using j len s(1) by (simp add: upt)
qed

lemma populate_loop_duplicate:
  assumes "placed k e hv ks vv j p tbl" and k: "k < 32" and "j \<le> l" and "l < n" and n: "n < 2 ^ k"
    and len: "n \<le> length hv" "n \<le> length ks" "\<forall>xs. vv = Some xs \<longrightarrow> n \<le> length xs"
    and keys: "\<forall>i < n. ks ! i \<noteq> e"
    and distinct: "\<forall>l' < l. \<forall>i < l'. hv ! i = hv ! l' \<longrightarrow>
                     (\<exists>c. cmp (ks ! i) (ks ! l') = Some (Inr c) \<and> c \<noteq> 0)"
    and total: "\<forall>i < l. hv ! i = hv ! l \<longrightarrow> (\<exists>c. cmp (ks ! i) (ks ! l) = Some (Inr c))"
    and dup: "i < l" "hv ! i = hv ! l" "cmp (ks ! i) (ks ! l) = Some (Inr 0)"
  shows "populate_loop cmp e (2 ^ k - 1) hv ks vv [j..<n] tbl =
           Some (Inl ''there are duplicate keys in the set/map'')"
  using assms(1,3)
proof (induction "l - j" arbitrary: j p tbl)
  case 0
  then have j: "j = l" by simp
  then have "[j..<n] = l # [Suc l..<n]" using assms(4) by (simp add: upt_conv_Cons)
  moreover have "populate_slot_loop cmp e (2 ^ k - 1) (hv ! l) (ks ! l) (values_at vv l) tbl
           (hv ! l) (hv ! l) = Some (Inl ''there are duplicate keys in the set/map'')"
    using 0(2) k total dup unfolding j by (rule slot_loop_duplicate)
  ultimately show ?case using assms(4) len by simp
next
  case (Suc d)
  then have j: "j < l" "j < n" using assms(4) by simp_all
  then have upt: "[j..<n] = j # [Suc j..<n]" by (simp add: upt_conv_Cons)
  have "\<exists>p' tbl'. populate_slot_loop cmp e (2 ^ k - 1) (hv ! j) (ks ! j) (values_at vv j) tbl
             (hv ! j) (hv ! j) = Some (Inr tbl') \<and> placed k e hv ks vv (Suc j) p' tbl'"
    using j n len keys distinct by (intro slot_loop_fresh [OF Suc.prems(1) k]) auto
  then obtain p1 tbl1 where
    s: "populate_slot_loop cmp e (2 ^ k - 1) (hv ! j) (ks ! j) (values_at vv j) tbl
          (hv ! j) (hv ! j) = Some (Inr tbl1)" "placed k e hv ks vv (Suc j) p1 tbl1" by blast
  have "d = l - Suc j" "Suc j \<le> l" using Suc(2) j by simp_all
  from Suc(1) [OF this(1) s(2) this(2)] show ?case
    using j len s(1) by (simp add: upt)
qed

section \<open>The whole filling\<close>

text \<open>The tables as \<open>pointless_create\<close> allocates them.\<close>

definition fresh_table :: "nat \<Rightarrow> u32 \<Rightarrow> u32 list option \<Rightarrow> hash_table \<Rightarrow> bool" where
  "fresh_table k e vv tbl \<longleftrightarrow>
     hash_serialize tbl = replicate (2 ^ k) 0 \<and> keys_serialize tbl = replicate (2 ^ k) e \<and>
     values_serialize tbl = (if vv = None then None else Some (replicate (2 ^ k) e))"

lemma placed_fresh: "fresh_table k e vv tbl \<Longrightarrow> placed k e hv ks vv 0 p tbl"
  by (auto simp: fresh_table_def placed_def table_shape_def untouched_def)

lemma populate_check_keys_ok:
  "\<forall>j \<in> set js. j < length ks \<and> ks ! j \<noteq> e \<Longrightarrow> populate_check_keys ks e js = Some (Inr ())"
  by (induction js) simp_all

lemma populate_check_buckets_ok:
  assumes "fresh_table k e vv tbl" and "\<forall>j \<in> set js. j < 2 ^ k"
  shows "populate_check_buckets tbl e js = Some (Inr ())"
  using assms(2)
proof (induction js)
  case (Cons j js)
  have "arr_get (replicate (2 ^ k) x) j = Some x" for x :: u32
    using Cons.prems by simp
  with Cons assms(1) show ?case
    by (cases vv) (simp_all add: fresh_table_def del: replicate.simps)
qed simp

definition populate_input :: "nat \<Rightarrow> u32 \<Rightarrow> u32 list \<Rightarrow> u32 list \<Rightarrow> u32 list option \<Rightarrow> u32 \<Rightarrow> hash_table \<Rightarrow> bool" where
  "populate_input k e hv ks vv n tbl \<longleftrightarrow>
     k < 32 \<and> unat n < 2 ^ k \<and> unat n \<le> length hv \<and> unat n \<le> length ks \<and>
     (case vv of None \<Rightarrow> True | Some xs \<Rightarrow> unat n \<le> length xs) \<and>
     list_all (\<lambda>key. key \<noteq> e) (take (unat n) ks) \<and> fresh_table k e vv tbl"

lemma populate_input_keys:
  "populate_input k e hv ks vv n tbl \<Longrightarrow> i < unat n \<Longrightarrow> ks ! i \<noteq> e"
  by (auto simp: populate_input_def list_all_length)

lemma populate_eq_loop:
  assumes "populate_input k e hv ks vv n tbl"
  shows "pointless_hash_table_populate cmp hv ks vv n tbl (2 ^ k) e =
           populate_loop cmp e (2 ^ k - 1) hv ks vv [0..<unat n] tbl"
proof -
  have k: "k < 32" and fresh: "fresh_table k e vv tbl" and len: "unat n \<le> length ks"
    using assms by (simp_all add: populate_input_def)
  have "populate_check_keys ks e [0..<unat n] = Some (Inr ())"
    using populate_input_keys [OF assms] len by (intro populate_check_keys_ok) auto
  moreover have "populate_check_buckets tbl e [0..<unat ((2 :: u32) ^ k)] = Some (Inr ())"
    by (rule populate_check_buckets_ok [OF fresh]) (simp add: power_u32_less [OF k])
  moreover have "values_serialize tbl = None \<longleftrightarrow> vv = None" using fresh by (simp add: fresh_table_def)
  ultimately show ?thesis
    by (simp only: pointless_hash_table_populate_def Option.bind.simps sum.case) simp
qed

lemma populate_ok:
  assumes inp: "populate_input k e hv ks vv n tbl"
    and distinct: "\<forall>l < unat n. \<forall>i < l. hv ! i = hv ! l \<longrightarrow>
                     (\<exists>c. cmp (ks ! i) (ks ! l) = Some (Inr c) \<and> c \<noteq> 0)"
  shows "\<exists>p tbl'. pointless_hash_table_populate cmp hv ks vv n tbl (2 ^ k) e = Some (Inr tbl') \<and>
           placed k e hv ks vv (unat n) p tbl'"
proof -
  have "placed k e hv ks vv 0 (\<lambda>_. 0) tbl"
    using inp by (intro placed_fresh) (simp add: populate_input_def)
  then show ?thesis
    unfolding populate_eq_loop [OF inp]
    using inp populate_input_keys [OF inp] distinct
    by (intro populate_loop_distinct) (auto simp: populate_input_def)
qed

lemma populate_duplicate:
  assumes inp: "populate_input k e hv ks vv n tbl"
    and total: "\<forall>l < unat n. \<forall>i < l. hv ! i = hv ! l \<longrightarrow>
                     (\<exists>c. cmp (ks ! i) (ks ! l) = Some (Inr c))"
    and dup: "l < unat n" "i < l" "hv ! i = hv ! l" "cmp (ks ! i) (ks ! l) = Some (Inr 0)"
  shows "pointless_hash_table_populate cmp hv ks vv n tbl (2 ^ k) e =
           Some (Inl ''there are duplicate keys in the set/map'')"
proof -
  let ?D = "\<lambda>l. l < unat n \<and> (\<exists>i < l. hv ! i = hv ! l \<and> cmp (ks ! i) (ks ! l) = Some (Inr 0))"
  define L where "L = (LEAST l. ?D l)"
  have "?D l" using dup by blast
  then have L: "?D L" unfolding L_def by (rule LeastI)
  have before: "\<not> ?D l'" if "l' < L" for l'
    using that unfolding L_def by (rule not_less_Least)
  from L obtain i' where i': "i' < L" "hv ! i' = hv ! L" "cmp (ks ! i') (ks ! L) = Some (Inr 0)"
    by blast
  have distinct: "\<forall>l' < L. \<forall>i < l'. hv ! i = hv ! l' \<longrightarrow>
      (\<exists>c. cmp (ks ! i) (ks ! l') = Some (Inr c) \<and> c \<noteq> 0)"
  proof (intro allI impI)
    fix l' i
    assume l': "l' < L" "i < l'" "hv ! i = hv ! l'"
    then have "l' < unat n" using L by simp
    with l' total obtain c where "cmp (ks ! i) (ks ! l') = Some (Inr c)" by blast
    moreover from this have "c \<noteq> 0" using before [OF l'(1)] l' \<open>l' < unat n\<close> by auto
    ultimately show "\<exists>c. cmp (ks ! i) (ks ! l') = Some (Inr c) \<and> c \<noteq> 0" by blast
  qed
  have tot: "\<forall>i < L. hv ! i = hv ! L \<longrightarrow> (\<exists>c. cmp (ks ! i) (ks ! L) = Some (Inr c))"
    using total L by blast
  have "\<forall>i < unat n. ks ! i \<noteq> e" using populate_input_keys [OF inp] by blast
  moreover have "placed k e hv ks vv 0 (\<lambda>_. 0) tbl"
    using inp by (intro placed_fresh) (simp add: populate_input_def)
  ultimately show ?thesis
    unfolding populate_eq_loop [OF inp]
    using inp L i' distinct tot
    by (intro populate_loop_duplicate [where l = L and i = i' and p = "\<lambda>_. 0"])
      (auto simp: populate_input_def)
qed

section \<open>Probing a filled table\<close>

text \<open>
  The key vector of the file is the serialized handles read back as values by \<open>rd\<close>; exactly the
  empty-slot handle reads as an empty slot.
\<close>

lemma probe_act_placed:
  assumes p: "placed k e hv ks vv n p tbl" and b: "b < 2 ^ k"
    and rd: "\<forall>key. v_type (rd key) = POINTLESS_EMPTY_SLOT \<longleftrightarrow> key = e"
  shows "keys_serialize tbl ! b = e \<Longrightarrow>
           probe_act eq h (hash_serialize tbl) (map rd (keys_serialize tbl)) b =
             Some (Some (Inr POINTLESS_HASH_TABLE_PROBE_MISS))"
    and "i < n \<Longrightarrow> p i = b \<Longrightarrow>
           probe_act eq h (hash_serialize tbl) (map rd (keys_serialize tbl)) b =
             (if h \<noteq> hv ! i then None
              else (case eq (pointless_value_to_complete (rd (ks ! i))) of
                      None \<Rightarrow> Some None
                    | Some (Inl err) \<Rightarrow> Some (Some (Inl err))
                    | Some (Inr is_equal) \<Rightarrow>
                        if is_equal then Some (Some (Inr (of_nat b))) else None))"
proof -
  have len: "length (keys_serialize tbl) = 2 ^ k" "length (hash_serialize tbl) = 2 ^ k"
    using p by (simp_all add: placed_def table_shape_def)
  show "keys_serialize tbl ! b = e \<Longrightarrow>
      probe_act eq h (hash_serialize tbl) (map rd (keys_serialize tbl)) b =
        Some (Some (Inr POINTLESS_HASH_TABLE_PROBE_MISS))"
    using b len rd by (simp add: probe_act_def)
  assume i: "i < n" "p i = b"
  then have "keys_serialize tbl ! b = ks ! i" "hash_serialize tbl ! b = hv ! i"
    using p by (auto simp: placed_def)
  moreover have "b \<in> p ` {..<n}" using i by auto
  then have "keys_serialize tbl ! b \<noteq> e" using p by (simp add: placed_def)
  ultimately show "probe_act eq h (hash_serialize tbl) (map rd (keys_serialize tbl)) b =
      (if h \<noteq> hv ! i then None
       else (case eq (pointless_value_to_complete (rd (ks ! i))) of
               None \<Rightarrow> Some None
             | Some (Inl err) \<Rightarrow> Some (Some (Inl err))
             | Some (Inr is_equal) \<Rightarrow>
                 if is_equal then Some (Some (Inr (of_nat b))) else None))"
    using b len rd by (simp add: probe_act_def)
qed

lemma probe_hit:
  assumes p: "placed k e hv ks vv n p tbl" and k: "k < 32"
    and rd: "\<forall>key. v_type (rd key) = POINTLESS_EMPTY_SLOT \<longleftrightarrow> key = e"
    and eq: "\<forall>i < n. h = hv ! i \<longrightarrow>
               eq (pointless_value_to_complete (rd (ks ! i))) = Some (Inr (i = i0))"
    and i0: "i0 < n" "h = hv ! i0"
  shows "pointless_hash_table_probe_priv eq h (2 ^ k) (hash_serialize tbl)
           (map rd (keys_serialize tbl)) = Some (Inr (of_nat (p i0)))"
proof -
  let ?act = "probe_act eq h (hash_serialize tbl) (map rd (keys_serialize tbl))"
  let ?bkt = "probe_bucket h (2 ^ k - 1)"
  have bm: "?bkt m' < 2 ^ k" for m' by (rule probe_bucket_less [OF k])
  have "reached k e tbl h (p i0)" using p i0 by (simp add: placed_def)
  then obtain m where m: "?bkt m = p i0" "\<forall>m' < m. keys_serialize tbl ! ?bkt m' \<noteq> e"
    by (auto simp: reached_def)
  have at: "?act (p i) = (if i = i0 then Some (Some (Inr (of_nat (p i0)))) else None)"
    if "i < n" for i
  proof -
    have "p i < 2 ^ k" using p that by (auto simp: placed_def)
    from probe_act_placed(2) [OF p this rd that refl, of eq h] show ?thesis
      using eq that i0(2) by auto
  qed
  have "?act (p i0) \<noteq> None" using at [OF i0(1)] by simp
  moreover have "p i0 < 2 ^ k" using p i0 by (auto simp: placed_def)
  ultimately obtain M where M:
    "?act (?bkt M) = Some (pointless_hash_table_probe_priv eq h (2 ^ k) (hash_serialize tbl)
        (map rd (keys_serialize tbl)))" "\<forall>m' < M. ?act (?bkt m') = None"
    using probe_stops [OF k] by blast
  have "\<not> m < M"
  proof
    assume "m < M"
    then have "?act (?bkt m) = None" using M(2) by blast
    with \<open>?act (p i0) \<noteq> None\<close> m(1) show False by simp
  qed
  then have "M < m \<or> M = m" by auto
  then have "keys_serialize tbl ! ?bkt M \<noteq> e"
  proof
    assume "M = m"
    moreover have "p i0 \<in> p ` {..<n}" using i0(1) by simp
    ultimately show ?thesis using p m(1) by (simp add: placed_def)
  qed (use m(2) in blast)
  from placed_bucket [OF p bm this] obtain i where i: "i < n" "p i = ?bkt M" by metis
  from at [OF i(1)] i(2) M(1) show ?thesis by (auto split: if_splits)
qed

lemma probe_miss:
  assumes p: "placed k e hv ks vv n p tbl" and k: "k < 32" and n: "n < 2 ^ k"
    and rd: "\<forall>key. v_type (rd key) = POINTLESS_EMPTY_SLOT \<longleftrightarrow> key = e"
    and eq: "\<forall>i < n. h = hv ! i \<longrightarrow>
               eq (pointless_value_to_complete (rd (ks ! i))) = Some (Inr False)"
  shows "pointless_hash_table_probe_priv eq h (2 ^ k) (hash_serialize tbl)
           (map rd (keys_serialize tbl)) = Some (Inr POINTLESS_HASH_TABLE_PROBE_MISS)"
proof -
  let ?act = "probe_act eq h (hash_serialize tbl) (map rd (keys_serialize tbl))"
  let ?bkt = "probe_bucket h (2 ^ k - 1)"
  have bm: "?bkt m' < 2 ^ k" for m' by (rule probe_bucket_less [OF k])
  obtain b0 where b0: "b0 < 2 ^ k" "keys_serialize tbl ! b0 = e"
    by (rule placed_empty_bucket [OF p n])
  have "?act b0 \<noteq> None" using probe_act_placed(1) [OF p b0(1) rd b0(2), of eq h] by simp
  with b0(1) obtain M where M:
    "?act (?bkt M) = Some (pointless_hash_table_probe_priv eq h (2 ^ k) (hash_serialize tbl)
        (map rd (keys_serialize tbl)))" "\<forall>m' < M. ?act (?bkt m') = None"
    using probe_stops [OF k] by blast
  have "keys_serialize tbl ! ?bkt M = e"
  proof (rule ccontr)
    assume "keys_serialize tbl ! ?bkt M \<noteq> e"
    from placed_bucket [OF p bm this] obtain i where i: "i < n" "p i = ?bkt M" by metis
    from probe_act_placed(2) [OF p bm rd i, of eq h] eq i(1) have "?act (?bkt M) = None" by auto
    with M(1) show False by simp
  qed
  from probe_act_placed(1) [OF p bm rd this, of eq h] M(1) show ?thesis by simp
qed

section \<open>The contract of the tables\<close>

text \<open>
  A query with hash \<open>h\<close> whose equality test answers, on the keys of that hash, whether the key is
  the (at most one) key \<open>same\<close> selects.
\<close>

definition query_ok ::
    "(pointless_complete_value_t \<Rightarrow> (err + bool) option) \<Rightarrow> (u32 \<Rightarrow> pointless_value_t) \<Rightarrow>
     u32 list \<Rightarrow> u32 list \<Rightarrow> nat \<Rightarrow> u32 \<Rightarrow> nat option \<Rightarrow> bool" where
  "query_ok eq rd hv ks n h same \<longleftrightarrow>
     (case same of None \<Rightarrow> True | Some i \<Rightarrow> i < n \<and> hv ! i = h) \<and>
     list_all (\<lambda>i. hv ! i = h \<longrightarrow>
       eq (pointless_value_to_complete (rd (ks ! i))) = Some (Inr (same = Some i))) [0..<n]"

definition keys_distinct ::
    "(u32 \<Rightarrow> u32 \<Rightarrow> (err + int) option) \<Rightarrow> u32 list \<Rightarrow> u32 list \<Rightarrow> nat \<Rightarrow> bool" where
  "keys_distinct cmp hv ks n \<longleftrightarrow>
     list_all (\<lambda>l. list_all (\<lambda>i. hv ! i = hv ! l \<longrightarrow>
       (case cmp (ks ! i) (ks ! l) of Some (Inr c) \<Rightarrow> c \<noteq> 0 | _ \<Rightarrow> False)) [0..<l]) [0..<n]"

lemma keys_distinctD:
  "keys_distinct cmp hv ks n \<Longrightarrow> \<forall>l < n. \<forall>i < l. hv ! i = hv ! l \<longrightarrow>
     (\<exists>c. cmp (ks ! i) (ks ! l) = Some (Inr c) \<and> c \<noteq> 0)"
proof (intro allI impI)
  fix l i
  assume "keys_distinct cmp hv ks n" "l < n" "i < l" "hv ! i = hv ! l"
  then have "case cmp (ks ! i) (ks ! l) of Some (Inr c) \<Rightarrow> c \<noteq> 0 | _ \<Rightarrow> False"
    by (simp add: keys_distinct_def list_all_iff)
  then show "\<exists>c. cmp (ks ! i) (ks ! l) = Some (Inr c) \<and> c \<noteq> 0"
    by (cases "cmp (ks ! i) (ks ! l)") (simp_all split: sum.splits)
qed

text \<open>
  C2 Filling a table and probing it round-trips: \<open>pointless_hash_table_populate\<close> succeeds on keys
  that are pairwise different, and then a probe for a key returns (in finitely many steps) a bucket
  that holds exactly that key, its hash and its value, while a probe for a key that is not there
  returns \<open>POINTLESS_HASH_TABLE_PROBE_MISS\<close>.
\<close>

theorem populate_probe_round_trip:
  assumes "populate_input k e hv ks vv n tbl"
    and "keys_distinct cmp hv ks (unat n)"
    and "\<forall>key. v_type (rd key) = POINTLESS_EMPTY_SLOT \<longleftrightarrow> key = e"
  shows "\<exists>tbl'. pointless_hash_table_populate cmp hv ks vv n tbl (2 ^ k) e = Some (Inr tbl') \<and>
    (\<forall>eq h i. query_ok eq rd hv ks (unat n) h (Some i) \<longrightarrow>
       (\<exists>b < 2 ^ k. pointless_hash_table_probe_priv eq h (2 ^ k) (hash_serialize tbl')
                     (map rd (keys_serialize tbl')) = Some (Inr (of_nat b)) \<and>
          keys_serialize tbl' ! b = ks ! i \<and> hash_serialize tbl' ! b = hv ! i \<and>
          (\<forall>vs xs. values_serialize tbl' = Some vs \<longrightarrow> vv = Some xs \<longrightarrow> vs ! b = xs ! i))) \<and>
    (\<forall>eq h. query_ok eq rd hv ks (unat n) h None \<longrightarrow>
       pointless_hash_table_probe_priv eq h (2 ^ k) (hash_serialize tbl')
         (map rd (keys_serialize tbl')) = Some (Inr POINTLESS_HASH_TABLE_PROBE_MISS))"
proof -
  from populate_ok [OF assms(1) keys_distinctD [OF assms(2)]] obtain p tbl' where
    t: "pointless_hash_table_populate cmp hv ks vv n tbl (2 ^ k) e = Some (Inr tbl')" and
    p: "placed k e hv ks vv (unat n) p tbl'" by blast
  have k: "k < 32" "unat n < 2 ^ k" using assms(1) by (simp_all add: populate_input_def)
  have hit: "\<exists>b < 2 ^ k. pointless_hash_table_probe_priv eq h (2 ^ k) (hash_serialize tbl')
                     (map rd (keys_serialize tbl')) = Some (Inr (of_nat b)) \<and>
          keys_serialize tbl' ! b = ks ! i \<and> hash_serialize tbl' ! b = hv ! i \<and>
          (\<forall>vs xs. values_serialize tbl' = Some vs \<longrightarrow> vv = Some xs \<longrightarrow> vs ! b = xs ! i)"
    if q: "query_ok eq rd hv ks (unat n) h (Some i)" for eq h i
  proof (intro exI [of _ "p i"] conjI)
    have i: "i < unat n" "h = hv ! i" using q by (simp_all add: query_ok_def)
    show "p i < 2 ^ k" using p i(1) by (auto simp: placed_def)
    show "pointless_hash_table_probe_priv eq h (2 ^ k) (hash_serialize tbl')
            (map rd (keys_serialize tbl')) = Some (Inr (of_nat (p i)))"
      using q i by (intro probe_hit [OF p k(1) assms(3)]) (auto simp: query_ok_def list_all_iff)
    show "keys_serialize tbl' ! p i = ks ! i" "hash_serialize tbl' ! p i = hv ! i"
      "\<forall>vs xs. values_serialize tbl' = Some vs \<longrightarrow> vv = Some xs \<longrightarrow> vs ! p i = xs ! i"
      using p i(1) by (simp_all add: placed_def)
  qed
  have miss: "pointless_hash_table_probe_priv eq h (2 ^ k) (hash_serialize tbl')
         (map rd (keys_serialize tbl')) = Some (Inr POINTLESS_HASH_TABLE_PROBE_MISS)"
    if "query_ok eq rd hv ks (unat n) h None" for eq h
    using that by (intro probe_miss [OF p k assms(3)]) (auto simp: query_ok_def list_all_iff)
  show ?thesis
    by (intro exI [of _ tbl'] conjI allI impI t) (erule hit, erule miss)
qed

text \<open>Two colliding keys in a map of four buckets; the handle \<open>UINT32_MAX\<close> is the empty slot.\<close>

definition sample_table :: hash_table where
  "sample_table = \<lparr>hash_serialize = [0, 0, 0, 0],
     keys_serialize = [UINT32_MAX, UINT32_MAX, UINT32_MAX, UINT32_MAX],
     values_serialize = Some [UINT32_MAX, UINT32_MAX, UINT32_MAX, UINT32_MAX]\<rparr>"

definition sample_rd :: "u32 \<Rightarrow> pointless_value_t" where
  "sample_rd key = (if key = UINT32_MAX then pointless_value_create_as_read_empty_slot
                    else pointless_value_create_as_read_u32 key)"

definition sample_cmp :: "u32 \<Rightarrow> u32 \<Rightarrow> (err + int) option" where
  "sample_cmp a b = Some (Inr (SIMPLE_CMP a b))"

definition sample_eq :: "u32 \<Rightarrow> pointless_complete_value_t \<Rightarrow> (err + bool) option" where
  "sample_eq key v = Some (Inr (complete_data_u32 (cv_data v) = key))"

lemma sample_input:
  "populate_input 2 UINT32_MAX [1, 1] [5, 6] (Some [7, 8]) 2 sample_table"
  by code_simp

lemma sample_distinct: "keys_distinct sample_cmp [1, 1] [5, 6] (unat (2 :: u32))"
  by code_simp

lemma sample_rd_empty: "\<forall>key. v_type (sample_rd key) = POINTLESS_EMPTY_SLOT \<longleftrightarrow> key = UINT32_MAX"
  by (simp add: sample_rd_def pointless_value_create_as_read_empty_slot_def
      pointless_value_create_as_read_u32_def)

lemma sample_query:
  "query_ok (sample_eq 6) sample_rd [1, 1] [5, 6] (unat (2 :: u32)) 1 (Some 1)"
  by code_simp

theorem populate_probe_round_trip_witness:
  "\<exists>tbl' b. pointless_hash_table_populate sample_cmp [1, 1] [5, 6] (Some [7, 8]) 2 sample_table 4
       UINT32_MAX = Some (Inr tbl') \<and>
     pointless_hash_table_probe_priv (sample_eq 6) 1 4 (hash_serialize tbl')
       (map sample_rd (keys_serialize tbl')) = Some (Inr (of_nat b)) \<and>
     keys_serialize tbl' ! b = 6 \<and> hash_serialize tbl' ! b = 1"
proof -
  from populate_probe_round_trip [OF sample_input sample_distinct sample_rd_empty] obtain tbl' where
    t: "pointless_hash_table_populate sample_cmp [1, 1] [5, 6] (Some [7, 8]) 2 sample_table (2 ^ 2)
          UINT32_MAX = Some (Inr tbl')"
    and q: "\<forall>eq h i. query_ok eq sample_rd [1, 1] [5, 6] (unat (2 :: u32)) h (Some i) \<longrightarrow>
       (\<exists>b < 2 ^ 2. pointless_hash_table_probe_priv eq h (2 ^ 2) (hash_serialize tbl')
                     (map sample_rd (keys_serialize tbl')) = Some (Inr (of_nat b)) \<and>
          keys_serialize tbl' ! b = [5, 6] ! i \<and> hash_serialize tbl' ! b = [1, 1] ! i \<and>
          (\<forall>vs xs. values_serialize tbl' = Some vs \<longrightarrow> Some [7, 8] = Some xs \<longrightarrow> vs ! b = xs ! i))"
    by (elim exE conjE) (rule that)
  from q sample_query obtain b where
    "pointless_hash_table_probe_priv (sample_eq 6) 1 (2 ^ 2) (hash_serialize tbl')
       (map sample_rd (keys_serialize tbl')) = Some (Inr (of_nat b))"
    "keys_serialize tbl' ! b = [5, 6] ! 1" "hash_serialize tbl' ! b = [1, 1] ! 1" by blast
  with t show ?thesis by (intro exI [of _ tbl'] exI [of _ b]) simp
qed

text \<open>
  C10 Two equal keys are always detected: when the comparison of two keys with the same hash answers
  0, \<open>pointless_hash_table_populate\<close> fails with the duplicate-key message, wherever the other keys
  have been put before.
\<close>

theorem populate_detects_duplicates:
  assumes "populate_input k e hv ks vv n tbl"
    and "\<forall>l < unat n. \<forall>i < l. hv ! i = hv ! l \<longrightarrow> (\<exists>c. cmp (ks ! i) (ks ! l) = Some (Inr c))"
    and "l < unat n" "i < l" "hv ! i = hv ! l" "cmp (ks ! i) (ks ! l) = Some (Inr 0)"
  shows "pointless_hash_table_populate cmp hv ks vv n tbl (2 ^ k) e =
           Some (Inl ''there are duplicate keys in the set/map'')"
  using assms by (rule populate_duplicate)

lemma sample_input_dup: "populate_input 2 UINT32_MAX [1, 1] [5, 5] (Some [7, 8]) 2 sample_table"
  by code_simp

theorem populate_detects_duplicates_witness:
  "pointless_hash_table_populate sample_cmp [1, 1] [5, 5] (Some [7, 8]) 2 sample_table (2 ^ 2)
     UINT32_MAX = Some (Inl ''there are duplicate keys in the set/map'')"
  using sample_input_dup
  by (rule populate_detects_duplicates [where l = 1 and i = 0])
    (simp_all add: sample_cmp_def SIMPLE_CMP_def)

text \<open>
  C12 The number of buckets of a table of \<open>n\<close> items is a power of two and exceeds \<open>n\<close>, so that every
  table keeps an empty slot, as long as \<open>n + n / 2\<close> is at most \<open>2 ^ 31\<close>.
\<close>

theorem compute_n_buckets_spec:
  "unat n + unat n div 2 \<le> 2 ^ 31 \<Longrightarrow>
     \<exists>k \<le> 31. pointless_hash_compute_n_buckets n = Some (2 ^ k) \<and> unat n < 2 ^ k"
  by (rule n_buckets_some)

theorem compute_n_buckets_spec_witness:
  "\<exists>k \<le> 31. pointless_hash_compute_n_buckets 3 = Some (2 ^ k) \<and> unat (3 :: u32) < 2 ^ k"
  by (rule compute_n_buckets_spec) simp

text \<open>
  C13 When \<open>n + n / 2\<close> lies above \<open>2 ^ 31\<close> and still fits 32 bits, the doubling in
  \<open>next_power_of_2\<close> wraps to 0 and the computation of the number of buckets never returns.
\<close>

theorem compute_n_buckets_hangs:
  assumes "2 ^ 31 < unat n + unat n div 2" and "unat n + unat n div 2 < 2 ^ 32"
  shows "pointless_hash_compute_n_buckets n = None"
proof -
  have "unat (n + n div 2) = unat n + unat n div 2" by (rule sum_half_unat) (rule assms(2))
  then have "unat ((2 :: u32) ^ 31) < unat (n + n div 2)" using assms(1) by simp
  then have "2 ^ 31 < n + n div 2" by (simp only: word_less_nat_alt)
  moreover have "n \<noteq> 1" using assms(1) by auto
  ultimately show ?thesis
    by (simp only: pointless_hash_compute_n_buckets_def next_power_of_2_hangs) simp
qed

theorem compute_n_buckets_hangs_witness: "pointless_hash_compute_n_buckets 2000000000 = None"
  by (rule compute_n_buckets_hangs) simp_all

text \<open>
  C11 A probe always returns when the table has an empty slot, whatever the hash and the equality
  test answer (here: a test that is defined on every key), within \<open>7 + 2 ^ k\<close> buckets.
\<close>

theorem probe_terminates:
  assumes "k < 32" and "length hv = 2 ^ k" and "length kv = 2 ^ k"
    and "b < 2 ^ k" and "v_type (kv ! b) = POINTLESS_EMPTY_SLOT"
    and "\<forall>v. eq v \<noteq> None"
  shows "\<exists>r. pointless_hash_table_probe_priv eq h (2 ^ k) hv kv = Some r"
proof -
  have "probe_act eq h hv kv b \<noteq> None" using assms by (simp add: probe_act_def)
  from probe_stops [OF assms(1,4) this] obtain m where
    m: "probe_act eq h hv kv (probe_bucket h (2 ^ k - 1) m) =
      Some (pointless_hash_table_probe_priv eq h (2 ^ k) hv kv)" by blast
  have "probe_bucket h (2 ^ k - 1) m < 2 ^ k" by (rule probe_bucket_less [OF assms(1)])
  then have "probe_act eq h hv kv (probe_bucket h (2 ^ k - 1) m) \<noteq> Some None"
    using assms(2,3) assms(6) [rule_format, of "pointless_value_to_complete
      (kv ! probe_bucket h (2 ^ k - 1) m)"]
    by (auto simp del: not_None_eq simp: probe_act_def split: option.split sum.split)
  with m show ?thesis by auto
qed

theorem probe_terminates_witness:
  "\<exists>r. pointless_hash_table_probe_priv (sample_eq 3) 1 (2 ^ 1) [1, 0]
     [sample_rd UINT32_MAX, sample_rd 4] = Some r"
  by (rule probe_terminates [where b = 0])
    (simp_all add: sample_rd_def pointless_value_create_as_read_empty_slot_def sample_eq_def)

end
