(* ===== verification/Bit_Utils.thy ===== *)
theory Bit_Utils
  imports Prelude
begin

text \<open>
  \<open>src/bitutils.c\<close>: a bit mask stored in bytes. The bit index is a \<open>uint64_t\<close>; the mask is the list
  of the bytes of its allocation, so a bit whose byte lies outside is undefined behaviour.
  The locale \<open>bit_array\<close> states what the users of a mask (validation, cycle marking, bitvectors)
  rely on, and derives the facts about sets of marked positions that bound their traversals.
\<close>

unbundle bit_operations_syntax

section \<open>The operations\<close>

definition bm_set :: "u8 list \<Rightarrow> u64 \<Rightarrow> u8 list option" where
  "bm_set bitmask bit_index =
     (let k = unat (bit_index div 8) in
      do { byte \<leftarrow> arr_get bitmask k;
           arr_set bitmask k (byte OR push_bit (unat (bit_index mod 8)) 1) })"

definition bm_reset :: "u8 list \<Rightarrow> u64 \<Rightarrow> u8 list option" where
  "bm_reset bitmask bit_index =
     (let k = unat (bit_index div 8) in
      do { byte \<leftarrow> arr_get bitmask k;
           arr_set bitmask k (byte AND NOT (push_bit (unat (bit_index mod 8)) 1)) })"

definition bm_is_set :: "u8 list \<Rightarrow> u64 \<Rightarrow> u8 option" where
  "bm_is_set bitmask bit_index =
     (let k = unat (bit_index div 8) in
      do { byte \<leftarrow> arr_get bitmask k;
           Some (byte AND push_bit (unat (bit_index mod 8)) 1) })"

section \<open>The bits of a byte list\<close>

definition bit_at :: "u8 list \<Rightarrow> nat \<Rightarrow> bool" where
  "bit_at bs n \<longleftrightarrow> bit (bs ! (n div 8)) (n mod 8)"

lemma index_split [simp]:
  "unat ((i :: u64) div 8) = unat i div 8" "unat ((i :: u64) mod 8) = unat i mod 8"
  by (simp_all add: unat_div unat_mod)

lemma bm_is_set_eq:
  assumes "unat i < 8 * length bs"
  shows "\<exists>b. bm_is_set bs i = Some b \<and> (b \<noteq> 0 \<longleftrightarrow> bit_at bs (unat i))"
proof -
  have "unat i div 8 < length bs" using assms by linarith
  then show ?thesis
    by (simp add: bm_is_set_def Let_def bit_at_def and_exp_eq_0_iff_not_bit)
qed

lemma bm_is_set_None: "bm_is_set bs i = None \<longleftrightarrow> 8 * length bs \<le> unat i"
  by (auto simp: bm_is_set_def Let_def arr_get_def)

lemma length_bm_set: "bm_set bs i = Some bs' \<Longrightarrow> length bs' = length bs"
  by (auto simp: bm_set_def Let_def arr_get_def arr_set_def split: if_splits)

lemma bm_set_eq:
  assumes "unat i < 8 * length bs"
  shows "\<exists>bs'. bm_set bs i = Some bs' \<and> length bs' = length bs \<and>
           (\<forall>j < 8 * length bs. bit_at bs' j = (j = unat i \<or> bit_at bs j))"
proof -
  let ?k = "unat i div 8" and ?r = "unat i mod 8"
  have k: "?k < length bs" using assms by linarith
  define bs' where "bs' = bs[?k := bs ! ?k OR push_bit ?r 1]"
  have "bit_at bs' j = (j = unat i \<or> bit_at bs j)" if "j < 8 * length bs" for j
  proof (cases "j div 8 = ?k")
    case True
    have "j mod 8 < 8" by simp
    moreover have "j = unat i \<longleftrightarrow> j mod 8 = ?r"
      using True by (metis mult_div_mod_eq)
    ultimately show ?thesis
      using True k by (auto simp: bit_at_def bs'_def bit_simps)
  next
    case False
    then show ?thesis by (auto simp: bit_at_def bs'_def)
  qed
  moreover have "bm_set bs i = Some bs'" "length bs' = length bs"
    using k by (simp_all add: bm_set_def Let_def bs'_def)
  ultimately show ?thesis by blast
qed

lemma bm_reset_eq:
  assumes "unat i < 8 * length bs"
  shows "\<exists>bs'. bm_reset bs i = Some bs' \<and> length bs' = length bs \<and>
           (\<forall>j < 8 * length bs. bit_at bs' j = (j \<noteq> unat i \<and> bit_at bs j))"
proof -
  let ?k = "unat i div 8" and ?r = "unat i mod 8"
  have k: "?k < length bs" using assms by linarith
  define bs' where "bs' = bs[?k := bs ! ?k AND NOT (push_bit ?r 1)]"
  have "bit_at bs' j = (j \<noteq> unat i \<and> bit_at bs j)" if "j < 8 * length bs" for j
  proof (cases "j div 8 = ?k")
    case True
    have "j mod 8 < 8" by simp
    moreover have "j = unat i \<longleftrightarrow> j mod 8 = ?r"
      using True by (metis mult_div_mod_eq)
    ultimately show ?thesis
      using True k by (auto simp: bit_at_def bs'_def bit_simps)
  next
    case False
    then show ?thesis by (auto simp: bit_at_def bs'_def)
  qed
  moreover have "bm_reset bs i = Some bs'" "length bs' = length bs"
    using k by (simp_all add: bm_reset_def Let_def bs'_def)
  ultimately show ?thesis by blast
qed

lemma bit_at_replicate_0 [simp]: "n < 8 * k \<Longrightarrow> \<not> bit_at (replicate k 0) n"
  by (simp add: bit_at_def)

section \<open>The interface of a mask\<close>

locale bit_array =
  fixes get :: "'m \<Rightarrow> 'i \<Rightarrow> bool option" and set :: "'m \<Rightarrow> 'i \<Rightarrow> 'm option"
    and size :: "'m \<Rightarrow> nat" and idx :: "'i \<Rightarrow> nat"
  assumes get_total: "idx i < size m \<Longrightarrow> \<exists>b. get m i = Some b"
    and get_cong: "idx i = idx j \<Longrightarrow> get m i = get m j"
    and get_outside: "size m \<le> idx i \<Longrightarrow> get m i = None"
    and set_total: "idx i < size m \<Longrightarrow> \<exists>m'. set m i = Some m'"
    and set_size: "set m i = Some m' \<Longrightarrow> size m' = size m"
    and get_set: "set m i = Some m' \<Longrightarrow> idx j < size m \<Longrightarrow>
          get m' j = (if idx j = idx i then Some True else get m j)"
begin

definition marked :: "'m \<Rightarrow> nat set" where
  "marked m = {n. n < size m \<and> (\<exists>i. idx i = n \<and> get m i = Some True)}"

lemma finite_marked [simp]: "finite (marked m)"
proof (rule finite_subset)
  show "marked m \<subseteq> {..<size m}" by (auto simp: marked_def)
qed simp

lemma card_marked_le: "card (marked m) \<le> size m"
proof -
  have "marked m \<subseteq> {..<size m}" by (auto simp: marked_def)
  then have "card (marked m) \<le> card {..<size m}" by (intro card_mono) simp_all
  then show ?thesis by simp
qed

lemma mem_marked: "idx i < size m \<Longrightarrow> idx i \<in> marked m \<longleftrightarrow> get m i = Some True"
proof -
  assume "idx i < size m"
  moreover have "(\<exists>j. idx j = idx i \<and> get m j = Some True) \<longleftrightarrow> get m i = Some True"
    using get_cong [of i _ m] by metis
  ultimately show ?thesis unfolding marked_def by blast
qed

lemma marked_set:
  assumes "set m i = Some m'" and "idx i < size m"
  shows "marked m' = insert (idx i) (marked m)"
proof (rule set_eqI)
  fix n
  have sz: "size m' = size m" by (rule set_size [OF assms(1)])
  show "n \<in> marked m' \<longleftrightarrow> n \<in> insert (idx i) (marked m)"
  proof (cases "n < size m \<and> (\<exists>j. idx j = n)")
    case True
    then obtain j where j: "idx j = n" "n < size m" by blast
    then have "n \<in> marked m' \<longleftrightarrow> get m' j = Some True" using mem_marked sz by metis
    also have "\<dots> \<longleftrightarrow> n = idx i \<or> get m j = Some True" using get_set [OF assms(1)] j by simp
    also have "\<dots> \<longleftrightarrow> n \<in> insert (idx i) (marked m)" using mem_marked j by auto
    finally show ?thesis .
  next
    case False
    then show ?thesis using assms(2) sz by (auto simp: marked_def)
  qed
qed

text \<open>Marking a fresh position consumes one of the finitely many: the bound of a traversal.\<close>

lemma mark_fresh_decreases:
  assumes "set m i = Some m'" and "idx i < size m" and "get m i = Some False"
  shows "size m' - card (marked m') < size m - card (marked m)"
proof -
  have "idx i \<notin> marked m" using assms mem_marked by simp
  then have "card (marked m') = Suc (card (marked m))"
    by (simp add: marked_set [OF assms(1,2)])
  moreover have "card (marked m') \<le> size m'" by (rule card_marked_le)
  ultimately show ?thesis using set_size [OF assms(1)] by simp
qed

end

text \<open>The byte mask of the code implements the interface.\<close>

interpretation bm: bit_array "\<lambda>m i. map_option (\<lambda>b. b \<noteq> 0) (bm_is_set m i)" bm_set
    "\<lambda>m. 8 * length m" unat
proof unfold_locales
  fix i :: u64 and m :: "u8 list"
  assume "unat i < 8 * length m"
  then show "\<exists>b. map_option (\<lambda>b. b \<noteq> 0) (bm_is_set m i) = Some b"
    using bm_is_set_eq by fastforce
next
  fix i j :: u64 and m :: "u8 list"
  assume "unat i = unat j"
  then have "i = j" by (simp add: word_unat_eq_iff)
  then show "map_option (\<lambda>b. b \<noteq> 0) (bm_is_set m i) = map_option (\<lambda>b. b \<noteq> 0) (bm_is_set m j)"
    by simp
next
  fix i :: u64 and m :: "u8 list"
  assume "8 * length m \<le> unat i"
  then show "map_option (\<lambda>b. b \<noteq> 0) (bm_is_set m i) = None"
    by (simp add: bm_is_set_None)
next
  fix i :: u64 and m :: "u8 list"
  assume "unat i < 8 * length m"
  then show "\<exists>m'. bm_set m i = Some m'" using bm_set_eq by blast
next
  fix i :: u64 and m m' :: "u8 list"
  assume "bm_set m i = Some m'"
  then show "8 * length m' = 8 * length m" by (simp add: length_bm_set)
next
  fix i j :: u64 and m m' :: "u8 list"
  assume s: "bm_set m i = Some m'" and j: "unat j < 8 * length m"
  have "unat i < 8 * length m"
    using s by (auto simp: bm_set_def Let_def arr_get_def split: if_splits)
  with s j have b: "bit_at m' (unat j) = (unat j = unat i \<or> bit_at m (unat j))"
    and l: "length m' = length m"
    using bm_set_eq by force+
  obtain x y where "bm_is_set m' j = Some x" "x \<noteq> 0 \<longleftrightarrow> bit_at m' (unat j)"
    "bm_is_set m j = Some y" "y \<noteq> 0 \<longleftrightarrow> bit_at m (unat j)"
    using bm_is_set_eq j l by metis
  with b show "map_option (\<lambda>b. b \<noteq> 0) (bm_is_set m' j) =
      (if unat j = unat i then Some True else map_option (\<lambda>b. b \<noteq> 0) (bm_is_set m j))"
    by auto
qed

end
