(* ===== verification/Int_Ops.thy ===== *)
theory Int_Ops
  imports Prelude
begin

text \<open>
  The overflow-checked integers of \<open>src/pointless_int_ops.c\<close> (\<open>intop_sizet_t\<close>, \<open>intop_u32_t\<close>,
  \<open>intop_u64_t\<close>). The three structs and their operations differ only in the width, so one record
  and one body per operation serve all three; \<open>size_t\<close> is 64 bits wide. The locale \<open>checked_int\<close>
  is the contract the callers (the dynamic arrays, the heap validator) rely on.
\<close>

section \<open>The structs and their operations\<close>

record 'w intop =
  is_overflow :: bool
  intval :: 'w

type_synonym intop_sizet_t = "u64 intop"
type_synonym intop_u32_t = "u32 intop"
type_synonym intop_u64_t = "u64 intop"

definition checked_mult :: "'a::len word intop \<Rightarrow> 'a word intop \<Rightarrow> 'a word intop" where
  "checked_mult a b =
     (if is_overflow a \<or> is_overflow b
         \<or> (intval a \<noteq> 0 \<and> - 1 div intval a < intval b)
         \<or> (intval b \<noteq> 0 \<and> - 1 div intval b < intval a)
      then \<lparr>is_overflow = True, intval = 1\<rparr>
      else \<lparr>is_overflow = False, intval = intval a * intval b\<rparr>)"

definition checked_add :: "'a::len word intop \<Rightarrow> 'a word intop \<Rightarrow> 'a word intop" where
  "checked_add a b =
     (if is_overflow a \<or> is_overflow b
      then \<lparr>is_overflow = True, intval = 1\<rparr>
      else let c = intval a + intval b
           in \<lparr>is_overflow = (c < intval a \<and> c < intval b), intval = c\<rparr>)"

definition checked_init :: "'a::len word \<Rightarrow> 'a word intop" where
  "checked_init v = \<lparr>is_overflow = False, intval = v\<rparr>"

definition intop_sizet_mult :: "intop_sizet_t \<Rightarrow> intop_sizet_t \<Rightarrow> intop_sizet_t" where
  "intop_sizet_mult = checked_mult"
definition intop_u64_mult :: "intop_u64_t \<Rightarrow> intop_u64_t \<Rightarrow> intop_u64_t" where
  "intop_u64_mult = checked_mult"
definition uintop_32_mult :: "intop_u32_t \<Rightarrow> intop_u32_t \<Rightarrow> intop_u32_t" where
  "uintop_32_mult = checked_mult"

definition intop_sizet_add :: "intop_sizet_t \<Rightarrow> intop_sizet_t \<Rightarrow> intop_sizet_t" where
  "intop_sizet_add = checked_add"
definition intop_u32_add :: "intop_u32_t \<Rightarrow> intop_u32_t \<Rightarrow> intop_u32_t" where
  "intop_u32_add = checked_add"
definition intop_u64_add :: "intop_u64_t \<Rightarrow> intop_u64_t \<Rightarrow> intop_u64_t" where
  "intop_u64_add = checked_add"

definition intop_sizet_init :: "u64 \<Rightarrow> intop_sizet_t" where
  "intop_sizet_init = checked_init"
definition intop_u32_init :: "u32 \<Rightarrow> intop_u32_t" where
  "intop_u32_init = checked_init"
definition intop_u64_init :: "u64 \<Rightarrow> intop_u64_t" where
  "intop_u64_init = checked_init"

section \<open>Exactness of the overflow tests\<close>

lemma less_max_div_iff:
  fixes x y :: "'a::len word"
  assumes "x \<noteq> 0"
  shows "- 1 div x < y \<longleftrightarrow> 2 ^ LENGTH('a) \<le> unat x * unat y"
proof -
  have x: "0 < unat x" using assms by (simp add: unsigned_eq_0_iff zero_less_iff_neq_zero)
  have m: "unat (- 1 :: 'a word) = 2 ^ LENGTH('a) - 1" by (simp add: unat_arith_simps unsigned_minus_1_eq_mask mask_eq_exp_minus_1)
  have "- 1 div x < y \<longleftrightarrow> (2 ^ LENGTH('a) - 1) div unat x < unat y"
    by (simp add: word_less_nat_alt unat_div m)
  also have "\<dots> \<longleftrightarrow> 2 ^ LENGTH('a) - 1 < unat y * unat x"
    using x by (simp add: div_less_iff_less_mult)
  also have "\<dots> \<longleftrightarrow> 2 ^ LENGTH('a) \<le> unat x * unat y"
    by (simp add: mult.commute less_eq_Suc_le)
  finally show ?thesis .
qed

lemma checked_mult_overflow:
  "is_overflow (checked_mult (a :: 'a::len word intop) b) \<longleftrightarrow>
     is_overflow a \<or> is_overflow b \<or> 2 ^ LENGTH('a) \<le> unat (intval a) * unat (intval b)"
  by (cases "intval a = 0"; cases "intval b = 0")
    (auto simp: checked_mult_def less_max_div_iff mult.commute)

lemma checked_mult_value:
  assumes "\<not> is_overflow (checked_mult (a :: 'a::len word intop) b)"
  shows "unat (intval (checked_mult a b)) = unat (intval a) * unat (intval b)"
proof -
  have "unat (intval a) * unat (intval b) < 2 ^ LENGTH('a)"
    using assms by (simp add: checked_mult_overflow)
  moreover have "intval (checked_mult a b) = intval a * intval b"
    using assms by (auto simp: checked_mult_def split: if_splits)
  ultimately show ?thesis
    by (metis unat_mult_lem)
qed

lemma checked_add_overflow:
  "is_overflow (checked_add (a :: 'a::len word intop) b) \<longleftrightarrow>
     is_overflow a \<or> is_overflow b \<or> 2 ^ LENGTH('a) \<le> unat (intval a) + unat (intval b)"
proof -
  let ?x = "unat (intval a)" and ?y = "unat (intval b)" and ?m = "2 ^ LENGTH('a) :: nat"
  have l: "?x < ?m" "?y < ?m" by (simp_all add: unsigned_less)
  have s: "unat (intval a + intval b) = (?x + ?y) mod ?m" by (simp add: unat_word_ariths)
  have "(?x + ?y) mod ?m < ?x \<and> (?x + ?y) mod ?m < ?y \<longleftrightarrow> ?m \<le> ?x + ?y"
  proof (cases "?m \<le> ?x + ?y")
    case True
    have "(?x + ?y) mod ?m = (?x + ?y - ?m) mod ?m" using True by (rule le_mod_geq)
    also have "\<dots> = ?x + ?y - ?m" using True l by (intro mod_less) linarith
    finally have "(?x + ?y) mod ?m = ?x + ?y - ?m" .
    with True l show ?thesis by linarith
  next
    case False
    then show ?thesis by simp
  qed
  then show ?thesis
    by (auto simp: checked_add_def Let_def word_less_nat_alt s)
qed

lemma checked_add_value:
  assumes "\<not> is_overflow (checked_add (a :: 'a::len word intop) b)"
  shows "unat (intval (checked_add a b)) = unat (intval a) + unat (intval b)"
proof -
  have "unat (intval a) + unat (intval b) < 2 ^ LENGTH('a)"
    using assms by (simp add: checked_add_overflow)
  moreover have "intval (checked_add a b) = intval a + intval b"
    using assms by (auto simp: checked_add_def Let_def split: if_splits)
  ultimately show ?thesis
    by (metis unat_add_lem)
qed

lemma checked_init_sel [simp]:
  "\<not> is_overflow (checked_init v)" "intval (checked_init v) = v"
  by (simp_all add: checked_init_def)

section \<open>The contract of checked arithmetic\<close>

text \<open>
  What a caller may rely on: a computation whose overflow flag is clear has the exact value of the
  natural-number computation, and the flag is set only when some intermediate value does not fit.
\<close>

locale checked_int =
  fixes init :: "'w \<Rightarrow> 'c" and add :: "'c \<Rightarrow> 'c \<Rightarrow> 'c" and mult :: "'c \<Rightarrow> 'c \<Rightarrow> 'c"
    and ovf :: "'c \<Rightarrow> bool" and val :: "'c \<Rightarrow> nat" and num :: "'w \<Rightarrow> nat" and bound :: nat
  assumes init_ok: "\<not> ovf (init w)" and init_val: "val (init w) = num w"
    and num_less: "num w < bound"
    and add_ovf: "ovf (add a b) \<longleftrightarrow> ovf a \<or> ovf b \<or> bound \<le> val a + val b"
    and add_val: "\<not> ovf (add a b) \<Longrightarrow> val (add a b) = val a + val b"
    and mult_ovf: "ovf (mult a b) \<longleftrightarrow> ovf a \<or> ovf b \<or> bound \<le> val a * val b"
    and mult_val: "\<not> ovf (mult a b) \<Longrightarrow> val (mult a b) = val a * val b"
begin

lemmas checked_simps = init_ok init_val add_ovf mult_ovf

text \<open>A header plus an array body: the only shape in which the validator computes sizes.\<close>

lemma header_plus_body_ovf:
  "ovf (add (init h) (mult (init n) (init k))) \<longleftrightarrow> bound \<le> num h + num n * num k"
proof (cases "bound \<le> num n * num k")
  case True
  then show ?thesis by (simp add: checked_simps)
next
  case False
  then have "val (mult (init n) (init k)) = num n * num k"
    by (simp add: mult_val checked_simps)
  with False show ?thesis by (simp add: checked_simps)
qed

lemma header_plus_body_val:
  assumes "\<not> ovf (add (init h) (mult (init n) (init k)))"
  shows "val (add (init h) (mult (init n) (init k))) = num h + num n * num k"
proof -
  have "\<not> ovf (mult (init n) (init k))" using assms by (simp add: add_ovf)
  then have "val (mult (init n) (init k)) = num n * num k" by (simp add: mult_val init_val)
  with assms show ?thesis by (simp add: add_val init_val)
qed

text \<open>An interval test: the end of a range fits and lies inside a buffer.\<close>

lemma range_end_ok:
  "\<not> ovf (add (init a) (init n)) \<and> val (add (init a) (init n)) \<le> len \<longleftrightarrow>
     num a + num n \<le> len \<and> num a + num n < bound"
  by (auto simp: checked_simps add_val)

lemma sum_of_three_ovf:
  "ovf (add (add (init a) (init b)) (init c)) \<longleftrightarrow> bound \<le> num a + num b + num c"
  by (cases "bound \<le> num a + num b") (simp_all add: checked_simps add_val)

lemma sum_of_three_val:
  "\<not> ovf (add (add (init a) (init b)) (init c)) \<Longrightarrow>
     val (add (add (init a) (init b)) (init c)) = num a + num b + num c"
  by (metis add_ovf add_val init_val)

end

text \<open>All three families of the code meet the contract.\<close>

interpretation sz: checked_int intop_sizet_init intop_sizet_add intop_sizet_mult is_overflow
    "\<lambda>c. unat (intval c)" unat "2 ^ 64"
  by unfold_locales
    (simp_all add: intop_sizet_init_def intop_sizet_add_def intop_sizet_mult_def
      checked_add_overflow checked_add_value checked_mult_overflow checked_mult_value)

interpretation u64c: checked_int intop_u64_init intop_u64_add intop_u64_mult is_overflow
    "\<lambda>c. unat (intval c)" unat "2 ^ 64"
  by unfold_locales
    (simp_all add: intop_u64_init_def intop_u64_add_def intop_u64_mult_def
      checked_add_overflow checked_add_value checked_mult_overflow checked_mult_value)

interpretation u32c: checked_int intop_u32_init intop_u32_add uintop_32_mult is_overflow
    "\<lambda>c. unat (intval c)" unat "2 ^ 32"
  by unfold_locales
    (simp_all add: intop_u32_init_def intop_u32_add_def uintop_32_mult_def
      checked_add_overflow checked_add_value checked_mult_overflow checked_mult_value)

end
