(* ===== verification/Strings.thy ===== *)
theory Strings
  imports Int_Ops
begin

text \<open>
  NUL-terminated strings of 8-, 16- and 32-bit code units: the helpers of
  \<open>src/pointless_unicode_utils.c\<close>, the string comparisons of \<open>src/pointless_cmp.c\<close> and the string
  hashes of \<open>src/pointless_hash.c\<close>. A \<open>char*\<close> is the list of the units from the pointer to the end
  of its allocation; running past it is \<open>None\<close>. The macros that the C code expands at each width are
  one polymorphic function here.
\<close>

unbundle bit_operations_syntax

section \<open>Lengths, tests and copies\<close>

text \<open>\<open>POINTLESS_STRING_LEN\<close>, \<open>POINTLESS_BELOW_RANGE\<close> and \<open>POINTLESS_STRING_CPY\<close>.\<close>

fun string_len_loop :: "u64 \<Rightarrow> 'a::len word list \<Rightarrow> u64 option" where
  "string_len_loop i [] = None"
| "string_len_loop i (x # xs) = (if x \<noteq> 0 then string_len_loop (i + 1) xs else Some i)"

fun below_range_loop :: "'a::len word list \<Rightarrow> 'a word \<Rightarrow> bool option" where
  "below_range_loop [] i_max = None"
| "below_range_loop (x # xs) i_max =
     (if x \<noteq> 0 \<and> x \<le> i_max then below_range_loop xs i_max else Some (x = 0))"

text \<open>
  Copies write through \<open>dst\<close> one unit at a time; the converting variants cast the unit on the way.
\<close>

fun string_conv_loop :: "('a::len word \<Rightarrow> 'b::len word) \<Rightarrow> 'b word list \<Rightarrow> 'a word list \<Rightarrow>
    'b word list option" where
  "string_conv_loop f dst [] = None"
| "string_conv_loop f [] (x # xs) = None"
| "string_conv_loop f (d # ds) (x # xs) =
     (if x \<noteq> 0 then map_option (\<lambda>r. f x # r) (string_conv_loop f ds xs) else Some (0 # ds))"

definition pointless_is_ucs4_ascii :: "u32 list \<Rightarrow> bool option" where
  "pointless_is_ucs4_ascii s = below_range_loop s UINT8_MAX"

definition pointless_is_ucs2_ascii :: "u16 list \<Rightarrow> bool option" where
  "pointless_is_ucs2_ascii s = below_range_loop s UINT8_MAX"

definition pointless_ucs4_len :: "u32 list \<Rightarrow> u64 option" where
  "pointless_ucs4_len s = string_len_loop 0 s"

definition pointless_ucs2_len :: "u16 list \<Rightarrow> u64 option" where
  "pointless_ucs2_len s = string_len_loop 0 s"

definition pointless_ascii_len :: "u8 list \<Rightarrow> u64 option" where
  "pointless_ascii_len s = string_len_loop 0 s"

definition pointless_ucs1_len :: "u8 list \<Rightarrow> u64 option" where
  "pointless_ucs1_len s = string_len_loop 0 s"

definition pointless_ucs4_cpy :: "u32 list \<Rightarrow> u32 list \<Rightarrow> u32 list option" where
  "pointless_ucs4_cpy dst src = string_conv_loop id dst src"

definition pointless_ucs2_cpy :: "u16 list \<Rightarrow> u16 list \<Rightarrow> u16 list option" where
  "pointless_ucs2_cpy dst src = string_conv_loop id dst src"

definition pointless_ascii_cpy :: "u8 list \<Rightarrow> u8 list \<Rightarrow> u8 list option" where
  "pointless_ascii_cpy dst src = string_conv_loop id dst src"

text \<open>
  The converters allocate; \<open>alloc n\<close> tells whether \<open>pointless_malloc (n)\<close> succeeds. The inner option is
  the pointer they return, \<open>None\<close> for null. The fresh buffer's contents are overwritten in full.
\<close>

definition pointless_ucs4_to_ascii :: "(u64 \<Rightarrow> bool) \<Rightarrow> u32 list \<Rightarrow> u8 list option option" where
  "pointless_ucs4_to_ascii alloc ucs4 =
     do { n \<leftarrow> pointless_ucs4_len ucs4;
          if \<not> alloc (1 * (n + 1)) then Some None
          else map_option Some
                 (string_conv_loop ucast (replicate (unat (n + 1)) 0) ucs4) }"

definition pointless_ucs2_to_ucs4 :: "(u64 \<Rightarrow> bool) \<Rightarrow> u16 list \<Rightarrow> u32 list option option" where
  "pointless_ucs2_to_ucs4 alloc ucs2 =
     do { n \<leftarrow> pointless_ucs2_len ucs2;
          let c = intop_sizet_mult (intop_sizet_init (n + 1)) (intop_sizet_init 4);
          if is_overflow c then Some None
          else if \<not> alloc (intval c) then Some None
          else map_option Some
                 (string_conv_loop ucast (replicate (unat (intval c) div 4) 0) ucs2) }"

definition pointless_ucs2_to_ascii :: "(u64 \<Rightarrow> bool) \<Rightarrow> u16 list \<Rightarrow> u8 list option option" where
  "pointless_ucs2_to_ascii alloc ucs2 =
     do { n \<leftarrow> pointless_ucs2_len ucs2;
          if \<not> alloc (1 * (n + 1)) then Some None
          else map_option Some
                 (string_conv_loop ucast (replicate (unat (n + 1)) 0) ucs2) }"

definition pointless_ascii_to_ucs4 :: "(u64 \<Rightarrow> bool) \<Rightarrow> u8 list \<Rightarrow> u32 list option option" where
  "pointless_ascii_to_ucs4 alloc ascii =
     do { n \<leftarrow> pointless_ascii_len ascii;
          let c = intop_sizet_mult (intop_sizet_init (n + 1)) (intop_sizet_init 4);
          if is_overflow c then Some None
          else if \<not> alloc (intval c) then Some None
          else map_option Some
                 (string_conv_loop ucast (replicate (unat (intval c) div 4) 0) ascii) }"

section \<open>Comparison\<close>

text \<open>
  \<open>POINTLESS_CMP_STRING\<close>: the units are compared as \<open>uint32_t\<close>, whatever their widths.
\<close>

fun cmp_string :: "'a::len word list \<Rightarrow> 'b::len word list \<Rightarrow> int option" where
  "cmp_string (x # a) (y # b) =
     (if (ucast x :: u32) = ucast y then (if x = 0 then Some 0 else cmp_string a b)
      else Some (SIMPLE_CMP (ucast x :: u32) (ucast y)))"
| "cmp_string _ _ = None"

definition pointless_cmp_string_8_8 :: "u8 list \<Rightarrow> u8 list \<Rightarrow> int option" where
  "pointless_cmp_string_8_8 a b = cmp_string a b"

definition pointless_cmp_string_8_16 :: "u8 list \<Rightarrow> u16 list \<Rightarrow> int option" where
  "pointless_cmp_string_8_16 a b = cmp_string a b"

definition pointless_cmp_string_8_32 :: "u8 list \<Rightarrow> u32 list \<Rightarrow> int option" where
  "pointless_cmp_string_8_32 a b = cmp_string a b"

definition pointless_cmp_string_16_8 :: "u16 list \<Rightarrow> u8 list \<Rightarrow> int option" where
  "pointless_cmp_string_16_8 a b = cmp_string a b"

definition pointless_cmp_string_16_16 :: "u16 list \<Rightarrow> u16 list \<Rightarrow> int option" where
  "pointless_cmp_string_16_16 a b = cmp_string a b"

definition pointless_cmp_string_16_32 :: "u16 list \<Rightarrow> u32 list \<Rightarrow> int option" where
  "pointless_cmp_string_16_32 a b = cmp_string a b"

definition pointless_cmp_string_32_8 :: "u32 list \<Rightarrow> u8 list \<Rightarrow> int option" where
  "pointless_cmp_string_32_8 a b = cmp_string a b"

definition pointless_cmp_string_32_16 :: "u32 list \<Rightarrow> u16 list \<Rightarrow> int option" where
  "pointless_cmp_string_32_16 a b = cmp_string a b"

definition pointless_cmp_string_32_32 :: "u32 list \<Rightarrow> u32 list \<Rightarrow> int option" where
  "pointless_cmp_string_32_32 a b = cmp_string a b"

text \<open>
  \<open>POINTLESS_CMP_STRING__N\<close>: the second string has \<open>n_b\<close> units and no terminator. The guards of the
  loop read in their order, so \<open>b\<close> is not read once \<open>n_\<close> has reached \<open>n_b\<close>.
\<close>

fun cmp_string_n :: "'a::len word list \<Rightarrow> 'b::len word list \<Rightarrow> u64 \<Rightarrow> u64 \<Rightarrow> int option" where
  "cmp_string_n [] b n n_b = None"
| "cmp_string_n (x # a) b n n_b =
     (if x = 0 \<or> \<not> n < n_b then
        Some (if x = 0 \<and> n = n_b then 0 else if x = 0 then -1 else 1)
      else (case b of
              [] \<Rightarrow> None
            | y # b' \<Rightarrow>
                if (ucast x :: u32) = ucast y then cmp_string_n a b' (n + 1) n_b
                else Some (SIMPLE_CMP (ucast x :: u32) (ucast y))))"

definition pointless_cmp_string_8_8_n :: "u8 list \<Rightarrow> u8 list \<Rightarrow> u64 \<Rightarrow> int option" where
  "pointless_cmp_string_8_8_n a b n_b = cmp_string_n a b 0 n_b"

definition pointless_cmp_string_32_8_n :: "u32 list \<Rightarrow> u8 list \<Rightarrow> u64 \<Rightarrow> int option" where
  "pointless_cmp_string_32_8_n a b n_b = cmp_string_n a b 0 n_b"

section \<open>Hashing\<close>

text \<open>
  \<open>PYTHON_STRING_HASH_32\<close>; \<open>x ^ len\<close> is computed at the width of \<open>size_t\<close> and cut on return.
\<close>

fun string_hash_loop :: "'a::len word list \<Rightarrow> u32 \<Rightarrow> u64 \<Rightarrow> u32 option" where
  "string_hash_loop [] x n = None"
| "string_hash_loop (c # cs) x n =
     (if c \<noteq> 0 then string_hash_loop cs ((1000003 * x) XOR ucast c) (n + 1)
      else Some (ucast (ucast x XOR n)))"

definition python_string_hash_32 :: "'a::len word list \<Rightarrow> u32 option" where
  "python_string_hash_32 s =
     do { c \<leftarrow> arr_get s 0; string_hash_loop s (push_bit 7 (ucast c)) 0 }"

definition pointless_hash_string_v1_32 :: "u8 list \<Rightarrow> u32 option" where
  "pointless_hash_string_v1_32 s = python_string_hash_32 s"

definition pointless_hash_unicode_ucs2_v1_32 :: "u16 list \<Rightarrow> u32 option" where
  "pointless_hash_unicode_ucs2_v1_32 s = python_string_hash_32 s"

definition pointless_hash_unicode_ucs4_v1_32 :: "u32 list \<Rightarrow> u32 option" where
  "pointless_hash_unicode_ucs4_v1_32 s = python_string_hash_32 s"

text \<open>The variant with an explicit length reads the first unit even when the length is 0.\<close>

fun string_hash_n_loop :: "'a::len word list \<Rightarrow> u32 \<Rightarrow> u64 \<Rightarrow> u64 \<Rightarrow> u32 option" where
  "string_hash_n_loop [] x n len = (if n < len then None else Some (ucast (ucast x XOR n)))"
| "string_hash_n_loop (c # cs) x n len =
     (if n < len then string_hash_n_loop cs ((1000003 * x) XOR ucast c) (n + 1) len
      else Some (ucast (ucast x XOR n)))"

definition pointless_hash_string_v1_32_n :: "u8 list \<Rightarrow> u64 \<Rightarrow> u32 option" where
  "pointless_hash_string_v1_32_n s n =
     do { c \<leftarrow> arr_get s 0; string_hash_n_loop s (push_bit 7 (ucast c)) 0 n }"

end
