(* ===== verification/Reader_Data.thy ===== *)
theory Reader_Data
  imports Value Bitvector Strings
begin

text \<open>
  The read handle and the accessors of \<open>src/pointless_reader.c\<close> (the opening of a file is in the
  theory \<open>Validate\<close>, the lookups are in \<open>Reader_Lookup\<close>). The file image is a byte list and a
  pointer into it is a byte position; following a pointer reads the bytes there, and a read
  past the end is \<open>None\<close>. The image is never written, so the header is decoded once.
\<close>

unbundle bit_operations_syntax

type_synonym addr = nat

section \<open>Structures in the file image\<close>

definition read_value :: "u8 list \<Rightarrow> addr \<Rightarrow> pointless_value_t option" where
  "read_value buf a =
     do { t \<leftarrow> read_u32 buf a;
          d \<leftarrow> read_u32 buf (a + 4);
          Some \<lparr>v_type = t, v_data = d\<rparr> }"

definition read_header :: "u8 list \<Rightarrow> addr \<Rightarrow> pointless_header_t option" where
  "read_header buf a =
     do { r \<leftarrow> read_value buf a;
          n_su \<leftarrow> read_u32 buf (a + 8);
          n_v \<leftarrow> read_u32 buf (a + 12);
          n_b \<leftarrow> read_u32 buf (a + 16);
          n_s \<leftarrow> read_u32 buf (a + 20);
          n_m \<leftarrow> read_u32 buf (a + 24);
          ver \<leftarrow> read_u32 buf (a + 28);
          Some \<lparr>root = r, n_string_unicode = n_su, n_vector = n_v, n_bitvector = n_b,
                n_set = n_s, n_map = n_m, version = ver\<rparr> }"

definition read_set_header :: "u8 list \<Rightarrow> addr \<Rightarrow> pointless_set_header_t option" where
  "read_set_header buf a =
     do { n \<leftarrow> read_u32 buf a;
          pad \<leftarrow> read_u32 buf (a + 4);
          hv \<leftarrow> read_value buf (a + 8);
          kv \<leftarrow> read_value buf (a + 16);
          Some \<lparr>sh_n_items = n, sh_padding = pad, sh_hash_vector = hv, sh_key_vector = kv\<rparr> }"

definition read_map_header :: "u8 list \<Rightarrow> addr \<Rightarrow> pointless_map_header_t option" where
  "read_map_header buf a =
     do { n \<leftarrow> read_u32 buf a;
          pad \<leftarrow> read_u32 buf (a + 4);
          hv \<leftarrow> read_value buf (a + 8);
          kv \<leftarrow> read_value buf (a + 16);
          vv \<leftarrow> read_value buf (a + 24);
          Some \<lparr>mh_n_items = n, mh_padding = pad, mh_hash_vector = hv, mh_key_vector = kv,
                mh_value_vector = vv\<rparr> }"

text \<open>The values from an address on, as \<open>pointless_value_t*\<close> indexes them.\<close>

definition view_values :: "u8 list \<Rightarrow> addr \<Rightarrow> pointless_value_t list" where
  "view_values buf a =
     map (\<lambda>c. \<lparr>v_type = le_word (take 4 c), v_data = le_word (drop 4 c)\<rparr>) (chunks 8 (drop a buf))"

section \<open>The read handle\<close>

record pointless_t =
  p_buf :: "u8 list"
  header :: pointless_header_t
  string_unicode_offsets :: addr
  vector_offsets :: addr
  bitvector_offsets :: addr
  set_offsets :: addr
  map_offsets :: addr
  heap_ptr :: addr
  heap_len :: u64

text \<open>\<open>PC_OFFSET\<close> and \<open>PC_HEAP_OFFSET\<close>: an entry of an offset vector, and the heap address it names.\<close>

definition PC_OFFSET :: "pointless_t \<Rightarrow> addr \<Rightarrow> u32 \<Rightarrow> u64 option" where
  "PC_OFFSET p offsets i = read_u64 (p_buf p) (offsets + 8 * unat i)"

definition PC_HEAP_OFFSET :: "pointless_t \<Rightarrow> addr \<Rightarrow> u32 \<Rightarrow> addr option" where
  "PC_HEAP_OFFSET p offsets i = map_option (\<lambda>off. heap_ptr p + unat off) (PC_OFFSET p offsets i)"

definition pointless_root :: "pointless_t \<Rightarrow> pointless_value_t" where
  "pointless_root p = root (header p)"

section \<open>Strings\<close>

definition pointless_reader_unicode_len :: "pointless_t \<Rightarrow> pointless_value_t \<Rightarrow> u32 option" where
  "pointless_reader_unicode_len p v =
     do { u_len \<leftarrow> PC_HEAP_OFFSET p (string_unicode_offsets p) (v_data v);
          read_u32 (p_buf p) u_len }"

definition pointless_reader_unicode_value :: "pointless_t \<Rightarrow> pointless_value_t \<Rightarrow> u32 list option" where
  "pointless_reader_unicode_value p v =
     do { u_len \<leftarrow> PC_HEAP_OFFSET p (string_unicode_offsets p) (v_data v);
          Some (view_le 4 (p_buf p) (u_len + 4)) }"

definition pointless_reader_unicode_value_ucs4 ::
    "pointless_t \<Rightarrow> pointless_value_t \<Rightarrow> u32 list option" where
  "pointless_reader_unicode_value_ucs4 p v = pointless_reader_unicode_value p v"

definition pointless_reader_string_len :: "pointless_t \<Rightarrow> pointless_value_t \<Rightarrow> u32 option" where
  "pointless_reader_string_len p v =
     do { u_len \<leftarrow> PC_HEAP_OFFSET p (string_unicode_offsets p) (v_data v);
          read_u32 (p_buf p) u_len }"

definition pointless_reader_string_value_ascii ::
    "pointless_t \<Rightarrow> pointless_value_t \<Rightarrow> u8 list option" where
  "pointless_reader_string_value_ascii p v =
     do { u_len \<leftarrow> PC_HEAP_OFFSET p (string_unicode_offsets p) (v_data v);
          Some (drop (u_len + 4) (p_buf p)) }"

section \<open>Vectors\<close>

definition pointless_reader_vector_n_items :: "pointless_t \<Rightarrow> pointless_value_t \<Rightarrow> u32 option" where
  "pointless_reader_vector_n_items p v =
     (if v_type v = POINTLESS_VECTOR_EMPTY then Some 0
      else do { v_len \<leftarrow> PC_HEAP_OFFSET p (vector_offsets p) (v_data v);
                read_u32 (p_buf p) v_len })"

text \<open>The inner \<open>None\<close> is the null pointer of an empty vector.\<close>

definition pointless_reader_vector_base_ptr ::
    "pointless_t \<Rightarrow> pointless_value_t \<Rightarrow> addr option option" where
  "pointless_reader_vector_base_ptr p v =
     (if v_type v = POINTLESS_VECTOR_EMPTY then Some None
      else do { v_len \<leftarrow> PC_HEAP_OFFSET p (vector_offsets p) (v_data v);
                Some (Some (v_len + 4)) })"

definition vector_view :: "nat \<Rightarrow> pointless_t \<Rightarrow> pointless_value_t \<Rightarrow> 'a::len word list option" where
  "vector_view n p v =
     do { base \<leftarrow> pointless_reader_vector_base_ptr p v;
          Some (case base of None \<Rightarrow> [] | Some a \<Rightarrow> view_le n (p_buf p) a) }"

definition pointless_reader_vector_value ::
    "pointless_t \<Rightarrow> pointless_value_t \<Rightarrow> pointless_value_t list option" where
  "pointless_reader_vector_value p v =
     do { base \<leftarrow> pointless_reader_vector_base_ptr p v;
          Some (case base of None \<Rightarrow> [] | Some a \<Rightarrow> view_values (p_buf p) a) }"

definition pointless_reader_vector_i8 :: "pointless_t \<Rightarrow> pointless_value_t \<Rightarrow> i8 list option" where
  "pointless_reader_vector_i8 p v = vector_view 1 p v"

definition pointless_reader_vector_u8 :: "pointless_t \<Rightarrow> pointless_value_t \<Rightarrow> u8 list option" where
  "pointless_reader_vector_u8 p v = vector_view 1 p v"

definition pointless_reader_vector_i16 :: "pointless_t \<Rightarrow> pointless_value_t \<Rightarrow> i16 list option" where
  "pointless_reader_vector_i16 p v = vector_view 2 p v"

definition pointless_reader_vector_u16 :: "pointless_t \<Rightarrow> pointless_value_t \<Rightarrow> u16 list option" where
  "pointless_reader_vector_u16 p v = vector_view 2 p v"

definition pointless_reader_vector_i32 :: "pointless_t \<Rightarrow> pointless_value_t \<Rightarrow> i32 list option" where
  "pointless_reader_vector_i32 p v = vector_view 4 p v"

definition pointless_reader_vector_u32 :: "pointless_t \<Rightarrow> pointless_value_t \<Rightarrow> u32 list option" where
  "pointless_reader_vector_u32 p v = vector_view 4 p v"

definition pointless_reader_vector_i64 :: "pointless_t \<Rightarrow> pointless_value_t \<Rightarrow> i64 list option" where
  "pointless_reader_vector_i64 p v = vector_view 8 p v"

definition pointless_reader_vector_u64 :: "pointless_t \<Rightarrow> pointless_value_t \<Rightarrow> u64 list option" where
  "pointless_reader_vector_u64 p v = vector_view 8 p v"

text \<open>Floats stay the 32 bits of the file; the theory \<open>Float32\<close> reads them.\<close>

definition pointless_reader_vector_float :: "pointless_t \<Rightarrow> pointless_value_t \<Rightarrow> u32 list option" where
  "pointless_reader_vector_float p v = vector_view 4 p v"

definition pointless_reader_vector_value_case ::
    "pointless_t \<Rightarrow> pointless_value_t \<Rightarrow> u32 \<Rightarrow> pointless_complete_value_t option" where
  "pointless_reader_vector_value_case p v i =
     (let t = v_type v; k = unat i in
      if t \<in> {POINTLESS_VECTOR_VALUE, POINTLESS_VECTOR_VALUE_HASHABLE} then
        do { xs \<leftarrow> pointless_reader_vector_value p v; x \<leftarrow> arr_get xs k;
             Some (pointless_value_to_complete x) }
      else if t = POINTLESS_VECTOR_I8 then
        do { xs \<leftarrow> pointless_reader_vector_i8 p v; x \<leftarrow> arr_get xs k;
             Some (pointless_complete_value_create_as_read_i32 (scast x)) }
      else if t = POINTLESS_VECTOR_U8 then
        do { xs \<leftarrow> pointless_reader_vector_u8 p v; x \<leftarrow> arr_get xs k;
             Some (pointless_complete_value_create_as_read_u32 (ucast x)) }
      else if t = POINTLESS_VECTOR_I16 then
        do { xs \<leftarrow> pointless_reader_vector_i16 p v; x \<leftarrow> arr_get xs k;
             Some (pointless_complete_value_create_as_read_i32 (scast x)) }
      else if t = POINTLESS_VECTOR_U16 then
        do { xs \<leftarrow> pointless_reader_vector_u16 p v; x \<leftarrow> arr_get xs k;
             Some (pointless_complete_value_create_as_read_u32 (ucast x)) }
      else if t = POINTLESS_VECTOR_I32 then
        do { xs \<leftarrow> pointless_reader_vector_i32 p v; x \<leftarrow> arr_get xs k;
             Some (pointless_complete_value_create_as_read_i32 x) }
      else if t = POINTLESS_VECTOR_U32 then
        do { xs \<leftarrow> pointless_reader_vector_u32 p v; x \<leftarrow> arr_get xs k;
             Some (pointless_complete_value_create_as_read_u32 x) }
      else if t = POINTLESS_VECTOR_I64 then
        do { xs \<leftarrow> pointless_reader_vector_i64 p v; x \<leftarrow> arr_get xs k;
             Some (pointless_complete_value_create_as_read_i64 x) }
      else if t = POINTLESS_VECTOR_U64 then
        do { xs \<leftarrow> pointless_reader_vector_u64 p v; x \<leftarrow> arr_get xs k;
             Some (pointless_complete_value_create_as_read_u64 x) }
      else if t = POINTLESS_VECTOR_FLOAT then
        do { xs \<leftarrow> pointless_reader_vector_float p v; x \<leftarrow> arr_get xs k;
             Some (pointless_complete_value_create_as_read_float x) }
      else Some pointless_complete_value_create_as_read_null)"

section \<open>Bitvectors\<close>

definition pointless_reader_bitvector_buffer ::
    "pointless_t \<Rightarrow> pointless_value_t \<Rightarrow> u8 list option" where
  "pointless_reader_bitvector_buffer p v =
     do { a \<leftarrow> PC_HEAP_OFFSET p (bitvector_offsets p) (v_data v);
          Some (drop a (p_buf p)) }"

text \<open>The buffer pointer is null unless the bitvector lives in the heap.\<close>

definition reader_buffer_or_null :: "pointless_t \<Rightarrow> pointless_value_t \<Rightarrow> u8 list option" where
  "reader_buffer_or_null p v =
     (if v_type v = POINTLESS_BITVECTOR then pointless_reader_bitvector_buffer p v else Some [])"

definition pointless_reader_bitvector_n_bits :: "pointless_t \<Rightarrow> pointless_value_t \<Rightarrow> u32 option" where
  "pointless_reader_bitvector_n_bits p v =
     do { buffer \<leftarrow> reader_buffer_or_null p v;
          pointless_bitvector_n_bits (v_type v) (v_data v) buffer }"

definition pointless_reader_bitvector_is_set ::
    "pointless_t \<Rightarrow> pointless_value_t \<Rightarrow> u32 \<Rightarrow> u32 option" where
  "pointless_reader_bitvector_is_set p v bi =
     do { buffer \<leftarrow> reader_buffer_or_null p v;
          pointless_bitvector_is_set (v_type v) (v_data v) buffer bi }"

section \<open>Containers\<close>

definition pointless_n_containers :: "pointless_t \<Rightarrow> u32" where
  "pointless_n_containers p = 1 + n_vector (header p) + n_set (header p) + n_map (header p)"

definition pointless_container_id :: "pointless_t \<Rightarrow> pointless_value_t \<Rightarrow> u32" where
  "pointless_container_id p c =
     (if v_type c = POINTLESS_VECTOR_EMPTY then 0
      else if pointless_is_vector_type (v_type c) then 1 + v_data c
      else if v_type c = POINTLESS_SET_VALUE then 1 + v_data c + n_vector (header p)
      else if v_type c = POINTLESS_MAP_VALUE_VALUE then
        1 + v_data c + n_vector (header p) + n_set (header p)
      else UINT32_MAX)"

section \<open>Lemmas\<close>

lemma arr_get_view_values: "arr_get (view_values buf a) i = read_value buf (a + 8 * i)"
proof (cases "i < length (chunks 8 (drop a buf))")
  case True
  then have i: "i < length (drop a buf) div 8" by (simp add: length_chunks)
  then have "8 * i + 8 \<le> length (drop a buf)" by simp
  then have len: "a + 8 * i + 8 \<le> length buf" by simp
  have "chunks 8 (drop a buf) ! i = take 8 (drop (8 * i) (drop a buf))"
    by (rule nth_chunks) (use i in simp_all)
  with True len show ?thesis
    by (simp add: arr_get_def view_values_def read_value_def add.commute add.left_commute drop_take)
next
  case False
  then have "length buf < a + 8 * i + 8" by (simp add: length_chunks)
  with False show ?thesis by (simp add: arr_get_def view_values_def read_value_def read_le_def)
qed

lemma read_value_in [safe_read]: "a + 8 \<le> length buf \<Longrightarrow> \<exists>v. read_value buf a = Some v"
  by (simp add: read_value_def)

lemma read_set_header_in [safe_read]: "a + 24 \<le> length buf \<Longrightarrow> \<exists>h. read_set_header buf a = Some h"
  by (simp add: read_set_header_def read_value_def)

lemma read_map_header_in [safe_read]: "a + 32 \<le> length buf \<Longrightarrow> \<exists>h. read_map_header buf a = Some h"
  by (simp add: read_map_header_def read_value_def)

end
