(* ===== verification/Hash.thy ===== *)
theory Hash
  imports Reader_Data
begin

text \<open>
  \<open>src/pointless_hash.c\<close>: the hashes of integers, floats, vectors and of every hashable value of a
  file (the string hashes are in \<open>Strings\<close>, the bitvector hashes in \<open>Bitvector\<close>). The table of
  function pointers is a datatype; a null pointer is \<open>None\<close>, and calling it is undefined.
\<close>

unbundle bit_operations_syntax

section \<open>Scalars\<close>

definition pointless_hash_i32_32 :: "i32 \<Rightarrow> u32" where
  "pointless_hash_i32_32 v = v"

definition pointless_hash_u32_32 :: "u32 \<Rightarrow> u32" where
  "pointless_hash_u32_32 v = v"

definition pointless_hash_i64_32 :: "i64 \<Rightarrow> u32" where
  "pointless_hash_i64_32 v = ucast (v mod UINT32_MAX)"

definition pointless_hash_u64_32 :: "u64 \<Rightarrow> u32" where
  "pointless_hash_u64_32 v = ucast (v mod UINT32_MAX)"

definition pointless_hash_bool_true_32 :: u32 where
  "pointless_hash_bool_true_32 = 1"

definition pointless_hash_bool_false_32 :: u32 where
  "pointless_hash_bool_false_32 = 0"

definition pointless_hash_null_32 :: u32 where
  "pointless_hash_null_32 = 0"

definition pointless_hash_int_32 :: "u32 \<Rightarrow> pointless_value_data_t \<Rightarrow> u32" where
  "pointless_hash_int_32 t v =
     (if t = POINTLESS_I32 then pointless_hash_i32_32 v
      else if t \<in> {POINTLESS_U32, POINTLESS_BOOLEAN} then pointless_hash_u32_32 v
      else 0)"

text \<open>
  A float without fraction hashes as the integer it equals, when a 32-bit integer equals it;
  every other float hashes as its bits.
\<close>

definition pointless_hash_float_32 :: "u32 \<Rightarrow> u32" where
  "pointless_hash_float_32 f =
     (case f32_integral (f32_bits_val f) of
        None \<Rightarrow> f
      | Some di \<Rightarrow>
          if di < 0 \<and> - 2147483648 \<le> di \<and> di \<le> 2147483647 then word_of_int di
          else if 0 \<le> di \<and> di \<le> 4294967295 then word_of_int di
          else f)"

section \<open>The incremental vector hash\<close>

record pointless_vector_hash_state_32_t =
  hs_mult :: u32
  hs_x :: u32
  hs_len :: u32

definition pointless_vector_hash_init_32 :: "u32 \<Rightarrow> pointless_vector_hash_state_32_t" where
  "pointless_vector_hash_init_32 n = \<lparr>hs_mult = 1000003, hs_x = 0x345678, hs_len = n\<rparr>"

definition pointless_vector_hash_next_32 ::
    "pointless_vector_hash_state_32_t \<Rightarrow> u32 \<Rightarrow> pointless_vector_hash_state_32_t" where
  "pointless_vector_hash_next_32 state h =
     state\<lparr>hs_x := (hs_x state XOR h) * hs_mult state,
           hs_mult := hs_mult state + (82520 + hs_len state + hs_len state)\<rparr>"

definition pointless_vector_hash_end_32 :: "pointless_vector_hash_state_32_t \<Rightarrow> u32" where
  "pointless_vector_hash_end_32 state = hs_x state + 97531"

section \<open>The hash of a value of the file\<close>

datatype hash_cb =
  Hash_Unicode | Hash_String | Hash_Int | Hash_Float | Hash_Bitvector | Hash_Null
  | Hash_Vector | Hash_Empty_Slot

definition pointless_hash_reader_func_32 :: "u32 \<Rightarrow> hash_cb option" where
  "pointless_hash_reader_func_32 t =
     (if t = POINTLESS_UNICODE then Some Hash_Unicode
      else if t = POINTLESS_STRING then Some Hash_String
      else if t \<in> {POINTLESS_I32, POINTLESS_U32, POINTLESS_BOOLEAN} then Some Hash_Int
      else if t = POINTLESS_FLOAT then Some Hash_Float
      else if t \<in> {POINTLESS_BITVECTOR, POINTLESS_BITVECTOR_0, POINTLESS_BITVECTOR_1,
                   POINTLESS_BITVECTOR_01, POINTLESS_BITVECTOR_10, POINTLESS_BITVECTOR_PACKED}
        then Some Hash_Bitvector
      else if t = POINTLESS_NULL then Some Hash_Null
      else if t = POINTLESS_VECTOR_VALUE then None
      else if t \<in> {POINTLESS_VECTOR_VALUE_HASHABLE, POINTLESS_VECTOR_I8, POINTLESS_VECTOR_U8,
                   POINTLESS_VECTOR_I16, POINTLESS_VECTOR_U16, POINTLESS_VECTOR_I32,
                   POINTLESS_VECTOR_U32, POINTLESS_VECTOR_I64, POINTLESS_VECTOR_U64,
                   POINTLESS_VECTOR_FLOAT, POINTLESS_VECTOR_EMPTY}
        then Some Hash_Vector
      else if t \<in> {POINTLESS_SET_VALUE, POINTLESS_MAP_VALUE_VALUE} then None
      else if t = POINTLESS_EMPTY_SLOT then Some Hash_Empty_Slot
      else None)"

definition pointless_is_hashable :: "u32 \<Rightarrow> bool" where
  "pointless_is_hashable t \<longleftrightarrow> pointless_hash_reader_func_32 t \<noteq> None"

text \<open>
  The hash of item \<open>i\<close> of a vector; \<open>rec\<close> hashes a value. 64-bit items are cut to 32 bits.
\<close>

definition hash_vector_item ::
    "(pointless_value_t \<Rightarrow> u32 option) \<Rightarrow> pointless_t \<Rightarrow> pointless_value_t \<Rightarrow> nat \<Rightarrow> u32 option" where
  "hash_vector_item rec p v i =
     (let t = v_type v in
      if t = POINTLESS_VECTOR_VALUE_HASHABLE then
        do { xs \<leftarrow> pointless_reader_vector_value p v; x \<leftarrow> arr_get xs i; rec x }
      else if t = POINTLESS_VECTOR_I8 then
        do { xs \<leftarrow> pointless_reader_vector_i8 p v; x \<leftarrow> arr_get xs i;
             Some (pointless_hash_i32_32 (scast x)) }
      else if t = POINTLESS_VECTOR_U8 then
        do { xs \<leftarrow> pointless_reader_vector_u8 p v; x \<leftarrow> arr_get xs i;
             Some (pointless_hash_u32_32 (ucast x)) }
      else if t = POINTLESS_VECTOR_I16 then
        do { xs \<leftarrow> pointless_reader_vector_i16 p v; x \<leftarrow> arr_get xs i;
             Some (pointless_hash_i32_32 (scast x)) }
      else if t = POINTLESS_VECTOR_U16 then
        do { xs \<leftarrow> pointless_reader_vector_u16 p v; x \<leftarrow> arr_get xs i;
             Some (pointless_hash_u32_32 (ucast x)) }
      else if t = POINTLESS_VECTOR_I32 then
        do { xs \<leftarrow> pointless_reader_vector_i32 p v; x \<leftarrow> arr_get xs i;
             Some (pointless_hash_i32_32 x) }
      else if t = POINTLESS_VECTOR_U32 then
        do { xs \<leftarrow> pointless_reader_vector_u32 p v; x \<leftarrow> arr_get xs i;
             Some (pointless_hash_u32_32 x) }
      else if t = POINTLESS_VECTOR_I64 then
        do { xs \<leftarrow> pointless_reader_vector_i64 p v; x \<leftarrow> arr_get xs i;
             Some (pointless_hash_i32_32 (ucast x)) }
      else if t = POINTLESS_VECTOR_U64 then
        do { xs \<leftarrow> pointless_reader_vector_u64 p v; x \<leftarrow> arr_get xs i;
             Some (pointless_hash_u32_32 (ucast x)) }
      else if t = POINTLESS_VECTOR_FLOAT then
        do { xs \<leftarrow> pointless_reader_vector_float p v; x \<leftarrow> arr_get xs i;
             Some (pointless_hash_float_32 x) }
      else Some 0)"

fun vector_hash_loop ::
    "(nat \<Rightarrow> u32 option) \<Rightarrow> nat list \<Rightarrow> pointless_vector_hash_state_32_t \<Rightarrow> u32 option" where
  "vector_hash_loop item [] state = Some (pointless_vector_hash_end_32 state)"
| "vector_hash_loop item (i # is) state =
     do { h \<leftarrow> item i; vector_hash_loop item is (pointless_vector_hash_next_32 state h) }"

definition pointless_hash_reader_vector_32_priv ::
    "(pointless_value_t \<Rightarrow> u32 option) \<Rightarrow> pointless_t \<Rightarrow> pointless_value_t \<Rightarrow> u32 \<Rightarrow> u32 \<Rightarrow>
     u32 option" where
  "pointless_hash_reader_vector_32_priv rec p v offset n_items =
     vector_hash_loop (hash_vector_item rec p v) [unat offset ..< unat (n_items + offset)]
       (pointless_vector_hash_init_32 n_items)"

text \<open>
  Values of a hashable vector are hashed recursively; the first argument is the depth the call stack
  has left, and \<open>None\<close> at 0 is the overflow of the stack (the recursion of a cyclic vector never
  ends).
\<close>

fun pointless_hash_reader_32 :: "nat \<Rightarrow> pointless_t \<Rightarrow> pointless_value_t \<Rightarrow> u32 option" where
  "pointless_hash_reader_32 0 p v = None"
| "pointless_hash_reader_32 (Suc fuel) p v =
     (case pointless_hash_reader_func_32 (v_type v) of
        None \<Rightarrow> None
      | Some cb \<Rightarrow>
          (case cb of
             Hash_Unicode \<Rightarrow>
               do { s \<leftarrow> pointless_reader_unicode_value_ucs4 p v;
                    pointless_hash_unicode_ucs4_v1_32 s }
           | Hash_String \<Rightarrow>
               do { s \<leftarrow> pointless_reader_string_value_ascii p v;
                    pointless_hash_string_v1_32 s }
           | Hash_Int \<Rightarrow> Some (pointless_hash_int_32 (v_type v) (v_data v))
           | Hash_Float \<Rightarrow> Some (pointless_hash_float_32 (v_data v))
           | Hash_Bitvector \<Rightarrow>
               do { buffer \<leftarrow> reader_buffer_or_null p v;
                    pointless_bitvector_hash_32 (v_type v) (v_data v) buffer }
           | Hash_Null \<Rightarrow> Some 0
           | Hash_Vector \<Rightarrow>
               do { n_items \<leftarrow> pointless_reader_vector_n_items p v;
                    pointless_hash_reader_vector_32_priv
                      (\<lambda>x. pointless_hash_reader_32 fuel p x) p v 0 n_items }
           | Hash_Empty_Slot \<Rightarrow> Some 0))"

text \<open>The hash of the \<open>n\<close> items of a vector from item \<open>i\<close> on.\<close>

definition pointless_hash_reader_vector_32 ::
    "nat \<Rightarrow> pointless_t \<Rightarrow> pointless_value_t \<Rightarrow> u32 \<Rightarrow> u32 \<Rightarrow> u32 option" where
  "pointless_hash_reader_vector_32 fuel p v i n =
     pointless_hash_reader_vector_32_priv (pointless_hash_reader_32 fuel p) p v i n"

end
