(* ===== verification/Cmp.thy ===== *)
theory Cmp
  imports Reader_Data
begin

text \<open>
  \<open>src/pointless_cmp.c\<close>: the comparison of two values of files (the string comparisons are in
  \<open>Strings\<close>, the bitvector comparisons in \<open>Bitvector\<close>). A comparison answers \<open>Inr\<close> its sign or
  \<open>Inl\<close> the error it sets.
\<close>

unbundle bit_operations_syntax

section \<open>Numbers\<close>

definition pointless_is_signed :: "u32 \<Rightarrow> bool" where
  "pointless_is_signed t \<longleftrightarrow> t \<in> {POINTLESS_I32, POINTLESS_I64, POINTLESS_BOOLEAN}"

definition pointless_int_value_signed :: "u32 \<Rightarrow> pointless_complete_value_data_t \<Rightarrow> i64" where
  "pointless_int_value_signed t v =
     (if t \<in> {POINTLESS_I32, POINTLESS_I64, POINTLESS_BOOLEAN}
      then pointless_complete_value_get_as_i64 t v else 0)"

definition pointless_int_value_unsigned :: "u32 \<Rightarrow> pointless_complete_value_data_t \<Rightarrow> u64" where
  "pointless_int_value_unsigned t v =
     (if t \<in> {POINTLESS_U32, POINTLESS_U64, POINTLESS_BOOLEAN}
      then pointless_complete_value_get_as_u64 t v else 0)"

text \<open>The float a number is converted to when the other operand is a float.\<close>

definition int_as_float :: "u32 \<Rightarrow> pointless_complete_value_data_t \<Rightarrow> f32" where
  "int_as_float t v =
     (if pointless_is_signed t then f32_of_int (sint (pointless_int_value_signed t v))
      else f32_of_int (uint (pointless_int_value_unsigned t v)))"

definition pointless_cmp_int_float ::
    "u32 \<Rightarrow> pointless_complete_value_data_t \<Rightarrow> u32 \<Rightarrow> pointless_complete_value_data_t \<Rightarrow> int" where
  "pointless_cmp_int_float t_a v_a t_b v_b =
     (if t_a = POINTLESS_FLOAT \<and> t_b = POINTLESS_FLOAT then
        SIMPLE_CMP_f (f32_bits_val (complete_data_u32 v_a)) (f32_bits_val (complete_data_u32 v_b))
      else if t_a = POINTLESS_FLOAT then
        SIMPLE_CMP_f (f32_bits_val (complete_data_u32 v_a)) (int_as_float t_b v_b)
      else if t_b = POINTLESS_FLOAT then
        SIMPLE_CMP_f (int_as_float t_a v_a) (f32_bits_val (complete_data_u32 v_b))
      else if pointless_is_signed t_a \<and> pointless_is_signed t_b then
        SIMPLE_CMP (sint (pointless_int_value_signed t_a v_a))
                   (sint (pointless_int_value_signed t_b v_b))
      else if \<not> pointless_is_signed t_a \<and> \<not> pointless_is_signed t_b then
        SIMPLE_CMP (pointless_int_value_unsigned t_a v_a) (pointless_int_value_unsigned t_b v_b)
      else if pointless_is_signed t_a \<and> \<not> pointless_is_signed t_b then
        (let a = pointless_int_value_signed t_a v_a; b = pointless_int_value_unsigned t_b v_b
         in if sint a < 0 then -1 else SIMPLE_CMP a b)
      else
        (let a = pointless_int_value_unsigned t_a v_a; b = pointless_int_value_signed t_b v_b
         in if sint b < 0 then -1 else SIMPLE_CMP a b))"

section \<open>Strings and bitvectors of a file\<close>

definition pointless_cmp_reader_string_unicode ::
    "pointless_t \<Rightarrow> pointless_complete_value_t \<Rightarrow> pointless_t \<Rightarrow> pointless_complete_value_t \<Rightarrow>
     int option" where
  "pointless_cmp_reader_string_unicode p_a a p_b b =
     (let va = pointless_value_from_complete a; vb = pointless_value_from_complete b in
      if cv_type a = POINTLESS_UNICODE \<and> cv_type b = POINTLESS_UNICODE then
        do { unicode_a \<leftarrow> pointless_reader_unicode_value_ucs4 p_a va;
             unicode_b \<leftarrow> pointless_reader_unicode_value_ucs4 p_b vb;
             pointless_cmp_string_32_32 unicode_a unicode_b }
      else if cv_type a = POINTLESS_UNICODE \<and> cv_type b = POINTLESS_STRING then
        do { unicode_a \<leftarrow> pointless_reader_unicode_value_ucs4 p_a va;
             string_b \<leftarrow> pointless_reader_string_value_ascii p_b vb;
             pointless_cmp_string_32_8 unicode_a string_b }
      else if cv_type a = POINTLESS_STRING \<and> cv_type b = POINTLESS_UNICODE then
        do { string_a \<leftarrow> pointless_reader_string_value_ascii p_a va;
             unicode_b \<leftarrow> pointless_reader_unicode_value_ucs4 p_b vb;
             pointless_cmp_string_8_32 string_a unicode_b }
      else if cv_type a = POINTLESS_STRING \<and> cv_type b = POINTLESS_STRING then
        do { string_a \<leftarrow> pointless_reader_string_value_ascii p_a va;
             string_b \<leftarrow> pointless_reader_string_value_ascii p_b vb;
             pointless_cmp_string_8_8 string_a string_b }
      else Some 0)"

definition pointless_cmp_reader_bitvector ::
    "pointless_t \<Rightarrow> pointless_complete_value_t \<Rightarrow> pointless_t \<Rightarrow> pointless_complete_value_t \<Rightarrow>
     int option" where
  "pointless_cmp_reader_bitvector p_a a p_b b =
     (let va = pointless_value_from_complete a; vb = pointless_value_from_complete b in
      do { buffer_a \<leftarrow> reader_buffer_or_null p_a va;
           buffer_b \<leftarrow> reader_buffer_or_null p_b vb;
           pointless_bitvector_cmp_buffer_buffer (cv_type a) (v_data va) buffer_a
             (cv_type b) (v_data vb) buffer_b })"

section \<open>Values\<close>

text \<open>Item \<open>i\<close> of a vector as a complete value; a type that is no vector answers null.\<close>

definition pointless_cmp_vector_value_reader ::
    "pointless_t \<Rightarrow> pointless_complete_value_t \<Rightarrow> nat \<Rightarrow> pointless_complete_value_t option" where
  "pointless_cmp_vector_value_reader p v i =
     (let t = cv_type v; w = pointless_value_from_complete v in
      if t \<in> {POINTLESS_VECTOR_VALUE, POINTLESS_VECTOR_VALUE_HASHABLE} then
        do { xs \<leftarrow> pointless_reader_vector_value p w; x \<leftarrow> arr_get xs i;
             Some (pointless_value_to_complete x) }
      else if t = POINTLESS_VECTOR_I8 then
        do { xs \<leftarrow> pointless_reader_vector_i8 p w; x \<leftarrow> arr_get xs i;
             Some (pointless_complete_value_create_as_read_i32 (scast x)) }
      else if t = POINTLESS_VECTOR_U8 then
        do { xs \<leftarrow> pointless_reader_vector_u8 p w; x \<leftarrow> arr_get xs i;
             Some (pointless_complete_value_create_as_read_u32 (ucast x)) }
      else if t = POINTLESS_VECTOR_I16 then
        do { xs \<leftarrow> pointless_reader_vector_i16 p w; x \<leftarrow> arr_get xs i;
             Some (pointless_complete_value_create_as_read_i32 (scast x)) }
      else if t = POINTLESS_VECTOR_U16 then
        do { xs \<leftarrow> pointless_reader_vector_u16 p w; x \<leftarrow> arr_get xs i;
             Some (pointless_complete_value_create_as_read_u32 (ucast x)) }
      else if t = POINTLESS_VECTOR_I32 then
        do { xs \<leftarrow> pointless_reader_vector_i32 p w; x \<leftarrow> arr_get xs i;
             Some (pointless_complete_value_create_as_read_i32 x) }
      else if t = POINTLESS_VECTOR_U32 then
        do { xs \<leftarrow> pointless_reader_vector_u32 p w; x \<leftarrow> arr_get xs i;
             Some (pointless_complete_value_create_as_read_u32 x) }
      else if t = POINTLESS_VECTOR_I64 then
        do { xs \<leftarrow> pointless_reader_vector_i64 p w; x \<leftarrow> arr_get xs i;
             Some (pointless_complete_value_create_as_read_i64 x) }
      else if t = POINTLESS_VECTOR_U64 then
        do { xs \<leftarrow> pointless_reader_vector_u64 p w; x \<leftarrow> arr_get xs i;
             Some (pointless_complete_value_create_as_read_u64 x) }
      else if t = POINTLESS_VECTOR_FLOAT then
        do { xs \<leftarrow> pointless_reader_vector_float p w; x \<leftarrow> arr_get xs i;
             Some (pointless_complete_value_create_as_read_float x) }
      else Some pointless_complete_value_create_as_read_null)"

datatype cmp_cb =
  Cmp_String_Unicode | Cmp_Int_Float | Cmp_Bitvector | Cmp_Null | Cmp_Vector | Cmp_Set | Cmp_Map
  | Cmp_Empty_Slot

definition pointless_cmp_reader_func :: "u32 \<Rightarrow> cmp_cb option" where
  "pointless_cmp_reader_func t =
     (if t \<in> {POINTLESS_UNICODE, POINTLESS_STRING} then Some Cmp_String_Unicode
      else if t \<in> {POINTLESS_I32, POINTLESS_U32, POINTLESS_I64, POINTLESS_U64, POINTLESS_BOOLEAN,
                   POINTLESS_FLOAT}
        then Some Cmp_Int_Float
      else if t \<in> {POINTLESS_BITVECTOR, POINTLESS_BITVECTOR_0, POINTLESS_BITVECTOR_1,
                   POINTLESS_BITVECTOR_01, POINTLESS_BITVECTOR_10, POINTLESS_BITVECTOR_PACKED}
        then Some Cmp_Bitvector
      else if t = POINTLESS_NULL then Some Cmp_Null
      else if t \<in> {POINTLESS_VECTOR_VALUE, POINTLESS_VECTOR_VALUE_HASHABLE, POINTLESS_VECTOR_I8,
                   POINTLESS_VECTOR_U8, POINTLESS_VECTOR_I16, POINTLESS_VECTOR_U16,
                   POINTLESS_VECTOR_I32, POINTLESS_VECTOR_U32, POINTLESS_VECTOR_I64,
                   POINTLESS_VECTOR_U64, POINTLESS_VECTOR_FLOAT, POINTLESS_VECTOR_EMPTY}
        then Some Cmp_Vector
      else if t = POINTLESS_SET_VALUE then Some Cmp_Set
      else if t = POINTLESS_MAP_VALUE_VALUE then Some Cmp_Map
      else if t = POINTLESS_EMPTY_SLOT then Some Cmp_Empty_Slot
      else None)"

text \<open>
  The loop over the common prefix of two vectors. \<open>errp\<close> tells whether the caller passed an \<open>error\<close>
  pointer: the loop reads \<open>*error\<close> after every comparison that answers 0, which is undefined when
  the pointer is null (\<open>pointless_cmp_reader_acyclic\<close>).
\<close>

fun cmp_vector_loop ::
    "bool \<Rightarrow> (nat \<Rightarrow> (err + int) option) \<Rightarrow> nat list \<Rightarrow> int \<Rightarrow> (err + int) option" where
  "cmp_vector_loop errp item [] tail = Some (Inr tail)"
| "cmp_vector_loop errp item (i # is) tail =
     do { r \<leftarrow> item i;
          (case r of
             Inl e \<Rightarrow> Some (Inl e)
           | Inr cc \<Rightarrow>
               if cc \<noteq> 0 then Some (Inr cc)
               else if \<not> errp then None
               else cmp_vector_loop errp item is tail) }"

text \<open>Setting the error through a null pointer is undefined.\<close>

definition set_error :: "bool \<Rightarrow> err \<Rightarrow> (err + 'a) option" where
  "set_error errp e = (if errp then Some (Inl e) else None)"

text \<open>
  The first argument is the depth the call stack has left. With an error pointer the depth limit
  bounds the recursion: two levels of depth are counted for every level of nesting.
\<close>

fun pointless_cmp_reader_rec ::
    "nat \<Rightarrow> bool \<Rightarrow> pointless_t \<Rightarrow> pointless_complete_value_t \<Rightarrow> pointless_t \<Rightarrow>
     pointless_complete_value_t \<Rightarrow> nat \<Rightarrow> (err + int) option" where
  "pointless_cmp_reader_rec 0 errp p_a a p_b b depth = None"
| "pointless_cmp_reader_rec (Suc fuel) errp p_a a p_b b depth =
     (if errp \<and> POINTLESS_MAX_DEPTH \<le> depth
      then Some (Inl ''maximum recursion depth reached during comparison'')
      else
        let cmp_a = pointless_cmp_reader_func (cv_type a);
            cmp_b = pointless_cmp_reader_func (cv_type b)
        in if cmp_a \<noteq> cmp_b then Some (Inr (SIMPLE_CMP (cv_type a) (cv_type b)))
           else
             (case cmp_a of
                None \<Rightarrow> None
              | Some Cmp_String_Unicode \<Rightarrow>
                  map_option Inr (pointless_cmp_reader_string_unicode p_a a p_b b)
              | Some Cmp_Int_Float \<Rightarrow>
                  Some (Inr (pointless_cmp_int_float (cv_type a) (cv_data a) (cv_type b) (cv_data b)))
              | Some Cmp_Bitvector \<Rightarrow> map_option Inr (pointless_cmp_reader_bitvector p_a a p_b b)
              | Some Cmp_Null \<Rightarrow> Some (Inr 0)
              | Some Cmp_Vector \<Rightarrow>
                  do { n_items_a \<leftarrow> pointless_reader_vector_n_items p_a
                                      (pointless_value_from_complete a);
                       n_items_b \<leftarrow> pointless_reader_vector_n_items p_b
                                      (pointless_value_from_complete b);
                       let n_items = (if n_items_a < n_items_b then n_items_a else n_items_b);
                       cmp_vector_loop errp
                         (\<lambda>i. do { c_a \<leftarrow> pointless_cmp_vector_value_reader p_a a i;
                                   c_b \<leftarrow> pointless_cmp_vector_value_reader p_b b i;
                                   pointless_cmp_reader_rec fuel errp p_a c_a p_b c_b
                                     (depth + 2) })
                         [0..<unat n_items] (SIMPLE_CMP n_items_a n_items_b) }
              | Some Cmp_Set \<Rightarrow> set_error errp ''set comparison not implemented yet''
              | Some Cmp_Map \<Rightarrow> set_error errp ''map comparison not implemented yet''
              | Some Cmp_Empty_Slot \<Rightarrow> Some (Inr 0)))"

text \<open>257 calls are all the depth limit allows; the laws show that more change nothing.\<close>

definition pointless_cmp_reader ::
    "pointless_t \<Rightarrow> pointless_complete_value_t \<Rightarrow> pointless_t \<Rightarrow> pointless_complete_value_t \<Rightarrow>
     (err + int) option" where
  "pointless_cmp_reader p_a a p_b b = pointless_cmp_reader_rec 257 True p_a a p_b b 0"

definition pointless_cmp_reader_acyclic ::
    "nat \<Rightarrow> pointless_t \<Rightarrow> pointless_complete_value_t \<Rightarrow> pointless_t \<Rightarrow>
     pointless_complete_value_t \<Rightarrow> int option" where
  "pointless_cmp_reader_acyclic fuel p_a a p_b b =
     do { r \<leftarrow> pointless_cmp_reader_rec fuel False p_a a p_b b 0;
          (case r of Inl e \<Rightarrow> None | Inr c \<Rightarrow> Some c) }"

end
