(* ===== verification/Reader_Lookup.thy ===== *)
theory Reader_Lookup
  imports Hash Cmp Hash_Table
begin

text \<open>
  The sets and maps of \<open>src/pointless_reader.c\<close>: sizes, iteration over all items, iteration over the
  items of one hash, and lookup, with the probe of \<open>src/pointless_hash_table.c\<close> that compares keys
  by \<open>pointless_cmp_reader\<close>. A returned \<open>pointless_value_t*\<close> is the byte position it points to.
\<close>

unbundle bit_operations_syntax

section \<open>Probing with the comparison of the reader\<close>

definition pointless_hash_table_probe ::
    "pointless_t \<Rightarrow> u32 \<Rightarrow> pointless_value_t \<Rightarrow> u32 \<Rightarrow> u32 list \<Rightarrow> pointless_value_t list \<Rightarrow>
     (err + u32) option" where
  "pointless_hash_table_probe p value_hash val n_buckets hash_vector key_vector =
     pointless_hash_table_probe_priv
       (\<lambda>v_b. map_option (map_sum id (\<lambda>c. c = 0))
                (pointless_cmp_reader p (pointless_value_to_complete val) p v_b))
       value_hash n_buckets hash_vector key_vector"

section \<open>Headers\<close>

definition set_header_at :: "pointless_t \<Rightarrow> pointless_value_t \<Rightarrow> pointless_set_header_t option" where
  "set_header_at p s =
     do { a \<leftarrow> PC_HEAP_OFFSET p (set_offsets p) (v_data s); read_set_header (p_buf p) a }"

definition map_header_at :: "pointless_t \<Rightarrow> pointless_value_t \<Rightarrow> pointless_map_header_t option" where
  "map_header_at p m =
     do { a \<leftarrow> PC_HEAP_OFFSET p (map_offsets p) (v_data m); read_map_header (p_buf p) a }"

definition pointless_reader_set_n_items :: "pointless_t \<Rightarrow> pointless_value_t \<Rightarrow> u32 option" where
  "pointless_reader_set_n_items p s = do { h \<leftarrow> set_header_at p s; Some (sh_n_items h) }"

definition pointless_reader_set_n_buckets :: "pointless_t \<Rightarrow> pointless_value_t \<Rightarrow> u32 option" where
  "pointless_reader_set_n_buckets p s =
     do { h \<leftarrow> set_header_at p s; pointless_reader_vector_n_items p (sh_key_vector h) }"

definition pointless_set_hash_vector ::
    "pointless_t \<Rightarrow> pointless_value_t \<Rightarrow> pointless_value_t option" where
  "pointless_set_hash_vector p s = do { h \<leftarrow> set_header_at p s; Some (sh_hash_vector h) }"

definition pointless_set_key_vector ::
    "pointless_t \<Rightarrow> pointless_value_t \<Rightarrow> pointless_value_t option" where
  "pointless_set_key_vector p s = do { h \<leftarrow> set_header_at p s; Some (sh_key_vector h) }"

definition pointless_reader_map_n_items :: "pointless_t \<Rightarrow> pointless_value_t \<Rightarrow> u32 option" where
  "pointless_reader_map_n_items p m = do { h \<leftarrow> map_header_at p m; Some (mh_n_items h) }"

definition pointless_reader_map_n_buckets :: "pointless_t \<Rightarrow> pointless_value_t \<Rightarrow> u32 option" where
  "pointless_reader_map_n_buckets p m =
     do { h \<leftarrow> map_header_at p m; pointless_reader_vector_n_items p (mh_key_vector h) }"

definition pointless_map_hash_vector ::
    "pointless_t \<Rightarrow> pointless_value_t \<Rightarrow> pointless_value_t option" where
  "pointless_map_hash_vector p m = do { h \<leftarrow> map_header_at p m; Some (mh_hash_vector h) }"

definition pointless_map_key_vector ::
    "pointless_t \<Rightarrow> pointless_value_t \<Rightarrow> pointless_value_t option" where
  "pointless_map_key_vector p m = do { h \<leftarrow> map_header_at p m; Some (mh_key_vector h) }"

definition pointless_map_value_vector ::
    "pointless_t \<Rightarrow> pointless_value_t \<Rightarrow> pointless_value_t option" where
  "pointless_map_value_vector p m = do { h \<leftarrow> map_header_at p m; Some (mh_value_vector h) }"

section \<open>Iterating over all items\<close>

text \<open>
  The address of element \<open>i\<close> of a value vector; an element of the null vector has none.
\<close>

definition value_addr :: "pointless_t \<Rightarrow> pointless_value_t \<Rightarrow> nat \<Rightarrow> addr option" where
  "value_addr p v i =
     do { base \<leftarrow> pointless_reader_vector_base_ptr p v;
          a \<leftarrow> base;
          Some (a + 8 * i) }"

text \<open>
  The loop of an iterator from position \<open>i\<close>: the position of the first used slot and the advanced
  state, or \<open>None\<close> inside with the final state.
\<close>

function iter_loop ::
    "pointless_value_t list \<Rightarrow> u32 \<Rightarrow> u32 \<Rightarrow> (nat option \<times> u32) option" where
  "iter_loop keys n_buckets i =
     (if i < n_buckets
      then do { k \<leftarrow> arr_get keys (unat i);
                if v_type k \<noteq> POINTLESS_EMPTY_SLOT then Some (Some (unat i), i + 1)
                else iter_loop keys n_buckets (i + 1) }
      else Some (None, i))"
  by pat_completeness auto
termination
  by (relation "measure (\<lambda>(_, n, i). unat n - unat i)")
    (auto simp: word_less_nat_alt unat_plus_one)

declare iter_loop.simps [simp del]

text \<open>The answer: the key found (and the value of a map), and the new iterator state.\<close>

definition pointless_reader_set_iter ::
    "pointless_t \<Rightarrow> pointless_value_t \<Rightarrow> u32 \<Rightarrow> (addr option \<times> u32) option" where
  "pointless_reader_set_iter p s iter_state =
     do { h \<leftarrow> set_header_at p s;
          n_buckets \<leftarrow> pointless_reader_vector_n_items p (sh_key_vector h);
          if \<not> iter_state < n_buckets then Some (None, iter_state)
          else do {
            keys \<leftarrow> pointless_reader_vector_value p (sh_key_vector h);
            (found, st) \<leftarrow> iter_loop keys n_buckets iter_state;
            (case found of
               None \<Rightarrow> Some (None, st)
             | Some i \<Rightarrow> do { k \<leftarrow> value_addr p (sh_key_vector h) i; Some (Some k, st) }) } }"

definition pointless_reader_map_iter ::
    "pointless_t \<Rightarrow> pointless_value_t \<Rightarrow> u32 \<Rightarrow> ((addr \<times> addr) option \<times> u32) option" where
  "pointless_reader_map_iter p m iter_state =
     do { h \<leftarrow> map_header_at p m;
          n_buckets \<leftarrow> pointless_reader_vector_n_items p (mh_key_vector h);
          if \<not> iter_state < n_buckets then Some (None, iter_state)
          else do {
            keys \<leftarrow> pointless_reader_vector_value p (mh_key_vector h);
            (found, st) \<leftarrow> iter_loop keys n_buckets iter_state;
            (case found of
               None \<Rightarrow> Some (None, st)
             | Some i \<Rightarrow> do { k \<leftarrow> value_addr p (mh_key_vector h) i;
                              v \<leftarrow> value_addr p (mh_value_vector h) i;
                              Some (Some (k, v), st) }) } }"

section \<open>Iterating over the items of one hash\<close>

definition pointless_reader_map_iter_hash_init ::
    "pointless_t \<Rightarrow> pointless_value_t \<Rightarrow> u32 \<Rightarrow> pointless_hash_iter_state_t option" where
  "pointless_reader_map_iter_hash_init p m hsh =
     do { h \<leftarrow> map_header_at p m;
          n_buckets \<leftarrow> pointless_reader_vector_n_items p (mh_hash_vector h);
          Some (pointless_hash_table_probe_hash_init hsh n_buckets) }"

definition pointless_reader_set_iter_hash_init ::
    "pointless_t \<Rightarrow> pointless_value_t \<Rightarrow> u32 \<Rightarrow> pointless_hash_iter_state_t option" where
  "pointless_reader_set_iter_hash_init p s hsh =
     do { h \<leftarrow> set_header_at p s;
          n_buckets \<leftarrow> pointless_reader_vector_n_items p (sh_hash_vector h);
          Some (pointless_hash_table_probe_hash_init hsh n_buckets) }"

text \<open>Probe until an empty bucket (\<open>None\<close> inside) or the next bucket with the hash.\<close>

partial_function (option) iter_hash_loop ::
    "u32 list \<Rightarrow> pointless_value_t list \<Rightarrow> u32 \<Rightarrow> pointless_hash_iter_state_t \<Rightarrow>
     (nat \<times> pointless_hash_iter_state_t) option option" where
  "iter_hash_loop hash_vector key_vector hsh state =
     do { r \<leftarrow> pointless_hash_table_probe_hash key_vector state;
          (case r of
             None \<Rightarrow> Some None
           | Some bs \<Rightarrow> do {
               h \<leftarrow> arr_get hash_vector (unat (fst bs));
               if h = hsh then Some (Some (unat (fst bs), snd bs))
               else iter_hash_loop hash_vector key_vector hsh (snd bs) }) }"

declare iter_hash_loop.simps [code]

definition pointless_reader_map_iter_hash ::
    "pointless_t \<Rightarrow> pointless_value_t \<Rightarrow> u32 \<Rightarrow> pointless_hash_iter_state_t \<Rightarrow>
     (addr \<times> addr \<times> pointless_hash_iter_state_t) option option" where
  "pointless_reader_map_iter_hash p m hsh state =
     do { h \<leftarrow> map_header_at p m;
          hash_vector \<leftarrow> pointless_reader_vector_u32 p (mh_hash_vector h);
          key_vector \<leftarrow> pointless_reader_vector_value p (mh_key_vector h);
          r \<leftarrow> iter_hash_loop hash_vector key_vector hsh state;
          (case r of
             None \<Rightarrow> Some None
           | Some (b, st) \<Rightarrow> do { kk \<leftarrow> value_addr p (mh_key_vector h) b;
                                  vv \<leftarrow> value_addr p (mh_value_vector h) b;
                                  Some (Some (kk, vv, st)) }) }"

definition pointless_reader_set_iter_hash ::
    "pointless_t \<Rightarrow> pointless_value_t \<Rightarrow> u32 \<Rightarrow> pointless_hash_iter_state_t \<Rightarrow>
     (addr \<times> pointless_hash_iter_state_t) option option" where
  "pointless_reader_set_iter_hash p s hsh state =
     do { h \<leftarrow> set_header_at p s;
          hash_vector \<leftarrow> pointless_reader_vector_u32 p (sh_hash_vector h);
          key_vector \<leftarrow> pointless_reader_vector_value p (sh_key_vector h);
          r \<leftarrow> iter_hash_loop hash_vector key_vector hsh state;
          (case r of
             None \<Rightarrow> Some None
           | Some (b, st) \<Rightarrow> do { kk \<leftarrow> value_addr p (sh_key_vector h) b;
                                  Some (Some (kk, st)) }) }"

section \<open>Lookup\<close>

text \<open>
  A lookup answers the error, or the pointer to the key (and to the value of a map), null when the
  key is not there. \<open>pointless_reader_set_lookup\<close> leaves its out-parameter alone on the unhashable
  error; the error is all a caller may use then.
\<close>

definition lookup_result :: "u32 \<Rightarrow> nat option" where
  "lookup_result probe =
     (if probe = POINTLESS_HASH_TABLE_PROBE_ERROR \<or> probe = POINTLESS_HASH_TABLE_PROBE_MISS
      then None else Some (unat probe))"

definition set_lookup_found ::
    "pointless_t \<Rightarrow> pointless_set_header_t \<Rightarrow> (err + u32) \<Rightarrow> (err + addr option) option" where
  "set_lookup_found p h r =
     (case r of
        Inl e \<Rightarrow> Some (Inl e)
      | Inr probe \<Rightarrow>
          (case lookup_result probe of
             None \<Rightarrow> Some (Inr None)
           | Some b \<Rightarrow> do { kk \<leftarrow> value_addr p (sh_key_vector h) b; Some (Inr (Some kk)) }))"

definition map_lookup_found ::
    "pointless_t \<Rightarrow> pointless_map_header_t \<Rightarrow> (err + u32) \<Rightarrow>
     (err + (addr \<times> addr) option) option" where
  "map_lookup_found p h r =
     (case r of
        Inl e \<Rightarrow> Some (Inl e)
      | Inr probe \<Rightarrow>
          (case lookup_result probe of
             None \<Rightarrow> Some (Inr None)
           | Some b \<Rightarrow> do { kk \<leftarrow> value_addr p (mh_key_vector h) b;
                            vv \<leftarrow> value_addr p (mh_value_vector h) b;
                            Some (Inr (Some (kk, vv))) }))"

definition pointless_reader_set_lookup ::
    "nat \<Rightarrow> pointless_t \<Rightarrow> pointless_value_t \<Rightarrow> pointless_value_t \<Rightarrow> (err + addr option) option" where
  "pointless_reader_set_lookup fuel p s k =
     (if \<not> pointless_is_hashable (v_type k) then Some (Inl ''value is not hashable'')
      else do {
        h \<leftarrow> set_header_at p s;
        hsh \<leftarrow> pointless_hash_reader_32 fuel p k;
        hash_vector \<leftarrow> pointless_reader_vector_u32 p (sh_hash_vector h);
        key_vector \<leftarrow> pointless_reader_vector_value p (sh_key_vector h);
        n_buckets \<leftarrow> pointless_reader_vector_n_items p (sh_key_vector h);
        r \<leftarrow> pointless_hash_table_probe p hsh k n_buckets hash_vector key_vector;
        set_lookup_found p h r })"

definition pointless_reader_set_lookup_ext ::
    "pointless_t \<Rightarrow> pointless_value_t \<Rightarrow> u32 \<Rightarrow>
     (pointless_complete_value_t \<Rightarrow> (err + u32) option) \<Rightarrow> (err + addr option) option" where
  "pointless_reader_set_lookup_ext p s hsh cb =
     do { h \<leftarrow> set_header_at p s;
          hash_vector \<leftarrow> pointless_reader_vector_u32 p (sh_hash_vector h);
          key_vector \<leftarrow> pointless_reader_vector_value p (sh_key_vector h);
          n_buckets \<leftarrow> pointless_reader_vector_n_items p (sh_key_vector h);
          r \<leftarrow> pointless_hash_table_probe_ext hsh cb n_buckets hash_vector key_vector;
          set_lookup_found p h r }"

definition pointless_reader_map_lookup ::
    "nat \<Rightarrow> pointless_t \<Rightarrow> pointless_value_t \<Rightarrow> pointless_value_t \<Rightarrow>
     (err + (addr \<times> addr) option) option" where
  "pointless_reader_map_lookup fuel p m k =
     (if \<not> pointless_is_hashable (v_type k) then Some (Inl ''value is not hashable'')
      else do {
        h \<leftarrow> map_header_at p m;
        hsh \<leftarrow> pointless_hash_reader_32 fuel p k;
        hash_vector \<leftarrow> pointless_reader_vector_u32 p (mh_hash_vector h);
        key_vector \<leftarrow> pointless_reader_vector_value p (mh_key_vector h);
        value_vector \<leftarrow> pointless_reader_vector_value p (mh_value_vector h);
        n_buckets \<leftarrow> pointless_reader_vector_n_items p (mh_key_vector h);
        r \<leftarrow> pointless_hash_table_probe p hsh k n_buckets hash_vector key_vector;
        map_lookup_found p h r })"

definition pointless_reader_map_lookup_ext ::
    "pointless_t \<Rightarrow> pointless_value_t \<Rightarrow> u32 \<Rightarrow>
     (pointless_complete_value_t \<Rightarrow> (err + u32) option) \<Rightarrow> (err + (addr \<times> addr) option) option" where
  "pointless_reader_map_lookup_ext p m hsh cb =
     do { h \<leftarrow> map_header_at p m;
          hash_vector \<leftarrow> pointless_reader_vector_u32 p (mh_hash_vector h);
          key_vector \<leftarrow> pointless_reader_vector_value p (mh_key_vector h);
          value_vector \<leftarrow> pointless_reader_vector_value p (mh_value_vector h);
          n_buckets \<leftarrow> pointless_reader_vector_n_items p (mh_key_vector h);
          r \<leftarrow> pointless_hash_table_probe_ext hsh cb n_buckets hash_vector key_vector;
          map_lookup_found p h r }"

end
