(* ===== verification/Validate_Value.thy ===== *)
theory Validate_Value
  imports Reader_Lookup
begin

text \<open>
  The checks of a single value: \<open>src/pointless_validate_heap_ref.c\<close> (references and inline
  invariants), \<open>src/pointless_validate_heap.c\<close> (the data a reference names lies inside the heap and
  is well formed) and \<open>src/pointless_validate_hash_table.c\<close> (the invariants of a hash table). A check
  answers \<open>Inr ()\<close> or the error it sets.
\<close>

unbundle bit_operations_syntax

section \<open>References and inline values\<close>

definition pointless_validate_inline_invariants :: "pointless_value_t \<Rightarrow> err + unit" where
  "pointless_validate_inline_invariants v =
     (let t = v_type v in
      if t \<in> {POINTLESS_VECTOR_VALUE, POINTLESS_VECTOR_VALUE_HASHABLE, POINTLESS_VECTOR_I8,
              POINTLESS_VECTOR_U8, POINTLESS_VECTOR_I16, POINTLESS_VECTOR_U16,
              POINTLESS_VECTOR_I32, POINTLESS_VECTOR_U32, POINTLESS_VECTOR_I64,
              POINTLESS_VECTOR_U64, POINTLESS_VECTOR_FLOAT, POINTLESS_BITVECTOR,
              POINTLESS_SET_VALUE, POINTLESS_MAP_VALUE_VALUE} then Inr ()
      else if t = POINTLESS_BITVECTOR_PACKED then
        (if 27 < bitvector_packed_n_bits (v_data v)
         then Inl ''packed bitvector has too many bits'' else Inr ())
      else if t = POINTLESS_VECTOR_EMPTY then
        (if v_data v \<noteq> 0 then Inl ''empty vectors must contain data value 0'' else Inr ())
      else if t \<in> {POINTLESS_UNICODE, POINTLESS_STRING, POINTLESS_BITVECTOR_01,
                   POINTLESS_BITVECTOR_10, POINTLESS_BITVECTOR_0, POINTLESS_BITVECTOR_1,
                   POINTLESS_I32, POINTLESS_U32, POINTLESS_FLOAT} then Inr ()
      else if t = POINTLESS_BOOLEAN then
        (if v_data v \<noteq> 0 \<and> v_data v \<noteq> 1
         then Inl ''booleans must contain 0 or 1 in data field'' else Inr ())
      else if t = POINTLESS_NULL then
        (if v_data v \<noteq> 0 then Inl ''NULLs must contain 0 in the data field'' else Inr ())
      else if t = POINTLESS_EMPTY_SLOT then
        (if v_data v \<noteq> 0 then Inl ''EMPTY_SLOT must contain 0 in the data field'' else Inr ())
      else Inl ''unknown type'')"

definition pointless_validate_heap_ref :: "pointless_t \<Rightarrow> pointless_value_t \<Rightarrow> err + unit" where
  "pointless_validate_heap_ref p v =
     (let t = v_type v in
      if t \<in> {POINTLESS_UNICODE, POINTLESS_STRING} then
        (if n_string_unicode (header p) \<le> v_data v
         then Inl ''string/unicode reference out of bounds'' else Inr ())
      else if t \<in> {POINTLESS_VECTOR_VALUE, POINTLESS_VECTOR_VALUE_HASHABLE, POINTLESS_VECTOR_I8,
                   POINTLESS_VECTOR_U8, POINTLESS_VECTOR_I16, POINTLESS_VECTOR_U16,
                   POINTLESS_VECTOR_I32, POINTLESS_VECTOR_U32, POINTLESS_VECTOR_I64,
                   POINTLESS_VECTOR_U64, POINTLESS_VECTOR_FLOAT} then
        (if n_vector (header p) \<le> v_data v
         then Inl ''vector reference out of bounds'' else Inr ())
      else if t = POINTLESS_BITVECTOR then
        (if n_bitvector (header p) \<le> v_data v
         then Inl ''bitvector reference out of bounds'' else Inr ())
      else if t = POINTLESS_SET_VALUE then
        (if n_set (header p) \<le> v_data v then Inl ''set reference out of bounds'' else Inr ())
      else if t = POINTLESS_MAP_VALUE_VALUE then
        (if n_map (header p) \<le> v_data v then Inl ''map reference out of bounds'' else Inr ())
      else if t \<in> {POINTLESS_VECTOR_EMPTY, POINTLESS_BITVECTOR_01, POINTLESS_BITVECTOR_10,
                   POINTLESS_BITVECTOR_0, POINTLESS_BITVECTOR_1, POINTLESS_BITVECTOR_PACKED,
                   POINTLESS_I32, POINTLESS_U32, POINTLESS_FLOAT, POINTLESS_BOOLEAN,
                   POINTLESS_EMPTY_SLOT, POINTLESS_NULL} then Inr ()
      else Inl ''unknown type X'')"

section \<open>Heap data\<close>

definition pointless_require_heap :: "pointless_t \<Rightarrow> u64 \<Rightarrow> u64 \<Rightarrow> bool" where
  "pointless_require_heap p offset n_bytes =
     (let past = intop_u64_add (intop_u64_init offset) (intop_u64_init n_bytes)
      in \<not> is_overflow past \<and> intval past \<le> heap_len p)"

definition heap_u32 :: "pointless_t \<Rightarrow> u64 \<Rightarrow> u32 option" where
  "heap_u32 p offset = read_u32 (p_buf p) (heap_ptr p + unat offset)"

definition vector_item_len :: "u32 \<Rightarrow> u32" where
  "vector_item_len t =
     (if t \<in> {POINTLESS_VECTOR_VALUE, POINTLESS_VECTOR_VALUE_HASHABLE} then 8
      else if t \<in> {POINTLESS_VECTOR_I8, POINTLESS_VECTOR_U8} then 1
      else if t \<in> {POINTLESS_VECTOR_I16, POINTLESS_VECTOR_U16} then 2
      else if t \<in> {POINTLESS_VECTOR_I32, POINTLESS_VECTOR_U32} then 4
      else if t \<in> {POINTLESS_VECTOR_I64, POINTLESS_VECTOR_U64} then 8
      else if t = POINTLESS_VECTOR_FLOAT then 4
      else 0)"

definition pointless_validate_vector_heap ::
    "pointless_t \<Rightarrow> pointless_value_t \<Rightarrow> (err + unit) option" where
  "pointless_validate_vector_heap p v =
     do { offset \<leftarrow> PC_OFFSET p (vector_offsets p) (v_data v);
          if \<not> pointless_require_heap p offset 4
          then Some (Inl ''vector header too large for heap'')
          else do {
            n_items \<leftarrow> heap_u32 p offset;
            let n_bytes = intop_u64_add (intop_u64_init 4)
                            (intop_u64_mult (intop_u64_init (ucast (vector_item_len (v_type v))))
                                            (intop_u64_init (ucast n_items)));
            if is_overflow n_bytes \<or> \<not> pointless_require_heap p offset (intval n_bytes)
            then Some (Inl ''vector body too large for heap'')
            else Some (Inr ()) } }"

definition pointless_validate_bitvector_heap ::
    "pointless_t \<Rightarrow> pointless_value_t \<Rightarrow> (err + unit) option" where
  "pointless_validate_bitvector_heap p v =
     do { offset \<leftarrow> PC_OFFSET p (bitvector_offsets p) (v_data v);
          if \<not> pointless_require_heap p offset 4
          then Some (Inl ''bitvector too large for heap'')
          else do {
            n_bits \<leftarrow> heap_u32 p offset;
            if \<not> pointless_require_heap p offset (4 + ucast (ICEIL n_bits 8))
            then Some (Inl ''bitvector too large for heap'')
            else Some (Inr ()) } }"

text \<open>The scan of a string: \<open>n\<close> units that are not 0, then one that is.\<close>

fun string_scan :: "err \<Rightarrow> err \<Rightarrow> 'a::len word list \<Rightarrow> nat \<Rightarrow> (err + unit) option" where
  "string_scan premature missing [] n = None"
| "string_scan premature missing (x # xs) 0 = Some (if x \<noteq> 0 then Inl missing else Inr ())"
| "string_scan premature missing (x # xs) (Suc n) =
     (if x = 0 then Some (Inl premature) else string_scan premature missing xs n)"

definition pointless_validate_unicode_heap ::
    "pointless_t \<Rightarrow> pointless_value_t \<Rightarrow> (err + unit) option" where
  "pointless_validate_unicode_heap p v =
     do { offset \<leftarrow> PC_OFFSET p (string_unicode_offsets p) (v_data v);
          if \<not> pointless_require_heap p offset 4
          then Some (Inl ''unicode too large for heap'')
          else do {
            s_len \<leftarrow> heap_u32 p offset;
            let n_bytes = intop_u64_add (intop_u64_init 4)
                            (intop_u64_mult (intop_u64_init (ucast s_len + 1)) (intop_u64_init 4));
            if is_overflow n_bytes \<or> \<not> pointless_require_heap p offset (intval n_bytes)
            then Some (Inl ''unicode too large for heap'')
            else string_scan ''premature end-of-unicode'' ''missing end-of-unicode''
                   (view_le 4 (p_buf p) (heap_ptr p + unat offset + 4) :: u32 list)
                   (unat s_len) } }"

definition pointless_validate_string_heap ::
    "pointless_t \<Rightarrow> pointless_value_t \<Rightarrow> (err + unit) option" where
  "pointless_validate_string_heap p v =
     do { offset \<leftarrow> PC_OFFSET p (string_unicode_offsets p) (v_data v);
          if \<not> pointless_require_heap p offset 4
          then Some (Inl ''string too large for heap'')
          else do {
            s_len \<leftarrow> heap_u32 p offset;
            let n_bytes = intop_u64_add (intop_u64_init 4)
                            (intop_u64_mult (intop_u64_init (ucast s_len + 1)) (intop_u64_init 1));
            if is_overflow n_bytes \<or> \<not> pointless_require_heap p offset (intval n_bytes)
            then Some (Inl ''unicode too large for heap'')
            else string_scan ''premature end-of-string'' ''missing end-of-string''
                   (drop (heap_ptr p + unat offset + 4) (p_buf p)) (unat s_len) } }"

definition pointless_validate_set_heap ::
    "pointless_t \<Rightarrow> pointless_value_t \<Rightarrow> (err + unit) option" where
  "pointless_validate_set_heap p v =
     do { offset \<leftarrow> PC_OFFSET p (set_offsets p) (v_data v);
          if \<not> pointless_require_heap p offset 24
          then Some (Inl ''set header too large for heap'')
          else do {
            h \<leftarrow> read_set_header (p_buf p) (heap_ptr p + unat offset);
            if v_type (sh_hash_vector h) \<noteq> POINTLESS_VECTOR_U32
            then Some (Inl ''set hash vector not of type POINTLESS_VECTOR_U32'')
            else if v_type (sh_key_vector h) \<noteq> POINTLESS_VECTOR_VALUE_HASHABLE
            then Some (Inl ''set key vector not of type POINTLESS_VECTOR_VALUE_HASHABLE'')
            else Some (Inr ()) } }"

definition pointless_validate_map_heap ::
    "pointless_t \<Rightarrow> pointless_value_t \<Rightarrow> (err + unit) option" where
  "pointless_validate_map_heap p v =
     do { offset \<leftarrow> PC_OFFSET p (map_offsets p) (v_data v);
          if \<not> pointless_require_heap p offset 32
          then Some (Inl ''map header too large for heap'')
          else do {
            h \<leftarrow> read_map_header (p_buf p) (heap_ptr p + unat offset);
            if v_type (mh_hash_vector h) \<noteq> POINTLESS_VECTOR_U32
            then Some (Inl ''map hash vector not of type POINTLESS_VECTOR_U32'')
            else if v_type (mh_key_vector h) \<noteq> POINTLESS_VECTOR_VALUE_HASHABLE
            then Some (Inl ''map key vector not of type POINTLESS_VECTOR_VALUE_HASHABLE'')
            else if v_type (mh_value_vector h) \<noteq> POINTLESS_VECTOR_VALUE_HASHABLE \<and>
                    v_type (mh_value_vector h) \<noteq> POINTLESS_VECTOR_VALUE
            then Some (Inl (''map key vector not of type POINTLESS_VECTOR_VALUE or '' @
                            ''POINTLESS_VECTOR_VALUE_HASHABLE''))
            else Some (Inr ()) } }"

definition pointless_validate_heap_value ::
    "pointless_t \<Rightarrow> pointless_value_t \<Rightarrow> (err + unit) option" where
  "pointless_validate_heap_value p v =
     (let t = v_type v in
      if t \<in> {POINTLESS_VECTOR_VALUE, POINTLESS_VECTOR_VALUE_HASHABLE, POINTLESS_VECTOR_I8,
              POINTLESS_VECTOR_U8, POINTLESS_VECTOR_I16, POINTLESS_VECTOR_U16,
              POINTLESS_VECTOR_I32, POINTLESS_VECTOR_U32, POINTLESS_VECTOR_I64,
              POINTLESS_VECTOR_U64, POINTLESS_VECTOR_FLOAT}
        then pointless_validate_vector_heap p v
      else if t = POINTLESS_VECTOR_EMPTY then Some (Inr ())
      else if t = POINTLESS_UNICODE then pointless_validate_unicode_heap p v
      else if t = POINTLESS_STRING then pointless_validate_string_heap p v
      else if t = POINTLESS_BITVECTOR then pointless_validate_bitvector_heap p v
      else if t \<in> {POINTLESS_BITVECTOR_0, POINTLESS_BITVECTOR_1, POINTLESS_BITVECTOR_01,
                   POINTLESS_BITVECTOR_10, POINTLESS_BITVECTOR_PACKED} then Some (Inr ())
      else if t = POINTLESS_SET_VALUE then pointless_validate_set_heap p v
      else if t = POINTLESS_MAP_VALUE_VALUE then pointless_validate_map_heap p v
      else if t \<in> {POINTLESS_EMPTY_SLOT, POINTLESS_I32, POINTLESS_U32, POINTLESS_FLOAT,
                   POINTLESS_BOOLEAN, POINTLESS_NULL} then Some (Inr ())
      else Some (Inl ''unknown type''))"

section \<open>Hash tables\<close>

text \<open>The three loops over the buckets; the state of the first is \<open>(n_used, n_empty)\<close>.\<close>

definition count_slot ::
    "pointless_value_t list \<Rightarrow> pointless_value_t list option \<Rightarrow> nat \<Rightarrow> u32 \<times> u32 \<Rightarrow>
     (err + u32 \<times> u32) option" where
  "count_slot key_vector value_vector i s =
     do { k \<leftarrow> arr_get key_vector i;
          let s' = (if v_type k = POINTLESS_EMPTY_SLOT then (fst s, snd s + 1)
                    else (fst s + 1, snd s));
          if v_type k \<noteq> POINTLESS_EMPTY_SLOT then Some (Inr s')
          else (case value_vector of
                  None \<Rightarrow> Some (Inr s')
                | Some vs \<Rightarrow> do {
                    v \<leftarrow> arr_get vs i;
                    if v_type v \<noteq> POINTLESS_EMPTY_SLOT
                    then Some (Inl (''empty slot in key vector does not imply an '' @
                                    ''empty slot in value vector''))
                    else Some (Inr s') }) }"

definition check_slot_hash ::
    "nat \<Rightarrow> pointless_t \<Rightarrow> u32 list \<Rightarrow> pointless_value_t list \<Rightarrow> nat \<Rightarrow> unit \<Rightarrow>
     (err + unit) option" where
  "check_slot_hash fuel p hash_vector key_vector i s =
     do { k \<leftarrow> arr_get key_vector i;
          if \<not> pointless_is_hashable (v_type k)
          then Some (Inl ''key in set/map is not hashable'')
          else do {
            h \<leftarrow> pointless_hash_reader_32 fuel p k;
            h' \<leftarrow> arr_get hash_vector i;
            if h \<noteq> h'
            then Some (Inl ''hash for object in hash-table does not match hash in slot'')
            else Some (Inr ()) } }"

definition check_slot_place ::
    "pointless_t \<Rightarrow> u32 \<Rightarrow> u32 list \<Rightarrow> pointless_value_t list \<Rightarrow> nat \<Rightarrow> unit \<Rightarrow>
     (err + unit) option" where
  "check_slot_place p n_buckets hash_vector key_vector i s =
     do { k \<leftarrow> arr_get key_vector i;
          if v_type k = POINTLESS_EMPTY_SLOT then Some (Inr ())
          else do {
            h \<leftarrow> arr_get hash_vector i;
            r \<leftarrow> pointless_hash_table_probe p h k n_buckets hash_vector key_vector;
            (case r of
               Inl e \<Rightarrow> Some (Inl e)
             | Inr probe_i \<Rightarrow>
                 if probe_i = POINTLESS_HASH_TABLE_PROBE_MISS \<or> probe_i \<noteq> of_nat i
                 then Some (Inl (''probing of key in hash-table, '' @
                                 ''does not match the place it is in''))
                 else Some (Inr ())) } }"

definition pointless_hash_table_validate ::
    "nat \<Rightarrow> pointless_t \<Rightarrow> u32 \<Rightarrow> u32 \<Rightarrow> u32 list \<Rightarrow> pointless_value_t list \<Rightarrow>
     pointless_value_t list option \<Rightarrow> (err + unit) option" where
  "pointless_hash_table_validate fuel p n_items n_buckets hash_vector key_vector value_vector =
     do { n \<leftarrow> pointless_hash_compute_n_buckets n_items;
          if n \<noteq> n_buckets then Some (Inl ''invalid number of buckets in hash table'')
          else do {
            counts \<leftarrow> for_loop (count_slot key_vector value_vector) [0..<unat n_buckets] (0, 0);
            (case counts of
               Inl e \<Rightarrow> Some (Inl e)
             | Inr (n_used, n_empty) \<Rightarrow>
                 if n_empty = 0
                 then Some (Inl ''there are no empty slots in hash table, wtf'')
                 else if n_used \<noteq> n_items
                 then Some (Inl (''number of non-empty slots in hash-table, '' @
                                 ''does not match item count''))
                 else do {
                   hashes \<leftarrow> for_loop (check_slot_hash fuel p hash_vector key_vector)
                               [0..<unat n_buckets] ();
                   (case hashes of
                      Inl e \<Rightarrow> Some (Inl e)
                    | Inr _ \<Rightarrow> for_loop (check_slot_place p n_buckets hash_vector key_vector)
                                 [0..<unat n_buckets] ()) }) } }"

end
