(* ===== verification/Walk.thy ===== *)
theory Walk
  imports Reader_Lookup
begin

text \<open>
  \<open>src/pointless_walk.c\<close>: the depth-first walk over the values reachable from the root. The callback
  decides for every value whether its children are visited, skipped, or the walk stops. The first
  argument is the depth the call stack has left. The result is the \<open>stop\<close> flag with the user state.
\<close>

abbreviation (input) POINTLESS_WALK_VISIT_CHILDREN :: nat where "POINTLESS_WALK_VISIT_CHILDREN \<equiv> 0"
abbreviation (input) POINTLESS_WALK_MOVE_UP :: nat where "POINTLESS_WALK_MOVE_UP \<equiv> 1"
abbreviation (input) POINTLESS_WALK_STOP :: nat where "POINTLESS_WALK_STOP \<equiv> 2"

type_synonym 'u walk_cb = "pointless_t \<Rightarrow> pointless_value_t \<Rightarrow> nat \<Rightarrow> 'u \<Rightarrow> (nat \<times> 'u) option"

text \<open>The loop over children: it ends at the first child whose walk sets \<open>stop\<close>.\<close>

fun walk_children ::
    "('i \<Rightarrow> 'u \<Rightarrow> (bool \<times> 'u) option) \<Rightarrow> 'i list \<Rightarrow> 'u \<Rightarrow> (bool \<times> 'u) option" where
  "walk_children f [] u = Some (False, u)"
| "walk_children f (i # is) u =
     do { (stop, u') \<leftarrow> f i u;
          if stop then Some (True, u') else walk_children f is u' }"

fun pointless_walk_priv ::
    "nat \<Rightarrow> pointless_t \<Rightarrow> pointless_value_t \<Rightarrow> nat \<Rightarrow> 'u walk_cb \<Rightarrow> 'u \<Rightarrow> (bool \<times> 'u) option" where
  "pointless_walk_priv 0 p v depth cb user = None"
| "pointless_walk_priv (Suc fuel) p v depth cb user =
     do { (action, u) \<leftarrow> cb p v depth user;
          if action = POINTLESS_WALK_MOVE_UP then Some (False, u)
          else if action = POINTLESS_WALK_STOP then Some (True, u)
          else if v_type v \<in> {POINTLESS_VECTOR_VALUE, POINTLESS_VECTOR_VALUE_HASHABLE} then
            do { n_items \<leftarrow> pointless_reader_vector_n_items p v;
                 v_items \<leftarrow> pointless_reader_vector_value p v;
                 walk_children
                   (\<lambda>i u. do { x \<leftarrow> arr_get v_items i;
                               pointless_walk_priv fuel p x (depth + 1) cb u })
                   [0..<unat n_items] u }
          else if v_type v = POINTLESS_SET_VALUE then
            do { hash_vector \<leftarrow> pointless_set_hash_vector p v;
                 key_vector \<leftarrow> pointless_set_key_vector p v;
                 walk_children (\<lambda>x u. pointless_walk_priv fuel p x (depth + 1) cb u)
                   [hash_vector, key_vector] u }
          else if v_type v = POINTLESS_MAP_VALUE_VALUE then
            do { hash_vector \<leftarrow> pointless_map_hash_vector p v;
                 key_vector \<leftarrow> pointless_map_key_vector p v;
                 value_vector \<leftarrow> pointless_map_value_vector p v;
                 walk_children (\<lambda>x u. pointless_walk_priv fuel p x (depth + 1) cb u)
                   [hash_vector, key_vector, value_vector] u }
          else Some (False, u) }"

definition pointless_walk :: "nat \<Rightarrow> pointless_t \<Rightarrow> 'u walk_cb \<Rightarrow> 'u \<Rightarrow> 'u option" where
  "pointless_walk fuel p cb user =
     map_option snd (pointless_walk_priv fuel p (pointless_root p) 0 cb user)"

end
