(* ===== verification/Cycle_Marker.thy ===== *)
theory Cycle_Marker
  imports Bit_Utils Pointless_Defs
begin

text \<open>
  \<open>src/pointless_cycle_marker.c\<close>: the marking of containers that lie on a cycle, a recursive
  variant of Tarjan's algorithm. The graph is reached through the callbacks of
  \<open>cycle_marker_info_t\<close>; a node handle has the type \<open>'v\<close>. The JudyL arrays are the finite maps they
  implement, the dynamic array is the stack, top first; allocations succeed. The depth limit
  bounds the recursion to 257 nested visits.
\<close>

record 'v cycle_marker_info_t =
  fn_n_nodes :: u32
  fn_get_root :: "'v option"
  fn_is_container :: "'v \<Rightarrow> bool option"
  fn_container_id :: "'v \<Rightarrow> u32 option"
  fn_n_children :: "'v \<Rightarrow> u32 option"
  fn_child_at :: "'v \<Rightarrow> u32 \<Rightarrow> 'v option"

record pointless_cycle_marker_state_t =
  cycle_marker :: "u8 list"
  visited_judy :: "u32 \<Rightarrow> nat option"
  component_judy :: "u32 \<Rightarrow> nat option"
  root_judy :: "u32 \<Rightarrow> nat option"
  cm_stack :: "u32 list"

type_synonym cm_result = "(err + pointless_cycle_marker_state_t) option"

text \<open>\<open>visit w count depth state\<close> stands for the recursive call.\<close>

definition process_child ::
    "('v \<Rightarrow> nat \<Rightarrow> nat \<Rightarrow> pointless_cycle_marker_state_t \<Rightarrow> cm_result) \<Rightarrow> 'v cycle_marker_info_t \<Rightarrow>
     u32 \<Rightarrow> 'v \<Rightarrow> nat \<Rightarrow> nat \<Rightarrow> pointless_cycle_marker_state_t \<Rightarrow> cm_result" where
  "process_child visit info v_id w count depth st =
     do { c \<leftarrow> fn_is_container info w;
          if \<not> c then Some (Inr st)
          else do {
            w_id \<leftarrow> fn_container_id info w;
            r \<leftarrow> (if visited_judy st w_id = None then visit w count (depth + 1) st
                  else Some (Inr st));
            (case r of
               Inl e \<Rightarrow> Some (Inl e)
             | Inr st1 \<Rightarrow>
                 if component_judy st1 w_id \<noteq> None then Some (Inr st1)
                 else
                   (case (root_judy st1 v_id, root_judy st1 w_id) of
                      (Some root_v, Some root_w) \<Rightarrow>
                        if root_w < root_v
                        then Some (Inr (st1\<lparr>root_judy := (root_judy st1)(v_id \<mapsto> root_w)\<rparr>))
                        else Some (Inr st1)
                    | _ \<Rightarrow> Some (Inl ''internal error, root[v]/root[w] missing''))) } }"

text \<open>The loop that pops the component of \<open>v\<close> off the stack and marks every node above \<open>v\<close>.\<close>

fun pop_component ::
    "u32 \<Rightarrow> nat \<Rightarrow> u32 list \<Rightarrow> pointless_cycle_marker_state_t \<Rightarrow>
     pointless_cycle_marker_state_t option" where
  "pop_component v_id root_v [] st = None"
| "pop_component v_id root_v (w_id # stack) st =
     (if w_id = v_id then Some (st\<lparr>cm_stack := stack\<rparr>)
      else do {
        marker \<leftarrow> bm_set (cycle_marker st) (ucast w_id);
        pop_component v_id root_v stack
          (st\<lparr>cycle_marker := marker,
              component_judy := (component_judy st)(w_id \<mapsto> root_v)\<rparr>) })"

definition close_component ::
    "u32 \<Rightarrow> pointless_cycle_marker_state_t \<Rightarrow> cm_result" where
  "close_component v_id st =
     (case (root_judy st v_id, visited_judy st v_id) of
        (Some root_v, Some visited_v) \<Rightarrow>
          if root_v = visited_v
          then map_option Inr
                 (pop_component v_id root_v (cm_stack st)
                    (st\<lparr>component_judy := (component_judy st)(v_id \<mapsto> root_v)\<rparr>))
          else Some (Inr st)
      | _ \<Rightarrow> Some (Inl ''internal error: root[v]/visited[v] missing''))"

text \<open>One iteration of the loop over the children: a self loop marks the node at once.\<close>

definition visit_child ::
    "('v \<Rightarrow> nat \<Rightarrow> nat \<Rightarrow> pointless_cycle_marker_state_t \<Rightarrow> cm_result) \<Rightarrow> 'v cycle_marker_info_t \<Rightarrow>
     'v \<Rightarrow> u32 \<Rightarrow> nat \<Rightarrow> nat \<Rightarrow> nat \<Rightarrow> pointless_cycle_marker_state_t \<Rightarrow> cm_result" where
  "visit_child visit info v v_id count depth i st =
     do { child \<leftarrow> fn_child_at info v (of_nat i);
          c \<leftarrow> fn_is_container info child;
          self \<leftarrow> (if c then do { parent_container_id \<leftarrow> fn_container_id info v;
                                 child_container_id \<leftarrow> fn_container_id info child;
                                 Some (if parent_container_id = child_container_id
                                       then Some parent_container_id else None) }
                  else Some None);
          (case self of
             Some cid \<Rightarrow>
               do { marker \<leftarrow> bm_set (cycle_marker st) (ucast cid);
                    Some (Inr (st\<lparr>cycle_marker := marker\<rparr>)) }
           | None \<Rightarrow> process_child visit info v_id child (count + 1) (depth + 1) st) }"

fun pointless_cycle_marker_visit ::
    "nat \<Rightarrow> 'v cycle_marker_info_t \<Rightarrow> 'v \<Rightarrow> nat \<Rightarrow> nat \<Rightarrow> pointless_cycle_marker_state_t \<Rightarrow>
     cm_result" where
  "pointless_cycle_marker_visit 0 info v count depth st = None"
| "pointless_cycle_marker_visit (Suc fuel) info v count depth st =
     (if POINTLESS_MAX_DEPTH \<le> depth then Some (Inl ''maximum recursion depth reached'')
      else if unat (fn_n_nodes info) \<le> count
      then Some (Inl ''internal error: pre-order count exceeds number of containers'')
      else do {
        v_id \<leftarrow> fn_container_id info v;
        let st1 = st\<lparr>root_judy := (root_judy st)(v_id \<mapsto> count),
                     visited_judy := (visited_judy st)(v_id \<mapsto> count),
                     cm_stack := v_id # cm_stack st\<rparr>;
        n_children \<leftarrow> fn_n_children info v;
        r \<leftarrow> for_loop
               (\<lambda>i s. visit_child (\<lambda>w c d s. pointless_cycle_marker_visit fuel info w c d s)
                        info v v_id count depth i s)
               [0..<unat n_children] st1;
        (case r of
           Inl e \<Rightarrow> Some (Inl e)
         | Inr st2 \<Rightarrow> close_component v_id st2) })"

definition pointless_cycle_marker :: "'v cycle_marker_info_t \<Rightarrow> (err + u8 list) option" where
  "pointless_cycle_marker info =
     (let n_nodes = fn_n_nodes info;
          state = \<lparr>cycle_marker = replicate (unat (ICEIL n_nodes 8)) 0,
                   visited_judy = (\<lambda>_. None), component_judy = (\<lambda>_. None),
                   root_judy = (\<lambda>_. None), cm_stack = []\<rparr>
      in do {
        root \<leftarrow> fn_get_root info;
        c \<leftarrow> fn_is_container info root;
        if \<not> c then Some (Inr (cycle_marker state))
        else map_option (map_sum id cycle_marker)
               (pointless_cycle_marker_visit 257 info root 0 0 state) })"

end
