(* ===== verification/Validate.thy ===== *)
theory Validate
  imports Validate_Value Walk Cycle_Marker
begin

text \<open>
  \<open>src/pointless_validate.c\<close>, the reader's half of \<open>src/pointless_cycle_marker_wrappers.c\<close>, and the
  opening of a file in \<open>src/pointless_reader.c\<close>: three walks over a file image check all that is
  reachable from the root. \<open>fuel\<close> is the depth the call stack has for hashing keys.
\<close>

unbundle bit_operations_syntax

section \<open>The graph of a file\<close>

definition reader_is_container :: "pointless_value_t \<Rightarrow> bool" where
  "reader_is_container v \<longleftrightarrow>
     v_type v \<in> {POINTLESS_VECTOR_VALUE, POINTLESS_VECTOR_VALUE_HASHABLE, POINTLESS_SET_VALUE,
                 POINTLESS_MAP_VALUE_VALUE}"

definition reader_n_children :: "pointless_t \<Rightarrow> pointless_value_t \<Rightarrow> u32 option" where
  "reader_n_children p v =
     (if v_type v \<in> {POINTLESS_VECTOR_VALUE, POINTLESS_VECTOR_VALUE_HASHABLE}
        then pointless_reader_vector_n_items p v
      else if v_type v = POINTLESS_SET_VALUE then Some 2
      else if v_type v = POINTLESS_MAP_VALUE_VALUE then Some 3
      else Some 0)"

definition reader_child_at :: "pointless_t \<Rightarrow> pointless_value_t \<Rightarrow> u32 \<Rightarrow> pointless_value_t option" where
  "reader_child_at p v i =
     (if v_type v \<in> {POINTLESS_VECTOR_VALUE, POINTLESS_VECTOR_VALUE_HASHABLE} then
        do { children \<leftarrow> pointless_reader_vector_value p v; arr_get children (unat i) }
      else if v_type v = POINTLESS_SET_VALUE then
        (if i = 0 then pointless_set_hash_vector p v else pointless_set_key_vector p v)
      else if v_type v = POINTLESS_MAP_VALUE_VALUE then
        (if i = 0 then pointless_map_hash_vector p v
         else if i = 1 then pointless_map_key_vector p v
         else pointless_map_value_vector p v)
      else None)"

definition pointless_cycle_marker_read :: "pointless_t \<Rightarrow> (err + u8 list) option" where
  "pointless_cycle_marker_read p =
     pointless_cycle_marker
       \<lparr>fn_n_nodes = pointless_n_containers p,
        fn_get_root = Some (pointless_root p),
        fn_is_container = (\<lambda>v. Some (reader_is_container v)),
        fn_container_id = (\<lambda>v. Some (pointless_container_id p v)),
        fn_n_children = reader_n_children p,
        fn_child_at = reader_child_at p\<rparr>"

section \<open>The callback of the three passes\<close>

record pointless_validate_state_t =
  vs_pass :: nat
  vs_error :: "err option"
  vs_cycle_marker :: "u8 list"
  vs_vector :: "u8 list"
  vs_set :: "u8 list"
  vs_map :: "u8 list"

definition pointless_validate_set_complicated ::
    "nat \<Rightarrow> pointless_t \<Rightarrow> pointless_value_t \<Rightarrow> (err + unit) option" where
  "pointless_validate_set_complicated fuel p v =
     do { h \<leftarrow> set_header_at p v;
          n_hash \<leftarrow> pointless_reader_vector_n_items p (sh_hash_vector h);
          n_keys \<leftarrow> pointless_reader_vector_n_items p (sh_key_vector h);
          if n_hash \<noteq> n_keys
          then Some (Inl ''set hash and key vectors do not contain the same number of items'')
          else do {
            hashes \<leftarrow> pointless_reader_vector_u32 p (sh_hash_vector h);
            keys \<leftarrow> pointless_reader_vector_value p (sh_key_vector h);
            pointless_hash_table_validate fuel p (sh_n_items h) n_keys hashes keys None } }"

definition pointless_validate_map_complicated ::
    "nat \<Rightarrow> pointless_t \<Rightarrow> pointless_value_t \<Rightarrow> (err + unit) option" where
  "pointless_validate_map_complicated fuel p v =
     do { h \<leftarrow> map_header_at p v;
          n_hash \<leftarrow> pointless_reader_vector_n_items p (mh_hash_vector h);
          n_keys \<leftarrow> pointless_reader_vector_n_items p (mh_key_vector h);
          n_values \<leftarrow> pointless_reader_vector_n_items p (mh_value_vector h);
          if n_hash \<noteq> n_keys \<or> n_hash \<noteq> n_values
          then Some (Inl (''map hash, key and value vectors do not contain '' @
                          ''the same number of items''))
          else do {
            hashes \<leftarrow> pointless_reader_vector_u32 p (mh_hash_vector h);
            keys \<leftarrow> pointless_reader_vector_value p (mh_key_vector h);
            values \<leftarrow> pointless_reader_vector_value p (mh_value_vector h);
            pointless_hash_table_validate fuel p (mh_n_items h) n_keys hashes keys
              (Some values) } }"

text \<open>
  Marking a container visited: \<open>Inl\<close> when it was visited before, \<open>Inr\<close> the state with its bit set. The
  two kinds of value vectors share one bit mask.
\<close>

definition mark_visited ::
    "pointless_value_t \<Rightarrow> pointless_validate_state_t \<Rightarrow>
     (unit + pointless_validate_state_t) option" where
  "mark_visited v state =
     (if v_type v \<in> {POINTLESS_VECTOR_VALUE, POINTLESS_VECTOR_VALUE_HASHABLE} then
        do { b \<leftarrow> bm_is_set (vs_vector state) (ucast (v_data v));
             if b \<noteq> 0 then Some (Inl ())
             else do { m \<leftarrow> bm_set (vs_vector state) (ucast (v_data v));
                       Some (Inr (state\<lparr>vs_vector := m\<rparr>)) } }
      else if v_type v = POINTLESS_SET_VALUE then
        do { b \<leftarrow> bm_is_set (vs_set state) (ucast (v_data v));
             if b \<noteq> 0 then Some (Inl ())
             else do { m \<leftarrow> bm_set (vs_set state) (ucast (v_data v));
                       Some (Inr (state\<lparr>vs_set := m\<rparr>)) } }
      else if v_type v = POINTLESS_MAP_VALUE_VALUE then
        do { b \<leftarrow> bm_is_set (vs_map state) (ucast (v_data v));
             if b \<noteq> 0 then Some (Inl ())
             else do { m \<leftarrow> bm_set (vs_map state) (ucast (v_data v));
                       Some (Inr (state\<lparr>vs_map := m\<rparr>)) } }
      else Some (Inr state))"

text \<open>What a pass checks of a value that is visited for the first time.\<close>

definition pass_check ::
    "nat \<Rightarrow> pointless_t \<Rightarrow> pointless_value_t \<Rightarrow> pointless_validate_state_t \<Rightarrow>
     (err + unit) option" where
  "pass_check fuel p v state =
     (if vs_pass state = 1 then
        (case pointless_validate_inline_invariants v of
           Inl e \<Rightarrow> Some (Inl e)
         | Inr _ \<Rightarrow> pointless_validate_heap_value p v)
      else if vs_pass state = 2 then
        (if v_type v = POINTLESS_VECTOR_VALUE_HASHABLE then
           do { b \<leftarrow> bm_is_set (vs_cycle_marker state) (ucast (pointless_container_id p v));
                if b \<noteq> 0
                then Some (Inl ''POINTLESS_VECTOR_VALUE_HASHABLE is in a cycle'')
                else Some (Inr ()) }
         else Some (Inr ()))
      else if vs_pass state = 3 then
        (if v_type v = POINTLESS_MAP_VALUE_VALUE then pointless_validate_map_complicated fuel p v
         else if v_type v = POINTLESS_SET_VALUE then pointless_validate_set_complicated fuel p v
         else Some (Inr ()))
      else Some (Inr ()))"

definition pointless_validate_pass_cb :: "nat \<Rightarrow> pointless_validate_state_t walk_cb" where
  "pointless_validate_pass_cb fuel p v depth state =
     (if POINTLESS_MAX_DEPTH \<le> depth
      then Some (POINTLESS_WALK_STOP, state\<lparr>vs_error := Some ''maximum depth exceeded''\<rparr>)
      else
        (case (if vs_pass state = 1 then pointless_validate_heap_ref p v else Inr ()) of
           Inl e \<Rightarrow> Some (POINTLESS_WALK_STOP, state\<lparr>vs_error := Some e\<rparr>)
         | Inr _ \<Rightarrow> do {
             m \<leftarrow> mark_visited v state;
             (case m of
                Inl _ \<Rightarrow> Some (POINTLESS_WALK_MOVE_UP, state)
              | Inr state1 \<Rightarrow> do {
                  r \<leftarrow> pass_check fuel p v state1;
                  (case r of
                     Inl e \<Rightarrow> Some (POINTLESS_WALK_STOP, state1\<lparr>vs_error := Some e\<rparr>)
                   | Inr _ \<Rightarrow> Some (POINTLESS_WALK_VISIT_CHILDREN, state1)) }) }))"

section \<open>The three passes\<close>

text \<open>513 nested calls are all the depth limit of the callback allows.\<close>

definition validate_pass ::
    "nat \<Rightarrow> pointless_t \<Rightarrow> nat \<Rightarrow> u8 list \<Rightarrow> pointless_validate_state_t option" where
  "validate_pass fuel p pass marker =
     pointless_walk 513 p (pointless_validate_pass_cb fuel)
       \<lparr>vs_pass = pass, vs_error = None, vs_cycle_marker = marker,
        vs_vector = replicate (unat (ICEIL (n_vector (header p)) 8)) 0,
        vs_set = replicate (unat (ICEIL (n_set (header p)) 8)) 0,
        vs_map = replicate (unat (ICEIL (n_map (header p)) 8)) 0\<rparr>"

definition pointless_validate :: "nat \<Rightarrow> pointless_t \<Rightarrow> (err + unit) option" where
  "pointless_validate fuel p =
     do { s1 \<leftarrow> validate_pass fuel p 1 [];
          (case vs_error s1 of
             Some e \<Rightarrow> Some (Inl e)
           | None \<Rightarrow> do {
               cm \<leftarrow> pointless_cycle_marker_read p;
               (case cm of
                  Inl e \<Rightarrow> Some (Inl e)
                | Inr marker \<Rightarrow> do {
                    s2 \<leftarrow> validate_pass fuel p 2 marker;
                    (case vs_error s2 of
                       Some e \<Rightarrow> Some (Inl e)
                     | None \<Rightarrow> do {
                         s3 \<leftarrow> validate_pass fuel p 3 marker;
                         (case vs_error s3 of
                            Some e \<Rightarrow> Some (Inl e)
                          | None \<Rightarrow> Some (Inr ())) }) }) }) }"

section \<open>Opening a file image\<close>

definition offsets_size :: "pointless_header_t \<Rightarrow> u64" where
  "offsets_size h =
     32 + ucast (n_string_unicode h) * 8 + ucast (n_vector h) * 8 + ucast (n_bitvector h) * 8
        + ucast (n_set h) * 8 + ucast (n_map h) * 8"

definition init_handle :: "u8 list \<Rightarrow> pointless_header_t \<Rightarrow> u64 \<Rightarrow> pointless_t" where
  "init_handle buf h buflen =
     (let su = 32;
          ve = su + 8 * unat (n_string_unicode h);
          bi = ve + 8 * unat (n_vector h);
          se = bi + 8 * unat (n_bitvector h);
          ma = se + 8 * unat (n_set h)
      in \<lparr>p_buf = buf, header = h, string_unicode_offsets = su, vector_offsets = ve,
          bitvector_offsets = bi, set_offsets = se, map_offsets = ma,
          heap_ptr = ma + 8 * unat (n_map h), heap_len = buflen - offsets_size h\<rparr>)"

text \<open>
  \<open>pointless_init\<close>: the answer is \<open>Inl\<close> the error when it returns 0, and \<open>Inr\<close> the handle with the
  contents of \<open>*error\<close> when it returns 1: for version 1 it sets \<open>*error\<close> and goes on.
\<close>

definition pointless_init ::
    "nat \<Rightarrow> u8 list \<Rightarrow> u64 \<Rightarrow> bool \<Rightarrow> (err + pointless_t \<times> err option) option" where
  "pointless_init fuel buf buflen do_validate =
     (if buflen < 32 then Some (Inl ''header missing'')
      else do {
        h \<leftarrow> read_header buf 0;
        if version h = POINTLESS_FF_VERSION_OFFSET_32_OLDHASH
        then Some (Inl ''old-hash file version not supported'')
        else if version h \<noteq> POINTLESS_FF_VERSION_OFFSET_32_NEWHASH \<and>
                version h \<noteq> POINTLESS_FF_VERSION_OFFSET_64_NEWHASH
        then Some (Inl ''file version not supported'')
        else
          let warning = (if version h = POINTLESS_FF_VERSION_OFFSET_32_NEWHASH
                         then Some ''32-bit offset files no longer supported'' else None);
              p = init_handle buf h buflen
          in if buflen < offsets_size h
             then Some (Inl ''file is too small to hold offset vectors'')
             else if do_validate then do {
               r \<leftarrow> pointless_validate fuel p;
               (case r of
                  Inl e \<Rightarrow> Some (Inl e)
                | Inr _ \<Rightarrow> Some (Inr (p, warning))) }
             else Some (Inr (p, warning)) })"

text \<open>\<open>pointless_open_b\<close> copies the caller's buffer first; the copy succeeds.\<close>

definition pointless_open_b :: "nat \<Rightarrow> u8 list \<Rightarrow> (err + pointless_t \<times> err option) option" where
  "pointless_open_b fuel buffer = pointless_init fuel buffer (of_nat (length buffer)) True"

definition pointless_open_b_skip_validate ::
    "nat \<Rightarrow> u8 list \<Rightarrow> (err + pointless_t \<times> err option) option" where
  "pointless_open_b_skip_validate fuel buffer =
     pointless_init fuel buffer (of_nat (length buffer)) False"

end
