(* ===== verification/Bitvector_Laws.thy ===== *)
theory Bitvector_Laws
  imports Bitvector
begin

text \<open>
  What the bitvector operations compute, stated over the list of booleans a representation denotes:
  the hashes fold over its bytes and are the same for any two representations of one list; the
  comparisons are lexicographic on operands of one representation.
\<close>

unbundle bit_operations_syntax

section \<open>Denotation\<close>

definition reads :: "(u32 \<Rightarrow> u32 option) \<Rightarrow> bool list \<Rightarrow> bool" where
  "reads f xs \<longleftrightarrow> list_all (\<lambda>i. f (of_nat i) = Some (of_bool (xs ! i))) [0..<length xs]"

definition bv_abs :: "u32 \<Rightarrow> pointless_value_data_t \<Rightarrow> u8 list \<Rightarrow> bool list option" where
  "bv_abs t v buffer =
     do { n \<leftarrow> pointless_bitvector_n_bits t v buffer;
          those (map (\<lambda>i. map_option (\<lambda>b. b \<noteq> 0)
                    (pointless_bitvector_is_set t v buffer (of_nat i))) [0..<unat n]) }"

lemma readsD: "reads f xs \<Longrightarrow> i < length xs \<Longrightarrow> f (of_nat i) = Some (of_bool (xs ! i))"
  by (simp add: reads_def list_all_iff)

lemma those_Some_iff:
  "those xs = Some ys \<longleftrightarrow> length ys = length xs \<and> (\<forall>i < length xs. xs ! i = Some (ys ! i))"
proof (induction xs arbitrary: ys)
  case Nil
  then show ?case by auto
next
  case (Cons x xs)
  show ?case
  proof (cases ys)
    case Nil
    then show ?thesis by (cases x) auto
  next
    case (Cons y ys')
    then show ?thesis
      using Cons.IH [of ys'] by (cases x) (auto simp: less_Suc_eq_0_disj All_less_Suc2)
  qed
qed

lemma is_set_bits_bool:
  "pointless_bitvector_is_set_bits t v bs i = Some b \<Longrightarrow> b = of_bool (b \<noteq> 0)"
  by (auto simp: pointless_bitvector_is_set_bits_def split: if_splits)

lemma bv_abs_iff:
  "bv_abs t v buffer = Some xs \<longleftrightarrow>
     pointless_bitvector_n_bits t v buffer = Some (of_nat (length xs)) \<and>
     length xs < 2 ^ 32 \<and> reads (pointless_bitvector_is_set t v buffer) xs"
    (is "?l \<longleftrightarrow> ?r")
proof -
  have b: "map_option (\<lambda>b. b \<noteq> 0) (pointless_bitvector_is_set t v buffer w) = Some x \<longleftrightarrow>
      pointless_bitvector_is_set t v buffer w = Some (of_bool x)" for w x
    using is_set_bits_bool by (fastforce simp: pointless_bitvector_is_set_def)
  have "those (map (\<lambda>i. map_option (\<lambda>b. b \<noteq> 0)
            (pointless_bitvector_is_set t v buffer (of_nat i))) [0..<k]) = Some xs \<longleftrightarrow>
      length xs = k \<and> reads (pointless_bitvector_is_set t v buffer) xs" for k
    unfolding those_Some_iff reads_def list_all_iff by (auto simp: b simp del: map_option_eq_Some)
  then have "?l \<longleftrightarrow> (\<exists>n. pointless_bitvector_n_bits t v buffer = Some n \<and> length xs = unat n \<and>
      reads (pointless_bitvector_is_set t v buffer) xs)"
    unfolding bv_abs_def by (cases "pointless_bitvector_n_bits t v buffer") auto
  also have "\<dots> \<longleftrightarrow> ?r"
    by (auto simp: unsigned_of_nat take_bit_nat_eq_self)
  finally show ?thesis .
qed

section \<open>Hashing\<close>

text \<open>The byte of up to eight bits, least significant first, and the hash of a bit list.\<close>

fun byte_word :: "bool list \<Rightarrow> 'a::len word" where
  "byte_word [] = 0"
| "byte_word (x # xs) = of_bool x OR push_bit 1 (byte_word xs)"

function bv_hash :: "bool list \<Rightarrow> 'a::len word \<Rightarrow> 'a word" where
  "bv_hash bs h =
     (if bs = [] then h else bv_hash (drop 8 bs) (h * HASH_BITVECTOR_SEED + byte_word (take 8 bs)))"
  by pat_completeness auto
termination
  by (relation "measure (\<lambda>(bs, _). length bs)") auto

declare bv_hash.simps [simp del]

lemma byte_word_Cons_or:
  fixes b :: "'a::len word"
  assumes "\<And>k. j \<le> k \<Longrightarrow> \<not> bit b k"
  shows "b OR push_bit j (byte_word (x # xs)) =
    (if x then b OR push_bit j 1 else b) OR push_bit (Suc j) (byte_word xs)"
proof (rule bit_word_eqI)
  fix k
  assume k: "k < LENGTH('a)"
  show "bit (b OR push_bit j (byte_word (x # xs))) k \<longleftrightarrow>
      bit ((if x then b OR push_bit j 1 else b) OR push_bit (Suc j) (byte_word xs)) k"
  proof (cases "j < k")
    case True
    then have "k - j = Suc (k - Suc j)" by simp
    with k True show ?thesis by (auto simp: bit_simps bit_1_iff)
  next
    case False
    with k show ?thesis by (cases "k = j") (auto simp: bit_simps bit_1_iff)
  qed
qed

lemma hash_byte_eq:
  assumes "reads f xs" and "i \<le> length xs" and "j \<le> 8" and "\<And>k. j \<le> k \<Longrightarrow> \<not> bit b k"
  shows "hash_byte f (length xs) j i b =
    Some (b OR push_bit j (byte_word (take (8 - j) (drop i xs))), min (length xs) (i + (8 - j)))"
  using assms(2-)
proof (induction "8 - j" arbitrary: j i b)
  case 0
  then have "j = 8" by simp
  with 0 show ?case by (subst hash_byte.simps) simp
next
  case (Suc m)
  then have j: "j < 8" "m = 8 - Suc j" by simp_all
  show ?case
  proof (cases "i < length xs")
    case True
    let ?b = "if xs ! i then b OR push_bit j 1 else b"
    have fi: "f (of_nat i) = Some (of_bool (xs ! i))" using assms(1) True by (rule readsD)
    have nb: "\<not> bit ?b k" if "Suc j \<le> k" for k
      using Suc.prems(3) [of k] that by (auto simp: bit_simps)
    have "take (8 - j) (drop i xs) = xs ! i # take m (drop (Suc i) xs)"
      using True j Suc.hyps(2) by (metis Cons_nth_drop_Suc take_Suc_Cons)
    moreover have "hash_byte f (length xs) (Suc j) (Suc i) ?b =
        Some (?b OR push_bit (Suc j) (byte_word (take m (drop (Suc i) xs))),
              min (length xs) (Suc i + m))"
      using Suc.hyps(1) [OF j(2), of "Suc i" ?b] True j nb by simp
    ultimately show ?thesis
      using True j fi byte_word_Cons_or [OF Suc.prems(3)] Suc.hyps(2)
      by (subst hash_byte.simps) simp
  next
    case False
    with Suc.prems show ?thesis by (subst hash_byte.simps) simp
  qed
qed

lemma hash_loop_eq:
  fixes h :: "'a::len word"
  assumes "reads f xs" and "i \<le> length xs"
  shows "hash_loop f (length xs) i h = Some (bv_hash (drop i xs) h)"
  using assms(2)
proof (induction "length xs - i" arbitrary: i h rule: less_induct)
  case less
  show ?case
  proof (cases "i < length xs")
    case True
    let ?i = "min (length xs) (i + 8)"
    have "hash_byte f (length xs) 0 i (0 :: 'a word) = Some (byte_word (take 8 (drop i xs)), ?i)"
      using hash_byte_eq [OF assms(1) less.prems, of 0 0] by simp
    moreover have "drop ?i xs = drop 8 (drop i xs)" by (simp add: min_def add.commute)
    moreover have "drop i xs \<noteq> []" using True by simp
    moreover have "length xs - ?i < length xs - i" "?i \<le> length xs" using True by auto
    ultimately show ?thesis
      using True less.hyps [of ?i "h * HASH_BITVECTOR_SEED + byte_word (take 8 (drop i xs))"]
      by (subst hash_loop.simps, subst bv_hash.simps) simp
  next
    case False
    with less.prems show ?thesis by (subst hash_loop.simps, subst bv_hash.simps) simp
  qed
qed

lemmas hash_loop_eq_0 = hash_loop_eq [where i = 0, simplified]

section \<open>Comparing\<close>

lemma cmp_bits_loop_eq:
  assumes "reads fa xs" and "reads fb ys" and "i + k = min (length xs) (length ys)"
  shows "cmp_bits_loop fa fb i k (SIMPLE_CMP (length xs) (length ys)) =
    Some (lex_cmp SIMPLE_CMP (drop i xs) (drop i ys))"
  using assms(3)
proof (induction k arbitrary: i)
  case 0
  then have "drop i xs = [] \<or> drop i ys = []" by (auto simp: min_def split: if_splits)
  moreover have "i \<le> length xs" "i \<le> length ys" using 0 by simp_all
  moreover have "length (drop i xs) = length xs - i" "length (drop i ys) = length ys - i" by simp_all
  ultimately show ?case
    by (cases "drop i xs"; cases "drop i ys") (auto simp: SIMPLE_CMP_def)
next
  case (Suc k)
  then have i: "i < length xs" "i < length ys" by (simp_all add: min_def split: if_splits)
  have "drop i xs = xs ! i # drop (Suc i) xs" "drop i ys = ys ! i # drop (Suc i) ys"
    using i by (simp_all add: Cons_nth_drop_Suc)
  moreover have "SIMPLE_CMP (of_bool a :: u32) (of_bool b) = SIMPLE_CMP a b" for a b
    by (simp add: SIMPLE_CMP_def)
  moreover have "(of_bool a :: u32) = of_bool b \<longleftrightarrow> a = b" for a b by simp
  ultimately show ?case
    using Suc i readsD [OF assms(1) i(1)] readsD [OF assms(2) i(2)] by simp
qed

section \<open>Consequences for the operations\<close>

lemma bv_abs_n_bits:
  "bv_abs t v buffer = Some xs \<Longrightarrow>
     \<exists>n. pointless_bitvector_n_bits t v buffer = Some n \<and> unat n = length xs"
  by (auto simp: bv_abs_iff unsigned_of_nat take_bit_nat_eq_self)

lemma bv_abs_reads: "bv_abs t v buffer = Some xs \<Longrightarrow> reads (pointless_bitvector_is_set t v buffer) xs"
  by (simp add: bv_abs_iff)

lemma is_set_as_bits:
  "pointless_bitvector_is_set_bits t v (bits_of_buffer t buffer) = pointless_bitvector_is_set t v buffer"
  by (simp add: fun_eq_iff pointless_bitvector_is_set_def)

lemma bitvector_hash_32_eq:
  "bv_abs t v buffer = Some xs \<Longrightarrow> pointless_bitvector_hash_32 t v buffer = Some (bv_hash xs 1)"
  using bv_abs_n_bits [of t v buffer xs] hash_loop_eq_0 [OF bv_abs_reads, of t v buffer xs 1]
  by (auto simp: pointless_bitvector_hash_32_def pointless_bitvector_hash_32_priv_def is_set_as_bits)

lemma bitvector_hash_64_eq:
  "bv_abs t v buffer = Some xs \<Longrightarrow> pointless_bitvector_hash_64 t v buffer = Some (bv_hash xs 1)"
  using bv_abs_n_bits [of t v buffer xs] hash_loop_eq_0 [OF bv_abs_reads, of t v buffer xs 1]
  by (auto simp: pointless_bitvector_hash_64_def pointless_bitvector_hash_64_priv_def is_set_as_bits)

lemma cmp_bits_loop_words:
  assumes "reads fa xs" and "reads fb ys" and "unat na = length xs" and "unat nb = length ys"
  shows "cmp_bits_loop fa fb 0 (unat (if na < nb then na else nb)) (SIMPLE_CMP na (nb :: u32)) =
    Some (lex_cmp SIMPLE_CMP xs ys)"
proof -
  have "unat (if na < nb then na else nb) = min (length xs) (length ys)"
    using assms(3,4) by (simp add: word_less_nat_alt min_def)
  moreover have "SIMPLE_CMP na nb = SIMPLE_CMP (length xs) (length ys)"
    using assms(3,4) by (simp add: SIMPLE_CMP_def word_less_nat_alt word_unat_eq_iff)
  ultimately show ?thesis
    using cmp_bits_loop_eq [OF assms(1,2), of 0 "unat (if na < nb then na else nb)"] by simp
qed

lemma bitvector_cmp_same_type:
  assumes "bv_abs t va ba = Some xs" and "bv_abs t vb bb = Some ys"
  shows "pointless_bitvector_cmp_buffer_buffer t va ba t vb bb = Some (lex_cmp SIMPLE_CMP xs ys)"
proof -
  from assms obtain na nb where "pointless_bitvector_n_bits t va ba = Some na" "unat na = length xs"
    "pointless_bitvector_n_bits t vb bb = Some nb" "unat nb = length ys"
    using bv_abs_n_bits by blast
  then show ?thesis
    using cmp_bits_loop_words [OF bv_abs_reads [OF assms(1)] bv_abs_reads [OF assms(2)], of na nb]
    by (simp add: pointless_bitvector_cmp_buffer_buffer_def Let_def)
qed

lemma bm_bit_is_set:
  "bm_bit (pointless_bitvector_bits buffer) = pointless_bitvector_is_set POINTLESS_BITVECTOR v buffer"
  by (simp add: fun_eq_iff bm_bit_def pointless_bitvector_is_set_def bits_of_buffer_def
      pointless_bitvector_is_set_bits_def)

lemma is_any_set_loop_eq:
  "reads f xs \<Longrightarrow> i + k = length xs \<Longrightarrow>
     is_any_set_loop f i k = Some (of_bool (\<exists>x \<in> set (drop i xs). x))"
proof (induction k arbitrary: i)
  case 0
  then show ?case by simp
next
  case (Suc k)
  then have i: "i < length xs" by simp
  then have "drop i xs = xs ! i # drop (Suc i) xs" by (simp add: Cons_nth_drop_Suc)
  with Suc readsD [OF Suc.prems(1) i] show ?case by simp
qed

section \<open>The contract of the bitvectors\<close>

text \<open>
  C14 The hash of a bitvector depends on its bits only: any two of the six representations that denote
  the same list of bits have the same 32-bit and the same 64-bit hash.
\<close>

theorem bitvector_hash_representation_independent:
  assumes "bv_abs t v buffer = Some xs" and "bv_abs t' v' buffer' = Some xs"
  shows "pointless_bitvector_hash_32 t v buffer = Some (bv_hash xs 1) \<and>
    pointless_bitvector_hash_32 t' v' buffer' = Some (bv_hash xs 1) \<and>
    pointless_bitvector_hash_64 t v buffer = Some (bv_hash xs 1) \<and>
    pointless_bitvector_hash_64 t' v' buffer' = Some (bv_hash xs 1)"
  using assms by (simp add: bitvector_hash_32_eq bitvector_hash_64_eq)

lemma bv_abs_sample_buffer:
  "bv_abs POINTLESS_BITVECTOR 0 [3, 0, 0, 0, 6] = Some [False, True, True]"
  by code_simp

lemma bv_abs_sample_01:
  "bv_abs POINTLESS_BITVECTOR_01 (mk_bitvector_01_or_10 1 2) [] = Some [False, True, True]"
  by code_simp

lemma bv_abs_sample_packed:
  "bv_abs POINTLESS_BITVECTOR_PACKED (mk_bitvector_packed 3 5) [] = Some [True, False, True]"
  by code_simp

theorem bitvector_hash_representation_independent_witness:
  "pointless_bitvector_hash_32 POINTLESS_BITVECTOR 0 [3, 0, 0, 0, 6] =
   pointless_bitvector_hash_32 POINTLESS_BITVECTOR_01 (mk_bitvector_01_or_10 1 2) []"
  using bitvector_hash_representation_independent [OF bv_abs_sample_buffer bv_abs_sample_01] by simp

text \<open>
  C16 Bitvectors of one representation are compared lexicographically, bit by bit, a proper prefix
  first.
\<close>

theorem bitvector_compare_lexicographic:
  assumes "bv_abs t va ba = Some xs" and "bv_abs t vb bb = Some ys"
  shows "pointless_bitvector_cmp_buffer_buffer t va ba t vb bb = Some (lex_cmp SIMPLE_CMP xs ys)"
  using assms by (rule bitvector_cmp_same_type)

theorem bitvector_compare_lexicographic_witness:
  "pointless_bitvector_cmp_buffer_buffer POINTLESS_BITVECTOR 0 [3, 0, 0, 0, 6]
     POINTLESS_BITVECTOR 0 [3, 0, 0, 0, 6] = Some 0"
  using bitvector_compare_lexicographic [OF bv_abs_sample_buffer bv_abs_sample_buffer] by simp

text \<open>
  C19 Bitvectors of different representations are not compared by their bits: the comparison reads the
  bits of the second operand under the type of the first. So a bitvector of zeros or of ones only is
  compared with any bitvector by the lengths alone, and answers 0 for every one of its length.
\<close>

theorem bitvector_compare_confuses_types:
  assumes "ta \<in> {POINTLESS_BITVECTOR_0, POINTLESS_BITVECTOR_1}"
    and "bv_abs ta va ba = Some xs" and "bv_abs tb vb bb = Some ys"
  shows "pointless_bitvector_cmp_buffer_buffer ta va ba tb vb bb = Some (SIMPLE_CMP (length xs) (length ys))"
proof -
  obtain n m where n: "pointless_bitvector_n_bits ta va ba = Some n" "unat n = length xs"
    and m: "pointless_bitvector_n_bits tb vb bb = Some m" "unat m = length ys"
    using bv_abs_n_bits [OF assms(2)] bv_abs_n_bits [OF assms(3)] by blast
  have same: "pointless_bitvector_is_set ta va ba i = Some (of_bool (ta = POINTLESS_BITVECTOR_1))"
      "pointless_bitvector_is_set ta vb bb i = Some (of_bool (ta = POINTLESS_BITVECTOR_1))" for i
    using assms(1) by (auto simp: pointless_bitvector_is_set_def pointless_bitvector_is_set_bits_def)
  have "cmp_bits_loop (pointless_bitvector_is_set ta va ba) (pointless_bitvector_is_set ta vb bb) i k tail = Some tail"
    for i k tail
    by (induction k arbitrary: i) (simp_all add: same)
  moreover have "SIMPLE_CMP n m = SIMPLE_CMP (length xs) (length ys)"
    by (simp add: SIMPLE_CMP_def word_less_nat_alt word_unat_eq_iff n(2) m(2))
  ultimately show ?thesis using n(1) m(1) by (simp add: pointless_bitvector_cmp_buffer_buffer_def Let_def)
qed

text \<open>Three zeros and three ones.\<close>

theorem bitvector_compare_confuses_types_witness:
  "pointless_bitvector_cmp_buffer_buffer POINTLESS_BITVECTOR_0 3 [] POINTLESS_BITVECTOR_1 3 [] = Some 0"
proof -
  have "bv_abs POINTLESS_BITVECTOR_0 3 [] = Some [False, False, False]"
    "bv_abs POINTLESS_BITVECTOR_1 3 [] = Some [True, True, True]"
    by code_simp+
  from bitvector_compare_confuses_types [OF _ this] show ?thesis by (simp add: SIMPLE_CMP_def)
qed

end
