(* ===== verification/Strings_Laws.thy ===== *)
theory Strings_Laws
  imports Strings
begin

text \<open>
  What the string operations compute, stated over the code points before the terminator: lengths,
  conversions, lexicographic comparison, and hashes that do not depend on the width of the units.
\<close>

unbundle bit_operations_syntax

section \<open>Code points\<close>

fun code_points :: "'a::len word list \<Rightarrow> u32 list option" where
  "code_points [] = None"
| "code_points (x # xs) = (if x = 0 then Some [] else map_option ((#) (ucast x)) (code_points xs))"

lemma code_points_ConsE:
  assumes "code_points (x # xs) = Some cs"
  obtains "x = 0" "cs = []"
    | cs' where "x \<noteq> 0" "code_points xs = Some cs'" "cs = ucast x # cs'"
  using assms by (auto split: if_splits)

lemma ucast_eq_0_up:
  "LENGTH('a) \<le> 32 \<Longrightarrow> (ucast (x :: 'a::len word) :: u32) = 0 \<longleftrightarrow> x = 0"
  by (simp add: word_unat_eq_iff unat_ucast_up)

lemma code_points_nonzero:
  assumes "LENGTH('a) \<le> 32" and "code_points (s :: 'a::len word list) = Some cs"
  shows "0 \<notin> set cs"
  using assms(2)
proof (induction s arbitrary: cs)
  case (Cons x xs)
  from Cons.prems show ?case
    by (cases rule: code_points_ConsE) (use Cons.IH ucast_eq_0_up [OF assms(1)] in auto)
qed simp

lemma code_points_below:
  "code_points (s :: u8 list) = Some cs \<Longrightarrow> c \<in> set cs \<Longrightarrow> unat c < 256"
proof (induction s arbitrary: cs)
  case (Cons x xs)
  have "unat (ucast x :: u32) < 256" using unsigned_less [of x] by (simp add: unat_ucast_up)
  from Cons.prems(1) this show ?case
    by (cases rule: code_points_ConsE) (use Cons.IH Cons.prems(2) in auto)
qed simp

lemma unat_ucast_u8: "unat (ucast (x :: u32) :: u8) = unat x mod 256"
  by (simp add: unsigned_ucast_eq take_bit_eq_mod)

section \<open>Lengths and conversions\<close>

lemma string_len_loop_eq:
  "code_points s = Some cs \<Longrightarrow> string_len_loop i s = Some (i + of_nat (length cs))"
proof (induction s arbitrary: i cs)
  case (Cons x xs)
  from Cons.prems show ?case
    by (cases rule: code_points_ConsE) (use Cons.IH in auto)
qed simp

lemma string_len_loop_None: "code_points s = None \<Longrightarrow> string_len_loop i s = None"
  by (induction s arbitrary: i) (auto split: if_splits)

lemma string_conv_loop_eq:
  assumes "code_points (src :: 'a::len word list) = Some cs" and "length cs < length dst"
    and "\<And>x. x \<noteq> 0 \<Longrightarrow> ucast x \<in> set cs \<Longrightarrow> f x \<noteq> 0 \<and> (ucast (f x) :: u32) = ucast x"
  shows "\<exists>r. string_conv_loop f dst src = Some r \<and> code_points r = Some cs \<and>
             length r = length dst"
  using assms
proof (induction src arbitrary: cs dst)
  case (Cons x xs)
  then obtain d ds where dst: "dst = d # ds" by (cases dst) auto
  from Cons.prems(1) show ?case
  proof (cases rule: code_points_ConsE)
    case 1
    then show ?thesis by (simp add: dst)
  next
    case (2 cs')
    with Cons.prems(2) dst have "length cs' < length ds" by simp
    moreover have "f y \<noteq> 0 \<and> (ucast (f y) :: u32) = ucast y"
      if "y \<noteq> 0" "ucast y \<in> set cs'" for y
      using Cons.prems(3) [of y] that 2(3) by simp
    ultimately obtain r where
      "string_conv_loop f ds xs = Some r" "code_points r = Some cs'" "length r = length ds"
      using Cons.IH [OF 2(2)] by blast
    moreover have "f x \<noteq> 0" "(ucast (f x) :: u32) = ucast x"
      using Cons.prems(3) [of x] 2(1,3) by simp_all
    ultimately show ?thesis using 2 by (simp add: dst)
  qed
qed simp

section \<open>Comparison\<close>

lemma cmp_string_eq:
  assumes "LENGTH('a) \<le> 32" "LENGTH('b) \<le> 32"
    and "code_points (a :: 'a::len word list) = Some ca"
    and "code_points (b :: 'b::len word list) = Some cb"
  shows "cmp_string a b = Some (lex_cmp SIMPLE_CMP ca cb)"
  using assms(3,4)
proof (induction a b arbitrary: ca cb rule: cmp_string.induct)
  case (1 x a y b)
  note zero = ucast_eq_0_up [OF assms(1), of x] ucast_eq_0_up [OF assms(2), of y]
  from 1(2) show ?case
  proof (cases rule: code_points_ConsE)
    case a: 1
    from 1(3) show ?thesis
      by (cases rule: code_points_ConsE) (use a zero in \<open>auto simp: SIMPLE_CMP_def word_gt_0\<close>)
  next
    case a: (2 ca')
    from 1(3) show ?thesis
    proof (cases rule: code_points_ConsE)
      case b: 1
      with a zero show ?thesis by (auto simp: SIMPLE_CMP_def)
    next
      case b: (2 cb')
      with a 1(1) [OF _ a(1,2) b(2)] show ?thesis by simp
    qed
  qed
qed simp_all

section \<open>Hashing\<close>

definition string_hash :: "u32 list \<Rightarrow> u32" where
  "string_hash cs =
     fold (\<lambda>c x. (1000003 * x) XOR c) cs (push_bit 7 (case cs of [] \<Rightarrow> 0 | c # _ \<Rightarrow> c)) XOR
     of_nat (length cs)"

lemma ucast_xor_len: "(ucast ((ucast (x :: u32) :: u64) XOR n) :: u32) = x XOR ucast n"
  by (rule bit_word_eqI) (auto simp: bit_simps)

lemma string_hash_loop_eq:
  "code_points s = Some cs \<Longrightarrow>
     string_hash_loop s x n =
       Some (fold (\<lambda>c x. (1000003 * x) XOR c) cs x XOR ucast (n + of_nat (length cs)))"
proof (induction s arbitrary: x n cs)
  case (Cons c s)
  from Cons.prems show ?case
    by (cases rule: code_points_ConsE) (use Cons.IH in \<open>auto simp: ucast_xor_len add.assoc\<close>)
qed simp

lemma ucast_of_nat_u32: "(ucast (of_nat n :: u64) :: u32) = of_nat n"
  by (rule bit_word_eqI) (auto simp: bit_simps)

lemma python_string_hash_32_eq:
  assumes "code_points s = Some cs"
  shows "python_string_hash_32 s = Some (string_hash cs)"
proof (cases s)
  case (Cons c s')
  from assms [unfolded Cons] have
    "(ucast c :: u32) = (case cs of [] \<Rightarrow> 0 | c # _ \<Rightarrow> c)"
    by (cases rule: code_points_ConsE) simp_all
  with Cons string_hash_loop_eq [OF assms] show ?thesis
    by (simp add: python_string_hash_32_def string_hash_def ucast_of_nat_u32)
qed (use assms in simp)

lemma string_hash_n_loop_eq:
  assumes "length cs + unat n = unat len" and "length cs \<le> length s"
    and "cs = map ucast (take (length cs) s)"
  shows "string_hash_n_loop s x n len =
     Some (fold (\<lambda>c x. (1000003 * x) XOR c) cs x XOR ucast len)"
  using assms
proof (induction s x n len arbitrary: cs rule: string_hash_n_loop.induct)
  case (1 x n len)
  then have "n = len" by (simp add: word_unat_eq_iff)
  with 1 show ?case by (simp add: ucast_xor_len)
next
  case (2 c s x n len)
  show ?case
  proof (cases cs)
    case Nil
    with 2 have "n = len" by (simp add: word_unat_eq_iff)
    with Nil show ?thesis by (simp add: ucast_xor_len)
  next
    case (Cons d ds)
    with 2 have lt: "n < len" by (simp add: word_less_nat_alt)
    then have "unat (n + 1) = unat n + 1"
      by (rule unat_plus_one)
    with 2(1) [OF lt, of ds] 2(2-) Cons lt show ?thesis by simp
  qed
qed

lemma lex_cmp_SIMPLE_CMP_eq_0: "lex_cmp SIMPLE_CMP xs ys = 0 \<longleftrightarrow> xs = ys"
  for xs ys :: "'a::linorder list"
  by (rule lex_cmp_eq_0) simp

section \<open>The contract of the strings\<close>

text \<open>
  C17 The string comparison is the lexicographic order of the code points before the terminators, in each
  of the nine combinations of units of 8, 16 and 32 bits.
\<close>

theorem string_compare_lexicographic:
  "(\<forall>a b. code_points a = Some ca \<longrightarrow> code_points b = Some cb \<longrightarrow>
        pointless_cmp_string_8_8 a b = Some (lex_cmp SIMPLE_CMP ca cb)) \<and>
     (\<forall>a b. code_points a = Some ca \<longrightarrow> code_points b = Some cb \<longrightarrow>
        pointless_cmp_string_8_16 a b = Some (lex_cmp SIMPLE_CMP ca cb)) \<and>
     (\<forall>a b. code_points a = Some ca \<longrightarrow> code_points b = Some cb \<longrightarrow>
        pointless_cmp_string_8_32 a b = Some (lex_cmp SIMPLE_CMP ca cb)) \<and>
     (\<forall>a b. code_points a = Some ca \<longrightarrow> code_points b = Some cb \<longrightarrow>
        pointless_cmp_string_16_8 a b = Some (lex_cmp SIMPLE_CMP ca cb)) \<and>
     (\<forall>a b. code_points a = Some ca \<longrightarrow> code_points b = Some cb \<longrightarrow>
        pointless_cmp_string_16_16 a b = Some (lex_cmp SIMPLE_CMP ca cb)) \<and>
     (\<forall>a b. code_points a = Some ca \<longrightarrow> code_points b = Some cb \<longrightarrow>
        pointless_cmp_string_16_32 a b = Some (lex_cmp SIMPLE_CMP ca cb)) \<and>
     (\<forall>a b. code_points a = Some ca \<longrightarrow> code_points b = Some cb \<longrightarrow>
        pointless_cmp_string_32_8 a b = Some (lex_cmp SIMPLE_CMP ca cb)) \<and>
     (\<forall>a b. code_points a = Some ca \<longrightarrow> code_points b = Some cb \<longrightarrow>
        pointless_cmp_string_32_16 a b = Some (lex_cmp SIMPLE_CMP ca cb)) \<and>
     (\<forall>a b. code_points a = Some ca \<longrightarrow> code_points b = Some cb \<longrightarrow>
        pointless_cmp_string_32_32 a b = Some (lex_cmp SIMPLE_CMP ca cb))"
  unfolding
    pointless_cmp_string_8_8_def pointless_cmp_string_8_16_def pointless_cmp_string_8_32_def
    pointless_cmp_string_16_8_def pointless_cmp_string_16_16_def pointless_cmp_string_16_32_def
    pointless_cmp_string_32_8_def pointless_cmp_string_32_16_def pointless_cmp_string_32_32_def
  by (intro conjI allI impI cmp_string_eq) simp_all

theorem string_compare_lexicographic_witness:
  "pointless_cmp_string_8_8 [97, 98, 0] [97, 200, 0, 7] = Some (-1) \<and>
     pointless_cmp_string_8_16 [97, 98, 0] [97, 200, 0, 7] = Some (-1) \<and>
     pointless_cmp_string_8_32 [97, 98, 0] [97, 200, 0, 7] = Some (-1) \<and>
     pointless_cmp_string_16_8 [97, 98, 0] [97, 200, 0, 7] = Some (-1) \<and>
     pointless_cmp_string_16_16 [97, 98, 0] [97, 200, 0, 7] = Some (-1) \<and>
     pointless_cmp_string_16_32 [97, 98, 0] [97, 200, 0, 7] = Some (-1) \<and>
     pointless_cmp_string_32_8 [97, 98, 0] [97, 200, 0, 7] = Some (-1) \<and>
     pointless_cmp_string_32_16 [97, 98, 0] [97, 200, 0, 7] = Some (-1) \<and>
     pointless_cmp_string_32_32 [97, 98, 0] [97, 200, 0, 7] = Some (-1)"
  using string_compare_lexicographic [of "[97, 98]" "[97, 200]"] by (simp add: SIMPLE_CMP_def)

text \<open>
  C15 The hash of a terminated string is a function of its code points, \<open>string_hash\<close>: units of 8, 16 and
  32 bits with the same code points have the same hash.
\<close>

theorem string_hash_coherent:
  "(\<forall>a. code_points a = Some cs \<longrightarrow> pointless_hash_string_v1_32 a = Some (string_hash cs)) \<and>
   (\<forall>b. code_points b = Some cs \<longrightarrow> pointless_hash_unicode_ucs2_v1_32 b = Some (string_hash cs)) \<and>
   (\<forall>c. code_points c = Some cs \<longrightarrow> pointless_hash_unicode_ucs4_v1_32 c = Some (string_hash cs))"
  by (simp add: pointless_hash_string_v1_32_def pointless_hash_unicode_ucs2_v1_32_def
      pointless_hash_unicode_ucs4_v1_32_def python_string_hash_32_eq)

theorem string_hash_coherent_witness:
  "pointless_hash_string_v1_32 [97, 98, 0] = Some (string_hash [97, 98]) \<and>
   pointless_hash_unicode_ucs2_v1_32 [97, 98, 0] = Some (string_hash [97, 98]) \<and>
   pointless_hash_unicode_ucs4_v1_32 [97, 98, 0, 5] = Some (string_hash [97, 98])"
  using string_hash_coherent [of "[97, 98]"] by simp

text \<open>
  Converting a byte string to 32-bit units and back returns the same code points: neither buffer
  overflows, and both results are terminated.
\<close>

theorem ascii_ucs4_round_trip:
  assumes "code_points s = Some cs" and "length cs < 2 ^ 61"
  shows "\<exists>t r. pointless_ascii_to_ucs4 (\<lambda>_. True) s = Some (Some t) \<and> code_points t = Some cs \<and>
           pointless_ucs4_to_ascii (\<lambda>_. True) t = Some (Some r) \<and> code_points r = Some cs"
proof -
  let ?n = "of_nat (length cs) :: u64"
  have n: "unat ?n = length cs" using assms(2) by (simp add: unsigned_of_nat take_bit_nat_eq_self)
  have n1: "unat (?n + 1) = length cs + 1"
    using assms(2) n by (simp add: unat_word_ariths)
  have len: "pointless_ascii_len s = Some ?n"
    using string_len_loop_eq [OF assms(1), of 0] by (simp add: pointless_ascii_len_def)
  define c where "c = intop_sizet_mult (intop_sizet_init (?n + 1)) (intop_sizet_init 4)"
  have c: "\<not> is_overflow c" "unat (intval c) = 4 * (length cs + 1)"
  proof -
    show 1: "\<not> is_overflow c"
      using assms(2) n1 by (simp add: c_def sz.mult_ovf sz.init_ok sz.init_val)
    show "unat (intval c) = 4 * (length cs + 1)"
      using sz.mult_val [OF 1 [unfolded c_def]] n1 by (simp add: c_def sz.init_val)
  qed
  have "\<exists>t. string_conv_loop ucast (replicate (unat (intval c) div 4) (0 :: u32)) s = Some t \<and>
      code_points t = Some cs \<and> length t = length (replicate (unat (intval c) div 4) (0 :: u32))"
    using assms(1) c(2) by (intro string_conv_loop_eq) (simp_all add: ucast_eq_0_up)
  then obtain t where t:
    "string_conv_loop ucast (replicate (unat (intval c) div 4) (0 :: u32)) s = Some t"
    "code_points t = Some cs" by blast
  have "pointless_ascii_to_ucs4 (\<lambda>_. True) s = Some (Some t)"
    using len c(1) t(1) by (simp add: pointless_ascii_to_ucs4_def c_def [symmetric])
  moreover have "pointless_ucs4_len t = Some ?n"
    using string_len_loop_eq [OF t(2), of 0] by (simp add: pointless_ucs4_len_def)
  moreover have "\<exists>r. string_conv_loop ucast (replicate (unat (?n + 1)) (0 :: u8)) t = Some r \<and>
      code_points r = Some cs \<and> length r = length (replicate (unat (?n + 1)) (0 :: u8))"
  proof (rule string_conv_loop_eq [OF t(2)])
    show "length cs < length (replicate (unat (?n + 1)) (0 :: u8))" using n1 by simp
    fix x :: u32
    assume x: "x \<noteq> 0" "ucast x \<in> set cs"
    then have "unat x < 256" using code_points_below [OF assms(1)] by auto
    moreover have "unat (ucast (ucast x :: u8) :: u32) = unat (ucast x :: u8)"
      by (rule unat_ucast_up) simp
    ultimately have "(ucast (ucast x :: u8) :: u32) = x"
      by (simp only: word_unat_eq_iff unat_ucast_u8) simp
    with x(1) show "(ucast x :: u8) \<noteq> 0 \<and> (ucast (ucast x :: u8) :: u32) = ucast x" by auto
  qed
  ultimately show ?thesis using t(2) by (auto simp: pointless_ucs4_to_ascii_def)
qed

theorem ascii_ucs4_round_trip_witness:
  "\<exists>t r. pointless_ascii_to_ucs4 (\<lambda>_. True) [65, 255, 0, 9] = Some (Some t) \<and>
     code_points t = Some [65, 255] \<and>
     pointless_ucs4_to_ascii (\<lambda>_. True) t = Some (Some r) \<and> code_points r = Some [65, 255]"
  by (rule ascii_ucs4_round_trip) simp_all

end
