(* ===== verification/Validate_Value_Laws.thy ===== *)
theory Validate_Value_Laws
  imports Validate_Value Bitvector_Laws Strings_Laws
begin

text \<open>
  What the checks of a single value guarantee: in a handle whose offset vectors and heap lie inside
  the file image, a check never reads outside the image, and a value that passes all three checks
  can be read by every accessor of its type without leaving the image.
\<close>

unbundle bit_operations_syntax

section \<open>Handles whose parts lie inside the image\<close>

definition wf_reader :: "pointless_t \<Rightarrow> bool" where
  "wf_reader p \<longleftrightarrow>
     string_unicode_offsets p + 8 * unat (n_string_unicode (header p)) \<le> length (p_buf p) \<and>
     vector_offsets p + 8 * unat (n_vector (header p)) \<le> length (p_buf p) \<and>
     bitvector_offsets p + 8 * unat (n_bitvector (header p)) \<le> length (p_buf p) \<and>
     set_offsets p + 8 * unat (n_set (header p)) \<le> length (p_buf p) \<and>
     map_offsets p + 8 * unat (n_map (header p)) \<le> length (p_buf p) \<and>
     heap_ptr p + unat (heap_len p) \<le> length (p_buf p)"

definition value_ok :: "pointless_t \<Rightarrow> pointless_value_t \<Rightarrow> bool" where
  "value_ok p v \<longleftrightarrow>
     pointless_validate_heap_ref p v = Inr () \<and> pointless_validate_inline_invariants v = Inr () \<and>
     pointless_validate_heap_value p v = Some (Inr ())"

abbreviation (input) heap_vector_types :: "u32 set" where
  "heap_vector_types \<equiv>
     {POINTLESS_VECTOR_VALUE, POINTLESS_VECTOR_VALUE_HASHABLE, POINTLESS_VECTOR_I8,
      POINTLESS_VECTOR_U8, POINTLESS_VECTOR_I16, POINTLESS_VECTOR_U16, POINTLESS_VECTOR_I32,
      POINTLESS_VECTOR_U32, POINTLESS_VECTOR_I64, POINTLESS_VECTOR_U64, POINTLESS_VECTOR_FLOAT}"

lemma PC_OFFSET_in:
  assumes "offs + 8 * unat n \<le> length (p_buf p)" and "i < n"
  shows "\<exists>off. PC_OFFSET p offs i = Some off"
proof -
  have "unat i < unat n" using assms(2) by (simp add: word_less_nat_alt)
  with assms(1) show ?thesis by (simp add: PC_OFFSET_def)
qed

lemma require_heap_iff:
  "pointless_require_heap p off n \<longleftrightarrow> unat off + unat n \<le> unat (heap_len p)"
proof -
  have "unat (heap_len p) < 2 ^ 64" using unsigned_less [of "heap_len p"] by simp
  then have "unat off + unat n \<le> unat (heap_len p) \<Longrightarrow> unat off + unat n < 2 ^ 64"
    by (rule le_less_trans [rotated])
  then show ?thesis
    unfolding pointless_require_heap_def Let_def word_le_nat_alt
    by (subst u64c.range_end_ok) blast
qed

lemma heap_u32_in:
  assumes "wf_reader p" and "pointless_require_heap p off 4"
  shows "\<exists>n. heap_u32 p off = Some n"
  using assms by (simp add: require_heap_iff wf_reader_def heap_u32_def)

section \<open>Vectors\<close>

lemma n_bytes_value:
  assumes "n_bytes = intop_u64_add (intop_u64_init 4)
                       (intop_u64_mult (intop_u64_init x) (intop_u64_init y))"
    and "\<not> is_overflow n_bytes"
  shows "unat (intval n_bytes) = 4 + unat x * unat y"
  using u64c.header_plus_body_val [OF assms(2) [unfolded assms(1)]] by (simp add: assms(1))

lemma vector_heap_total:
  assumes "wf_reader p" and "v_data v < n_vector (header p)"
  shows "\<exists>r. pointless_validate_vector_heap p v = Some r"
proof -
  obtain off where "PC_OFFSET p (vector_offsets p) (v_data v) = Some off"
    using PC_OFFSET_in [of "vector_offsets p" "n_vector (header p)" p] assms
    by (auto simp: wf_reader_def)
  then show ?thesis
    using heap_u32_in [OF assms(1), of off]
    by (auto simp: pointless_validate_vector_heap_def Let_def)
qed

lemma vector_heap_ok:
  assumes "wf_reader p" and "pointless_validate_vector_heap p v = Some (Inr ())"
  obtains a n where "PC_HEAP_OFFSET p (vector_offsets p) (v_data v) = Some a"
    and "read_u32 (p_buf p) a = Some n"
    and "a + 4 + unat (vector_item_len (v_type v)) * unat n \<le> length (p_buf p)"
proof -
  from assms(2) obtain off n where
    off: "PC_OFFSET p (vector_offsets p) (v_data v) = Some off" and
    n: "heap_u32 p off = Some n" and
    len: "\<not> is_overflow (intop_u64_add (intop_u64_init 4)
            (intop_u64_mult (intop_u64_init (ucast (vector_item_len (v_type v))))
                            (intop_u64_init (ucast n))))"
      "pointless_require_heap p off (intval (intop_u64_add (intop_u64_init 4)
            (intop_u64_mult (intop_u64_init (ucast (vector_item_len (v_type v))))
                            (intop_u64_init (ucast n)))))"
    by (auto simp: pointless_validate_vector_heap_def Let_def elim!: bind_eq_Some_E
        split: if_splits)
  have "unat off + (4 + unat (vector_item_len (v_type v)) * unat n) \<le> unat (heap_len p)"
    using len(2) n_bytes_value [OF refl len(1)] by (simp add: require_heap_iff unat_ucast_up)
  with assms(1) have
    "heap_ptr p + unat off + 4 + unat (vector_item_len (v_type v)) * unat n \<le> length (p_buf p)"
    by (simp add: wf_reader_def)
  moreover have "PC_HEAP_OFFSET p (vector_offsets p) (v_data v) = Some (heap_ptr p + unat off)"
    by (simp add: PC_HEAP_OFFSET_def off)
  ultimately show ?thesis using n that by (simp add: heap_u32_def)
qed

lemma view_le_in:
  assumes "0 < k" and "a + k * n \<le> length buf" and "i < n"
  shows "\<exists>x. arr_get (view_le k buf a) i = Some x"
proof -
  have "k * i + k \<le> k * n" using assms(3) by (metis Suc_leI mult_Suc_right mult_le_mono2 add.commute)
  with assms(1,2) show ?thesis by (simp add: arr_get_view_le read_le_Some_iff)
qed

lemma view_values_in:
  assumes "a + 8 * n \<le> length buf" and "i < n"
  shows "\<exists>x. arr_get (view_values buf a) i = Some x"
  using assms by (simp add: arr_get_view_values read_value_in)

lemma heap_ref_vector:
  "pointless_validate_heap_ref p v = Inr () \<Longrightarrow> v_type v \<in> heap_vector_types \<Longrightarrow>
     v_data v < n_vector (header p)"
  by (auto simp: pointless_validate_heap_ref_def Let_def split: if_splits)

lemma heap_value_vector:
  "v_type v \<in> heap_vector_types \<Longrightarrow>
     pointless_validate_heap_value p v = pointless_validate_vector_heap p v"
  by (simp add: pointless_validate_heap_value_def Let_def)

text \<open>A checked vector has a count, and every item below the count can be read.\<close>

lemma vector_readable:
  assumes wf: "wf_reader p" and ok: "value_ok p v" and t: "v_type v \<in> heap_vector_types"
  obtains a n where "pointless_reader_vector_base_ptr p v = Some (Some a)"
    and "pointless_reader_vector_n_items p v = Some n"
    and "a + unat (vector_item_len (v_type v)) * unat n \<le> length (p_buf p)"
proof -
  have "pointless_validate_vector_heap p v = Some (Inr ())"
    using ok heap_value_vector [OF t] by (simp add: value_ok_def)
  from vector_heap_ok [OF wf this] obtain a n where
    a: "PC_HEAP_OFFSET p (vector_offsets p) (v_data v) = Some a" "read_u32 (p_buf p) a = Some n"
    and len: "a + 4 + unat (vector_item_len (v_type v)) * unat n \<le> length (p_buf p)" by blast
  have ne: "v_type v \<noteq> POINTLESS_VECTOR_EMPTY" using t by auto
  then have "pointless_reader_vector_base_ptr p v = Some (Some (a + 4))"
    using a by (simp add: pointless_reader_vector_base_ptr_def)
  moreover have "pointless_reader_vector_n_items p v = Some n"
    using a ne by (simp add: pointless_reader_vector_n_items_def)
  ultimately show ?thesis using len that by blast
qed

lemma vector_view_in:
  assumes "pointless_reader_vector_base_ptr p v = Some (Some a)"
    and "a + k * n \<le> length (p_buf p)" and "i < n" and "0 < k"
  shows "\<exists>xs x. vector_view k p v = Some xs \<and> arr_get xs i = Some x"
  using assms view_le_in [OF assms(4,2,3)] by (simp add: vector_view_def)

lemma vector_values_in:
  assumes "pointless_reader_vector_base_ptr p v = Some (Some a)"
    and "a + 8 * n \<le> length (p_buf p)" and "i < n"
  shows "\<exists>xs x. pointless_reader_vector_value p v = Some xs \<and> arr_get xs i = Some x"
  using assms view_values_in [OF assms(2,3)] by (simp add: pointless_reader_vector_value_def)

lemmas vector_accessor_defs =
  pointless_reader_vector_i8_def pointless_reader_vector_u8_def pointless_reader_vector_i16_def
  pointless_reader_vector_u16_def pointless_reader_vector_i32_def pointless_reader_vector_u32_def
  pointless_reader_vector_i64_def pointless_reader_vector_u64_def pointless_reader_vector_float_def

lemma vector_item_readable:
  assumes wf: "wf_reader p" and ok: "value_ok p v" and t: "v_type v \<in> heap_vector_types"
    and n: "pointless_reader_vector_n_items p v = Some n" and i: "i < n"
  shows "\<exists>x. pointless_reader_vector_value_case p v i = Some x"
proof -
  from vector_readable [OF wf ok t] n obtain a where
    a: "pointless_reader_vector_base_ptr p v = Some (Some a)"
    and len: "a + unat (vector_item_len (v_type v)) * unat n \<le> length (p_buf p)" by auto
  have i': "unat i < unat n" using i by (simp add: word_less_nat_alt)
  have vv: "\<exists>xs x. pointless_reader_vector_value p v = Some xs \<and> arr_get xs (unat i) = Some x"
    if "unat (vector_item_len (v_type v)) = 8"
    using vector_values_in [OF a _ i'] len that by simp
  from t consider
      "v_type v \<in> {POINTLESS_VECTOR_VALUE, POINTLESS_VECTOR_VALUE_HASHABLE}"
    | "v_type v \<in> {POINTLESS_VECTOR_I8, POINTLESS_VECTOR_U8}"
    | "v_type v \<in> {POINTLESS_VECTOR_I16, POINTLESS_VECTOR_U16}"
    | "v_type v \<in> {POINTLESS_VECTOR_I32, POINTLESS_VECTOR_U32, POINTLESS_VECTOR_FLOAT}"
    | "v_type v \<in> {POINTLESS_VECTOR_I64, POINTLESS_VECTOR_U64}" by blast
  then show ?thesis
  proof cases
    case 1
    then have "unat (vector_item_len (v_type v)) = 8" by (auto simp: vector_item_len_def)
    from vv [OF this] 1 show ?thesis
      by (auto simp: pointless_reader_vector_value_case_def Let_def)
  next
    case 2
    then have l: "unat (vector_item_len (v_type v)) = 1" by (auto simp: vector_item_len_def)
    from vector_view_in [OF a _ i', of 1, where 'a = 8] len l 2 show ?thesis
      by (auto simp: pointless_reader_vector_value_case_def Let_def vector_accessor_defs)
  next
    case 3
    then have l: "unat (vector_item_len (v_type v)) = 2" by (auto simp: vector_item_len_def)
    from vector_view_in [OF a _ i', of 2, where 'a = 16] len l 3 show ?thesis
      by (auto simp: pointless_reader_vector_value_case_def Let_def vector_accessor_defs)
  next
    case 4
    then have l: "unat (vector_item_len (v_type v)) = 4" by (auto simp: vector_item_len_def)
    from vector_view_in [OF a _ i', of 4, where 'a = 32] len l 4 show ?thesis
      by (auto simp: pointless_reader_vector_value_case_def Let_def vector_accessor_defs)
  next
    case 5
    then have l: "unat (vector_item_len (v_type v)) = 8" by (auto simp: vector_item_len_def)
    from vector_view_in [OF a _ i', of 8, where 'a = 64] len l 5 show ?thesis
      by (auto simp: pointless_reader_vector_value_case_def Let_def vector_accessor_defs)
  qed
qed

section \<open>Strings\<close>

lemma string_scan_total: "n < length s \<Longrightarrow> \<exists>r. string_scan e1 e2 s n = Some r"
  by (induction e1 e2 s n rule: string_scan.induct) simp_all

lemma string_scan_ok:
  "string_scan e1 e2 s n = Some (Inr ()) \<Longrightarrow> \<exists>cs. code_points s = Some cs \<and> length cs = n"
  by (induction e1 e2 s n rule: string_scan.induct) (auto split: if_splits)

lemma unat_string_units: "unat (ucast (n :: u32) + 1 :: u64) = unat n + 1"
proof -
  have "unat n < 4294967296" by simp
  then have "unat n + 1 < 18446744073709551616" by linarith
  then show ?thesis by (simp add: unat_word_ariths unat_ucast_up)
qed

text \<open>The view of the units of a string whose body is inside the heap reaches past its length.\<close>

lemma string_units:
  assumes "wf_reader p" and "0 < k"
    and "n_bytes = intop_u64_add (intop_u64_init 4)
           (intop_u64_mult (intop_u64_init (ucast n + 1)) (intop_u64_init (of_nat k)))"
    and "\<not> is_overflow n_bytes" and "pointless_require_heap p off (intval n_bytes)"
    and "k < 2 ^ 64"
  shows "heap_ptr p + unat off + 4 + k * (unat (n :: u32) + 1) \<le> length (p_buf p)"
proof -
  have "unat (of_nat k :: u64) = k" using assms(6) by (simp add: unsigned_of_nat take_bit_nat_eq_self)
  then have "unat off + (4 + (unat n + 1) * k) \<le> unat (heap_len p)"
    using n_bytes_value [OF assms(3,4)] assms(5) by (simp add: require_heap_iff unat_string_units)
  with assms(1) show ?thesis by (simp add: wf_reader_def algebra_simps)
qed

lemma view_le_longer:
  assumes "0 < k" and "a + k * (n + 1) \<le> length buf"
  shows "n < length (view_le k buf a :: 'a::len word list)"
  using view_le_in [OF assms, of n, where 'a = 'a] by (auto simp: arr_get_Some_iff)

lemma view_le_bytes: "view_le 1 buf a = (drop a buf :: u8 list)"
proof (rule nth_equalityI)
  show len: "length (view_le 1 buf a :: u8 list) = length (drop a buf)"
    by (simp add: length_view_le)
  fix i
  assume i: "i < length (view_le 1 buf a :: u8 list)"
  then have "a + i < length buf" using len by simp
  moreover from this have "take 1 (drop (a + i) buf) = [buf ! (a + i)]"
    by (simp add: take_Suc_conv_app_nth Cons_nth_drop_Suc [symmetric])
  ultimately have "arr_get (view_le 1 buf a :: u8 list) i = Some (buf ! (a + i))"
    by (simp add: arr_get_view_le)
  then show "(view_le 1 buf a :: u8 list) ! i = drop a buf ! i"
    using i len by (auto simp: arr_get_Some_iff nth_drop)
qed

lemma unicode_heap_total:
  assumes "wf_reader p" and "v_data v < n_string_unicode (header p)"
  shows "\<exists>r. pointless_validate_unicode_heap p v = Some r"
proof -
  obtain off where off: "PC_OFFSET p (string_unicode_offsets p) (v_data v) = Some off"
    using PC_OFFSET_in [of "string_unicode_offsets p" "n_string_unicode (header p)" p] assms
    by (auto simp: wf_reader_def)
  have "\<exists>r. string_scan e1 e2 (view_le 4 (p_buf p) (heap_ptr p + unat off + 4) :: u32 list)
             (unat n) = Some r"
    if "\<not> is_overflow (intop_u64_add (intop_u64_init 4)
            (intop_u64_mult (intop_u64_init (ucast n + 1)) (intop_u64_init 4)))"
      "pointless_require_heap p off (intval (intop_u64_add (intop_u64_init 4)
            (intop_u64_mult (intop_u64_init (ucast n + 1)) (intop_u64_init 4))))" for e1 e2 and n :: u32
    using string_units [OF assms(1) _ refl, of 4 n off] that
    by (intro string_scan_total view_le_longer) simp_all
  then show ?thesis
    using off heap_u32_in [OF assms(1), of off]
    by (auto simp: pointless_validate_unicode_heap_def Let_def)
qed

lemma string_heap_total:
  assumes "wf_reader p" and "v_data v < n_string_unicode (header p)"
  shows "\<exists>r. pointless_validate_string_heap p v = Some r"
proof -
  obtain off where off: "PC_OFFSET p (string_unicode_offsets p) (v_data v) = Some off"
    using PC_OFFSET_in [of "string_unicode_offsets p" "n_string_unicode (header p)" p] assms
    by (auto simp: wf_reader_def)
  have "\<exists>r. string_scan e1 e2 (drop (heap_ptr p + unat off + 4) (p_buf p)) (unat n) = Some r"
    if "\<not> is_overflow (intop_u64_add (intop_u64_init 4)
            (intop_u64_mult (intop_u64_init (ucast n + 1)) (intop_u64_init 1)))"
      "pointless_require_heap p off (intval (intop_u64_add (intop_u64_init 4)
            (intop_u64_mult (intop_u64_init (ucast n + 1)) (intop_u64_init 1))))" for e1 e2 and n :: u32
    using string_units [OF assms(1) _ refl, of 1 n off] that
    by (intro string_scan_total) (simp add: of_nat_1)
  then show ?thesis
    using off heap_u32_in [OF assms(1), of off]
    by (auto simp: pointless_validate_string_heap_def Let_def)
qed

text \<open>A checked string is terminated, at exactly the length its header states.\<close>

lemma unicode_readable:
  assumes "value_ok p v" and "v_type v = POINTLESS_UNICODE"
  shows "\<exists>s cs n. pointless_reader_unicode_value_ucs4 p v = Some s \<and>
    pointless_reader_unicode_len p v = Some n \<and> code_points s = Some cs \<and> length cs = unat n"
proof -
  have "pointless_validate_unicode_heap p v = Some (Inr ())"
    using assms by (simp add: value_ok_def pointless_validate_heap_value_def Let_def)
  then obtain off n where
    "PC_OFFSET p (string_unicode_offsets p) (v_data v) = Some off" "heap_u32 p off = Some n"
    "string_scan ''premature end-of-unicode'' ''missing end-of-unicode''
       (view_le 4 (p_buf p) (heap_ptr p + unat off + 4) :: u32 list) (unat n) = Some (Inr ())"
    by (auto simp: pointless_validate_unicode_heap_def Let_def elim!: bind_eq_Some_E
        split: if_splits)
  then show ?thesis
    using string_scan_ok by (fastforce simp: pointless_reader_unicode_value_ucs4_def
        pointless_reader_unicode_value_def pointless_reader_unicode_len_def PC_HEAP_OFFSET_def
        heap_u32_def)
qed

lemma string_readable:
  assumes "value_ok p v" and "v_type v = POINTLESS_STRING"
  shows "\<exists>s cs n. pointless_reader_string_value_ascii p v = Some s \<and>
    pointless_reader_string_len p v = Some n \<and> code_points s = Some cs \<and> length cs = unat n"
proof -
  have "pointless_validate_string_heap p v = Some (Inr ())"
    using assms by (simp add: value_ok_def pointless_validate_heap_value_def Let_def)
  then obtain off n where
    "PC_OFFSET p (string_unicode_offsets p) (v_data v) = Some off" "heap_u32 p off = Some n"
    "string_scan ''premature end-of-string'' ''missing end-of-string''
       (drop (heap_ptr p + unat off + 4) (p_buf p)) (unat n) = Some (Inr ())"
    by (auto simp: pointless_validate_string_heap_def Let_def elim!: bind_eq_Some_E
        split: if_splits)
  then show ?thesis
    using string_scan_ok by (fastforce simp: pointless_reader_string_value_ascii_def
        pointless_reader_string_len_def PC_HEAP_OFFSET_def heap_u32_def)
qed

section \<open>Bitvectors\<close>

lemma bitvector_heap_total:
  assumes "wf_reader p" and "v_data v < n_bitvector (header p)"
  shows "\<exists>r. pointless_validate_bitvector_heap p v = Some r"
proof -
  obtain off where "PC_OFFSET p (bitvector_offsets p) (v_data v) = Some off"
    using PC_OFFSET_in [of "bitvector_offsets p" "n_bitvector (header p)" p] assms
    by (auto simp: wf_reader_def)
  then show ?thesis
    using heap_u32_in [OF assms(1), of off] by (auto simp: pointless_validate_bitvector_heap_def)
qed

lemma unat_bitvector_bytes: "unat (4 + ucast (ICEIL (n :: u32) 8) :: u64) = 4 + (unat n + 7) div 8"
proof -
  have "unat n < 4294967296" by simp
  then have "4 + (unat n + 7) div 8 < 18446744073709551616" by linarith
  moreover have "unat (ucast (ICEIL n 8) :: u64) = (unat n + 7) div 8"
    by (simp add: unat_ucast_up unat_ICEIL_8)
  ultimately show ?thesis by (simp add: unat_word_ariths)
qed

lemma bitvector_heap_readable:
  assumes "wf_reader p" and "value_ok p v" and "v_type v = POINTLESS_BITVECTOR"
  shows "\<exists>n. pointless_reader_bitvector_n_bits p v = Some n \<and>
    (\<forall>i < n. \<exists>b. pointless_reader_bitvector_is_set p v i = Some b)"
proof -
  have "pointless_validate_bitvector_heap p v = Some (Inr ())"
    using assms(2,3) by (simp add: value_ok_def pointless_validate_heap_value_def Let_def)
  then obtain off n where off: "PC_OFFSET p (bitvector_offsets p) (v_data v) = Some off"
    and n: "heap_u32 p off = Some n"
    and len: "pointless_require_heap p off (4 + ucast (ICEIL n 8))"
    by (auto simp: pointless_validate_bitvector_heap_def elim!: bind_eq_Some_E split: if_splits)
  let ?buf = "drop (heap_ptr p + unat off) (p_buf p)"
  have b: "reader_buffer_or_null p v = Some ?buf"
    using assms(3) off by (simp add: reader_buffer_or_null_def pointless_reader_bitvector_buffer_def
        PC_HEAP_OFFSET_def)
  have "heap_ptr p + unat off + (4 + (unat n + 7) div 8) \<le> length (p_buf p)"
    using len assms(1) by (simp add: require_heap_iff unat_bitvector_bytes wf_reader_def)
  then have blen: "4 + (unat n + 7) div 8 \<le> length ?buf" by simp
  have "read_u32 ?buf 0 = Some n"
    using n blen by (simp add: heap_u32_def read_le_def split: if_splits)
  then have "pointless_reader_bitvector_n_bits p v = Some n"
    using b assms(3) by (simp add: pointless_reader_bitvector_n_bits_def
        pointless_bitvector_n_bits_def)
  moreover have "\<exists>b. pointless_reader_bitvector_is_set p v i = Some b" if "i < n" for i
  proof -
    have "unat (ucast i :: u64) < 8 * length (drop 4 ?buf)"
      using that blen by (simp add: unat_ucast_up word_less_nat_alt)
    from bm_is_set_eq [OF this] show ?thesis
      using b assms(3) by (auto simp: pointless_reader_bitvector_is_set_def
          pointless_bitvector_is_set_def bits_of_buffer_def pointless_bitvector_bits_def
          pointless_bitvector_is_set_bits_def)
  qed
  ultimately show ?thesis by blast
qed

lemma packed_readable:
  assumes "value_ok p v" and "v_type v = POINTLESS_BITVECTOR_PACKED"
    and "i < bitvector_packed_n_bits (v_data v)"
  shows "\<exists>b. bm_is_set (le_bytes 4 (v_data v)) (ucast (i + 5)) = Some b"
proof -
  have "\<not> 27 < bitvector_packed_n_bits (v_data v)"
    using assms(1,2) by (simp add: value_ok_def pointless_validate_inline_invariants_def Let_def
        split: if_splits)
  then have "unat i < 27" using assms(3) by (simp add: word_less_nat_alt not_less word_le_nat_alt)
  then have "unat (i + 5) = unat i + 5" by (simp add: unat_word_ariths)
  then have "unat (ucast (i + 5) :: u64) < 8 * length (le_bytes 4 (v_data v))"
    using \<open>unat i < 27\<close> by (simp add: unat_ucast_up)
  then show ?thesis using bm_is_set_eq by blast
qed

lemma bitvector_readable:
  assumes "wf_reader p" and "value_ok p v" and "pointless_is_bitvector_type (v_type v)"
  shows "\<exists>n. pointless_reader_bitvector_n_bits p v = Some n \<and>
    (\<forall>i < n. \<exists>b. pointless_reader_bitvector_is_set p v i = Some b)"
proof (cases "v_type v = POINTLESS_BITVECTOR")
  case True
  then show ?thesis by (rule bitvector_heap_readable [OF assms(1,2)])
next
  case False
  then have b: "reader_buffer_or_null p v = Some []" by (simp add: reader_buffer_or_null_def)
  show ?thesis
  proof (cases "v_type v = POINTLESS_BITVECTOR_PACKED")
    case True
    then show ?thesis
      using b packed_readable [OF assms(2) True]
      by (auto simp: pointless_reader_bitvector_n_bits_def pointless_bitvector_n_bits_def
          pointless_reader_bitvector_is_set_def pointless_bitvector_is_set_def
          pointless_bitvector_is_set_bits_def)
  next
    case nf: False
    from assms(3) False nf have "v_type v \<in> {POINTLESS_BITVECTOR_0, POINTLESS_BITVECTOR_1,
        POINTLESS_BITVECTOR_01, POINTLESS_BITVECTOR_10}"
      by (auto simp: pointless_is_bitvector_type_def)
    then show ?thesis
      using b by (auto simp: pointless_reader_bitvector_n_bits_def pointless_bitvector_n_bits_def
          pointless_reader_bitvector_is_set_def pointless_bitvector_is_set_def
          pointless_bitvector_is_set_bits_def)
  qed
qed

section \<open>Sets and maps\<close>

lemma set_heap_total:
  assumes "wf_reader p" and "v_data v < n_set (header p)"
  shows "\<exists>r. pointless_validate_set_heap p v = Some r"
proof -
  obtain off where off: "PC_OFFSET p (set_offsets p) (v_data v) = Some off"
    using PC_OFFSET_in [of "set_offsets p" "n_set (header p)" p] assms
    by (auto simp: wf_reader_def)
  have "\<exists>h. read_set_header (p_buf p) (heap_ptr p + unat off) = Some h"
    if "pointless_require_heap p off 24"
    using that assms(1) by (intro read_set_header_in) (simp add: require_heap_iff wf_reader_def)
  then show ?thesis using off by (auto simp: pointless_validate_set_heap_def)
qed

lemma map_heap_total:
  assumes "wf_reader p" and "v_data v < n_map (header p)"
  shows "\<exists>r. pointless_validate_map_heap p v = Some r"
proof -
  obtain off where off: "PC_OFFSET p (map_offsets p) (v_data v) = Some off"
    using PC_OFFSET_in [of "map_offsets p" "n_map (header p)" p] assms
    by (auto simp: wf_reader_def)
  have "\<exists>h. read_map_header (p_buf p) (heap_ptr p + unat off) = Some h"
    if "pointless_require_heap p off 32"
    using that assms(1) by (intro read_map_header_in) (simp add: require_heap_iff wf_reader_def)
  then show ?thesis using off by (auto simp: pointless_validate_map_heap_def)
qed

lemma set_readable:
  assumes "value_ok p v" and "v_type v = POINTLESS_SET_VALUE"
  shows "\<exists>h. set_header_at p v = Some h \<and> v_type (sh_hash_vector h) = POINTLESS_VECTOR_U32 \<and>
    v_type (sh_key_vector h) = POINTLESS_VECTOR_VALUE_HASHABLE"
proof -
  have "pointless_validate_set_heap p v = Some (Inr ())"
    using assms by (simp add: value_ok_def pointless_validate_heap_value_def Let_def)
  then show ?thesis
    by (auto simp: pointless_validate_set_heap_def set_header_at_def PC_HEAP_OFFSET_def
        elim!: bind_eq_Some_E split: if_splits)
qed

lemma map_readable:
  assumes "value_ok p v" and "v_type v = POINTLESS_MAP_VALUE_VALUE"
  shows "\<exists>h. map_header_at p v = Some h \<and> v_type (mh_hash_vector h) = POINTLESS_VECTOR_U32 \<and>
    v_type (mh_key_vector h) = POINTLESS_VECTOR_VALUE_HASHABLE \<and>
    v_type (mh_value_vector h) \<in> {POINTLESS_VECTOR_VALUE, POINTLESS_VECTOR_VALUE_HASHABLE}"
proof -
  have "pointless_validate_map_heap p v = Some (Inr ())"
    using assms by (simp add: value_ok_def pointless_validate_heap_value_def Let_def)
  then show ?thesis
    by (auto simp: pointless_validate_map_heap_def map_header_at_def PC_HEAP_OFFSET_def
        elim!: bind_eq_Some_E split: if_splits)
qed

section \<open>All values\<close>

lemma heap_ref_in:
  assumes "pointless_validate_heap_ref p v = Inr ()"
  shows "v_type v \<in> {POINTLESS_UNICODE, POINTLESS_STRING} \<Longrightarrow> v_data v < n_string_unicode (header p)"
    and "v_type v = POINTLESS_BITVECTOR \<Longrightarrow> v_data v < n_bitvector (header p)"
    and "v_type v = POINTLESS_SET_VALUE \<Longrightarrow> v_data v < n_set (header p)"
    and "v_type v = POINTLESS_MAP_VALUE_VALUE \<Longrightarrow> v_data v < n_map (header p)"
  using assms by (auto simp: pointless_validate_heap_ref_def Let_def split: if_splits)

text \<open>The check of the heap data never reads outside the image once the reference is checked.\<close>

lemma heap_value_total:
  assumes wf: "wf_reader p" and ref: "pointless_validate_heap_ref p v = Inr ()"
  shows "\<exists>r. pointless_validate_heap_value p v = Some r"
proof -
  note total = vector_heap_total [OF wf heap_ref_vector [OF ref]]
    unicode_heap_total [OF wf heap_ref_in(1) [OF ref]]
    string_heap_total [OF wf heap_ref_in(1) [OF ref]]
    bitvector_heap_total [OF wf heap_ref_in(2) [OF ref]]
    set_heap_total [OF wf heap_ref_in(3) [OF ref]] map_heap_total [OF wf heap_ref_in(4) [OF ref]]
  show ?thesis
    unfolding pointless_validate_heap_value_def Let_def
    using total by (cases "v_type v \<in> heap_vector_types") simp_all
qed

text \<open>What the reader's accessors promise of a value.\<close>

definition readable :: "pointless_t \<Rightarrow> pointless_value_t \<Rightarrow> bool" where
  "readable p v \<longleftrightarrow>
     (pointless_is_vector_type (v_type v) \<longrightarrow>
        (\<exists>n. pointless_reader_vector_n_items p v = Some n \<and>
           (\<forall>i < n. \<exists>x. pointless_reader_vector_value_case p v i = Some x))) \<and>
     (pointless_is_bitvector_type (v_type v) \<longrightarrow>
        (\<exists>n. pointless_reader_bitvector_n_bits p v = Some n \<and>
           (\<forall>i < n. \<exists>b. pointless_reader_bitvector_is_set p v i = Some b))) \<and>
     (v_type v = POINTLESS_UNICODE \<longrightarrow>
        (\<exists>s cs n. pointless_reader_unicode_value_ucs4 p v = Some s \<and>
           pointless_reader_unicode_len p v = Some n \<and> code_points s = Some cs \<and>
           length cs = unat n)) \<and>
     (v_type v = POINTLESS_STRING \<longrightarrow>
        (\<exists>s cs n. pointless_reader_string_value_ascii p v = Some s \<and>
           pointless_reader_string_len p v = Some n \<and> code_points s = Some cs \<and>
           length cs = unat n)) \<and>
     (v_type v = POINTLESS_SET_VALUE \<longrightarrow> (\<exists>n. pointless_reader_set_n_items p v = Some n)) \<and>
     (v_type v = POINTLESS_MAP_VALUE_VALUE \<longrightarrow> (\<exists>n. pointless_reader_map_n_items p v = Some n))"

lemma value_ok_readable:
  assumes wf: "wf_reader p" and ok: "value_ok p v"
  shows "readable p v"
  unfolding readable_def
proof (intro conjI impI)
  assume "pointless_is_vector_type (v_type v)"
  then consider "v_type v = POINTLESS_VECTOR_EMPTY" | "v_type v \<in> heap_vector_types"
    by (auto simp: pointless_is_vector_type_def)
  then show "\<exists>n. pointless_reader_vector_n_items p v = Some n \<and>
      (\<forall>i < n. \<exists>x. pointless_reader_vector_value_case p v i = Some x)"
  proof cases
    case 1
    then show ?thesis by (simp add: pointless_reader_vector_n_items_def)
  next
    case 2
    from vector_readable [OF wf ok 2] obtain n where
      "pointless_reader_vector_n_items p v = Some n" by metis
    with vector_item_readable [OF wf ok 2 this] show ?thesis by blast
  qed
next
  assume "v_type v = POINTLESS_SET_VALUE"
  from set_readable [OF ok this] show "\<exists>n. pointless_reader_set_n_items p v = Some n"
    by (auto simp: pointless_reader_set_n_items_def)
next
  assume "v_type v = POINTLESS_MAP_VALUE_VALUE"
  from map_readable [OF ok this] show "\<exists>n. pointless_reader_map_n_items p v = Some n"
    by (auto simp: pointless_reader_map_n_items_def)
qed (use bitvector_readable [OF wf ok] unicode_readable [OF ok] string_readable [OF ok] in blast)+

end
