(* ===== verification/Walk_Laws.thy ===== *)
theory Walk_Laws
  imports Validate Validate_Value_Laws
begin

text \<open>
  The walk of a validation pass: the values reachable from the root, the nodes the visited masks
  stand for, and the argument, made once for every pass, that a walk which ends without an error has
  checked every reachable value.
\<close>

section \<open>Children and reachability\<close>

definition children :: "pointless_t \<Rightarrow> pointless_value_t \<Rightarrow> pointless_value_t list option" where
  "children p v =
     (if v_type v \<in> {POINTLESS_VECTOR_VALUE, POINTLESS_VECTOR_VALUE_HASHABLE} then
        do { n \<leftarrow> pointless_reader_vector_n_items p v;
             xs \<leftarrow> pointless_reader_vector_value p v;
             if unat n \<le> length xs then Some (take (unat n) xs) else None }
      else if v_type v = POINTLESS_SET_VALUE then
        do { h \<leftarrow> set_header_at p v; Some [sh_hash_vector h, sh_key_vector h] }
      else if v_type v = POINTLESS_MAP_VALUE_VALUE then
        do { h \<leftarrow> map_header_at p v;
             Some [mh_hash_vector h, mh_key_vector h, mh_value_vector h] }
      else Some [])"

inductive reachable :: "pointless_t \<Rightarrow> pointless_value_t \<Rightarrow> bool" for p where
  root: "reachable p (pointless_root p)"
| child: "reachable p v \<Longrightarrow> children p v = Some cs \<Longrightarrow> c \<in> set cs \<Longrightarrow> reachable p c"

lemma value_ok_children:
  assumes wf: "wf_reader p" and ok: "value_ok p v"
  shows "\<exists>cs. children p v = Some cs"
proof -
  consider "v_type v \<in> {POINTLESS_VECTOR_VALUE, POINTLESS_VECTOR_VALUE_HASHABLE}"
    | "v_type v = POINTLESS_SET_VALUE" | "v_type v = POINTLESS_MAP_VALUE_VALUE"
    | "v_type v \<notin> {POINTLESS_VECTOR_VALUE, POINTLESS_VECTOR_VALUE_HASHABLE, POINTLESS_SET_VALUE,
         POINTLESS_MAP_VALUE_VALUE}" by blast
  then show ?thesis
  proof cases
    case 1
    then have t: "v_type v \<in> heap_vector_types" and l: "unat (vector_item_len (v_type v)) = 8"
      by (auto simp: vector_item_len_def)
    from vector_readable [OF wf ok t] l obtain a n where
      a: "pointless_reader_vector_base_ptr p v = Some (Some a)"
      "pointless_reader_vector_n_items p v = Some n" "a + 8 * unat n \<le> length (p_buf p)" by metis
    then have "unat n \<le> length (view_values (p_buf p) a)"
      by (simp add: view_values_def length_chunks)
    with a 1 show ?thesis by (simp add: children_def pointless_reader_vector_value_def)
  next
    case 2
    from set_readable [OF ok 2] show ?thesis using 2 by (auto simp: children_def)
  next
    case 3
    from map_readable [OF ok 3] show ?thesis using 3 by (auto simp: children_def)
  next
    case 4
    then show ?thesis by (simp add: children_def)
  qed
qed

section \<open>The nodes of the walk\<close>

text \<open>
  A container is known to the walk by its kind and its index; a node stands for every value that
  names it (a value vector may be named by both of its types).
\<close>

definition node :: "pointless_value_t \<Rightarrow> (nat \<times> nat) option" where
  "node v =
     (if v_type v \<in> {POINTLESS_VECTOR_VALUE, POINTLESS_VECTOR_VALUE_HASHABLE}
        then Some (0, unat (v_data v))
      else if v_type v = POINTLESS_SET_VALUE then Some (1, unat (v_data v))
      else if v_type v = POINTLESS_MAP_VALUE_VALUE then Some (2, unat (v_data v))
      else None)"

definition nodes :: "pointless_validate_state_t \<Rightarrow> (nat \<times> nat) set" where
  "nodes s = Pair 0 ` bm.marked (vs_vector s) \<union> Pair 1 ` bm.marked (vs_set s) \<union>
             Pair 2 ` bm.marked (vs_map s)"

lemma same_node:
  assumes "node v = Some k" and "node w = Some k"
  shows "value_ok p v = value_ok p w" and "children p v = children p w"
proof -
  have d: "v_data v = v_data w"
    using assms by (auto simp: node_def word_unat_eq_iff split: if_splits)
  have t: "v_type v = v_type w \<or>
      v_type v \<in> {POINTLESS_VECTOR_VALUE, POINTLESS_VECTOR_VALUE_HASHABLE} \<and>
      v_type w \<in> {POINTLESS_VECTOR_VALUE, POINTLESS_VECTOR_VALUE_HASHABLE}"
    using assms by (auto simp: node_def split: if_splits)
  then show "value_ok p v = value_ok p w"
  proof
    assume "v_type v = v_type w"
    with d have "v = w" by simp
    then show ?thesis by simp
  next
    assume t: "v_type v \<in> {POINTLESS_VECTOR_VALUE, POINTLESS_VECTOR_VALUE_HASHABLE} \<and>
      v_type w \<in> {POINTLESS_VECTOR_VALUE, POINTLESS_VECTOR_VALUE_HASHABLE}"
    then have "vector_item_len (v_type v) = vector_item_len (v_type w)"
      by (auto simp: vector_item_len_def)
    with d have "pointless_validate_vector_heap p v = pointless_validate_vector_heap p w"
      by (simp only: pointless_validate_vector_heap_def)
    moreover have "pointless_validate_heap_ref p v = pointless_validate_heap_ref p w"
      "pointless_validate_inline_invariants v = pointless_validate_inline_invariants w"
      using t d by (elim conjE insertE emptyE;
          simp add: pointless_validate_heap_ref_def pointless_validate_inline_invariants_def)+
    moreover have "v_type v \<in> heap_vector_types" "v_type w \<in> heap_vector_types" using t by auto
    ultimately show ?thesis by (simp only: value_ok_def heap_value_vector)
  qed
  from t show "children p v = children p w"
  proof
    assume "v_type v = v_type w"
    with d have "v = w" by simp
    then show ?thesis by simp
  next
    assume t: "v_type v \<in> {POINTLESS_VECTOR_VALUE, POINTLESS_VECTOR_VALUE_HASHABLE} \<and>
      v_type w \<in> {POINTLESS_VECTOR_VALUE, POINTLESS_VECTOR_VALUE_HASHABLE}"
    with d have "pointless_reader_vector_n_items p v = pointless_reader_vector_n_items p w"
      "pointless_reader_vector_base_ptr p v = pointless_reader_vector_base_ptr p w"
      by (auto simp: pointless_reader_vector_n_items_def pointless_reader_vector_base_ptr_def)
    with t show ?thesis by (auto simp: children_def pointless_reader_vector_value_def)
  qed
qed

text \<open>The masks are as long as the header asks for, so every checked index has its bit.\<close>

definition masks_ok :: "pointless_t \<Rightarrow> pointless_validate_state_t \<Rightarrow> bool" where
  "masks_ok p s \<longleftrightarrow>
     unat (n_vector (header p)) \<le> 8 * length (vs_vector s) \<and>
     unat (n_set (header p)) \<le> 8 * length (vs_set s) \<and>
     unat (n_map (header p)) \<le> 8 * length (vs_map s)"

lemma mark_bit:
  assumes "unat i < 8 * length m"
  shows "\<exists>b. bm_is_set m i = Some b \<and> (b \<noteq> 0 \<longleftrightarrow> unat i \<in> bm.marked m)"
    and "\<exists>m'. bm_set m i = Some m' \<and> length m' = length m \<and>
           bm.marked m' = insert (unat i) (bm.marked m)"
proof -
  show "\<exists>b. bm_is_set m i = Some b \<and> (b \<noteq> 0 \<longleftrightarrow> unat i \<in> bm.marked m)"
    using bm_is_set_eq [OF assms] bm.mem_marked [OF assms] by auto
  obtain m' where m': "bm_set m i = Some m'" "length m' = length m"
    using bm_set_eq [OF assms] by blast
  with bm.marked_set [OF m'(1) assms] show "\<exists>m'. bm_set m i = Some m' \<and> length m' = length m \<and>
      bm.marked m' = insert (unat i) (bm.marked m)" by blast
qed

lemma mark_visited_cases:
  assumes ref: "pointless_validate_heap_ref p v = Inr ()" and m: "masks_ok p s"
  obtains (inline) "node v = None" "mark_visited v s = Some (Inr s)"
  | (known) k where "node v = Some k" "k \<in> nodes s" "mark_visited v s = Some (Inl ())"
  | (new) k s' where "node v = Some k" "k \<notin> nodes s" "mark_visited v s = Some (Inr s')"
      "nodes s' = insert k (nodes s)" "masks_ok p s'" "vs_pass s' = vs_pass s"
      "vs_error s' = vs_error s"
proof -
  let ?d = "ucast (v_data v) :: u64"
  have d: "unat ?d = unat (v_data v)" by (simp add: unat_ucast_up)
  consider (vec) "v_type v \<in> {POINTLESS_VECTOR_VALUE, POINTLESS_VECTOR_VALUE_HASHABLE}"
    | (set) "v_type v = POINTLESS_SET_VALUE" | (map) "v_type v = POINTLESS_MAP_VALUE_VALUE"
    | (other) "v_type v \<notin> {POINTLESS_VECTOR_VALUE, POINTLESS_VECTOR_VALUE_HASHABLE,
         POINTLESS_SET_VALUE, POINTLESS_MAP_VALUE_VALUE}" by blast
  then show thesis
  proof cases
    case vec
    then have "v_type v \<in> heap_vector_types" by auto
    from heap_ref_vector [OF ref this] have b: "unat ?d < 8 * length (vs_vector s)"
      using m by (simp add: d word_less_nat_alt masks_ok_def)
    have n: "node v = Some (0, unat (v_data v))" using vec by (auto simp: node_def)
    obtain x where x: "bm_is_set (vs_vector s) ?d = Some x"
      "x \<noteq> 0 \<longleftrightarrow> unat (v_data v) \<in> bm.marked (vs_vector s)" using mark_bit(1) [OF b] d by auto
    have k: "(0, unat (v_data v)) \<in> nodes s \<longleftrightarrow> x \<noteq> 0" using x(2) by (auto simp: nodes_def)
    obtain mk where mk: "bm_set (vs_vector s) ?d = Some mk" "length mk = length (vs_vector s)"
      "bm.marked mk = insert (unat (v_data v)) (bm.marked (vs_vector s))"
      using mark_bit(2) [OF b] d by auto
    show thesis
    proof (cases "x \<noteq> 0")
      case True
      then show ?thesis using known [OF n] k vec x(1) by (auto simp: mark_visited_def)
    next
      case False
      then show ?thesis using new [OF n, of "s\<lparr>vs_vector := mk\<rparr>"] k vec x(1) mk m
        by (auto simp: mark_visited_def nodes_def masks_ok_def)
    qed
  next
    case set
    have b: "unat ?d < 8 * length (vs_set s)"
      using heap_ref_in(3) [OF ref set] m by (simp add: d word_less_nat_alt masks_ok_def)
    have n: "node v = Some (1, unat (v_data v))" using set by (simp add: node_def)
    obtain x where x: "bm_is_set (vs_set s) ?d = Some x"
      "x \<noteq> 0 \<longleftrightarrow> unat (v_data v) \<in> bm.marked (vs_set s)" using mark_bit(1) [OF b] d by auto
    have k: "(1, unat (v_data v)) \<in> nodes s \<longleftrightarrow> x \<noteq> 0" using x(2) by (auto simp: nodes_def)
    obtain mk where mk: "bm_set (vs_set s) ?d = Some mk" "length mk = length (vs_set s)"
      "bm.marked mk = insert (unat (v_data v)) (bm.marked (vs_set s))"
      using mark_bit(2) [OF b] d by auto
    show thesis
    proof (cases "x \<noteq> 0")
      case True
      then show ?thesis using known [OF n] k set x(1) by (auto simp: mark_visited_def)
    next
      case False
      then show ?thesis using new [OF n, of "s\<lparr>vs_set := mk\<rparr>"] k set x(1) mk m
        by (auto simp: mark_visited_def nodes_def masks_ok_def)
    qed
  next
    case map
    have b: "unat ?d < 8 * length (vs_map s)"
      using heap_ref_in(4) [OF ref map] m by (simp add: d word_less_nat_alt masks_ok_def)
    have n: "node v = Some (2, unat (v_data v))" using map by (simp add: node_def)
    obtain x where x: "bm_is_set (vs_map s) ?d = Some x"
      "x \<noteq> 0 \<longleftrightarrow> unat (v_data v) \<in> bm.marked (vs_map s)" using mark_bit(1) [OF b] d by auto
    have k: "(2, unat (v_data v)) \<in> nodes s \<longleftrightarrow> x \<noteq> 0" using x(2) by (auto simp: nodes_def)
    obtain mk where mk: "bm_set (vs_map s) ?d = Some mk" "length mk = length (vs_map s)"
      "bm.marked mk = insert (unat (v_data v)) (bm.marked (vs_map s))"
      using mark_bit(2) [OF b] d by auto
    show thesis
    proof (cases "x \<noteq> 0")
      case True
      then show ?thesis using known [OF n] k map x(1) by (auto simp: mark_visited_def)
    next
      case False
      then show ?thesis using new [OF n, of "s\<lparr>vs_map := mk\<rparr>"] k map x(1) mk m
        by (auto simp: mark_visited_def nodes_def masks_ok_def)
    qed
  next
    case other
    then show ?thesis by (intro inline) (auto simp: node_def mark_visited_def)
  qed
qed

section \<open>The walk\<close>

lemma walk_children_index:
  assumes "\<forall>i \<in> set is. i < length xs"
  shows "walk_children (\<lambda>i u. do { x \<leftarrow> arr_get xs i; f x u }) is u = walk_children f (map ((!) xs) is) u"
  using assms
proof (induction "is" arbitrary: u)
  case (Cons i "is")
  then have "walk_children (\<lambda>i u. do { x \<leftarrow> arr_get xs i; f x u }) is =
      walk_children f (map ((!) xs) is)" by (simp add: fun_eq_iff)
  with Cons.prems show ?case by (simp cong: if_cong)
qed simp

lemma map_nth_take: "n \<le> length xs \<Longrightarrow> map ((!) xs) [0..<n] = take n xs"
  by (rule nth_equalityI) simp_all

text \<open>When the callback asks for the children, the walk goes through the list of them.\<close>

lemma walk_visit:
  assumes "cb p v depth s = Some (0, u)" and "children p v = Some cs"
  shows "pointless_walk_priv (Suc fuel) p v depth cb s =
           walk_children (\<lambda>x u. pointless_walk_priv fuel p x (depth + 1) cb u) cs u"
proof -
  consider (vec) "v_type v \<in> {POINTLESS_VECTOR_VALUE, POINTLESS_VECTOR_VALUE_HASHABLE}"
    | (set) "v_type v = POINTLESS_SET_VALUE" | (map) "v_type v = POINTLESS_MAP_VALUE_VALUE"
    | (other) "v_type v \<notin> {POINTLESS_VECTOR_VALUE, POINTLESS_VECTOR_VALUE_HASHABLE,
         POINTLESS_SET_VALUE, POINTLESS_MAP_VALUE_VALUE}" by blast
  then show ?thesis
  proof cases
    case vec
    from assms(2) vec obtain n xs where
      n: "pointless_reader_vector_n_items p v = Some n" and
      xs: "pointless_reader_vector_value p v = Some xs" and
      cs: "unat n \<le> length xs" "cs = take (unat n) xs"
      by (auto simp: children_def elim!: bind_eq_Some_E split: if_splits)
    have "walk_children (\<lambda>i u. do { x \<leftarrow> arr_get xs i;
                                pointless_walk_priv fuel p x (depth + 1) cb u }) [0..<unat n] u =
        walk_children (\<lambda>x u. pointless_walk_priv fuel p x (depth + 1) cb u) cs u"
      using cs walk_children_index [of "[0..<unat n]" xs] by (simp add: map_nth_take)
    with vec n xs assms(1) show ?thesis by auto
  next
    case set
    with assms show ?thesis
      by (auto simp: children_def pointless_set_hash_vector_def pointless_set_key_vector_def
          elim!: bind_eq_Some_E)
  next
    case map
    with assms show ?thesis
      by (auto simp: children_def pointless_map_hash_vector_def pointless_map_key_vector_def
          pointless_map_value_vector_def elim!: bind_eq_Some_E)
  next
    case other
    with assms show ?thesis by (auto simp: children_def)
  qed
qed

section \<open>The contract of a pass\<close>

text \<open>
  What the callback of a pass promises on a value of its domain: it stops with an error, or knows the
  value's node already, or has checked the value and marked its node. \<open>total\<close> tells whether it is
  defined on every value of the domain. The check of a value depends on its node only.
\<close>

locale checked_walk =
  fixes p :: pointless_t and pass :: nat and cb :: "pointless_validate_state_t walk_cb"
    and chk :: "pointless_value_t \<Rightarrow> bool" and within :: "pointless_value_t \<Rightarrow> bool" and total :: bool
  assumes chk_node: "node v = Some k \<Longrightarrow> node w = Some k \<Longrightarrow> chk v = chk w"
    and within_children: "within v \<Longrightarrow> chk v \<Longrightarrow>
      \<exists>cs. children p v = Some cs \<and> (\<forall>c \<in> set cs. within c)"
    and cb_step: "within v \<Longrightarrow> masks_ok p s \<Longrightarrow> vs_pass s = pass \<Longrightarrow>
      (\<not> total \<and> cb p v depth s = None) \<or>
      (\<exists>s'. cb p v depth s = Some (2, s') \<and> vs_error s' \<noteq> None) \<or>
      (\<exists>k. cb p v depth s = Some (1, s) \<and> node v = Some k \<and> k \<in> nodes s \<and>
         depth < POINTLESS_MAX_DEPTH) \<or>
      (\<exists>s'. cb p v depth s = Some (0, s') \<and> chk v \<and> masks_ok p s' \<and> vs_pass s' = pass \<and>
         vs_error s' = vs_error s \<and> nodes s' = set_option (node v) \<union> nodes s \<and>
         depth < POINTLESS_MAX_DEPTH)"
begin

definition good_node :: "nat \<times> nat \<Rightarrow> bool" where
  "good_node k \<longleftrightarrow> (\<forall>v. node v = Some k \<longrightarrow> chk v)"

definition closed_node :: "(nat \<times> nat) set \<Rightarrow> nat \<times> nat \<Rightarrow> bool" where
  "closed_node M k \<longleftrightarrow>
     (\<forall>v cs c. node v = Some k \<longrightarrow> children p v = Some cs \<longrightarrow> c \<in> set cs \<longrightarrow>
        chk c \<and> set_option (node c) \<subseteq> M)"

definition walk_pre :: "pointless_validate_state_t \<Rightarrow> bool" where
  "walk_pre s \<longleftrightarrow> masks_ok p s \<and> vs_pass s = pass \<and> (\<forall>k \<in> nodes s. good_node k)"

text \<open>A walk over the values \<open>vs\<close> either stops with an error, or has checked and marked all of them.\<close>

definition walk_post ::
    "pointless_value_t set \<Rightarrow> pointless_validate_state_t \<Rightarrow>
     bool \<times> pointless_validate_state_t \<Rightarrow> bool" where
  "walk_post vs s r \<longleftrightarrow>
     (if fst r then vs_error (snd r) \<noteq> None
      else walk_pre (snd r) \<and> vs_error (snd r) = vs_error s \<and> nodes s \<subseteq> nodes (snd r) \<and>
        (\<forall>v \<in> vs. chk v \<and> set_option (node v) \<subseteq> nodes (snd r)) \<and>
        (\<forall>k \<in> nodes (snd r) - nodes s. closed_node (nodes (snd r)) k))"

lemma walk_post_stop: "stop \<Longrightarrow> vs_error s' \<noteq> None \<Longrightarrow> walk_post vs s (stop, s')"
  by (simp add: walk_post_def)

lemma walk_postI:
  assumes "\<not> stop" and "walk_pre s'" and "vs_error s' = vs_error s" and "nodes s \<subseteq> nodes s'"
    and "\<And>v. v \<in> vs \<Longrightarrow> chk v" and "\<And>v. v \<in> vs \<Longrightarrow> set_option (node v) \<subseteq> nodes s'"
    and "\<And>k. k \<in> nodes s' \<Longrightarrow> k \<notin> nodes s \<Longrightarrow> closed_node (nodes s') k"
  shows "walk_post vs s (stop, s')"
  unfolding walk_post_def fst_conv snd_conv if_not_P [OF assms(1)] using assms(2-) by blast

lemma walk_postD:
  assumes "walk_post vs s (stop, s')" and "\<not> stop"
  shows "walk_pre s'" and "vs_error s' = vs_error s" and "nodes s \<subseteq> nodes s'"
    and "v \<in> vs \<Longrightarrow> chk v" and "v \<in> vs \<Longrightarrow> set_option (node v) \<subseteq> nodes s'"
    and "k \<in> nodes s' \<Longrightarrow> k \<notin> nodes s \<Longrightarrow> closed_node (nodes s') k"
  using assms(1) unfolding walk_post_def fst_conv snd_conv if_not_P [OF assms(2)] by blast+

lemma walk_postD_stop: "walk_post vs s (stop, s') \<Longrightarrow> stop \<Longrightarrow> vs_error s' \<noteq> None"
  by (simp add: walk_post_def)

lemma closed_node_mono: "closed_node M k \<Longrightarrow> M \<subseteq> M' \<Longrightarrow> closed_node M' k"
  unfolding closed_node_def by blast

text \<open>The postcondition holds of the result, or there is none and the pass is not total.\<close>

definition outcome ::
    "pointless_value_t set \<Rightarrow> pointless_validate_state_t \<Rightarrow>
     (bool \<times> pointless_validate_state_t) option \<Rightarrow> bool" where
  "outcome vs s res \<longleftrightarrow> (case res of None \<Rightarrow> \<not> total | Some r \<Rightarrow> walk_post vs s r)"

lemma walk_children_post:
  assumes "\<And>x s. x \<in> set cs \<Longrightarrow> walk_pre s \<Longrightarrow> outcome {x} s (f x s)"
    and "walk_pre s"
  shows "outcome (set cs) s (walk_children f cs s)"
  using assms
proof (induction cs arbitrary: s)
  case Nil
  have "walk_post (set []) s (False, s)" by (rule walk_postI) (use Nil in auto)
  then show ?case by (simp add: outcome_def)
next
  case (Cons c cs)
  have fc: "outcome {c} s (f c s)"
    by (rule Cons.prems(1)) (simp_all add: Cons.prems(2))
  show ?case
  proof (cases "f c s")
    case None
    with fc show ?thesis unfolding outcome_def by simp
  next
    case (Some r1)
    obtain stop s1 where "r1 = (stop, s1)" by (cases r1)
    with Some fc have s1: "f c s = Some (stop, s1)" "walk_post {c} s (stop, s1)"
      by (simp_all add: outcome_def)
    show ?thesis
    proof (cases "stop \<or> walk_children f cs s1 = None")
      case True
      show ?thesis
      proof (cases stop)
        case True
        from walk_post_stop [OF True walk_postD_stop [OF s1(2) True]]
        have "walk_post (set (c # cs)) s (stop, s1)" .
        with s1(1) True show ?thesis unfolding outcome_def by simp
      next
        case False
        have "outcome (set cs) s1 (walk_children f cs s1)"
        proof (rule Cons.IH)
          show "outcome {x} t (f x t)" if "x \<in> set cs" "walk_pre t" for x t
            by (rule Cons.prems(1)) (simp_all add: that)
        qed (rule walk_postD(1) [OF s1(2) False])
        with True False s1(1) show ?thesis unfolding outcome_def by simp
      qed
    next
      case cont: False
      then have False: "\<not> stop" by simp
      note c = walk_postD [OF s1(2) False]
      have out: "outcome (set cs) s1 (walk_children f cs s1)"
      proof (rule Cons.IH)
        show "outcome {x} t (f x t)" if "x \<in> set cs" "walk_pre t" for x t
          by (rule Cons.prems(1)) (simp_all add: that)
      qed (rule c(1))
      from cont obtain r2 where "walk_children f cs s1 = Some r2" by auto
      moreover obtain stop' s2 where "r2 = (stop', s2)" by (cases r2)
      ultimately have r: "walk_children f cs s1 = Some (stop', s2)"
        "walk_post (set cs) s1 (stop', s2)" using out by (simp_all add: outcome_def)
    have "walk_post (set (c # cs)) s (stop', s2)"
    proof (cases stop')
      case True
      from walk_post_stop [OF True walk_postD_stop [OF r(2) True]] show ?thesis .
    next
      case nonstop: False
      note d = walk_postD [OF r(2) nonstop]
      show ?thesis
      proof (rule walk_postI [OF nonstop])
        show "walk_pre s2" by (rule d(1))
        show "vs_error s2 = vs_error s" using c(2) d(2) by simp
        show "nodes s \<subseteq> nodes s2" using c(3) d(3) by (rule subset_trans)
        show "chk v" if "v \<in> set (c # cs)" for v using that c(4) d(4) by auto
        show "set_option (node v) \<subseteq> nodes s2" if "v \<in> set (c # cs)" for v
        proof (cases "v = c")
          case True
          then show ?thesis using c(5) [of c] d(3) by blast
        next
          case False
          then show ?thesis using that d(5) by simp
        qed
        show "closed_node (nodes s2) k" if "k \<in> nodes s2" "k \<notin> nodes s" for k
        proof (cases "k \<in> nodes s1")
          case True
          from closed_node_mono [OF c(6) [OF True that(2)] d(3)] show ?thesis .
        next
          case False
          with that(1) show ?thesis by (rule d(6))
        qed
      qed
    qed
    with s1(1) False r(1) show ?thesis by (simp add: outcome_def)
    qed
  qed
qed

text \<open>The walk of a pass over a value of the domain; the depth limit keeps it from using up the stack.\<close>

lemma walk_priv_outcome:
  assumes "within v" and "walk_pre s" and "depth \<le> POINTLESS_MAX_DEPTH"
    and "POINTLESS_MAX_DEPTH < n + depth"
  shows "outcome {v} s (pointless_walk_priv n p v depth cb s)"
  using assms
proof (induction n arbitrary: v depth s)
  case 0
  then show ?case by simp
next
  case (Suc n)
  have m: "masks_ok p s" and pass: "vs_pass s = pass" and good: "\<forall>k \<in> nodes s. good_node k"
    using Suc.prems(2) by (simp_all add: walk_pre_def)
  from cb_step [OF Suc.prems(1) m pass, of depth] consider
      (undef) "\<not> total" "cb p v depth s = None"
    | (stop) s' where "cb p v depth s = Some (2, s')" "vs_error s' \<noteq> None"
    | (known) k where "cb p v depth s = Some (1, s)" "node v = Some k" "k \<in> nodes s"
    | (visit) s' where "cb p v depth s = Some (0, s')" "chk v" "masks_ok p s'" "vs_pass s' = pass"
        "vs_error s' = vs_error s" "nodes s' = set_option (node v) \<union> nodes s"
        "depth < POINTLESS_MAX_DEPTH" by (elim disjE exE conjE) presburger+
  then show ?case
  proof cases
    case undef
    then have "pointless_walk_priv (Suc n) p v depth cb s = None" by simp
    with undef(1) show ?thesis unfolding outcome_def by simp
  next
    case (stop s')
    then have "pointless_walk_priv (Suc n) p v depth cb s = Some (True, s')" by simp
    moreover have "walk_post {v} s (True, s')" using stop(2) by (rule walk_post_stop [OF TrueI])
    ultimately show ?thesis unfolding outcome_def by simp
  next
    case (known k)
    have "walk_post {v} s (False, s)"
    proof (rule walk_postI)
      show "chk x" if "x \<in> {v}" for x
        using that known(2,3) good by (auto simp: good_node_def)
      show "set_option (node x) \<subseteq> nodes s" if "x \<in> {v}" for x using that known(2,3) by auto
    qed (use Suc.prems(2) in auto)
    moreover have "pointless_walk_priv (Suc n) p v depth cb s = Some (False, s)"
      using known(1) by simp
    ultimately show ?thesis unfolding outcome_def by simp
  next
    case (visit s')
    from within_children [OF Suc.prems(1) visit(2)] obtain cs where
      cs: "children p v = Some cs" and dom: "\<forall>c \<in> set cs. within c" by blast
    have gv: "good_node k" if "node v = Some k" for k
      unfolding good_node_def using visit(2) chk_node [OF that] by blast
    have pre: "walk_pre s'"
      using visit(3,4,6) good gv by (auto simp: walk_pre_def)
    let ?walk = "walk_children (\<lambda>x u. pointless_walk_priv n p x (depth + 1) cb u) cs s'"
    have out: "outcome (set cs) s' ?walk"
    proof (rule walk_children_post [OF _ pre])
      show "outcome {x} u (pointless_walk_priv n p x (depth + 1) cb u)"
        if "x \<in> set cs" "walk_pre u" for x u
        using that dom visit(7) Suc.prems(4) by (intro Suc.IH) simp_all
    qed
    have walk: "pointless_walk_priv (Suc n) p v depth cb s = ?walk"
      by (rule walk_visit [of cb, OF visit(1) cs])
    show ?thesis
    proof (cases ?walk)
      case None
      with out walk show ?thesis unfolding outcome_def by simp
    next
      case (Some r0)
      obtain st t where "r0 = (st, t)" by (cases r0)
      with Some out have r: "?walk = Some (st, t)" "walk_post (set cs) s' (st, t)"
        unfolding outcome_def by simp_all
      have "walk_post {v} s (st, t)"
      proof (cases st)
        case True
        from walk_post_stop [OF True walk_postD_stop [OF r(2) True]] show ?thesis .
      next
        case False
        note d = walk_postD [OF r(2) False]
        have closed_v: "closed_node (nodes t) k" if "node v = Some k" for k
          unfolding closed_node_def
        proof (intro allI impI)
          fix w ds c
          assume w: "node w = Some k" "children p w = Some ds" "c \<in> set ds"
          then have "ds = cs" using same_node(2) [OF w(1) that, of p] cs by simp
          with w(3) d(4,5) show "chk c \<and> set_option (node c) \<subseteq> nodes t" by blast
        qed
        show ?thesis
        proof (rule walk_postI [OF False])
          show "walk_pre t" by (rule d(1))
          show "vs_error t = vs_error s" using d(2) visit(5) by simp
          show "nodes s \<subseteq> nodes t" using d(3) visit(6) by blast
          show "chk x" if "x \<in> {v}" for x using that visit(2) by simp
          show "set_option (node x) \<subseteq> nodes t" if "x \<in> {v}" for x using that d(3) visit(6) by blast
          show "closed_node (nodes t) k" if "k \<in> nodes t" "k \<notin> nodes s" for k
          proof (cases "k \<in> nodes s'")
            case True
            then show ?thesis using that(2) visit(6) closed_v by auto
          next
            case False
            with that(1) show ?thesis by (rule d(6))
          qed
        qed
      qed
      with walk r(1) show ?thesis unfolding outcome_def by simp
    qed
  qed
qed

text \<open>A walk from the root on empty masks has checked every reachable value, or ends with an error.\<close>

lemma walk_root:
  assumes "within (pointless_root p)" and "masks_ok p s" and "vs_pass s = pass" and "nodes s = {}"
  shows "case pointless_walk 513 p cb s of None \<Rightarrow> \<not> total
    | Some t \<Rightarrow> vs_error t = None \<longrightarrow> (\<forall>v. reachable p v \<longrightarrow> chk v)"
proof -
  have pre: "walk_pre s" using assms by (simp add: walk_pre_def)
  have out: "outcome {pointless_root p} s (pointless_walk_priv 513 p (pointless_root p) 0 cb s)"
    using assms(1) pre by (rule walk_priv_outcome) simp_all
  show ?thesis
  proof (cases "pointless_walk_priv 513 p (pointless_root p) 0 cb s")
    case None
    with out show ?thesis unfolding outcome_def by (simp add: pointless_walk_def)
  next
    case (Some r)
    obtain stop t where r: "r = (stop, t)" by (cases r)
    with Some out have post: "walk_post {pointless_root p} s (stop, t)"
      unfolding outcome_def by simp
    have "chk v" if err: "vs_error t = None" and v: "reachable p v" for v
    proof -
      have ns: "\<not> stop" using walk_postD_stop [OF post] err by blast
      note d = walk_postD [OF post ns]
      from v have "chk v \<and> set_option (node v) \<subseteq> nodes t"
      proof induction
        case root
        show ?case using d(4,5) by blast
      next
        case (child v cs c)
        show ?case
        proof (cases "node v")
          case None
          then have "cs = []" using child.hyps(2)
            by (auto simp: node_def children_def split: if_splits)
          with child.hyps(3) show ?thesis by simp
        next
          case (Some k)
          then have "k \<in> nodes t" using child.IH by simp
          then have "closed_node (nodes t) k" using d(6) assms(4) by blast
          with Some child.hyps show ?thesis unfolding closed_node_def by blast
        qed
      qed
      then show ?thesis ..
    qed
    with Some r show ?thesis by (simp add: pointless_walk_def)
  qed
qed

end

section \<open>The state a pass starts with\<close>

lemma no_bits_marked: "bm.marked (replicate n 0) = {}"
proof -
  have False if k: "k \<in> bm.marked (replicate n 0)" for k
  proof -
    from k obtain i :: u64 where i: "unat i < 8 * n"
      "map_option (\<lambda>b. b \<noteq> 0) (bm_is_set (replicate n 0) i) = Some True"
      unfolding bm.marked_def by auto
    from i(1) bm_is_set_eq [of i "replicate n 0"] bit_at_replicate_0 [OF i(1)]
    have "\<exists>b. bm_is_set (replicate n 0) i = Some b \<and> b = 0" by simp
    with i(2) show False by auto
  qed
  then show ?thesis by blast
qed

definition start_state :: "pointless_t \<Rightarrow> nat \<Rightarrow> u8 list \<Rightarrow> pointless_validate_state_t" where
  "start_state p pass marker =
     \<lparr>vs_pass = pass, vs_error = None, vs_cycle_marker = marker,
      vs_vector = replicate (unat (ICEIL (n_vector (header p)) 8)) 0,
      vs_set = replicate (unat (ICEIL (n_set (header p)) 8)) 0,
      vs_map = replicate (unat (ICEIL (n_map (header p)) 8)) 0\<rparr>"

lemma start_state_ok:
  "masks_ok p (start_state p pass marker)" "vs_pass (start_state p pass marker) = pass"
  "nodes (start_state p pass marker) = {}"
proof -
  have "unat n \<le> 8 * ((unat n + 7) div 8)" for n :: u32 by simp
  then show "masks_ok p (start_state p pass marker)"
    by (simp add: masks_ok_def start_state_def unat_ICEIL_8)
qed (simp_all add: nodes_def start_state_def no_bits_marked)

lemma validate_pass_start:
  "validate_pass fuel p pass marker =
     pointless_walk 513 p (pointless_validate_pass_cb fuel) (start_state p pass marker)"
  by (simp add: validate_pass_def start_state_def)

end
