(* ===== verification/Validate_Laws.thy ===== *)
theory Validate_Laws
  imports Walk_Laws
begin

text \<open>
  What the validation of a file image guarantees: the first pass visits every value reachable from
  the root, checks it, and never reads outside the image; the third pass checks the hash table of every
  reachable set and map; a file that opens can be read by every accessor on every reachable value.
\<close>

section \<open>The callback in the first pass\<close>

lemma cb_cases:
  assumes wf: "wf_reader p" and m: "masks_ok p s" and pass: "vs_pass s = 1"
  obtains (stop) s' where "pointless_validate_pass_cb fuel p v depth s = Some (2, s')"
      "vs_error s' \<noteq> None" "masks_ok p s'" "vs_pass s' = 1"
  | (known) k where "pointless_validate_pass_cb fuel p v depth s = Some (1, s)" "node v = Some k"
      "k \<in> nodes s" "depth < POINTLESS_MAX_DEPTH"
  | (visit) s' where "pointless_validate_pass_cb fuel p v depth s = Some (0, s')"
      "value_ok p v" "masks_ok p s'" "vs_pass s' = 1" "vs_error s' = vs_error s"
      "nodes s' = set_option (node v) \<union> nodes s" "depth < POINTLESS_MAX_DEPTH"
proof -
  have stopped: thesis
    if "pointless_validate_pass_cb fuel p v depth s = Some (2, t\<lparr>vs_error := Some e\<rparr>)"
      "masks_ok p t" "vs_pass t = 1" for t e
    using stop [OF that(1)] that(2,3) by (simp add: masks_ok_def)
  show thesis
  proof (cases "POINTLESS_MAX_DEPTH \<le> depth")
    case True
    then show ?thesis using stopped m pass by (simp add: pointless_validate_pass_cb_def)
  next
    case deep: False
    show ?thesis
    proof (cases "pointless_validate_heap_ref p v")
      case (Inl e)
      then show ?thesis using stopped deep m pass by (simp add: pointless_validate_pass_cb_def)
    next
      case (Inr u)
      then have ref: "pointless_validate_heap_ref p v = Inr ()" by simp
      from heap_value_total [OF wf ref] obtain r where r: "pointless_validate_heap_value p v = Some r"
        by blast
      have visited: thesis
        if mk: "mark_visited v s = Some (Inr t)" "masks_ok p t" "vs_pass t = 1"
          "vs_error t = vs_error s" "nodes t = set_option (node v) \<union> nodes s" for t
      proof (cases "pointless_validate_inline_invariants v")
        case (Inl e)
        then show ?thesis using stopped [where t = t and e = e] deep ref pass mk
          by (simp add: pointless_validate_pass_cb_def pass_check_def)
      next
        case inl: (Inr u)
        show ?thesis
        proof (cases r)
          case (Inl e)
          then show ?thesis using stopped [where t = t and e = e] deep ref pass mk inl r
            by (simp add: pointless_validate_pass_cb_def pass_check_def)
        next
          case (Inr u)
          with r inl ref have "value_ok p v" by (simp add: value_ok_def)
          with Inr show ?thesis using visit [of t] deep ref pass mk inl r
            by (simp add: pointless_validate_pass_cb_def pass_check_def)
        qed
      qed
      from ref m show ?thesis
      proof (cases rule: mark_visited_cases)
        case inline
        then show ?thesis using visited [of s] m pass by simp
      next
        case (known k)
        then show ?thesis using that(2) deep ref pass by (simp add: pointless_validate_pass_cb_def)
      next
        case (new k s')
        then show ?thesis using visited [of s'] pass by simp
      qed
    qed
  qed
qed

interpretation pass_1: checked_walk p 1 "pointless_validate_pass_cb fuel" "value_ok p"
    "\<lambda>_. wf_reader p" True
proof unfold_locales
  fix v w k
  assume "node v = Some k" "node w = Some k"
  then show "value_ok p v = value_ok p w" by (rule same_node(1))
next
  fix v
  assume "wf_reader p" "value_ok p v"
  then show "\<exists>cs. children p v = Some cs \<and> (\<forall>c \<in> set cs. wf_reader p)"
    using value_ok_children by blast
next
  fix v s depth
  assume "wf_reader p" "masks_ok p s" "vs_pass s = 1"
  then show "(\<not> True \<and> pointless_validate_pass_cb fuel p v depth s = None) \<or>
      (\<exists>s'. pointless_validate_pass_cb fuel p v depth s = Some (2, s') \<and> vs_error s' \<noteq> None) \<or>
      (\<exists>k. pointless_validate_pass_cb fuel p v depth s = Some (1, s) \<and> node v = Some k \<and> k \<in> nodes s \<and>
         depth < POINTLESS_MAX_DEPTH) \<or>
      (\<exists>s'. pointless_validate_pass_cb fuel p v depth s = Some (0, s') \<and> value_ok p v \<and>
         masks_ok p s' \<and> vs_pass s' = 1 \<and> vs_error s' = vs_error s \<and>
         nodes s' = set_option (node v) \<union> nodes s \<and> depth < POINTLESS_MAX_DEPTH)"
    by (cases rule: cb_cases [where fuel = fuel and v = v and depth = depth]) simp_all
qed

section \<open>The callback in the third pass\<close>

text \<open>What the third pass checks of a value, apart from its memory.\<close>

definition table_ok :: "nat \<Rightarrow> pointless_t \<Rightarrow> pointless_value_t \<Rightarrow> bool" where
  "table_ok fuel p v \<longleftrightarrow>
     (v_type v = POINTLESS_SET_VALUE \<longrightarrow> pointless_validate_set_complicated fuel p v = Some (Inr ())) \<and>
     (v_type v = POINTLESS_MAP_VALUE_VALUE \<longrightarrow>
        pointless_validate_map_complicated fuel p v = Some (Inr ()))"

definition all_ok :: "pointless_t \<Rightarrow> bool" where
  "all_ok p \<longleftrightarrow> wf_reader p \<and> (\<forall>v. reachable p v \<longrightarrow> value_ok p v)"

lemma node_table:
  assumes "node v = Some k" and "node w = Some k"
  shows "table_ok fuel p v = table_ok fuel p w"
proof -
  have "v = w \<or> v_type v \<in> {POINTLESS_VECTOR_VALUE, POINTLESS_VECTOR_VALUE_HASHABLE} \<and>
      v_type w \<in> {POINTLESS_VECTOR_VALUE, POINTLESS_VECTOR_VALUE_HASHABLE}"
    using assms by (auto simp: node_def word_unat_eq_iff split: if_splits intro!: pointless_value_t.equality)
  then show ?thesis by (auto simp: table_ok_def)
qed

lemma pass_check_3:
  assumes "vs_pass s = 3" and "pass_check fuel p v s = Some (Inr ())"
  shows "table_ok fuel p v"
  using assms by (auto simp: pass_check_def table_ok_def split: if_split_asm)

interpretation pass_3: checked_walk p 3 "pointless_validate_pass_cb fuel" "table_ok fuel p"
    "\<lambda>v. all_ok p \<and> reachable p v" False
proof unfold_locales
  fix v w k
  assume "node v = Some k" "node w = Some k"
  then show "table_ok fuel p v = table_ok fuel p w" by (rule node_table)
next
  fix v
  assume v: "all_ok p \<and> reachable p v"
  then obtain cs where "children p v = Some cs"
    using value_ok_children unfolding all_ok_def by blast
  with v show "\<exists>cs. children p v = Some cs \<and> (\<forall>c \<in> set cs. all_ok p \<and> reachable p c)"
    using reachable.child by blast
next
  fix v s depth
  assume v: "all_ok p \<and> reachable p v" and m: "masks_ok p s" and pass: "vs_pass s = 3"
  let ?cb = "pointless_validate_pass_cb fuel p v depth s"
  have ref: "pointless_validate_heap_ref p v = Inr ()" using v by (simp add: all_ok_def value_ok_def)
  have visited: "?cb = None \<or> (\<exists>s'. ?cb = Some (2, s') \<and> vs_error s' \<noteq> None) \<or>
      ?cb = Some (0, t) \<and> table_ok fuel p v"
    if mk: "mark_visited v s = Some (Inr t)" and "vs_pass t = 3" and "\<not> POINTLESS_MAX_DEPTH \<le> depth" for t
  proof (cases "pass_check fuel p v t")
    case None
    with mk pass that(3) show ?thesis by (simp add: pointless_validate_pass_cb_def)
  next
    case (Some r)
    show ?thesis
    proof (cases r)
      case (Inl e)
      with Some mk pass that(3) show ?thesis by (simp add: pointless_validate_pass_cb_def)
    next
      case (Inr u)
      then have "table_ok fuel p v" using pass_check_3 [OF that(2)] Some by simp
      with Inr Some mk pass that(3) show ?thesis by (simp add: pointless_validate_pass_cb_def)
    qed
  qed
  show "(\<not> False \<and> ?cb = None) \<or> (\<exists>s'. ?cb = Some (2, s') \<and> vs_error s' \<noteq> None) \<or>
      (\<exists>k. ?cb = Some (1, s) \<and> node v = Some k \<and> k \<in> nodes s \<and> depth < POINTLESS_MAX_DEPTH) \<or>
      (\<exists>s'. ?cb = Some (0, s') \<and> table_ok fuel p v \<and> masks_ok p s' \<and> vs_pass s' = 3 \<and>
         vs_error s' = vs_error s \<and> nodes s' = set_option (node v) \<union> nodes s \<and>
         depth < POINTLESS_MAX_DEPTH)"
  proof (cases "POINTLESS_MAX_DEPTH \<le> depth")
    case True
    then show ?thesis by (simp add: pointless_validate_pass_cb_def)
  next
    case deep: False
    from ref m show ?thesis
    proof (cases rule: mark_visited_cases)
      case inline
      then show ?thesis using visited [of s] m pass deep by auto
    next
      case (known k)
      then show ?thesis using deep pass by (simp add: pointless_validate_pass_cb_def)
    next
      case (new k s')
      then show ?thesis using visited [of s'] pass deep by auto
    qed
  qed
qed

lemma offsets_size_unat:
  "unat (offsets_size h) = 32 + 8 * unat (n_string_unicode h) + 8 * unat (n_vector h) +
     8 * unat (n_bitvector h) + 8 * unat (n_set h) + 8 * unat (n_map h)"
proof -
  let ?f = "\<lambda>n :: u32. of_nat (8 * unat n) :: u64"
  have c: "ucast n * 8 = (of_nat (8 * unat n) :: u64)" for n :: u32
    by (simp add: mult.commute)
  let ?s = "32 + 8 * unat (n_string_unicode h) + 8 * unat (n_vector h) +
     8 * unat (n_bitvector h) + 8 * unat (n_set h) + 8 * unat (n_map h)"
  have "offsets_size h = of_nat ?s"
    by (simp only: offsets_size_def c of_nat_add of_nat_numeral)
  moreover have "unat (n_string_unicode h) < 4294967296" "unat (n_vector h) < 4294967296"
    "unat (n_bitvector h) < 4294967296" "unat (n_set h) < 4294967296" "unat (n_map h) < 4294967296"
    by simp_all
  then have "?s < 18446744073709551616" by linarith
  then have "?s < 2 ^ 64" by simp
  ultimately show ?thesis by (simp only: unsigned_of_nat take_bit_nat_eq_self len_bit0 len_num1) (simp add: take_bit_nat_eq_self)
qed

lemma init_handle_wf:
  assumes "length buf < 2 ^ 64" and "\<not> of_nat (length buf) < offsets_size h"
  shows "wf_reader (init_handle buf h (of_nat (length buf)))"
proof -
  have l: "unat (of_nat (length buf) :: u64) = length buf"
    using assms(1) by (simp add: unsigned_of_nat take_bit_nat_eq_self)
  have le: "unat (offsets_size h) \<le> length buf"
    using assms(2) by (simp add: not_less word_le_nat_alt l)
  have "offsets_size h \<le> of_nat (length buf)" using assms(2) by simp
  then have "unat (of_nat (length buf) - offsets_size h) = length buf - unat (offsets_size h)"
    by (simp add: unat_sub l)
  with le show ?thesis
    by (simp add: wf_reader_def init_handle_def Let_def offsets_size_unat)
qed

lemma init_wf:
  assumes "pointless_init fuel buf (of_nat (length buf)) dv = Some (Inr (p, w))"
    and "length buf < 2 ^ 64"
  shows "wf_reader p"
  using assms init_handle_wf [OF assms(2)]
  by (auto simp: pointless_init_def Let_def elim!: bind_eq_Some_E split: if_splits sum.splits)

lemma open_b_checked:
  assumes "pointless_open_b fuel buf = Some (Inr (p, warning))" and "length buf < 2 ^ 64"
  shows "all_ok p" and "\<exists>s marker. validate_pass fuel p 3 marker = Some s \<and> vs_error s = None"
proof -
  have i: "pointless_init fuel buf (of_nat (length buf)) True = Some (Inr (p, warning))"
    using assms(1) by (simp add: pointless_open_b_def)
  have wf: "wf_reader p" by (rule init_wf [OF i assms(2)])
  have v: "pointless_validate fuel p = Some (Inr ())"
    using i by (auto simp: pointless_init_def Let_def elim!: bind_eq_Some_E
        split: if_splits sum.splits)
  then obtain s where s: "validate_pass fuel p 1 [] = Some s" "vs_error s = None"
    by (auto simp: pointless_validate_def elim!: bind_eq_Some_E split: option.splits)
  have "case pointless_walk 513 p (pointless_validate_pass_cb fuel) (start_state p 1 []) of
      None \<Rightarrow> \<not> True
    | Some t \<Rightarrow> vs_error t = None \<longrightarrow> (\<forall>v. reachable p v \<longrightarrow> value_ok p v)"
    using wf start_state_ok by (rule pass_1.walk_root)
  with s wf show "all_ok p" by (simp add: validate_pass_start all_ok_def)
  from v show "\<exists>s marker. validate_pass fuel p 3 marker = Some s \<and> vs_error s = None"
    by (fastforce simp: pointless_validate_def elim!: bind_eq_Some_E split: option.splits sum.splits)
qed

lemma open_b_tables:
  assumes "pointless_open_b fuel buf = Some (Inr (p, warning))" and "length buf < 2 ^ 64"
    and "reachable p v"
  shows "table_ok fuel p v"
proof -
  note ok = open_b_checked(1) [OF assms(1,2)]
  from open_b_checked(2) [OF assms(1,2)] obtain s marker where
    s: "validate_pass fuel p 3 marker = Some s" "vs_error s = None" by blast
  have "all_ok p \<and> reachable p (pointless_root p)" using ok reachable.root by blast
  then have "case pointless_walk 513 p (pointless_validate_pass_cb fuel) (start_state p 3 marker) of
      None \<Rightarrow> \<not> False
    | Some t \<Rightarrow> vs_error t = None \<longrightarrow> (\<forall>v. reachable p v \<longrightarrow> table_ok fuel p v)"
    using start_state_ok by (rule pass_3.walk_root)
  with s assms(3) show ?thesis by (simp add: validate_pass_start)
qed

section \<open>The contract of the validation\<close>

text \<open>
  C9 The first pass of the validation is memory safe and complete: on a handle whose offset vectors
  and heap lie inside the image it always ends without reading outside the image, and when it sets
  no error, every value reachable from the root passes all three checks of a value, whatever
  sharing and cycles the file has.
\<close>

theorem validate_pass_1_checks_reachable:
  assumes "wf_reader p"
  shows "\<exists>s. validate_pass fuel p 1 marker = Some s \<and>
    (vs_error s = None \<longrightarrow> (\<forall>v. reachable p v \<longrightarrow> value_ok p v))"
proof -
  have "case pointless_walk 513 p (pointless_validate_pass_cb fuel) (start_state p 1 marker) of
      None \<Rightarrow> \<not> True
    | Some t \<Rightarrow> vs_error t = None \<longrightarrow> (\<forall>v. reachable p v \<longrightarrow> value_ok p v)"
    using assms start_state_ok by (rule pass_1.walk_root)
  then show ?thesis by (simp add: validate_pass_start split: option.split_asm)
qed

lemma read_header_total: "32 \<le> length buf \<Longrightarrow> \<exists>h. read_header buf 0 = Some h"
  by (simp add: read_header_def read_value_def)

lemma init_total:
  assumes "length buf < 2 ^ 64"
  shows "\<exists>r. pointless_open_b_skip_validate fuel buf = Some r \<and>
    (case r of
       Inl e \<Rightarrow> pointless_open_b fuel buf = Some (Inl e)
     | Inr (p, warning) \<Rightarrow> wf_reader p \<and>
         pointless_open_b fuel buf = do {
           r \<leftarrow> pointless_validate fuel p;
           Some (case r of Inl e \<Rightarrow> Inl e | Inr u \<Rightarrow> Inr (p, warning)) })"
proof (cases "(of_nat (length buf) :: u64) < 32")
  case True
  then show ?thesis by (simp add: pointless_open_b_skip_validate_def pointless_open_b_def pointless_init_def)
next
  case False
  have "unat (of_nat (length buf) :: u64) = length buf"
    using assms by (simp add: unsigned_of_nat take_bit_nat_eq_self)
  with False have "32 \<le> length buf" by (simp add: word_less_nat_alt)
  then obtain h where h: "read_header buf 0 = Some h" using read_header_total by blast
  show ?thesis
    using False h init_handle_wf [OF assms, of h]
    by (auto simp: pointless_open_b_skip_validate_def pointless_open_b_def pointless_init_def Let_def
        split: sum.split bind_split)
qed

text \<open>
  C1 What opening an image promises. Reading the header and placing the offset vectors and the heap always
  ends without reading outside the image, with an error or with a handle; on that handle the first pass
  of the validation always ends without reading outside the image, and the error it finds is the answer
  of \<open>pointless_open_b\<close>. And when \<open>pointless_open_b\<close> accepts the image, every accessor of the reader,
  applied to any value reachable from the root and to any item or bit below its count, stays inside the
  image, and every string is terminated at the length it states. (Nothing is said of the later passes on
  an image they do not accept: the size of a hash table can make them loop.)
\<close>

theorem open_b_readable:
  assumes "length buf < 2 ^ 64"
  shows "(\<exists>r. pointless_open_b_skip_validate fuel buf = Some r \<and>
      (case r of
         Inl e \<Rightarrow> pointless_open_b fuel buf = Some (Inl e)
       | Inr (p, warning) \<Rightarrow>
           \<exists>s. validate_pass fuel p 1 [] = Some s \<and>
             (\<forall>e. vs_error s = Some e \<longrightarrow> pointless_open_b fuel buf = Some (Inl e)))) \<and>
    (\<forall>p warning v. pointless_open_b fuel buf = Some (Inr (p, warning)) \<longrightarrow> reachable p v \<longrightarrow> readable p v)"
proof (intro conjI allI impI)
  fix p warning v
  assume o: "pointless_open_b fuel buf = Some (Inr (p, warning))" and r: "reachable p v"
  have "all_ok p" by (rule open_b_checked(1) [OF o assms])
  then show "readable p v" using r value_ok_readable unfolding all_ok_def by blast
next
  obtain r where r: "pointless_open_b_skip_validate fuel buf = Some r"
    "case r of
       Inl e \<Rightarrow> pointless_open_b fuel buf = Some (Inl e)
     | Inr (p, warning) \<Rightarrow> wf_reader p \<and>
         pointless_open_b fuel buf = do {
           r \<leftarrow> pointless_validate fuel p;
           Some (case r of Inl e \<Rightarrow> Inl e | Inr u \<Rightarrow> Inr (p, warning)) }"
    using init_total [OF assms] by blast
  have "\<exists>s. validate_pass fuel p 1 [] = Some s \<and>
      (\<forall>e. vs_error s = Some e \<longrightarrow> pointless_open_b fuel buf = Some (Inl e))"
    if "r = Inr (p, warning)" for p warning
  proof -
    have "wf_reader p" using r(2) that by simp
    then have "case pointless_walk 513 p (pointless_validate_pass_cb fuel) (start_state p 1 []) of
        None \<Rightarrow> \<not> True
      | Some t \<Rightarrow> vs_error t = None \<longrightarrow> (\<forall>v. reachable p v \<longrightarrow> value_ok p v)"
      using start_state_ok by (rule pass_1.walk_root)
    then obtain s where s: "validate_pass fuel p 1 [] = Some s"
      by (auto simp: validate_pass_start split: option.split_asm)
    with r(2) that show ?thesis by (simp add: pointless_validate_def)
  qed
  with r show "\<exists>r. pointless_open_b_skip_validate fuel buf = Some r \<and>
      (case r of
         Inl e \<Rightarrow> pointless_open_b fuel buf = Some (Inl e)
       | Inr (p, warning) \<Rightarrow>
           \<exists>s. validate_pass fuel p 1 [] = Some s \<and>
             (\<forall>e. vs_error s = Some e \<longrightarrow> pointless_open_b fuel buf = Some (Inl e)))"
    by (cases r) auto
qed

section \<open>A file image\<close>

text \<open>A vector that contains itself and the string \<open>ab\<close>.\<close>

definition sample_image :: "u8 list" where
  "sample_image =
     [0,0,0,0, 0,0,0,0, 1,0,0,0, 1,0,0,0, 0,0,0,0, 0,0,0,0, 0,0,0,0, 2,0,0,0,
      20,0,0,0,0,0,0,0,  0,0,0,0,0,0,0,0,
      2,0,0,0, 0,0,0,0, 0,0,0,0, 29,0,0,0, 0,0,0,0,
      2,0,0,0, 97,98,0]"

definition sample_header :: pointless_header_t where
  "sample_header = \<lparr>root = \<lparr>v_type = 0, v_data = 0\<rparr>, n_string_unicode = 1, n_vector = 1,
     n_bitvector = 0, n_set = 0, n_map = 0, version = 2\<rparr>"

abbreviation (input) sample_handle :: pointless_t where
  "sample_handle \<equiv> init_handle sample_image sample_header 75"

lemma sample_opens: "pointless_open_b 1 sample_image = Some (Inr (sample_handle, None))"
  by code_simp

lemma sample_wf: "wf_reader sample_handle"
  by code_simp

lemma sample_pass_1: "map_option vs_error (validate_pass 1 sample_handle 1 []) = Some None"
  by code_simp

theorem validate_pass_1_checks_reachable_witness:
  "map_option vs_error (validate_pass 1 sample_handle 1 []) = Some None \<and>
   value_ok sample_handle (pointless_root sample_handle)"
proof -
  let ?P = "\<lambda>s. validate_pass 1 sample_handle 1 [] = Some s \<and>
     (vs_error s = None \<longrightarrow> (\<forall>v. reachable sample_handle v \<longrightarrow> value_ok sample_handle v))"
  have "\<exists>s. ?P s" by (rule validate_pass_1_checks_reachable [OF sample_wf])
  then obtain s where s: "?P s" by (rule exE)
  then have "vs_error s = None" using sample_pass_1 by simp
  with s have "\<forall>v. reachable sample_handle v \<longrightarrow> value_ok sample_handle v" by simp
  from mp [OF spec [OF this] reachable.root]
  have "value_ok sample_handle (pointless_root sample_handle)" .
  with sample_pass_1 show ?thesis by (rule conjI)
qed

theorem open_b_readable_witness: "readable sample_handle (pointless_root sample_handle)"
proof -
  have "length sample_image < 2 ^ 64" by (simp add: sample_image_def)
  from open_b_readable [OF this, of 1] sample_opens reachable.root [of sample_handle]
  show ?thesis by blast
qed

text \<open>
  A file of version 1 opens although the code announces that it is no longer supported:
  \<open>pointless_init\<close> sets the error message and goes on, and the caller gets a handle together with
  the message.
\<close>

theorem version_1_opens:
  "pointless_open_b 1 [24,0,0,0, 0,0,0,0, 0,0,0,0, 0,0,0,0, 0,0,0,0, 0,0,0,0, 0,0,0,0, 1,0,0,0] =
     Some (Inr (init_handle
       [24,0,0,0, 0,0,0,0, 0,0,0,0, 0,0,0,0, 0,0,0,0, 0,0,0,0, 0,0,0,0, 1,0,0,0]
       \<lparr>root = \<lparr>v_type = POINTLESS_NULL, v_data = 0\<rparr>, n_string_unicode = 0, n_vector = 0,
        n_bitvector = 0, n_set = 0, n_map = 0, version = 1\<rparr> 32,
       Some ''32-bit offset files no longer supported''))"
  by code_simp

end
