(* ===== verification/Cmp_Laws.thy ===== *)
theory Cmp_Laws
  imports Cmp
begin

text \<open>
  What the comparison of \<open>src/pointless_cmp.c\<close> guarantees: numbers are compared by their mathematical
  values except for one branch, and the depth limit bounds the recursion of a comparison of values.
\<close>

section \<open>Numbers\<close>

abbreviation (input) int_types :: "u32 set" where
  "int_types \<equiv> {POINTLESS_I32, POINTLESS_U32, POINTLESS_I64, POINTLESS_U64, POINTLESS_BOOLEAN}"

text \<open>The integer a value of an integer type denotes.\<close>

definition int_value :: "u32 \<Rightarrow> pointless_complete_value_data_t \<Rightarrow> int" where
  "int_value t v =
     (if t = POINTLESS_I32 then sint (complete_data_u32 v)
      else if t \<in> {POINTLESS_U32, POINTLESS_BOOLEAN} then uint (complete_data_u32 v)
      else if t = POINTLESS_I64 then sint v
      else uint v)"

lemma sint_ucast_u64: "sint (ucast (w :: u32) :: u64) = uint w"
proof -
  have w: "uint w < 4294967296" using uint_lt2p [of w] by simp
  have u: "uint (ucast w :: u64) = uint w" by simp
  then have "sint (ucast w :: u64) = signed_take_bit 63 (uint w)" by (simp add: sint_uint)
  also have "\<dots> = uint w" by (rule signed_take_bit_int_eq_self) (use w order_trans [of "- (2 ^ 63)" 0 "uint w"] in simp_all)
  finally show ?thesis .
qed

lemma signed_value:
  "t \<in> int_types \<Longrightarrow> pointless_is_signed t \<Longrightarrow> sint (pointless_int_value_signed t v) = int_value t v"
  by (auto simp: pointless_is_signed_def pointless_int_value_signed_def int_value_def
      pointless_complete_value_get_as_i64_def sint_ucast_u64)

lemma unsigned_value:
  "t \<in> int_types \<Longrightarrow> \<not> pointless_is_signed t \<Longrightarrow>
     uint (pointless_int_value_unsigned t v) = int_value t v"
  by (auto simp: pointless_is_signed_def pointless_int_value_unsigned_def int_value_def
      pointless_complete_value_get_as_u64_def)

lemma unsigned_value_nonneg: "t \<in> int_types \<Longrightarrow> \<not> pointless_is_signed t \<Longrightarrow> 0 \<le> int_value t v"
  by (auto simp: pointless_is_signed_def int_value_def)

lemma SIMPLE_CMP_word: "SIMPLE_CMP (a :: 'a::len word) b = SIMPLE_CMP (uint a) (uint b)"
  by (simp add: SIMPLE_CMP_def word_less_def word_uint_eq_iff)

lemma uint_nonneg_sint: "0 \<le> sint (a :: 'a::len word) \<Longrightarrow> uint a = sint a"
proof -
  assume a: "0 \<le> sint a"
  have "sint a < 2 ^ (LENGTH('a) - 1)" using sint_lt [of a] by simp
  also have "\<dots> \<le> 2 ^ LENGTH('a)" by (rule power_increasing) simp_all
  finally have "take_bit LENGTH('a) (sint a) = sint a" using a by (simp add: take_bit_int_eq_self_iff)
  then show ?thesis by (simp add: uint_sint)
qed

text \<open>
  The comparison of two integers is exact, whatever their widths and signedness, but for one
  combination: an unsigned first and a negative signed second operand.
\<close>

definition cmp_int_exception :: "u32 \<Rightarrow> u32 \<Rightarrow> pointless_complete_value_data_t \<Rightarrow> bool" where
  "cmp_int_exception ta tb vb \<longleftrightarrow>
     \<not> pointless_is_signed ta \<and> pointless_is_signed tb \<and> int_value tb vb < 0"

lemma cmp_int_int:
  assumes "ta \<in> int_types" and "tb \<in> int_types"
  shows "pointless_cmp_int_float ta va tb vb =
    (if cmp_int_exception ta tb vb then -1 else SIMPLE_CMP (int_value ta va) (int_value tb vb))"
proof -
  have nf: "ta \<noteq> POINTLESS_FLOAT" "tb \<noteq> POINTLESS_FLOAT" using assms by auto
  note c = pointless_cmp_int_float_def nf if_False simp_thms Let_def cmp_int_exception_def
  note v = signed_value [OF assms(1)] signed_value [OF assms(2)]
    unsigned_value [OF assms(1)] unsigned_value [OF assms(2)]
  note n = unsigned_value_nonneg [OF assms(1), of va] unsigned_value_nonneg [OF assms(2), of vb]
  show ?thesis
  proof (cases "pointless_is_signed ta"; cases "pointless_is_signed tb")
    assume s: "pointless_is_signed ta" "pointless_is_signed tb"
    then show ?thesis using v by (simp add: c)
  next
    assume s: "\<not> pointless_is_signed ta" "\<not> pointless_is_signed tb"
    then show ?thesis using v by (simp add: c SIMPLE_CMP_word)
  next
    assume s: "pointless_is_signed ta" "\<not> pointless_is_signed tb"
    then show ?thesis using v n uint_nonneg_sint [of "pointless_int_value_signed ta va"]
      by (cases "int_value ta va < 0") (simp_all add: c SIMPLE_CMP_word, simp add: SIMPLE_CMP_def)
  next
    assume s: "\<not> pointless_is_signed ta" "pointless_is_signed tb"
    then show ?thesis using v n uint_nonneg_sint [of "pointless_int_value_signed tb vb"]
      by (cases "int_value tb vb < 0") (simp_all add: c SIMPLE_CMP_word)
  qed
qed

lemma cmp_int_exception_value:
  assumes "ta \<in> int_types" and "cmp_int_exception ta tb vb"
  shows "int_value tb vb < int_value ta va"
  using unsigned_value_nonneg [OF assms(1), of va] assms(2) by (simp add: cmp_int_exception_def)

lemma cmp_int_eq_0:
  assumes "ta \<in> int_types" and "tb \<in> int_types"
  shows "pointless_cmp_int_float ta va tb vb = 0 \<longleftrightarrow> int_value ta va = int_value tb vb"
  using cmp_int_exception_value [OF assms(1), of tb vb va] by (auto simp: cmp_int_int [OF assms])

section \<open>Values\<close>

lemma cmp_vector_loop_zero:
  assumes "\<And>i. i \<in> set is \<Longrightarrow> item i = Some (Inr (c i))"
  shows "\<exists>r. cmp_vector_loop True item is tail = Some (Inr r) \<and>
    (r = 0 \<longleftrightarrow> (\<forall>i \<in> set is. c i = 0) \<and> tail = 0)"
  using assms by (induction "True" item "is" tail rule: cmp_vector_loop.induct) auto

text \<open>
  Two levels of depth are counted per call, so a stack of \<open>f\<close> calls with \<open>depth + 2 * f \<ge> 514\<close> is never
  used up, and a larger one gives the same answer.
\<close>

lemma cmp_rec_fuel:
  "0 < f \<Longrightarrow> 0 < f' \<Longrightarrow> 514 \<le> depth + 2 * f \<Longrightarrow> 514 \<le> depth + 2 * f' \<Longrightarrow>
     pointless_cmp_reader_rec f True p_a a p_b b depth =
     pointless_cmp_reader_rec f' True p_a a p_b b depth"
proof (induction f arbitrary: a b depth f')
  case 0
  then show ?case by simp
next
  case (Suc f)
  show ?case
  proof (cases "512 \<le> depth")
    case True
    then show ?thesis using Suc.prems by (cases f') simp_all
  next
    case False
    then obtain g where g: "f' = Suc g" using Suc.prems(2) by (cases f') auto
    have eq: "pointless_cmp_reader_rec f True p_a x p_b y (depth + 2) =
              pointless_cmp_reader_rec g True p_a x p_b y (depth + 2)" for x y
      using Suc.prems g False by (intro Suc.IH) simp_all
    show ?thesis
      unfolding g pointless_cmp_reader_rec.simps eq ..
  qed
qed

section \<open>The contract of the comparison\<close>

text \<open>
  C18 Integers of any two of the types I32, U32, I64, U64 and BOOLEAN are compared as the integers they
  denote, at full width, except when the first is unsigned and the second negative.
\<close>

theorem cmp_integers_exact:
  assumes "ta \<in> int_types" and "tb \<in> int_types" and "\<not> cmp_int_exception ta tb vb"
  shows "pointless_cmp_int_float ta va tb vb = SIMPLE_CMP (int_value ta va) (int_value tb vb)"
  using cmp_int_int [OF assms(1,2)] assms(3) by simp

theorem cmp_integers_exact_witness:
  "pointless_cmp_int_float POINTLESS_I32 4294967295 POINTLESS_U32 4294967295 = -1"
  using cmp_integers_exact [of POINTLESS_I32 POINTLESS_U32 4294967295 4294967295]
  by (simp add: cmp_int_exception_def pointless_is_signed_def int_value_def complete_data_u32_def
      SIMPLE_CMP_def)

text \<open>
  An unsigned integer compared with a negative one answers that it is smaller, in both directions:
  the order is not antisymmetric there.
\<close>

theorem cmp_unsigned_negative:
  assumes "ta \<in> int_types" and "tb \<in> int_types" and "cmp_int_exception ta tb vb"
  shows "pointless_cmp_int_float ta va tb vb = -1 \<and> pointless_cmp_int_float tb vb ta va = -1 \<and>
    int_value tb vb < int_value ta va"
proof -
  have less: "int_value tb vb < int_value ta va" by (rule cmp_int_exception_value [OF assms(1,3)])
  have "\<not> cmp_int_exception tb ta va" using assms(3) by (simp add: cmp_int_exception_def)
  then have "pointless_cmp_int_float tb vb ta va = SIMPLE_CMP (int_value tb vb) (int_value ta va)"
    using cmp_int_int [OF assms(2,1)] by simp
  with less assms(3) cmp_int_int [OF assms(1,2), of va vb] show ?thesis
    by (simp add: SIMPLE_CMP_def)
qed

theorem cmp_unsigned_negative_witness:
  "pointless_cmp_int_float POINTLESS_U32 5 POINTLESS_I32 4294967295 = -1"
  using cmp_unsigned_negative [of POINTLESS_U32 POINTLESS_I32 4294967295 5]
  by (simp add: cmp_int_exception_def pointless_is_signed_def int_value_def complete_data_u32_def)

text \<open>
  The depth limit cuts the recursion of a comparison after 257 nested calls, so a larger stack changes
  no answer, even on cyclic vectors.
\<close>

theorem comparison_depth_bounded:
  "pointless_cmp_reader_rec (257 + k) True p_a a p_b b 0 = pointless_cmp_reader p_a a p_b b"
  unfolding pointless_cmp_reader_def by (rule cmp_rec_fuel) simp_all

end
