(* ===== verification/Float_Laws.thy ===== *)
theory Float_Laws
  imports Hash
begin

text \<open>
  Floats as hash keys: a float that is neither NaN nor a zero is determined by its value, floats that
  compare equal hash equal, and a float hashes as every integer of at most 24 bits it equals.
\<close>

unbundle bit_operations_syntax

text \<open>The bits of a float that is neither NaN nor a zero are determined by its value.\<close>

definition f32_mag :: "nat \<Rightarrow> int \<Rightarrow> int" where
  "f32_mag e m = (if e = 0 then m else (8388608 + m) * 2 ^ (e - 1))"

lemma f32_mag_less:
  assumes "0 \<le> m" "m < 8388608" "0 \<le> m'" "e < e'"
  shows "f32_mag e m < f32_mag e' m'"
proof -
  have "f32_mag e m < 8388608 * 2 ^ e"
  proof (cases e)
    case (Suc k)
    have "(8388608 + m) * 2 ^ k < 16777216 * 2 ^ k" using assms by (intro mult_strict_right_mono) simp_all
    with Suc show ?thesis by (simp add: f32_mag_def)
  qed (use assms in \<open>simp add: f32_mag_def\<close>)
  also have "(8388608 :: int) * 2 ^ e \<le> 8388608 * 2 ^ (e' - 1)"
    using assms(4) by (intro mult_left_mono power_increasing) simp_all
  also have "\<dots> \<le> (8388608 + m') * 2 ^ (e' - 1)" using assms(3) by (intro mult_right_mono) simp_all
  also have "\<dots> = f32_mag e' m'" using assms(4) by (simp add: f32_mag_def)
  finally show ?thesis .
qed

lemma f32_mag_inj:
  assumes "0 \<le> m" "m < 8388608" "0 \<le> m'" "m' < 8388608" "f32_mag e m = f32_mag e' m'"
  shows "e = e' \<and> m = m'"
proof -
  have "e = e'" using f32_mag_less [OF assms(1-3), of e e'] f32_mag_less [OF assms(3,4,1), of e' e] assms(5)
    by (cases e e' rule: linorder_cases) simp_all
  with assms(5) show ?thesis by (auto simp: f32_mag_def split: if_splits)
qed

lemma f32_mag_nonneg: "0 \<le> m \<Longrightarrow> 0 \<le> f32_mag e m"
  by (simp add: f32_mag_def)

abbreviation (input) f_sign :: "u32 \<Rightarrow> bool" where "f_sign w \<equiv> bit w 31"
abbreviation (input) f_exp :: "u32 \<Rightarrow> nat" where "f_exp w \<equiv> unat (take_bit 8 (drop_bit 23 w))"
abbreviation (input) f_man :: "u32 \<Rightarrow> int" where "f_man w \<equiv> uint (take_bit 23 w)"

lemma f32_fields_eq:
  assumes "f_sign v = f_sign w" "f_exp v = f_exp w" "f_man v = f_man w"
  shows "v = w"
proof (rule bit_word_eqI)
  fix n assume n: "n < LENGTH(32)"
  have e: "take_bit 8 (drop_bit 23 v) = take_bit 8 (drop_bit 23 w)"
    using assms(2) by (simp only: word_unat_eq_iff)
  have m: "take_bit 23 v = take_bit 23 w" using assms(3) by (simp only: word_uint_eq_iff)
  consider "n < 23" | "23 \<le> n" "n < 31" | "n = 31" using n by fastforce
  then show "bit v n = bit w n"
  proof cases
    case 1
    then show ?thesis using arg_cong [OF m, of "\<lambda>x. bit x n"] by (simp add: bit_simps)
  next
    case 2
    moreover from this have "n - 23 < 8" by arith
    ultimately show ?thesis using arg_cong [OF e, of "\<lambda>x. bit x (n - 23)"] by (simp add: bit_simps)
  next
    case 3
    then show ?thesis using assms(1) by simp
  qed
qed

lemma f32_bits_val_fields:
  "f32_bits_val w =
     (if f_exp w = 255 then if f_man w = 0 then F_Inf (f_sign w) else F_NaN
      else F_Fin ((if f_sign w then -1 else 1) * f32_mag (f_exp w) (f_man w)))"
  by (simp add: f32_bits_val_def f32_mag_def Let_def del: of_nat_unat)

lemma f_man_bounds: "0 \<le> f_man w" "f_man w < 8388608"
  using take_bit_int_less_exp [of 23 "uint w"] by (simp_all add: unsigned_take_bit_eq)

lemma f32_bits_inj:
  assumes eq: "f32_eq (f32_bits_val v) (f32_bits_val w)" and nz: "f32_bits_val v \<noteq> F_Fin 0"
  shows "v = w"
proof (cases "f_exp v = 255 \<or> f_exp w = 255")
  case True
  with eq show ?thesis
    by (intro f32_fields_eq) (auto simp: f32_bits_val_fields split: if_splits)
next
  case False
  let ?s = "\<lambda>w. (if f_sign w then -1 else 1) :: int" and ?g = "\<lambda>w. f32_mag (f_exp w) (f_man w)"
  have e: "?s v * ?g v = ?s w * ?g w" and z: "?s v * ?g v \<noteq> 0"
    using eq nz False by (auto simp: f32_bits_val_fields split: if_splits)
  have p: "0 \<le> ?g v" "0 \<le> ?g w" by (rule f32_mag_nonneg, rule f_man_bounds)+
  with e z have "f_sign v = f_sign w" "?g v = ?g w"
    by (auto split: if_splits)
  then show ?thesis using f32_mag_inj [OF f_man_bounds f_man_bounds] by (intro f32_fields_eq) blast+
qed

lemma float_hash_coherent:
  assumes "f32_eq (f32_bits_val v) (f32_bits_val w)"
  shows "pointless_hash_float_32 v = pointless_hash_float_32 w"
proof (cases "f32_bits_val v = F_Fin 0")
  case True
  with assms have "f32_bits_val w = F_Fin 0" by (cases "f32_bits_val w") simp_all
  with True show ?thesis by (simp add: pointless_hash_float_32_def f32_integral_def)
qed (use f32_bits_inj [OF assms] in simp)

lemma int_float_hash_coherent:
  assumes "\<bar>n\<bar> < 16777216" "f32_eq (f32_of_int n) (f32_bits_val w)"
  shows "pointless_hash_float_32 w = word_of_int n"
proof -
  have "f32_bits_val w = F_Fin (n * 2 ^ 149)"
    using assms(2) unfolding f32_of_int_small [OF assms(1)] by (cases "f32_bits_val w") simp_all
  then have "f32_integral (f32_bits_val w) = Some n" by (simp only: f32_integral_Fin_mult)
  with assms(1) show ?thesis by (auto simp: pointless_hash_float_32_def)
qed

lemma f32_eq_sym: "f32_eq a b = f32_eq b a"
  by (cases a; cases b) auto

end
