(* ===== verification/Key_Laws.thy ===== *)
theory Key_Laws
  imports Cmp_Laws Float_Laws Bitvector_Laws Strings_Laws
begin

text \<open>
  The abstract key a hashable value denotes, and what the two operations of a hash table on keys, the
  comparison and the hash, promise in terms of it: the comparison decides the equality of the abstract
  keys, the hash is a function of the abstract key.
\<close>

unbundle bit_operations_syntax

section \<open>Abstract keys\<close>

datatype key =
  K_Int int
| K_Float u32
| K_Str "u32 list"
| K_Bits u32 "bool list"
| K_Null
| K_Empty
| K_Vec "key list"

abbreviation (input) native_vector_types :: "u32 set" where
  "native_vector_types \<equiv>
     {POINTLESS_VECTOR_I8, POINTLESS_VECTOR_U8, POINTLESS_VECTOR_I16, POINTLESS_VECTOR_U16,
      POINTLESS_VECTOR_I32, POINTLESS_VECTOR_U32, POINTLESS_VECTOR_I64, POINTLESS_VECTOR_U64,
      POINTLESS_VECTOR_FLOAT, POINTLESS_VECTOR_EMPTY}"

abbreviation (input) bitvector_types :: "u32 set" where
  "bitvector_types \<equiv>
     {POINTLESS_BITVECTOR, POINTLESS_BITVECTOR_0, POINTLESS_BITVECTOR_1, POINTLESS_BITVECTOR_01,
      POINTLESS_BITVECTOR_10, POINTLESS_BITVECTOR_PACKED}"

text \<open>
  Nested at most \<open>fuel\<close> deep; \<open>None\<close> for a value that is not a key: a set, a map, a vector that is
  not hashable, or one that holds such a value.
\<close>

fun key_of :: "nat \<Rightarrow> pointless_t \<Rightarrow> pointless_complete_value_t \<Rightarrow> key option" where
  "key_of 0 p a = None"
| "key_of (Suc fuel) p a =
     (let t = cv_type a; v = pointless_value_from_complete a in
      if t \<in> int_types then Some (K_Int (int_value t (cv_data a)))
      else if t = POINTLESS_FLOAT then Some (K_Float (complete_data_u32 (cv_data a)))
      else if t = POINTLESS_UNICODE then
        do { s \<leftarrow> pointless_reader_unicode_value_ucs4 p v; map_option K_Str (code_points s) }
      else if t = POINTLESS_STRING then
        do { s \<leftarrow> pointless_reader_string_value_ascii p v; map_option K_Str (code_points s) }
      else if t \<in> bitvector_types then
        do { buffer \<leftarrow> reader_buffer_or_null p v; map_option (K_Bits t) (bv_abs t (v_data v) buffer) }
      else if t = POINTLESS_NULL then Some K_Null
      else if t = POINTLESS_EMPTY_SLOT then Some K_Empty
      else if t = POINTLESS_VECTOR_VALUE_HASHABLE \<or> t \<in> native_vector_types then
        do { n \<leftarrow> pointless_reader_vector_n_items p v;
             map_option K_Vec (those (map
               (\<lambda>i. do { x \<leftarrow> pointless_cmp_vector_value_reader p a i;
                         if t = POINTLESS_VECTOR_VALUE_HASHABLE \<and>
                            \<not> pointless_is_hashable (cv_type x)
                         then None else key_of fuel p x }) [0..<unat n])) }
      else None)"

text \<open>The hash of an abstract key.\<close>

definition vec_hash :: "u32 list \<Rightarrow> u32" where
  "vec_hash hs =
     pointless_vector_hash_end_32
       (fold (\<lambda>h s. pointless_vector_hash_next_32 s h) hs
             (pointless_vector_hash_init_32 (of_nat (length hs))))"

fun key_hash :: "key \<Rightarrow> u32" where
  "key_hash (K_Int n) = word_of_int n"
| "key_hash (K_Float w) = pointless_hash_float_32 w"
| "key_hash (K_Str cs) = string_hash cs"
| "key_hash (K_Bits t bs) = bv_hash bs 1"
| "key_hash K_Null = 0"
| "key_hash K_Empty = 0"
| "key_hash (K_Vec ks) = vec_hash (map key_hash ks)"

text \<open>When two abstract keys are equal for the code: an integer is rounded to a float first.\<close>

fun key_eq :: "key \<Rightarrow> key \<Rightarrow> bool" where
  "key_eq (K_Int m) t =
     (case t of K_Int n \<Rightarrow> m = n | K_Float w \<Rightarrow> f32_eq (f32_of_int m) (f32_bits_val w) | _ \<Rightarrow> False)"
| "key_eq (K_Float v) t =
     (case t of K_Int n \<Rightarrow> f32_eq (f32_bits_val v) (f32_of_int n)
      | K_Float w \<Rightarrow> f32_eq (f32_bits_val v) (f32_bits_val w) | _ \<Rightarrow> False)"
| "key_eq (K_Str a) t = (case t of K_Str b \<Rightarrow> a = b | _ \<Rightarrow> False)"
| "key_eq (K_Bits _ a) t = (case t of K_Bits _ b \<Rightarrow> a = b | _ \<Rightarrow> False)"
| "key_eq K_Null t = (case t of K_Null \<Rightarrow> True | _ \<Rightarrow> False)"
| "key_eq K_Empty t = (case t of K_Empty \<Rightarrow> True | _ \<Rightarrow> False)"
| "key_eq (K_Vec xs) t = (case t of K_Vec ys \<Rightarrow> list_all2 key_eq xs ys | _ \<Rightarrow> False)"

lemma zip_size [termination_simp]:
  "(x, y) \<in> set (zip xs ys) \<Longrightarrow> size x < Suc (size_list size xs)"
  "(x, y) \<in> set (zip xs ys) \<Longrightarrow> size y < Suc (size_list size ys)"
  using size_list_estimation' [of x xs "size x" size] size_list_estimation' [of y ys "size y" size]
  by (auto simp: less_Suc_eq_le dest: set_zip_leftD set_zip_rightD)

text \<open>Bitvectors that meet in a comparison have one representation.\<close>

fun bits_agree :: "key \<Rightarrow> key \<Rightarrow> bool" where
  "bits_agree (K_Bits s _) t = (case t of K_Bits t' _ \<Rightarrow> s = t' | _ \<Rightarrow> True)"
| "bits_agree (K_Vec xs) t =
     (case t of K_Vec ys \<Rightarrow> list_all (\<lambda>(x, y). bits_agree x y) (zip xs ys) | _ \<Rightarrow> True)"
| "bits_agree (K_Int _) t = True"
| "bits_agree (K_Float _) t = True"
| "bits_agree (K_Str _) t = True"
| "bits_agree K_Null t = True"
| "bits_agree K_Empty t = True"

section \<open>Comparing\<close>

lemma SIMPLE_CMP_f_eq_0: "SIMPLE_CMP_f x y = 0 \<longleftrightarrow> f32_eq x y"
  by (simp add: SIMPLE_CMP_f_def)

lemma int_as_float_value: "t \<in> int_types \<Longrightarrow> int_as_float t v = f32_of_int (int_value t v)"
  using signed_value [of t v] unsigned_value [of t v] by (auto simp: int_as_float_def)

definition key_kind :: "key \<Rightarrow> cmp_cb" where
  "key_kind k =
     (case k of K_Int _ \<Rightarrow> Cmp_Int_Float | K_Float _ \<Rightarrow> Cmp_Int_Float | K_Str _ \<Rightarrow> Cmp_String_Unicode
      | K_Bits _ _ \<Rightarrow> Cmp_Bitvector | K_Null \<Rightarrow> Cmp_Null | K_Empty \<Rightarrow> Cmp_Empty_Slot
      | K_Vec _ \<Rightarrow> Cmp_Vector)"

text \<open>The shapes a key comes from.\<close>

lemma key_of_SomeE:
  assumes "key_of f p a = Some k"
  obtains (Int) "cv_type a \<in> int_types" "k = K_Int (int_value (cv_type a) (cv_data a))"
  | (Float) "cv_type a = POINTLESS_FLOAT" "k = K_Float (complete_data_u32 (cv_data a))"
  | (Unicode) s cs where "cv_type a = POINTLESS_UNICODE"
      "pointless_reader_unicode_value_ucs4 p (pointless_value_from_complete a) = Some s"
      "code_points s = Some cs" "k = K_Str cs"
  | (String) s cs where "cv_type a = POINTLESS_STRING"
      "pointless_reader_string_value_ascii p (pointless_value_from_complete a) = Some s"
      "code_points s = Some cs" "k = K_Str cs"
  | (Bits) buffer bs where "cv_type a \<in> bitvector_types"
      "reader_buffer_or_null p (pointless_value_from_complete a) = Some buffer"
      "bv_abs (cv_type a) (v_data (pointless_value_from_complete a)) buffer = Some bs"
      "k = K_Bits (cv_type a) bs"
  | (Null) "cv_type a = POINTLESS_NULL" "k = K_Null"
  | (Empty) "cv_type a = POINTLESS_EMPTY_SLOT" "k = K_Empty"
  | (Vec) g n ks where "f = Suc g"
      "cv_type a = POINTLESS_VECTOR_VALUE_HASHABLE \<or> cv_type a \<in> native_vector_types"
      "pointless_reader_vector_n_items p (pointless_value_from_complete a) = Some n"
      "those (map (\<lambda>i. do { x \<leftarrow> pointless_cmp_vector_value_reader p a i;
                   if cv_type a = POINTLESS_VECTOR_VALUE_HASHABLE \<and>
                      \<not> pointless_is_hashable (cv_type x)
                   then None else key_of g p x }) [0..<unat n]) = Some ks"
      "k = K_Vec ks"
proof -
  from assms obtain g where f: "f = Suc g" by (cases f) simp_all
  note eq = assms [unfolded f key_of.simps Let_def]
  show thesis
  proof (cases "cv_type a \<in> int_types")
    case True
    then show thesis using eq by (intro Int) (simp_all only: if_True option.inject)
  next
    case 1: False
    note eq = eq [unfolded if_not_P [OF 1]]
    show thesis
    proof (cases "cv_type a = POINTLESS_FLOAT \<or> cv_type a = POINTLESS_UNICODE \<or> cv_type a = POINTLESS_STRING")
      case True
      then show thesis using eq
        by (elim disjE) (auto elim!: bind_eq_Some_E intro: Float Unicode String)
    next
      case 2: False
      then have n: "cv_type a \<noteq> POINTLESS_FLOAT" "cv_type a \<noteq> POINTLESS_UNICODE"
        "cv_type a \<noteq> POINTLESS_STRING" by simp_all
      note eq = eq [unfolded if_not_P [OF n(1)] if_not_P [OF n(2)] if_not_P [OF n(3)]]
      show thesis
      proof (cases "cv_type a \<in> bitvector_types")
        case True
        show thesis using eq [unfolded if_P [OF True]]
          by (elim bind_eq_Some_E) (use True in \<open>auto simp only: map_option_eq_Some intro: Bits\<close>)
      next
        case 3: False
        note eq = eq [unfolded if_not_P [OF 3]]
        show thesis using eq
          by (simp only: split: if_split_asm) (use f in \<open>auto simp only: map_option_eq_Some option.inject option.distinct elim!: bind_eq_Some_E intro: Null Empty Vec\<close>)
      qed
    qed
  qed
qed

lemma cmp_func_of_constants:
  "pointless_cmp_reader_func POINTLESS_FLOAT = Some Cmp_Int_Float"
  "pointless_cmp_reader_func POINTLESS_UNICODE = Some Cmp_String_Unicode"
  "pointless_cmp_reader_func POINTLESS_STRING = Some Cmp_String_Unicode"
  "pointless_cmp_reader_func POINTLESS_NULL = Some Cmp_Null"
  "pointless_cmp_reader_func POINTLESS_EMPTY_SLOT = Some Cmp_Empty_Slot"
  "pointless_cmp_reader_func POINTLESS_VECTOR_VALUE_HASHABLE = Some Cmp_Vector"
  by (simp_all add: pointless_cmp_reader_func_def)

lemma cmp_func_of_sets:
  "list_all (\<lambda>t. pointless_cmp_reader_func t = Some Cmp_Int_Float)
     [POINTLESS_I32, POINTLESS_U32, POINTLESS_I64, POINTLESS_U64, POINTLESS_BOOLEAN]"
  "list_all (\<lambda>t. pointless_cmp_reader_func t = Some Cmp_Bitvector)
     [POINTLESS_BITVECTOR, POINTLESS_BITVECTOR_0, POINTLESS_BITVECTOR_1, POINTLESS_BITVECTOR_01,
      POINTLESS_BITVECTOR_10, POINTLESS_BITVECTOR_PACKED]"
  "list_all (\<lambda>t. pointless_cmp_reader_func t = Some Cmp_Vector)
     [POINTLESS_VECTOR_I8, POINTLESS_VECTOR_U8, POINTLESS_VECTOR_I16, POINTLESS_VECTOR_U16,
      POINTLESS_VECTOR_I32, POINTLESS_VECTOR_U32, POINTLESS_VECTOR_I64, POINTLESS_VECTOR_U64,
      POINTLESS_VECTOR_FLOAT, POINTLESS_VECTOR_EMPTY]"
  by (simp_all add: pointless_cmp_reader_func_def)

lemma cmp_func_in_sets:
  "t \<in> int_types \<Longrightarrow> pointless_cmp_reader_func t = Some Cmp_Int_Float"
  "t \<in> bitvector_types \<Longrightarrow> pointless_cmp_reader_func t = Some Cmp_Bitvector"
  "t \<in> native_vector_types \<Longrightarrow> pointless_cmp_reader_func t = Some Cmp_Vector"
  using cmp_func_of_sets by (simp_all only: list_all_iff list.set)

lemmas cmp_func_simps = cmp_func_of_constants cmp_func_in_sets

lemma key_of_kind:
  "key_of f p a = Some k \<Longrightarrow> pointless_cmp_reader_func (cv_type a) = Some (key_kind k)"
proof (erule key_of_SomeE)
  assume "cv_type a = POINTLESS_VECTOR_VALUE_HASHABLE \<or> cv_type a \<in> native_vector_types"
  then have "pointless_cmp_reader_func (cv_type a) = Some Cmp_Vector"
    by (elim disjE) (simp_all only: cmp_func_simps)
  moreover fix ks assume "k = K_Vec ks"
  ultimately show ?thesis by (simp add: key_kind_def)
qed (simp_all only: key_kind_def key.case cmp_func_simps)

lemma key_eq_kind: "key_eq s t \<Longrightarrow> key_kind s = key_kind t"
  by (cases s) (simp_all add: key_kind_def split: key.split_asm)

lemma cmp_string_zero:
  assumes "LENGTH('a) \<le> 32" "LENGTH('b) \<le> 32"
    and "code_points (a :: 'a::len word list) = Some ca"
    and "code_points (b :: 'b::len word list) = Some cb"
  shows "\<exists>c. cmp_string a b = Some c \<and> (c = 0 \<longleftrightarrow> ca = cb)"
  using cmp_string_eq [OF assms] by (simp add: lex_cmp_SIMPLE_CMP_eq_0)

lemmas cmp_string_zeros =
  cmp_string_zero [where 'a = 8 and 'b = 8, simplified]
  cmp_string_zero [where 'a = 8 and 'b = 32, simplified]
  cmp_string_zero [where 'a = 32 and 'b = 8, simplified]
  cmp_string_zero [where 'a = 32 and 'b = 32, simplified]

lemma key_of_StrD:
  assumes "key_of f p a = Some (K_Str cs)"
  shows "cv_type a = POINTLESS_UNICODE \<and> (\<exists>s. code_points s = Some cs \<and>
      pointless_reader_unicode_value_ucs4 p (pointless_value_from_complete a) = Some s) \<or>
    cv_type a = POINTLESS_STRING \<and> (\<exists>s. code_points s = Some cs \<and>
      pointless_reader_string_value_ascii p (pointless_value_from_complete a) = Some s)"
  using assms by (elim key_of_SomeE) simp_all

lemma cmp_reader_strings:
  assumes "key_of f p a = Some (K_Str ca)" and "key_of f' q b = Some (K_Str cb)"
  shows "\<exists>c. pointless_cmp_reader_string_unicode p a q b = Some c \<and> (c = 0 \<longleftrightarrow> ca = cb)"
  using key_of_StrD [OF assms(1)] key_of_StrD [OF assms(2)]
  by (elim disjE conjE exE)
    (simp_all add: pointless_cmp_reader_string_unicode_def Let_def pointless_cmp_string_8_8_def
      pointless_cmp_string_8_32_def pointless_cmp_string_32_8_def pointless_cmp_string_32_32_def
      cmp_string_zeros)

lemma cmp_reader_bitvectors:
  assumes "key_of f p a = Some (K_Bits t xs)" and "key_of f' q b = Some (K_Bits t ys)"
  shows "\<exists>c. pointless_cmp_reader_bitvector p a q b = Some c \<and> (c = 0 \<longleftrightarrow> xs = ys)"
proof -
  from assms(1) obtain ba where a: "cv_type a = t"
    "reader_buffer_or_null p (pointless_value_from_complete a) = Some ba"
    "bv_abs t (v_data (pointless_value_from_complete a)) ba = Some xs"
    by (elim key_of_SomeE) simp_all
  from assms(2) obtain bb where b: "cv_type b = t"
    "reader_buffer_or_null q (pointless_value_from_complete b) = Some bb"
    "bv_abs t (v_data (pointless_value_from_complete b)) bb = Some ys"
    by (elim key_of_SomeE) simp_all
  show ?thesis
    using bitvector_cmp_same_type [OF a(3) b(3)] a(1,2) b(1,2)
    by (simp add: pointless_cmp_reader_bitvector_def Let_def lex_cmp_SIMPLE_CMP_eq_0)
qed

lemma cmp_reader_numbers:
  assumes "key_of f p a = Some s" and "key_of f' q b = Some t"
    and "key_kind s = Cmp_Int_Float" and "key_kind t = Cmp_Int_Float"
  shows "pointless_cmp_int_float (cv_type a) (cv_data a) (cv_type b) (cv_data b) = 0 \<longleftrightarrow> key_eq s t"
proof -
  have s: "cv_type a \<in> int_types \<and> s = K_Int (int_value (cv_type a) (cv_data a)) \<or>
    cv_type a = POINTLESS_FLOAT \<and> s = K_Float (complete_data_u32 (cv_data a))"
    using assms(1,3) by (elim key_of_SomeE) (simp_all add: key_kind_def)
  have t: "cv_type b \<in> int_types \<and> t = K_Int (int_value (cv_type b) (cv_data b)) \<or>
    cv_type b = POINTLESS_FLOAT \<and> t = K_Float (complete_data_u32 (cv_data b))"
    using assms(2,4) by (elim key_of_SomeE) (simp_all add: key_kind_def)
  have nf: "x \<in> int_types \<Longrightarrow> x \<noteq> POINTLESS_FLOAT" for x by auto
  from s t show ?thesis
  proof (elim disjE conjE)
    assume "cv_type a \<in> int_types" "cv_type b \<in> int_types"
      and k: "s = K_Int (int_value (cv_type a) (cv_data a))" "t = K_Int (int_value (cv_type b) (cv_data b))"
    then show ?thesis by (simp only: cmp_int_eq_0 key_eq.simps key.case)
  next
    assume "cv_type a \<in> int_types" "cv_type b = POINTLESS_FLOAT"
      and k: "s = K_Int (int_value (cv_type a) (cv_data a))" "t = K_Float (complete_data_u32 (cv_data b))"
    then show ?thesis
      by (simp only: pointless_cmp_int_float_def nf simp_thms if_False if_True int_as_float_value
          SIMPLE_CMP_f_eq_0 key_eq.simps key.case)
  next
    assume "cv_type a = POINTLESS_FLOAT" "cv_type b \<in> int_types"
      and k: "s = K_Float (complete_data_u32 (cv_data a))" "t = K_Int (int_value (cv_type b) (cv_data b))"
    then show ?thesis
      by (simp only: pointless_cmp_int_float_def nf simp_thms if_False if_True int_as_float_value
          SIMPLE_CMP_f_eq_0 key_eq.simps key.case)
  next
    assume "cv_type a = POINTLESS_FLOAT" "cv_type b = POINTLESS_FLOAT"
      and k: "s = K_Float (complete_data_u32 (cv_data a))" "t = K_Float (complete_data_u32 (cv_data b))"
    then show ?thesis
      by (simp only: pointless_cmp_int_float_def simp_thms if_True SIMPLE_CMP_f_eq_0 key_eq.simps key.case)
  qed
qed

lemma those_map_upt:
  "those (map f [0..<n]) = Some ys \<longleftrightarrow> length ys = n \<and> (\<forall>i < n. f i = Some (ys ! i))"
  by (simp add: those_Some_iff)

lemma list_all2_zip_nth:
  "list_all (\<lambda>(x, y). P x y) (zip xs ys) \<longleftrightarrow> (\<forall>i < min (length xs) (length ys). P (xs ! i) (ys ! i))"
  by (auto simp: list_all_length)

text \<open>The items of a vector key.\<close>

lemma key_of_VecD:
  assumes "key_of (Suc f) p a = Some (K_Vec xs)"
  shows "\<exists>n. pointless_reader_vector_n_items p (pointless_value_from_complete a) = Some n \<and>
    length xs = unat n \<and>
    (\<forall>i < unat n. \<exists>x. pointless_cmp_vector_value_reader p a i = Some x \<and> key_of f p x = Some (xs ! i) \<and>
       (cv_type a = POINTLESS_VECTOR_VALUE_HASHABLE \<longrightarrow> pointless_is_hashable (cv_type x)))"
  using assms
proof (rule key_of_SomeE)
  fix g n ks
  assume g: "Suc f = Suc g"
    and n: "pointless_reader_vector_n_items p (pointless_value_from_complete a) = Some n"
    and ks: "those (map (\<lambda>i. do { x \<leftarrow> pointless_cmp_vector_value_reader p a i;
                   if cv_type a = POINTLESS_VECTOR_VALUE_HASHABLE \<and>
                      \<not> pointless_is_hashable (cv_type x)
                   then None else key_of g p x }) [0..<unat n]) = Some ks"
    and xs: "K_Vec xs = K_Vec ks"
  have len: "length xs = unat n" using ks xs by (simp add: those_map_upt)
  have "\<exists>x. pointless_cmp_vector_value_reader p a i = Some x \<and> key_of f p x = Some (xs ! i) \<and>
       (cv_type a = POINTLESS_VECTOR_VALUE_HASHABLE \<longrightarrow> pointless_is_hashable (cv_type x))"
    if "i < unat n" for i
  proof -
    have "do { x \<leftarrow> pointless_cmp_vector_value_reader p a i;
               if cv_type a = POINTLESS_VECTOR_VALUE_HASHABLE \<and>
                  \<not> pointless_is_hashable (cv_type x)
               then None else key_of g p x } = Some (xs ! i)"
      using ks xs that by (simp only: those_map_upt key.inject)
    then show ?thesis using g by (elim bind_eq_Some_E) (simp split: if_split_asm)
  qed
  with n len show ?thesis by blast
qed simp_all

text \<open>What the recursion of the comparison does for two vectors.\<close>

lemma cmp_rec_vectors:
  assumes "pointless_cmp_reader_func (cv_type a) = Some Cmp_Vector"
    and "pointless_cmp_reader_func (cv_type b) = Some Cmp_Vector" and "depth < 512"
    and "pointless_reader_vector_n_items p (pointless_value_from_complete a) = Some na"
    and "pointless_reader_vector_n_items q (pointless_value_from_complete b) = Some nb"
  shows "pointless_cmp_reader_rec (Suc fuel) True p a q b depth =
    cmp_vector_loop True
      (\<lambda>i. do { c_a \<leftarrow> pointless_cmp_vector_value_reader p a i;
                c_b \<leftarrow> pointless_cmp_vector_value_reader q b i;
                pointless_cmp_reader_rec fuel True p c_a q c_b (depth + 2) })
      [0..<unat (if na < nb then na else nb)] (SIMPLE_CMP na nb)"
  using assms by (simp add: Let_def)

lemma cmp_rec_key_eq:
  assumes "key_of f p a = Some s" and "key_of f q b = Some t" and "bits_agree s t"
    and "depth + 2 * f \<le> 512" and "0 < f"
  shows "\<exists>c. pointless_cmp_reader_rec (f + k) True p a q b depth = Some (Inr c) \<and> (c = 0 \<longleftrightarrow> key_eq s t)"
  using assms
proof (induction f arbitrary: a b s t depth)
  case (Suc f)
  note ka = Suc.prems(1) and kb = Suc.prems(2)
  have d: "depth < 512" using Suc.prems(4) by simp
  have fa: "pointless_cmp_reader_func (cv_type a) = Some (key_kind s)" by (rule key_of_kind [OF ka])
  have fb: "pointless_cmp_reader_func (cv_type b) = Some (key_kind t)" by (rule key_of_kind [OF kb])
  show ?case
  proof (cases "key_kind s = key_kind t")
    case False
    then have "cv_type a \<noteq> cv_type b" using fa fb by auto
    moreover have "\<not> key_eq s t" using False key_eq_kind by blast
    ultimately show ?thesis using False fa fb d by simp
  next
    case True
    note eq = pointless_cmp_reader_rec.simps(2) add_Suc Let_def fa fb True
    show ?thesis
    proof (cases "key_kind t")
      case Cmp_Int_Float
      then show ?thesis using cmp_reader_numbers [OF ka kb] True d by (simp add: eq)
    next
      case Cmp_String_Unicode
      then obtain ca cb where st: "s = K_Str ca" "t = K_Str cb"
        using True by (auto simp: key_kind_def split: key.splits)
      show ?thesis using cmp_reader_strings [OF ka [unfolded st(1)] kb [unfolded st(2)]] d
          Cmp_String_Unicode by (auto simp: eq st key_kind_def)
    next
      case Cmp_Bitvector
      then obtain u v ca cb where st: "s = K_Bits u ca" "t = K_Bits v cb"
        using True by (auto simp: key_kind_def split: key.splits)
      have "u = v" using Suc.prems(3) st by simp
      then show ?thesis
        using cmp_reader_bitvectors [OF ka [unfolded st(1)] kb [unfolded st(2), folded \<open>u = v\<close>]]
          d Cmp_Bitvector by (auto simp: eq st key_kind_def)
    next
      case Cmp_Null
      then have "s = K_Null" "t = K_Null" using True by (auto simp: key_kind_def split: key.splits)
      with Cmp_Null d show ?thesis by (simp add: eq)
    next
      case Cmp_Empty_Slot
      then have "s = K_Empty" "t = K_Empty" using True by (auto simp: key_kind_def split: key.splits)
      with Cmp_Empty_Slot d show ?thesis by (simp add: eq)
    next
      case Cmp_Vector
      then obtain xs ys where st: "s = K_Vec xs" "t = K_Vec ys"
        using True by (auto simp: key_kind_def split: key.splits)
      obtain na where na: "pointless_reader_vector_n_items p (pointless_value_from_complete a) = Some na"
        "length xs = unat na" and ia: "\<And>i. i < unat na \<Longrightarrow>
          \<exists>x. pointless_cmp_vector_value_reader p a i = Some x \<and> key_of f p x = Some (xs ! i)"
        using key_of_VecD [OF ka [unfolded st(1)]] by blast
      obtain nb where nb: "pointless_reader_vector_n_items q (pointless_value_from_complete b) = Some nb"
        "length ys = unat nb" and ib: "\<And>i. i < unat nb \<Longrightarrow>
          \<exists>x. pointless_cmp_vector_value_reader q b i = Some x \<and> key_of f q x = Some (ys ! i)"
        using key_of_VecD [OF kb [unfolded st(2)]] by blast
      let ?n = "unat (if na < nb then na else nb)"
      have n: "?n = min (length xs) (length ys)"
        using na(2) nb(2) by (simp add: word_less_nat_alt min_def)
      let ?item = "\<lambda>i. do { c_a \<leftarrow> pointless_cmp_vector_value_reader p a i;
                c_b \<leftarrow> pointless_cmp_vector_value_reader q b i;
                pointless_cmp_reader_rec (f + k) True p c_a q c_b (depth + 2) }"
      have item: "\<exists>c. ?item i = Some (Inr c) \<and> (c = 0 \<longleftrightarrow> key_eq (xs ! i) (ys ! i))" if i: "i < ?n" for i
      proof -
        from i n na nb obtain x y where x: "pointless_cmp_vector_value_reader p a i = Some x"
          "key_of f p x = Some (xs ! i)" and y: "pointless_cmp_vector_value_reader q b i = Some y"
          "key_of f q y = Some (ys ! i)" using ia [of i] ib [of i] by auto
        have ag: "bits_agree (xs ! i) (ys ! i)"
          using Suc.prems(3) i n by (simp add: st list_all2_zip_nth)
        have "0 < f" using x(2) by (cases f) simp_all
        then have "\<exists>c. pointless_cmp_reader_rec (f + k) True p x q y (depth + 2) = Some (Inr c) \<and>
            (c = 0 \<longleftrightarrow> key_eq (xs ! i) (ys ! i))"
          using Suc.prems(4) by (intro Suc.IH [OF x(2) y(2) ag]) simp_all
        then show ?thesis using x(1) y(1) by simp
      qed
      then obtain c where c: "\<And>i. i < ?n \<Longrightarrow> ?item i = Some (Inr (c i)) \<and> (c i = 0 \<longleftrightarrow> key_eq (xs ! i) (ys ! i))"
        by metis
      obtain r where r: "cmp_vector_loop True ?item [0..<?n] (SIMPLE_CMP na nb) = Some (Inr r)"
        "r = 0 \<longleftrightarrow> (\<forall>i \<in> set [0..<?n]. c i = 0) \<and> SIMPLE_CMP na nb = 0"
        using cmp_vector_loop_zero [of "[0..<?n]" ?item c "SIMPLE_CMP na nb"] c by auto
      have "pointless_cmp_reader_rec (Suc f + k) True p a q b depth = Some (Inr r)"
        using cmp_rec_vectors [OF _ _ d na(1) nb(1), of "f + k"] fa fb True Cmp_Vector r(1) by simp
      moreover have "r = 0 \<longleftrightarrow> key_eq s t"
        unfolding r(2) using c n na(2) nb(2)
        by (auto simp: st list_all2_conv_all_nth word_unat_eq_iff)
      ultimately show ?thesis by blast
    next
      case Cmp_Set
      then show ?thesis by (auto simp: key_kind_def split: key.splits)
    next
      case Cmp_Map
      then show ?thesis by (auto simp: key_kind_def split: key.splits)
    qed
  qed
qed simp

section \<open>Hashing\<close>

lemma vector_hash_loop_items:
  assumes "\<And>i. i \<in> set is \<Longrightarrow> item i = Some (h i)"
  shows "vector_hash_loop item is st =
    Some (pointless_vector_hash_end_32 (fold (\<lambda>x s. pointless_vector_hash_next_32 s x) (map h is) st))"
  using assms by (induction item "is" st rule: vector_hash_loop.induct) simp_all

lemma scast_down_ucast: "(scast (w :: u64) :: u32) = ucast w"
  by (rule bit_word_eqI) (auto simp: bit_simps)

lemma key_of_created:
  "key_of (Suc f) p (pointless_complete_value_create_as_read_i32 x) = Some (K_Int (sint x))"
  "key_of (Suc f) p (pointless_complete_value_create_as_read_u32 x) = Some (K_Int (uint x))"
  "key_of (Suc f) p (pointless_complete_value_create_as_read_i64 y) = Some (K_Int (sint y))"
  "key_of (Suc f) p (pointless_complete_value_create_as_read_u64 y) = Some (K_Int (uint y))"
  "key_of (Suc f) p (pointless_complete_value_create_as_read_float x) = Some (K_Float x)"
  by (simp_all add: pointless_complete_value_create_as_read_i32_def
      pointless_complete_value_create_as_read_u32_def pointless_complete_value_create_as_read_i64_def
      pointless_complete_value_create_as_read_u64_def pointless_complete_value_create_as_read_float_def
      pointless_value_create_as_read_i32_def pointless_value_create_as_read_u32_def
      pointless_value_create_as_read_float_def int_value_def Let_def)

text \<open>The hash of a native item, from the complete value the comparison sees.\<close>

lemma hash_native_item:
  assumes "cv_type a \<in> native_vector_types" and "cv_type a \<noteq> POINTLESS_VECTOR_EMPTY"
    and x: "pointless_cmp_vector_value_reader p a i = Some x" and k: "key_of f p x = Some k"
  shows "hash_vector_item rec p (pointless_value_from_complete a) i = Some (key_hash k)"
proof -
  obtain g where g: "f = Suc g" using k by (cases f) simp_all
  have t: "v_type (pointless_value_from_complete a) = cv_type a"
    by (simp add: pointless_value_from_complete_def)
  note d = hash_vector_item_def t Let_def pointless_hash_i32_32_def pointless_hash_u32_32_def
    pointless_cmp_vector_value_reader_def key_of_created scast_down_ucast
  note x = x [unfolded pointless_cmp_vector_value_reader_def Let_def]
  from assms(1,2) consider "cv_type a = POINTLESS_VECTOR_I8" | "cv_type a = POINTLESS_VECTOR_U8"
    | "cv_type a = POINTLESS_VECTOR_I16" | "cv_type a = POINTLESS_VECTOR_U16"
    | "cv_type a = POINTLESS_VECTOR_I32" | "cv_type a = POINTLESS_VECTOR_U32"
    | "cv_type a = POINTLESS_VECTOR_I64" | "cv_type a = POINTLESS_VECTOR_U64"
    | "cv_type a = POINTLESS_VECTOR_FLOAT" by blast
  then show ?thesis
    using x k [unfolded g]
    by cases (auto simp: d elim!: bind_eq_Some_E simp del: key_of.simps)
qed

lemma hash_func_vector:
  "t = POINTLESS_VECTOR_VALUE_HASHABLE \<or> t \<in> native_vector_types \<Longrightarrow>
     pointless_hash_reader_func_32 t = Some Hash_Vector"
  by (auto simp: pointless_hash_reader_func_32_def)

lemma hash_func_bitvector:
  "t \<in> bitvector_types \<Longrightarrow> pointless_hash_reader_func_32 t = Some Hash_Bitvector"
  by (auto simp: pointless_hash_reader_func_32_def)

lemma hashable_int:
  "t \<in> int_types \<Longrightarrow> pointless_is_hashable t \<Longrightarrow> t \<in> {POINTLESS_I32, POINTLESS_U32, POINTLESS_BOOLEAN}"
  by (auto simp: pointless_is_hashable_def pointless_hash_reader_func_32_def)

lemma hash_reader_key:
  assumes "key_of f p (pointless_value_to_complete v) = Some k" and "pointless_is_hashable (v_type v)"
  shows "pointless_hash_reader_32 f p v = Some (key_hash k)"
  using assms
proof (induction f arbitrary: v k)
  case (Suc f)
  let ?a = "pointless_value_to_complete v"
  note key = Suc.prems(1)
  note hf = pointless_hash_reader_func_32_def
  show ?case
  proof (cases rule: key_of_SomeE [OF key, unfolded cv_type_to_complete value_from_to_complete
      cv_data_to_complete, case_names Int Float Unicode String Bits Null Empty Vec])
    case Int
    from hashable_int [OF Int(1) Suc.prems(2)] show ?thesis
      by (auto simp: Int(2) int_value_def hf pointless_hash_int_32_def pointless_hash_i32_32_def
          pointless_hash_u32_32_def)
  next
    case Float
    then show ?thesis by (simp add: hf)
  next
    case (Unicode s cs)
    then show ?thesis
      by (simp add: hf pointless_hash_unicode_ucs4_v1_32_def python_string_hash_32_eq)
  next
    case (String s cs)
    then show ?thesis by (simp add: hf pointless_hash_string_v1_32_def python_string_hash_32_eq)
  next
    case (Bits buffer bs)
    then show ?thesis by (simp add: hash_func_bitvector bitvector_hash_32_eq)
  next
    case Null
    then show ?thesis by (simp add: hf)
  next
    case Empty
    then show ?thesis by (simp add: hf)
  next
    case (Vec g n ks)
    have ks: "length ks = unat n" and items: "\<And>i. i < unat n \<Longrightarrow>
        \<exists>x. pointless_cmp_vector_value_reader p ?a i = Some x \<and> key_of f p x = Some (ks ! i) \<and>
          (v_type v = POINTLESS_VECTOR_VALUE_HASHABLE \<longrightarrow> pointless_is_hashable (cv_type x))"
      using key_of_VecD [OF key [unfolded Vec(5)]] Vec(3) by auto
    have item: "hash_vector_item (\<lambda>x. pointless_hash_reader_32 f p x) p v i = Some (key_hash (ks ! i))"
      if "i < unat n" for i
    proof -
      from items [OF that] obtain x where x: "pointless_cmp_vector_value_reader p ?a i = Some x"
        "key_of f p x = Some (ks ! i)"
        "v_type v = POINTLESS_VECTOR_VALUE_HASHABLE \<longrightarrow> pointless_is_hashable (cv_type x)" by blast
      show ?thesis
      proof (cases "v_type v = POINTLESS_VECTOR_VALUE_HASHABLE")
        case True
        from x(1) True obtain xs y where y: "pointless_reader_vector_value p v = Some xs"
          "arr_get xs i = Some y" "x = pointless_value_to_complete y"
          by (auto simp: pointless_cmp_vector_value_reader_def elim!: bind_eq_Some_E)
        then show ?thesis using Suc.IH [of y "ks ! i"] x(2,3) True
          by (simp add: hash_vector_item_def)
      next
        case False
        then have t: "v_type v \<in> native_vector_types" using Vec(2) by blast
        have "v_type v \<noteq> POINTLESS_VECTOR_EMPTY"
        proof
          assume "v_type v = POINTLESS_VECTOR_EMPTY"
          then have "n = 0" using Vec(3) by (simp add: pointless_reader_vector_n_items_def)
          with that show False by simp
        qed
        with t hash_native_item [OF _ _ x(1,2)] show ?thesis by simp
      qed
    qed
    have hs: "map (\<lambda>i. key_hash (ks ! i)) [0..<unat n] = map key_hash ks"
      by (rule nth_equalityI) (simp_all add: ks)
    have "pointless_hash_reader_vector_32_priv (\<lambda>x. pointless_hash_reader_32 f p x) p v 0 n =
        Some (vec_hash (map (\<lambda>i. key_hash (ks ! i)) [0..<unat n]))"
      using vector_hash_loop_items [of "[0..<unat n]"
          "hash_vector_item (\<lambda>x. pointless_hash_reader_32 f p x) p v"
          "\<lambda>i. key_hash (ks ! i)" "pointless_vector_hash_init_32 n"] item
      by (simp add: pointless_hash_reader_vector_32_priv_def vec_hash_def)
    then show ?thesis
      by (simp only: pointless_hash_reader_32.simps(2) hash_func_vector [OF Vec(2)] option.case
          hash_cb.case Vec(3,5) bind.bind_lunit hs key_hash.simps)
  qed
qed simp

section \<open>Equal keys have equal hashes\<close>

text \<open>Wherever an integer meets a float, the integer fits the 24 bits of a float's mantissa.\<close>

fun rounding_free :: "key \<Rightarrow> key \<Rightarrow> bool" where
  "rounding_free (K_Int n) t = (case t of K_Float _ \<Rightarrow> \<bar>n\<bar> < 16777216 | _ \<Rightarrow> True)"
| "rounding_free (K_Float _) t = (case t of K_Int n \<Rightarrow> \<bar>n\<bar> < 16777216 | _ \<Rightarrow> True)"
| "rounding_free (K_Vec xs) t =
     (case t of K_Vec ys \<Rightarrow> list_all (\<lambda>(x, y). rounding_free x y) (zip xs ys) | _ \<Rightarrow> True)"
| "rounding_free (K_Bits _ _) t = True"
| "rounding_free (K_Str _) t = True"
| "rounding_free K_Null t = True"
| "rounding_free K_Empty t = True"

lemma key_eq_hash: "key_eq s t \<Longrightarrow> rounding_free s t \<Longrightarrow> key_hash s = key_hash t"
proof (induction s arbitrary: t)
  case (K_Int n)
  then show ?case by (cases t) (simp_all add: int_float_hash_coherent)
next
  case (K_Float w)
  then show ?case
    by (cases t) (simp_all add: int_float_hash_coherent f32_eq_sym float_hash_coherent)
next
  case (K_Vec xs)
  then obtain ys where t: "t = K_Vec ys" and eq: "list_all2 key_eq xs ys" by (cases t) simp_all
  have len: "length xs = length ys" using eq by (rule list_all2_lengthD)
  have "map key_hash xs = map key_hash ys"
  proof (rule nth_equalityI)
    fix i assume "i < length (map key_hash xs)"
    then have i: "i < length xs" by simp
    moreover have "rounding_free (xs ! i) (ys ! i)"
      using K_Vec.prems(2) i len by (simp add: t list_all2_zip_nth)
    ultimately show "map key_hash xs ! i = map key_hash ys ! i"
      using K_Vec.IH [of "xs ! i" "ys ! i"] eq len by (simp add: list_all2_nthD)
  qed (simp add: len)
  with t show ?case by simp
qed (case_tac t; simp)+

section \<open>Integers that a float rounds\<close>

lemma bit_len_range: "2 ^ k \<le> n \<Longrightarrow> n < 2 ^ Suc k \<Longrightarrow> bit_len n = Suc k"
proof (induction k arbitrary: n)
  case 0
  then have "n = 1" by simp
  then show ?case by (simp add: bit_len.simps)
next
  case (Suc k)
  have "bit_len (n div 2) = Suc k" by (rule Suc.IH) (use Suc.prems in auto)
  moreover have "n \<noteq> 0" using Suc.prems(1) by (metis le_zero_eq power_not_zero zero_neq_numeral)
  ultimately show ?case by (subst bit_len.simps) simp
qed

text \<open>Above 25 bits the successor of a float is rounded to it.\<close>

lemma round24_successor:
  assumes "8388608 \<le> q" and "q < 16777216" and "2 \<le> d"
  shows "round24 (q * 2 ^ d + 1) = q * 2 ^ d"
proof -
  have d: "(4 :: nat) \<le> 2 ^ d" using power_increasing [OF assms(3), of "2 :: nat"] by simp
  have h: "(2 :: nat) \<le> 2 ^ (d - 1)" using power_increasing [of 1 "d - 1" "2 :: nat"] assms(3) by simp
  have lo: "8388608 * 2 ^ d \<le> q * 2 ^ d" using assms(1) by simp
  have "q * 2 ^ d \<le> 16777215 * 2 ^ d" using assms(2) by simp
  then have hi: "q * 2 ^ d + 1 < 16777216 * 2 ^ d" using d by linarith
  have "bit_len (q * 2 ^ d + 1) = Suc (23 + d)"
  proof (rule bit_len_range)
    show "2 ^ (23 + d) \<le> q * 2 ^ d + 1" using le_SucI [OF lo] unfolding power_add by simp
    show "q * 2 ^ d + 1 < 2 ^ Suc (23 + d)" using hi by (simp add: power_add)
  qed
  then have e: "bit_len (q * 2 ^ d + 1) - 24 = d" by simp
  have "8388608 * 4 \<le> 8388608 * (2 :: nat) ^ d" using d by (intro mult_left_mono) simp_all
  with lo have "\<not> q * 2 ^ d + 1 < 16777216" by linarith
  moreover have "(q * 2 ^ d + 1) div 2 ^ d = q" "(q * 2 ^ d + 1) mod 2 ^ d = 1"
    using d div_mult_self3 [of "2 ^ d" q 1] mod_mult_self3 [of q "2 ^ d" 1] assms(3) by simp_all
  moreover have "round24 n = q * 2 ^ d"
    if "bit_len n - 24 = d" "\<not> n < 16777216" "n div 2 ^ d = q" "n mod 2 ^ d = 1" for n
    using that h by (simp add: round24_def Let_def)
  ultimately show ?thesis using e by blast
qed

lemma float_mantissa:
  assumes "f32_bits_val w = F_Fin (m * 2 ^ 149)" and "33554432 \<le> m"
  obtains q d where "8388608 \<le> q" and "q < 16777216" and "2 \<le> d" and "m = int (q * 2 ^ d)"
proof -
  let ?e = "f_exp w" and ?m = "f_man w"
  note b = f_man_bounds [of w]
  have mag: "(if f_sign w then -1 else 1) * f32_mag ?e ?m = m * 2 ^ 149"
    using assms(1) by (simp add: f32_bits_val_fields split: if_split_asm)
  have pos: "0 < m * 2 ^ 149" using assms(2) by simp
  have eq: "f32_mag ?e ?m = m * 2 ^ 149"
    using mag pos f32_mag_nonneg [OF b(1), of ?e] by (auto split: if_split_asm)
  have big: "33554432 * 2 ^ 149 \<le> f32_mag ?e ?m" unfolding eq using assms(2) by simp
  have e0: "?e \<noteq> 0"
  proof
    assume "?e = 0"
    then have "f32_mag ?e ?m < 8388608" using b by (simp add: f32_mag_def)
    with big show False by simp
  qed
  then have mg: "f32_mag ?e ?m = (8388608 + ?m) * 2 ^ (?e - 1)" by (simp add: f32_mag_def)
  have "?e - 1 > 150"
  proof (rule ccontr)
    assume "\<not> ?e - 1 > 150"
    then have "(2 :: int) ^ (?e - 1) \<le> 2 ^ 150" by (intro power_increasing) simp_all
    then have "(8388608 + ?m) * 2 ^ (?e - 1) \<le> 16777215 * 2 ^ 150" using b by (intro mult_mono) simp_all
    with big mg show False by simp
  qed
  define d where "d = ?e - 1 - 149"
  have d: "?e - 1 = d + 149" "2 \<le> d" using \<open>?e - 1 > 150\<close> unfolding d_def by linarith+
  have "(8388608 + ?m) * 2 ^ d * 2 ^ 149 = m * 2 ^ 149" using eq mg d(1) by (simp add: power_add mult.assoc)
  then have "m = (8388608 + ?m) * 2 ^ d" by simp
  then have m: "m = int (nat (8388608 + ?m) * 2 ^ d)" using b by simp
  have "8388608 \<le> nat (8388608 + ?m)" "nat (8388608 + ?m) < 16777216" using b by linarith+
  then show ?thesis using d(2) m by (rule that)
qed

text \<open>A handle with the string \<open>ab\<close> twice, in bytes and in 32-bit units.\<close>

definition key_sample :: pointless_t where
  "key_sample =
     \<lparr>p_buf = [0,0,0,0,0,0,0,0, 8,0,0,0,0,0,0,0, 2,0,0,0, 97,98,0,0,
               2,0,0,0, 97,0,0,0, 98,0,0,0, 0,0,0,0],
      header = \<lparr>root = \<lparr>v_type = POINTLESS_NULL, v_data = 0\<rparr>, n_string_unicode = 2, n_vector = 0,
                 n_bitvector = 0, n_set = 0, n_map = 0, version = 2\<rparr>,
      string_unicode_offsets = 0, vector_offsets = 16, bitvector_offsets = 16, set_offsets = 16,
      map_offsets = 16, heap_ptr = 16, heap_len = 24\<rparr>"

abbreviation (input) sample_bytes :: pointless_value_t
  where "sample_bytes \<equiv> \<lparr>v_type = POINTLESS_STRING, v_data = 0\<rparr>"
abbreviation (input) sample_units :: pointless_value_t
  where "sample_units \<equiv> \<lparr>v_type = POINTLESS_UNICODE, v_data = 1\<rparr>"

lemma sample_bytes_key:
  "key_of 256 key_sample (pointless_value_to_complete sample_bytes) = Some (K_Str [97, 98])"
  by code_simp

lemma sample_units_key:
  "key_of 256 key_sample (pointless_value_to_complete sample_units) = Some (K_Str [97, 98])"
  by code_simp

lemma sample_hashable:
  "pointless_is_hashable POINTLESS_STRING" "pointless_is_hashable POINTLESS_UNICODE"
  by code_simp+

section \<open>The contract of the keys\<close>



text \<open>
  C21 The hash of a hashable value is the hash of its abstract key: it does not depend on the file, on
  the width of the integers, or on whether a string is stored in one or four bytes per character.
\<close>

theorem hash_depends_on_key_only:
  assumes "key_of f p (pointless_value_to_complete v) = Some k" and "pointless_is_hashable (v_type v)"
  shows "pointless_hash_reader_32 f p v = Some (key_hash k)"
  using assms by (rule hash_reader_key)

theorem hash_depends_on_key_only_witness:
  "pointless_hash_reader_32 256 key_sample sample_units = Some (string_hash [97, 98])"
  using hash_depends_on_key_only [OF sample_units_key] sample_hashable by simp

text \<open>
  C22 Hashable values nested less than 256 deep that compare equal hash equal, so a lookup cannot miss a
  key for its hash, as long as no integer of more than 24 bits meets a float (\<open>rounding_free\<close>) and
  bitvectors that meet have one representation (\<open>bits_agree\<close>).
\<close>

theorem equal_values_equal_hashes:
  assumes "key_of 256 p (pointless_value_to_complete v) = Some s"
    and "key_of 256 q (pointless_value_to_complete w) = Some t"
    and "pointless_is_hashable (v_type v)" and "pointless_is_hashable (v_type w)"
    and "bits_agree s t" and "rounding_free s t"
    and "pointless_cmp_reader p (pointless_value_to_complete v) q (pointless_value_to_complete w) =
           Some (Inr 0)"
  shows "pointless_hash_reader_32 256 p v = pointless_hash_reader_32 256 q w"
proof -
  have "key_eq s t" using cmp_rec_key_eq [OF assms(1,2,5), of 0 1] assms(7)
    by (simp add: pointless_cmp_reader_def)
  then have "key_hash s = key_hash t" using assms(6) by (rule key_eq_hash)
  then show ?thesis using hash_reader_key [OF assms(1,3)] hash_reader_key [OF assms(2,4)] by simp
qed

lemma sample_compare:
  "pointless_cmp_reader key_sample (pointless_value_to_complete sample_bytes)
     key_sample (pointless_value_to_complete sample_units) = Some (Inr 0)"
  by code_simp

theorem equal_values_equal_hashes_witness:
  "pointless_hash_reader_32 256 key_sample sample_bytes =
   pointless_hash_reader_32 256 key_sample sample_units"
  by (rule equal_values_equal_hashes [OF sample_bytes_key sample_units_key _ _ _ _ sample_compare])
    (simp_all add: sample_hashable)

text \<open>
  C23 Outside that bound the promise fails: for every float with an integral value from \<open>2 ^ 25\<close> on that
  is below the largest 32-bit integer, the integer after it compares equal to the float and has
  another hash, so a map with a float key can miss an integer that compares equal.
\<close>

theorem rounded_integer_hash_differs:
  assumes "f32_integral (f32_bits_val w) = Some m" and "33554432 \<le> m" and "m < 4294967295"
  shows "pointless_cmp_int_float POINTLESS_U32 (ucast (word_of_int (m + 1) :: u32)) POINTLESS_FLOAT (ucast w) = 0 \<and>
    pointless_hash_u32_32 (word_of_int (m + 1)) \<noteq> pointless_hash_float_32 w"
proof -
  note val = f32_integral_SomeD [OF assms(1)]
  obtain q d where q: "8388608 \<le> q" "q < 16777216" "2 \<le> d" "m = int (q * 2 ^ d)"
    by (rule float_mantissa [OF val assms(2)])
  have u: "uint (word_of_int (m + 1) :: u32) = m + 1"
    using assms(2,3) by (simp only: uint_word_of_int) simp
  have "m + 1 = int (q * 2 ^ d + 1)" using q(4) by simp
  then have "nat \<bar>m + 1\<bar> = q * 2 ^ d + 1" by linarith
  then have f: "f32_of_int (m + 1) = F_Fin (m * 2 ^ 149)"
    using round24_successor [OF q(1-3)] q(4) assms(2) by (simp add: f32_of_int_def)
  have cut: "(ucast (ucast (x :: u32) :: u64) :: u32) = x" for x by (rule bit_word_eqI) (simp add: bit_simps)
  have "int_as_float POINTLESS_U32 (ucast x) = f32_of_int (uint x)" for x :: u32
    using int_as_float_value [of POINTLESS_U32] by (simp add: int_value_def complete_data_u32_def cut)
  then have "int_as_float POINTLESS_U32 (ucast (word_of_int (m + 1) :: u32)) = F_Fin (m * 2 ^ 149)"
    by (simp only: f u)
  then have "pointless_cmp_int_float POINTLESS_U32 (ucast (word_of_int (m + 1) :: u32)) POINTLESS_FLOAT (ucast w) = 0"
    using val by (simp add: pointless_cmp_int_float_def complete_data_u32_def cut SIMPLE_CMP_def)
  moreover have "pointless_hash_float_32 w = word_of_int m"
    using assms by (simp add: pointless_hash_float_32_def)
  moreover have "(word_of_int (m + 1) :: u32) \<noteq> word_of_int m" by (simp add: wi_hom_syms)
  ultimately show ?thesis by (simp add: pointless_hash_u32_32_def)
qed

text \<open>The float 2 to the 25, and the integer after it.\<close>

theorem rounded_integer_hash_differs_witness:
  "pointless_cmp_int_float POINTLESS_U32 33554433 POINTLESS_FLOAT 0x4C000000 = 0 \<and>
   pointless_hash_u32_32 33554433 \<noteq> pointless_hash_float_32 0x4C000000"
proof -
  have "f32_bits_val 0x4C000000 = F_Fin (33554432 * 2 ^ 149)" by (simp add: f32_bits_val_def Let_def)
  then have "f32_integral (f32_bits_val 0x4C000000) = Some 33554432" by (simp only: f32_integral_Fin_mult)
  from rounded_integer_hash_differs [OF this] show ?thesis by simp
qed
end
