(* ===== verification/Lookup_Laws.thy ===== *)
theory Lookup_Laws
  imports Validate_Laws Key_Laws Hash_Table_Laws
begin

text \<open>
  What validation means for the sets and maps of a file: every table of an opened file has a power of
  two of buckets with an empty one among them, every key sits where its own probe ends, a lookup finds
  every key and every key with the same content, an unsuccessful lookup really means absence, and the
  iterators visit each item once.
\<close>

unbundle bit_operations_syntax

section \<open>A table that passed the checks\<close>

abbreviation used_slot :: "pointless_value_t list \<Rightarrow> nat \<Rightarrow> bool" where
  "used_slot kv i \<equiv> v_type (kv ! i) \<noteq> POINTLESS_EMPTY_SLOT"

text \<open>The test of a probe for the value \<open>k\<close>.\<close>

definition key_test ::
    "pointless_t \<Rightarrow> pointless_value_t \<Rightarrow> pointless_complete_value_t \<Rightarrow> (err + bool) option" where
  "key_test p k = (\<lambda>x. map_option (map_sum id (\<lambda>c. c = 0))
     (pointless_cmp_reader p (pointless_value_to_complete k) p x))"

lemma probe_is_priv:
  "pointless_hash_table_probe p h k n hv kv = pointless_hash_table_probe_priv (key_test p k) h n hv kv"
  by (simp add: pointless_hash_table_probe_def key_test_def)

definition table_valid ::
    "nat \<Rightarrow> pointless_t \<Rightarrow> u32 \<Rightarrow> u32 \<Rightarrow> u32 list \<Rightarrow> pointless_value_t list \<Rightarrow> bool" where
  "table_valid fuel p n_items n_buckets hv kv \<longleftrightarrow>
     (\<exists>k < 32. n_buckets = 2 ^ k) \<and>
     unat n_buckets \<le> length kv \<and> unat n_buckets \<le> length hv \<and>
     (\<exists>b < unat n_buckets. \<not> used_slot kv b) \<and>
     length (filter (used_slot kv) [0..<unat n_buckets]) = unat n_items \<and>
     (\<forall>b < unat n_buckets. pointless_is_hashable (v_type (kv ! b)) \<and>
        pointless_hash_reader_32 fuel p (kv ! b) = Some (hv ! b)) \<and>
     (\<forall>b < unat n_buckets. used_slot kv b \<longrightarrow>
        pointless_hash_table_probe p (hv ! b) (kv ! b) n_buckets hv kv = Some (Inr (of_nat b)))"

lemma n_buckets_power:
  assumes "pointless_hash_compute_n_buckets n = Some m"
  shows "\<exists>k < 32. m = 2 ^ k"
proof (cases "n = 1")
  case True
  with assms show ?thesis
    by (intro exI [of _ 1]) (simp add: pointless_hash_compute_n_buckets_def)
next
  case False
  with assms have m: "next_power_of_2 (n + n div 2) = Some m"
    by (simp add: pointless_hash_compute_n_buckets_def)
  then have "n + n div 2 \<le> 2 ^ 31" using next_power_of_2_hangs [of "n + n div 2"] by fastforce
  from next_power_of_2_exact [OF this] m obtain j where "j \<le> 31" "m = 2 ^ j" by auto
  then show ?thesis by (intro exI [of _ j]) simp
qed

lemma for_loop_unit:
  assumes "for_loop f is () = Some (Inr ())" and "i \<in> set is"
  shows "f i () = Some (Inr ())"
  using assms by (induction "is") (auto simp: for_loop_Cons_Inr simp del: for_loop.simps(2))

lemma count_slot_step:
  assumes "count_slot kv vv i (u, e) = Some (Inr (u', e'))"
  shows "i < length kv \<and> u' = u + (if used_slot kv i then 1 else 0) \<and>
    e' = e + (if used_slot kv i then 0 else 1)"
  using assms
  by (auto simp: count_slot_def Let_def arr_get_Some_iff elim!: bind_eq_Some_E
      split: if_split_asm option.split_asm)

lemma count_slots:
  assumes "for_loop (count_slot kv vv) is (u, e) = Some (Inr (u', e'))"
  shows "(\<forall>i \<in> set is. i < length kv) \<and> u' = u + of_nat (length (filter (used_slot kv) is)) \<and>
    e' = e + of_nat (length (filter (\<lambda>i. \<not> used_slot kv i) is))"
  using assms
proof (induction "is" arbitrary: u e)
  case Nil
  then show ?case by simp
next
  case (Cons i js)
  from Cons.prems obtain u1 e1 where
    1: "count_slot kv vv i (u, e) = Some (Inr (u1, e1))"
    and 2: "for_loop (count_slot kv vv) js (u1, e1) = Some (Inr (u', e'))"
    unfolding for_loop_Cons_Inr by auto
  from Cons.IH [OF 2] count_slot_step [OF 1] show ?case by (simp add: algebra_simps)
qed

lemma check_slot_hash_ok:
  assumes "check_slot_hash fuel p hv kv i () = Some (Inr ())"
  shows "i < length kv \<and> i < length hv \<and> pointless_is_hashable (v_type (kv ! i)) \<and>
    pointless_hash_reader_32 fuel p (kv ! i) = Some (hv ! i)"
  using assms
  by (auto simp: check_slot_hash_def arr_get_Some_iff elim!: bind_eq_Some_E split: if_split_asm)

lemma check_slot_place_ok:
  assumes "check_slot_place p n hv kv i () = Some (Inr ())" and "used_slot kv i"
  shows "pointless_hash_table_probe p (hv ! i) (kv ! i) n hv kv = Some (Inr (of_nat i))"
  using assms
  by (auto simp: check_slot_place_def arr_get_Some_iff elim!: bind_eq_Some_E
      split: if_split_asm sum.split_asm)

lemma hash_table_validate_ok:
  assumes "pointless_hash_table_validate fuel p n_items n hv kv vv = Some (Inr ())"
  shows "table_valid fuel p n_items n hv kv"
proof -
  from assms obtain u e where
    c: "pointless_hash_compute_n_buckets n_items = Some n"
    and counts: "for_loop (count_slot kv vv) [0..<unat n] (0, 0) = Some (Inr (u, e))"
    and e: "e \<noteq> 0" and u: "u = n_items"
    and hashes: "for_loop (check_slot_hash fuel p hv kv) [0..<unat n] () = Some (Inr ())"
    and places: "for_loop (check_slot_place p n hv kv) [0..<unat n] () = Some (Inr ())"
    by (auto simp: pointless_hash_table_validate_def elim!: bind_eq_Some_E
        split: if_split_asm sum.split_asm prod.split_asm)
  have h: "i < length kv \<and> i < length hv \<and> pointless_is_hashable (v_type (kv ! i)) \<and>
      pointless_hash_reader_32 fuel p (kv ! i) = Some (hv ! i)" if "i < unat n" for i
    using check_slot_hash_ok [OF for_loop_unit [OF hashes]] that by simp
  have pl: "pointless_hash_table_probe p (hv ! i) (kv ! i) n hv kv = Some (Inr (of_nat i))"
    if "i < unat n" "used_slot kv i" for i
    using check_slot_place_ok [OF for_loop_unit [OF places]] that by simp
  note cs = count_slots [OF counts]
  let ?U = "filter (used_slot kv) [0..<unat n]"
  have "length ?U \<le> unat n" using length_filter_le [of _ "[0..<unat n]"] by simp
  then have "length ?U < 2 ^ 32" by (rule le_less_trans) simp
  then have "unat (of_nat (length ?U) :: u32) = length ?U"
    by (simp add: unsigned_of_nat take_bit_nat_eq_self)
  with cs u have items: "length ?U = unat n_items" by auto
  have "filter (\<lambda>i. \<not> used_slot kv i) [0..<unat n] \<noteq> []"
    using cs e by (intro notI) simp
  then have "\<exists>b < unat n. \<not> used_slot kv b" by (auto simp: filter_empty_conv)
  moreover have "unat n \<le> length kv" "unat n \<le> length hv"
    using h by (meson linorder_not_less order_less_irrefl)+
  ultimately show ?thesis
    using n_buckets_power [OF c] items h pl unfolding table_valid_def by blast
qed

section \<open>Probing a valid table\<close>

text \<open>
  Two values are the same key for a table when they have the same hash and no comparison tells them
  apart.
\<close>

definition same_key :: "nat \<Rightarrow> pointless_t \<Rightarrow> pointless_value_t \<Rightarrow> pointless_value_t \<Rightarrow> bool" where
  "same_key fuel p k x \<longleftrightarrow>
     pointless_hash_reader_32 fuel p k = pointless_hash_reader_32 fuel p x \<and>
     key_test p k = key_test p x"

lemma same_key_refl [simp]: "same_key fuel p k k"
  by (simp add: same_key_def)

lemma probe_finds:
  assumes "table_valid fuel p n_items n hv kv" and "b < unat n" and "used_slot kv b"
    and "same_key fuel p k (kv ! b)" and "pointless_hash_reader_32 fuel p k = Some h"
  shows "pointless_hash_table_probe p h k n hv kv = Some (Inr (of_nat b))"
  using assms by (simp add: table_valid_def same_key_def probe_is_priv)

lemma map_sum_Inr_iff: "map_sum f g x = Inr y \<longleftrightarrow> (\<exists>z. x = Inr z \<and> g z = y)"
  by (cases x) auto

text \<open>A probe that answers a bucket answers one whose key passed the test and has the hash.\<close>

lemma probe_sound:
  assumes "table_valid fuel p n_items n hv kv"
    and r: "pointless_hash_table_probe p h k n hv kv = Some r"
  shows "(case r of Inl e \<Rightarrow> True
    | Inr i \<Rightarrow> i = POINTLESS_HASH_TABLE_PROBE_MISS \<or>
        unat i < unat n \<and> used_slot kv (unat i) \<and> hv ! unat i = h \<and>
        pointless_cmp_reader p (pointless_value_to_complete k) p
          (pointless_value_to_complete (kv ! unat i)) = Some (Inr 0))"
proof -
  from assms(1) obtain q b where q: "q < 32" "n = 2 ^ q" and b: "b < unat n" "\<not> used_slot kv b"
    and len: "unat n \<le> length kv" "unat n \<le> length hv"
    unfolding table_valid_def by blast
  let ?act = "probe_act (key_test p k) h hv kv"
  have n: "unat n = 2 ^ q" using q by (simp add: power_u32_less)
  have "?act b \<noteq> None" using b len by (simp add: probe_act_def)
  from probe_stops [OF q(1) b(1) [unfolded n] this] obtain m where
    "?act (probe_bucket h (2 ^ q - 1) m) = Some (pointless_hash_table_probe_priv (key_test p k) h n hv kv)"
    unfolding q(2) by blast
  moreover define c where "c = probe_bucket h (2 ^ q - 1) m"
  ultimately have act: "?act c = Some (Some r)" using r by (simp add: probe_is_priv)
  have c: "c < unat n" unfolding c_def n by (rule probe_bucket_less [OF q(1)])
  then have "c < length kv" "c < length hv" using len by simp_all
  moreover have "c < 2 ^ 32" using c by (rule less_trans) simp
  then have "unat (of_nat c :: u32) = c" by (simp add: unsigned_of_nat take_bit_nat_eq_self)
  ultimately show ?thesis using act c
    by (auto simp: probe_act_def key_test_def map_sum_Inr_iff split: if_split_asm option.split_asm sum.split_asm)
qed

section \<open>The table of a set or a map in an opened file\<close>

lemma value_addr_at:
  assumes "pointless_reader_vector_value p v = Some kv" and "i < length kv"
  shows "\<exists>a. value_addr p v i = Some a \<and> read_value (p_buf p) a = Some (kv ! i)"
proof -
  from assms obtain a where a: "pointless_reader_vector_base_ptr p v = Some (Some a)"
    "kv = view_values (p_buf p) a"
    by (auto simp: pointless_reader_vector_value_def elim!: bind_eq_Some_E split: option.split_asm)
  with assms(2) arr_get_view_values [of "p_buf p" a i] show ?thesis
    by (simp add: value_addr_def)
qed

lemma set_table:
  assumes "table_ok fuel p s" and "v_type s = POINTLESS_SET_VALUE"
  obtains h n hv kv where "set_header_at p s = Some h"
    and "pointless_reader_vector_n_items p (sh_key_vector h) = Some n"
    and "pointless_reader_vector_n_items p (sh_hash_vector h) = Some n"
    and "pointless_reader_vector_u32 p (sh_hash_vector h) = Some hv"
    and "pointless_reader_vector_value p (sh_key_vector h) = Some kv"
    and "table_valid fuel p (sh_n_items h) n hv kv"
proof -
  have "pointless_validate_set_complicated fuel p s = Some (Inr ())"
    using assms by (simp add: table_ok_def)
  then obtain h n hv kv where "set_header_at p s = Some h"
    "pointless_reader_vector_n_items p (sh_key_vector h) = Some n"
    "pointless_reader_vector_n_items p (sh_hash_vector h) = Some n"
    "pointless_reader_vector_u32 p (sh_hash_vector h) = Some hv"
    "pointless_reader_vector_value p (sh_key_vector h) = Some kv"
    "pointless_hash_table_validate fuel p (sh_n_items h) n hv kv None = Some (Inr ())"
    by (auto simp: pointless_validate_set_complicated_def elim!: bind_eq_Some_E split: if_split_asm)
  then show ?thesis using hash_table_validate_ok that by blast
qed

lemma map_table:
  assumes "table_ok fuel p m" and "v_type m = POINTLESS_MAP_VALUE_VALUE"
  obtains h n hv kv vv where "map_header_at p m = Some h"
    and "pointless_reader_vector_n_items p (mh_key_vector h) = Some n"
    and "pointless_reader_vector_n_items p (mh_hash_vector h) = Some n"
    and "pointless_reader_vector_n_items p (mh_value_vector h) = Some n"
    and "pointless_reader_vector_u32 p (mh_hash_vector h) = Some hv"
    and "pointless_reader_vector_value p (mh_key_vector h) = Some kv"
    and "pointless_reader_vector_value p (mh_value_vector h) = Some vv"
    and "table_valid fuel p (mh_n_items h) n hv kv"
proof -
  have "pointless_validate_map_complicated fuel p m = Some (Inr ())"
    using assms by (simp add: table_ok_def)
  then obtain h n hv kv vv where "map_header_at p m = Some h"
    "pointless_reader_vector_n_items p (mh_key_vector h) = Some n"
    "pointless_reader_vector_n_items p (mh_hash_vector h) = Some n"
    "pointless_reader_vector_n_items p (mh_value_vector h) = Some n"
    "pointless_reader_vector_u32 p (mh_hash_vector h) = Some hv"
    "pointless_reader_vector_value p (mh_key_vector h) = Some kv"
    "pointless_reader_vector_value p (mh_value_vector h) = Some vv"
    "pointless_hash_table_validate fuel p (mh_n_items h) n hv kv (Some vv) = Some (Inr ())"
    by (auto simp: pointless_validate_map_complicated_def elim!: bind_eq_Some_E split: if_split_asm)
  then show ?thesis using hash_table_validate_ok that by blast
qed

text \<open>The item vectors of a map have as many items as they say.\<close>

lemma map_values_length:
  assumes "all_ok p" and "reachable p m" and "v_type m = POINTLESS_MAP_VALUE_VALUE"
    and h: "map_header_at p m = Some h"
    and n: "pointless_reader_vector_n_items p (mh_value_vector h) = Some n"
    and vv: "pointless_reader_vector_value p (mh_value_vector h) = Some vv"
  shows "unat n \<le> length vv"
proof -
  have ok: "wf_reader p" "value_ok p m" using assms(1,2) by (simp_all add: all_ok_def)
  have "children p m = Some [mh_hash_vector h, mh_key_vector h, mh_value_vector h]"
    using assms(3) h by (simp add: children_def)
  from reachable.child [OF assms(2) this] have "reachable p (mh_value_vector h)" by simp
  then have ok2: "value_ok p (mh_value_vector h)" using assms(1) by (simp add: all_ok_def)
  have t: "v_type (mh_value_vector h) \<in> {POINTLESS_VECTOR_VALUE, POINTLESS_VECTOR_VALUE_HASHABLE}"
    using map_readable [OF ok(2) assms(3)] h by auto
  then have t2: "v_type (mh_value_vector h) \<in> heap_vector_types" by auto
  from vector_readable [OF ok(1) ok2 t2] obtain a n' where
    "pointless_reader_vector_base_ptr p (mh_value_vector h) = Some (Some a)"
    "pointless_reader_vector_n_items p (mh_value_vector h) = Some n'"
    "a + unat (vector_item_len (v_type (mh_value_vector h))) * unat n' \<le> length (p_buf p)" .
  with n have "pointless_reader_vector_base_ptr p (mh_value_vector h) = Some (Some a)"
    "a + unat (vector_item_len (v_type (mh_value_vector h))) * unat n \<le> length (p_buf p)"
    by simp_all
  moreover have "unat (vector_item_len (v_type (mh_value_vector h))) = 8"
    using t by (auto simp: vector_item_len_def)
  ultimately show ?thesis
    using vv by (auto simp: pointless_reader_vector_value_def view_values_def length_chunks)
qed

section \<open>Lookup\<close>

lemma lookup_result_of_nat:
  assumes "k < 32" and "b < 2 ^ k"
  shows "lookup_result (of_nat b) = Some b"
proof -
  have "(2 :: nat) ^ k \<le> 2 ^ 31" using assms(1) by (intro power_increasing) simp_all
  then have b: "b < 2 ^ 31" using assms(2) by simp
  then have u: "unat (of_nat b :: u32) = b" by (simp add: unsigned_of_nat take_bit_nat_eq_self)
  then have "of_nat b \<noteq> (4294967295 :: u32)" "of_nat b \<noteq> (4294967294 :: u32)"
    using b by (auto simp: word_unat_eq_iff)
  with u show ?thesis by (simp add: lookup_result_def)
qed

text \<open>The abstract contents: the keys of a set, and the items of a map, in the order of their slots.\<close>

definition set_keys :: "pointless_t \<Rightarrow> pointless_value_t \<Rightarrow> pointless_value_t list option" where
  "set_keys p s =
     do { h \<leftarrow> set_header_at p s;
          n \<leftarrow> pointless_reader_vector_n_items p (sh_key_vector h);
          kv \<leftarrow> pointless_reader_vector_value p (sh_key_vector h);
          Some (map ((!) kv) (filter (used_slot kv) [0..<unat n])) }"

definition map_items ::
    "pointless_t \<Rightarrow> pointless_value_t \<Rightarrow> (pointless_value_t \<times> pointless_value_t) list option" where
  "map_items p m =
     do { h \<leftarrow> map_header_at p m;
          n \<leftarrow> pointless_reader_vector_n_items p (mh_key_vector h);
          kv \<leftarrow> pointless_reader_vector_value p (mh_key_vector h);
          vv \<leftarrow> pointless_reader_vector_value p (mh_value_vector h);
          Some (map (\<lambda>i. (kv ! i, vv ! i)) (filter (used_slot kv) [0..<unat n])) }"

lemma table_valid_bound:
  assumes "table_valid fuel p n_items n hv kv" and "b < unat n"
  shows "lookup_result (of_nat b) = Some b" and "b < length kv" and "b < length hv"
    and "unat (of_nat b :: u32) = b"
proof -
  from assms obtain k where k: "k < 32" "n = 2 ^ k" by (auto simp: table_valid_def)
  then have "b < 2 ^ k" using assms(2) by (simp add: power_u32_less)
  with k show "lookup_result (of_nat b) = Some b" by (rule_tac lookup_result_of_nat)
  show "b < length kv" "b < length hv" using assms by (auto simp: table_valid_def)
  have "b < 2 ^ 32" using assms(2) by (rule less_trans) simp
  then show "unat (of_nat b :: u32) = b" by (simp add: unsigned_of_nat take_bit_nat_eq_self)
qed

lemma table_hash:
  "table_valid fuel p n_items n hv kv \<Longrightarrow> b < unat n \<Longrightarrow>
     pointless_hash_reader_32 fuel p (kv ! b) = Some (hv ! b)"
  by (simp add: table_valid_def)

lemma set_lookup_at:
  assumes "table_ok fuel p s" and "v_type s = POINTLESS_SET_VALUE" and "set_keys p s = Some keys"
    and "x \<in> set keys" and "pointless_is_hashable (v_type k)" and "same_key fuel p k x"
  shows "\<exists>a. pointless_reader_set_lookup fuel p s k = Some (Inr (Some a)) \<and>
    read_value (p_buf p) a = Some x"
proof -
  from set_table [OF assms(1,2)] obtain h n hv kv where t: "set_header_at p s = Some h"
    "pointless_reader_vector_n_items p (sh_key_vector h) = Some n"
    "pointless_reader_vector_u32 p (sh_hash_vector h) = Some hv"
    "pointless_reader_vector_value p (sh_key_vector h) = Some kv"
    and v: "table_valid fuel p (sh_n_items h) n hv kv" by metis
  from t assms(3,4) obtain b where b: "b < unat n" "used_slot kv b" "x = kv ! b"
    by (auto simp: set_keys_def)
  note at = table_valid_bound [OF v b(1)]
  have hash: "pointless_hash_reader_32 fuel p k = Some (hv ! b)"
    using assms(6) b(3) table_hash [OF v b(1)] by (simp add: same_key_def)
  have probe: "pointless_hash_table_probe p (hv ! b) k n hv kv = Some (Inr (of_nat b))"
    using probe_finds [OF v b(1,2)] assms(6) b(3) hash by simp
  from value_addr_at [OF t(4) at(2)] obtain a where
    "value_addr p (sh_key_vector h) b = Some a" "read_value (p_buf p) a = Some (kv ! b)" by blast
  then show ?thesis
    using assms(5) t hash probe at(1) b(3)
    by (simp add: pointless_reader_set_lookup_def set_lookup_found_def)
qed

lemma map_lookup_at:
  assumes ok: "all_ok p" "reachable p m" and "table_ok fuel p m"
    and "v_type m = POINTLESS_MAP_VALUE_VALUE" and "map_items p m = Some items"
    and "(x, v) \<in> set items" and "pointless_is_hashable (v_type k)" and "same_key fuel p k x"
  shows "\<exists>a b. pointless_reader_map_lookup fuel p m k = Some (Inr (Some (a, b))) \<and>
    read_value (p_buf p) a = Some x \<and> read_value (p_buf p) b = Some v"
proof -
  from map_table [OF assms(3,4)] obtain h n hv kv vv where t: "map_header_at p m = Some h"
    "pointless_reader_vector_n_items p (mh_key_vector h) = Some n"
    "pointless_reader_vector_n_items p (mh_value_vector h) = Some n"
    "pointless_reader_vector_u32 p (mh_hash_vector h) = Some hv"
    "pointless_reader_vector_value p (mh_key_vector h) = Some kv"
    "pointless_reader_vector_value p (mh_value_vector h) = Some vv"
    and v: "table_valid fuel p (mh_n_items h) n hv kv" by metis
  from t assms(5,6) obtain b where b: "b < unat n" "used_slot kv b" "x = kv ! b" "v = vv ! b"
    by (auto simp: map_items_def)
  note at = table_valid_bound [OF v b(1)]
  have hash: "pointless_hash_reader_32 fuel p k = Some (hv ! b)"
    using assms(8) b(3) table_hash [OF v b(1)] by (simp add: same_key_def)
  have probe: "pointless_hash_table_probe p (hv ! b) k n hv kv = Some (Inr (of_nat b))"
    using probe_finds [OF v b(1,2)] assms(8) b(3) hash by simp
  have "b < length vv" using map_values_length [OF ok assms(4) t(1,3,6)] b(1) by simp
  from value_addr_at [OF t(6) this] obtain c where
    c: "value_addr p (mh_value_vector h) b = Some c" "read_value (p_buf p) c = Some (vv ! b)" by blast
  from value_addr_at [OF t(5) at(2)] obtain a where
    "value_addr p (mh_key_vector h) b = Some a" "read_value (p_buf p) a = Some (kv ! b)" by blast
  then show ?thesis
    using assms(7) t hash probe at(1) b(3,4) c
    by (simp add: pointless_reader_map_lookup_def map_lookup_found_def)
qed

lemma map_lookup_sound:
  assumes ok: "all_ok p" "reachable p m" and "table_ok fuel p m"
    and "v_type m = POINTLESS_MAP_VALUE_VALUE" and "map_items p m = Some items"
    and "pointless_reader_map_lookup fuel p m k = Some (Inr (Some (a, b)))"
  shows "\<exists>x v. (x, v) \<in> set items \<and> read_value (p_buf p) a = Some x \<and>
    read_value (p_buf p) b = Some v \<and>
    pointless_hash_reader_32 fuel p k = pointless_hash_reader_32 fuel p x \<and>
    pointless_cmp_reader p (pointless_value_to_complete k) p (pointless_value_to_complete x) = Some (Inr 0)"
proof -
  from map_table [OF assms(3,4)] obtain h n hv kv vv where t: "map_header_at p m = Some h"
    "pointless_reader_vector_n_items p (mh_key_vector h) = Some n"
    "pointless_reader_vector_n_items p (mh_value_vector h) = Some n"
    "pointless_reader_vector_u32 p (mh_hash_vector h) = Some hv"
    "pointless_reader_vector_value p (mh_key_vector h) = Some kv"
    "pointless_reader_vector_value p (mh_value_vector h) = Some vv"
    and v: "table_valid fuel p (mh_n_items h) n hv kv" by metis
  from assms(6) t obtain hsh i where hsh: "pointless_hash_reader_32 fuel p k = Some hsh"
    and pr: "pointless_hash_table_probe p hsh k n hv kv = Some (Inr i)"
    and i: "lookup_result i = Some (unat i)" and a: "value_addr p (mh_key_vector h) (unat i) = Some a"
    and b: "value_addr p (mh_value_vector h) (unat i) = Some b"
    by (auto simp: pointless_reader_map_lookup_def map_lookup_found_def lookup_result_def
        elim!: bind_eq_Some_E split: if_split_asm sum.split_asm)
  from probe_sound [OF v pr] i have s: "unat i < unat n" "used_slot kv (unat i)" "hv ! unat i = hsh"
    "pointless_cmp_reader p (pointless_value_to_complete k) p
       (pointless_value_to_complete (kv ! unat i)) = Some (Inr 0)"
    by (auto simp: lookup_result_def split: if_split_asm)
  have "(kv ! unat i, vv ! unat i) \<in> set items" using assms(5) t s(1,2) by (auto simp: map_items_def)
  moreover have "unat i < length vv" using map_values_length [OF ok assms(4) t(1,3,6)] s(1) by simp
  then have "read_value (p_buf p) b = Some (vv ! unat i)" using value_addr_at [OF t(6)] b by fastforce
  moreover have "read_value (p_buf p) a = Some (kv ! unat i)"
    using value_addr_at [OF t(5) table_valid_bound(2) [OF v s(1)]] a by auto
  moreover have "pointless_hash_reader_32 fuel p k = pointless_hash_reader_32 fuel p (kv ! unat i)"
    using hsh table_hash [OF v s(1)] s(3) by simp
  ultimately show ?thesis using s(4) by blast
qed

section \<open>Iteration\<close>

text \<open>Calling an iterator until it answers that there is no more, at most as often as the first argument says.\<close>

fun map_iterate ::
    "nat \<Rightarrow> pointless_t \<Rightarrow> pointless_value_t \<Rightarrow> u32 \<Rightarrow> (addr \<times> addr) list option" where
  "map_iterate 0 p m st = None"
| "map_iterate (Suc f) p m st =
     do { (found, st') \<leftarrow> pointless_reader_map_iter p m st;
          (case found of None \<Rightarrow> Some [] | Some kv \<Rightarrow> map_option (Cons kv) (map_iterate f p m st')) }"

fun set_iterate :: "nat \<Rightarrow> pointless_t \<Rightarrow> pointless_value_t \<Rightarrow> u32 \<Rightarrow> addr list option" where
  "set_iterate 0 p s st = None"
| "set_iterate (Suc f) p s st =
     do { (found, st') \<leftarrow> pointless_reader_set_iter p s st;
          (case found of None \<Rightarrow> Some [] | Some k \<Rightarrow> map_option (Cons k) (set_iterate f p s st')) }"

abbreviation used_from :: "pointless_value_t list \<Rightarrow> nat \<Rightarrow> nat \<Rightarrow> nat list" where
  "used_from kv i n \<equiv> filter (used_slot kv) [i..<n]"

lemma used_from_step:
  "i < n \<Longrightarrow> used_from kv i n = (if used_slot kv i then i # used_from kv (Suc i) n else used_from kv (Suc i) n)"
  by (simp add: upt_conv_Cons)

lemma used_from_tail:
  assumes "used_from kv i n = j # js"
  shows "i \<le> j \<and> j < n \<and> js = used_from kv (Suc j) n"
  using assms
proof (induction "n - i" arbitrary: i)
  case (Suc d)
  then have i: "i < n" by simp
  show ?case
  proof (cases "used_slot kv i")
    case True
    then show ?thesis using Suc.prems [unfolded used_from_step [OF i]] i by auto
  next
    case False
    then have "used_from kv (Suc i) n = j # js" using Suc.prems [unfolded used_from_step [OF i]] by simp
    moreover have "d = n - Suc i" using Suc.hyps(2) by simp
    ultimately have "Suc i \<le> j \<and> j < n \<and> js = used_from kv (Suc j) n" by (rule_tac Suc.hyps(1))
    then show ?thesis by simp
  qed
qed simp

lemma iter_loop_spec:
  assumes "unat n \<le> length kv" and "i \<le> n"
  shows "iter_loop kv n i = (case used_from kv (unat i) (unat n) of
    [] \<Rightarrow> Some (None, n) | j # _ \<Rightarrow> Some (Some j, of_nat (Suc j)))"
  using assms
proof (induction kv n i rule: iter_loop.induct)
  case (1 kv n i)
  show ?case
  proof (cases "i < n")
    case False
    with 1 show ?thesis by (subst iter_loop.simps) (simp add: not_less)
  next
    case True
    then have i: "unat i < unat n" by (simp add: word_less_nat_alt)
    have Suc: "unat (i + 1) = Suc (unat i)" using unat_plus_one [OF True] by simp
    with i have le: "i + 1 \<le> n" by (simp add: word_le_nat_alt)
    have g: "arr_get kv (unat i) = Some (kv ! unat i)" using i 1 by simp
    show ?thesis
    proof (cases "used_slot kv (unat i)")
      case used: True
      then show ?thesis using True g used_from_step [OF i, of kv]
        by (subst iter_loop.simps) (simp add: Suc [symmetric])
    next
      case False
      then show ?thesis using True g used_from_step [OF i, of kv] 1(1) [OF True g] 1(2) le Suc
        by (subst iter_loop.simps) simp
    qed
  qed
qed

lemma set_iterate_from:
  assumes t: "set_header_at p s = Some h" "pointless_reader_vector_n_items p (sh_key_vector h) = Some n"
    "pointless_reader_vector_value p (sh_key_vector h) = Some kv"
    and len: "unat n \<le> length kv"
    and "i \<le> unat n" and "length (used_from kv i (unat n)) < f"
  shows "\<exists>as. set_iterate f p s (of_nat i) = Some as \<and>
    map (read_value (p_buf p)) as = map (\<lambda>j. Some (kv ! j)) (used_from kv i (unat n))"
  using assms(5,6)
proof (induction f arbitrary: i)
  case (Suc f)
  have "i < 2 ^ 32" using Suc.prems(1) by (rule le_less_trans) simp
  then have u: "unat (of_nat i :: u32) = i" by (simp add: unsigned_of_nat take_bit_nat_eq_self)
  then have le: "of_nat i \<le> n" using Suc.prems(1) by (simp add: word_le_nat_alt)
  have lt: "of_nat i < n \<longleftrightarrow> i < unat n" by (simp add: word_less_nat_alt u)
  note spec = iter_loop_spec [OF len le, unfolded u]
  show ?case
  proof (cases "used_from kv i (unat n)")
    case Nil
    then show ?thesis using t lt spec by (simp add: pointless_reader_set_iter_def)
  next
    case (Cons j js)
    note tl = used_from_tail [OF Cons]
    then have "j < length kv" using len by simp
    from value_addr_at [OF t(3) this] obtain a where
      a: "value_addr p (sh_key_vector h) j = Some a" "read_value (p_buf p) a = Some (kv ! j)" by blast
    have "pointless_reader_set_iter p s (of_nat i) = Some (Some a, of_nat (Suc j))"
      using t lt spec tl a(1) Cons by (simp add: pointless_reader_set_iter_def)
    moreover obtain as where "set_iterate f p s (of_nat (Suc j)) = Some as"
      "map (read_value (p_buf p)) as = map (\<lambda>j. Some (kv ! j)) js"
      using Suc.IH [of "Suc j"] Suc.prems(2) Cons tl by auto
    ultimately show ?thesis using a(2) Cons by simp
  qed
qed simp

lemma map_iterate_from:
  assumes t: "map_header_at p m = Some h" "pointless_reader_vector_n_items p (mh_key_vector h) = Some n"
    "pointless_reader_vector_value p (mh_key_vector h) = Some kv"
    "pointless_reader_vector_value p (mh_value_vector h) = Some vv"
    and len: "unat n \<le> length kv" "unat n \<le> length vv"
    and "i \<le> unat n" and "length (used_from kv i (unat n)) < f"
  shows "\<exists>as. map_iterate f p m (of_nat i) = Some as \<and>
    map (\<lambda>(a, b). (read_value (p_buf p) a, read_value (p_buf p) b)) as =
    map (\<lambda>j. (Some (kv ! j), Some (vv ! j))) (used_from kv i (unat n))"
  using assms(7,8)
proof (induction f arbitrary: i)
  case (Suc f)
  have "i < 2 ^ 32" using Suc.prems(1) by (rule le_less_trans) simp
  then have u: "unat (of_nat i :: u32) = i" by (simp add: unsigned_of_nat take_bit_nat_eq_self)
  then have le: "of_nat i \<le> n" using Suc.prems(1) by (simp add: word_le_nat_alt)
  have lt: "of_nat i < n \<longleftrightarrow> i < unat n" by (simp add: word_less_nat_alt u)
  note spec = iter_loop_spec [OF len(1) le, unfolded u]
  show ?case
  proof (cases "used_from kv i (unat n)")
    case Nil
    then show ?thesis using t lt spec by (simp add: pointless_reader_map_iter_def)
  next
    case (Cons j js)
    note tl = used_from_tail [OF Cons]
    then have "j < length kv" "j < length vv" using len by simp_all
    from value_addr_at [OF t(3) this(1)] value_addr_at [OF t(4) this(2)] obtain a b where
      a: "value_addr p (mh_key_vector h) j = Some a" "read_value (p_buf p) a = Some (kv ! j)"
      "value_addr p (mh_value_vector h) j = Some b" "read_value (p_buf p) b = Some (vv ! j)" by blast
    have "pointless_reader_map_iter p m (of_nat i) = Some (Some (a, b), of_nat (Suc j))"
      using t lt spec tl a(1,3) Cons by (simp add: pointless_reader_map_iter_def)
    moreover obtain as where "map_iterate f p m (of_nat (Suc j)) = Some as"
      "map (\<lambda>(a, b). (read_value (p_buf p) a, read_value (p_buf p) b)) as =
       map (\<lambda>j. (Some (kv ! j), Some (vv ! j))) js"
      using Suc.IH [of "Suc j"] Suc.prems(2) Cons tl by auto
    ultimately show ?thesis using a(2,4) Cons by simp
  qed
qed simp

section \<open>Keys with the same content\<close>

text \<open>A comparison depends on the content of its first string only.\<close>

lemma cmp_string_content:
  assumes "LENGTH('a) \<le> 32" and "code_points (a :: 'a::len word list) = Some cs"
  shows "cmp_string a (y :: 'b::len word list) = cmp_string (cs @ [0]) y"
  using assms(2)
proof (induction a arbitrary: cs y)
  case (Cons x a)
  note zero = ucast_eq_0_up [OF assms(1), of x]
  from Cons.prems show ?case
    by (cases rule: code_points_ConsE; cases y) (use Cons.IH zero in simp_all)
qed simp

lemma cmp_string_type:
  "pointless_cmp_reader_func t = Some Cmp_String_Unicode \<longleftrightarrow> t = POINTLESS_UNICODE \<or> t = POINTLESS_STRING"
  by (auto simp: pointless_cmp_reader_func_def split: if_split_asm)

lemma cmp_reader_string:
  assumes "t = POINTLESS_UNICODE \<or> t = POINTLESS_STRING" and "cv_type a = t"
  shows "pointless_cmp_reader p a q y =
    (if cv_type y = POINTLESS_UNICODE \<or> cv_type y = POINTLESS_STRING
     then map_option Inr (pointless_cmp_reader_string_unicode p a q y)
     else Some (Inr (SIMPLE_CMP t (cv_type y))))"
proof -
  have f: "pointless_cmp_reader_func t = Some Cmp_String_Unicode" using assms(1) cmp_string_type by blast
  have d: "pointless_cmp_reader_rec (Suc g) True p a q y 0 =
    (if pointless_cmp_reader_func t = pointless_cmp_reader_func (cv_type y)
     then map_option Inr (pointless_cmp_reader_string_unicode p a q y)
     else Some (Inr (SIMPLE_CMP t (cv_type y))))" for g
    using f assms(2)
    by (cases "pointless_cmp_reader_func (cv_type y) = Some Cmp_String_Unicode") simp_all
  have "pointless_cmp_reader_func t = pointless_cmp_reader_func (cv_type y) \<longleftrightarrow>
      cv_type y = POINTLESS_UNICODE \<or> cv_type y = POINTLESS_STRING"
    using cmp_string_type [of "cv_type y"] f by metis
  then show ?thesis using d [of 256] by (simp add: pointless_cmp_reader_def)
qed

lemma string_unicode_content:
  assumes "key_of f p a = Some (K_Str cs)"
  shows "pointless_cmp_reader_string_unicode p a q y =
    (if cv_type y = POINTLESS_UNICODE then
       do { s \<leftarrow> pointless_reader_unicode_value_ucs4 q (pointless_value_from_complete y);
            cmp_string (cs @ [0]) s }
     else if cv_type y = POINTLESS_STRING then
       do { s \<leftarrow> pointless_reader_string_value_ascii q (pointless_value_from_complete y);
            cmp_string (cs @ [0]) s }
     else Some 0)"
  using key_of_StrD [OF assms]
proof (elim disjE conjE exE)
  fix s
  assume t: "cv_type a = POINTLESS_UNICODE" and "code_points s = Some cs"
    and s: "pointless_reader_unicode_value_ucs4 p (pointless_value_from_complete a) = Some s"
  then have "pointless_cmp_string_32_8 s = cmp_string (cs @ [0])"
    "pointless_cmp_string_32_32 s = cmp_string (cs @ [0])"
    by (simp_all add: fun_eq_iff pointless_cmp_string_32_8_def pointless_cmp_string_32_32_def
        cmp_string_content)
  with t s show ?thesis by (simp add: pointless_cmp_reader_string_unicode_def)
next
  fix s
  assume t: "cv_type a = POINTLESS_STRING" and "code_points s = Some cs"
    and s: "pointless_reader_string_value_ascii p (pointless_value_from_complete a) = Some s"
  then have "pointless_cmp_string_8_8 s = cmp_string (cs @ [0])"
    "pointless_cmp_string_8_32 s = cmp_string (cs @ [0])"
    by (simp_all add: fun_eq_iff pointless_cmp_string_8_8_def pointless_cmp_string_8_32_def
        cmp_string_content)
  with t s show ?thesis by (simp add: pointless_cmp_reader_string_unicode_def)
qed

lemma key_test_strings:
  assumes "key_of f p (pointless_value_to_complete k) = Some (K_Str cs)"
    and "key_of f' p (pointless_value_to_complete x) = Some (K_Str cs)"
  shows "key_test p k = key_test p x"
proof (rule ext)
  fix y
  let ?k = "pointless_value_to_complete k" and ?x = "pointless_value_to_complete x"
  have t: "cv_type ?k = POINTLESS_UNICODE \<or> cv_type ?k = POINTLESS_STRING"
    "cv_type ?x = POINTLESS_UNICODE \<or> cv_type ?x = POINTLESS_STRING"
    using key_of_StrD [OF assms(1)] key_of_StrD [OF assms(2)] by blast+
  show "key_test p k y = key_test p x y"
  proof (cases "cv_type y = POINTLESS_UNICODE \<or> cv_type y = POINTLESS_STRING")
    case True
    then show ?thesis
      by (simp only: key_test_def cmp_reader_string [OF t(1) refl] cmp_reader_string [OF t(2) refl]
          string_unicode_content [OF assms(1)] string_unicode_content [OF assms(2)] if_True)
  next
    case False
    with t have "cv_type ?k \<noteq> cv_type y" "cv_type ?x \<noteq> cv_type y" by metis+
    with False show ?thesis
      by (simp add: key_test_def cmp_reader_string [OF t(1) refl] cmp_reader_string [OF t(2) refl])
  qed
qed

lemma same_key_strings:
  assumes "key_of fuel p (pointless_value_to_complete k) = Some (K_Str cs)"
    and "key_of fuel p (pointless_value_to_complete x) = Some (K_Str cs)"
  shows "same_key fuel p k x" and "pointless_is_hashable (v_type k)"
proof -
  have h: "pointless_is_hashable (v_type v)"
    if "key_of fuel p (pointless_value_to_complete v) = Some (K_Str cs)" for v
    using key_of_StrD [OF that] by (auto simp: pointless_value_to_complete_def pointless_is_hashable_def
        pointless_hash_reader_func_32_def)
  then show "pointless_is_hashable (v_type k)" using assms(1) .
  show "same_key fuel p k x"
    using hash_reader_key [OF assms(1) h [OF assms(1)]] hash_reader_key [OF assms(2) h [OF assms(2)]]
      key_test_strings [OF assms] by (simp add: same_key_def)
qed

section \<open>The contract of the containers of an opened file\<close>

text \<open>
  C3 A map lookup is complete: in an opened file, looking up any value that is the same key as the
  key of an item, itself for one, answers the addresses of that key and of its value.
\<close>

theorem map_lookup_finds_items:
  assumes "pointless_open_b fuel buf = Some (Inr (p, warning))" and "length buf < 2 ^ 64"
    and "reachable p m" and "v_type m = POINTLESS_MAP_VALUE_VALUE"
    and "map_items p m = Some items" and "(x, v) \<in> set items"
    and "pointless_is_hashable (v_type k)" and "same_key fuel p k x"
  shows "\<exists>a b. pointless_reader_map_lookup fuel p m k = Some (Inr (Some (a, b))) \<and>
    read_value (p_buf p) a = Some x \<and> read_value (p_buf p) b = Some v"
  by (rule map_lookup_at [OF open_b_checked(1) [OF assms(1,2)] assms(3)
      open_b_tables [OF assms(1-3)] assms(4-8)])

text \<open>
  C4 A map lookup is sound: what it answers in an opened file are the addresses of the key and the
  value of one item of the map, and that key has the hash of the key asked for and compares equal to
  it.
\<close>

theorem map_lookup_answers_items:
  assumes "pointless_open_b fuel buf = Some (Inr (p, warning))" and "length buf < 2 ^ 64"
    and "reachable p m" and "v_type m = POINTLESS_MAP_VALUE_VALUE" and "map_items p m = Some items"
    and "pointless_reader_map_lookup fuel p m k = Some (Inr (Some (a, b)))"
  shows "\<exists>x v. (x, v) \<in> set items \<and> read_value (p_buf p) a = Some x \<and>
    read_value (p_buf p) b = Some v \<and>
    pointless_hash_reader_32 fuel p k = pointless_hash_reader_32 fuel p x \<and>
    pointless_cmp_reader p (pointless_value_to_complete k) p (pointless_value_to_complete x) = Some (Inr 0)"
  by (rule map_lookup_sound [OF open_b_checked(1) [OF assms(1,2)] assms(3)
      open_b_tables [OF assms(1-3)] assms(4-6)])

text \<open>
  C7 Strings are found by content: a set of an opened file that holds a string is found to hold every
  string with the same characters, whichever of the two string types the file gives to each.
\<close>

theorem set_lookup_finds_strings:
  assumes "pointless_open_b fuel buf = Some (Inr (p, warning))" and "length buf < 2 ^ 64"
    and "reachable p s" and "v_type s = POINTLESS_SET_VALUE" and "set_keys p s = Some keys"
    and "x \<in> set keys" and "key_of fuel p (pointless_value_to_complete x) = Some (K_Str cs)"
    and "key_of fuel p (pointless_value_to_complete k) = Some (K_Str cs)"
  shows "\<exists>a. pointless_reader_set_lookup fuel p s k = Some (Inr (Some a)) \<and>
    read_value (p_buf p) a = Some x"
  by (rule set_lookup_at [OF open_b_tables [OF assms(1-3)] assms(4-6)
      same_key_strings(2) [OF assms(8,7)] same_key_strings(1) [OF assms(8,7)]])

text \<open>
  C8 Iterating over a map of an opened file from state 0 visits the items one after the other in the
  order of their slots, as many as the header of the map says, and then ends.
\<close>

theorem map_iteration_complete:
  assumes "pointless_open_b fuel buf = Some (Inr (p, warning))" and "length buf < 2 ^ 64"
    and "reachable p m" and "v_type m = POINTLESS_MAP_VALUE_VALUE"
  shows "\<exists>as items n. map_iterate (2 ^ 32) p m 0 = Some as \<and> map_items p m = Some items \<and>
    map (\<lambda>(a, b). (read_value (p_buf p) a, read_value (p_buf p) b)) as =
      map (\<lambda>(x, v). (Some x, Some v)) items \<and>
    pointless_reader_map_n_items p m = Some n \<and> length items = unat n"
proof -
  note ok = open_b_checked(1) [OF assms(1,2)]
  from map_table [OF open_b_tables [OF assms(1-3)] assms(4)] obtain h n hv kv vv where
    t: "map_header_at p m = Some h"
    "pointless_reader_vector_n_items p (mh_key_vector h) = Some n"
    "pointless_reader_vector_n_items p (mh_value_vector h) = Some n"
    "pointless_reader_vector_value p (mh_key_vector h) = Some kv"
    "pointless_reader_vector_value p (mh_value_vector h) = Some vv"
    and v: "table_valid fuel p (mh_n_items h) n hv kv" by metis
  let ?u = "used_from kv 0 (unat n)"
  have len: "unat n \<le> length kv" "unat n \<le> length vv"
    using v map_values_length [OF ok assms(3,4) t(1,3,5)] by (simp_all add: table_valid_def)
  have "length ?u \<le> unat n" using length_filter_le [of _ "[0..<unat n]"] by simp
  then have "length ?u < 2 ^ 32" by (rule le_less_trans) simp
  from map_iterate_from [OF t(1,2,4,5) len le0 this] obtain as where
    "map_iterate (2 ^ 32) p m 0 = Some as"
    "map (\<lambda>(a, b). (read_value (p_buf p) a, read_value (p_buf p) b)) as =
      map (\<lambda>j. (Some (kv ! j), Some (vv ! j))) ?u" by (auto simp del: upt_rec_numeral)
  moreover have "map_items p m = Some (map (\<lambda>i. (kv ! i, vv ! i)) ?u)" using t by (simp add: map_items_def)
  moreover have "pointless_reader_map_n_items p m = Some (mh_n_items h)"
    using t by (simp add: pointless_reader_map_n_items_def)
  moreover have "length ?u = unat (mh_n_items h)" using v by (simp add: table_valid_def)
  ultimately show ?thesis by (auto simp: o_def)
qed

section \<open>Two file images\<close>

text \<open>The map from 1 to null.\<close>

definition map_image :: "u8 list" where
  "map_image =
     [18, 0, 0, 0, 0, 0, 0, 0, 0, 0, 0, 0, 3, 0, 0, 0, 0, 0, 0, 0, 0, 0, 0, 0,
      1, 0, 0, 0, 2, 0, 0, 0, 0, 0, 0, 0, 0, 0, 0, 0, 12, 0, 0, 0, 0, 0, 0, 0,
      32, 0, 0, 0, 0, 0, 0, 0, 52, 0, 0, 0, 0, 0, 0, 0, 2, 0, 0, 0, 0, 0, 0, 0,
      1, 0, 0, 0, 2, 0, 0, 0, 19, 0, 0, 0, 0, 0, 0, 0, 20, 0, 0, 0, 1, 0, 0, 0,
      2, 0, 0, 0, 19, 0, 0, 0, 0, 0, 0, 0, 24, 0, 0, 0, 0, 0, 0, 0, 1, 0, 0, 0,
      0, 0, 0, 0, 7, 0, 0, 0, 0, 0, 0, 0, 1, 0, 0, 0, 1, 0, 0, 0, 0, 0, 0, 0,
      2, 0, 0, 0]"

abbreviation (input) map_handle :: pointless_t where
  "map_handle \<equiv> init_handle map_image \<lparr>root = \<lparr>v_type = 18, v_data = 0\<rparr>, n_string_unicode = 0,
     n_vector = 3, n_bitvector = 0, n_set = 0, n_map = 1, version = 2\<rparr> 148"

text \<open>The set of the byte string \<open>"a"\<close>; the second string of the file is the same in UCS-4.\<close>

definition set_image :: "u8 list" where
  "set_image =
     [17, 0, 0, 0, 0, 0, 0, 0, 2, 0, 0, 0, 2, 0, 0, 0, 0, 0, 0, 0, 1, 0, 0, 0,
      0, 0, 0, 0, 2, 0, 0, 0, 0, 0, 0, 0, 0, 0, 0, 0, 6, 0, 0, 0, 0, 0, 0, 0,
      18, 0, 0, 0, 0, 0, 0, 0, 30, 0, 0, 0, 0, 0, 0, 0, 50, 0, 0, 0, 0, 0, 0, 0,
      1, 0, 0, 0, 97, 0, 1, 0, 0, 0, 97, 0, 0, 0, 0, 0, 0, 0, 2, 0, 0, 0, 224, 177,
      13, 228, 0, 0, 0, 0, 2, 0, 0, 0, 29, 0, 0, 0, 0, 0, 0, 0, 19, 0, 0, 0, 0, 0,
      0, 0, 1, 0, 0, 0, 0, 0, 0, 0, 7, 0, 0, 0, 0, 0, 0, 0, 1, 0, 0, 0, 1, 0,
      0, 0]"

abbreviation (input) set_handle :: pointless_t where
  "set_handle \<equiv> init_handle set_image \<lparr>root = \<lparr>v_type = 17, v_data = 0\<rparr>, n_string_unicode = 2,
     n_vector = 2, n_bitvector = 0, n_set = 1, n_map = 0, version = 2\<rparr> 146"

lemma map_image_opens: "pointless_open_b 1 map_image = Some (Inr (map_handle, None))"
  by code_simp

lemma set_image_opens: "pointless_open_b 1 set_image = Some (Inr (set_handle, None))"
  by code_simp

lemma map_image_root: "pointless_root map_handle = \<lparr>v_type = 18, v_data = 0\<rparr>"
  by (simp add: pointless_root_def init_handle_def Let_def)

lemma set_image_root: "pointless_root set_handle = \<lparr>v_type = 17, v_data = 0\<rparr>"
  by (simp add: pointless_root_def init_handle_def Let_def)

lemma image_sizes: "length map_image < 2 ^ 64" "length set_image < 2 ^ 64"
  by (simp_all add: map_image_def set_image_def)

lemma map_image_items:
  "map_items map_handle \<lparr>v_type = 18, v_data = 0\<rparr> =
     Some [(\<lparr>v_type = 20, v_data = 1\<rparr>, \<lparr>v_type = 24, v_data = 0\<rparr>)]"
  by code_simp

lemma map_image_lookup:
  "pointless_reader_map_lookup 1 map_handle \<lparr>v_type = 18, v_data = 0\<rparr> \<lparr>v_type = 20, v_data = 1\<rparr> =
     Some (Inr (Some (88, 108)))"
  by code_simp

lemma set_image_keys:
  "set_keys set_handle \<lparr>v_type = 17, v_data = 0\<rparr> = Some [\<lparr>v_type = 29, v_data = 0\<rparr>]"
  by code_simp

lemma set_image_strings:
  "key_of 1 set_handle (pointless_value_to_complete \<lparr>v_type = 29, v_data = 0\<rparr>) = Some (K_Str [97])"
  "key_of 1 set_handle (pointless_value_to_complete \<lparr>v_type = 10, v_data = 1\<rparr>) = Some (K_Str [97])"
  by code_simp+

lemmas map_image_facts =
  map_image_opens image_sizes(1) reachable.root [of map_handle, unfolded map_image_root]

lemmas set_image_facts =
  set_image_opens image_sizes(2) reachable.root [of set_handle, unfolded set_image_root]

theorem map_lookup_finds_items_witness:
  "\<exists>a b. pointless_reader_map_lookup 1 map_handle \<lparr>v_type = 18, v_data = 0\<rparr> \<lparr>v_type = 20, v_data = 1\<rparr> =
     Some (Inr (Some (a, b))) \<and>
   read_value (p_buf map_handle) a = Some \<lparr>v_type = 20, v_data = 1\<rparr> \<and>
   read_value (p_buf map_handle) b = Some \<lparr>v_type = 24, v_data = 0\<rparr>"
  by (rule map_lookup_finds_items [OF map_image_facts _ map_image_items])
    (simp_all add: pointless_is_hashable_def pointless_hash_reader_func_32_def)

theorem map_lookup_answers_items_witness:
  "\<exists>x v. (x, v) \<in> set [(\<lparr>v_type = 20, v_data = 1\<rparr>, \<lparr>v_type = 24, v_data = 0\<rparr>)] \<and>
   read_value (p_buf map_handle) 88 = Some x \<and> read_value (p_buf map_handle) 108 = Some v"
  using map_lookup_answers_items [OF map_image_facts _ map_image_items map_image_lookup] by simp

theorem set_lookup_finds_strings_witness:
  "\<exists>a. pointless_reader_set_lookup 1 set_handle \<lparr>v_type = 17, v_data = 0\<rparr> \<lparr>v_type = 10, v_data = 1\<rparr> =
     Some (Inr (Some a)) \<and> read_value (p_buf set_handle) a = Some \<lparr>v_type = 29, v_data = 0\<rparr>"
  by (rule set_lookup_finds_strings [OF set_image_facts _ set_image_keys _ set_image_strings]) simp_all

theorem map_iteration_complete_witness:
  "\<exists>as. map_iterate (2 ^ 32) map_handle \<lparr>v_type = 18, v_data = 0\<rparr> 0 = Some as"
  using map_iteration_complete [OF map_image_facts] by auto

end
