(* ===== verification/Dynarray.thy ===== *)
theory Dynarray
  imports Int_Ops
begin

text \<open>
  \<open>src/pointless_dynarray.c\<close>: growable arrays. The allocation is a list of \<open>n_alloc\<close> slots, \<open>None\<close> for a
  slot that was never written; a null pointer is the empty list. The items are of the type the caller
  stores, \<open>item_size\<close> is their size in bytes. \<open>alloc\<close> tells whether the allocator grants a request of so
  many bytes.
\<close>

record 'a pointless_dynarray_t =
  da_data :: "'a option list"
  da_n_items :: u64
  da_n_alloc :: u64
  item_size :: u64

definition pointless_dynarray_init :: "u64 \<Rightarrow> 'a pointless_dynarray_t" where
  "pointless_dynarray_init sz_item = \<lparr>da_data = [], da_n_items = 0, da_n_alloc = 0, item_size = sz_item\<rparr>"

definition pointless_dynarray_n_items :: "'a pointless_dynarray_t \<Rightarrow> u64" where
  "pointless_dynarray_n_items a = da_n_items a"

definition pointless_dynarray_n_heap_bytes :: "'a pointless_dynarray_t \<Rightarrow> u64" where
  "pointless_dynarray_n_heap_bytes a = da_n_alloc a * item_size a"

definition pointless_dynarray_pop :: "'a pointless_dynarray_t \<Rightarrow> 'a pointless_dynarray_t" where
  "pointless_dynarray_pop a = a\<lparr>da_n_items := da_n_items a - 1\<rparr>"

definition next_size :: "u64 \<Rightarrow> intop_sizet_t" where
  "next_size n_alloc =
     (let small_add = [1, 1, 2, 2, 4, 4, 4, 8, 8, 10, 11, 12, 13, 14, 15, 16];
          a = n_alloc div 16;
          b = n_alloc;
          c = (if n_alloc < 16 then small_add ! unat n_alloc else 0)
      in intop_sizet_add (intop_sizet_add (intop_sizet_init a) (intop_sizet_init b))
           (intop_sizet_init c))"

text \<open>The answer is the return value with the array afterwards; \<open>realloc\<close> keeps the old slots.\<close>

definition pointless_dynarray_grow ::
    "(u64 \<Rightarrow> bool) \<Rightarrow> 'a pointless_dynarray_t \<Rightarrow> bool \<times> 'a pointless_dynarray_t" where
  "pointless_dynarray_grow alloc a =
     (let next_n_alloc = next_size (da_n_alloc a);
          next_n_bytes = intop_sizet_mult next_n_alloc (intop_sizet_init (item_size a))
      in if is_overflow next_n_bytes then (False, a)
         else if \<not> alloc (intval next_n_bytes) then (False, a)
         else let m = unat (intval next_n_alloc)
              in (True, a\<lparr>da_data := take m (da_data a) @ replicate (m - length (da_data a)) None,
                          da_n_alloc := intval next_n_alloc\<rparr>))"

lemma next_size_grows:
  assumes "\<not> is_overflow (next_size n)"
  shows "n < intval (next_size n)"
proof -
  let ?add = "[1, 1, 2, 2, 4, 4, 4, 8, 8, 10, 11, 12, 13, 14, 15, 16] :: u64 list"
  let ?c = "if n < 16 then ?add ! unat n else 0"
  have "unat (intval (next_size n)) = unat (n div 16) + unat n + unat ?c"
    using assms sz.sum_of_three_val [of "n div 16" n ?c] by (simp add: next_size_def Let_def)
  moreover have "0 < unat (n div 16) + unat ?c"
  proof (cases "n < 16")
    case True
    then have "unat n < 16" by (simp add: word_less_nat_alt)
    moreover have "list_all (\<lambda>x. x \<noteq> 0) ?add" by simp
    ultimately have "?add ! unat n \<noteq> 0" by (simp only: list_all_length) simp
    with True show ?thesis by (simp add: unat_gt_0)
  next
    case False
    then have "16 \<le> unat n" by (simp add: word_less_nat_alt not_less)
    then have "0 < unat n div 16" by simp
    then show ?thesis by (simp add: unat_div)
  qed
  ultimately show ?thesis by (simp add: word_less_nat_alt)
qed

lemma grow_advances:
  assumes "pointless_dynarray_grow alloc a = (True, a')"
  shows "da_n_alloc a < da_n_alloc a'"
proof -
  have "\<not> is_overflow (next_size (da_n_alloc a))" "da_n_alloc a' = intval (next_size (da_n_alloc a))"
    using assms by (auto simp: pointless_dynarray_grow_def Let_def sz.mult_ovf split: if_split_asm)
  then show ?thesis using next_size_grows by simp
qed

lemma grow_decreases:
  assumes "(True, a') = pointless_dynarray_grow alloc a"
  shows "18446744073709551616 - unat (da_n_alloc a') < 18446744073709551616 - unat (da_n_alloc a)"
proof (rule diff_less_mono2)
  show "unat (da_n_alloc a) < unat (da_n_alloc a')"
    using grow_advances [OF assms [symmetric]] by (simp add: word_less_nat_alt)
qed simp

text \<open>The loop that grows until \<open>n\<close> more items fit; the sum wraps as \<open>size_t\<close> does.\<close>

function push_bulk_grow ::
    "(u64 \<Rightarrow> bool) \<Rightarrow> u64 \<Rightarrow> 'a pointless_dynarray_t \<Rightarrow> bool \<times> 'a pointless_dynarray_t" where
  "push_bulk_grow alloc n a =
     (if da_n_items a + n > da_n_alloc a
      then (case pointless_dynarray_grow alloc a of
              (r, a') \<Rightarrow> if r then push_bulk_grow alloc n a' else (False, a'))
      else (True, a))"
  by pat_completeness auto
termination
  by (relation "measure (\<lambda>(_, _, a). 2 ^ 64 - unat (da_n_alloc a))")
    (simp_all add: grow_decreases)

declare push_bulk_grow.simps [simp del]

text \<open>Writing past the allocation is undefined.\<close>

definition pointless_dynarray_push_bulk ::
    "(u64 \<Rightarrow> bool) \<Rightarrow> 'a pointless_dynarray_t \<Rightarrow> 'a list \<Rightarrow> (bool \<times> 'a pointless_dynarray_t) option" where
  "pointless_dynarray_push_bulk alloc a items =
     (case push_bulk_grow alloc (of_nat (length items)) a of
        (False, a') \<Rightarrow> Some (False, a')
      | (True, a') \<Rightarrow>
          let at = unat (da_n_items a')
          in if at + length items \<le> length (da_data a')
             then Some (True,
               a'\<lparr>da_data := take at (da_data a') @ map Some items @
                             drop (at + length items) (da_data a'),
                  da_n_items := da_n_items a' + of_nat (length items)\<rparr>)
             else None)"

definition pointless_dynarray_push ::
    "(u64 \<Rightarrow> bool) \<Rightarrow> 'a pointless_dynarray_t \<Rightarrow> 'a \<Rightarrow> (bool \<times> 'a pointless_dynarray_t) option" where
  "pointless_dynarray_push alloc a i = pointless_dynarray_push_bulk alloc a [i]"

definition pointless_dynarray_destroy :: "'a pointless_dynarray_t \<Rightarrow> 'a pointless_dynarray_t" where
  "pointless_dynarray_destroy a = a\<lparr>da_data := [], da_n_items := 0, da_n_alloc := 0\<rparr>"

definition pointless_dynarray_clear :: "'a pointless_dynarray_t \<Rightarrow> 'a pointless_dynarray_t" where
  "pointless_dynarray_clear a =
     pointless_dynarray_init (item_size (pointless_dynarray_destroy a))"

text \<open>Reading through the pointer to item \<open>i\<close>; an unwritten slot has no value.\<close>

definition pointless_dynarray_item_at :: "'a pointless_dynarray_t \<Rightarrow> u64 \<Rightarrow> 'a option" where
  "pointless_dynarray_item_at a i = Option.bind (arr_get (da_data a) (unat i)) id"

definition pointless_dynarray_buffer :: "'a pointless_dynarray_t \<Rightarrow> 'a option list" where
  "pointless_dynarray_buffer a = da_data a"

text \<open>
  The four fixed sizes swap whole items through a typed pointer, any other size swaps the bytes one by
  one; both exchange the two slots.
\<close>

definition pointless_dynarray_swap ::
    "'a pointless_dynarray_t \<Rightarrow> u64 \<Rightarrow> u64 \<Rightarrow> 'a pointless_dynarray_t option" where
  "pointless_dynarray_swap a i j =
     do { t \<leftarrow> arr_get (da_data a) (unat i);
          u \<leftarrow> arr_get (da_data a) (unat j);
          Some (a\<lparr>da_data := (da_data a)[unat i := u, unat j := t]\<rparr>) }"

definition pointless_dynarray_give_data ::
    "'a pointless_dynarray_t \<Rightarrow> 'a option list \<Rightarrow> u64 \<Rightarrow> 'a pointless_dynarray_t" where
  "pointless_dynarray_give_data a data n = a\<lparr>da_data := data, da_n_items := n, da_n_alloc := n\<rparr>"

end
