(* ===== verification/Dynarray_Laws.thy ===== *)
theory Dynarray_Laws
  imports Dynarray
begin

text \<open>
  A dynamic array refines the list of its items: every operation keeps the invariant, a push appends
  or leaves the list alone, and it can only fail when memory runs out or the size of the allocation
  does not fit \<open>size_t\<close>.
\<close>

section \<open>The interface\<close>

text \<open>What a client of a growable array relies on; \<open>room\<close> tells that a push of so many items cannot fail.\<close>

locale growable =
  fixes invar :: "'a \<Rightarrow> bool" and items :: "'a \<Rightarrow> 'i list"
    and push :: "'a \<Rightarrow> 'i \<Rightarrow> (bool \<times> 'a) option" and pop :: "'a \<Rightarrow> 'a" and limit :: nat
  assumes push_ok: "invar a \<Longrightarrow> length (items a) < limit \<Longrightarrow>
      \<exists>r a'. push a x = Some (r, a') \<and> invar a' \<and> items a' = (if r then items a @ [x] else items a)"
    and pop_ok: "invar a \<Longrightarrow> items a \<noteq> [] \<Longrightarrow> invar (pop a) \<and> items (pop a) = butlast (items a)"
begin

text \<open>Appending one after the other, until a push fails.\<close>

fun push_all :: "'a \<Rightarrow> 'i list \<Rightarrow> (bool \<times> 'a) option" where
  "push_all a [] = Some (True, a)"
| "push_all a (x # xs) =
     do { (r, a') \<leftarrow> push a x; if r then push_all a' xs else Some (False, a') }"

lemma push_all_ok:
  assumes "invar a" and "length (items a) + length xs \<le> limit"
  shows "\<exists>n a'. push_all a xs = Some (n = length xs, a') \<and> invar a' \<and> n \<le> length xs \<and>
    items a' = items a @ take n xs"
  using assms
proof (induction xs arbitrary: a)
  case Nil
  then show ?case by (intro exI [of _ 0]) simp
next
  case (Cons x xs)
  from push_ok [OF Cons.prems(1), of x] Cons.prems(2) obtain r a1 where
    1: "push a x = Some (r, a1)" "invar a1" "items a1 = (if r then items a @ [x] else items a)"
    by auto
  show ?case
  proof (cases r)
    case True
    with 1 Cons.prems(2) Cons.IH [of a1] obtain n a' where
      "push_all a1 xs = Some (n = length xs, a')" "invar a'" "n \<le> length xs"
      "items a' = items a1 @ take n xs" by auto
    with True 1 show ?thesis by (intro exI [of _ "Suc n"] exI [of _ a']) simp
  next
    case False
    with 1 show ?thesis by (intro exI [of _ 0] exI [of _ a1]) simp
  qed
qed

lemma push_pop:
  assumes "invar a" and "length (items a) < limit" and "push a x = Some (True, a')"
  shows "invar (pop a') \<and> items (pop a') = items a"
  using push_ok [OF assms(1,2), of x] assms(3) pop_ok [of a'] by auto

end

section \<open>The invariant\<close>

definition dyn_items :: "'a pointless_dynarray_t \<Rightarrow> 'a list" where
  "dyn_items a = map the (take (unat (da_n_items a)) (da_data a))"

definition dyn_invar :: "'a pointless_dynarray_t \<Rightarrow> bool" where
  "dyn_invar a \<longleftrightarrow> da_n_items a \<le> da_n_alloc a \<and> length (da_data a) = unat (da_n_alloc a) \<and>
     (\<forall>i < unat (da_n_items a). da_data a ! i \<noteq> None)"

lemma length_dyn_items [simp]:
  "dyn_invar a \<Longrightarrow> length (dyn_items a) = unat (da_n_items a)"
  by (simp add: dyn_items_def dyn_invar_def word_le_nat_alt)

lemma dyn_item_at:
  assumes "dyn_invar a" and "i < da_n_items a"
  shows "pointless_dynarray_item_at a i = Some (dyn_items a ! unat i)"
proof -
  have i: "unat i < unat (da_n_items a)" using assms(2) by (simp add: word_less_nat_alt)
  then have l: "unat i < length (da_data a)"
    using assms(1) by (simp add: dyn_invar_def word_le_nat_alt)
  obtain x where "da_data a ! unat i = Some x" using assms(1) i by (auto simp: dyn_invar_def)
  with l i show ?thesis by (simp add: pointless_dynarray_item_at_def dyn_items_def)
qed

lemma dyn_init [preserves]:
  "dyn_invar (pointless_dynarray_init s)" "dyn_items (pointless_dynarray_init s) = []"
  by (simp_all add: dyn_invar_def dyn_items_def pointless_dynarray_init_def)

lemma dyn_destroy [preserves]:
  "dyn_invar (pointless_dynarray_destroy a)" "dyn_items (pointless_dynarray_destroy a) = []"
  "dyn_items (pointless_dynarray_clear a) = []" "item_size (pointless_dynarray_clear a) = item_size a"
  by (simp_all add: dyn_invar_def dyn_items_def pointless_dynarray_destroy_def
      pointless_dynarray_clear_def pointless_dynarray_init_def)

lemma dyn_give_data [preserves]:
  assumes "length xs < 2 ^ 64" and "b = pointless_dynarray_give_data a (map Some xs) (of_nat (length xs))"
  shows "dyn_invar b" and "dyn_items b = xs"
proof -
  have "unat (of_nat (length xs) :: u64) = length xs"
    using assms(1) by (simp add: unsigned_of_nat take_bit_nat_eq_self)
  then show "dyn_invar b" "dyn_items b = xs"
    by (simp_all add: assms(2) dyn_invar_def dyn_items_def pointless_dynarray_give_data_def o_def)
qed

lemma dyn_grow [preserves]:
  assumes "dyn_invar a" and "pointless_dynarray_grow alloc a = (r, a')"
  shows "dyn_invar a' \<and> dyn_items a' = dyn_items a \<and> item_size a' = item_size a \<and>
    da_n_items a' = da_n_items a"
proof (cases r)
  case False
  then show ?thesis using assms by (auto simp: pointless_dynarray_grow_def Let_def split: if_split_asm)
next
  case True
  then have adv: "da_n_alloc a < da_n_alloc a'" using grow_advances assms(2) by simp
  have a': "a' = a\<lparr>da_data := take m (da_data a) @ replicate (m - length (da_data a)) None,
      da_n_alloc := da_n_alloc a'\<rparr>" if "m = unat (da_n_alloc a')" for m
    using assms(2) True that by (auto simp: pointless_dynarray_grow_def Let_def split: if_split_asm)
  let ?m = "unat (da_n_alloc a')"
  have le: "length (da_data a) \<le> ?m" and n: "unat (da_n_items a) \<le> length (da_data a)"
    using assms(1) adv by (simp_all add: dyn_invar_def word_le_nat_alt word_less_nat_alt)
  have d: "da_data a' = da_data a @ replicate (?m - length (da_data a)) None"
    and i: "da_n_items a' = da_n_items a" "item_size a' = item_size a"
    using arg_cong [OF a' [OF refl], of da_data] arg_cong [OF a' [OF refl], of da_n_items]
      arg_cong [OF a' [OF refl], of item_size] le by simp_all
  have "da_n_items a' \<le> da_n_alloc a'" using n le i by (simp add: word_le_nat_alt)
  moreover have "length (da_data a') = ?m" using d le by simp
  moreover have "\<forall>k < unat (da_n_items a'). da_data a' ! k \<noteq> None"
    using assms(1) n by (simp add: d i nth_append dyn_invar_def)
  moreover have "dyn_items a' = dyn_items a" using n by (simp add: dyn_items_def d i)
  ultimately show ?thesis using i by (simp add: dyn_invar_def)
qed

lemma dyn_push_bulk_grow [preserves]:
  assumes "dyn_invar a" and "push_bulk_grow alloc n a = (r, a')"
  shows "dyn_invar a' \<and> dyn_items a' = dyn_items a \<and> item_size a' = item_size a \<and>
    da_n_items a' = da_n_items a \<and> (r \<longrightarrow> da_n_items a + n \<le> da_n_alloc a')"
  using assms
proof (induction alloc n a rule: push_bulk_grow.induct)
  case (1 alloc n a)
  show ?case
  proof (cases "da_n_items a + n > da_n_alloc a")
    case False
    with 1(3) have "r \<and> a' = a" by (subst (asm) push_bulk_grow.simps) simp
    with False 1(2) show ?thesis by simp
  next
    case True
    obtain q b where g: "pointless_dynarray_grow alloc a = (q, b)" by fastforce
    note gr = dyn_grow [OF 1(2) g]
    show ?thesis
    proof (cases q)
      case False
      with True g 1(3) have "\<not> r \<and> a' = b" by (subst (asm) push_bulk_grow.simps) simp
      with gr show ?thesis by simp
    next
      case q: True
      with True g 1(3) have "push_bulk_grow alloc n b = (r, a')"
        by (subst (asm) push_bulk_grow.simps) simp
      from 1(1) [OF True g [symmetric] q _ this] gr show ?thesis by simp
    qed
  qed
qed

text \<open>A push appends its items or, when it fails, changes nothing the client sees.\<close>

lemma dyn_push_bulk:
  assumes "dyn_invar a" and "unat (da_n_items a) + length xs < 2 ^ 64"
  shows "\<exists>r a'. pointless_dynarray_push_bulk alloc a xs = Some (r, a') \<and> dyn_invar a' \<and>
    dyn_items a' = (if r then dyn_items a @ xs else dyn_items a) \<and> item_size a' = item_size a"
proof -
  obtain r b where g: "push_bulk_grow alloc (of_nat (length xs)) a = (r, b)" by fastforce
  note gr = dyn_push_bulk_grow [OF assms(1) g]
  show ?thesis
  proof (cases r)
    case False
    with g have "pointless_dynarray_push_bulk alloc a xs = Some (False, b)"
      by (simp add: pointless_dynarray_push_bulk_def)
    with gr show ?thesis by fastforce
  next
    case True
    let ?n = "unat (da_n_items a)"
    have l: "unat (of_nat (length xs) :: u64) = length xs"
      using assms(2) by (simp add: unsigned_of_nat take_bit_nat_eq_self)
    have sum: "unat (da_n_items a + of_nat (length xs)) = ?n + length xs"
      by (subst unat_add_lem [THEN iffD1]) (use assms(2) in \<open>simp_all add: l\<close>)
    have room: "?n + length xs \<le> length (da_data b)"
      using gr True sum by (simp add: dyn_invar_def word_le_nat_alt)
    define c where "c = b\<lparr>da_data := take ?n (da_data b) @ map Some xs @ drop (?n + length xs) (da_data b),
      da_n_items := da_n_items b + of_nat (length xs)\<rparr>"
    have "pointless_dynarray_push_bulk alloc a xs = Some (True, c)"
      using g gr True room by (simp add: pointless_dynarray_push_bulk_def c_def Let_def)
    moreover have "dyn_invar c"
      using gr True room sum by (auto simp: dyn_invar_def c_def nth_append word_le_nat_alt)
    moreover have e: "da_n_items b = da_n_items a" and "dyn_items b = dyn_items a" using gr by simp_all
    then have "map the (take ?n (da_data b)) = dyn_items a" by (simp add: dyn_items_def)
    then have "dyn_items c = dyn_items a @ xs"
      unfolding dyn_items_def [of c] using room sum e by (simp add: c_def o_def)
    moreover have "item_size c = item_size a" using gr by (simp add: c_def)
    ultimately show ?thesis by fastforce
  qed
qed

lemma dyn_pop [preserves]:
  assumes "dyn_invar a" and "dyn_items a \<noteq> []"
  shows "dyn_invar (pointless_dynarray_pop a) \<and>
    dyn_items (pointless_dynarray_pop a) = butlast (dyn_items a)"
proof -
  have n: "0 < unat (da_n_items a)" using assms length_dyn_items [OF assms(1)] by (metis length_greater_0_conv)
  then have "unat (da_n_items a - 1) = unat (da_n_items a) - 1"
    by (simp add: unat_sub word_le_nat_alt Suc_leI)
  moreover have "unat (da_n_items a) \<le> length (da_data a)"
    using assms(1) by (simp add: dyn_invar_def word_le_nat_alt)
  ultimately show ?thesis using assms(1) n
    by (auto simp: dyn_invar_def dyn_items_def pointless_dynarray_pop_def word_le_nat_alt butlast_take
        simp flip: map_butlast)
qed

lemma dyn_swap [preserves]:
  assumes "dyn_invar a" and "i < da_n_items a" and "j < da_n_items a"
  shows "\<exists>b. pointless_dynarray_swap a i j = Some b \<and> dyn_invar b \<and>
    dyn_items b = (dyn_items a)[unat i := dyn_items a ! unat j, unat j := dyn_items a ! unat i]"
proof -
  let ?n = "unat (da_n_items a)"
  have l: "unat i < ?n" "unat j < ?n" "?n \<le> length (da_data a)"
    using assms by (simp_all add: word_less_nat_alt word_le_nat_alt dyn_invar_def)
  then show ?thesis using assms(1)
    by (auto simp: pointless_dynarray_swap_def dyn_invar_def dyn_items_def nth_list_update
        map_update take_update_swap)
qed

interpretation dyn: growable "\<lambda>a. dyn_invar a \<and> item_size a = s" dyn_items
    "pointless_dynarray_push alloc" pointless_dynarray_pop "2 ^ 64 - 1"
proof unfold_locales
  fix a :: "'a pointless_dynarray_t" and x
  assume "dyn_invar a \<and> item_size a = s" "length (dyn_items a) < 2 ^ 64 - 1"
  then show "\<exists>r a'. pointless_dynarray_push alloc a x = Some (r, a') \<and> (dyn_invar a' \<and> item_size a' = s) \<and>
      dyn_items a' = (if r then dyn_items a @ [x] else dyn_items a)"
    using dyn_push_bulk [of a "[x]" alloc] by (auto simp: pointless_dynarray_push_def)
next
  fix a :: "'a pointless_dynarray_t"
  assume "dyn_invar a \<and> item_size a = s" "dyn_items a \<noteq> []"
  then show "(dyn_invar (pointless_dynarray_pop a) \<and> item_size (pointless_dynarray_pop a) = s) \<and>
      dyn_items (pointless_dynarray_pop a) = butlast (dyn_items a)"
    using dyn_pop [of a] by (simp add: pointless_dynarray_pop_def)
qed

section \<open>A push succeeds while there is memory\<close>

lemma next_size_bound:
  assumes "unat n + unat n div 16 + 16 < 2 ^ 64"
  shows "\<not> is_overflow (next_size n)" and "unat (intval (next_size n)) \<le> unat n + unat n div 16 + 16"
proof -
  let ?add = "[1, 1, 2, 2, 4, 4, 4, 8, 8, 10, 11, 12, 13, 14, 15, 16] :: u64 list"
  let ?c = "if n < 16 then ?add ! unat n else 0"
  have c: "unat ?c \<le> 16"
  proof (cases "n < 16")
    case True
    then have "unat n < 16" by (simp add: word_less_nat_alt)
    moreover have "list_all (\<lambda>x. unat x \<le> 16) ?add" by simp
    ultimately have "unat (?add ! unat n) \<le> 16" by (simp only: list_all_length) simp
    with True show ?thesis by simp
  qed simp
  have ns: "next_size n = intop_sizet_add (intop_sizet_add (intop_sizet_init (n div 16)) (intop_sizet_init n))
      (intop_sizet_init ?c)" by (simp add: next_size_def Let_def)
  have d: "unat (n div 16) = unat n div 16" by (simp add: unat_div)
  show o: "\<not> is_overflow (next_size n)"
    unfolding ns sz.sum_of_three_ovf d using c assms by linarith
  show "unat (intval (next_size n)) \<le> unat n + unat n div 16 + 16"
    using sz.sum_of_three_val [OF o [unfolded ns]] c unfolding ns [symmetric] d by linarith
qed

lemma push_bulk_grow_succeeds:
  assumes "dyn_invar a" and "\<forall>k. alloc k" and "item_size a \<noteq> 0"
    and "need = unat (da_n_items a) + unat n"
    and "(need + need div 16 + 16) * unat (item_size a) < 2 ^ 64"
  shows "fst (push_bulk_grow alloc n a)"
  using assms
proof (induction alloc n a rule: push_bulk_grow.induct)
  case (1 alloc n a)
  have s: "0 < unat (item_size a)" using "1.prems"(3) by (simp add: unat_gt_0)
  have "need + need div 16 + 16 \<le> (need + need div 16 + 16) * unat (item_size a)" using s by simp
  then have B: "need + need div 16 + 16 < 2 ^ 64" using "1.prems"(5) by linarith
  then have sum: "unat (da_n_items a + n) = need"
    unfolding "1.prems"(4) by (subst unat_add_lem [THEN iffD1]) simp_all
  show ?case
  proof (cases "da_n_items a + n > da_n_alloc a")
    case False
    then show ?thesis by (subst push_bulk_grow.simps) simp
  next
    case True
    let ?m = "unat (da_n_alloc a)"
    have m: "?m < need" using True sum by (simp add: word_less_nat_alt)
    then have "?m div 16 \<le> need div 16" by (intro div_le_mono) simp
    with m have le: "?m + ?m div 16 + 16 \<le> need + need div 16 + 16" by simp
    note nb = next_size_bound [of "da_n_alloc a"]
    have nb: "\<not> is_overflow (next_size (da_n_alloc a))"
      "unat (intval (next_size (da_n_alloc a))) \<le> need + need div 16 + 16"
      using nb le B by linarith+
    have "unat (intval (next_size (da_n_alloc a))) * unat (item_size a) < 2 ^ 64"
      using mult_le_mono1 [OF nb(2)] "1.prems"(5) by (rule le_less_trans)
    then have "\<not> is_overflow (intop_sizet_mult (next_size (da_n_alloc a)) (intop_sizet_init (item_size a)))"
      using nb(1) by (simp add: sz.mult_ovf sz.init_ok sz.init_val)
    then obtain b where g: "pointless_dynarray_grow alloc a = (True, b)"
      using "1.prems"(2) by (auto simp: pointless_dynarray_grow_def Let_def)
    note gr = dyn_grow [OF "1.prems"(1) g]
    have "fst (push_bulk_grow alloc n b)"
      by (rule "1.IH" [OF True g [symmetric] TrueI]) (use gr "1.prems" in simp_all)
    with True g show ?thesis by (subst push_bulk_grow.simps) simp
  qed
qed

section \<open>The contract of the array\<close>

text \<open>
  C27 A dynamic array is the list of its items: pushing items on an array that satisfies the invariant
  never writes outside its allocation; it appends them all, or fails and leaves the items as they
  were.
\<close>

theorem dynarray_push_refines_append:
  assumes "dyn_invar a" and "unat (da_n_items a) + length xs < 2 ^ 64"
  shows "\<exists>r a'. pointless_dynarray_push_bulk alloc a xs = Some (r, a') \<and> dyn_invar a' \<and>
    dyn_items a' = (if r then dyn_items a @ xs else dyn_items a)"
  using dyn_push_bulk [OF assms, of alloc] by blast

theorem dynarray_push_refines_append_witness:
  "\<exists>r a'. pointless_dynarray_push_bulk (\<lambda>_. True) (pointless_dynarray_init 4) [1 :: u32, 2, 3] = Some (r, a') \<and>
    dyn_items a' = (if r then [1, 2, 3] else [])"
  using dynarray_push_refines_append [of "pointless_dynarray_init 4" "[1 :: u32, 2, 3]" "\<lambda>_. True"]
    dyn_init [of 4]
  by (fastforce simp: pointless_dynarray_init_def)

text \<open>
  C28 A push fails only for want of memory: when the allocator grants every request and the grown
  array, a sixteenth and 16 items larger than needed, has a size that fits \<open>size_t\<close>, it succeeds.
\<close>

theorem dynarray_push_succeeds:
  assumes "dyn_invar a" and "\<forall>k. alloc k" and "item_size a \<noteq> 0"
    and "need = unat (da_n_items a) + length xs"
    and "(need + need div 16 + 16) * unat (item_size a) < 2 ^ 64"
  shows "\<exists>a'. pointless_dynarray_push_bulk alloc a xs = Some (True, a') \<and>
    dyn_items a' = dyn_items a @ xs"
proof -
  have "0 < unat (item_size a)" using assms(3) by (simp add: unat_gt_0)
  then have "need + need div 16 + 16 \<le> (need + need div 16 + 16) * unat (item_size a)" by simp
  then have need: "need < 2 ^ 64" using assms(5) by linarith
  then have l: "unat (of_nat (length xs) :: u64) = length xs"
    using assms(4) by (simp add: unsigned_of_nat take_bit_nat_eq_self)
  have "fst (push_bulk_grow alloc (of_nat (length xs)) a)"
    by (rule push_bulk_grow_succeeds [OF assms(1-3) _ assms(5)]) (simp add: assms(4) l)
  moreover from dyn_push_bulk [OF assms(1), of xs alloc] need assms(4) obtain r a' where
    p: "pointless_dynarray_push_bulk alloc a xs = Some (r, a')"
    "dyn_items a' = (if r then dyn_items a @ xs else dyn_items a)" by auto
  ultimately have r
    by (auto simp: pointless_dynarray_push_bulk_def Let_def split: prod.split_asm bool.split_asm if_split_asm)
  with p show ?thesis by auto
qed

theorem dynarray_push_succeeds_witness:
  "\<exists>a'. pointless_dynarray_push_bulk (\<lambda>_. True) (pointless_dynarray_init 4) [1 :: u32, 2, 3] = Some (True, a') \<and>
    dyn_items a' = [1, 2, 3]"
proof -
  have "\<exists>a'. pointless_dynarray_push_bulk (\<lambda>_. True) (pointless_dynarray_init 4) [1 :: u32, 2, 3] = Some (True, a') \<and>
      dyn_items a' = dyn_items (pointless_dynarray_init 4) @ [1, 2, 3]"
    by (rule dynarray_push_succeeds [OF dyn_init(1), where need = 3]) (simp_all add: pointless_dynarray_init_def)
  then show ?thesis by (simp add: dyn_init(2))
qed

end
