(* ===== verification/Create_Cache.thy ===== *)
theory Create_Cache
  imports Prelude
begin

text \<open>
  \<open>src/pointless_create_cache.c\<close>: the handles of small integers and of the four constants, so that the
  writer creates each of them once. \<open>init\<close> is the handle that stands for "not created yet".
\<close>

abbreviation (input) POINTLESS_CREATE_CACHE_N_U32 :: nat where "POINTLESS_CREATE_CACHE_N_U32 \<equiv> 10000"
abbreviation (input) POINTLESS_CREATE_CACHE_MIN_I32 :: int where "POINTLESS_CREATE_CACHE_MIN_I32 \<equiv> -10000"
abbreviation (input) POINTLESS_CREATE_CACHE_MAX_I32 :: int where "POINTLESS_CREATE_CACHE_MAX_I32 \<equiv> 10000"

record pointless_create_cache_t =
  cc_init :: u32
  u32_cache :: "u32 list"
  i32_cache :: "u32 list"
  null_handle :: u32
  empty_slot_handle :: u32
  true_handle :: u32
  false_handle :: u32

definition pointless_create_cache_init :: "u32 \<Rightarrow> pointless_create_cache_t" where
  "pointless_create_cache_init init_value =
     \<lparr>cc_init = init_value,
      u32_cache = replicate POINTLESS_CREATE_CACHE_N_U32 init_value,
      i32_cache = replicate (nat (POINTLESS_CREATE_CACHE_MAX_I32 - POINTLESS_CREATE_CACHE_MIN_I32 + 1))
                    init_value,
      null_handle = init_value, empty_slot_handle = init_value,
      true_handle = init_value, false_handle = init_value\<rparr>"

definition pointless_create_cache_get_u32 :: "pointless_create_cache_t \<Rightarrow> u32 \<Rightarrow> u32 option" where
  "pointless_create_cache_get_u32 cache v =
     (if unat v < POINTLESS_CREATE_CACHE_N_U32 then arr_get (u32_cache cache) (unat v)
      else Some (cc_init cache))"

definition pointless_create_cache_set_u32 ::
    "pointless_create_cache_t \<Rightarrow> u32 \<Rightarrow> u32 \<Rightarrow> pointless_create_cache_t option" where
  "pointless_create_cache_set_u32 cache v handle =
     (if unat v < POINTLESS_CREATE_CACHE_N_U32
      then do { xs \<leftarrow> arr_set (u32_cache cache) (unat v) handle; Some (cache\<lparr>u32_cache := xs\<rparr>) }
      else Some cache)"

definition pointless_create_cache_get_i32 :: "pointless_create_cache_t \<Rightarrow> i32 \<Rightarrow> u32 option" where
  "pointless_create_cache_get_i32 cache v =
     (if POINTLESS_CREATE_CACHE_MIN_I32 \<le> sint v \<and> sint v \<le> POINTLESS_CREATE_CACHE_MAX_I32
      then arr_get (i32_cache cache) (nat (sint v - POINTLESS_CREATE_CACHE_MIN_I32))
      else Some (cc_init cache))"

definition pointless_create_cache_set_i32 ::
    "pointless_create_cache_t \<Rightarrow> i32 \<Rightarrow> u32 \<Rightarrow> pointless_create_cache_t option" where
  "pointless_create_cache_set_i32 cache v handle =
     (if POINTLESS_CREATE_CACHE_MIN_I32 \<le> sint v \<and> sint v \<le> POINTLESS_CREATE_CACHE_MAX_I32
      then do { xs \<leftarrow> arr_set (i32_cache cache) (nat (sint v - POINTLESS_CREATE_CACHE_MIN_I32)) handle;
                Some (cache\<lparr>i32_cache := xs\<rparr>) }
      else Some cache)"

definition pointless_create_cache_get_null :: "pointless_create_cache_t \<Rightarrow> u32" where
  "pointless_create_cache_get_null cache = null_handle cache"

definition pointless_create_cache_set_null ::
    "pointless_create_cache_t \<Rightarrow> u32 \<Rightarrow> pointless_create_cache_t" where
  "pointless_create_cache_set_null cache handle = cache\<lparr>null_handle := handle\<rparr>"

definition pointless_create_cache_get_empty_slot :: "pointless_create_cache_t \<Rightarrow> u32" where
  "pointless_create_cache_get_empty_slot cache = empty_slot_handle cache"

definition pointless_create_cache_set_empty_slot ::
    "pointless_create_cache_t \<Rightarrow> u32 \<Rightarrow> pointless_create_cache_t" where
  "pointless_create_cache_set_empty_slot cache handle = cache\<lparr>empty_slot_handle := handle\<rparr>"

definition pointless_create_cache_get_true :: "pointless_create_cache_t \<Rightarrow> u32" where
  "pointless_create_cache_get_true cache = true_handle cache"

definition pointless_create_cache_set_true ::
    "pointless_create_cache_t \<Rightarrow> u32 \<Rightarrow> pointless_create_cache_t" where
  "pointless_create_cache_set_true cache handle = cache\<lparr>true_handle := handle\<rparr>"

definition pointless_create_cache_get_false :: "pointless_create_cache_t \<Rightarrow> u32" where
  "pointless_create_cache_get_false cache = false_handle cache"

definition pointless_create_cache_set_false ::
    "pointless_create_cache_t \<Rightarrow> u32 \<Rightarrow> pointless_create_cache_t" where
  "pointless_create_cache_set_false cache handle = cache\<lparr>false_handle := handle\<rparr>"

section \<open>The contract of a cache\<close>

text \<open>
  One key space of the cache: it never reads outside its arrays; a key outside the cached range is
  always unknown, a key inside answers the handle that was set last.
\<close>

definition cache_wf :: "pointless_create_cache_t \<Rightarrow> bool" where
  "cache_wf c \<longleftrightarrow> length (u32_cache c) = POINTLESS_CREATE_CACHE_N_U32 \<and>
     length (i32_cache c) = nat (POINTLESS_CREATE_CACHE_MAX_I32 - POINTLESS_CREATE_CACHE_MIN_I32 + 1)"

locale handle_cache =
  fixes get :: "pointless_create_cache_t \<Rightarrow> 'k \<Rightarrow> u32 option"
    and upd :: "pointless_create_cache_t \<Rightarrow> 'k \<Rightarrow> u32 \<Rightarrow> pointless_create_cache_t option"
    and cached :: "'k \<Rightarrow> bool"
  assumes get_init: "get (pointless_create_cache_init h) k = Some h"
    and get_uncached: "\<not> cached k \<Longrightarrow> get c k = Some (cc_init c)"
    and get_total: "cache_wf c \<Longrightarrow> \<exists>h. get c k = Some h"
    and upd_total: "cache_wf c \<Longrightarrow>
      \<exists>c'. upd c k h = Some c' \<and> cache_wf c' \<and> cc_init c' = cc_init c"
    and get_upd: "cache_wf c \<Longrightarrow> upd c k h = Some c' \<Longrightarrow>
      get c' j = (if j = k \<and> cached k then Some h else get c j)"
begin

text \<open>
  The protocol of the writer: answer the cached handle, or the fresh one after recording it. The
  answers to the same key agree as long as it is cached.
\<close>

definition intern :: "u32 \<Rightarrow> pointless_create_cache_t \<Rightarrow> 'k \<Rightarrow> (u32 \<times> pointless_create_cache_t) option" where
  "intern fresh c k =
     do { h \<leftarrow> get c k;
          if h \<noteq> cc_init c then Some (h, c)
          else do { c' \<leftarrow> upd c k fresh; Some (fresh, c') } }"

lemma intern_total:
  assumes "cache_wf c"
  shows "\<exists>h c'. intern fresh c k = Some (h, c') \<and> cache_wf c' \<and> cc_init c' = cc_init c"
proof -
  from get_total [OF assms] obtain h where "get c k = Some h" by blast
  moreover from upd_total [OF assms] obtain c' where
    "upd c k fresh = Some c'" "cache_wf c'" "cc_init c' = cc_init c" by blast
  ultimately show ?thesis using assms by (simp add: intern_def)
qed

lemma intern_again:
  assumes "cache_wf c" and "intern fresh c k = Some (h, c')" and "cached k" and "h \<noteq> cc_init c"
  shows "intern fresh' c' k = Some (h, c')"
proof -
  from get_total [OF assms(1)] obtain g where g: "get c k = Some g" by blast
  show ?thesis
  proof (cases "g = cc_init c")
    case False
    with g assms(2) show ?thesis by (auto simp: intern_def)
  next
    case True
    from upd_total [OF assms(1)] obtain d where
      d: "upd c k fresh = Some d" "cc_init d = cc_init c" by blast
    with g True assms(2) have "h = fresh" "c' = d" by (auto simp: intern_def)
    with d get_upd [OF assms(1) d(1), of k] assms(3,4) show ?thesis by (simp add: intern_def)
  qed
qed

end

lemma i32_index:
  assumes "-10000 \<le> sint (v :: i32)" "-10000 \<le> sint w"
  shows "nat (sint v + 10000) = nat (sint w + 10000) \<longleftrightarrow> v = w"
proof -
  have "nat (sint v + 10000) = nat (sint w + 10000) \<longleftrightarrow> sint v = sint w" using assms by linarith
  then show ?thesis by (metis signed_word_eqI)
qed

interpretation u32s: handle_cache pointless_create_cache_get_u32 pointless_create_cache_set_u32
    "\<lambda>v. unat v < POINTLESS_CREATE_CACHE_N_U32"
proof unfold_locales
  fix c c' :: pointless_create_cache_t and k j h :: u32
  assume "cache_wf c" "pointless_create_cache_set_u32 c k h = Some c'"
  then show "pointless_create_cache_get_u32 c' j =
      (if j = k \<and> unat k < 10000 then Some h else pointless_create_cache_get_u32 c j)"
    by (auto simp: pointless_create_cache_get_u32_def pointless_create_cache_set_u32_def cache_wf_def
        arr_set_def arr_get_def nth_list_update split: if_split_asm simp flip: word_unat_eq_iff)
qed (auto simp: pointless_create_cache_get_u32_def pointless_create_cache_set_u32_def cache_wf_def
    pointless_create_cache_init_def arr_set_def arr_get_def)

interpretation i32s: handle_cache pointless_create_cache_get_i32 pointless_create_cache_set_i32
    "\<lambda>v. POINTLESS_CREATE_CACHE_MIN_I32 \<le> sint v \<and> sint v \<le> POINTLESS_CREATE_CACHE_MAX_I32"
proof unfold_locales
  fix c c' :: pointless_create_cache_t and k j :: i32 and h
  assume "cache_wf c" "pointless_create_cache_set_i32 c k h = Some c'"
  then show "pointless_create_cache_get_i32 c' j =
      (if j = k \<and> - 10000 \<le> sint k \<and> sint k \<le> 10000 then Some h else pointless_create_cache_get_i32 c j)"
    by (auto simp: pointless_create_cache_get_i32_def pointless_create_cache_set_i32_def cache_wf_def
        arr_set_def arr_get_def nth_list_update i32_index split: if_split_asm)
qed (auto simp: pointless_create_cache_get_i32_def pointless_create_cache_set_i32_def cache_wf_def
    pointless_create_cache_init_def arr_set_def arr_get_def)

text \<open>The four constants are caches with one key.\<close>

interpretation nulls: handle_cache "\<lambda>c (_ :: unit). Some (pointless_create_cache_get_null c)"
    "\<lambda>c _ h. Some (pointless_create_cache_set_null c h)" "\<lambda>_. True"
  by unfold_locales (auto simp: pointless_create_cache_get_null_def pointless_create_cache_set_null_def
      pointless_create_cache_init_def cache_wf_def)

interpretation empty_slots: handle_cache "\<lambda>c (_ :: unit). Some (pointless_create_cache_get_empty_slot c)"
    "\<lambda>c _ h. Some (pointless_create_cache_set_empty_slot c h)" "\<lambda>_. True"
  by unfold_locales (auto simp: pointless_create_cache_get_empty_slot_def
      pointless_create_cache_set_empty_slot_def pointless_create_cache_init_def cache_wf_def)

interpretation trues: handle_cache "\<lambda>c (_ :: unit). Some (pointless_create_cache_get_true c)"
    "\<lambda>c _ h. Some (pointless_create_cache_set_true c h)" "\<lambda>_. True"
  by unfold_locales (auto simp: pointless_create_cache_get_true_def pointless_create_cache_set_true_def
      pointless_create_cache_init_def cache_wf_def)

interpretation falses: handle_cache "\<lambda>c (_ :: unit). Some (pointless_create_cache_get_false c)"
    "\<lambda>c _ h. Some (pointless_create_cache_set_false c h)" "\<lambda>_. True"
  by unfold_locales (auto simp: pointless_create_cache_get_false_def pointless_create_cache_set_false_def
      pointless_create_cache_init_def cache_wf_def)

end
