(* ===== verification/Custom_Sort.thy ===== *)
theory Custom_Sort
  imports Prelude
begin

text \<open>
  \<open>src/custom_sort.c\<close>: the quicksort of Bentley and McIlroy over a comparison and an exchange of two
  positions that the caller provides. The comparison reads the caller's data and answers whether it
  succeeded and its sign; the exchange changes the data. Positions are C \<open>int\<close>s that stay within the
  range to sort, so they are mathematical integers here. Functions that can fail answer the return
  value with the data.
\<close>

type_synonym 's qsort_cmp = "int \<Rightarrow> int \<Rightarrow> 's \<Rightarrow> bool \<times> int"
type_synonym 's qsort_swap = "int \<Rightarrow> int \<Rightarrow> 's \<Rightarrow> 's"

text \<open>The sign, and the error flag, which stays set.\<close>

definition cmp_adapter :: "int \<Rightarrow> int \<Rightarrow> 's qsort_cmp \<Rightarrow> 's \<Rightarrow> bool \<Rightarrow> int \<times> bool" where
  "cmp_adapter a b cmp user is_error =
     (case cmp a b user of (ok, c) \<Rightarrow> (c, if ok then is_error else True))"

text \<open>The median of three positions, \<open>None\<close> for the -1 of an error.\<close>

definition med3 :: "int \<Rightarrow> int \<Rightarrow> int \<Rightarrow> 's qsort_cmp \<Rightarrow> 's \<Rightarrow> int option" where
  "med3 a b c cmp user =
     (let (ab, e1) = cmp_adapter a b cmp user False;
          (bc, e2) = cmp_adapter b c cmp user e1;
          (ac, e3) = cmp_adapter a c cmp user e2
      in if ab < 0
         then (if bc < 0 then (if e2 then None else Some b)
               else if e3 then None else Some (if ac < 0 then c else a))
         else (if bc > 0 then (if e2 then None else Some b)
               else if e3 then None else Some (if ac < 0 then a else c)))"

section \<open>Insertion sort of short ranges\<close>

function insert_loop ::
    "'s qsort_cmp \<Rightarrow> 's qsort_swap \<Rightarrow> int \<Rightarrow> int \<Rightarrow> bool \<Rightarrow> 's \<Rightarrow> bool \<times> bool \<times> 's" where
  "insert_loop cmp swap a pl is_error user =
     (if pl > a then
        let (c, err) = cmp_adapter (pl - 1) pl cmp user is_error
        in if c > 0
           then if err then (False, err, user)
                else insert_loop cmp swap a (pl - 1) err (swap pl (pl - 1) user)
           else (True, err, user)
      else (True, is_error, user))"
  by pat_completeness auto
termination
  by (relation "measure (\<lambda>(_, _, a, pl, _, _). nat (pl - a))") auto

function insertion_loop ::
    "'s qsort_cmp \<Rightarrow> 's qsort_swap \<Rightarrow> int \<Rightarrow> int \<Rightarrow> int \<Rightarrow> bool \<Rightarrow> 's \<Rightarrow> bool \<times> 's" where
  "insertion_loop cmp swap a n pm is_error user =
     (if pm < a + n then
        (case insert_loop cmp swap a pm is_error user of
           (ok, err, user') \<Rightarrow>
             if ok then insertion_loop cmp swap a n (pm + 1) err user' else (False, user'))
      else (True, user))"
  by pat_completeness auto
termination
  by (relation "measure (\<lambda>(_, _, a, n, pm, _, _). nat (a + n - pm))") auto

section \<open>Ranges that are sorted already\<close>

text \<open>\<open>Inl\<close> an error, or \<open>Inr\<close> whether the range is sorted, with the error flag.\<close>

function presorted_loop ::
    "'s qsort_cmp \<Rightarrow> int \<Rightarrow> int \<Rightarrow> int \<Rightarrow> bool \<Rightarrow> 's \<Rightarrow> unit + bool \<times> bool" where
  "presorted_loop cmp a n pm is_error user =
     (if pm < a + n then
        let (c, err) = cmp_adapter (pm - 1) pm cmp user is_error
        in if c > 0 then (if err then Inl () else Inr (False, err))
           else presorted_loop cmp a n (pm + 1) err user
      else Inr (True, is_error))"
  by pat_completeness auto
termination
  by (relation "measure (\<lambda>(_, a, n, pm, _, _). nat (a + n - pm))") auto

section \<open>The pivot\<close>

definition choose_pivot :: "'s qsort_cmp \<Rightarrow> int \<Rightarrow> int \<Rightarrow> 's \<Rightarrow> int option" where
  "choose_pivot cmp a n user =
     (let pm = a + n div 2
      in if n > 7 then
           let pl = a; pn = a + (n - 1)
           in if n > 40 then
                let d = n div 8
                in do { pl \<leftarrow> med3 pl (pl + d) (pl + 2 * d) cmp user;
                        pm \<leftarrow> med3 (pm - d) pm (pm + d) cmp user;
                        pn \<leftarrow> med3 (pn - 2 * d) (pn - d) pn cmp user;
                        med3 pl pm pn cmp user }
              else med3 pl pm pn cmp user
         else Some pm)"

section \<open>The partition\<close>

text \<open>The two inner loops: \<open>Inl\<close> when they fail, else the positions reached, the flag and the data.\<close>

function left_scan ::
    "'s qsort_cmp \<Rightarrow> 's qsort_swap \<Rightarrow> int \<Rightarrow> int \<Rightarrow> int \<Rightarrow> int \<Rightarrow> bool \<Rightarrow> 's \<Rightarrow>
     's + int \<times> int \<times> bool \<times> 's" where
  "left_scan cmp swap a pa pb pc is_error user =
     (if pb \<le> pc then
        let (r, err) = cmp_adapter pb a cmp user is_error
        in if r \<le> 0
           then if err then Inl user
                else if r = 0 then left_scan cmp swap a (pa + 1) (pb + 1) pc err (swap pa pb user)
                else left_scan cmp swap a pa (pb + 1) pc err user
           else Inr (pa, pb, err, user)
      else Inr (pa, pb, is_error, user))"
  by pat_completeness auto
termination
  by (relation "measure (\<lambda>(_, _, _, _, pb, pc, _, _). nat (pc + 1 - pb))") auto

function right_scan ::
    "'s qsort_cmp \<Rightarrow> 's qsort_swap \<Rightarrow> int \<Rightarrow> int \<Rightarrow> int \<Rightarrow> int \<Rightarrow> bool \<Rightarrow> 's \<Rightarrow>
     's + int \<times> int \<times> bool \<times> 's" where
  "right_scan cmp swap a pb pc pd is_error user =
     (if pb \<le> pc then
        let (r, err) = cmp_adapter pc a cmp user is_error
        in if r \<ge> 0
           then if err then Inl user
                else if r = 0 then right_scan cmp swap a pb (pc - 1) (pd - 1) err (swap pc pd user)
                else right_scan cmp swap a pb (pc - 1) pd err user
           else Inr (pc, pd, err, user)
      else Inr (pc, pd, is_error, user))"
  by pat_completeness auto
termination
  by (relation "measure (\<lambda>(_, _, _, pb, pc, _, _, _). nat (pc + 1 - pb))") auto

declare insert_loop.simps [simp del] insertion_loop.simps [simp del] presorted_loop.simps [simp del]
  left_scan.simps [simp del] right_scan.simps [simp del]

lemma left_scan_bounds:
  assumes "left_scan cmp swap a pa pb pc e u = Inr (pa', pb', e', u')" and "pb \<le> pc + 1"
  shows "pa \<le> pa' \<and> pb \<le> pb' \<and> pa' - pa \<le> pb' - pb \<and> pb' \<le> pc + 1"
  using assms
proof (induction cmp swap a pa pb pc e u rule: left_scan.induct)
  case (1 cmp swap a pa pb pc e u)
  obtain r err where c: "cmp_adapter pb a cmp u e = (r, err)" by fastforce
  show ?case
  proof (cases "pb \<le> pc \<and> r \<le> 0")
    case False
    with 1(3,4) c show ?thesis by (subst (asm) left_scan.simps) (auto split: if_split_asm)
  next
    case True
    with 1(3) c have ne: "\<not> err" by (subst (asm) left_scan.simps) auto
    show ?thesis
    proof (cases "r = 0")
      case r: True
      with 1(3) c True ne have "left_scan cmp swap a (pa + 1) (pb + 1) pc err (swap pa pb u) = Inr (pa', pb', e', u')"
        by (subst (asm) left_scan.simps) auto
      from 1(1) [OF _ c [symmetric] refl _ ne r this] True show ?thesis by simp
    next
      case r: False
      with 1(3) c True ne have "left_scan cmp swap a pa (pb + 1) pc err u = Inr (pa', pb', e', u')"
        by (subst (asm) left_scan.simps) auto
      from 1(2) [OF _ c [symmetric] refl _ ne r this] True show ?thesis by simp
    qed
  qed
qed

lemma right_scan_bounds:
  assumes "right_scan cmp swap a pb pc pd e u = Inr (pc', pd', e', u')" and "pb \<le> pc + 1"
  shows "pc' \<le> pc \<and> pd' \<le> pd \<and> pd - pd' \<le> pc - pc' \<and> pb \<le> pc' + 1"
  using assms
proof (induction cmp swap a pb pc pd e u rule: right_scan.induct)
  case (1 cmp swap a pb pc pd e u)
  obtain r err where c: "cmp_adapter pc a cmp u e = (r, err)" by fastforce
  show ?case
  proof (cases "pb \<le> pc \<and> r \<ge> 0")
    case False
    with 1(3,4) c show ?thesis by (subst (asm) right_scan.simps) (auto split: if_split_asm)
  next
    case True
    with 1(3) c have ne: "\<not> err" by (subst (asm) right_scan.simps) auto
    show ?thesis
    proof (cases "r = 0")
      case r: True
      with 1(3) c True ne have "right_scan cmp swap a pb (pc - 1) (pd - 1) err (swap pc pd u) = Inr (pc', pd', e', u')"
        by (subst (asm) right_scan.simps) auto
      from 1(1) [OF _ c [symmetric] refl _ ne r this] True show ?thesis by simp
    next
      case r: False
      with 1(3) c True ne have "right_scan cmp swap a pb (pc - 1) pd err u = Inr (pc', pd', e', u')"
        by (subst (asm) right_scan.simps) auto
      from 1(2) [OF _ c [symmetric] refl _ ne r this] True show ?thesis by simp
    qed
  qed
qed

text \<open>
  The outer loop: the positions when the scans have met. Equal items gather at both ends, smaller ones
  before and larger ones after the meeting point.
\<close>

function partition_loop ::
    "'s qsort_cmp \<Rightarrow> 's qsort_swap \<Rightarrow> int \<Rightarrow> int \<Rightarrow> int \<Rightarrow> int \<Rightarrow> int \<Rightarrow> bool \<Rightarrow> 's \<Rightarrow>
     's + int \<times> int \<times> int \<times> int \<times> 's" where
  "partition_loop cmp swap a pa pb pc pd is_error user =
     (case left_scan cmp swap a pa pb pc is_error user of
        Inl u \<Rightarrow> Inl u
      | Inr (pa', pb', e1, u1) \<Rightarrow>
          (case right_scan cmp swap a pb' pc pd e1 u1 of
             Inl u \<Rightarrow> Inl u
           | Inr (pc', pd', e2, u2) \<Rightarrow>
               if pb' > pc' then Inr (pa', pb', pc', pd', u2)
               else partition_loop cmp swap a pa' (pb' + 1) (pc' - 1) pd' e2 (swap pb' pc' u2)))"
  by pat_completeness auto
termination
proof (relation "measure (\<lambda>(_, _, _, _, pb, pc, _, _, _). nat (pc + 1 - pb))")
  fix cmp :: "'s qsort_cmp" and swap :: "'s qsort_swap" and a pa pb pc pd e u
    and pa' pb' e1 u1 pc' pd' e2 u2 r1 r2 x1 y1 z1 x2 y2 z2
  assume l: "left_scan cmp swap a pa pb pc e u = Inr r1"
    and r1: "(pa', x1) = r1" "(pb', y1) = x1" "(e1, u1) = y1"
    and r: "right_scan cmp swap a pb' pc pd e1 u1 = Inr r2"
    and r2: "(pc', x2) = r2" "(pd', y2) = x2" "(e2, u2) = y2" and go: "\<not> pb' > pc'"
  show "((cmp, swap, a, pa', pb' + 1, pc' - 1, pd', e2, swap pb' pc' u2), cmp, swap, a, pa, pb, pc, pd, e, u)
      \<in> measure (\<lambda>(_, _, _, _, pb, pc, _, _, _). nat (pc + 1 - pb))"
  proof (cases "pb \<le> pc + 1")
    case True
    with l r1 have "pb \<le> pb' \<and> pb' \<le> pc + 1"
      using left_scan_bounds [of cmp swap a pa pb pc e u pa' pb' e1 u1] by auto
    moreover from this r r2 have "pc' \<le> pc"
      using right_scan_bounds [of cmp swap a pb' pc pd e1 u1 pc' pd' e2 u2] by auto
    ultimately show ?thesis using go by simp
  next
    case False
    with l r1 have "pb' = pb" by (subst (asm) left_scan.simps) auto
    with False r r2 have "pc' = pc" by (subst (asm) right_scan.simps) auto
    with go False \<open>pb' = pb\<close> show ?thesis by simp
  qed
qed simp

declare partition_loop.simps [simp del]

lemma partition_loop_cases:
  assumes "partition_loop cmp swap a pa pb pc pd e u = Inr (qa, qb, qc, qd, w)"
  obtains (stop) e1 u1 e2 where
      "left_scan cmp swap a pa pb pc e u = Inr (qa, qb, e1, u1)"
      "right_scan cmp swap a qb pc pd e1 u1 = Inr (qc, qd, e2, w)" "qb > qc"
  | (go) pa' pb' e1 u1 pc' pd' e2 u2 where
      "left_scan cmp swap a pa pb pc e u = Inr (pa', pb', e1, u1)"
      "right_scan cmp swap a pb' pc pd e1 u1 = Inr (pc', pd', e2, u2)" "\<not> pb' > pc'"
      "partition_loop cmp swap a pa' (pb' + 1) (pc' - 1) pd' e2 (swap pb' pc' u2) = Inr (qa, qb, qc, qd, w)"
  using assms
  by (subst (asm) partition_loop.simps) (auto split: sum.split_asm prod.split_asm if_split_asm)

lemma partition_loop_met:
  "pb > pc \<Longrightarrow> partition_loop cmp swap a pa pb pc pd e u = Inr (pa, pb, pc, pd, u)"
  by (simp add: partition_loop.simps [of cmp swap a pa pb] left_scan.simps [of cmp swap a pa pb]
      right_scan.simps [of cmp swap a pb])

lemma partition_bounds:
  assumes "partition_loop cmp swap a pa pb pc pd e u = Inr (qa, qb, qc, qd, w)"
    and "pa \<le> pb" "pb \<le> pc + 1" "pc \<le> pd"
  shows "pa \<le> qa \<and> qa \<le> qb \<and> pb \<le> qb \<and> qb \<le> pc + 1 \<and> pb \<le> qc + 1 \<and> qc \<le> pc \<and> qc \<le> qd \<and>
    qd \<le> pd \<and> qc < qb"
  using assms
proof (induction cmp swap a pa pb pc pd e u rule: partition_loop.induct)
  case (1 cmp swap a pa pb pc pd e u)
  from 1(2) show ?case
  proof (cases rule: partition_loop_cases)
    case (stop e1 u1 e2)
    from left_scan_bounds [OF stop(1)] right_scan_bounds [OF stop(2)] stop(3) 1(3-) show ?thesis by auto
  next
    case (go pa' pb' e1 u1 pc' pd' e2 u2)
    note lb = left_scan_bounds [OF go(1) 1(4)]
    then have "pb' \<le> pc + 1" by simp
    note rb = right_scan_bounds [OF go(2) this]
    show ?thesis
    proof (cases "pb' = pc'")
      case True
      then have "qa = pa'" "qb = pb' + 1" "qc = pc' - 1" "qd = pd'"
        using go(4) by (simp_all add: partition_loop_met)
      with True lb rb 1(3-) show ?thesis by auto
    next
      case False
      then show ?thesis
        using 1(1) [OF go(1) refl refl refl go(2) refl refl refl go(3,4)] lb rb go(3) 1(3-) by auto
    qed
  qed
qed

section \<open>The sort\<close>

text \<open>Exchanging two blocks of \<open>r\<close> items, item by item.\<close>

fun vecswap :: "'s qsort_swap \<Rightarrow> int \<Rightarrow> int \<Rightarrow> nat \<Rightarrow> 's \<Rightarrow> 's" where
  "vecswap swap i j 0 user = user"
| "vecswap swap i j (Suc r) user = vecswap swap (i + 1) (j + 1) r (swap i j user)"

definition collect_equal ::
    "'s qsort_swap \<Rightarrow> int \<Rightarrow> int \<Rightarrow> int \<Rightarrow> int \<Rightarrow> int \<Rightarrow> int \<Rightarrow> 's \<Rightarrow> 's" where
  "collect_equal swap a n pa pb pc pd user =
     (let pn = a + n;
          r = SIMPLE_MIN (pa - a) (pb - pa);
          user1 = vecswap swap a (pb - r) (nat r) user;
          r = SIMPLE_MIN (pd - pc) (pn - pd - 1)
      in vecswap swap pb (pn - r) (nat r) user1)"

text \<open>The recursion on the smaller items is a call, the one on the larger items the jump to \<open>loop\<close>.\<close>

function bentley_qsort_priv ::
    "int \<Rightarrow> int \<Rightarrow> 's qsort_cmp \<Rightarrow> 's qsort_swap \<Rightarrow> 's \<Rightarrow> bool \<times> 's" where
  "bentley_qsort_priv a n cmp swap user =
     (if n < 7 then insertion_loop cmp swap a n (a + 1) False user
      else
        (case presorted_loop cmp a n (a + 1) False user of
           Inl _ \<Rightarrow> (False, user)
         | Inr (True, _) \<Rightarrow> (True, user)
         | Inr (False, err) \<Rightarrow>
             (case choose_pivot cmp a n user of
                None \<Rightarrow> (False, user)
              | Some pm \<Rightarrow>
                  (case partition_loop cmp swap a (a + 1) (a + 1) (a + (n - 1)) (a + (n - 1)) err
                          (swap a pm user) of
                     Inl user1 \<Rightarrow> (False, user1)
                   | Inr (pa, pb, pc, pd, user1) \<Rightarrow>
                       let user2 = collect_equal swap a n pa pb pc pd user1;
                           r = pb - pa;
                           (ok, user3) = (if r > 1 then bentley_qsort_priv a r cmp swap user2
                                          else (True, user2))
                       in if \<not> ok then (False, user3)
                          else let r = pd - pc
                               in if r > 1
                                  then bentley_qsort_priv (a + n - r) r cmp swap user3
                                  else (True, user3)))))"
  by pat_completeness auto
termination
proof (relation "measure (\<lambda>(_, n, _). nat n)", goal_cases)
  case (2 a n cmp swap user x2 x err pm r pa y pb z pc w pd user1 user2 q)
  then show ?case
    using partition_bounds [of cmp swap a "a + 1" "a + 1" "a + (n - 1)" "a + (n - 1)" err "swap a pm user"
        pa pb pc pd user1] by auto
next
  case (3 a n cmp swap user x2 x err pm r pa y pb z pc w pd user1 user2 q v ok user3 t)
  then show ?case
    using partition_bounds [of cmp swap a "a + 1" "a + 1" "a + (n - 1)" "a + (n - 1)" err "swap a pm user"
        pa pb pc pd user1] by auto
qed simp

declare bentley_qsort_priv.simps [simp del]

definition bentley_sort :: "int \<Rightarrow> 's qsort_cmp \<Rightarrow> 's qsort_swap \<Rightarrow> 's \<Rightarrow> bool \<times> 's" where
  "bentley_sort n cmp swap user = bentley_qsort_priv 0 n cmp swap user"

end
