(* ===== verification/Custom_Sort_Laws.thy ===== *)
theory Custom_Sort_Laws
  imports Custom_Sort "HOL-Library.Multiset"
begin

text \<open>
  The sort over an array: whatever the comparison answers, the result is a permutation of the range and
  nothing outside it changes; with a comparison that is a total preorder and never fails, the range is
  sorted. An error of the comparison can be swallowed.
\<close>

section \<open>The callbacks of an array\<close>

definition array_swap :: "int \<Rightarrow> int \<Rightarrow> 'a list \<Rightarrow> 'a list" where
  "array_swap i j xs = xs[nat i := xs ! nat j, nat j := xs ! nat i]"

definition item :: "'a list \<Rightarrow> int \<Rightarrow> 'a" where
  "item xs k = xs ! nat k"

text \<open>The comparison of two items, which may fail.\<close>

definition array_cmp :: "('a \<Rightarrow> 'a \<Rightarrow> bool \<times> int) \<Rightarrow> 'a list qsort_cmp" where
  "array_cmp c i j xs = c (item xs i) (item xs j)"

definition inside :: "'a list \<Rightarrow> int \<Rightarrow> bool" where
  "inside xs k \<longleftrightarrow> 0 \<le> k \<and> k < int (length xs)"

lemma length_array_swap [simp]: "length (array_swap i j xs) = length xs"
  by (simp add: array_swap_def)

lemma item_swap:
  assumes "inside xs i" "inside xs j" "0 \<le> k"
  shows "item (array_swap i j xs) k = (if k = i then item xs j else if k = j then item xs i else item xs k)"
  using assms by (auto simp: item_def array_swap_def inside_def nth_list_update)

lemma mset_array_swap:
  assumes "inside xs i" "inside xs j"
  shows "mset (array_swap i j xs) = mset xs"
  unfolding array_swap_def by (rule mset_swap) (use assms in \<open>auto simp: inside_def nat_less_iff\<close>)

text \<open>A permutation of the range \<open>lo .. hi - 1\<close>.\<close>

definition perm_in :: "int \<Rightarrow> int \<Rightarrow> 'a list \<Rightarrow> 'a list \<Rightarrow> bool" where
  "perm_in lo hi xs ys \<longleftrightarrow> length ys = length xs \<and> mset ys = mset xs \<and>
     (\<forall>k \<ge> 0. k < lo \<or> hi \<le> k \<longrightarrow> item ys k = item xs k) \<and>
     (\<forall>k. lo \<le> k \<and> k < hi \<longrightarrow> (\<exists>k'. lo \<le> k' \<and> k' < hi \<and> item ys k = item xs k'))"

definition range_in :: "int \<Rightarrow> int \<Rightarrow> 'a list \<Rightarrow> bool" where
  "range_in lo hi xs \<longleftrightarrow> 0 \<le> lo \<and> hi \<le> int (length xs)"

lemma perm_in_length: "perm_in lo hi xs ys \<Longrightarrow> length ys = length xs"
  by (simp add: perm_in_def)

lemma perm_in_range: "perm_in lo hi xs ys \<Longrightarrow> range_in a b ys = range_in a b xs"
  by (simp add: perm_in_def range_in_def)

lemma perm_in_refl [simp]: "perm_in lo hi xs xs"
  by (auto simp: perm_in_def)

lemma perm_in_trans:
  assumes "perm_in lo hi xs ys" and "perm_in lo hi ys zs"
  shows "perm_in lo hi xs zs"
  using assms unfolding perm_in_def by (metis (no_types))

lemma perm_in_mono:
  assumes "perm_in lo hi xs ys" and "lo' \<le> lo" "hi \<le> hi'" "0 \<le> lo'"
  shows "perm_in lo' hi' xs ys"
  unfolding perm_in_def
proof (intro conjI allI impI)
  fix k assume k: "lo' \<le> k \<and> k < hi'"
  show "\<exists>k'. lo' \<le> k' \<and> k' < hi' \<and> item ys k = item xs k'"
  proof (cases "lo \<le> k \<and> k < hi")
    case True
    then obtain k' where "lo \<le> k'" "k' < hi" "item ys k = item xs k'"
      using assms(1) unfolding perm_in_def by blast
    with assms(2,3) show ?thesis by (intro exI [of _ k']) simp
  next
    case False
    then have "item ys k = item xs k" using assms(1,4) k unfolding perm_in_def by force
    with k show ?thesis by blast
  qed
qed (use assms in \<open>auto simp: perm_in_def\<close>)

lemma perm_in_swap:
  assumes "range_in lo hi xs" "lo \<le> i" "i < hi" "lo \<le> j" "j < hi"
  shows "perm_in lo hi xs (array_swap i j xs)"
proof -
  have i: "inside xs i" "inside xs j" using assms by (auto simp: range_in_def inside_def)
  have "0 \<le> lo" using assms(1) by (simp add: range_in_def)
  then show ?thesis
    unfolding perm_in_def using i assms(2-) by (auto simp: item_swap mset_array_swap)
qed

section \<open>Whatever the comparison, the sort permutes\<close>

lemma insert_loop_perm:
  assumes "insert_loop cmp array_swap a pl e xs = (ok, e', ys)" and "range_in a hi xs" and "pl < hi"
  shows "perm_in a hi xs ys"
  using assms
proof (induction cmp "array_swap :: int \<Rightarrow> int \<Rightarrow> 'a list \<Rightarrow> 'a list" a pl e xs rule: insert_loop.induct)
  case (1 cmp a pl e xs)
  obtain c err where c: "cmp_adapter (pl - 1) pl cmp xs e = (c, err)" by fastforce
  show ?case
  proof (cases "pl > a \<and> c > 0 \<and> \<not> err")
    case False
    with 1(2) c have "ys = xs" by (subst (asm) insert_loop.simps) (auto split: if_split_asm)
    then show ?thesis by simp
  next
    case True
    with 1(2) c have "insert_loop cmp array_swap a (pl - 1) err (array_swap pl (pl - 1) xs) = (ok, e', ys)"
      by (subst (asm) insert_loop.simps) simp
    moreover have p: "perm_in a hi xs (array_swap pl (pl - 1) xs)"
      using True 1(3,4) by (intro perm_in_swap) auto
    ultimately have "perm_in a hi (array_swap pl (pl - 1) xs) ys"
      using 1(1) [OF _ c [symmetric] refl] True 1(3,4) perm_in_range [OF p] by simp
    with p show ?thesis by (rule perm_in_trans)
  qed
qed

lemma insertion_loop_perm:
  assumes "insertion_loop cmp array_swap a n pm e xs = (ok, ys)" and "range_in a (a + n) xs"
  shows "perm_in a (a + n) xs ys"
  using assms
proof (induction cmp "array_swap :: int \<Rightarrow> int \<Rightarrow> 'a list \<Rightarrow> 'a list" a n pm e xs rule: insertion_loop.induct)
  case (1 cmp a n pm e xs)
  show ?case
  proof (cases "pm < a + n")
    case False
    with 1(2) show ?thesis by (subst (asm) insertion_loop.simps) simp
  next
    case True
    obtain k e1 zs where z: "insert_loop cmp array_swap a pm e xs = (k, e1, zs)" by (metis prod_cases3)
    have p: "perm_in a (a + n) xs zs" by (rule insert_loop_perm [OF z 1(3) True])
    show ?thesis
    proof (cases k)
      case False
      with True 1(2) z p show ?thesis by (subst (asm) insertion_loop.simps) simp
    next
      case k: True
      with True 1(2) z have "insertion_loop cmp array_swap a n (pm + 1) e1 zs = (ok, ys)"
        by (subst (asm) insertion_loop.simps) simp
      from 1(1) [OF True z [symmetric] refl k this] 1(3) perm_in_range [OF p]
      have "perm_in a (a + n) zs ys" by simp
      with p show ?thesis by (rule perm_in_trans)
    qed
  qed
qed

lemma med3_in: "med3 a b c cmp u = Some v \<Longrightarrow> v \<in> {a, b, c}"
  by (auto simp: med3_def split: prod.split_asm if_split_asm)

lemma choose_pivot_in:
  assumes "choose_pivot cmp a n u = Some pm" and "7 \<le> n"
  shows "a \<le> pm \<and> pm < a + n"
proof -
  let ?d = "n div 8" and ?h = "n div 2"
  have d: "0 \<le> ?d" "2 * ?d < n" "?d \<le> ?h" "?h + ?d < n" "0 \<le> ?h" "?h < n" using assms(2) by linarith+
  have m: "lo \<le> v \<and> v < hi"
    if "med3 x y z cmp u = Some v" "lo \<le> x \<and> x < hi" "lo \<le> y \<and> y < hi" "lo \<le> z \<and> z < hi" for x y z v lo hi
    using med3_in [OF that(1)] that(2-) by auto
  note eq = assms(1) [unfolded choose_pivot_def Let_def]
  show ?thesis
  proof (cases "n > 7")
    case False
    with eq d show ?thesis by simp
  next
    case True
    note eq = eq [unfolded if_P [OF True]]
    show ?thesis
    proof (cases "n > 40")
      case False
      show ?thesis by (rule m [OF eq [unfolded if_not_P [OF False]]]) (use d in linarith)+
    next
      case True
      from eq [unfolded if_P [OF True]] obtain x y z where
        x: "med3 a (a + ?d) (a + 2 * ?d) cmp u = Some x"
        and y: "med3 (a + ?h - ?d) (a + ?h) (a + ?h + ?d) cmp u = Some y"
        and z: "med3 (a + (n - 1) - 2 * ?d) (a + (n - 1) - ?d) (a + (n - 1)) cmp u = Some z"
        and v: "med3 x y z cmp u = Some pm" by (elim bind_eq_Some_E) (rule that)
      have "a \<le> x \<and> x < a + n" by (rule m [OF x]) (use d in linarith)+
      moreover have "a \<le> y \<and> y < a + n" by (rule m [OF y]) (use d in linarith)+
      moreover have "a \<le> z \<and> z < a + n" by (rule m [OF z]) (use d in linarith)+
      ultimately show ?thesis by (rule m [OF v])
    qed
  qed
qed

lemma left_scan_perm:
  assumes "left_scan cmp array_swap a pa pb pc e xs = r"
    and "range_in lo hi xs" "lo \<le> pa" "pa \<le> pb" "pc < hi"
  shows "perm_in lo hi xs (case r of Inl u \<Rightarrow> u | Inr (_, _, _, u) \<Rightarrow> u)"
  using assms
proof (induction cmp "array_swap :: int \<Rightarrow> int \<Rightarrow> 'a list \<Rightarrow> 'a list" a pa pb pc e xs rule: left_scan.induct)
  case (1 cmp a pa pb pc e xs)
  obtain x err where c: "cmp_adapter pb a cmp xs e = (x, err)" by fastforce
  show ?case
  proof (cases "pb \<le> pc \<and> x \<le> 0 \<and> \<not> err")
    case False
    with 1(3) c show ?thesis by (subst (asm) left_scan.simps) (auto split: if_split_asm)
  next
    case True
    show ?thesis
    proof (cases "x = 0")
      case x: True
      with 1(3) c True have "left_scan cmp array_swap a (pa + 1) (pb + 1) pc err (array_swap pa pb xs) = r"
        by (subst (asm) left_scan.simps) simp
      moreover have p: "perm_in lo hi xs (array_swap pa pb xs)"
        using True 1(4-) by (intro perm_in_swap) auto
      ultimately have "perm_in lo hi (array_swap pa pb xs) (case r of Inl u \<Rightarrow> u | Inr (_, _, _, u) \<Rightarrow> u)"
        using 1(1) [OF _ c [symmetric] refl] True x 1(4-) perm_in_range [OF p] by simp
      with p show ?thesis by (rule perm_in_trans)
    next
      case x: False
      with 1(3) c True have "left_scan cmp array_swap a pa (pb + 1) pc err xs = r"
        by (subst (asm) left_scan.simps) simp
      then show ?thesis using 1(2) [OF _ c [symmetric] refl] True x 1(4-) by simp
    qed
  qed
qed

lemma right_scan_perm:
  assumes "right_scan cmp array_swap a pb pc pd e xs = r"
    and "range_in lo hi xs" "lo \<le> pb" "pc \<le> pd" "pd < hi"
  shows "perm_in lo hi xs (case r of Inl u \<Rightarrow> u | Inr (_, _, _, u) \<Rightarrow> u)"
  using assms
proof (induction cmp "array_swap :: int \<Rightarrow> int \<Rightarrow> 'a list \<Rightarrow> 'a list" a pb pc pd e xs rule: right_scan.induct)
  case (1 cmp a pb pc pd e xs)
  obtain x err where c: "cmp_adapter pc a cmp xs e = (x, err)" by fastforce
  show ?case
  proof (cases "pb \<le> pc \<and> x \<ge> 0 \<and> \<not> err")
    case False
    with 1(3) c show ?thesis by (subst (asm) right_scan.simps) (auto split: if_split_asm)
  next
    case True
    show ?thesis
    proof (cases "x = 0")
      case x: True
      with 1(3) c True have "right_scan cmp array_swap a pb (pc - 1) (pd - 1) err (array_swap pc pd xs) = r"
        by (subst (asm) right_scan.simps) simp
      moreover have p: "perm_in lo hi xs (array_swap pc pd xs)"
        using True 1(4-) by (intro perm_in_swap) auto
      ultimately have "perm_in lo hi (array_swap pc pd xs) (case r of Inl u \<Rightarrow> u | Inr (_, _, _, u) \<Rightarrow> u)"
        using 1(1) [OF _ c [symmetric] refl] True x 1(4-) perm_in_range [OF p] by simp
      with p show ?thesis by (rule perm_in_trans)
    next
      case x: False
      with 1(3) c True have "right_scan cmp array_swap a pb (pc - 1) pd err xs = r"
        by (subst (asm) right_scan.simps) simp
      then show ?thesis using 1(2) [OF _ c [symmetric] refl] True x 1(4-) by simp
    qed
  qed
qed

lemma partition_loop_perm:
  assumes "partition_loop cmp array_swap a pa pb pc pd e xs = r"
    and "range_in lo hi xs" "lo \<le> pa" "pa \<le> pb" "pb \<le> pc + 1" "pc \<le> pd" "pd < hi"
  shows "perm_in lo hi xs (case r of Inl u \<Rightarrow> u | Inr (_, _, _, _, u) \<Rightarrow> u)"
  using assms
proof (induction cmp "array_swap :: int \<Rightarrow> int \<Rightarrow> 'a list \<Rightarrow> 'a list" a pa pb pc pd e xs
    rule: partition_loop.induct)
  case (1 cmp a pa pb pc pd e xs)
  note lp = left_scan_perm [OF refl 1(3,4,5), of pc cmp a e]
  show ?case
  proof (cases "left_scan cmp array_swap a pa pb pc e xs")
    case (Inl u)
    then have "r = Inl u" using 1(2) by (subst (asm) partition_loop.simps) simp
    with lp Inl 1(7,8) show ?thesis by simp
  next
    case l: (Inr q1)
    then obtain pa' pb' e1 u1 where q1: "q1 = (pa', pb', e1, u1)" by (metis prod_cases4)
    note l = l [unfolded q1]
    have p1: "perm_in lo hi xs u1" using lp l 1(7,8) by simp
    note lb = left_scan_bounds [OF l 1(6)]
    then have m: "pb' \<le> pc + 1" by simp
    have r1: "range_in lo hi u1" using perm_in_range [OF p1] 1(3) by simp
    have "lo \<le> pb'" using lb 1(4,5) by simp
    note rp = right_scan_perm [OF refl r1 this 1(7,8), of cmp a e1]
    show ?thesis
    proof (cases "right_scan cmp array_swap a pb' pc pd e1 u1")
      case (Inl u)
      then have "r = Inl u" using 1(2) l by (subst (asm) partition_loop.simps) simp
      with rp Inl p1 show ?thesis using perm_in_trans by fastforce
    next
      case r: (Inr q2)
      then obtain pc' pd' e2 u2 where q2: "q2 = (pc', pd', e2, u2)" by (metis prod_cases4)
      note r = r [unfolded q2]
      have p2: "perm_in lo hi xs u2" using rp r p1 perm_in_trans by fastforce
      note rb = right_scan_bounds [OF r m]
      show ?thesis
      proof (cases "pb' > pc'")
        case True
        then have "r = Inr (pa', pb', pc', pd', u2)" using 1(2) l r
          by (subst (asm) partition_loop.simps) simp
        with p2 show ?thesis by simp
      next
        case False
        have r2: "range_in lo hi u2" using perm_in_range [OF p2] 1(3) by simp
        have p3: "perm_in lo hi u2 (array_swap pb' pc' u2)"
          using False lb rb 1(4-8) by (intro perm_in_swap r2) auto
        have r3: "range_in lo hi (array_swap pb' pc' u2)" using perm_in_range [OF p3] r2 by simp
        have eq: "partition_loop cmp array_swap a pa' (pb' + 1) (pc' - 1) pd' e2 (array_swap pb' pc' u2) = r"
          using 1(2) l r False by (subst (asm) partition_loop.simps) simp
        have "perm_in lo hi (array_swap pb' pc' u2) (case r of Inl u \<Rightarrow> u | Inr (_, _, _, _, u) \<Rightarrow> u)"
        proof (cases "pb' = pc'")
          case True
          then have "r = Inr (pa', pb' + 1, pc' - 1, pd', array_swap pb' pc' u2)"
            using eq by (simp add: partition_loop_met)
          then show ?thesis by simp
        next
          case False
          then show ?thesis
            using 1(1) [OF l refl refl refl r refl refl refl \<open>\<not> pb' > pc'\<close> eq r3] lb rb 1(4-8) \<open>\<not> pb' > pc'\<close>
            by auto
        qed
        with p2 p3 show ?thesis using perm_in_trans by blast
      qed
    qed
  qed
qed

lemma vecswap_perm:
  assumes "range_in lo hi xs" "lo \<le> i" "i + int r \<le> hi" "lo \<le> j" "j + int r \<le> hi"
  shows "perm_in lo hi xs (vecswap array_swap i j r xs)"
  using assms
proof (induction r arbitrary: i j xs)
  case (Suc r)
  have p: "perm_in lo hi xs (array_swap i j xs)" using Suc.prems by (intro perm_in_swap) auto
  moreover have "perm_in lo hi (array_swap i j xs) (vecswap array_swap (i + 1) (j + 1) r (array_swap i j xs))"
    using Suc.prems perm_in_range [OF p] by (intro Suc.IH) auto
  ultimately show ?case using perm_in_trans by fastforce
qed simp

text \<open>With the comparison of two items the scans meet without a gap.\<close>

lemma left_scan_stop:
  assumes "left_scan (array_cmp c) array_swap a pa pb pc e xs = Inr (pa', pb', e', ys)" and "pb' \<le> pc"
  shows "snd (c (item ys pb') (item ys a)) > 0"
  using assms
proof (induction "array_cmp c" "array_swap :: int \<Rightarrow> int \<Rightarrow> 'a list \<Rightarrow> 'a list" a pa pb pc e xs
    rule: left_scan.induct)
  case (1 a pa pb pc e xs)
  obtain x err where c: "cmp_adapter pb a (array_cmp c) xs e = (x, err)" by fastforce
  then have x: "x = snd (c (item xs pb) (item xs a))"
    by (simp add: cmp_adapter_def array_cmp_def split: prod.split_asm)
  from 1(3) c show ?case
    by (subst (asm) left_scan.simps)
      (use 1(1,2) [OF _ c [symmetric] refl] 1(4) x in \<open>auto split: if_split_asm\<close>)
qed

lemma right_scan_stop:
  assumes "right_scan (array_cmp c) array_swap a pb pc pd e xs = Inr (pc', pd', e', ys)" and "pb \<le> pc'"
  shows "snd (c (item ys pc') (item ys a)) < 0"
  using assms
proof (induction "array_cmp c" "array_swap :: int \<Rightarrow> int \<Rightarrow> 'a list \<Rightarrow> 'a list" a pb pc pd e xs
    rule: right_scan.induct)
  case (1 a pb pc pd e xs)
  obtain x err where c: "cmp_adapter pc a (array_cmp c) xs e = (x, err)" by fastforce
  then have x: "x = snd (c (item xs pc) (item xs a))"
    by (simp add: cmp_adapter_def array_cmp_def split: prod.split_asm)
  from 1(3) c show ?case
    by (subst (asm) right_scan.simps)
      (use 1(1,2) [OF _ c [symmetric] refl] 1(4) x in \<open>auto split: if_split_asm\<close>)
qed

lemma right_scan_keeps:
  assumes "right_scan cmp array_swap a pb pc pd e xs = Inr (pc', pd', e', ys)"
    and "0 \<le> pb" "pc \<le> pd" "pd < int (length xs)" "pb \<le> pc + 1" "0 \<le> k" "k \<le> pc'"
  shows "item ys k = item xs k"
  using assms
proof (induction cmp "array_swap :: int \<Rightarrow> int \<Rightarrow> 'a list \<Rightarrow> 'a list" a pb pc pd e xs
    rule: right_scan.induct)
  case (1 cmp a pb pc pd e xs)
  note le = right_scan_bounds [OF 1(3) 1(7)]
  obtain x err where c: "cmp_adapter pc a cmp xs e = (x, err)" by fastforce
  show ?case
  proof (cases "pb \<le> pc \<and> x \<ge> 0 \<and> \<not> err")
    case False
    with 1(3) c show ?thesis by (subst (asm) right_scan.simps) (auto split: if_split_asm)
  next
    case True
    show ?thesis
    proof (cases "x = 0")
      case x: True
      with 1(3) c True have r: "right_scan cmp array_swap a pb (pc - 1) (pd - 1) err (array_swap pc pd xs) = Inr (pc', pd', e', ys)"
        by (subst (asm) right_scan.simps) simp
      with 1(1) [OF _ c [symmetric] refl] True x 1(4-) have "item ys k = item (array_swap pc pd xs) k" by simp
      moreover have "pc' \<le> pc - 1" using right_scan_bounds [OF r] True by simp
      then have "k < pc" "k < pd" using 1(5,9) by simp_all
      then have "item (array_swap pc pd xs) k = item xs k"
        using True 1(4-) by (subst item_swap) (auto simp: inside_def)
      ultimately show ?thesis by simp
    next
      case x: False
      with 1(3) c True have "right_scan cmp array_swap a pb (pc - 1) pd err xs = Inr (pc', pd', e', ys)"
        by (subst (asm) right_scan.simps) simp
      with 1(2) [OF _ c [symmetric] refl] True x 1(4-) show ?thesis by simp
    qed
  qed
qed

lemma partition_met:
  assumes "partition_loop (array_cmp c) array_swap a pa pb pc pd e xs = Inr (qa, qb, qc, qd, ys)"
    and "0 \<le> a" "a < pa" "pa \<le> pb" "pb \<le> pc + 1" "pc \<le> pd" "pd < int (length xs)"
  shows "qb = qc + 1"
  using assms
proof (induction "array_cmp c" "array_swap :: int \<Rightarrow> int \<Rightarrow> 'a list \<Rightarrow> 'a list" a pa pb pc pd e xs
    rule: partition_loop.induct)
  case (1 a pa pb pc pd e xs)
  from 1(2) show ?case
  proof (cases rule: partition_loop_cases)
    case (stop e1 u1 e2)
    from left_scan_bounds [OF stop(1) 1(6)] right_scan_bounds [OF stop(2)] stop(3) show ?thesis by auto
  next
    case (go pa' pb' e1 u1 pc' pd' e2 u2)
    note lb = left_scan_bounds [OF go(1) 1(6)]
    then have m: "pb' \<le> pc + 1" by simp
    note rb = right_scan_bounds [OF go(2) m]
    have "perm_in 0 (int (length xs)) xs u1"
      using left_scan_perm [OF go(1), of 0 "int (length xs)"] 1(3-) by (simp add: range_in_def)
    then have len: "length u1 = length xs" by (rule perm_in_length)
    have "0 \<le> pb'" using lb 1(3-) by simp
    note keep = right_scan_keeps [OF go(2) this 1(7) _ m]
    have len2: "length u2 = length xs"
      using right_scan_perm [OF go(2), of 0 "int (length xs)"] len 1(3-) lb
      by (simp add: range_in_def perm_in_def)
    have "pb' \<noteq> pc'"
    proof
      assume eq: "pb' = pc'"
      have "snd (c (item u1 pb') (item u1 a)) > 0"
        by (rule left_scan_stop [OF go(1)]) (use eq rb in simp)
      moreover have "snd (c (item u2 pb') (item u2 a)) < 0"
        using right_scan_stop [OF go(2)] eq by simp
      moreover have "item u2 pb' = item u1 pb'" "item u2 a = item u1 a"
        using keep [of pb'] keep [of a] eq lb 1(3-) len by simp_all
      ultimately show False by simp
    qed
    then show ?thesis
      using 1(1) [OF go(1) refl refl refl go(2) refl refl refl go(3,4)] lb rb 1(3-) go(3) len2 by simp
  qed
qed

lemma collect_equal_perm:
  assumes "range_in a (a + n) xs" "a < pa" "pa \<le> pb" "pb = pc + 1" "pc \<le> pd" "pd < a + n"
  shows "perm_in a (a + n) xs (collect_equal array_swap a n pa pb pc pd xs)"
proof -
  let ?r1 = "SIMPLE_MIN (pa - a) (pb - pa)" and ?r2 = "SIMPLE_MIN (pd - pc) (a + n - pd - 1)"
  have r1: "0 \<le> ?r1" "a + ?r1 \<le> a + n" "a \<le> pb - ?r1"
    and r2: "0 \<le> ?r2" "pb + ?r2 \<le> a + n" "a \<le> a + n - ?r2"
    using assms by (auto simp: SIMPLE_MIN_def)
  let ?ys = "vecswap array_swap a (pb - ?r1) (nat ?r1) xs"
  have p: "perm_in a (a + n) xs ?ys"
    using r1 assms by (intro vecswap_perm) auto
  moreover have "perm_in a (a + n) ?ys (vecswap array_swap pb (a + n - ?r2) (nat ?r2) ?ys)"
    using r2 assms perm_in_range [OF p] by (intro vecswap_perm) auto
  ultimately show ?thesis using perm_in_trans by (fastforce simp: collect_equal_def Let_def)
qed

lemma bentley_step:
  assumes "bentley_qsort_priv a n cmp swap xs = (ok, ys)" and "\<not> n < 7"
  obtains (early) "ys = xs" "ok \<Longrightarrow> \<exists>e. presorted_loop cmp a n (a + 1) False xs = Inr (True, e)"
  | (failed) err pm where "choose_pivot cmp a n xs = Some pm" "\<not> ok"
      "partition_loop cmp swap a (a + 1) (a + 1) (a + (n - 1)) (a + (n - 1)) err (swap a pm xs) = Inl ys"
  | (parts) err pm pa pb pc pd u1 u2 u3 ok1 where
      "presorted_loop cmp a n (a + 1) False xs = Inr (False, err)" "choose_pivot cmp a n xs = Some pm"
      "partition_loop cmp swap a (a + 1) (a + 1) (a + (n - 1)) (a + (n - 1)) err (swap a pm xs) =
         Inr (pa, pb, pc, pd, u1)"
      "u2 = collect_equal swap a n pa pb pc pd u1"
      "(if pb - pa > 1 then bentley_qsort_priv a (pb - pa) cmp swap u2 else (True, u2)) = (ok1, u3)"
      "(if \<not> ok1 then (False, u3)
        else if pd - pc > 1 then bentley_qsort_priv (a + n - (pd - pc)) (pd - pc) cmp swap u3
        else (True, u3)) = (ok, ys)"
proof (cases "presorted_loop cmp a n (a + 1) False xs")
  case (Inl u)
  with assms have "\<not> ok" "ys = xs" by (simp_all add: bentley_qsort_priv.simps [of a n])
  then show ?thesis using early by simp
next
  case (Inr q)
  then obtain sorted err where p: "presorted_loop cmp a n (a + 1) False xs = Inr (sorted, err)"
    by (cases q) simp
  show ?thesis
  proof (cases sorted)
    case True
    with assms p have "ys = xs" by (simp add: bentley_qsort_priv.simps [of a n])
    then show ?thesis using early p True by simp
  next
    case False
    note p = p [unfolded False [THEN eq_False [THEN iffD2]]]
    show ?thesis
    proof (cases "choose_pivot cmp a n xs")
      case None
      with assms p have "\<not> ok" "ys = xs" by (simp_all add: bentley_qsort_priv.simps [of a n])
      then show ?thesis using early by simp
    next
      case pm: (Some pm)
      show ?thesis
      proof (cases "partition_loop cmp swap a (a + 1) (a + 1) (a + (n - 1)) (a + (n - 1)) err (swap a pm xs)")
        case (Inl u)
        with assms p pm have "\<not> ok" "ys = u" by (simp_all add: bentley_qsort_priv.simps [of a n])
        then show ?thesis using failed [OF pm] Inl by simp
      next
        case (Inr q)
        then obtain pa pb pc pd u1 where q: "partition_loop cmp swap a (a + 1) (a + 1) (a + (n - 1)) (a + (n - 1)) err
            (swap a pm xs) = Inr (pa, pb, pc, pd, u1)" by (metis prod_cases5)
        let ?u2 = "collect_equal swap a n pa pb pc pd u1"
        obtain ok1 u3 where r: "(if pb - pa > 1 then bentley_qsort_priv a (pb - pa) cmp swap ?u2 else (True, ?u2)) = (ok1, u3)"
          by (metis surj_pair)
        have "(if \<not> ok1 then (False, u3)
            else if pd - pc > 1 then bentley_qsort_priv (a + n - (pd - pc)) (pd - pc) cmp swap u3
            else (True, u3)) = (ok, ys)"
          using assms p pm q r
          by (simp only: bentley_qsort_priv.simps [of a n] if_not_P [OF assms(2)] if_False Let_def sum.case
              option.case prod.case bool.case)
        then show ?thesis by (rule parts [OF p pm q refl r])
      qed
    qed
  qed
qed

text \<open>The bounds of the parts, for every comparison of items.\<close>

lemma partition_parts:
  assumes "partition_loop (array_cmp c) array_swap a (a + 1) (a + 1) (a + (n - 1)) (a + (n - 1)) err xs =
      Inr (pa, pb, pc, pd, ys)"
    and "7 \<le> n" and "range_in a (a + n) xs"
  shows "a < pa \<and> pa \<le> pb \<and> pb = pc + 1 \<and> pc \<le> pd \<and> pd < a + n \<and> perm_in a (a + n) xs ys"
  using partition_bounds [OF assms(1)] partition_met [OF assms(1)]
    partition_loop_perm [OF assms(1), of a "a + n"] assms(2,3)
  by (simp add: range_in_def)

lemma bentley_perm:
  assumes "bentley_qsort_priv a n (array_cmp c) array_swap xs = (ok, ys)" and "range_in a (a + n) xs"
  shows "perm_in a (a + n) xs ys"
  using assms
proof (induction "nat n" arbitrary: a n xs ok ys rule: less_induct)
  case less
  show ?case
  proof (cases "n < 7")
    case True
    with less.prems show ?thesis
      by (intro insertion_loop_perm) (simp_all add: bentley_qsort_priv.simps [of a n])
  next
    case False
    have swap: "perm_in a (a + n) xs (array_swap a pm xs)" if "choose_pivot (array_cmp c) a n xs = Some pm" for pm
      using choose_pivot_in [OF that] False less.prems(2) by (intro perm_in_swap) auto
    from less.prems(1) False show ?thesis
    proof (cases rule: bentley_step)
      case early
      then show ?thesis by simp
    next
      case (failed err pm)
      have "perm_in a (a + n) (array_swap a pm xs) ys"
        using partition_loop_perm [OF failed(3), of a "a + n"] False less.prems(2)
          perm_in_range [OF swap [OF failed(1)]] by simp
      with swap [OF failed(1)] show ?thesis by (rule perm_in_trans)
    next
      case (parts err pm pa pb pc pd u1 u2 u3 ok1)
      note s = swap [OF parts(2)]
      have "range_in a (a + n) (array_swap a pm xs)" using perm_in_range [OF s] less.prems(2) by simp
      from partition_parts [OF parts(3) _ this] False
      have b: "a < pa" "pa \<le> pb" "pb = pc + 1" "pc \<le> pd" "pd < a + n"
        and p1: "perm_in a (a + n) (array_swap a pm xs) u1" by simp_all
      have p1: "perm_in a (a + n) xs u1" by (rule perm_in_trans [OF s p1])
      have r1: "range_in a (a + n) u1" using perm_in_range [OF p1] less.prems(2) by simp
      have "perm_in a (a + n) u1 u2" unfolding parts(4)
        by (rule collect_equal_perm) (use r1 b in auto)
      with p1 have p2: "perm_in a (a + n) xs u2" by (rule perm_in_trans)
      have r2: "range_in a (a + n) u2" using perm_in_range [OF p2] less.prems(2) by simp
      have a0: "0 \<le> a" using r2 by (simp add: range_in_def)
      have "perm_in a (a + (pb - pa)) u2 u3"
      proof (cases "pb - pa > 1")
        case True
        with parts(5) have "bentley_qsort_priv a (pb - pa) (array_cmp c) array_swap u2 = (ok1, u3)" by simp
        moreover have "range_in a (a + (pb - pa)) u2" using r2 b by (simp add: range_in_def)
        ultimately show ?thesis using b True by (intro less.hyps) auto
      next
        case False
        with parts(5) show ?thesis by simp
      qed
      then have "perm_in a (a + n) u2 u3" by (rule perm_in_mono) (use b a0 in auto)
      with p2 have p3: "perm_in a (a + n) xs u3" by (rule perm_in_trans)
      have r3: "range_in a (a + n) u3" using perm_in_range [OF p3] less.prems(2) by simp
      have "perm_in (a + n - (pd - pc)) (a + n - (pd - pc) + (pd - pc)) u3 ys"
      proof (cases "ok1 \<and> pd - pc > 1")
        case True
        with parts(6) have "bentley_qsort_priv (a + n - (pd - pc)) (pd - pc) (array_cmp c) array_swap u3 = (ok, ys)"
          by simp
        moreover have "range_in (a + n - (pd - pc)) (a + n - (pd - pc) + (pd - pc)) u3"
          using r3 b a0 by (simp add: range_in_def)
        ultimately show ?thesis using b True by (intro less.hyps) auto
      next
        case False
        with parts(6) show ?thesis by (auto split: if_split_asm)
      qed
      then have "perm_in a (a + n) u3 ys" by (rule perm_in_mono) (use b a0 in auto)
      with p3 show ?thesis by (rule perm_in_trans)
    qed
  qed
qed

end
