(* ===== verification/Custom_Sort_Order.thy ===== *)
theory Custom_Sort_Order
  imports Custom_Sort_Laws
begin

text \<open>
  With a comparison that never fails and is a total preorder, the sort returns success and leaves the
  range sorted.
\<close>

locale preorder_cmp =
  fixes c :: "'a \<Rightarrow> 'a \<Rightarrow> int"
  assumes swap_sign: "c x y < 0 \<longleftrightarrow> 0 < c y x"
    and trans_le: "c x y \<le> 0 \<Longrightarrow> c y z \<le> 0 \<Longrightarrow> c x z \<le> 0"
begin

abbreviation total_cmp :: "'a list qsort_cmp" where
  "total_cmp \<equiv> array_cmp (\<lambda>x y. (True, c x y))"

lemma total_cmp_adapter [simp]:
  "cmp_adapter i j total_cmp xs e = (c (item xs i) (item xs j), e)"
  by (simp add: cmp_adapter_def array_cmp_def)

lemma zero_sym: "c x y = 0 \<longleftrightarrow> c y x = 0"
  using swap_sign [of x y] swap_sign [of y x] by linarith

lemma self_zero [simp]: "c x x = 0"
  using swap_sign [of x x] by linarith

lemma less_le: "c x y < 0 \<Longrightarrow> c y x > 0" "c x y > 0 \<Longrightarrow> c y x < 0"
  using swap_sign [of x y] swap_sign [of y x] by auto

definition ordered :: "int \<Rightarrow> int \<Rightarrow> 'a list \<Rightarrow> bool" where
  "ordered lo hi xs \<longleftrightarrow> (\<forall>i j. lo \<le> i \<and> i < j \<and> j < hi \<longrightarrow> c (item xs i) (item xs j) \<le> 0)"

lemma orderedD: "ordered lo hi xs \<Longrightarrow> lo \<le> i \<Longrightarrow> i < j \<Longrightarrow> j < hi \<Longrightarrow> c (item xs i) (item xs j) \<le> 0"
  by (simp add: ordered_def)

lemma ordered_short: "hi \<le> lo + 1 \<Longrightarrow> ordered lo hi xs"
  by (simp add: ordered_def)

lemma ordered_extend:
  assumes "ordered lo hi xs" and "lo < hi" and "c (item xs (hi - 1)) (item xs hi) \<le> 0"
  shows "ordered lo (hi + 1) xs"
  unfolding ordered_def
proof (intro allI impI)
  fix i j assume ij: "lo \<le> i \<and> i < j \<and> j < hi + 1"
  show "c (item xs i) (item xs j) \<le> 0"
  proof (cases "j < hi")
    case True
    then show ?thesis using assms(1) ij by (simp add: ordered_def)
  next
    case False
    then have j: "j = hi" using ij by simp
    show ?thesis
    proof (cases "i = hi - 1")
      case True
      then show ?thesis using assms(3) j by simp
    next
      case False
      then have "c (item xs i) (item xs (hi - 1)) \<le> 0" using assms(1) ij j by (intro orderedD) auto
      then show ?thesis using assms(3) j trans_le by blast
    qed
  qed
qed

section \<open>Short and sorted ranges\<close>

text \<open>All pairs are in order except those whose second item is at \<open>pl\<close>.\<close>

definition ordered_but :: "int \<Rightarrow> int \<Rightarrow> int \<Rightarrow> 'a list \<Rightarrow> bool" where
  "ordered_but pl lo hi xs \<longleftrightarrow>
     (\<forall>i j. lo \<le> i \<and> i < j \<and> j < hi \<and> j \<noteq> pl \<longrightarrow> c (item xs i) (item xs j) \<le> 0)"

lemma ordered_but_stop:
  assumes "ordered_but pl lo hi xs" and "pl \<le> lo \<or> c (item xs (pl - 1)) (item xs pl) \<le> 0"
  shows "ordered lo hi xs"
  unfolding ordered_def
proof (intro allI impI)
  fix i j assume ij: "lo \<le> i \<and> i < j \<and> j < hi"
  show "c (item xs i) (item xs j) \<le> 0"
  proof (cases "j = pl \<and> i \<noteq> pl - 1")
    case True
    then have "c (item xs i) (item xs (pl - 1)) \<le> 0"
      using assms(1) ij unfolding ordered_but_def by auto
    moreover have "c (item xs (pl - 1)) (item xs j) \<le> 0" using assms(2) True ij by simp
    ultimately show ?thesis by (rule trans_le)
  next
    case False
    then show ?thesis using assms ij unfolding ordered_but_def by auto
  qed
qed

lemma ordered_but_swap:
  assumes "ordered_but pl lo hi xs" and "lo < pl" "pl < hi" "range_in lo hi xs"
    and "0 < c (item xs (pl - 1)) (item xs pl)"
  shows "ordered_but (pl - 1) lo hi (array_swap pl (pl - 1) xs)"
  unfolding ordered_but_def
proof (intro allI impI)
  fix i j assume ij: "lo \<le> i \<and> i < j \<and> j < hi \<and> j \<noteq> pl - 1"
  have "inside xs pl" "inside xs (pl - 1)" using assms(2-4) by (auto simp: range_in_def inside_def)
  then have it: "item (array_swap pl (pl - 1) xs) k =
      (if k = pl then item xs (pl - 1) else if k = pl - 1 then item xs pl else item xs k)" if "0 \<le> k" for k
    using that by (rule item_swap)
  have nn: "0 \<le> i" "0 \<le> j" using ij assms(4) by (auto simp: range_in_def)
  have o: "c (item xs i) (item xs j) \<le> 0" if "lo \<le> i" "i < j" "j < hi" "j \<noteq> pl" for i j
    using assms(1) that unfolding ordered_but_def by blast
  have le: "c (item xs pl) (item xs (pl - 1)) \<le> 0" using less_le(2) [OF assms(5)] by simp
  show "c (item (array_swap pl (pl - 1) xs) i) (item (array_swap pl (pl - 1) xs) j) \<le> 0"
    unfolding it [OF nn(1)] it [OF nn(2)] using ij assms(2,3) le
    by (auto intro: o)
qed

lemma insert_loop_ordered:
  assumes "ordered_but pl a hi xs" and "range_in a hi xs" and "a \<le> pl" "pl < hi"
  shows "\<exists>ys. insert_loop total_cmp array_swap a pl False xs = (True, False, ys) \<and> ordered a hi ys \<and>
    length ys = length xs"
  using assms
proof (induction "nat (pl - a)" arbitrary: pl xs rule: less_induct)
  case less
  show ?case
  proof (cases "pl > a \<and> 0 < c (item xs (pl - 1)) (item xs pl)")
    case False
    then have "ordered a hi xs" using less.prems(1) by (intro ordered_but_stop) auto
    with False show ?thesis by (auto simp: insert_loop.simps [of _ _ a pl])
  next
    case True
    let ?ys = "array_swap pl (pl - 1) xs"
    have "ordered_but (pl - 1) a hi ?ys" using True less.prems by (intro ordered_but_swap) auto
    moreover have "range_in a hi ?ys" using less.prems(2) by (simp add: range_in_def)
    ultimately obtain zs where "insert_loop total_cmp array_swap a (pl - 1) False ?ys = (True, False, zs)"
      "ordered a hi zs" "length zs = length ?ys"
      using less.hyps [of "pl - 1" ?ys] True less.prems by auto
    with True show ?thesis by (auto simp: insert_loop.simps [of _ _ a pl])
  qed
qed

lemma insertion_loop_ordered:
  assumes "ordered a pm xs" and "range_in a (a + n) xs" and "a < pm"
  shows "\<exists>ys. insertion_loop total_cmp array_swap a n pm False xs = (True, ys) \<and>
    (pm \<le> a + n \<longrightarrow> ordered a (a + n) ys)"
  using assms
proof (induction "nat (a + n - pm)" arbitrary: pm xs rule: less_induct)
  case less
  show ?case
  proof (cases "pm < a + n")
    case False
    with less.prems show ?thesis by (auto simp: insertion_loop.simps [of _ _ a n pm])
  next
    case True
    have b: "ordered_but pm a (pm + 1) xs"
      using less.prems(1) unfolding ordered_but_def ordered_def by auto
    have "range_in a (pm + 1) xs" using less.prems(2) True by (simp add: range_in_def)
    from insert_loop_ordered [OF b this] less.prems(3) obtain ys where
      y: "insert_loop total_cmp array_swap a pm False xs = (True, False, ys)" "ordered a (pm + 1) ys"
      "length ys = length xs" by auto
    moreover have "range_in a (a + n) ys" using less.prems(2) y(3) by (simp add: range_in_def)
    ultimately obtain zs where "insertion_loop total_cmp array_swap a n (pm + 1) False ys = (True, zs)"
      "pm + 1 \<le> a + n \<longrightarrow> ordered a (a + n) zs"
      using less.hyps [of "pm + 1" ys] True less.prems(3) by auto
    with y True show ?thesis by (auto simp: insertion_loop.simps [of _ _ a n pm])
  qed
qed

lemma presorted_loop_ordered:
  assumes "ordered a pm xs" and "a < pm"
  shows "(presorted_loop total_cmp a n pm False xs = Inr (True, False) \<and> (pm \<le> a + n \<longrightarrow> ordered a (a + n) xs)) \<or>
    presorted_loop total_cmp a n pm False xs = Inr (False, False)"
  using assms
proof (induction "nat (a + n - pm)" arbitrary: pm rule: less_induct)
  case less
  show ?case
  proof (cases "pm < a + n \<and> c (item xs (pm - 1)) (item xs pm) \<le> 0")
    case True
    then have "ordered a (pm + 1) xs" using less.prems by (intro ordered_extend) auto
    from less.hyps [OF _ this] True less.prems(2) show ?thesis
      by (auto simp: presorted_loop.simps [of _ a n pm])
  next
    case False
    with less.prems show ?thesis by (auto simp: presorted_loop.simps [of _ a n pm])
  qed
qed

section \<open>The partition\<close>

text \<open>Equal items at both ends, smaller ones below \<open>pb\<close>, larger ones above \<open>pc\<close>.\<close>

definition split_at :: "int \<Rightarrow> int \<Rightarrow> int \<Rightarrow> int \<Rightarrow> int \<Rightarrow> int \<Rightarrow> 'a \<Rightarrow> 'a list \<Rightarrow> bool" where
  "split_at a pa pb pc pd hi p xs \<longleftrightarrow> item xs a = p \<and>
     (\<forall>k. a \<le> k \<and> k < pa \<longrightarrow> c (item xs k) p = 0) \<and>
     (\<forall>k. pa \<le> k \<and> k < pb \<longrightarrow> c (item xs k) p < 0) \<and>
     (\<forall>k. pc < k \<and> k \<le> pd \<longrightarrow> 0 < c (item xs k) p) \<and>
     (\<forall>k. pd < k \<and> k < hi \<longrightarrow> c (item xs k) p = 0)"

definition split_range :: "int \<Rightarrow> int \<Rightarrow> int \<Rightarrow> int \<Rightarrow> int \<Rightarrow> int \<Rightarrow> 'a list \<Rightarrow> bool" where
  "split_range a pa pb pc pd hi xs \<longleftrightarrow>
     0 \<le> a \<and> a < pa \<and> pa \<le> pb \<and> pb \<le> pc + 1 \<and> pc \<le> pd \<and> pd < hi \<and> hi \<le> int (length xs)"

lemma split_left_equal:
  assumes "split_at a pa pb pc pd hi p xs" "split_range a pa pb pc pd hi xs" "pb \<le> pc"
    and "c (item xs pb) p = 0"
  shows "split_at a (pa + 1) (pb + 1) pc pd hi p (array_swap pa pb xs)"
proof -
  have i: "inside xs pa" "inside xs pb" and nn: "0 \<le> a"
    using assms(2,3) by (auto simp: split_range_def inside_def)
  have it: "0 \<le> k \<Longrightarrow> item (array_swap pa pb xs) k =
      (if k = pa then item xs pb else if k = pb then item xs pa else item xs k)" for k
    by (rule item_swap [OF i])
  show ?thesis
    using assms nn unfolding split_at_def split_range_def
    by (auto simp: it)
qed

lemma split_right_equal:
  assumes "split_at a pa pb pc pd hi p xs" "split_range a pa pb pc pd hi xs" "pb \<le> pc"
    and "c (item xs pc) p = 0"
  shows "split_at a pa pb (pc - 1) (pd - 1) hi p (array_swap pc pd xs)"
proof -
  have i: "inside xs pc" "inside xs pd" and nn: "0 \<le> a"
    using assms(2,3) by (auto simp: split_range_def inside_def)
  have it: "0 \<le> k \<Longrightarrow> item (array_swap pc pd xs) k =
      (if k = pc then item xs pd else if k = pd then item xs pc else item xs k)" for k
    by (rule item_swap [OF i])
  show ?thesis
    using assms nn unfolding split_at_def split_range_def
    by (auto simp: it)
qed

lemma split_left_less:
  assumes "split_at a pa pb pc pd hi p xs" "c (item xs pb) p < 0"
  shows "split_at a pa (pb + 1) pc pd hi p xs"
proof -
  have "c (item xs k) p < 0" if "pa \<le> k" "k < pb + 1" for k
    using assms that by (cases "k = pb") (simp_all add: split_at_def)
  with assms(1) show ?thesis by (simp add: split_at_def)
qed

lemma split_right_greater:
  assumes "split_at a pa pb pc pd hi p xs" "0 < c (item xs pc) p"
  shows "split_at a pa pb (pc - 1) pd hi p xs"
proof -
  have "0 < c (item xs k) p" if "pc - 1 < k" "k \<le> pd" for k
    using assms that by (cases "k = pc") (simp_all add: split_at_def)
  with assms(1) show ?thesis by (simp add: split_at_def)
qed

lemma split_cross:
  assumes "split_at a pa pb pc pd hi p xs" "split_range a pa pb pc pd hi xs" "pb < pc"
    and "0 < c (item xs pb) p" "c (item xs pc) p < 0"
  shows "split_at a pa (pb + 1) (pc - 1) pd hi p (array_swap pb pc xs)"
proof -
  have i: "inside xs pb" "inside xs pc" and nn: "0 \<le> a"
    using assms(2,3) by (auto simp: split_range_def inside_def)
  have it: "0 \<le> k \<Longrightarrow> item (array_swap pb pc xs) k =
      (if k = pb then item xs pc else if k = pc then item xs pb else item xs k)" for k
    by (rule item_swap [OF i])
  show ?thesis
    using assms nn unfolding split_at_def split_range_def
    by (auto simp: it)
qed

lemma left_scan_split:
  assumes "split_at a pa pb pc pd hi p xs" "split_range a pa pb pc pd hi xs"
  shows "\<exists>qa qb ys. left_scan total_cmp array_swap a pa pb pc False xs = Inr (qa, qb, False, ys) \<and>
    split_at a qa qb pc pd hi p ys \<and> split_range a qa qb pc pd hi ys \<and>
    (qb \<le> pc \<longrightarrow> 0 < c (item ys qb) p)"
  using assms
proof (induction "nat (pc + 1 - pb)" arbitrary: pa pb xs rule: less_induct)
  case less
  have p: "item xs a = p" using less.prems(1) by (simp add: split_at_def)
  consider "pc < pb" | "pb \<le> pc" "0 < c (item xs pb) p" | "pb \<le> pc" "c (item xs pb) p = 0"
    | "pb \<le> pc" "c (item xs pb) p < 0" by linarith
  then show ?case
  proof cases
    case 1
    with less.prems show ?thesis by (auto simp: left_scan.simps [of _ _ a pa pb])
  next
    case 2
    with less.prems p show ?thesis by (auto simp: left_scan.simps [of _ _ a pa pb])
  next
    case 3
    have "split_at a (pa + 1) (pb + 1) pc pd hi p (array_swap pa pb xs)"
      by (rule split_left_equal [OF less.prems 3])
    moreover have "split_range a (pa + 1) (pb + 1) pc pd hi (array_swap pa pb xs)"
      using less.prems(2) 3 by (simp add: split_range_def)
    ultimately have "\<exists>qa qb ys. left_scan total_cmp array_swap a (pa + 1) (pb + 1) pc False (array_swap pa pb xs) =
        Inr (qa, qb, False, ys) \<and> split_at a qa qb pc pd hi p ys \<and> split_range a qa qb pc pd hi ys \<and>
        (qb \<le> pc \<longrightarrow> 0 < c (item ys qb) p)" using 3 by (intro less.hyps) auto
    then show ?thesis using 3 p by (simp add: left_scan.simps [of _ _ a pa pb])
  next
    case 4
    have "split_at a pa (pb + 1) pc pd hi p xs"
      by (rule split_left_less [OF less.prems(1) 4(2)])
    moreover have "split_range a pa (pb + 1) pc pd hi xs"
      using less.prems(2) 4 by (simp add: split_range_def)
    ultimately have "\<exists>qa qb ys. left_scan total_cmp array_swap a pa (pb + 1) pc False xs =
        Inr (qa, qb, False, ys) \<and> split_at a qa qb pc pd hi p ys \<and> split_range a qa qb pc pd hi ys \<and>
        (qb \<le> pc \<longrightarrow> 0 < c (item ys qb) p)" using 4 by (intro less.hyps) auto
    then show ?thesis using 4 p by (simp add: left_scan.simps [of _ _ a pa pb])
  qed
qed

lemma right_scan_split:
  assumes "split_at a pa pb pc pd hi p xs" "split_range a pa pb pc pd hi xs"
    and "pb \<le> pc \<longrightarrow> 0 < c (item xs pb) p"
  shows "\<exists>qc qd ys. right_scan total_cmp array_swap a pb pc pd False xs = Inr (qc, qd, False, ys) \<and>
    split_at a pa pb qc qd hi p ys \<and> split_range a pa pb qc qd hi ys \<and>
    (pb \<le> qc \<longrightarrow> 0 < c (item ys pb) p \<and> c (item ys qc) p < 0)"
  using assms
proof (induction "nat (pc + 1 - pb)" arbitrary: pc pd xs rule: less_induct)
  case less
  have p: "item xs a = p" using less.prems(1) by (simp add: split_at_def)
  let ?goal = "\<lambda>pc pd xs. \<exists>qc qd ys. right_scan total_cmp array_swap a pb pc pd False xs =
      Inr (qc, qd, False, ys) \<and> split_at a pa pb qc qd hi p ys \<and> split_range a pa pb qc qd hi ys \<and>
      (pb \<le> qc \<longrightarrow> 0 < c (item ys pb) p \<and> c (item ys qc) p < 0)"
  consider "pc < pb" | "pb \<le> pc" "c (item xs pc) p < 0" | "pb \<le> pc" "c (item xs pc) p = 0"
    | "pb \<le> pc" "0 < c (item xs pc) p" by linarith
  then show ?case
  proof cases
    case 1
    with less.prems show ?thesis by (auto simp: right_scan.simps [of _ _ a pb pc])
  next
    case 2
    with less.prems p show ?thesis by (auto simp: right_scan.simps [of _ _ a pb pc])
  next
    case 3
    let ?ys = "array_swap pc pd xs"
    have "split_at a pa pb (pc - 1) (pd - 1) hi p ?ys"
      by (rule split_right_equal [OF less.prems(1,2) 3])
    moreover have "split_range a pa pb (pc - 1) (pd - 1) hi ?ys"
      using less.prems(2) 3 by (simp add: split_range_def)
    moreover have "0 < c (item ?ys pb) p" if "pb \<le> pc - 1"
      using less.prems(2,3) that by (subst item_swap) (auto simp: split_range_def inside_def)
    ultimately have "?goal (pc - 1) (pd - 1) ?ys" using 3 by (intro less.hyps) auto
    then show ?thesis using 3 p by (simp add: right_scan.simps [of _ _ a pb pc])
  next
    case 4
    have "split_at a pa pb (pc - 1) pd hi p xs"
      by (rule split_right_greater [OF less.prems(1) 4(2)])
    moreover have "split_range a pa pb (pc - 1) pd hi xs"
      using less.prems(2) 4 by (simp add: split_range_def)
    ultimately have "?goal (pc - 1) pd xs" using 4 less.prems(3) by (intro less.hyps) auto
    then show ?thesis using 4 p by (simp add: right_scan.simps [of _ _ a pb pc])
  qed
qed

lemma partition_split:
  assumes "split_at a pa pb pc pd hi p xs" "split_range a pa pb pc pd hi xs"
  shows "\<exists>qa qb qc qd ys. partition_loop total_cmp array_swap a pa pb pc pd False xs = Inr (qa, qb, qc, qd, ys) \<and>
    split_at a qa qb qc qd hi p ys \<and> split_range a qa qb qc qd hi ys \<and> qb = qc + 1"
  using assms
proof (induction "nat (pc + 1 - pb)" arbitrary: pa pb pc pd xs rule: less_induct)
  case less
  from left_scan_split [OF less.prems] obtain qa qb ys where
    l: "left_scan total_cmp array_swap a pa pb pc False xs = Inr (qa, qb, False, ys)"
      "split_at a qa qb pc pd hi p ys" "split_range a qa qb pc pd hi ys" "qb \<le> pc \<longrightarrow> 0 < c (item ys qb) p"
    by blast
  from right_scan_split [OF l(2-4)] obtain qc qd zs where
    r: "right_scan total_cmp array_swap a qb pc pd False ys = Inr (qc, qd, False, zs)"
      "split_at a qa qb qc qd hi p zs" "split_range a qa qb qc qd hi zs"
      "qb \<le> qc \<longrightarrow> 0 < c (item zs qb) p \<and> c (item zs qc) p < 0" by blast
  show ?case
  proof (cases "qc < qb")
    case True
    then have "qb = qc + 1" using r(3) by (simp add: split_range_def)
    with True l(1) r show ?thesis by (simp add: partition_loop.simps [of _ _ a pa pb])
  next
    case False
    then have lt: "qb < qc" using r(4) by (cases "qb = qc") auto
    have "pb \<le> qb" "qc \<le> pc"
      using left_scan_bounds [OF l(1)] right_scan_bounds [OF r(1)] less.prems(2) l(3)
      by (simp_all add: split_range_def)
    moreover have "split_at a qa (qb + 1) (qc - 1) qd hi p (array_swap qb qc zs)"
      using r(4) lt by (intro split_cross r(2,3)) auto
    moreover have "split_range a qa (qb + 1) (qc - 1) qd hi (array_swap qb qc zs)"
      using r(3) lt by (simp add: split_range_def)
    ultimately have "\<exists>ra rb rc rd us. partition_loop total_cmp array_swap a qa (qb + 1) (qc - 1) qd False
        (array_swap qb qc zs) = Inr (ra, rb, rc, rd, us) \<and>
        split_at a ra rb rc rd hi p us \<and> split_range a ra rb rc rd hi us \<and> rb = rc + 1"
      using lt by (intro less.hyps) auto
    then show ?thesis using False l(1) r(1) by (simp add: partition_loop.simps [of _ _ a pa pb])
  qed
qed

section \<open>Collecting the equal items\<close>

lemma length_vecswap [simp]: "length (vecswap array_swap i j r xs) = length xs"
  by (induction r arbitrary: i j xs) simp_all

lemma vecswap_item:
  assumes "0 \<le> i" "i + int r \<le> j" "j + int r \<le> int (length xs)" "0 \<le> k"
  shows "item (vecswap array_swap i j r xs) k =
    (if i \<le> k \<and> k < i + int r then item xs (k - i + j)
     else if j \<le> k \<and> k < j + int r then item xs (k - j + i) else item xs k)"
  using assms
proof (induction r arbitrary: i j xs)
  case (Suc r)
  have in1: "inside xs i" "inside xs j" using Suc.prems by (auto simp: inside_def)
  have it: "item (array_swap i j xs) k = (if k = i then item xs j else if k = j then item xs i else item xs k)"
    if "0 \<le> k" for k by (rule item_swap [OF in1 that])
  have e: "k - (i + 1) + (j + 1) = k - i + j" "k - (j + 1) + (i + 1) = k - j + i" by simp_all
  have ih: "item (vecswap array_swap (i + 1) (j + 1) r (array_swap i j xs)) k =
    (if i + 1 \<le> k \<and> k < i + 1 + int r then item (array_swap i j xs) (k - i + j)
     else if j + 1 \<le> k \<and> k < j + 1 + int r then item (array_swap i j xs) (k - j + i)
     else item (array_swap i j xs) k)"
    unfolding e [symmetric] using Suc.prems by (intro Suc.IH) auto
  consider "k = i" | "k = j" | "k \<noteq> i" "k \<noteq> j" by blast
  then show ?case
  proof cases
    case 1
    show ?thesis unfolding vecswap.simps ih using 1 Suc.prems by (simp add: it)
  next
    case 2
    show ?thesis unfolding vecswap.simps ih using 2 Suc.prems by (simp add: it)
  next
    case 3
    have a: "item (array_swap i j xs) (k - i + j) = item xs (k - i + j)" if "i + 1 \<le> k" "k < i + 1 + int r"
      using that Suc.prems by (subst it) auto
    have b: "item (array_swap i j xs) (k - j + i) = item xs (k - j + i)" if "j + 1 \<le> k" "k < j + 1 + int r"
      using that Suc.prems by (subst it) auto
    have d: "item (array_swap i j xs) k = item xs k" using 3 Suc.prems by (simp add: it)
    have "i + 1 \<le> k \<longleftrightarrow> i \<le> k" "j + 1 \<le> k \<longleftrightarrow> j \<le> k" using 3 by auto
    then show ?thesis using a b d by (simp add: ih add.assoc)
  qed
qed auto

lemma collect_split:
  assumes "split_at a pa pb pc pd (a + n) p xs" "split_range a pa pb pc pd (a + n) xs" "pb = pc + 1"
    and "ys = collect_equal array_swap a n pa pb pc pd xs"
  shows "a \<le> k \<Longrightarrow> k < a + (pb - pa) \<Longrightarrow> c (item ys k) p < 0"
    and "a + (pb - pa) \<le> k \<Longrightarrow> k < a + n - (pd - pc) \<Longrightarrow> c (item ys k) p = 0"
    and "a + n - (pd - pc) \<le> k \<Longrightarrow> k < a + n \<Longrightarrow> 0 < c (item ys k) p"
proof -
  define r1 where "r1 = SIMPLE_MIN (pa - a) (pb - pa)"
  define r2 where "r2 = SIMPLE_MIN (pd - pc) (a + n - pd - 1)"
  define zs where "zs = vecswap array_swap a (pb - r1) (nat r1) xs"
  have pc: "pc = pb - 1" using assms(3) by simp
  have b: "0 \<le> a" "a < pa" "pa \<le> pb" "pc \<le> pd" "pd < a + n" "a + n \<le> int (length xs)"
    using assms(2) by (simp_all add: split_range_def)
  have r1_le: "0 \<le> r1" "r1 \<le> pa - a" "r1 \<le> pb - pa" "r1 = pa - a \<or> r1 = pb - pa"
    and r2_le: "0 \<le> r2" "r2 \<le> pd - pc" "r2 \<le> a + n - pd - 1" "r2 = pd - pc \<or> r2 = a + n - pd - 1"
    using b by (auto simp: SIMPLE_MIN_def r1_def r2_def)
  have zs_at: "item zs k = (if a \<le> k \<and> k < a + r1 then item xs (k - a + (pb - r1))
      else if pb - r1 \<le> k \<and> k < pb then item xs (k - (pb - r1) + a) else item xs k)" if "0 \<le> k" for k
    using vecswap_item [of a "nat r1" "pb - r1" xs k] that b r1_le pc by (simp add: zs_def)
  have ys_at: "item ys k = (if pb \<le> k \<and> k < pb + r2 then item zs (k - pb + (a + n - r2))
      else if a + n - r2 \<le> k \<and> k < a + n then item zs (k - (a + n - r2) + pb) else item zs k)"
    if "0 \<le> k" for k
    using vecswap_item [of pb "nat r2" "a + n - r2" zs k] that b r2_le pc assms(4) length_vecswap [of a "pb - r1" "nat r1" xs]
    by (simp add: collect_equal_def Let_def zs_def r1_def r2_def)
  note sp = assms(1) [unfolded split_at_def]
  have e1: "c (item xs k) p = 0" if "a \<le> k" "k < pa" for k using sp that by blast
  have l: "c (item xs k) p < 0" if "pa \<le> k" "k < pb" for k using sp that by blast
  have g: "0 < c (item xs k) p" if "pc < k" "k \<le> pd" for k using sp that by blast
  have e2: "c (item xs k) p = 0" if "pd < k" "k < a + n" for k using sp that by blast
  have zl: "c (item zs k) p < 0" if "a \<le> k" "k < a + (pb - pa)" for k
  proof -
    have k: "0 \<le> k" using b that by simp
    show ?thesis unfolding zs_at [OF k] using that b r1_le by (auto intro: l)
  qed
  have ze: "c (item zs k) p = 0" if "a + (pb - pa) \<le> k" "k < pb" for k
  proof -
    have k: "0 \<le> k" using b that by simp
    show ?thesis unfolding zs_at [OF k] using that b r1_le by (auto intro: e1)
  qed
  have zr: "item zs k = item xs k" if "pb \<le> k" for k
  proof -
    have k: "0 \<le> k" using b that by simp
    show ?thesis unfolding zs_at [OF k] using that b r1_le by auto
  qed
  show "c (item ys k) p < 0" if "a \<le> k" "k < a + (pb - pa)"
  proof -
    have k: "0 \<le> k" using b that by simp
    show ?thesis unfolding ys_at [OF k] using that b r2_le pc by (auto intro: zl)
  qed
  show "c (item ys k) p = 0" if "a + (pb - pa) \<le> k" "k < a + n - (pd - pc)"
  proof (cases "k < pb")
    case True
    have k: "0 \<le> k" using b that by simp
    show ?thesis unfolding ys_at [OF k] using that True b r2_le pc by (auto intro: ze)
  next
    case False
    have k: "0 \<le> k" using b that by simp
    show ?thesis unfolding ys_at [OF k] using that False b r2_le pc by (auto simp: zr intro: e2)
  qed
  show "0 < c (item ys k) p" if "a + n - (pd - pc) \<le> k" "k < a + n"
  proof -
    have k: "0 \<le> k" using b that assms(3) by simp
    show ?thesis unfolding ys_at [OF k] using that b r2_le pc by (auto simp: zr intro: g)
  qed
qed

section \<open>The sorted range\<close>

lemma choose_pivot_total: "\<exists>pm. choose_pivot total_cmp a n xs = Some pm"
proof -
  have "med3 i j k total_cmp xs \<noteq> None" for i j k by (auto simp: med3_def Let_def)
  then have "choose_pivot total_cmp a n xs \<noteq> None"
    by (simp add: choose_pivot_def Let_def bind_eq_None_conv del: not_None_eq split: if_split)
  then show ?thesis by blast
qed

lemma ordered_three:
  assumes "ordered lo m1 xs" and "ordered m2 hi xs" and "lo \<le> m1" "m1 \<le> m2"
    and "\<And>k. lo \<le> k \<Longrightarrow> k < m2 \<Longrightarrow> c (item xs k) p \<le> 0"
    and "\<And>k. m1 \<le> k \<Longrightarrow> k < hi \<Longrightarrow> 0 \<le> c (item xs k) p"
  shows "ordered lo hi xs"
  unfolding ordered_def
proof (intro allI impI)
  fix i j assume ij: "lo \<le> i \<and> i < j \<and> j < hi"
  consider "j < m1" | "m2 \<le> i" | "m1 \<le> j" "i < m2" by linarith
  then show "c (item xs i) (item xs j) \<le> 0"
  proof cases
    case 1
    then show ?thesis using assms(1) ij by (intro orderedD) auto
  next
    case 2
    then show ?thesis using assms(2) ij by (intro orderedD) auto
  next
    case 3
    have "c (item xs i) p \<le> 0" using 3 ij by (intro assms(5)) auto
    moreover have "0 \<le> c (item xs j) p" using 3 ij by (intro assms(6)) auto
    then have "c p (item xs j) \<le> 0" using swap_sign [of "item xs j" p] by linarith
    ultimately show ?thesis by (rule trans_le)
  qed
qed

lemma perm_in_all:
  assumes "perm_in lo hi xs ys" and "\<And>k. lo \<le> k \<Longrightarrow> k < hi \<Longrightarrow> P (item xs k)"
  shows "lo \<le> k \<Longrightarrow> k < hi \<Longrightarrow> P (item ys k)"
  using assms unfolding perm_in_def by metis

lemma perm_in_outside:
  "perm_in lo hi xs ys \<Longrightarrow> 0 \<le> k \<Longrightarrow> k < lo \<or> hi \<le> k \<Longrightarrow> item ys k = item xs k"
  by (auto simp: perm_in_def)

lemma ordered_cong:
  "(\<And>k. lo \<le> k \<Longrightarrow> k < hi \<Longrightarrow> item ys k = item xs k) \<Longrightarrow> ordered lo hi xs \<Longrightarrow> ordered lo hi ys"
  unfolding ordered_def by (metis less_le_trans less_imp_le le_less_trans order_refl dual_order.strict_trans2)

lemma ordered_mono: "ordered lo hi xs \<Longrightarrow> lo \<le> lo' \<Longrightarrow> hi' \<le> hi \<Longrightarrow> ordered lo' hi' xs"
  unfolding ordered_def by (meson less_le_trans order_trans)

lemma bentley_finish:
  assumes "7 \<le> n" and "presorted_loop cmp a n (a + 1) False xs = Inr (False, err)"
    and "choose_pivot cmp a n xs = Some pm"
    and "partition_loop cmp swap a (a + 1) (a + 1) (a + (n - 1)) (a + (n - 1)) err (swap a pm xs) =
         Inr (pa, pb, pc, pd, u1)"
    and "(if pb - pa > 1 then bentley_qsort_priv a (pb - pa) cmp swap (collect_equal swap a n pa pb pc pd u1)
          else (True, collect_equal swap a n pa pb pc pd u1)) = (True, u3)"
    and "(if pd - pc > 1 then bentley_qsort_priv (a + n - (pd - pc)) (pd - pc) cmp swap u3 else (True, u3)) =
          (True, ys)"
  shows "bentley_qsort_priv a n cmp swap xs = (True, ys)"
proof -
  have "\<not> n < 7" using assms(1) by simp
  from if_not_P [OF this] assms(2-) show ?thesis
    by (simp only: bentley_qsort_priv.simps [of a n] if_False Let_def sum.case
        option.case prod.case bool.case not_True_eq_False)
qed

text \<open>A part that is sorted when it has at least two items, which is how both parts are treated.\<close>

lemma part_sorts:
  assumes "0 < r \<Longrightarrow> \<exists>ys. bentley_qsort_priv a r total_cmp array_swap xs = (True, ys) \<and> ordered a (a + r) ys"
    and "range_in a (a + r) xs"
  shows "\<exists>ys. (if r > 1 then bentley_qsort_priv a r total_cmp array_swap xs else (True, xs)) = (True, ys) \<and>
    ordered a (a + r) ys \<and> perm_in a (a + r) xs ys"
proof (cases "r > 1")
  case True
  with assms(1) obtain ys where "bentley_qsort_priv a r total_cmp array_swap xs = (True, ys)" "ordered a (a + r) ys"
    by auto
  with True bentley_perm [OF this(1) assms(2)] show ?thesis by simp
next
  case False
  then show ?thesis by (simp add: ordered_short)
qed

lemma bentley_ordered:
  assumes "range_in a (a + n) xs"
  shows "\<exists>ys. bentley_qsort_priv a n total_cmp array_swap xs = (True, ys) \<and> ordered a (a + n) ys"
  using assms
proof (induction "nat n" arbitrary: a n xs rule: less_induct)
  case less
  show ?case
  proof (cases "n < 7")
    case True
    have "ordered a (a + 1) xs" by (rule ordered_short) simp
    from insertion_loop_ordered [OF this less.prems] True obtain ys where
      "insertion_loop total_cmp array_swap a n (a + 1) False xs = (True, ys)" "a + 1 \<le> a + n \<longrightarrow> ordered a (a + n) ys"
      by auto
    moreover have "ordered a (a + n) ys" if "n < 1" for ys using that by (intro ordered_short) simp
    ultimately show ?thesis using True by (fastforce simp: bentley_qsort_priv.simps [of a n])
  next
    case False
    then have n: "7 \<le> n" by simp
    show ?thesis
    proof (cases "presorted_loop total_cmp a n (a + 1) False xs = Inr (False, False)")
      case False
      have "ordered a (a + 1) xs" by (rule ordered_short) simp
      with presorted_loop_ordered [OF this, of n] False n
      have "presorted_loop total_cmp a n (a + 1) False xs = Inr (True, False)" "ordered a (a + n) xs" by auto
      with n show ?thesis by (simp add: bentley_qsort_priv.simps [of a n])
    next
      case p: True
      obtain pm where pm: "choose_pivot total_cmp a n xs = Some pm"
        using choose_pivot_total by blast
      have s: "perm_in a (a + n) xs (array_swap a pm xs)"
        using choose_pivot_in [OF pm] n less.prems by (intro perm_in_swap) auto
      let ?xs = "array_swap a pm xs"
      have rs: "range_in a (a + n) ?xs" using perm_in_range [OF s] less.prems by simp
      have a0: "0 \<le> a" using rs by (simp add: range_in_def)
      have init: "split_at a (a + 1) (a + 1) (a + (n - 1)) (a + (n - 1)) (a + n) (item ?xs a) ?xs"
        unfolding split_at_def by auto
      have "split_range a (a + 1) (a + 1) (a + (n - 1)) (a + (n - 1)) (a + n) ?xs"
        using rs n by (simp add: split_range_def range_in_def)
      from partition_split [OF init this] obtain pa pb pc pd u1 where
        q: "partition_loop total_cmp array_swap a (a + 1) (a + 1) (a + (n - 1)) (a + (n - 1)) False ?xs =
             Inr (pa, pb, pc, pd, u1)"
          "split_at a pa pb pc pd (a + n) (item ?xs a) u1" "split_range a pa pb pc pd (a + n) u1" "pb = pc + 1"
        by blast
      define u2 where "u2 = collect_equal array_swap a n pa pb pc pd u1"
      note parts = collect_split [OF q(2-4) u2_def]
      from partition_parts [OF q(1) n rs]
      have b: "a < pa" "pa \<le> pb" "pc \<le> pd" "pd < a + n" and p1: "perm_in a (a + n) ?xs u1" by simp_all
      have r1: "range_in a (a + n) u1" using perm_in_range [OF p1] rs by simp
      have "perm_in a (a + n) u1 u2" unfolding u2_def
        by (rule collect_equal_perm) (use r1 b q(4) in auto)
      then have r2: "range_in a (a + n) u2" using perm_in_range r1 by blast
      define m1 where "m1 = a + (pb - pa)"
      define m2 where "m2 = a + n - (pd - pc)"
      have m: "a \<le> m1" "m1 \<le> m2" "m2 \<le> a + n" "m2 + (pd - pc) = a + n"
        using b q(4) by (simp_all add: m1_def m2_def)
      have rl: "range_in a (a + (pb - pa)) u2" using r2 m by (simp add: range_in_def m1_def)
      obtain u3 where
        l: "(if pb - pa > 1 then bentley_qsort_priv a (pb - pa) total_cmp array_swap u2 else (True, u2)) = (True, u3)"
          "ordered a m1 u3" "perm_in a m1 u2 u3"
        using part_sorts [OF less.hyps [OF _ rl] rl] b q(4) unfolding m1_def by auto
      have rr: "range_in m2 (m2 + (pd - pc)) u3"
      proof -
        have "a + n \<le> int (length u3)"
          using r2 unfolding perm_in_length [OF l(3)] by (simp add: range_in_def)
        moreover have "0 \<le> m2" using m a0 by linarith
        ultimately show ?thesis unfolding range_in_def m(4) by (rule conjI [rotated])
      qed
      obtain ys where
        r: "(if pd - pc > 1 then bentley_qsort_priv m2 (pd - pc) total_cmp array_swap u3 else (True, u3)) = (True, ys)"
          "ordered m2 (a + n) ys" "perm_in m2 (a + n) u3 ys"
        using part_sorts [OF less.hyps [OF _ rr] rr] b q(4) m(4) by auto
      have low: "item ys k = item u3 k" if "a \<le> k" "k < m2" for k
        using perm_in_outside [OF r(3)] that a0 by simp
      have o1: "ordered a m1 ys" 
      proof (rule ordered_cong [OF _ l(2)])
        fix k assume "a \<le> k" "k < m1"
        then show "item ys k = item u3 k" using m(2) by (intro low) simp_all
      qed
      have o2: "c (item ys k) (item ?xs a) \<le> 0" if k: "a \<le> k" "k < m2" for k
      proof (cases "k < m1")
        case True
        have "c (item u3 k) (item ?xs a) < 0"
          by (rule perm_in_all [OF l(3) _ k(1) True]) (rule parts(1), simp_all only: m1_def)
        then show ?thesis using low [OF k] by simp
      next
        case False
        then have "item u3 k = item u2 k" using perm_in_outside [OF l(3), of k] k a0 by simp
        moreover have "c (item u2 k) (item ?xs a) = 0"
          by (rule parts(2)) (use False k in \<open>simp_all add: m1_def m2_def\<close>)
        ultimately show ?thesis using low [OF k] by simp
      qed
      have o3: "0 \<le> c (item ys k) (item ?xs a)" if k: "m1 \<le> k" "k < a + n" for k
      proof (cases "k < m2")
        case True
        have "a \<le> k" using k m(1) by simp
        then have "item ys k = item u2 k"
          using perm_in_outside [OF l(3), of k] low [OF _ True] k a0 by simp
        moreover have "c (item u2 k) (item ?xs a) = 0"
          by (rule parts(2)) (use True k in \<open>simp_all add: m1_def m2_def\<close>)
        ultimately show ?thesis by simp
      next
        case False
        have "0 < c (item u3 i) (item ?xs a)" if i: "m2 \<le> i" "i < a + n" for i
        proof -
          have "m1 \<le> i" "0 \<le> i" using i m(1,2) a0 by simp_all
          then have "item u3 i = item u2 i" using perm_in_outside [OF l(3), of i] by simp
          moreover have "0 < c (item u2 i) (item ?xs a)"
            by (rule parts(3)) (use i in \<open>simp_all add: m2_def\<close>)
          ultimately show ?thesis by simp
        qed
        then have "0 < c (item ys k) (item ?xs a)"
          by (rule perm_in_all [OF r(3)]) (use False k in simp_all)
        then show ?thesis by simp
      qed
      have "ordered a (a + n) ys" by (rule ordered_three [OF o1 r(2) m(1,2) o2 o3])
      moreover have "bentley_qsort_priv a n total_cmp array_swap xs = (True, ys)"
        by (rule bentley_finish [OF n p pm q(1) l(1) [unfolded u2_def] r(1) [unfolded m2_def]])
      ultimately show ?thesis by blast
    qed
  qed
qed

end

section \<open>The sort of an array\<close>

lemma item_of_nat [simp]: "item xs (int i) = xs ! i"
  by (simp add: item_def)

lemma preorder_cmp_sorts:
  assumes "preorder_cmp c"
  shows "\<exists>ys. bentley_sort (int (length xs)) (array_cmp (\<lambda>x y. (True, c x y))) array_swap xs = (True, ys) \<and>
    mset ys = mset xs \<and> sorted_wrt (\<lambda>x y. c x y \<le> 0) ys"
proof -
  have r: "range_in 0 (0 + int (length xs)) xs" by (simp add: range_in_def)
  from preorder_cmp.bentley_ordered [OF assms r] obtain ys where
    b: "bentley_qsort_priv 0 (int (length xs)) (array_cmp (\<lambda>x y. (True, c x y))) array_swap xs = (True, ys)"
      "preorder_cmp.ordered c 0 (0 + int (length xs)) ys" by blast
  from bentley_perm [OF b(1) r] have "mset ys = mset xs" "length ys = length xs" by (simp_all add: perm_in_def)
  moreover have "sorted_wrt (\<lambda>x y. c x y \<le> 0) ys"
    unfolding sorted_wrt_iff_nth_less
  proof (intro allI impI)
    fix i j assume "i < j" "j < length ys"
    then have "c (item ys (int i)) (item ys (int j)) \<le> 0"
      using \<open>length ys = length xs\<close> by (intro preorder_cmp.orderedD [OF assms b(2)]) simp_all
    then show "c (ys ! i) (ys ! j) \<le> 0" by simp
  qed
  ultimately show ?thesis using b(1) by (simp add: bentley_sort_def)
qed

text \<open>The order of the primitive vectors: \<open>SIMPLE_CMP\<close> of two machine numbers.\<close>

interpretation simple: preorder_cmp SIMPLE_CMP
  by unfold_locales (auto simp: SIMPLE_CMP_def split: if_split_asm)

text \<open>The order of pairs by their first component, under which different items may be equal.\<close>

interpretation by_key: preorder_cmp "\<lambda>x y. SIMPLE_CMP (fst x) (fst y)"
  by unfold_locales (auto simp: SIMPLE_CMP_def split: if_split_asm)

text \<open>
  C26 Whatever the comparison of two items answers, an inconsistent order or an error included, the sort
  ends and leaves a permutation of the array: no item is lost or duplicated.
\<close>
theorem sort_permutes:
  "mset (snd (bentley_sort (int (length xs)) (array_cmp c) array_swap xs)) = mset xs"
proof -
  have "perm_in 0 (0 + int (length xs)) xs (snd (bentley_qsort_priv 0 (int (length xs)) (array_cmp c) array_swap xs))"
    by (rule bentley_perm [OF prod.collapse [symmetric]]) (simp add: range_in_def)
  then show ?thesis by (simp add: bentley_sort_def perm_in_def)
qed

text \<open>
  C25 With \<open>SIMPLE_CMP\<close>, the comparison of the primitive vectors, and the exchange of two items, the sort
  succeeds, and the array it leaves is the sorted list of the items.
\<close>
theorem sort_sorts:
  "bentley_sort (int (length xs)) (array_cmp (\<lambda>x y. (True, SIMPLE_CMP x y))) array_swap xs = (True, sort xs)"
proof -
  obtain ys where ys: "bentley_sort (int (length xs)) (array_cmp (\<lambda>x y. (True, SIMPLE_CMP x y))) array_swap xs =
      (True, ys)" "mset ys = mset xs" "sorted_wrt (\<lambda>x y. SIMPLE_CMP x y \<le> 0) ys"
    using preorder_cmp_sorts [OF simple.preorder_cmp_axioms] by blast
  have "(\<lambda>x y :: 'a. SIMPLE_CMP x y \<le> 0) = (\<le>)" by (auto simp: SIMPLE_CMP_def fun_eq_iff)
  with ys(2,3) have "sort xs = ys" by (intro properties_for_sort) simp_all
  with ys(1) show ?thesis by simp
qed

text \<open>
  An error the comparison reports while it leaves a sign of zero or less is lost by the two loops that
  test the sign first: when every comparison fails that way, the sort answers success and changes nothing.
\<close>
theorem sort_loses_errors:
  "bentley_sort (int (length xs)) (array_cmp (\<lambda>_ _. (False, 0))) array_swap xs = (True, xs)"
proof -
  let ?cmp = "array_cmp (\<lambda>_ _. (False, 0))"
  have c: "cmp_adapter i j ?cmp xs e = (0, True)" for i j e
    by (simp add: cmp_adapter_def array_cmp_def)
  have il: "\<exists>e'. insert_loop ?cmp array_swap a pl e xs = (True, e', xs)" for a pl e
    by (auto simp: insert_loop.simps [of _ _ a pl] c)
  have nl: "insertion_loop ?cmp array_swap a n pm e xs = (True, xs)" for a n pm e
  proof (induction "nat (a + n - pm)" arbitrary: pm e rule: less_induct)
    case less
    obtain e' where "insert_loop ?cmp array_swap a pm e xs = (True, e', xs)" using il by blast
    then show ?case using less.hyps [of "pm + 1"] by (simp add: insertion_loop.simps [of _ _ a n pm])
  qed
  have pl: "\<exists>e'. presorted_loop ?cmp a n pm e xs = Inr (True, e')" for a n pm e
  proof (induction "nat (a + n - pm)" arbitrary: pm e rule: less_induct)
    case less
    then show ?case using less.hyps [of "pm + 1"] by (simp add: presorted_loop.simps [of _ a n pm] c)
  qed
  obtain e where "presorted_loop ?cmp 0 (int (length xs)) (0 + 1) False xs = Inr (True, e)" using pl by blast
  then show ?thesis
    unfolding bentley_sort_def by (subst bentley_qsort_priv.simps) (simp add: nl)
qed

end
