(* ===== verification/Create_State.thy ===== *)
theory Create_State
  imports Value Strings Bitvector Create_Cache
begin

text \<open>
  The writer's state (\<open>pointless_create_t\<close> of \<open>pointless_defs.h\<close>), its access macros, and the functions of
  \<open>src/pointless_create.c\<close> that begin and end a creation and create the values without heap data.

  A creation only ever adds to its arrays. The dynamic arrays are the lists of their items, which is
  what \<open>Dynarray_Laws\<close> shows a dynamic array to be as long as memory is available; the branches that
  report that memory is exhausted are left out. The Judy arrays are the finite maps they implement. A
  value is named by its handle, its position in \<open>c_values\<close>.
\<close>

unbundle bit_operations_syntax

section \<open>The state\<close>

text \<open>A vector owned by the library: the width of an item and the items, in their low bytes.\<close>

record pointless_create_vector_priv_t =
  vp_item_size :: nat
  vp_items :: "u64 list"

text \<open>A vector owned by the caller: the memory from its pointer on.\<close>

record pointless_create_vector_outside_t =
  vo_items :: "u8 list"
  vo_n_items :: u32

record pointless_create_set_t =
  cs_keys :: "u32 list"
  cs_serialize_hash :: u32
  cs_serialize_keys :: u32

record pointless_create_map_t =
  cm_keys :: "u32 list"
  cm_values :: "u32 list"
  cm_serialize_hash :: u32
  cm_serialize_keys :: u32
  cm_serialize_values :: u32

record pointless_create_t =
  c_root :: u32
  c_cache :: pointless_create_cache_t
  c_values :: "pointless_create_value_t list"
  priv_vector_values :: "pointless_create_vector_priv_t list"
  outside_vector_values :: "pointless_create_vector_outside_t list"
  set_values :: "pointless_create_set_t list"
  map_values :: "pointless_create_map_t list"
  string_unicode_values :: "u8 list list"
  bitvector_values :: "u8 list list"
  string_unicode_map_judy :: "u8 list \<Rightarrow> u64 option"
  bitvector_map_judy :: "u8 list \<Rightarrow> u64 option"
  string_unicode_map_judy_count :: u32
  bitvector_map_judy_count :: u32
  c_version :: u32

text \<open>The bytes of a vector of the library: \<open>vector._data\<close>.\<close>

definition vp_data :: "pointless_create_vector_priv_t \<Rightarrow> u8 list" where
  "vp_data vec = concat (map (le_bytes (vp_item_size vec)) (vp_items vec))"

definition vp_n_items :: "pointless_create_vector_priv_t \<Rightarrow> u32" where
  "vp_n_items vec = of_nat (length (vp_items vec))"

section \<open>The access macros\<close>

definition cv_value_at :: "pointless_create_t \<Rightarrow> u32 \<Rightarrow> pointless_create_value_t option" where
  "cv_value_at c v = arr_get (c_values c) (unat v)"

definition cv_value_type :: "pointless_create_t \<Rightarrow> u32 \<Rightarrow> u32 option" where
  "cv_value_type c v = map_option (\<lambda>x. type_29 (cr_header x)) (cv_value_at c v)"

definition cv_value_data_u32 :: "pointless_create_t \<Rightarrow> u32 \<Rightarrow> u32 option" where
  "cv_value_data_u32 c v = map_option cr_data (cv_value_at c v)"

definition cv_is_compressed_vector :: "pointless_create_t \<Rightarrow> u32 \<Rightarrow> bool option" where
  "cv_is_compressed_vector c v = map_option (\<lambda>x. is_compressed_vector (cr_header x)) (cv_value_at c v)"

definition cv_is_set_map_vector :: "pointless_create_t \<Rightarrow> u32 \<Rightarrow> bool option" where
  "cv_is_set_map_vector c v = map_option (\<lambda>x. is_set_map_vector (cr_header x)) (cv_value_at c v)"

definition cv_is_outside_vector :: "pointless_create_t \<Rightarrow> u32 \<Rightarrow> bool option" where
  "cv_is_outside_vector c v = map_option (\<lambda>x. is_outside_vector (cr_header x)) (cv_value_at c v)"

text \<open>\<open>cv_get_priv_vector\<close> and its kin take the value, \<open>cv_priv_vector_at\<close> and its kin the handle.\<close>

definition cv_get_priv_vector ::
    "pointless_create_t \<Rightarrow> pointless_create_value_t \<Rightarrow> pointless_create_vector_priv_t option" where
  "cv_get_priv_vector c cv = arr_get (priv_vector_values c) (unat (cr_data cv))"

definition cv_get_outside_vector ::
    "pointless_create_t \<Rightarrow> pointless_create_value_t \<Rightarrow> pointless_create_vector_outside_t option" where
  "cv_get_outside_vector c cv = arr_get (outside_vector_values c) (unat (cr_data cv))"

definition cv_get_bitvector :: "pointless_create_t \<Rightarrow> pointless_create_value_t \<Rightarrow> u8 list option" where
  "cv_get_bitvector c cv = arr_get (bitvector_values c) (unat (cr_data cv))"

definition cv_get_unicode :: "pointless_create_t \<Rightarrow> pointless_create_value_t \<Rightarrow> u8 list option" where
  "cv_get_unicode c cv = arr_get (string_unicode_values c) (unat (cr_data cv))"

definition cv_get_string :: "pointless_create_t \<Rightarrow> pointless_create_value_t \<Rightarrow> u8 list option" where
  "cv_get_string c cv = arr_get (string_unicode_values c) (unat (cr_data cv))"

definition cv_priv_vector_at :: "pointless_create_t \<Rightarrow> u32 \<Rightarrow> pointless_create_vector_priv_t option" where
  "cv_priv_vector_at c v = Option.bind (cv_value_at c v) (cv_get_priv_vector c)"

definition cv_outside_vector_at ::
    "pointless_create_t \<Rightarrow> u32 \<Rightarrow> pointless_create_vector_outside_t option" where
  "cv_outside_vector_at c v = Option.bind (cv_value_at c v) (cv_get_outside_vector c)"

definition cv_set_at :: "pointless_create_t \<Rightarrow> u32 \<Rightarrow> pointless_create_set_t option" where
  "cv_set_at c v =
     do { x \<leftarrow> cv_value_at c v; arr_get (set_values c) (unat (cr_data x)) }"

definition cv_map_at :: "pointless_create_t \<Rightarrow> u32 \<Rightarrow> pointless_create_map_t option" where
  "cv_map_at c v =
     do { x \<leftarrow> cv_value_at c v; arr_get (map_values c) (unat (cr_data x)) }"

definition cv_bitvector_at :: "pointless_create_t \<Rightarrow> u32 \<Rightarrow> u8 list option" where
  "cv_bitvector_at c v = Option.bind (cv_value_at c v) (cv_get_bitvector c)"

definition cv_unicode_at :: "pointless_create_t \<Rightarrow> u32 \<Rightarrow> u8 list option" where
  "cv_unicode_at c v = Option.bind (cv_value_at c v) (cv_get_unicode c)"

definition cv_string_at :: "pointless_create_t \<Rightarrow> u32 \<Rightarrow> u8 list option" where
  "cv_string_at c v = Option.bind (cv_value_at c v) (cv_get_string c)"

text \<open>Replacing a vector, set or map the macros point to.\<close>

definition upd_priv_vector ::
    "pointless_create_t \<Rightarrow> u32 \<Rightarrow> pointless_create_vector_priv_t \<Rightarrow> pointless_create_t option" where
  "upd_priv_vector c v vec =
     do { x \<leftarrow> cv_value_at c v;
          vs \<leftarrow> arr_set (priv_vector_values c) (unat (cr_data x)) vec;
          Some (c\<lparr>priv_vector_values := vs\<rparr>) }"

definition upd_value ::
    "pointless_create_t \<Rightarrow> u32 \<Rightarrow> (pointless_create_value_t \<Rightarrow> pointless_create_value_t) \<Rightarrow>
     pointless_create_t option" where
  "upd_value c v f =
     do { x \<leftarrow> cv_value_at c v;
          vs \<leftarrow> arr_set (c_values c) (unat v) (f x);
          Some (c\<lparr>c_values := vs\<rparr>) }"

section \<open>Beginning and ending a creation\<close>

definition create_begin :: "u32 \<Rightarrow> pointless_create_t" where
  "create_begin ver =
     \<lparr>c_root = UINT32_MAX,
      c_cache = pointless_create_cache_init POINTLESS_CREATE_VALUE_FAIL,
      c_values = [], priv_vector_values = [], outside_vector_values = [], set_values = [],
      map_values = [], string_unicode_values = [], bitvector_values = [],
      string_unicode_map_judy = (\<lambda>_. None), bitvector_map_judy = (\<lambda>_. None),
      string_unicode_map_judy_count = 0, bitvector_map_judy_count = 0, c_version = ver\<rparr>"

definition pointless_create_begin_32 :: pointless_create_t where
  "pointless_create_begin_32 = create_begin POINTLESS_FF_VERSION_OFFSET_32_NEWHASH"

definition pointless_create_begin_64 :: pointless_create_t where
  "pointless_create_begin_64 = create_begin POINTLESS_FF_VERSION_OFFSET_64_NEWHASH"

text \<open>Freeing leaves empty arrays and maps; the root, the cache and the counts stay as they are.\<close>

definition pointless_create_end :: "pointless_create_t \<Rightarrow> pointless_create_t" where
  "pointless_create_end c =
     c\<lparr>c_values := [], priv_vector_values := [], outside_vector_values := [], set_values := [],
       map_values := [], string_unicode_values := [], bitvector_values := [],
       string_unicode_map_judy := (\<lambda>_. None), bitvector_map_judy := (\<lambda>_. None)\<rparr>"

definition pointless_create_set_root :: "pointless_create_t \<Rightarrow> u32 \<Rightarrow> pointless_create_t" where
  "pointless_create_set_root c r = c\<lparr>c_root := r\<rparr>"

section \<open>Values without heap data\<close>

text \<open>Adding a value; its handle is the number of values before it, cut to 32 bits.\<close>

definition push_value :: "pointless_create_t \<Rightarrow> pointless_create_value_t \<Rightarrow> u32 \<times> pointless_create_t" where
  "push_value c cv =
     (let vs = c_values c @ [cv] in (of_nat (length vs - 1), c\<lparr>c_values := vs\<rparr>))"

definition pointless_create_i32_priv :: "pointless_create_t \<Rightarrow> i32 \<Rightarrow> u32 \<times> pointless_create_t" where
  "pointless_create_i32_priv c v = push_value c (pointless_value_create_i32 v)"

definition pointless_create_i32 :: "pointless_create_t \<Rightarrow> i32 \<Rightarrow> (u32 \<times> pointless_create_t) option" where
  "pointless_create_i32 c v =
     do { handle \<leftarrow> pointless_create_cache_get_i32 (c_cache c) v;
          if handle \<noteq> POINTLESS_CREATE_VALUE_FAIL then Some (handle, c)
          else do {
            let (handle, c) = pointless_create_i32_priv c v;
            cache \<leftarrow> pointless_create_cache_set_i32 (c_cache c) v handle;
            Some (handle, c\<lparr>c_cache := cache\<rparr>) } }"

definition pointless_create_u32_priv :: "pointless_create_t \<Rightarrow> u32 \<Rightarrow> u32 \<times> pointless_create_t" where
  "pointless_create_u32_priv c v = push_value c (pointless_value_create_u32 v)"

definition pointless_create_u32 :: "pointless_create_t \<Rightarrow> u32 \<Rightarrow> (u32 \<times> pointless_create_t) option" where
  "pointless_create_u32 c v =
     do { handle \<leftarrow> pointless_create_cache_get_u32 (c_cache c) v;
          if handle \<noteq> POINTLESS_CREATE_VALUE_FAIL then Some (handle, c)
          else do {
            let (handle, c) = pointless_create_u32_priv c v;
            cache \<leftarrow> pointless_create_cache_set_u32 (c_cache c) v handle;
            Some (handle, c\<lparr>c_cache := cache\<rparr>) } }"

definition pointless_create_float :: "pointless_create_t \<Rightarrow> u32 \<Rightarrow> u32 \<times> pointless_create_t" where
  "pointless_create_float c v = push_value c (pointless_value_create_float v)"

definition pointless_create_boolean_false_priv :: "pointless_create_t \<Rightarrow> u32 \<times> pointless_create_t" where
  "pointless_create_boolean_false_priv c = push_value c pointless_value_create_bool_false"

definition pointless_create_boolean_false :: "pointless_create_t \<Rightarrow> u32 \<times> pointless_create_t" where
  "pointless_create_boolean_false c =
     (let handle = pointless_create_cache_get_false (c_cache c)
      in if handle \<noteq> POINTLESS_CREATE_VALUE_FAIL then (handle, c)
         else let (handle, c) = pointless_create_boolean_false_priv c
              in (handle, c\<lparr>c_cache := pointless_create_cache_set_false (c_cache c) handle\<rparr>))"

definition pointless_create_boolean_true_priv :: "pointless_create_t \<Rightarrow> u32 \<times> pointless_create_t" where
  "pointless_create_boolean_true_priv c = push_value c pointless_value_create_bool_true"

definition pointless_create_boolean_true :: "pointless_create_t \<Rightarrow> u32 \<times> pointless_create_t" where
  "pointless_create_boolean_true c =
     (let handle = pointless_create_cache_get_true (c_cache c)
      in if handle \<noteq> POINTLESS_CREATE_VALUE_FAIL then (handle, c)
         else let (handle, c) = pointless_create_boolean_true_priv c
              in (handle, c\<lparr>c_cache := pointless_create_cache_set_true (c_cache c) handle\<rparr>))"

definition pointless_create_boolean :: "pointless_create_t \<Rightarrow> i32 \<Rightarrow> u32 \<times> pointless_create_t" where
  "pointless_create_boolean c v =
     (if v \<noteq> 0 then pointless_create_boolean_true c else pointless_create_boolean_false c)"

definition pointless_create_empty_slot_priv :: "pointless_create_t \<Rightarrow> u32 \<times> pointless_create_t" where
  "pointless_create_empty_slot_priv c = push_value c pointless_value_create_empty_slot"

definition pointless_create_empty_slot :: "pointless_create_t \<Rightarrow> u32 \<times> pointless_create_t" where
  "pointless_create_empty_slot c =
     (let handle = pointless_create_cache_get_empty_slot (c_cache c)
      in if handle \<noteq> POINTLESS_CREATE_VALUE_FAIL then (handle, c)
         else let (handle, c) = pointless_create_empty_slot_priv c
              in (handle, c\<lparr>c_cache := pointless_create_cache_set_empty_slot (c_cache c) handle\<rparr>))"

definition pointless_create_null_priv :: "pointless_create_t \<Rightarrow> u32 \<times> pointless_create_t" where
  "pointless_create_null_priv c = push_value c pointless_value_create_null"

definition pointless_create_null :: "pointless_create_t \<Rightarrow> u32 \<times> pointless_create_t" where
  "pointless_create_null c =
     (let handle = pointless_create_cache_get_null (c_cache c)
      in if handle \<noteq> POINTLESS_CREATE_VALUE_FAIL then (handle, c)
         else let (handle, c) = pointless_create_null_priv c
              in (handle, c\<lparr>c_cache := pointless_create_cache_set_null (c_cache c) handle\<rparr>))"

end
