(* ===== verification/Create_Values.thy ===== *)
theory Create_Values
  imports Create_State
begin

text \<open>
  The creation functions of \<open>src/pointless_create.c\<close> for strings, bitvectors, vectors, sets and maps. A
  function answers the handle it returns with the new state; \<open>None\<close> is an access outside an array.
\<close>

unbundle bit_operations_syntax

section \<open>Strings\<close>

text \<open>The heap form of a string: its length, the units, the terminator. It is also the dictionary key.\<close>

definition string_buffer :: "nat \<Rightarrow> u64 \<Rightarrow> 'a::len word list \<Rightarrow> u8 list" where
  "string_buffer w n vv = le_bytes 4 (ucast n :: u32) @ concat (map (le_bytes w) vv)"

text \<open>The steps both string types share once the buffer is built.\<close>

definition create_string_value :: "pointless_create_t \<Rightarrow> u32 \<Rightarrow> u8 list \<Rightarrow> u32 \<times> pointless_create_t" where
  "create_string_value c t buffer =
     (case string_unicode_map_judy c buffer of
        Some r \<Rightarrow> (ucast r, c)
      | None \<Rightarrow>
          let (handle, c1) = push_value c \<lparr>cr_header = mk_header t,
                                            cr_data = string_unicode_map_judy_count c\<rparr>
          in (handle,
              c1\<lparr>string_unicode_values := string_unicode_values c1 @ [buffer],
                 string_unicode_map_judy :=
                   (string_unicode_map_judy c1)(buffer \<mapsto> of_nat (length (c_values c1) - 1)),
                 string_unicode_map_judy_count := string_unicode_map_judy_count c1 + 1\<rparr>))"

definition pointless_create_unicode_ucs4 ::
    "pointless_create_t \<Rightarrow> u32 list \<Rightarrow> (u32 \<times> pointless_create_t) option" where
  "pointless_create_unicode_ucs4 c v =
     do { unicode_len \<leftarrow> pointless_ucs4_len v;
          vv \<leftarrow> pointless_ucs4_cpy (replicate (unat (unicode_len + 1)) 0) v;
          Some (create_string_value c POINTLESS_UNICODE (string_buffer 4 unicode_len vv)) }"

definition pointless_create_string_ascii ::
    "pointless_create_t \<Rightarrow> u8 list \<Rightarrow> (u32 \<times> pointless_create_t) option" where
  "pointless_create_string_ascii c v =
     do { string_len \<leftarrow> pointless_ascii_len v;
          vv \<leftarrow> pointless_ascii_cpy (replicate (unat (string_len + 1)) 0) v;
          Some (create_string_value c POINTLESS_STRING (string_buffer 1 string_len vv)) }"

text \<open>The converters allocate, see \<open>Strings\<close>; a null pointer makes the creation fail.\<close>

definition pointless_create_string_ucs2 ::
    "(u64 \<Rightarrow> bool) \<Rightarrow> pointless_create_t \<Rightarrow> u16 list \<Rightarrow> (u32 \<times> pointless_create_t) option" where
  "pointless_create_string_ucs2 alloc c v =
     do { r \<leftarrow> pointless_ucs2_to_ascii alloc v;
          (case r of
             None \<Rightarrow> Some (POINTLESS_CREATE_VALUE_FAIL, c)
           | Some ascii \<Rightarrow> pointless_create_string_ascii c ascii) }"

definition pointless_create_string_ucs4 ::
    "(u64 \<Rightarrow> bool) \<Rightarrow> pointless_create_t \<Rightarrow> u32 list \<Rightarrow> (u32 \<times> pointless_create_t) option" where
  "pointless_create_string_ucs4 alloc c v =
     do { r \<leftarrow> pointless_ucs4_to_ascii alloc v;
          (case r of
             None \<Rightarrow> Some (POINTLESS_CREATE_VALUE_FAIL, c)
           | Some ascii \<Rightarrow> pointless_create_string_ascii c ascii) }"

definition pointless_create_unicode_ucs2 ::
    "(u64 \<Rightarrow> bool) \<Rightarrow> pointless_create_t \<Rightarrow> u16 list \<Rightarrow> (u32 \<times> pointless_create_t) option" where
  "pointless_create_unicode_ucs2 alloc c s =
     do { r \<leftarrow> pointless_ucs2_to_ucs4 alloc s;
          (case r of
             None \<Rightarrow> Some (POINTLESS_CREATE_VALUE_FAIL, c)
           | Some ucs4 \<Rightarrow> pointless_create_unicode_ucs4 c ucs4) }"

text \<open>The error is set together with the failure handle.\<close>

definition pointless_create_unicode_ascii ::
    "(u64 \<Rightarrow> bool) \<Rightarrow> pointless_create_t \<Rightarrow> u8 list \<Rightarrow> (err option \<times> u32 \<times> pointless_create_t) option" where
  "pointless_create_unicode_ascii alloc c s =
     do { r \<leftarrow> pointless_ascii_to_ucs4 alloc s;
          (case r of
             None \<Rightarrow> Some (Some ''out of memory'', POINTLESS_CREATE_VALUE_FAIL, c)
           | Some ucs4 \<Rightarrow> do {
               (handle, c') \<leftarrow> pointless_create_unicode_ucs4 c ucs4;
               Some (if handle = POINTLESS_CREATE_VALUE_FAIL then Some ''out of memory'' else None,
                     handle, c') }) }"

section \<open>Bitvectors\<close>

definition buffer_bit :: "u8 list \<Rightarrow> nat \<Rightarrow> bool option" where
  "buffer_bit v i = map_option (\<lambda>b. b \<noteq> 0) (bm_is_set v (of_nat i))"

fun is_all_loop :: "bool \<Rightarrow> u8 list \<Rightarrow> nat list \<Rightarrow> bool option" where
  "is_all_loop x v [] = Some True"
| "is_all_loop x v (i # is) =
     do { b \<leftarrow> buffer_bit v i; if b \<noteq> x then Some False else is_all_loop x v is }"

definition pointless_bitvector_is_all_1 :: "u8 list \<Rightarrow> u32 \<Rightarrow> bool option" where
  "pointless_bitvector_is_all_1 v n_bits = is_all_loop True v [0..<unat n_bits]"

definition pointless_bitvector_is_all_0 :: "u8 list \<Rightarrow> u32 \<Rightarrow> bool option" where
  "pointless_bitvector_is_all_0 v n_bits = is_all_loop False v [0..<unat n_bits]"

text \<open>
  The loop of \<open>is_01\<close> (\<open>x = True\<close>) and \<open>is_10\<close> (\<open>x = False\<close>): bits \<open>\<not> x\<close> followed by bits \<open>x\<close>. The
  counts of both, first part first; the inner \<open>None\<close> when the bits have another shape.
\<close>

fun two_runs_loop :: "bool \<Rightarrow> u8 list \<Rightarrow> nat list \<Rightarrow> u32 \<Rightarrow> u32 \<Rightarrow> (u32 \<times> u32) option option" where
  "two_runs_loop x v [] n_a n_b = Some (Some (n_a, n_b))"
| "two_runs_loop x v (i # is) n_a n_b =
     do { b \<leftarrow> buffer_bit v i;
          if b = x then two_runs_loop x v is n_a (n_b + 1)
          else if n_b > 0 then Some None
          else two_runs_loop x v is (n_a + 1) n_b }"

definition pointless_bitvector_is_01 :: "u8 list \<Rightarrow> u32 \<Rightarrow> (u32 \<times> u32) option option" where
  "pointless_bitvector_is_01 v n_bits = two_runs_loop True v [0..<unat n_bits] 0 0"

definition pointless_bitvector_is_10 :: "u8 list \<Rightarrow> u32 \<Rightarrow> (u32 \<times> u32) option option" where
  "pointless_bitvector_is_10 v n_bits = two_runs_loop False v [0..<unat n_bits] 0 0"

definition pointless_create_bitvector_compressed ::
    "pointless_create_t \<Rightarrow> pointless_value_t \<Rightarrow> u32 \<times> pointless_create_t" where
  "pointless_create_bitvector_compressed c v =
     push_value c \<lparr>cr_header = mk_header (take_bit 29 (v_type v)), cr_data = v_data v\<rparr>"

text \<open>Setting the bits of the packed form in the bytes of the value.\<close>

fun pack_bits_loop :: "u8 list \<Rightarrow> nat list \<Rightarrow> u8 list \<Rightarrow> u8 list option" where
  "pack_bits_loop v [] data = Some data"
| "pack_bits_loop v (i # is) data =
     do { b \<leftarrow> buffer_bit v i;
          data' \<leftarrow> (if b then bm_set data (of_nat (i + 5)) else Some data);
          pack_bits_loop v is data' }"

text \<open>The choice of a representation: its type and, when it needs no heap, its data.\<close>

definition compress_01_or_10 :: "u32 \<Rightarrow> u32 \<Rightarrow> u32 \<Rightarrow> u32 \<times> pointless_value_data_t" where
  "compress_01_or_10 t n_bits_a n_bits_b =
     (if n_bits_a \<le> UINT16_MAX \<and> n_bits_b \<le> UINT16_MAX
      then (t, mk_bitvector_01_or_10 (ucast n_bits_a) (ucast n_bits_b))
      else (POINTLESS_BITVECTOR, 0))"

definition compress_bitvector :: "u8 list \<Rightarrow> u32 \<Rightarrow> (u32 \<times> pointless_value_data_t) option" where
  "compress_bitvector v n_bits =
     do { all_0 \<leftarrow> pointless_bitvector_is_all_0 v n_bits;
          if all_0 then Some (POINTLESS_BITVECTOR_0, n_bits)
          else do {
            all_1 \<leftarrow> pointless_bitvector_is_all_1 v n_bits;
            if all_1 then Some (POINTLESS_BITVECTOR_1, n_bits)
            else if n_bits \<le> 27 then do {
              data \<leftarrow> pack_bits_loop v [0..<unat n_bits] (le_bytes 4 (mk_bitvector_packed n_bits 0));
              Some (POINTLESS_BITVECTOR_PACKED, le_word data) }
            else do {
              r01 \<leftarrow> pointless_bitvector_is_01 v n_bits;
              (case r01 of
                 Some (n_bits_a, n_bits_b) \<Rightarrow> Some (compress_01_or_10 POINTLESS_BITVECTOR_01 n_bits_a n_bits_b)
               | None \<Rightarrow> do {
                   r10 \<leftarrow> pointless_bitvector_is_10 v n_bits;
                   (case r10 of
                      Some (n_bits_a, n_bits_b) \<Rightarrow> Some (compress_01_or_10 POINTLESS_BITVECTOR_10 n_bits_a n_bits_b)
                    | None \<Rightarrow> Some (POINTLESS_BITVECTOR, 0)) }) } } }"

definition create_bitvector ::
    "pointless_create_t \<Rightarrow> u8 list \<Rightarrow> u32 \<Rightarrow> bool \<Rightarrow> (u32 \<times> pointless_create_t) option" where
  "create_bitvector c v n_bits norm =
     do { (t, data) \<leftarrow> compress_bitvector v n_bits;
          if t \<noteq> POINTLESS_BITVECTOR
          then Some (push_value c \<lparr>cr_header = mk_header t, cr_data = data\<rparr>)
          else if length v < unat (ICEIL n_bits 8) then None
          else
            let buffer = le_bytes 4 n_bits @ take (unat (ICEIL n_bits 8)) v
            in (case (if norm then bitvector_map_judy c buffer else None) of
                  Some r \<Rightarrow> Some (ucast r, c)
                | None \<Rightarrow>
                    let (handle, c1) = push_value c \<lparr>cr_header = mk_header t,
                                                      cr_data = bitvector_map_judy_count c\<rparr>;
                        m = bitvector_map_judy c1
                    in Some (handle,
                         c1\<lparr>bitvector_values := bitvector_values c1 @ [buffer],
                            bitvector_map_judy :=
                              (if norm then m(buffer \<mapsto> of_nat (length (c_values c1) - 1)) else m),
                            bitvector_map_judy_count := bitvector_map_judy_count c1 + 1\<rparr>)) }"

definition pointless_create_bitvector ::
    "pointless_create_t \<Rightarrow> u8 list \<Rightarrow> u32 \<Rightarrow> (u32 \<times> pointless_create_t) option" where
  "pointless_create_bitvector c v n_bits = create_bitvector c v n_bits True"

definition pointless_create_bitvector_no_normalize ::
    "pointless_create_t \<Rightarrow> u8 list \<Rightarrow> u32 \<Rightarrow> (u32 \<times> pointless_create_t) option" where
  "pointless_create_bitvector_no_normalize c v n_bits = create_bitvector c v n_bits False"

end
