(* ===== verification/Create_Vectors.thy ===== *)
theory Create_Vectors
  imports Create_State
begin

text \<open>
  The creation functions of \<open>src/pointless_create.c\<close> for vectors, sets and maps. The items of a vector
  of the library are handles or machine numbers; a set and a map own one empty vector for each of the
  arrays of their hash table, filled when the file is written.
\<close>

section \<open>Vectors of the library\<close>

definition pointless_create_vector_priv ::
    "pointless_create_t \<Rightarrow> u32 \<Rightarrow> nat \<Rightarrow> u32 \<times> pointless_create_t" where
  "pointless_create_vector_priv c vector_type item_size =
     (let (handle, c1) = push_value c \<lparr>cr_header = mk_header vector_type,
                                        cr_data = of_nat (length (priv_vector_values c))\<rparr>
      in (handle, c1\<lparr>priv_vector_values := priv_vector_values c1 @
                        [\<lparr>vp_item_size = item_size, vp_items = []\<rparr>]\<rparr>))"

definition pointless_create_vector_value :: "pointless_create_t \<Rightarrow> u32 \<times> pointless_create_t" where
  "pointless_create_vector_value c = pointless_create_vector_priv c POINTLESS_VECTOR_VALUE 4"

definition pointless_create_vector_i8 :: "pointless_create_t \<Rightarrow> u32 \<times> pointless_create_t" where
  "pointless_create_vector_i8 c = pointless_create_vector_priv c POINTLESS_VECTOR_I8 1"

definition pointless_create_vector_u8 :: "pointless_create_t \<Rightarrow> u32 \<times> pointless_create_t" where
  "pointless_create_vector_u8 c = pointless_create_vector_priv c POINTLESS_VECTOR_U8 1"

definition pointless_create_vector_i16 :: "pointless_create_t \<Rightarrow> u32 \<times> pointless_create_t" where
  "pointless_create_vector_i16 c = pointless_create_vector_priv c POINTLESS_VECTOR_I16 2"

definition pointless_create_vector_u16 :: "pointless_create_t \<Rightarrow> u32 \<times> pointless_create_t" where
  "pointless_create_vector_u16 c = pointless_create_vector_priv c POINTLESS_VECTOR_U16 2"

definition pointless_create_vector_i32 :: "pointless_create_t \<Rightarrow> u32 \<times> pointless_create_t" where
  "pointless_create_vector_i32 c = pointless_create_vector_priv c POINTLESS_VECTOR_I32 4"

definition pointless_create_vector_u32 :: "pointless_create_t \<Rightarrow> u32 \<times> pointless_create_t" where
  "pointless_create_vector_u32 c = pointless_create_vector_priv c POINTLESS_VECTOR_U32 4"

definition pointless_create_vector_i64 :: "pointless_create_t \<Rightarrow> u32 \<times> pointless_create_t" where
  "pointless_create_vector_i64 c = pointless_create_vector_priv c POINTLESS_VECTOR_I64 8"

definition pointless_create_vector_u64 :: "pointless_create_t \<Rightarrow> u32 \<times> pointless_create_t" where
  "pointless_create_vector_u64 c = pointless_create_vector_priv c POINTLESS_VECTOR_U64 8"

definition pointless_create_vector_float :: "pointless_create_t \<Rightarrow> u32 \<times> pointless_create_t" where
  "pointless_create_vector_float c = pointless_create_vector_priv c POINTLESS_VECTOR_FLOAT 4"

text \<open>
  Appending copies as many bytes as an item of the vector has from an argument of \<open>arg_size\<close> bytes; the
  type the caller names is only used in asserts.
\<close>

definition pointless_create_vector_append_priv ::
    "pointless_create_t \<Rightarrow> u32 \<Rightarrow> u32 \<Rightarrow> nat \<Rightarrow> u64 \<Rightarrow> (u32 \<times> pointless_create_t) option" where
  "pointless_create_vector_append_priv c vector vector_type arg_size v =
     do { vec \<leftarrow> cv_priv_vector_at c vector;
          if arg_size < vp_item_size vec then None
          else do { c' \<leftarrow> upd_priv_vector c vector (vec\<lparr>vp_items := vp_items vec @ [v]\<rparr>);
                    Some (vector, c') } }"

definition pointless_create_vector_value_append ::
    "pointless_create_t \<Rightarrow> u32 \<Rightarrow> u32 \<Rightarrow> (u32 \<times> pointless_create_t) option" where
  "pointless_create_vector_value_append c vector v =
     (if length (c_values c) \<le> unat v then Some (POINTLESS_CREATE_VALUE_FAIL, c)
      else pointless_create_vector_append_priv c vector POINTLESS_VECTOR_VALUE 4 (ucast v))"

definition pointless_create_vector_i8_append ::
    "pointless_create_t \<Rightarrow> u32 \<Rightarrow> i8 \<Rightarrow> (u32 \<times> pointless_create_t) option" where
  "pointless_create_vector_i8_append c vector v =
     pointless_create_vector_append_priv c vector POINTLESS_VECTOR_I8 1 (ucast v)"

definition pointless_create_vector_u8_append ::
    "pointless_create_t \<Rightarrow> u32 \<Rightarrow> u8 \<Rightarrow> (u32 \<times> pointless_create_t) option" where
  "pointless_create_vector_u8_append c vector v =
     pointless_create_vector_append_priv c vector POINTLESS_VECTOR_U8 1 (ucast v)"

definition pointless_create_vector_i16_append ::
    "pointless_create_t \<Rightarrow> u32 \<Rightarrow> i16 \<Rightarrow> (u32 \<times> pointless_create_t) option" where
  "pointless_create_vector_i16_append c vector v =
     pointless_create_vector_append_priv c vector POINTLESS_VECTOR_I16 2 (ucast v)"

definition pointless_create_vector_u16_append ::
    "pointless_create_t \<Rightarrow> u32 \<Rightarrow> u16 \<Rightarrow> (u32 \<times> pointless_create_t) option" where
  "pointless_create_vector_u16_append c vector v =
     pointless_create_vector_append_priv c vector POINTLESS_VECTOR_U16 2 (ucast v)"

definition pointless_create_vector_i32_append ::
    "pointless_create_t \<Rightarrow> u32 \<Rightarrow> i32 \<Rightarrow> (u32 \<times> pointless_create_t) option" where
  "pointless_create_vector_i32_append c vector v =
     pointless_create_vector_append_priv c vector POINTLESS_VECTOR_I32 4 (ucast v)"

definition pointless_create_vector_u32_append ::
    "pointless_create_t \<Rightarrow> u32 \<Rightarrow> u32 \<Rightarrow> (u32 \<times> pointless_create_t) option" where
  "pointless_create_vector_u32_append c vector v =
     pointless_create_vector_append_priv c vector POINTLESS_VECTOR_U32 4 (ucast v)"

definition pointless_create_vector_i64_append ::
    "pointless_create_t \<Rightarrow> u32 \<Rightarrow> i64 \<Rightarrow> (u32 \<times> pointless_create_t) option" where
  "pointless_create_vector_i64_append c vector v =
     pointless_create_vector_append_priv c vector POINTLESS_VECTOR_I64 8 v"

definition pointless_create_vector_u64_append ::
    "pointless_create_t \<Rightarrow> u32 \<Rightarrow> u64 \<Rightarrow> (u32 \<times> pointless_create_t) option" where
  "pointless_create_vector_u64_append c vector v =
     pointless_create_vector_append_priv c vector POINTLESS_VECTOR_U64 8 v"

definition pointless_create_vector_float_append ::
    "pointless_create_t \<Rightarrow> u32 \<Rightarrow> u32 \<Rightarrow> (u32 \<times> pointless_create_t) option" where
  "pointless_create_vector_float_append c vector v =
     pointless_create_vector_append_priv c vector POINTLESS_VECTOR_FLOAT 4 (ucast v)"

text \<open>The store goes through a pointer to 32-bit items, which only a vector of such items allows.\<close>

definition pointless_create_vector_value_set ::
    "pointless_create_t \<Rightarrow> u32 \<Rightarrow> u32 \<Rightarrow> u32 \<Rightarrow> pointless_create_t option" where
  "pointless_create_vector_value_set c vector i v =
     do { vec \<leftarrow> cv_priv_vector_at c vector;
          if vp_item_size vec \<noteq> 4 then None
          else do { items \<leftarrow> arr_set (vp_items vec) (unat i) (ucast v);
                    upd_priv_vector c vector (vec\<lparr>vp_items := items\<rparr>) } }"

text \<open>Handing over an array of \<open>n_items\<close> 32-bit items, which an item of the vector has to be.\<close>

definition pointless_create_vector_transfer_priv ::
    "pointless_create_t \<Rightarrow> u32 \<Rightarrow> u32 list \<Rightarrow> u32 \<Rightarrow> (u32 \<times> pointless_create_t) option" where
  "pointless_create_vector_transfer_priv c vector value n_items =
     do { vec \<leftarrow> cv_priv_vector_at c vector;
          if vp_items vec \<noteq> [] then Some (POINTLESS_CREATE_VALUE_FAIL, c)
          else if vp_item_size vec \<noteq> 4 \<or> length value < unat n_items then None
          else do { c' \<leftarrow> upd_priv_vector c vector
                            (vec\<lparr>vp_items := map ucast (take (unat n_items) value)\<rparr>);
                    Some (vector, c') } }"

definition pointless_create_vector_u32_transfer ::
    "pointless_create_t \<Rightarrow> u32 \<Rightarrow> u32 list \<Rightarrow> u32 \<Rightarrow> (u32 \<times> pointless_create_t) option" where
  "pointless_create_vector_u32_transfer c vector v n = pointless_create_vector_transfer_priv c vector v n"

fun handles_valid_loop :: "pointless_create_t \<Rightarrow> u32 list \<Rightarrow> nat list \<Rightarrow> bool option" where
  "handles_valid_loop c v [] = Some True"
| "handles_valid_loop c v (i # is) =
     do { x \<leftarrow> arr_get v i;
          if length (c_values c) \<le> unat x then Some False else handles_valid_loop c v is }"

definition pointless_create_vector_value_transfer ::
    "pointless_create_t \<Rightarrow> u32 \<Rightarrow> u32 list \<Rightarrow> u32 \<Rightarrow> (u32 \<times> pointless_create_t) option" where
  "pointless_create_vector_value_transfer c vector v n =
     do { valid \<leftarrow> handles_valid_loop c v [0..<unat n];
          if \<not> valid then Some (POINTLESS_CREATE_VALUE_FAIL, c)
          else pointless_create_vector_transfer_priv c vector v n }"

section \<open>Vectors of the caller\<close>

definition pointless_create_vector_owner_priv ::
    "pointless_create_t \<Rightarrow> u32 \<Rightarrow> u8 list \<Rightarrow> u32 \<Rightarrow> u32 \<times> pointless_create_t" where
  "pointless_create_vector_owner_priv c vector_type items n_items =
     (if n_items = 0 then
        push_value c \<lparr>cr_header = mk_header POINTLESS_VECTOR_EMPTY, cr_data = 0\<rparr>
      else
        let (handle, c1) = push_value c
              \<lparr>cr_header = (mk_header vector_type)\<lparr>is_outside_vector := True\<rparr>,
               cr_data = of_nat (length (outside_vector_values c))\<rparr>
        in (handle, c1\<lparr>outside_vector_values := outside_vector_values c1 @
                          [\<lparr>vo_items = items, vo_n_items = n_items\<rparr>]\<rparr>))"

definition pointless_create_vector_i8_owner ::
    "pointless_create_t \<Rightarrow> i8 list \<Rightarrow> u32 \<Rightarrow> u32 \<times> pointless_create_t" where
  "pointless_create_vector_i8_owner c items n_items =
     pointless_create_vector_owner_priv c POINTLESS_VECTOR_I8 (concat (map (le_bytes 1) items)) n_items"

definition pointless_create_vector_u8_owner ::
    "pointless_create_t \<Rightarrow> u8 list \<Rightarrow> u32 \<Rightarrow> u32 \<times> pointless_create_t" where
  "pointless_create_vector_u8_owner c items n_items =
     pointless_create_vector_owner_priv c POINTLESS_VECTOR_U8 (concat (map (le_bytes 1) items)) n_items"

definition pointless_create_vector_i16_owner ::
    "pointless_create_t \<Rightarrow> i16 list \<Rightarrow> u32 \<Rightarrow> u32 \<times> pointless_create_t" where
  "pointless_create_vector_i16_owner c items n_items =
     pointless_create_vector_owner_priv c POINTLESS_VECTOR_I16 (concat (map (le_bytes 2) items)) n_items"

definition pointless_create_vector_u16_owner ::
    "pointless_create_t \<Rightarrow> u16 list \<Rightarrow> u32 \<Rightarrow> u32 \<times> pointless_create_t" where
  "pointless_create_vector_u16_owner c items n_items =
     pointless_create_vector_owner_priv c POINTLESS_VECTOR_U16 (concat (map (le_bytes 2) items)) n_items"

definition pointless_create_vector_i32_owner ::
    "pointless_create_t \<Rightarrow> i32 list \<Rightarrow> u32 \<Rightarrow> u32 \<times> pointless_create_t" where
  "pointless_create_vector_i32_owner c items n_items =
     pointless_create_vector_owner_priv c POINTLESS_VECTOR_I32 (concat (map (le_bytes 4) items)) n_items"

definition pointless_create_vector_u32_owner ::
    "pointless_create_t \<Rightarrow> u32 list \<Rightarrow> u32 \<Rightarrow> u32 \<times> pointless_create_t" where
  "pointless_create_vector_u32_owner c items n_items =
     pointless_create_vector_owner_priv c POINTLESS_VECTOR_U32 (concat (map (le_bytes 4) items)) n_items"

definition pointless_create_vector_i64_owner ::
    "pointless_create_t \<Rightarrow> i64 list \<Rightarrow> u32 \<Rightarrow> u32 \<times> pointless_create_t" where
  "pointless_create_vector_i64_owner c items n_items =
     pointless_create_vector_owner_priv c POINTLESS_VECTOR_I64 (concat (map (le_bytes 8) items)) n_items"

definition pointless_create_vector_u64_owner ::
    "pointless_create_t \<Rightarrow> u64 list \<Rightarrow> u32 \<Rightarrow> u32 \<times> pointless_create_t" where
  "pointless_create_vector_u64_owner c items n_items =
     pointless_create_vector_owner_priv c POINTLESS_VECTOR_U64 (concat (map (le_bytes 8) items)) n_items"

definition pointless_create_vector_float_owner ::
    "pointless_create_t \<Rightarrow> u32 list \<Rightarrow> u32 \<Rightarrow> u32 \<times> pointless_create_t" where
  "pointless_create_vector_float_owner c items n_items =
     pointless_create_vector_owner_priv c POINTLESS_VECTOR_FLOAT (concat (map (le_bytes 4) items)) n_items"

section \<open>Sets and maps\<close>

definition mark_set_map_vector :: "pointless_create_t \<Rightarrow> u32 \<Rightarrow> pointless_create_t option" where
  "mark_set_map_vector c v =
     upd_value c v (\<lambda>x. x\<lparr>cr_header := (cr_header x)\<lparr>is_set_map_vector := True\<rparr>\<rparr>)"

definition pointless_create_set :: "pointless_create_t \<Rightarrow> (u32 \<times> pointless_create_t) option" where
  "pointless_create_set c =
     (let value = \<lparr>cr_header = mk_header POINTLESS_SET_VALUE, cr_data = of_nat (length (set_values c))\<rparr>;
          (h, c) = pointless_create_vector_u32 c;
          (k, c) = pointless_create_vector_value c
      in if h = POINTLESS_CREATE_VALUE_FAIL \<or> k = POINTLESS_CREATE_VALUE_FAIL
         then Some (POINTLESS_CREATE_VALUE_FAIL, c)
         else do {
           c \<leftarrow> mark_set_map_vector c h;
           c \<leftarrow> mark_set_map_vector c k;
           let (handle, c) = push_value c value;
           Some (handle, c\<lparr>set_values := set_values c @
                   [\<lparr>cs_keys = [], cs_serialize_hash = h, cs_serialize_keys = k\<rparr>]\<rparr>) })"

definition pointless_create_set_add ::
    "pointless_create_t \<Rightarrow> u32 \<Rightarrow> u32 \<Rightarrow> (u32 \<times> pointless_create_t) option" where
  "pointless_create_set_add c s k =
     do { x \<leftarrow> cv_value_at c s;
          set \<leftarrow> cv_set_at c s;
          sets \<leftarrow> arr_set (set_values c) (unat (cr_data x)) (set\<lparr>cs_keys := cs_keys set @ [k]\<rparr>);
          Some (s, c\<lparr>set_values := sets\<rparr>) }"

definition pointless_create_map :: "pointless_create_t \<Rightarrow> (u32 \<times> pointless_create_t) option" where
  "pointless_create_map c =
     (let value = \<lparr>cr_header = mk_header POINTLESS_MAP_VALUE_VALUE, cr_data = of_nat (length (map_values c))\<rparr>;
          (h, c) = pointless_create_vector_u32 c;
          (k, c) = pointless_create_vector_value c;
          (v, c) = pointless_create_vector_value c
      in if h = POINTLESS_CREATE_VALUE_FAIL \<or> k = POINTLESS_CREATE_VALUE_FAIL \<or>
            v = POINTLESS_CREATE_VALUE_FAIL
         then Some (POINTLESS_CREATE_VALUE_FAIL, c)
         else do {
           c \<leftarrow> mark_set_map_vector c h;
           c \<leftarrow> mark_set_map_vector c k;
           c \<leftarrow> mark_set_map_vector c v;
           let (handle, c) = push_value c value;
           Some (handle, c\<lparr>map_values := map_values c @
                   [\<lparr>cm_keys = [], cm_values = [], cm_serialize_hash = h, cm_serialize_keys = k,
                     cm_serialize_values = v\<rparr>]\<rparr>) })"

definition pointless_create_map_add ::
    "pointless_create_t \<Rightarrow> u32 \<Rightarrow> u32 \<Rightarrow> u32 \<Rightarrow> (u32 \<times> pointless_create_t) option" where
  "pointless_create_map_add c m k v =
     do { x \<leftarrow> cv_value_at c m;
          map \<leftarrow> cv_map_at c m;
          maps \<leftarrow> arr_set (map_values c) (unat (cr_data x))
                    (map\<lparr>cm_keys := cm_keys map @ [k], cm_values := cm_values map @ [v]\<rparr>);
          Some (m, c\<lparr>map_values := maps\<rparr>) }"

end
