(* ===== verification/Create_Compare.thy ===== *)
theory Create_Compare
  imports Create_State Hash Cmp
begin

text \<open>
  The hash and the comparison of values of a creation (\<open>src/pointless_hash.c\<close>, \<open>src/pointless_cmp.c\<close>).
  As for the values of a file, a null function pointer is \<open>None\<close> and the first argument bounds the
  nesting of calls.
\<close>

unbundle bit_operations_syntax

section \<open>The items of a vector\<close>

text \<open>The pointer to the items, as bytes, and their number.\<close>

definition create_vector_items ::
    "pointless_create_t \<Rightarrow> pointless_create_value_t \<Rightarrow> (u8 list \<times> u32) option" where
  "create_vector_items c v =
     (if is_outside_vector (cr_header v)
      then do { vec \<leftarrow> cv_get_outside_vector c v; Some (vo_items vec, vo_n_items vec) }
      else do { vec \<leftarrow> cv_get_priv_vector c v; Some (vp_data vec, vp_n_items vec) })"

text \<open>The value whose handle is item \<open>i\<close>.\<close>

definition item_value :: "pointless_create_t \<Rightarrow> u8 list \<Rightarrow> nat \<Rightarrow> pointless_create_value_t option" where
  "item_value c items i = do { h \<leftarrow> read_u32 items (4 * i); cv_value_at c h }"

section \<open>Hashes\<close>

definition pointless_hash_create_func_32 :: "u32 \<Rightarrow> hash_cb option" where
  "pointless_hash_create_func_32 t =
     (if t = POINTLESS_UNICODE then Some Hash_Unicode
      else if t = POINTLESS_STRING then Some Hash_String
      else if t \<in> {POINTLESS_I32, POINTLESS_U32, POINTLESS_BOOLEAN} then Some Hash_Int
      else if t = POINTLESS_FLOAT then Some Hash_Float
      else if t \<in> {POINTLESS_BITVECTOR, POINTLESS_BITVECTOR_0, POINTLESS_BITVECTOR_1,
                   POINTLESS_BITVECTOR_01, POINTLESS_BITVECTOR_10, POINTLESS_BITVECTOR_PACKED}
        then Some Hash_Bitvector
      else if t = POINTLESS_NULL then Some Hash_Null
      else if t = POINTLESS_VECTOR_VALUE then None
      else if t \<in> {POINTLESS_VECTOR_VALUE_HASHABLE, POINTLESS_VECTOR_I8, POINTLESS_VECTOR_U8,
                   POINTLESS_VECTOR_I16, POINTLESS_VECTOR_U16, POINTLESS_VECTOR_I32,
                   POINTLESS_VECTOR_U32, POINTLESS_VECTOR_I64, POINTLESS_VECTOR_U64,
                   POINTLESS_VECTOR_FLOAT, POINTLESS_VECTOR_EMPTY}
        then Some Hash_Vector
      else if t \<in> {POINTLESS_SET_VALUE, POINTLESS_MAP_VALUE_VALUE} then None
      else if t = POINTLESS_EMPTY_SLOT then Some Hash_Empty_Slot
      else None)"

definition pointless_hash_create_unicode_32 ::
    "pointless_create_t \<Rightarrow> pointless_create_value_t \<Rightarrow> u32 option" where
  "pointless_hash_create_unicode_32 c v =
     do { buffer \<leftarrow> cv_get_unicode c v; pointless_hash_unicode_ucs4_v1_32 (view_le 4 buffer 4) }"

definition pointless_hash_create_string_32 ::
    "pointless_create_t \<Rightarrow> pointless_create_value_t \<Rightarrow> u32 option" where
  "pointless_hash_create_string_32 c v =
     do { buffer \<leftarrow> cv_get_string c v; pointless_hash_string_v1_32 (drop 4 buffer) }"

definition pointless_hash_create_int_32 :: "pointless_create_value_t \<Rightarrow> u32" where
  "pointless_hash_create_int_32 v = pointless_hash_int_32 (type_29 (cr_header v)) (cr_data v)"

definition pointless_hash_create_float_32 :: "pointless_create_value_t \<Rightarrow> u32" where
  "pointless_hash_create_float_32 v = pointless_hash_float_32 (cr_data v)"

text \<open>The buffer pointer is null unless the bitvector has a buffer.\<close>

definition create_buffer_or_null ::
    "pointless_create_t \<Rightarrow> pointless_create_value_t \<Rightarrow> u8 list option" where
  "create_buffer_or_null c v =
     (if type_29 (cr_header v) = POINTLESS_BITVECTOR then cv_get_bitvector c v else Some [])"

definition pointless_hash_create_bitvector_32 ::
    "pointless_create_t \<Rightarrow> pointless_create_value_t \<Rightarrow> u32 option" where
  "pointless_hash_create_bitvector_32 c v =
     do { buffer \<leftarrow> create_buffer_or_null c v;
          pointless_bitvector_hash_32 (type_29 (cr_header v)) (cr_data v) buffer }"

text \<open>The hash of item \<open>i\<close>; \<open>rec\<close> hashes a value.\<close>

definition hash_create_compressed_item ::
    "pointless_create_t \<Rightarrow> u32 \<Rightarrow> u8 list \<Rightarrow> nat \<Rightarrow> u32 option" where
  "hash_create_compressed_item c t items i =
     do { vv \<leftarrow> item_value c items i;
          let n = pointless_get_int_as_int64 (type_29 (cr_header vv)) (cr_data vv);
          if t \<in> {POINTLESS_VECTOR_I8, POINTLESS_VECTOR_I16, POINTLESS_VECTOR_I32}
          then Some (pointless_hash_i32_32 (ucast n))
          else if t \<in> {POINTLESS_VECTOR_U8, POINTLESS_VECTOR_U16, POINTLESS_VECTOR_U32}
          then Some (pointless_hash_u32_32 (ucast n))
          else if t = POINTLESS_VECTOR_FLOAT
          then Some (pointless_hash_float_32
                      (pointless_value_get_float (type_29 (cr_header vv)) (cr_data vv)))
          else Some 0 }"

definition hash_create_item ::
    "(pointless_create_value_t \<Rightarrow> u32 option) \<Rightarrow> pointless_create_t \<Rightarrow> u32 \<Rightarrow> u8 list \<Rightarrow> nat \<Rightarrow>
     u32 option" where
  "hash_create_item rec c t items i =
     (if t = POINTLESS_VECTOR_VALUE_HASHABLE then do { vv \<leftarrow> item_value c items i; rec vv }
      else if t = POINTLESS_VECTOR_I8 then
        do { x :: i8 \<leftarrow> read_le 1 items i; Some (pointless_hash_i32_32 (scast x)) }
      else if t = POINTLESS_VECTOR_U8 then
        do { x :: u8 \<leftarrow> read_le 1 items i; Some (pointless_hash_u32_32 (ucast x)) }
      else if t = POINTLESS_VECTOR_I16 then
        do { x :: i16 \<leftarrow> read_le 2 items (2 * i); Some (pointless_hash_i32_32 (scast x)) }
      else if t = POINTLESS_VECTOR_U16 then
        do { x :: u16 \<leftarrow> read_le 2 items (2 * i); Some (pointless_hash_u32_32 (ucast x)) }
      else if t = POINTLESS_VECTOR_I32 then
        do { x \<leftarrow> read_u32 items (4 * i); Some (pointless_hash_i32_32 x) }
      else if t = POINTLESS_VECTOR_U32 then
        do { x \<leftarrow> read_u32 items (4 * i); Some (pointless_hash_u32_32 x) }
      else if t = POINTLESS_VECTOR_I64 then
        do { x \<leftarrow> read_u64 items (8 * i); Some (pointless_hash_i32_32 (ucast x)) }
      else if t = POINTLESS_VECTOR_U64 then
        do { x \<leftarrow> read_u64 items (8 * i); Some (pointless_hash_u32_32 (ucast x)) }
      else if t = POINTLESS_VECTOR_FLOAT then
        do { x \<leftarrow> read_u32 items (4 * i); Some (pointless_hash_float_32 x) }
      else Some 0)"

definition pointless_hash_create_vector_32 ::
    "(pointless_create_value_t \<Rightarrow> u32 option) \<Rightarrow> pointless_create_t \<Rightarrow> pointless_create_value_t \<Rightarrow>
     u32 option" where
  "pointless_hash_create_vector_32 rec c v =
     do { (items, n_items) \<leftarrow> create_vector_items c v;
          let t = type_29 (cr_header v);
          vector_hash_loop
            (if is_compressed_vector (cr_header v) then hash_create_compressed_item c t items
             else hash_create_item rec c t items)
            [0..<unat n_items] (pointless_vector_hash_init_32 n_items) }"

fun pointless_hash_create_32 :: "nat \<Rightarrow> pointless_create_t \<Rightarrow> pointless_create_value_t \<Rightarrow> u32 option" where
  "pointless_hash_create_32 0 c v = None"
| "pointless_hash_create_32 (Suc fuel) c v =
     (case pointless_hash_create_func_32 (type_29 (cr_header v)) of
        None \<Rightarrow> None
      | Some Hash_Unicode \<Rightarrow> pointless_hash_create_unicode_32 c v
      | Some Hash_String \<Rightarrow> pointless_hash_create_string_32 c v
      | Some Hash_Int \<Rightarrow> Some (pointless_hash_create_int_32 v)
      | Some Hash_Float \<Rightarrow> Some (pointless_hash_create_float_32 v)
      | Some Hash_Bitvector \<Rightarrow> pointless_hash_create_bitvector_32 c v
      | Some Hash_Null \<Rightarrow> Some 0
      | Some Hash_Vector \<Rightarrow> pointless_hash_create_vector_32 (\<lambda>x. pointless_hash_create_32 fuel c x) c v
      | Some Hash_Empty_Slot \<Rightarrow> Some 0)"

section \<open>Comparison\<close>

definition pointless_cmp_create_string_unicode ::
    "pointless_create_t \<Rightarrow> pointless_complete_create_value_t \<Rightarrow> pointless_complete_create_value_t \<Rightarrow>
     int option" where
  "pointless_cmp_create_string_unicode c a b =
     (let va = pointless_create_value_from_complete a; vb = pointless_create_value_from_complete b;
          ta = type_29 (cr_header va); tb = type_29 (cr_header vb) in
      if ta = POINTLESS_UNICODE \<and> tb = POINTLESS_UNICODE then
        do { unicode_a \<leftarrow> cv_get_unicode c va; unicode_b \<leftarrow> cv_get_unicode c vb;
             pointless_cmp_string_32_32 (view_le 4 unicode_a 4) (view_le 4 unicode_b 4) }
      else if ta = POINTLESS_UNICODE \<and> tb = POINTLESS_STRING then
        do { unicode_a \<leftarrow> cv_get_unicode c va; string_b \<leftarrow> cv_get_string c vb;
             pointless_cmp_string_32_8 (view_le 4 unicode_a 4) (drop 4 string_b) }
      else if ta = POINTLESS_STRING \<and> tb = POINTLESS_UNICODE then
        do { string_a \<leftarrow> cv_get_string c va; unicode_b \<leftarrow> cv_get_unicode c vb;
             pointless_cmp_string_8_32 (drop 4 string_a) (view_le 4 unicode_b 4) }
      else if ta = POINTLESS_STRING \<and> tb = POINTLESS_STRING then
        do { string_a \<leftarrow> cv_get_string c va; string_b \<leftarrow> cv_get_string c vb;
             pointless_cmp_string_8_8 (drop 4 string_a) (drop 4 string_b) }
      else Some 0)"

definition pointless_cmp_create_int_float ::
    "pointless_complete_create_value_t \<Rightarrow> pointless_complete_create_value_t \<Rightarrow> int" where
  "pointless_cmp_create_int_float a b =
     pointless_cmp_int_float (type_29 (cc_header a)) (cc_data a) (type_29 (cc_header b)) (cc_data b)"

definition pointless_cmp_create_bitvector ::
    "pointless_create_t \<Rightarrow> pointless_complete_create_value_t \<Rightarrow> pointless_complete_create_value_t \<Rightarrow>
     int option" where
  "pointless_cmp_create_bitvector c a b =
     (let va = pointless_create_value_from_complete a; vb = pointless_create_value_from_complete b
      in do { buffer_a \<leftarrow> create_buffer_or_null c va;
              buffer_b \<leftarrow> create_buffer_or_null c vb;
              pointless_bitvector_cmp_buffer_buffer (type_29 (cc_header a)) (cr_data va) buffer_a
                (type_29 (cc_header b)) (cr_data vb) buffer_b })"

text \<open>
  Item \<open>i\<close> of a vector of the caller is a number; every other vector is read as one of handles. The
  value for a type that is no vector of numbers keeps the flags of the vector.
\<close>

definition pointless_cmp_vector_value_create ::
    "pointless_create_t \<Rightarrow> pointless_complete_create_value_t \<Rightarrow> nat \<Rightarrow>
     pointless_complete_create_value_t option" where
  "pointless_cmp_vector_value_create c v i =
     (let w = pointless_create_value_from_complete v; t = type_29 (cc_header v) in
      if is_outside_vector (cc_header v) then do {
        vec \<leftarrow> cv_get_outside_vector c w;
        let items = vo_items vec;
        if t = POINTLESS_VECTOR_I8 then
          do { x :: i8 \<leftarrow> read_le 1 items i; Some (pointless_complete_value_create_i32 (scast x)) }
        else if t = POINTLESS_VECTOR_U8 then
          do { x :: u8 \<leftarrow> read_le 1 items i; Some (pointless_complete_value_create_u32 (ucast x)) }
        else if t = POINTLESS_VECTOR_I16 then
          do { x :: i16 \<leftarrow> read_le 2 items (2 * i); Some (pointless_complete_value_create_i32 (scast x)) }
        else if t = POINTLESS_VECTOR_U16 then
          do { x :: u16 \<leftarrow> read_le 2 items (2 * i); Some (pointless_complete_value_create_u32 (ucast x)) }
        else if t = POINTLESS_VECTOR_I32 then
          do { x \<leftarrow> read_u32 items (4 * i); Some (pointless_complete_value_create_i32 x) }
        else if t = POINTLESS_VECTOR_U32 then
          do { x \<leftarrow> read_u32 items (4 * i); Some (pointless_complete_value_create_u32 x) }
        else if t = POINTLESS_VECTOR_I64 then
          do { x \<leftarrow> read_u64 items (8 * i); Some (pointless_complete_value_create_i64 x) }
        else if t = POINTLESS_VECTOR_U64 then
          do { x \<leftarrow> read_u64 items (8 * i); Some (pointless_complete_value_create_u64 x) }
        else if t = POINTLESS_VECTOR_FLOAT then
          do { x \<leftarrow> read_u32 items (4 * i); Some (pointless_complete_value_create_float x) }
        else Some \<lparr>cc_header = (cc_header v)\<lparr>type_29 := POINTLESS_NULL\<rparr>, cc_data = 0\<rparr> }
      else do {
        vec \<leftarrow> cv_get_priv_vector c w;
        vv \<leftarrow> item_value c (vp_data vec) i;
        Some (pointless_create_value_to_complete vv) })"

definition pointless_cmp_create_func :: "u32 \<Rightarrow> cmp_cb option" where
  "pointless_cmp_create_func t =
     (if t \<in> {POINTLESS_UNICODE, POINTLESS_STRING} then Some Cmp_String_Unicode
      else if t \<in> {POINTLESS_I32, POINTLESS_U32, POINTLESS_BOOLEAN, POINTLESS_FLOAT}
        then Some Cmp_Int_Float
      else if t \<in> {POINTLESS_BITVECTOR, POINTLESS_BITVECTOR_0, POINTLESS_BITVECTOR_1,
                   POINTLESS_BITVECTOR_01, POINTLESS_BITVECTOR_10, POINTLESS_BITVECTOR_PACKED}
        then Some Cmp_Bitvector
      else if t = POINTLESS_NULL then Some Cmp_Null
      else if t \<in> {POINTLESS_VECTOR_VALUE, POINTLESS_VECTOR_VALUE_HASHABLE, POINTLESS_VECTOR_I8,
                   POINTLESS_VECTOR_U8, POINTLESS_VECTOR_I16, POINTLESS_VECTOR_U16,
                   POINTLESS_VECTOR_I32, POINTLESS_VECTOR_U32, POINTLESS_VECTOR_I64,
                   POINTLESS_VECTOR_U64, POINTLESS_VECTOR_FLOAT, POINTLESS_VECTOR_EMPTY}
        then Some Cmp_Vector
      else if t = POINTLESS_SET_VALUE then Some Cmp_Set
      else if t = POINTLESS_MAP_VALUE_VALUE then Some Cmp_Map
      else if t = POINTLESS_EMPTY_SLOT then Some Cmp_Empty_Slot
      else None)"

definition create_vector_n_items ::
    "pointless_create_t \<Rightarrow> pointless_complete_create_value_t \<Rightarrow> u32 option" where
  "create_vector_n_items c v =
     (let w = pointless_create_value_from_complete v
      in if is_outside_vector (cc_header v) then map_option vo_n_items (cv_get_outside_vector c w)
         else map_option vp_n_items (cv_get_priv_vector c w))"

text \<open>
  Both comparison functions are looked up by the type of the first value, as the code does it.
\<close>

fun pointless_cmp_create_rec_priv ::
    "nat \<Rightarrow> pointless_create_t \<Rightarrow> pointless_complete_create_value_t \<Rightarrow>
     pointless_complete_create_value_t \<Rightarrow> nat \<Rightarrow> (err + int) option" where
  "pointless_cmp_create_rec_priv 0 c a b depth = None"
| "pointless_cmp_create_rec_priv (Suc fuel) c a b depth =
     (if POINTLESS_MAX_DEPTH \<le> depth
      then Some (Inl ''maximum recursion depth reached during comparison'')
      else
        let cmp_a = pointless_cmp_create_func (type_29 (cc_header a));
            cmp_b = pointless_cmp_create_func (type_29 (cc_header a))
        in if cmp_a \<noteq> cmp_b then Some (Inr (SIMPLE_CMP (type_29 (cc_header a)) (type_29 (cc_header b))))
           else
             (case cmp_a of
                None \<Rightarrow> None
              | Some Cmp_String_Unicode \<Rightarrow> map_option Inr (pointless_cmp_create_string_unicode c a b)
              | Some Cmp_Int_Float \<Rightarrow> Some (Inr (pointless_cmp_create_int_float a b))
              | Some Cmp_Bitvector \<Rightarrow> map_option Inr (pointless_cmp_create_bitvector c a b)
              | Some Cmp_Null \<Rightarrow> Some (Inr 0)
              | Some Cmp_Vector \<Rightarrow>
                  do { n_items_a \<leftarrow> create_vector_n_items c a;
                       n_items_b \<leftarrow> create_vector_n_items c b;
                       let n_items = (if n_items_a < n_items_b then n_items_a else n_items_b);
                       cmp_vector_loop True
                         (\<lambda>i. do { c_a \<leftarrow> pointless_cmp_vector_value_create c a i;
                                   c_b \<leftarrow> pointless_cmp_vector_value_create c b i;
                                   pointless_cmp_create_rec_priv fuel c c_a c_b (depth + 2) })
                         [0..<unat n_items] (SIMPLE_CMP n_items_a n_items_b) }
              | Some Cmp_Set \<Rightarrow> Some (Inl ''set comparison not implemented yet'')
              | Some Cmp_Map \<Rightarrow> Some (Inl ''map comparison not implemented yet'')
              | Some Cmp_Empty_Slot \<Rightarrow> Some (Inr 0)))"

text \<open>As for files, the depth limit allows 257 nested calls.\<close>

definition pointless_cmp_create_rec ::
    "pointless_create_t \<Rightarrow> pointless_complete_create_value_t \<Rightarrow> pointless_complete_create_value_t \<Rightarrow>
     nat \<Rightarrow> (err + int) option" where
  "pointless_cmp_create_rec c a b depth = pointless_cmp_create_rec_priv 257 c a b depth"

definition pointless_cmp_create :: "pointless_create_t \<Rightarrow> u32 \<Rightarrow> u32 \<Rightarrow> (err + int) option" where
  "pointless_cmp_create c a b =
     do { v_a \<leftarrow> cv_value_at c a;
          v_b \<leftarrow> cv_value_at c b;
          pointless_cmp_create_rec c (pointless_create_value_to_complete v_a)
            (pointless_create_value_to_complete v_b) 0 }"

end
