(* ===== verification/Create_Table.thy ===== *)
theory Create_Table
  imports Create_Vectors Create_Compare Hash_Table
begin

text \<open>
  \<open>pointless_hash_table_create\<close> of \<open>src/pointless_create.c\<close>: the hash table of a set or map, computed
  when the file is written and handed to the vectors the set or map owns. \<open>fuel\<close> bounds the nesting of
  the hash calls; \<open>None\<close> also stands for the loop that computes the bucket count not ending.
\<close>

text \<open>
  The array of the items of a dynamic array: null when nothing was ever pushed.
\<close>

definition items_or_null :: "u32 list \<Rightarrow> u32 list option" where
  "items_or_null xs = (if xs = [] then None else Some xs)"

text \<open>The keys and, for a map, the values.\<close>

definition table_items ::
    "pointless_create_t \<Rightarrow> u32 \<Rightarrow> (err + u32 list \<times> u32 list option \<times> bool) option" where
  "table_items c t =
     do { ty \<leftarrow> cv_value_type c t;
          if ty = POINTLESS_SET_VALUE
          then do { s \<leftarrow> cv_set_at c t; Some (Inr (cs_keys s, None, False)) }
          else if ty = POINTLESS_MAP_VALUE_VALUE
          then do { m \<leftarrow> cv_map_at c t; Some (Inr (cm_keys m, items_or_null (cm_values m), True)) }
          else Some (Inl (''pointless_hash_table_create() only support POINTLESS_SET_VALUE and '' @
                          ''POINTLESS_MAP_VALUE_VALUE'')) }"

fun hash_keys_loop ::
    "nat \<Rightarrow> pointless_create_t \<Rightarrow> u32 list \<Rightarrow> nat list \<Rightarrow> (err + u32 list) option" where
  "hash_keys_loop fuel c keys [] = Some (Inr [])"
| "hash_keys_loop fuel c keys (i # is) =
     do { k \<leftarrow> arr_get keys i;
          v \<leftarrow> cv_value_at c k;
          let t = type_29 (cr_header v);
          if \<not> pointless_is_hashable t
          then Some (Inl ''pointless_hash_table_create(): internal error: key not hashable'')
          else if t = POINTLESS_EMPTY_SLOT
          then Some (Inl ''key in set/map is of type POINTLESS_EMPTY_SLOT'')
          else do {
            h \<leftarrow> pointless_hash_create_32 fuel c v;
            r \<leftarrow> hash_keys_loop fuel c keys is;
            Some (map_sum id (Cons h) r) } }"

text \<open>Handing the three arrays over to the vectors of the set or map.\<close>

definition transfer_or :: "err \<Rightarrow> (u32 \<times> pointless_create_t) option \<Rightarrow> (err + pointless_create_t) option" where
  "transfer_or e r =
     do { (h, c) \<leftarrow> r; Some (if h = POINTLESS_CREATE_VALUE_FAIL then Inl e else Inr c) }"

definition transfer_table ::
    "pointless_create_t \<Rightarrow> u32 \<Rightarrow> u32 \<Rightarrow> u32 option \<Rightarrow> u32 \<Rightarrow> hash_table \<Rightarrow>
     (err + pointless_create_t) option" where
  "transfer_table c sh sk sv n_buckets tbl =
     do { r \<leftarrow> transfer_or ''unable to transfer hash_serialize vector''
                 (pointless_create_vector_u32_transfer c sh (hash_serialize tbl) n_buckets);
          (case r of
             Inl e \<Rightarrow> Some (Inl e)
           | Inr c \<Rightarrow> do {
               r \<leftarrow> transfer_or ''unable to transfer keys_serialize vector''
                      (pointless_create_vector_value_transfer c sk (keys_serialize tbl) n_buckets);
               (case r of
                  Inl e \<Rightarrow> Some (Inl e)
                | Inr c \<Rightarrow>
                    (case (sv, values_serialize tbl) of
                       (Some sv, Some vs) \<Rightarrow>
                         transfer_or ''unable to transfer values_serialize_vector''
                           (pointless_create_vector_value_transfer c sv vs n_buckets)
                     | _ \<Rightarrow> Some (Inr c))) }) }"

definition serialize_handles :: "pointless_create_t \<Rightarrow> u32 \<Rightarrow> bool \<Rightarrow> (u32 \<times> u32 \<times> u32 option) option" where
  "serialize_handles c t is_map =
     (if is_map
      then do { m \<leftarrow> cv_map_at c t;
                Some (cm_serialize_hash m, cm_serialize_keys m, Some (cm_serialize_values m)) }
      else do { s \<leftarrow> cv_set_at c t; Some (cs_serialize_hash s, cs_serialize_keys s, None) })"

definition pointless_hash_table_create ::
    "nat \<Rightarrow> pointless_create_t \<Rightarrow> u32 \<Rightarrow> (err + pointless_create_t) option" where
  "pointless_hash_table_create fuel c t =
     do { r \<leftarrow> table_items c t;
          (case r of
             Inl e \<Rightarrow> Some (Inl e)
           | Inr (keys, vals, is_map) \<Rightarrow> do {
               let n_keys = of_nat (length keys);
               n_buckets \<leftarrow> pointless_hash_compute_n_buckets n_keys;
               let (empty_slot_handle, c) = pointless_create_empty_slot c;
               if empty_slot_handle = POINTLESS_CREATE_VALUE_FAIL then Some (Inl ''out of memory D'')
               else do {
                 let empties = replicate (unat n_buckets) empty_slot_handle;
                 hs \<leftarrow> hash_keys_loop fuel c keys [0..<unat n_keys];
                 (case hs of
                    Inl e \<Rightarrow> Some (Inl e)
                  | Inr hash_vector \<Rightarrow> do {
                      r \<leftarrow> pointless_hash_table_populate (pointless_cmp_create c) hash_vector keys vals
                             n_keys
                             \<lparr>hash_serialize = replicate (unat n_buckets) 0, keys_serialize = empties,
                              values_serialize = (if is_map then Some empties else None)\<rparr>
                             n_buckets empty_slot_handle;
                      (case r of
                         Inl e \<Rightarrow> Some (Inl e)
                       | Inr tbl \<Rightarrow> do {
                           (sh, sk, sv) \<leftarrow> serialize_handles c t is_map;
                           transfer_table c sh sk sv n_buckets tbl }) }) } }) }"

end
