(* ===== verification/Create_Cycle.thy ===== *)
theory Create_Cycle
  imports Create_State Cycle_Marker
begin

text \<open>
  The creation half of \<open>src/pointless_cycle_marker_wrappers.c\<close>: the graph of the containers of a
  creation. A node is a 64-bit number: the handle of a value, below the handle of the set or map that
  owns it, \<open>UINT32_MAX\<close> when there is none. The children of a set or map are the vectors it will be
  written with, and the children of those are the keys and values.
\<close>

unbundle bit_operations_syntax

definition unpack_owner :: "u64 \<Rightarrow> u32" where
  "unpack_owner v = ucast (drop_bit 32 v)"

definition unpack_value :: "u64 \<Rightarrow> u32" where
  "unpack_value v = ucast (v AND UINT32_MAX)"

definition pack_owner_and_value :: "u32 \<Rightarrow> u32 \<Rightarrow> u64" where
  "pack_owner_and_value owner val = push_bit 32 (ucast owner) OR ucast val"

lemma unpack_pack [simp]:
  "unpack_owner (pack_owner_and_value ow v) = ow" "unpack_value (pack_owner_and_value ow v) = v"
proof -
  have m: "(UINT32_MAX :: u64) = mask 32" by (simp add: mask_eq_exp_minus_1)
  show "unpack_owner (pack_owner_and_value ow v) = ow"
    by (rule bit_word_eqI)
      (auto simp: unpack_owner_def pack_owner_and_value_def bit_simps dest: bit_imp_le_length)
  show "unpack_value (pack_owner_and_value ow v) = v"
    unfolding unpack_value_def m pack_owner_and_value_def
    by (rule bit_word_eqI) (auto simp: bit_simps)
qed

definition create_n_nodes :: "pointless_create_t \<Rightarrow> u32" where
  "create_n_nodes c = of_nat (length (c_values c))"

definition create_get_root :: "pointless_create_t \<Rightarrow> u64" where
  "create_get_root c = pack_owner_and_value UINT32_MAX (c_root c)"

definition create_is_container :: "pointless_create_t \<Rightarrow> u64 \<Rightarrow> bool option" where
  "create_is_container c v =
     do { x \<leftarrow> cv_value_at c (unpack_value v);
          let t = type_29 (cr_header x);
          Some (t \<in> {POINTLESS_VECTOR_VALUE, POINTLESS_VECTOR_VALUE_HASHABLE} \<and>
                  \<not> is_outside_vector (cr_header x) \<or>
                t \<in> {POINTLESS_SET_VALUE, POINTLESS_MAP_VALUE_VALUE}) }"

definition create_container_id :: "u64 \<Rightarrow> u32" where
  "create_container_id v = unpack_value v"

definition create_n_children :: "pointless_create_t \<Rightarrow> u64 \<Rightarrow> u32 option" where
  "create_n_children c v =
     (let owner = unpack_owner v; val = unpack_value v in
      do { t \<leftarrow> cv_value_type c val;
           if t = POINTLESS_SET_VALUE then Some 2
           else if t = POINTLESS_MAP_VALUE_VALUE then Some 3
           else if owner = UINT32_MAX then map_option vp_n_items (cv_priv_vector_at c val)
           else do {
             ot \<leftarrow> cv_value_type c owner;
             if ot = POINTLESS_SET_VALUE
             then map_option (\<lambda>s. of_nat (length (cs_keys s))) (cv_set_at c owner)
             else if ot = POINTLESS_MAP_VALUE_VALUE
             then map_option (\<lambda>m. of_nat (length (cm_keys m))) (cv_map_at c owner)
             else Some 0 } })"

text \<open>Item \<open>i\<close> of the vector \<open>val\<close> that belongs to a set or map; 0 for its hash vector.\<close>

definition owned_child :: "pointless_create_t \<Rightarrow> u32 \<Rightarrow> u32 \<Rightarrow> u32 \<Rightarrow> u32 option" where
  "owned_child c owner val i =
     do { ot \<leftarrow> cv_value_type c owner;
          if ot = POINTLESS_SET_VALUE
          then do { s \<leftarrow> cv_set_at c owner;
                    if val = cs_serialize_keys s then arr_get (cs_keys s) (unat i) else Some 0 }
          else if ot = POINTLESS_MAP_VALUE_VALUE
          then do { m \<leftarrow> cv_map_at c owner;
                    if val = cm_serialize_keys m then arr_get (cm_keys m) (unat i)
                    else if val = cm_serialize_values m then arr_get (cm_values m) (unat i)
                    else Some 0 }
          else Some 0 }"

definition create_child_at :: "pointless_create_t \<Rightarrow> u64 \<Rightarrow> u32 \<Rightarrow> u64 option" where
  "create_child_at c v i =
     (let owner = unpack_owner v; val = unpack_value v in
      do { t \<leftarrow> cv_value_type c val;
           if t = POINTLESS_SET_VALUE
           then do { s \<leftarrow> cv_set_at c val;
                     Some (pack_owner_and_value val
                             (if i = 0 then cs_serialize_hash s else cs_serialize_keys s)) }
           else if t = POINTLESS_MAP_VALUE_VALUE
           then do { m \<leftarrow> cv_map_at c val;
                     Some (pack_owner_and_value val
                             (if i = 0 then cm_serialize_hash m
                              else if i = 1 then cm_serialize_keys m else cm_serialize_values m)) }
           else if owner = UINT32_MAX
           then do { vec \<leftarrow> cv_priv_vector_at c val;
                     child \<leftarrow> read_u32 (vp_data vec) (4 * unat i);
                     Some (pack_owner_and_value UINT32_MAX child) }
           else do { child \<leftarrow> owned_child c owner val i;
                     Some (if child \<noteq> UINT32_MAX then pack_owner_and_value UINT32_MAX child else 0) } })"

definition create_cycle_info :: "pointless_create_t \<Rightarrow> u64 cycle_marker_info_t" where
  "create_cycle_info c =
     \<lparr>fn_n_nodes = create_n_nodes c, fn_get_root = Some (create_get_root c),
      fn_is_container = create_is_container c, fn_container_id = (\<lambda>v. Some (create_container_id v)),
      fn_n_children = create_n_children c, fn_child_at = create_child_at c\<rparr>"

definition pointless_cycle_marker_create :: "pointless_create_t \<Rightarrow> (err + u8 list) option" where
  "pointless_cycle_marker_create c = pointless_cycle_marker (create_cycle_info c)"

end
