(* ===== verification/Create_Output.thy ===== *)
theory Create_Output
  imports Create_Values Create_Table Create_Cycle
begin

text \<open>
  Writing a creation (\<open>src/pointless_create.c\<close>): the serialisation of every kind of heap data, the
  compression of vectors, and \<open>pointless_create_output_and_end_\<close>, with the two sets of callbacks it is
  called with. \<open>'s\<close> is what the callbacks write to.
\<close>

unbundle bit_operations_syntax

section \<open>Callbacks\<close>

record 's pointless_create_cb_t =
  cb_write :: "u8 list \<Rightarrow> 's \<Rightarrow> err + 's"
  cb_align_4 :: "'s \<Rightarrow> err + 's"

type_synonym 's written = "(err + 's) option"

text \<open>Going on unless the step failed.\<close>

definition and_then :: "('e + 'a) option \<Rightarrow> ('a \<Rightarrow> ('e + 'b) option) \<Rightarrow> ('e + 'b) option" where
  "and_then r f = do { x \<leftarrow> r; (case x of Inl e \<Rightarrow> Some (Inl e) | Inr y \<Rightarrow> f y) }"

lemma and_then_simps [simp]:
  "and_then (Some (Inl e)) f = Some (Inl e)" "and_then (Some (Inr x)) f = f x" "and_then None f = None"
  by (simp_all add: and_then_def)

lemma and_then_Inr_iff:
  "and_then r f = Some (Inr y) \<longleftrightarrow> (\<exists>x. r = Some (Inr x) \<and> f x = Some (Inr y))"
  by (auto simp: and_then_def split: sum.split_asm elim!: bind_eq_Some_E)

text \<open>The bytes of an array, which have to lie inside it.\<close>

definition bytes_at :: "u8 list \<Rightarrow> nat \<Rightarrow> nat \<Rightarrow> u8 list option" where
  "bytes_at buf pos n = (if pos + n \<le> length buf then Some (take n (drop pos buf)) else None)"

definition align_next_4_64 :: "u64 \<Rightarrow> u64" where
  "align_next_4_64 v = v + [0, 3, 2, 1] ! unat (v mod 4)"

definition align_next_4_size_t :: "u64 \<Rightarrow> u64" where
  "align_next_4_size_t v = v + [0, 3, 2, 1] ! unat (v mod 4)"

section \<open>Values\<close>

definition pointless_create_to_read_value ::
    "pointless_create_t \<Rightarrow> u32 \<Rightarrow> u32 \<Rightarrow> pointless_value_t option" where
  "pointless_create_to_read_value c v n_priv_vectors =
     do { x \<leftarrow> cv_value_at c v;
          Some \<lparr>v_type = type_29 (cr_header x),
                v_data = (if is_outside_vector (cr_header x) then cr_data x + n_priv_vectors
                          else cr_data x)\<rparr> }"

definition value_bytes :: "pointless_value_t \<Rightarrow> u8 list" where
  "value_bytes v = le_bytes 4 (v_type v) @ le_bytes 4 (v_data v)"

section \<open>Heap data\<close>

definition pointless_serialize_string :: "'s pointless_create_cb_t \<Rightarrow> u8 list \<Rightarrow> 's \<Rightarrow> 's written" where
  "pointless_serialize_string cb buf s =
     do { len \<leftarrow> read_u32 buf 0;
          chars \<leftarrow> bytes_at buf 4 (unat (len + 1));
          and_then (Some (cb_write cb (le_bytes 4 len) s)) (\<lambda>s.
            and_then (Some (cb_write cb chars s)) (\<lambda>s. Some (cb_align_4 cb s))) }"

definition pointless_serialize_unicode :: "'s pointless_create_cb_t \<Rightarrow> u8 list \<Rightarrow> 's \<Rightarrow> 's written" where
  "pointless_serialize_unicode cb unicode_buffer s =
     do { len \<leftarrow> read_u32 unicode_buffer 0;
          chars \<leftarrow> bytes_at unicode_buffer 4 (unat (len + 1) * 4);
          and_then (Some (cb_write cb (le_bytes 4 len) s)) (\<lambda>s.
            and_then (Some (cb_write cb chars s)) (\<lambda>s. Some (cb_align_4 cb s))) }"

text \<open>The width of the items of a vector of numbers.\<close>

definition number_width :: "u32 \<Rightarrow> nat option" where
  "number_width t =
     (if t \<in> {POINTLESS_VECTOR_I8, POINTLESS_VECTOR_U8} then Some 1
      else if t \<in> {POINTLESS_VECTOR_I16, POINTLESS_VECTOR_U16} then Some 2
      else if t \<in> {POINTLESS_VECTOR_I32, POINTLESS_VECTOR_U32, POINTLESS_VECTOR_FLOAT} then Some 4
      else if t \<in> {POINTLESS_VECTOR_I64, POINTLESS_VECTOR_U64} then Some 8
      else None)"

definition pointless_serialize_vector_outside ::
    "pointless_create_t \<Rightarrow> u32 \<Rightarrow> 's pointless_create_cb_t \<Rightarrow> 's \<Rightarrow> 's written" where
  "pointless_serialize_vector_outside c vector cb s =
     do { vec \<leftarrow> cv_outside_vector_at c vector;
          t \<leftarrow> cv_value_type c vector;
          and_then (Some (cb_write cb (le_bytes 4 (vo_n_items vec)) s)) (\<lambda>s.
            (case number_width t of
               None \<Rightarrow> Some (Inl ''pointless_serialize_vector_outside(): internal error'')
             | Some w_len \<Rightarrow> do {
                 items \<leftarrow> bytes_at (vo_items vec) 0 (w_len * unat (vo_n_items vec));
                 and_then (Some (cb_write cb items s)) (\<lambda>s. Some (cb_align_4 cb s)) })) }"

text \<open>One item of a vector of handles, as a value or as the number the vector was compressed to.\<close>

definition compressed_item :: "u32 \<Rightarrow> pointless_create_value_t \<Rightarrow> u8 list" where
  "compressed_item t x =
     (let n = pointless_create_get_int_as_int64 x in
      if t \<in> {POINTLESS_VECTOR_I8, POINTLESS_VECTOR_U8} then le_bytes 1 (ucast n :: u8)
      else if t \<in> {POINTLESS_VECTOR_I16, POINTLESS_VECTOR_U16} then le_bytes 2 (ucast n :: u16)
      else if t \<in> {POINTLESS_VECTOR_I32, POINTLESS_VECTOR_U32} then le_bytes 4 (ucast n :: u32)
      else if t = POINTLESS_VECTOR_FLOAT then le_bytes 4 (pointless_create_value_get_float x)
      else [])"

definition serialize_item ::
    "pointless_create_t \<Rightarrow> u32 \<Rightarrow> bool \<Rightarrow> u32 \<Rightarrow> u32 \<Rightarrow> u8 list option" where
  "serialize_item c n_priv_vectors compressed t h =
     (if \<not> compressed then map_option value_bytes (pointless_create_to_read_value c h n_priv_vectors)
      else map_option (compressed_item t) (cv_value_at c h))"

text \<open>
  The items of a vector of the library: numbers are written at once, handles one by one.
\<close>

definition write_priv_items ::
    "pointless_create_t \<Rightarrow> pointless_create_value_t \<Rightarrow> pointless_create_vector_priv_t \<Rightarrow>
     's pointless_create_cb_t \<Rightarrow> u32 \<Rightarrow> 's \<Rightarrow> 's written" where
  "write_priv_items c x vec cb n_priv_vectors s =
     (let t = type_29 (cr_header x);
          n_items = vp_n_items vec;
          is_uncompressed = t \<in> {POINTLESS_VECTOR_VALUE, POINTLESS_VECTOR_VALUE_HASHABLE};
          is_compressed = (\<not> is_uncompressed \<and> is_compressed_vector (cr_header x));
          is_native = (\<not> is_uncompressed \<and> \<not> is_compressed)
      in if is_native
         then do { items \<leftarrow> bytes_at (vp_data vec) 0
                              ((case number_width t of None \<Rightarrow> 0 | Some w \<Rightarrow> w) * unat n_items);
                   Some (cb_write cb items s) }
         else for_loop
                (\<lambda>i s. do { h \<leftarrow> read_u32 (vp_data vec) (4 * i);
                            bs \<leftarrow> serialize_item c n_priv_vectors is_compressed t h;
                            Some (cb_write cb bs s) })
                [0..<unat n_items] s)"

definition pointless_serialize_vector_priv ::
    "pointless_create_t \<Rightarrow> u32 \<Rightarrow> 's pointless_create_cb_t \<Rightarrow> u32 \<Rightarrow> 's \<Rightarrow> 's written" where
  "pointless_serialize_vector_priv c vector cb n_priv_vectors s =
     do { vec \<leftarrow> cv_priv_vector_at c vector;
          x \<leftarrow> cv_value_at c vector;
          and_then (Some (cb_write cb (le_bytes 4 (vp_n_items vec)) s)) (\<lambda>s.
            and_then (write_priv_items c x vec cb n_priv_vectors s) (\<lambda>s. Some (cb_align_4 cb s))) }"

definition pointless_serialize_bitvector :: "'s pointless_create_cb_t \<Rightarrow> u8 list \<Rightarrow> 's \<Rightarrow> 's written" where
  "pointless_serialize_bitvector cb bitvector_buffer s =
     do { len \<leftarrow> read_u32 bitvector_buffer 0;
          bits \<leftarrow> bytes_at bitvector_buffer 4 (unat (ICEIL len 8));
          and_then (Some (cb_write cb (le_bytes 4 len) s)) (\<lambda>s.
            and_then (Some (cb_write cb bits s)) (\<lambda>s. Some (cb_align_4 cb s))) }"

definition set_header_bytes :: "pointless_set_header_t \<Rightarrow> u8 list" where
  "set_header_bytes h = le_bytes 4 (sh_n_items h) @ le_bytes 4 (sh_padding h) @
     value_bytes (sh_hash_vector h) @ value_bytes (sh_key_vector h)"

definition map_header_bytes :: "pointless_map_header_t \<Rightarrow> u8 list" where
  "map_header_bytes h = le_bytes 4 (mh_n_items h) @ le_bytes 4 (mh_padding h) @
     value_bytes (mh_hash_vector h) @ value_bytes (mh_key_vector h) @ value_bytes (mh_value_vector h)"

definition pointless_serialize_set ::
    "'s pointless_create_cb_t \<Rightarrow> pointless_create_t \<Rightarrow> u32 \<Rightarrow> u32 \<Rightarrow> 's \<Rightarrow> 's written" where
  "pointless_serialize_set cb c v n_priv_vectors s =
     do { set \<leftarrow> cv_set_at c v;
          hv \<leftarrow> pointless_create_to_read_value c (cs_serialize_hash set) n_priv_vectors;
          kv \<leftarrow> pointless_create_to_read_value c (cs_serialize_keys set) n_priv_vectors;
          and_then
            (Some (cb_write cb (set_header_bytes
               \<lparr>sh_n_items = of_nat (length (cs_keys set)), sh_padding = 0, sh_hash_vector = hv,
                sh_key_vector = kv\<rparr>) s))
            (\<lambda>s. Some (cb_align_4 cb s)) }"

definition pointless_serialize_map ::
    "'s pointless_create_cb_t \<Rightarrow> pointless_create_t \<Rightarrow> u32 \<Rightarrow> u32 \<Rightarrow> 's \<Rightarrow> 's written" where
  "pointless_serialize_map cb c v n_priv_vectors s =
     do { map \<leftarrow> cv_map_at c v;
          hv \<leftarrow> pointless_create_to_read_value c (cm_serialize_hash map) n_priv_vectors;
          kv \<leftarrow> pointless_create_to_read_value c (cm_serialize_keys map) n_priv_vectors;
          vv \<leftarrow> pointless_create_to_read_value c (cm_serialize_values map) n_priv_vectors;
          and_then
            (Some (cb_write cb (map_header_bytes
               \<lparr>mh_n_items = of_nat (length (cm_keys map)), mh_padding = 0, mh_hash_vector = hv,
                mh_key_vector = kv, mh_value_vector = vv\<rparr>) s))
            (\<lambda>s. Some (cb_align_4 cb s)) }"

section \<open>Compression of vectors\<close>

text \<open>
  What the items looked at so far are: integers of a range, or floats. The inner \<open>None\<close> stands for
  leaving the loop early.
\<close>

datatype found = Nothing_yet | Ints int int | Floats

fun compression_scan ::
    "pointless_create_t \<Rightarrow> u8 list \<Rightarrow> nat list \<Rightarrow> found \<Rightarrow> found option option" where
  "compression_scan c items [] fd = Some (Some fd)"
| "compression_scan c items (i # is) fd =
     do { h \<leftarrow> read_u32 items (4 * i);
          x \<leftarrow> cv_value_at c h;
          let t = type_29 (cr_header x);
          if t = POINTLESS_FLOAT
          then (case fd of Ints _ _ \<Rightarrow> Some None | _ \<Rightarrow> compression_scan c items is Floats)
          else if t \<in> {POINTLESS_I32, POINTLESS_U32}
          then let cur_int = (if t = POINTLESS_I32 then sint (pointless_create_value_get_i32 x)
                              else uint (pointless_create_value_get_u32 x))
               in (case fd of
                     Floats \<Rightarrow> Some None
                   | Nothing_yet \<Rightarrow> compression_scan c items is (Ints cur_int cur_int)
                   | Ints min_int max_int \<Rightarrow>
                       compression_scan c items is
                         (Ints (SIMPLE_MIN min_int cur_int) (SIMPLE_MAX max_int cur_int)))
          else Some None }"

definition compression_of_range :: "int \<Rightarrow> int \<Rightarrow> u32" where
  "compression_of_range min_int max_int =
     (if min_int \<ge> 0 \<and> max_int \<le> 255 then POINTLESS_VECTOR_U8
      else if min_int \<ge> 0 \<and> max_int \<le> 65535 then POINTLESS_VECTOR_U16
      else if min_int \<ge> 0 \<and> max_int \<le> 4294967295 then POINTLESS_VECTOR_U32
      else if -128 \<le> min_int \<and> max_int \<le> 127 then POINTLESS_VECTOR_I8
      else if -32768 \<le> min_int \<and> max_int \<le> 32767 then POINTLESS_VECTOR_I16
      else if -2147483648 \<le> min_int \<and> max_int \<le> 2147483647 then POINTLESS_VECTOR_I32
      else 0)"

definition pointless_create_vector_compression :: "pointless_create_t \<Rightarrow> u32 \<Rightarrow> u32 option" where
  "pointless_create_vector_compression c vector =
     do { compression \<leftarrow> cv_value_type c vector;
          vec \<leftarrow> cv_priv_vector_at c vector;
          r \<leftarrow> compression_scan c (vp_data vec) [0..<length (vp_items vec)] Nothing_yet;
          Some (case r of
                  None \<Rightarrow> compression
                | Some Floats \<Rightarrow> POINTLESS_VECTOR_FLOAT
                | Some Nothing_yet \<Rightarrow> compression_of_range 0 0
                | Some (Ints min_int max_int) \<Rightarrow> compression_of_range min_int max_int) }"

section \<open>The passes before writing\<close>

text \<open>
  The first pass numbers the vectors, sets and maps that will be written and turns empty vectors into
  values of their own; the vectors of sets and maps are kept even when they are empty.
\<close>

record count_state =
  ct_create :: pointless_create_t
  ct_new_priv :: "pointless_create_vector_priv_t list"
  ct_n_priv :: u32
  ct_n_outside :: u32
  ct_n_sets :: u32
  ct_n_maps :: u32

definition upd_at ::
    "pointless_create_t \<Rightarrow> nat \<Rightarrow> (pointless_create_value_t \<Rightarrow> pointless_create_value_t) \<Rightarrow>
     pointless_create_t option" where
  "upd_at c i f = upd_value c (of_nat i) f"

definition count_value :: "nat \<Rightarrow> count_state \<Rightarrow> (err + count_state) option" where
  "count_value i st =
     (let c = ct_create st in
      do { x \<leftarrow> cv_value_at c (of_nat i);
           let t = type_29 (cr_header x);
           if t = POINTLESS_VECTOR_VALUE \<or> number_width t \<noteq> None
           then if is_outside_vector (cr_header x)
                then Some (Inr (st\<lparr>ct_n_outside := ct_n_outside st + 1\<rparr>))
                else do {
                  vec \<leftarrow> cv_get_priv_vector c x;
                  if vp_items vec = [] \<and> \<not> is_set_map_vector (cr_header x)
                  then do { c' \<leftarrow> upd_at c i
                              (\<lambda>x. x\<lparr>cr_header := (cr_header x)\<lparr>type_29 := POINTLESS_VECTOR_EMPTY\<rparr>,
                                     cr_data := 0\<rparr>);
                            Some (Inr (st\<lparr>ct_create := c'\<rparr>)) }
                  else do { c' \<leftarrow> upd_at c i (\<lambda>x. x\<lparr>cr_data := ct_n_priv st\<rparr>);
                            Some (Inr (st\<lparr>ct_create := c', ct_new_priv := ct_new_priv st @ [vec],
                                          ct_n_priv := ct_n_priv st + 1\<rparr>)) } }
           else if t = POINTLESS_SET_VALUE
           then do { c' \<leftarrow> upd_at c i (\<lambda>x. x\<lparr>cr_data := ct_n_sets st\<rparr>);
                     Some (Inr (st\<lparr>ct_create := c', ct_n_sets := ct_n_sets st + 1\<rparr>)) }
           else if t = POINTLESS_MAP_VALUE_VALUE
           then do { c' \<leftarrow> upd_at c i (\<lambda>x. x\<lparr>cr_data := ct_n_maps st\<rparr>);
                     Some (Inr (st\<lparr>ct_create := c', ct_n_maps := ct_n_maps st + 1\<rparr>)) }
           else Some (Inr st) })"

text \<open>The vectors of values the cycle marker has not marked become hashable.\<close>

definition mark_hashable ::
    "u8 list \<Rightarrow> nat \<Rightarrow> pointless_create_t \<Rightarrow> (err + pointless_create_t) option" where
  "mark_hashable marker i c =
     do { x \<leftarrow> cv_value_at c (of_nat i);
          if type_29 (cr_header x) = POINTLESS_VECTOR_VALUE \<and> \<not> is_outside_vector (cr_header x)
          then do { b \<leftarrow> bm_is_set marker (of_nat i);
                    if b = 0
                    then map_option Inr (upd_at c i
                           (\<lambda>x. x\<lparr>cr_header := (cr_header x)\<lparr>type_29 := POINTLESS_VECTOR_VALUE_HASHABLE\<rparr>\<rparr>))
                    else Some (Inr c) }
          else Some (Inr c) }"

definition compress_vector :: "nat \<Rightarrow> pointless_create_t \<Rightarrow> (err + pointless_create_t) option" where
  "compress_vector i c =
     do { x \<leftarrow> cv_value_at c (of_nat i);
          if type_29 (cr_header x) \<in> {POINTLESS_VECTOR_VALUE, POINTLESS_VECTOR_VALUE_HASHABLE} \<and>
             \<not> is_outside_vector (cr_header x) \<and> \<not> is_set_map_vector (cr_header x)
          then do { t \<leftarrow> pointless_create_vector_compression c (of_nat i);
                    map_option Inr (upd_at c i
                      (\<lambda>x. x\<lparr>cr_header := (cr_header x)\<lparr>type_29 := t,
                               is_compressed_vector :=
                                 (if t \<notin> {POINTLESS_VECTOR_VALUE, POINTLESS_VECTOR_VALUE_HASHABLE}
                                  then True else is_compressed_vector (cr_header x))\<rparr>\<rparr>)) }
          else Some (Inr c) }"

text \<open>Computing the hash tables of the values of one type.\<close>

definition create_tables ::
    "nat \<Rightarrow> u32 \<Rightarrow> nat \<Rightarrow> pointless_create_t \<Rightarrow> (err + pointless_create_t) option" where
  "create_tables fuel ty i c =
     do { t \<leftarrow> cv_value_type c (of_nat i);
          if t = ty then pointless_hash_table_create fuel c (of_nat i) else Some (Inr c) }"

section \<open>The header and the offsets\<close>

definition header_bytes :: "pointless_header_t \<Rightarrow> u8 list" where
  "header_bytes h = value_bytes (root h) @ le_bytes 4 (n_string_unicode h) @ le_bytes 4 (n_vector h) @
     le_bytes 4 (n_bitvector h) @ le_bytes 4 (n_set h) @ le_bytes 4 (n_map h) @ le_bytes 4 (version h)"

text \<open>\<open>PC_WRITE_OFFSET\<close>, \<open>PC_INCREMENT_OFFSET\<close> and \<open>PC_ALIGN_OFFSET\<close>.\<close>

definition write_offset ::
    "'s pointless_create_cb_t \<Rightarrow> u64 \<Rightarrow> 's \<times> u64 \<Rightarrow> (err + 's \<times> u64) option" where
  "write_offset cb heap_size su =
     (case su of (s, current_offset) \<Rightarrow>
        and_then (Some (cb_write cb (le_bytes 8 current_offset) s)) (\<lambda>s.
          Some (Inr (s, align_next_4_64 (current_offset + heap_size)))))"

definition string_heap_size :: "pointless_create_t \<Rightarrow> pointless_create_value_t \<Rightarrow> u64 option" where
  "string_heap_size c x =
     (if type_29 (cr_header x) = POINTLESS_UNICODE
      then do { buffer \<leftarrow> cv_get_unicode c x; len \<leftarrow> read_u32 buffer 0;
                Some (4 + ucast (len + 1) * 4) }
      else do { buffer \<leftarrow> cv_get_string c x; len \<leftarrow> read_u32 buffer 0;
                Some (4 + ucast (len + 1) * 1) })"

text \<open>The size of a vector is kept in 32 bits.\<close>

definition vector_heap_size :: "u32 \<Rightarrow> u32 \<Rightarrow> u32" where
  "vector_heap_size t n_items =
     (if t \<in> {POINTLESS_VECTOR_VALUE, POINTLESS_VECTOR_VALUE_HASHABLE}
      then ucast (4 + (ucast n_items :: u64) * 8)
      else (case number_width t of
              Some w \<Rightarrow> ucast (4 + (ucast n_items :: u64) * of_nat w)
            | None \<Rightarrow> 0))"

definition bitvector_heap_size :: "pointless_create_t \<Rightarrow> pointless_create_value_t \<Rightarrow> u64 option" where
  "bitvector_heap_size c x =
     do { buffer \<leftarrow> cv_get_bitvector c x; len \<leftarrow> read_u32 buffer 0; Some (4 + ucast (ICEIL len 8)) }"

text \<open>
  The six kinds of heap data, in the order they are written, with the values each holds.
\<close>

datatype heap_kind = Heap_String | Heap_Priv_Vector | Heap_Outside_Vector | Heap_Bitvector | Heap_Set | Heap_Map

definition offset_kind :: "heap_kind \<Rightarrow> pointless_create_value_t \<Rightarrow> bool" where
  "offset_kind k x =
     (let t = type_29 (cr_header x) in
      (case k of
         Heap_String \<Rightarrow> t \<in> {POINTLESS_UNICODE, POINTLESS_STRING}
       | Heap_Priv_Vector \<Rightarrow>
           pointless_is_vector_type t \<and> \<not> is_outside_vector (cr_header x) \<and> t \<noteq> POINTLESS_VECTOR_EMPTY
       | Heap_Outside_Vector \<Rightarrow>
           pointless_is_vector_type t \<and> is_outside_vector (cr_header x) \<and> t \<noteq> POINTLESS_VECTOR_EMPTY
       | Heap_Bitvector \<Rightarrow> t = POINTLESS_BITVECTOR
       | Heap_Set \<Rightarrow> t = POINTLESS_SET_VALUE
       | Heap_Map \<Rightarrow> t = POINTLESS_MAP_VALUE_VALUE))"

text \<open>The size an outside vector of values would be given is 0, as the default of the switch.\<close>

definition heap_size :: "heap_kind \<Rightarrow> pointless_create_t \<Rightarrow> pointless_create_value_t \<Rightarrow> u64 option" where
  "heap_size k c x =
     (case k of
        Heap_String \<Rightarrow> string_heap_size c x
      | Heap_Priv_Vector \<Rightarrow>
          do { vec \<leftarrow> cv_get_priv_vector c x;
               Some (ucast (vector_heap_size (type_29 (cr_header x)) (vp_n_items vec))) }
      | Heap_Outside_Vector \<Rightarrow>
          do { vec \<leftarrow> cv_get_outside_vector c x;
               Some (case number_width (type_29 (cr_header x)) of
                       None \<Rightarrow> 0
                     | Some _ \<Rightarrow> ucast (vector_heap_size (type_29 (cr_header x)) (vo_n_items vec))) }
      | Heap_Bitvector \<Rightarrow> bitvector_heap_size c x
      | Heap_Set \<Rightarrow> Some 24
      | Heap_Map \<Rightarrow> Some 32)"

definition write_offsets ::
    "'s pointless_create_cb_t \<Rightarrow> pointless_create_t \<Rightarrow> heap_kind \<Rightarrow> nat list \<Rightarrow> 's \<times> u64 \<Rightarrow>
     (err + 's \<times> u64) option" where
  "write_offsets cb c k =
     for_loop (\<lambda>i su.
       do { x \<leftarrow> cv_value_at c (of_nat i);
            if offset_kind k x
            then do { n \<leftarrow> heap_size k c x; write_offset cb n su }
            else Some (Inr su) })"

section \<open>The heap\<close>

definition heap_data_kind :: "heap_kind \<Rightarrow> pointless_create_value_t \<Rightarrow> bool" where
  "heap_data_kind k x =
     (let t = type_29 (cr_header x) in
      (case k of
         Heap_String \<Rightarrow> t \<in> {POINTLESS_UNICODE, POINTLESS_STRING}
       | Heap_Priv_Vector \<Rightarrow>
           t \<in> {POINTLESS_VECTOR_VALUE, POINTLESS_VECTOR_VALUE_HASHABLE} \<or>
           number_width t \<noteq> None \<and> \<not> is_outside_vector (cr_header x)
       | Heap_Outside_Vector \<Rightarrow> number_width t \<noteq> None \<and> is_outside_vector (cr_header x)
       | Heap_Bitvector \<Rightarrow> t = POINTLESS_BITVECTOR
       | Heap_Set \<Rightarrow> t = POINTLESS_SET_VALUE
       | Heap_Map \<Rightarrow> t = POINTLESS_MAP_VALUE_VALUE))"

definition serialize_value ::
    "'s pointless_create_cb_t \<Rightarrow> pointless_create_t \<Rightarrow> u32 \<Rightarrow> heap_kind \<Rightarrow> u32 \<Rightarrow>
     pointless_create_value_t \<Rightarrow> 's \<Rightarrow> 's written" where
  "serialize_value cb c n_priv_vectors k v x s =
     (case k of
        Heap_String \<Rightarrow>
          if type_29 (cr_header x) = POINTLESS_UNICODE
          then do { buffer \<leftarrow> cv_get_unicode c x; pointless_serialize_unicode cb buffer s }
          else do { buffer \<leftarrow> cv_get_string c x; pointless_serialize_string cb buffer s }
      | Heap_Priv_Vector \<Rightarrow> pointless_serialize_vector_priv c v cb n_priv_vectors s
      | Heap_Outside_Vector \<Rightarrow> pointless_serialize_vector_outside c v cb s
      | Heap_Bitvector \<Rightarrow>
          do { buffer \<leftarrow> cv_get_bitvector c x; pointless_serialize_bitvector cb buffer s }
      | Heap_Set \<Rightarrow> pointless_serialize_set cb c v n_priv_vectors s
      | Heap_Map \<Rightarrow> pointless_serialize_map cb c v n_priv_vectors s)"

definition write_heap ::
    "'s pointless_create_cb_t \<Rightarrow> pointless_create_t \<Rightarrow> u32 \<Rightarrow> heap_kind \<Rightarrow> nat list \<Rightarrow> 's \<Rightarrow> 's written" where
  "write_heap cb c n_priv_vectors k =
     for_loop (\<lambda>i s.
       do { x \<leftarrow> cv_value_at c (of_nat i);
            if heap_data_kind k x then serialize_value cb c n_priv_vectors k (of_nat i) x s
            else Some (Inr s) })"

section \<open>The output\<close>

definition heap_kinds :: "heap_kind list" where
  "heap_kinds = [Heap_String, Heap_Priv_Vector, Heap_Outside_Vector, Heap_Bitvector, Heap_Set, Heap_Map]"

text \<open>Everything before the first byte is written: the state to write and the numbers of the header.\<close>

definition prepare_output :: "nat \<Rightarrow> pointless_create_t \<Rightarrow> (err + count_state) option" where
  "prepare_output fuel c =
     (if c_root c = UINT32_MAX then Some (Inl ''root has not been set'')
      else
        let is = [0..<unat (of_nat (length (c_values c)) :: u32)] in
        and_then (for_loop count_value is
                    \<lparr>ct_create = c, ct_new_priv = [], ct_n_priv = 0, ct_n_outside = 0, ct_n_sets = 0,
                     ct_n_maps = 0\<rparr>)
          (\<lambda>st. let c = (ct_create st)\<lparr>priv_vector_values := ct_new_priv st\<rparr> in
            and_then (pointless_cycle_marker_create c) (\<lambda>marker.
            and_then (for_loop (mark_hashable marker) is c) (\<lambda>c.
            and_then (for_loop compress_vector is c) (\<lambda>c.
            and_then (for_loop (create_tables fuel POINTLESS_SET_VALUE) is c) (\<lambda>c.
            and_then (for_loop (create_tables fuel POINTLESS_MAP_VALUE_VALUE) is c) (\<lambda>c.
            Some (Inr (st\<lparr>ct_create := c\<rparr>)))))))))"

definition output_header :: "count_state \<Rightarrow> pointless_header_t option" where
  "output_header st =
     (let c = ct_create st in
      do { r \<leftarrow> pointless_create_to_read_value c (c_root c) (ct_n_priv st);
           Some \<lparr>root = r, n_string_unicode = string_unicode_map_judy_count c,
                 n_vector = ct_n_priv st + ct_n_outside st, n_bitvector = bitvector_map_judy_count c,
                 n_set = ct_n_sets st, n_map = ct_n_maps st, version = c_version c\<rparr> })"

text \<open>\<open>is\<close> are the values there were before the tables added theirs.\<close>

definition write_output ::
    "count_state \<Rightarrow> nat list \<Rightarrow> 's pointless_create_cb_t \<Rightarrow> 's \<Rightarrow> 's written" where
  "write_output st is cb s =
     (let c = ct_create st in
      do { h \<leftarrow> output_header st;
           and_then (Some (cb_write cb (header_bytes h) s)) (\<lambda>s.
           and_then (for_loop (\<lambda>k su. write_offsets cb c k is su) heap_kinds (s, 0)) (\<lambda>(s, _).
           for_loop (\<lambda>k s. write_heap cb c (ct_n_priv st) k is s) heap_kinds s)) })"

text \<open>
  \<open>fuel\<close> bounds the nesting of hash calls. The creation is over afterwards, whatever the result.
\<close>

definition create_output_and_end ::
    "nat \<Rightarrow> pointless_create_t \<Rightarrow> 's pointless_create_cb_t \<Rightarrow> 's \<Rightarrow> 's written" where
  "create_output_and_end fuel c cb s =
     (if c_version c \<noteq> POINTLESS_FF_VERSION_OFFSET_64_NEWHASH then Some (Inl ''unsupported version'')
      else and_then (prepare_output fuel c) (\<lambda>st.
             write_output st [0..<unat (of_nat (length (c_values c)) :: u32)] cb s))"

section \<open>Writing to a buffer\<close>

text \<open>
  The buffer is a dynamic array of bytes. Pushing fails when the allocator refuses, which it does at
  the latest when the array would not be smaller than \<open>PTRDIFF_MAX\<close>.
\<close>

definition push_bytes :: "u8 list \<Rightarrow> u8 list \<Rightarrow> u8 list option" where
  "push_bytes a bs = (if length a + length bs < 2 ^ 63 then Some (a @ bs) else None)"

definition dynarray_write :: "u8 list \<Rightarrow> u8 list \<Rightarrow> err + u8 list" where
  "dynarray_write buf a =
     (case push_bytes a buf of None \<Rightarrow> Inl ''out of memory'' | Some a' \<Rightarrow> Inr a')"

definition dynarray_align_4 :: "u8 list \<Rightarrow> err + u8 list" where
  "dynarray_align_4 a =
     (let n = of_nat (length a);
          zeros = replicate (unat (align_next_4_size_t n) - unat n) 0
      in case push_bytes a zeros of None \<Rightarrow> Inl ''out of memory'' | Some a' \<Rightarrow> Inr a')"

definition pointless_create_output_and_end_b ::
    "nat \<Rightarrow> pointless_create_t \<Rightarrow> (err + u8 list) option" where
  "pointless_create_output_and_end_b fuel c =
     create_output_and_end fuel c \<lparr>cb_write = dynarray_write, cb_align_4 = dynarray_align_4\<rparr> []"

section \<open>Writing to a file\<close>

text \<open>
  The library calls are arguments: \<open>fwrite\<close> appends to a file or fails, \<open>ftell\<close> answers the position, -1
  on failure.
\<close>

definition file_align_4 :: "(u8 list \<Rightarrow> 'f \<Rightarrow> 'f option) \<Rightarrow> ('f \<Rightarrow> int) \<Rightarrow> 'f \<Rightarrow> err + 'f" where
  "file_align_4 fwrite ftell f =
     (let pos = ftell f in
      if pos = -1 then Inl ''ftell() failure''
      else if pos mod 4 = 0 then Inr f
      else (case fwrite (take (nat (4 - pos mod 4)) (le_bytes 4 (0 :: u32))) f of
              None \<Rightarrow> Inl ''fwrite() failure A''
            | Some f' \<Rightarrow> Inr f'))"

definition file_write :: "(u8 list \<Rightarrow> 'f \<Rightarrow> 'f option) \<Rightarrow> u8 list \<Rightarrow> 'f \<Rightarrow> err + 'f" where
  "file_write fwrite buf f =
     (if buf = [] then Inr f
      else (case fwrite buf f of None \<Rightarrow> Inl ''fwrite() failure B'' | Some f' \<Rightarrow> Inr f'))"

end
