(* ===== verification/Create_Laws.thy ===== *)
theory Create_Laws
  imports Create_Output
begin

text \<open>
  The invariant of a creation. Every kind of heap data has its own array, and the values of that kind
  are numbered by their position in it in the order of their creation; the reachable states are those
  the creation functions produce under the conditions their asserts state.
\<close>

section \<open>The invariant\<close>

definition table_length :: "heap_kind \<Rightarrow> pointless_create_t \<Rightarrow> nat" where
  "table_length k c =
     (case k of
        Heap_String \<Rightarrow> length (string_unicode_values c)
      | Heap_Priv_Vector \<Rightarrow> length (priv_vector_values c)
      | Heap_Outside_Vector \<Rightarrow> length (outside_vector_values c)
      | Heap_Bitvector \<Rightarrow> length (bitvector_values c)
      | Heap_Set \<Rightarrow> length (set_values c)
      | Heap_Map \<Rightarrow> length (map_values c))"

definition numbered :: "pointless_create_t \<Rightarrow> bool" where
  "numbered c \<longleftrightarrow>
     (\<forall>k. map cr_data (filter (offset_kind k) (c_values c)) = map of_nat [0..<table_length k c])"

text \<open>The width of the items of a vector of the library.\<close>

definition item_width :: "u32 \<Rightarrow> nat option" where
  "item_width t = (if t = POINTLESS_VECTOR_VALUE then Some 4 else number_width t)"

definition value_ok :: "pointless_create_t \<Rightarrow> pointless_create_value_t \<Rightarrow> bool" where
  "value_ok c x \<longleftrightarrow>
     (is_outside_vector (cr_header x) \<longrightarrow> number_width (type_29 (cr_header x)) \<noteq> None) \<and>
     \<not> is_compressed_vector (cr_header x) \<and>
     type_29 (cr_header x) \<noteq> POINTLESS_VECTOR_VALUE_HASHABLE \<and>
     (offset_kind Heap_Priv_Vector x \<longrightarrow>
        (\<exists>vec. cv_get_priv_vector c x = Some vec \<and>
               item_width (type_29 (cr_header x)) = Some (vp_item_size vec)))"

definition create_wf :: "pointless_create_t \<Rightarrow> bool" where
  "create_wf c \<longleftrightarrow> numbered c \<and> (\<forall>x \<in> set (c_values c). value_ok c x) \<and>
     string_unicode_map_judy_count c = of_nat (length (string_unicode_values c)) \<and>
     bitvector_map_judy_count c = of_nat (length (bitvector_values c))"

lemma create_wfI:
  "numbered c \<Longrightarrow> (\<And>x. x \<in> set (c_values c) \<Longrightarrow> value_ok c x) \<Longrightarrow>
   string_unicode_map_judy_count c = of_nat (length (string_unicode_values c)) \<Longrightarrow>
   bitvector_map_judy_count c = of_nat (length (bitvector_values c)) \<Longrightarrow> create_wf c"
  by (simp add: create_wf_def)

lemma create_wfD:
  assumes "create_wf c"
  shows "numbered c" "x \<in> set (c_values c) \<Longrightarrow> value_ok c x"
    "string_unicode_map_judy_count c = of_nat (length (string_unicode_values c))"
    "bitvector_map_judy_count c = of_nat (length (bitvector_values c))"
  using assms by (simp_all add: create_wf_def)

section \<open>Kinds\<close>

lemmas kind_defs = offset_kind_def Let_def pointless_is_vector_type_def number_width_def mk_header_def

lemma offset_kind_disjoint: "offset_kind k x \<Longrightarrow> offset_kind k' x \<Longrightarrow> k' = k"
  by (cases k; cases k') (auto simp: offset_kind_def Let_def pointless_is_vector_type_def)

text \<open>The kind depends on the type and on who owns the vector.\<close>

lemma offset_kind_cong:
  "type_29 (cr_header x) = type_29 (cr_header y) \<Longrightarrow>
   is_outside_vector (cr_header x) = is_outside_vector (cr_header y) \<Longrightarrow> offset_kind k x = offset_kind k y"
  by (cases k) (simp_all add: offset_kind_def)

lemma numbered_push:
  assumes "numbered c" and "c_values c' = c_values c @ [x]"
    and "\<And>k. table_length k c' = (if offset_kind k x then Suc (table_length k c) else table_length k c)"
    and "\<And>k. offset_kind k x \<Longrightarrow> cr_data x = of_nat (table_length k c)"
  shows "numbered c'"
  using assms by (auto simp: numbered_def)

text \<open>A value that is no heap data.\<close>

lemma numbered_inline:
  assumes "numbered c" and "\<And>k. \<not> offset_kind k x"
  shows "numbered (c\<lparr>c_values := c_values c @ [x]\<rparr>)"
proof (rule numbered_push [OF assms(1)])
  fix k
  show "table_length k (c\<lparr>c_values := c_values c @ [x]\<rparr>) =
      (if offset_kind k x then Suc (table_length k c) else table_length k c)"
    using assms(2) by (cases k) (simp_all add: table_length_def)
qed (use assms(2) in simp_all)

lemma numbered_same:
  assumes "numbered c" and "map (\<lambda>x. (type_29 (cr_header x), is_outside_vector (cr_header x), cr_data x)) (c_values c') =
      map (\<lambda>x. (type_29 (cr_header x), is_outside_vector (cr_header x), cr_data x)) (c_values c)"
    and "\<And>k. table_length k c' = table_length k c"
  shows "numbered c'"
proof -
  have "map cr_data (filter (offset_kind k) xs) = map cr_data (filter (offset_kind k) ys)"
    if "map (\<lambda>x. (type_29 (cr_header x), is_outside_vector (cr_header x), cr_data x)) xs =
      map (\<lambda>x. (type_29 (cr_header x), is_outside_vector (cr_header x), cr_data x)) ys" for k xs ys
    using that
  proof (induction xs arbitrary: ys)
    case (Cons x xs)
    then obtain y ys' where "ys = y # ys'" by (cases ys) auto
    with Cons offset_kind_cong [of x y k] show ?case by simp
  qed simp
  from this [OF assms(2)] assms(1,3) show ?thesis by (simp add: numbered_def)
qed

text \<open>What a value needs of the state is its vector.\<close>

lemma value_ok_mono:
  assumes "value_ok c x"
    and "\<And>vec. cv_get_priv_vector c x = Some vec \<Longrightarrow>
      \<exists>vec'. cv_get_priv_vector c' x = Some vec' \<and> vp_item_size vec' = vp_item_size vec"
  shows "value_ok c' x"
  using assms unfolding value_ok_def by fastforce

lemma cv_get_priv_vector_append:
  "priv_vector_values c' = priv_vector_values c @ vs \<Longrightarrow> cv_get_priv_vector c x = Some vec \<Longrightarrow>
   cv_get_priv_vector c' x = Some vec"
  by (auto simp: cv_get_priv_vector_def arr_get_def nth_append split: if_split_asm)

lemma wf_push:
  assumes "create_wf c" and "c_values c' = c_values c @ [x]"
    and "priv_vector_values c' = priv_vector_values c @ vs"
    and "\<And>k. table_length k c' = (if offset_kind k x then Suc (table_length k c) else table_length k c)"
    and "\<And>k. offset_kind k x \<Longrightarrow> cr_data x = of_nat (table_length k c)" and "value_ok c' x"
    and "string_unicode_map_judy_count c' = of_nat (length (string_unicode_values c'))"
    and "bitvector_map_judy_count c' = of_nat (length (bitvector_values c'))"
  shows "create_wf c'"
proof (rule create_wfI)
  show "numbered c'" by (rule numbered_push [OF create_wfD(1) [OF assms(1)] assms(2,4,5)])
  fix y assume "y \<in> set (c_values c')"
  moreover have "value_ok c' y" if "y \<in> set (c_values c)"
    by (rule value_ok_mono [OF create_wfD(2) [OF assms(1) that]])
      (use cv_get_priv_vector_append [OF assms(3)] in blast)
  ultimately show "value_ok c' y" using assms(2,6) by auto
qed (fact assms)+

lemma wf_push_inline:
  assumes "create_wf c" and "\<And>k. \<not> offset_kind k x" and "\<not> is_outside_vector (cr_header x)"
    and "\<not> is_compressed_vector (cr_header x)" and "type_29 (cr_header x) \<noteq> POINTLESS_VECTOR_VALUE_HASHABLE"
  shows "create_wf (c\<lparr>c_values := c_values c @ [x]\<rparr>)"
proof (rule wf_push [OF assms(1), of _ x "[]"])
  fix k
  show "table_length k (c\<lparr>c_values := c_values c @ [x]\<rparr>) =
      (if offset_kind k x then Suc (table_length k c) else table_length k c)"
    using assms(2) by (cases k) (simp_all add: table_length_def)
qed (use assms(2-) create_wfD(3,4) [OF assms(1)] in \<open>simp_all add: value_ok_def\<close>)

text \<open>The cache and the root are not part of the invariant.\<close>

lemma wf_cache [simp]: "create_wf (c\<lparr>c_cache := cache\<rparr>) = create_wf c"
  by (simp add: create_wf_def numbered_def table_length_def value_ok_def cv_get_priv_vector_def
      cong: heap_kind.case_cong)

lemma wf_root [simp]: "create_wf (c\<lparr>c_root := r\<rparr>) = create_wf c"
  by (simp add: create_wf_def numbered_def table_length_def value_ok_def cv_get_priv_vector_def
      cong: heap_kind.case_cong)

section \<open>Every function keeps it\<close>

lemma wf_begin: "create_wf (create_begin ver)"
  by (auto simp: create_wf_def create_begin_def numbered_def table_length_def split: heap_kind.split)

lemma wf_inline_type:
  assumes "create_wf c" and "t \<in> {POINTLESS_I32, POINTLESS_U32, POINTLESS_FLOAT, POINTLESS_BOOLEAN,
    POINTLESS_NULL, POINTLESS_EMPTY_SLOT, POINTLESS_BITVECTOR_0, POINTLESS_BITVECTOR_1,
    POINTLESS_BITVECTOR_01, POINTLESS_BITVECTOR_10, POINTLESS_BITVECTOR_PACKED, POINTLESS_VECTOR_EMPTY}"
  shows "create_wf (snd (push_value c \<lparr>cr_header = mk_header t, cr_data = d\<rparr>))"
  unfolding push_value_def Let_def snd_conv
  by (rule wf_push_inline [OF assms(1)])
    (use assms(2) in \<open>auto simp: kind_defs split: heap_kind.split\<close>)


text \<open>The functions that consult the cache.\<close>

lemma wf_push_inline_type:
  assumes "create_wf c" and "push_value c x = (h, c')"
    and "x \<in> {pointless_value_create_i32 i, pointless_value_create_u32 u, pointless_value_create_float f,
      pointless_value_create_bool_false, pointless_value_create_bool_true, pointless_value_create_null,
      pointless_value_create_empty_slot}"
  shows "create_wf c'"
proof -
  obtain t d where "x = \<lparr>cr_header = mk_header t, cr_data = d\<rparr>"
    "t \<in> {POINTLESS_I32, POINTLESS_U32, POINTLESS_FLOAT, POINTLESS_BOOLEAN, POINTLESS_NULL, POINTLESS_EMPTY_SLOT}"
    using assms(3) by (auto simp: pointless_value_create_i32_def pointless_value_create_u32_def
        pointless_value_create_float_def pointless_value_create_bool_false_def
        pointless_value_create_bool_true_def pointless_value_create_null_def
        pointless_value_create_empty_slot_def)
  with wf_inline_type [OF assms(1), of t d] assms(2) show ?thesis by auto
qed

lemma wf_push_inlines:
  "create_wf c \<Longrightarrow> push_value c (pointless_value_create_i32 i) = (h, c') \<Longrightarrow> create_wf c'"
  "create_wf c \<Longrightarrow> push_value c (pointless_value_create_u32 u) = (h, c') \<Longrightarrow> create_wf c'"
  "create_wf c \<Longrightarrow> push_value c (pointless_value_create_float f) = (h, c') \<Longrightarrow> create_wf c'"
  "create_wf c \<Longrightarrow> push_value c pointless_value_create_bool_false = (h, c') \<Longrightarrow> create_wf c'"
  "create_wf c \<Longrightarrow> push_value c pointless_value_create_bool_true = (h, c') \<Longrightarrow> create_wf c'"
  "create_wf c \<Longrightarrow> push_value c pointless_value_create_null = (h, c') \<Longrightarrow> create_wf c'"
  "create_wf c \<Longrightarrow> push_value c pointless_value_create_empty_slot = (h, c') \<Longrightarrow> create_wf c'"
  by (rule wf_push_inline_type, assumption, assumption, blast)+

lemma wf_i32 [preserves]: "create_wf c \<Longrightarrow> pointless_create_i32 c v = Some (h, c') \<Longrightarrow> create_wf c'"
  unfolding pointless_create_i32_def pointless_create_i32_priv_def
  by (auto elim!: bind_eq_Some_E split: if_split_asm prod.split_asm) (erule (1) wf_push_inlines)

lemma wf_u32 [preserves]: "create_wf c \<Longrightarrow> pointless_create_u32 c v = Some (h, c') \<Longrightarrow> create_wf c'"
  unfolding pointless_create_u32_def pointless_create_u32_priv_def
  by (auto elim!: bind_eq_Some_E split: if_split_asm prod.split_asm) (erule (1) wf_push_inlines)

lemma wf_float [preserves]: "create_wf c \<Longrightarrow> pointless_create_float c v = (h, c') \<Longrightarrow> create_wf c'"
  unfolding pointless_create_float_def by (auto dest: wf_push_inlines)

lemma wf_false [preserves]: "create_wf c \<Longrightarrow> pointless_create_boolean_false c = (h, c') \<Longrightarrow> create_wf c'"
  unfolding pointless_create_boolean_false_def pointless_create_boolean_false_priv_def Let_def
  by (auto split: if_split_asm prod.split_asm dest: wf_push_inlines)

lemma wf_true [preserves]: "create_wf c \<Longrightarrow> pointless_create_boolean_true c = (h, c') \<Longrightarrow> create_wf c'"
  unfolding pointless_create_boolean_true_def pointless_create_boolean_true_priv_def Let_def
  by (auto split: if_split_asm prod.split_asm dest: wf_push_inlines)

lemma wf_boolean [preserves]: "create_wf c \<Longrightarrow> pointless_create_boolean c v = (h, c') \<Longrightarrow> create_wf c'"
  unfolding pointless_create_boolean_def by (auto split: if_split_asm dest: wf_true wf_false)

lemma wf_null [preserves]: "create_wf c \<Longrightarrow> pointless_create_null c = (h, c') \<Longrightarrow> create_wf c'"
  unfolding pointless_create_null_def pointless_create_null_priv_def Let_def
  by (auto split: if_split_asm prod.split_asm dest: wf_push_inlines)

lemma wf_empty_slot [preserves]: "create_wf c \<Longrightarrow> pointless_create_empty_slot c = (h, c') \<Longrightarrow> create_wf c'"
  unfolding pointless_create_empty_slot_def pointless_create_empty_slot_priv_def Let_def
  by (auto split: if_split_asm prod.split_asm dest: wf_push_inlines)

section \<open>Strings and bitvectors\<close>

lemma kind_string: "t \<in> {POINTLESS_UNICODE, POINTLESS_STRING} \<Longrightarrow>
    offset_kind k \<lparr>cr_header = mk_header t, cr_data = d\<rparr> \<longleftrightarrow> k = Heap_String"
  by (cases k) (auto simp: kind_defs)

lemma wf_string_value:
  assumes "create_wf c" and "t \<in> {POINTLESS_UNICODE, POINTLESS_STRING}"
    and "create_string_value c t buffer = (h, c')"
  shows "create_wf c'"
proof (cases "string_unicode_map_judy c buffer")
  case None
  show ?thesis
  proof (rule wf_push [OF assms(1), of _ "\<lparr>cr_header = mk_header t, cr_data = string_unicode_map_judy_count c\<rparr>" "[]"])
    fix k
    show "table_length k c' =
        (if offset_kind k \<lparr>cr_header = mk_header t, cr_data = string_unicode_map_judy_count c\<rparr>
         then Suc (table_length k c) else table_length k c)"
      using assms(3) None kind_string [OF assms(2)]
      by (cases k) (auto simp: create_string_value_def push_value_def Let_def table_length_def)
    show "offset_kind k \<lparr>cr_header = mk_header t, cr_data = string_unicode_map_judy_count c\<rparr> \<Longrightarrow>
        cr_data \<lparr>cr_header = mk_header t, cr_data = string_unicode_map_judy_count c\<rparr> = of_nat (table_length k c)"
      using kind_string [OF assms(2)] create_wfD(3) [OF assms(1)] by (simp add: table_length_def)
  qed (use assms None kind_string [OF assms(2)] create_wfD(3,4) [OF assms(1)] in
      \<open>auto simp: create_string_value_def push_value_def Let_def value_ok_def mk_header_def\<close>)
next
  case Some
  with assms show ?thesis by (simp add: create_string_value_def)
qed

lemma wf_unicode_ucs4 [preserves]:
  "create_wf c \<Longrightarrow> pointless_create_unicode_ucs4 c v = Some (h, c') \<Longrightarrow> create_wf c'"
  unfolding pointless_create_unicode_ucs4_def
  by (auto elim!: bind_eq_Some_E dest: wf_string_value [rotated 2])

lemma wf_string_ascii [preserves]:
  "create_wf c \<Longrightarrow> pointless_create_string_ascii c v = Some (h, c') \<Longrightarrow> create_wf c'"
  unfolding pointless_create_string_ascii_def
  by (auto elim!: bind_eq_Some_E dest: wf_string_value [rotated 2])

lemma wf_string_ucs2 [preserves]:
  "create_wf c \<Longrightarrow> pointless_create_string_ucs2 alloc c v = Some (h, c') \<Longrightarrow> create_wf c'"
  unfolding pointless_create_string_ucs2_def
  by (auto elim!: bind_eq_Some_E split: option.split_asm dest: wf_string_ascii)

lemma wf_string_ucs4 [preserves]:
  "create_wf c \<Longrightarrow> pointless_create_string_ucs4 alloc c v = Some (h, c') \<Longrightarrow> create_wf c'"
  unfolding pointless_create_string_ucs4_def
  by (auto elim!: bind_eq_Some_E split: option.split_asm dest: wf_string_ascii)

lemma wf_unicode_ucs2 [preserves]:
  "create_wf c \<Longrightarrow> pointless_create_unicode_ucs2 alloc c v = Some (h, c') \<Longrightarrow> create_wf c'"
  unfolding pointless_create_unicode_ucs2_def
  by (auto elim!: bind_eq_Some_E split: option.split_asm dest: wf_unicode_ucs4)

lemma wf_unicode_ascii [preserves]:
  "create_wf c \<Longrightarrow> pointless_create_unicode_ascii alloc c v = Some (e, h, c') \<Longrightarrow> create_wf c'"
  unfolding pointless_create_unicode_ascii_def
  by (auto elim!: bind_eq_Some_E split: option.split_asm dest: wf_unicode_ucs4)

lemma compress_bitvector_type:
  "compress_bitvector v n = Some (t, d) \<Longrightarrow>
     t \<in> {POINTLESS_BITVECTOR, POINTLESS_BITVECTOR_0, POINTLESS_BITVECTOR_1, POINTLESS_BITVECTOR_01,
          POINTLESS_BITVECTOR_10, POINTLESS_BITVECTOR_PACKED}"
  unfolding compress_bitvector_def compress_01_or_10_def
  by (auto elim!: bind_eq_Some_E split: if_split_asm option.split_asm)

lemma kind_bitvector:
    "offset_kind k \<lparr>cr_header = mk_header POINTLESS_BITVECTOR, cr_data = d\<rparr> \<longleftrightarrow> k = Heap_Bitvector"
  by (cases k) (auto simp: kind_defs)

lemma wf_bitvector [preserves]:
  assumes "create_wf c" and "create_bitvector c v n norm = Some (h, c')"
  shows "create_wf c'"
proof -
  from assms(2) obtain t d where t: "compress_bitvector v n = Some (t, d)"
    unfolding create_bitvector_def by (auto elim!: bind_eq_Some_E)
  show ?thesis
  proof (cases "t = POINTLESS_BITVECTOR")
    case False
    with compress_bitvector_type [OF t] wf_inline_type [OF assms(1), of t d] assms(2) t show ?thesis
      by (auto simp: create_bitvector_def)
  next
    case True
    let ?buffer = "le_bytes 4 n @ take (unat (ICEIL n 8)) v"
    let ?x = "\<lparr>cr_header = mk_header POINTLESS_BITVECTOR, cr_data = bitvector_map_judy_count c\<rparr>"
    show ?thesis
    proof (cases "if norm then bitvector_map_judy c ?buffer else None")
      case Some
      with assms True t show ?thesis by (simp add: create_bitvector_def Let_def split: if_split_asm)
    next
      case None
      with assms(2) t True have c': "c' = c\<lparr>c_values := c_values c @ [?x],
           bitvector_values := bitvector_values c @ [?buffer],
           bitvector_map_judy := bitvector_map_judy c', bitvector_map_judy_count := bitvector_map_judy_count c + 1\<rparr>"
        unfolding create_bitvector_def push_value_def Let_def by (auto split: if_split_asm)
      show ?thesis
      proof (rule wf_push [OF assms(1), of c' ?x "[]"])
        fix k
        show "table_length k c' = (if offset_kind k ?x then Suc (table_length k c) else table_length k c)"
          by (subst c') (cases k; simp add: kind_bitvector table_length_def)
        show "offset_kind k ?x \<Longrightarrow> cr_data ?x = of_nat (table_length k c)"
          using create_wfD(4) [OF assms(1)] by (simp add: kind_bitvector table_length_def)
        show "value_ok c' ?x" by (simp add: value_ok_def kind_bitvector) (simp add: mk_header_def)
      qed (subst c', use create_wfD(3,4) [OF assms(1)] in simp)+
    qed
  qed
qed

end
