(* ===== verification/Create_Reach.thy ===== *)
theory Create_Reach
  imports Create_Laws
begin

text \<open>
  Vectors, sets and maps keep the invariant of a creation; the states a creation reaches.
\<close>

lemma table_length_le: "numbered c \<Longrightarrow> table_length k c \<le> length (c_values c)"
proof -
  assume "numbered c"
  then have "length (filter (offset_kind k) (c_values c)) = table_length k c"
    unfolding numbered_def by (metis length_map length_upt minus_nat.diff_0)
  then show ?thesis by (metis length_filter_le)
qed

section \<open>Vectors\<close>

lemma kind_priv: "item_width t \<noteq> None \<Longrightarrow>
    offset_kind k \<lparr>cr_header = mk_header t, cr_data = d\<rparr> \<longleftrightarrow> k = Heap_Priv_Vector"
  by (cases k) (auto simp: kind_defs item_width_def split: if_split_asm)

lemma kind_outside: "number_width t \<noteq> None \<Longrightarrow>
    offset_kind k \<lparr>cr_header = (mk_header t)\<lparr>is_outside_vector := True\<rparr>, cr_data = d\<rparr> \<longleftrightarrow>
    k = Heap_Outside_Vector"
  by (cases k) (auto simp: kind_defs split: if_split_asm)

lemma item_width_type: "item_width t \<noteq> None \<Longrightarrow> t \<noteq> POINTLESS_VECTOR_VALUE_HASHABLE"
  by (auto simp: item_width_def number_width_def)

lemma wf_vector_priv [preserves]:
  assumes "create_wf c" and "length (c_values c) < 2 ^ 32" and "item_width t = Some w"
    and "pointless_create_vector_priv c t w = (h, c')"
  shows "create_wf c'"
proof -
  let ?x = "\<lparr>cr_header = mk_header t, cr_data = of_nat (length (priv_vector_values c))\<rparr>"
  let ?vec = "\<lparr>vp_item_size = w, vp_items = []\<rparr>"
  have c': "c' = c\<lparr>c_values := c_values c @ [?x], priv_vector_values := priv_vector_values c @ [?vec]\<rparr>"
    using assms(4) by (simp add: pointless_create_vector_priv_def push_value_def Let_def)
  have kp: "offset_kind k ?x \<longleftrightarrow> k = Heap_Priv_Vector" for k using assms(3) by (simp add: kind_priv)
  have "length (priv_vector_values c) < 2 ^ 32"
    using table_length_le [OF create_wfD(1) [OF assms(1)], of Heap_Priv_Vector] assms(2)
    by (simp add: table_length_def)
  then have get: "cv_get_priv_vector c' ?x = Some ?vec"
    by (simp add: c' cv_get_priv_vector_def unat_of_nat)
  show ?thesis
  proof (rule wf_push [OF assms(1), of c' ?x "[?vec]"])
    fix k
    show "table_length k c' = (if offset_kind k ?x then Suc (table_length k c) else table_length k c)"
      by (subst c') (cases k; simp add: kp table_length_def)
    show "offset_kind k ?x \<Longrightarrow> cr_data ?x = of_nat (table_length k c)"
      by (simp add: kp table_length_def)
    show "value_ok c' ?x"
      using get assms(3) item_width_type [of t] by (simp add: value_ok_def) (simp add: mk_header_def)
  qed (use create_wfD(3,4) [OF assms(1)] c' in simp_all)
qed

lemma wf_upd_priv:
  assumes "create_wf c" and "cv_priv_vector_at c v = Some vec" and "upd_priv_vector c v vec' = Some c'"
    and "vp_item_size vec' = vp_item_size vec"
  shows "create_wf c'"
proof -
  from assms(2) obtain x0 where x0: "cv_value_at c v = Some x0" "cv_get_priv_vector c x0 = Some vec"
    by (auto simp: cv_priv_vector_at_def elim: bind_eq_Some_E)
  with assms(3) have c': "c' = c\<lparr>priv_vector_values := (priv_vector_values c)[unat (cr_data x0) := vec']\<rparr>"
    by (auto simp: upd_priv_vector_def arr_set_def split: if_split_asm)
  show ?thesis
  proof (rule create_wfI)
    show "numbered c'"
      by (rule numbered_same [OF create_wfD(1) [OF assms(1)]])
        (simp_all add: c' table_length_def split: heap_kind.split)
    fix x assume "x \<in> set (c_values c')"
    then have "value_ok c x" using create_wfD(2) [OF assms(1)] by (simp add: c')
    then show "value_ok c' x"
    proof (rule value_ok_mono)
      fix vec1 assume v: "cv_get_priv_vector c x = Some vec1"
      then show "\<exists>vec'. cv_get_priv_vector c' x = Some vec' \<and> vp_item_size vec' = vp_item_size vec1"
        using x0(2) assms(4)
        by (auto simp: c' cv_get_priv_vector_def arr_get_def nth_list_update split: if_split_asm)
    qed
  qed (use create_wfD(3,4) [OF assms(1)] c' in simp_all)
qed

lemma wf_append_priv [preserves]:
  assumes "create_wf c" and "pointless_create_vector_append_priv c vector t n v = Some (h, c')"
  shows "create_wf c'"
proof -
  from assms(2) obtain vec where "cv_priv_vector_at c vector = Some vec"
    "upd_priv_vector c vector (vec\<lparr>vp_items := vp_items vec @ [v]\<rparr>) = Some c'"
    by (auto simp: pointless_create_vector_append_priv_def elim!: bind_eq_Some_E split: if_split_asm)
  with wf_upd_priv [OF assms(1)] show ?thesis by simp
qed

lemma wf_value_append [preserves]:
  "create_wf c \<Longrightarrow> pointless_create_vector_value_append c vector v = Some (h, c') \<Longrightarrow> create_wf c'"
  by (auto simp: pointless_create_vector_value_append_def split: if_split_asm dest: wf_append_priv)

lemma wf_value_set [preserves]:
  assumes "create_wf c" and "pointless_create_vector_value_set c vector i v = Some c'"
  shows "create_wf c'"
proof -
  from assms(2) obtain vec items where "cv_priv_vector_at c vector = Some vec"
    "upd_priv_vector c vector (vec\<lparr>vp_items := items\<rparr>) = Some c'"
    by (auto simp: pointless_create_vector_value_set_def elim!: bind_eq_Some_E split: if_split_asm)
  with wf_upd_priv [OF assms(1)] show ?thesis by simp
qed

lemma wf_transfer_priv [preserves]:
  assumes "create_wf c" and "pointless_create_vector_transfer_priv c vector xs n = Some (h, c')"
  shows "create_wf c'"
proof (cases "c' = c")
  case False
  with assms(2) obtain vec where "cv_priv_vector_at c vector = Some vec"
    "upd_priv_vector c vector (vec\<lparr>vp_items := map ucast (take (unat n) xs)\<rparr>) = Some c'"
    by (auto simp: pointless_create_vector_transfer_priv_def elim!: bind_eq_Some_E split: if_split_asm)
  with wf_upd_priv [OF assms(1)] show ?thesis by simp
qed (use assms(1) in simp)

lemma wf_u32_transfer [preserves]:
  "create_wf c \<Longrightarrow> pointless_create_vector_u32_transfer c vector v n = Some (h, c') \<Longrightarrow> create_wf c'"
  by (auto simp: pointless_create_vector_u32_transfer_def dest: wf_transfer_priv)

lemma wf_value_transfer [preserves]:
  "create_wf c \<Longrightarrow> pointless_create_vector_value_transfer c vector v n = Some (h, c') \<Longrightarrow> create_wf c'"
  by (auto simp: pointless_create_vector_value_transfer_def elim!: bind_eq_Some_E split: if_split_asm
      dest: wf_transfer_priv)

lemma wf_owner_priv [preserves]:
  assumes "create_wf c" and "number_width t \<noteq> None"
    and "pointless_create_vector_owner_priv c t items n = (h, c')"
  shows "create_wf c'"
proof (cases "n = 0")
  case True
  with wf_inline_type [OF assms(1), of POINTLESS_VECTOR_EMPTY 0] assms(3) show ?thesis
    by (simp add: pointless_create_vector_owner_priv_def)
next
  case False
  let ?x = "\<lparr>cr_header = (mk_header t)\<lparr>is_outside_vector := True\<rparr>,
             cr_data = of_nat (length (outside_vector_values c))\<rparr>"
  have c': "c' = c\<lparr>c_values := c_values c @ [?x],
      outside_vector_values := outside_vector_values c @ [\<lparr>vo_items = items, vo_n_items = n\<rparr>]\<rparr>"
    using assms(3) False by (simp add: pointless_create_vector_owner_priv_def push_value_def Let_def)
  note ko = kind_outside [OF assms(2)]
  show ?thesis
  proof (rule wf_push [OF assms(1), of c' ?x "[]"])
    fix k
    show "table_length k c' = (if offset_kind k ?x then Suc (table_length k c) else table_length k c)"
      by (subst c') (cases k; simp add: ko table_length_def)
    show "offset_kind k ?x \<Longrightarrow> cr_data ?x = of_nat (table_length k c)"
      by (simp add: ko table_length_def)
    show "value_ok c' ?x"
      using assms(2) by (simp add: value_ok_def ko) (auto simp: mk_header_def number_width_def)
  qed (use create_wfD(3,4) [OF assms(1)] c' in simp_all)
qed

section \<open>Sets and maps\<close>

lemma wf_mark:
  assumes "create_wf c" and "mark_set_map_vector c v = Some c'"
  shows "create_wf c'"
proof -
  from assms(2) obtain x0 where x0: "cv_value_at c v = Some x0"
    and c': "c' = c\<lparr>c_values := (c_values c)[unat v := x0\<lparr>cr_header := (cr_header x0)\<lparr>is_set_map_vector := True\<rparr>\<rparr>]\<rparr>"
    by (auto simp: mark_set_map_vector_def upd_value_def arr_set_def elim!: bind_eq_Some_E split: if_split_asm)
  have at: "unat v < length (c_values c)" "c_values c ! unat v = x0"
    using x0 by (auto simp: cv_value_at_def arr_get_Some_iff)
  show ?thesis
  proof (rule create_wfI)
    show "numbered c'"
      by (rule numbered_same [OF create_wfD(1) [OF assms(1)]])
        (use at in \<open>simp_all add: c' table_length_def map_update list_update_same_conv split: heap_kind.split\<close>)
    fix x assume x: "x \<in> set (c_values c')"
    have "value_ok c' y" if "value_ok c y" for y
      using that by (rule value_ok_mono) (simp add: c' cv_get_priv_vector_def)
    moreover have "value_ok c x0" using create_wfD(2) [OF assms(1)] at nth_mem by blast
    then have "value_ok c (x0\<lparr>cr_header := (cr_header x0)\<lparr>is_set_map_vector := True\<rparr>\<rparr>)"
      using offset_kind_cong [of x0 "x0\<lparr>cr_header := (cr_header x0)\<lparr>is_set_map_vector := True\<rparr>\<rparr>"]
      by (simp add: value_ok_def cv_get_priv_vector_def)
    moreover have "x \<in> set (c_values c) \<or> x = x0\<lparr>cr_header := (cr_header x0)\<lparr>is_set_map_vector := True\<rparr>\<rparr>"
      using x set_update_subset_insert by (fastforce simp: c')
    ultimately show "value_ok c' x" using create_wfD(2) [OF assms(1)] by blast
  qed (use create_wfD(3,4) [OF assms(1)] c' in simp_all)
qed

lemma mark_length: "mark_set_map_vector c v = Some c' \<Longrightarrow> length (c_values c') = length (c_values c)"
  by (auto simp: mark_set_map_vector_def upd_value_def arr_set_def elim!: bind_eq_Some_E split: if_split_asm)

lemma mark_tables: "mark_set_map_vector c v = Some c' \<Longrightarrow> table_length k c' = table_length k c"
  by (cases k) (auto simp: table_length_def mark_set_map_vector_def upd_value_def elim!: bind_eq_Some_E)

lemma kind_set: "offset_kind k \<lparr>cr_header = mk_header POINTLESS_SET_VALUE, cr_data = d\<rparr> \<longleftrightarrow> k = Heap_Set"
  by (cases k) (auto simp: kind_defs)

lemma kind_map: "offset_kind k \<lparr>cr_header = mk_header POINTLESS_MAP_VALUE_VALUE, cr_data = d\<rparr> \<longleftrightarrow> k = Heap_Map"
  by (cases k) (auto simp: kind_defs)

text \<open>Adding the value of a set or map.\<close>

lemma wf_push_set:
  assumes "create_wf c" and "d = of_nat (length (set_values c))"
  shows "create_wf (c\<lparr>c_values := c_values c @ [\<lparr>cr_header = mk_header POINTLESS_SET_VALUE, cr_data = d\<rparr>],
                     set_values := set_values c @ [s]\<rparr>)" (is "create_wf ?c'")
proof (rule wf_push [OF assms(1), of ?c' "\<lparr>cr_header = mk_header POINTLESS_SET_VALUE, cr_data = d\<rparr>" "[]"])
  fix k
  show "table_length k ?c' = (if offset_kind k \<lparr>cr_header = mk_header POINTLESS_SET_VALUE, cr_data = d\<rparr>
      then Suc (table_length k c) else table_length k c)"
    by (cases k) (simp_all add: kind_set table_length_def)
  show "value_ok ?c' \<lparr>cr_header = mk_header POINTLESS_SET_VALUE, cr_data = d\<rparr>"
    by (simp add: value_ok_def kind_set) (simp add: mk_header_def)
qed (use assms create_wfD(3,4) [OF assms(1)] in \<open>auto simp: kind_set table_length_def\<close>)

lemma wf_push_map:
  assumes "create_wf c" and "d = of_nat (length (map_values c))"
  shows "create_wf (c\<lparr>c_values := c_values c @ [\<lparr>cr_header = mk_header POINTLESS_MAP_VALUE_VALUE, cr_data = d\<rparr>],
                     map_values := map_values c @ [m]\<rparr>)" (is "create_wf ?c'")
proof (rule wf_push [OF assms(1), of ?c' "\<lparr>cr_header = mk_header POINTLESS_MAP_VALUE_VALUE, cr_data = d\<rparr>" "[]"])
  fix k
  show "table_length k ?c' = (if offset_kind k \<lparr>cr_header = mk_header POINTLESS_MAP_VALUE_VALUE, cr_data = d\<rparr>
      then Suc (table_length k c) else table_length k c)"
    by (cases k) (simp_all add: kind_map table_length_def)
  show "value_ok ?c' \<lparr>cr_header = mk_header POINTLESS_MAP_VALUE_VALUE, cr_data = d\<rparr>"
    by (simp add: value_ok_def kind_map) (simp add: mk_header_def)
qed (use assms create_wfD(3,4) [OF assms(1)] in \<open>auto simp: kind_map table_length_def\<close>)

text \<open>The vectors of a set or map.\<close>

lemma own_vector:
  assumes "create_wf c" and "length (c_values c) < 2 ^ 32" and "item_width t = Some w"
    and "pointless_create_vector_priv c t w = (h, c')"
  shows "create_wf c'" "length (c_values c') = Suc (length (c_values c))"
    "set_values c' = set_values c" "map_values c' = map_values c"
  using wf_vector_priv [OF assms] assms(4)
  by (auto simp: pointless_create_vector_priv_def push_value_def Let_def)

lemma item_widths:
  "item_width POINTLESS_VECTOR_U32 = Some 4" "item_width POINTLESS_VECTOR_VALUE = Some 4"
  by (simp_all add: item_width_def number_width_def)

lemma mark_sets: "mark_set_map_vector c v = Some c' \<Longrightarrow> set_values c' = set_values c \<and> map_values c' = map_values c"
  by (auto simp: mark_set_map_vector_def upd_value_def elim!: bind_eq_Some_E)

lemma wf_set:
  assumes "create_wf c" and "length (c_values c) < 2 ^ 32 - 3" and "pointless_create_set c = Some (s, c')"
  shows "create_wf c'"
proof -
  obtain h c1 where h: "pointless_create_vector_priv c POINTLESS_VECTOR_U32 4 = (h, c1)" by fastforce
  obtain k c2 where k: "pointless_create_vector_priv c1 POINTLESS_VECTOR_VALUE 4 = (k, c2)" by fastforce
  have "length (c_values c) < 2 ^ 32" using assms(2) by simp
  note o1 = own_vector [OF assms(1) this item_widths(1) h]
  have "length (c_values c1) < 2 ^ 32" using assms(2) o1(2) by simp
  note o2 = own_vector [OF o1(1) this item_widths(2) k]
  show ?thesis
  proof (cases "h = POINTLESS_CREATE_VALUE_FAIL \<or> k = POINTLESS_CREATE_VALUE_FAIL")
    case True
    with assms(3) h k o2 show ?thesis
      by (simp add: pointless_create_set_def pointless_create_vector_u32_def pointless_create_vector_value_def Let_def)
  next
    case False
    with assms(3) h k obtain c3 c4 where m: "mark_set_map_vector c2 h = Some c3" "mark_set_map_vector c3 k = Some c4"
      and c': "c' = c4\<lparr>c_values := c_values c4 @
           [\<lparr>cr_header = mk_header POINTLESS_SET_VALUE, cr_data = of_nat (length (set_values c))\<rparr>],
         set_values := set_values c4 @ [\<lparr>cs_keys = [], cs_serialize_hash = h, cs_serialize_keys = k\<rparr>]\<rparr>"
      by (auto simp: pointless_create_set_def pointless_create_vector_u32_def
          pointless_create_vector_value_def Let_def push_value_def elim!: bind_eq_Some_E)
    from wf_mark [OF wf_mark [OF o2(1) m(1)] m(2)] mark_sets [OF m(1)] mark_sets [OF m(2)] o1(3) o2(3)
    show ?thesis unfolding c' by (intro wf_push_set) simp_all
  qed
qed

lemma wf_map:
  assumes "create_wf c" and "length (c_values c) < 2 ^ 32 - 4" and "pointless_create_map c = Some (s, c')"
  shows "create_wf c'"
proof -
  obtain h c1 where h: "pointless_create_vector_priv c POINTLESS_VECTOR_U32 4 = (h, c1)" by fastforce
  obtain k c2 where k: "pointless_create_vector_priv c1 POINTLESS_VECTOR_VALUE 4 = (k, c2)" by fastforce
  obtain v c3 where v: "pointless_create_vector_priv c2 POINTLESS_VECTOR_VALUE 4 = (v, c3)" by fastforce
  have "length (c_values c) < 2 ^ 32" using assms(2) by simp
  note o1 = own_vector [OF assms(1) this item_widths(1) h]
  have "length (c_values c1) < 2 ^ 32" using assms(2) o1(2) by simp
  note o2 = own_vector [OF o1(1) this item_widths(2) k]
  have "length (c_values c2) < 2 ^ 32" using assms(2) o1(2) o2(2) by simp
  note o3 = own_vector [OF o2(1) this item_widths(2) v]
  show ?thesis
  proof (cases "h = POINTLESS_CREATE_VALUE_FAIL \<or> k = POINTLESS_CREATE_VALUE_FAIL \<or> v = POINTLESS_CREATE_VALUE_FAIL")
    case True
    with assms(3) h k v o3 show ?thesis
      by (simp add: pointless_create_map_def pointless_create_vector_u32_def pointless_create_vector_value_def Let_def)
  next
    case False
    with assms(3) h k v obtain c4 c5 c6 where m: "mark_set_map_vector c3 h = Some c4"
        "mark_set_map_vector c4 k = Some c5" "mark_set_map_vector c5 v = Some c6"
      and c': "c' = c6\<lparr>c_values := c_values c6 @
           [\<lparr>cr_header = mk_header POINTLESS_MAP_VALUE_VALUE, cr_data = of_nat (length (map_values c))\<rparr>],
         map_values := map_values c6 @ [\<lparr>cm_keys = [], cm_values = [], cm_serialize_hash = h,
           cm_serialize_keys = k, cm_serialize_values = v\<rparr>]\<rparr>"
      by (auto simp: pointless_create_map_def pointless_create_vector_u32_def
          pointless_create_vector_value_def Let_def push_value_def elim!: bind_eq_Some_E)
    from wf_mark [OF wf_mark [OF wf_mark [OF o3(1) m(1)] m(2)] m(3)] mark_sets [OF m(1)] mark_sets [OF m(2)]
      mark_sets [OF m(3)] o1(4) o2(4) o3(4)
    show ?thesis unfolding c' by (intro wf_push_map) simp_all
  qed
qed

lemma wf_sets_update:
  assumes "create_wf c" and "length ss = length (set_values c)"
  shows "create_wf (c\<lparr>set_values := ss\<rparr>)"
proof (rule create_wfI)
  show "numbered (c\<lparr>set_values := ss\<rparr>)"
    by (rule numbered_same [OF create_wfD(1) [OF assms(1)]])
      (simp_all add: assms(2) table_length_def split: heap_kind.split)
  fix x assume "x \<in> set (c_values (c\<lparr>set_values := ss\<rparr>))"
  then show "value_ok (c\<lparr>set_values := ss\<rparr>) x"
    using create_wfD(2) [OF assms(1)] by (simp add: value_ok_def cv_get_priv_vector_def)
qed (use create_wfD(3,4) [OF assms(1)] in simp_all)

lemma wf_maps_update:
  assumes "create_wf c" and "length ms = length (map_values c)"
  shows "create_wf (c\<lparr>map_values := ms\<rparr>)"
proof (rule create_wfI)
  show "numbered (c\<lparr>map_values := ms\<rparr>)"
    by (rule numbered_same [OF create_wfD(1) [OF assms(1)]])
      (simp_all add: assms(2) table_length_def split: heap_kind.split)
  fix x assume "x \<in> set (c_values (c\<lparr>map_values := ms\<rparr>))"
  then show "value_ok (c\<lparr>map_values := ms\<rparr>) x"
    using create_wfD(2) [OF assms(1)] by (simp add: value_ok_def cv_get_priv_vector_def)
qed (use create_wfD(3,4) [OF assms(1)] in simp_all)

lemma wf_set_add [preserves]:
  "create_wf c \<Longrightarrow> pointless_create_set_add c s k = Some (h, c') \<Longrightarrow> create_wf c'"
  by (auto simp: pointless_create_set_add_def arr_set_Some_iff elim!: bind_eq_Some_E intro!: wf_sets_update)

lemma wf_map_add [preserves]:
  "create_wf c \<Longrightarrow> pointless_create_map_add c m k v = Some (h, c') \<Longrightarrow> create_wf c'"
  by (auto simp: pointless_create_map_add_def arr_set_Some_iff elim!: bind_eq_Some_E intro!: wf_maps_update)

section \<open>The states a creation reaches\<close>

text \<open>
  A call of a function of the interface. The side conditions are those the asserts state: vectors are
  created and extended with the item width of their type, a compressed bitvector is one that needs no
  heap. (The functions for the numeric types are instances of the three general ones.)
\<close>

inductive create_call :: "pointless_create_t \<Rightarrow> pointless_create_t \<Rightarrow> bool" where
  i32: "pointless_create_i32 c v = Some (h, c') \<Longrightarrow> create_call c c'"
| u32: "pointless_create_u32 c v = Some (h, c') \<Longrightarrow> create_call c c'"
| float: "pointless_create_float c v = (h, c') \<Longrightarrow> create_call c c'"
| boolean: "pointless_create_boolean c v = (h, c') \<Longrightarrow> create_call c c'"
| null: "pointless_create_null c = (h, c') \<Longrightarrow> create_call c c'"
| empty_slot: "pointless_create_empty_slot c = (h, c') \<Longrightarrow> create_call c c'"
| unicode_ucs4: "pointless_create_unicode_ucs4 c v = Some (h, c') \<Longrightarrow> create_call c c'"
| unicode_ucs2: "pointless_create_unicode_ucs2 alloc c w = Some (h, c') \<Longrightarrow> create_call c c'"
| unicode_ascii: "pointless_create_unicode_ascii alloc c s = Some (e, h, c') \<Longrightarrow> create_call c c'"
| string_ascii: "pointless_create_string_ascii c s = Some (h, c') \<Longrightarrow> create_call c c'"
| string_ucs2: "pointless_create_string_ucs2 alloc c w = Some (h, c') \<Longrightarrow> create_call c c'"
| string_ucs4: "pointless_create_string_ucs4 alloc c v = Some (h, c') \<Longrightarrow> create_call c c'"
| bitvector: "pointless_create_bitvector c s n = Some (h, c') \<Longrightarrow> create_call c c'"
| bitvector_no_normalize: "pointless_create_bitvector_no_normalize c s n = Some (h, c') \<Longrightarrow> create_call c c'"
| bitvector_compressed:
    "pointless_create_bitvector_compressed c x = (h, c') \<Longrightarrow>
     v_type x \<in> {POINTLESS_BITVECTOR_0, POINTLESS_BITVECTOR_1, POINTLESS_BITVECTOR_01,
                 POINTLESS_BITVECTOR_10, POINTLESS_BITVECTOR_PACKED} \<Longrightarrow> create_call c c'"
| vector: "pointless_create_vector_priv c t n = (h, c') \<Longrightarrow> item_width t = Some n \<Longrightarrow> create_call c c'"
| vector_value_append: "pointless_create_vector_value_append c vector x = Some (h, c') \<Longrightarrow> create_call c c'"
| vector_append: "pointless_create_vector_append_priv c vector t n y = Some (h, c') \<Longrightarrow> create_call c c'"
| vector_value_set: "pointless_create_vector_value_set c vector i x = Some c' \<Longrightarrow> create_call c c'"
| vector_u32_transfer: "pointless_create_vector_u32_transfer c vector xs n = Some (h, c') \<Longrightarrow> create_call c c'"
| vector_value_transfer: "pointless_create_vector_value_transfer c vector xs n = Some (h, c') \<Longrightarrow> create_call c c'"
| vector_owner:
    "pointless_create_vector_owner_priv c t bytes n = (h, c') \<Longrightarrow> number_width t \<noteq> None \<Longrightarrow> create_call c c'"
| set: "pointless_create_set c = Some (h, c') \<Longrightarrow> create_call c c'"
| set_add: "pointless_create_set_add c s k = Some (h, c') \<Longrightarrow> create_call c c'"
| map: "pointless_create_map c = Some (h, c') \<Longrightarrow> create_call c c'"
| map_add: "pointless_create_map_add c m k x = Some (h, c') \<Longrightarrow> create_call c c'"
| set_root: "create_call c (pointless_create_set_root c r)"

text \<open>A creation of fewer than \<open>2^32 - 4\<close> values, so that no handle wraps around.\<close>

inductive creation :: "pointless_create_t \<Rightarrow> bool" where
  begin_64: "creation pointless_create_begin_64"
| call: "creation c \<Longrightarrow> length (c_values c) < 2 ^ 32 - 4 \<Longrightarrow> create_call c c' \<Longrightarrow> creation c'"

lemma create_call_wf:
  assumes "create_call c c'" and "create_wf c" and "length (c_values c) < 2 ^ 32 - 4"
  shows "create_wf c'"
  using assms
proof (cases rule: create_call.cases)
  case (bitvector_compressed x h)
  then have "take_bit 29 (v_type x) = v_type x"
    by (elim insertE) simp_all
  with bitvector_compressed wf_inline_type [OF assms(2), of "v_type x" "v_data x"] show ?thesis
    by (auto simp: pointless_create_bitvector_compressed_def)
next
  case (vector t n h)
  then show ?thesis using wf_vector_priv [OF assms(2)] assms(3) by simp
next
  case (set h)
  then show ?thesis using wf_set [OF assms(2)] assms(3) by simp
next
  case (map h)
  then show ?thesis using wf_map [OF assms(2)] assms(3) by simp
next
  case (set_add s k h)
  then show ?thesis using wf_set_add [OF assms(2)] by blast
next
  case (map_add m k x h)
  then show ?thesis using wf_map_add [OF assms(2)] by blast
next
  case (bitvector s n h)
  then show ?thesis using wf_bitvector [OF assms(2)] by (simp add: pointless_create_bitvector_def)
next
  case (bitvector_no_normalize s n h)
  then show ?thesis using wf_bitvector [OF assms(2)] by (simp add: pointless_create_bitvector_no_normalize_def)
next
  case (set_root r)
  then show ?thesis using assms(2) by (simp add: pointless_create_set_root_def)
qed (erule (1) preserves)+

lemma wf_of_creation:
  assumes "creation c"
  shows "create_wf c"
  using assms
  by (induction rule: creation.induct)
    (auto simp: pointless_create_begin_64_def intro: wf_begin create_call_wf)

text \<open>
  C29 In every state a creation reaches, the values of each kind of heap data are numbered 0, 1, 2, ... in
  the order of their creation, one for each entry of the table of that kind; the entry of a vector has
  the item width of its type, a vector of the caller holds numbers, and the counts of strings and
  bitvectors are the sizes of their tables.
\<close>

theorem creation_wf:
  assumes "creation c"
  shows "create_wf c"
  using assms by (rule wf_of_creation)

theorem creation_wf_witness:
  "\<exists>c. pointless_create_string_ascii pointless_create_begin_64 [72, 105, 0] = Some (0, c) \<and>
     create_wf c \<and> length (string_unicode_values c) = 1"
proof -
  have three: "replicate 3 (0 :: u8) = [0, 0, 0]" by (simp add: numeral_3_eq_3)
  obtain c where c: "pointless_create_string_ascii pointless_create_begin_64 [72, 105, 0] = Some (0, c)"
    "length (string_unicode_values c) = 1"
    by (simp add: three pointless_create_string_ascii_def pointless_ascii_len_def pointless_ascii_cpy_def
        create_string_value_def push_value_def pointless_create_begin_64_def create_begin_def)
  have "creation c"
    by (rule creation.call [OF creation.begin_64 _ create_call.string_ascii [OF c(1)]])
      (simp add: pointless_create_begin_64_def create_begin_def)
  from creation_wf [OF this] c show ?thesis by blast
qed

end
