(* ===== verification/Create_Later.thy ===== *)
theory Create_Later
  imports Create_Reach
begin

text \<open>
  A creation only adds: whatever is called later, a value keeps its type and its data, and the strings,
  bitvectors and vectors of the caller stay where they are. The dictionary of strings leads to a value
  of the right type.
\<close>

section \<open>States that come later\<close>

definition value_id :: "pointless_create_value_t \<Rightarrow> u32 \<times> bool \<times> u32" where
  "value_id x = (type_29 (cr_header x), is_outside_vector (cr_header x), cr_data x)"

definition later :: "pointless_create_t \<Rightarrow> pointless_create_t \<Rightarrow> bool" where
  "later c c' \<longleftrightarrow>
     map value_id (take (length (c_values c)) (c_values c')) = map value_id (c_values c) \<and>
     take (length (string_unicode_values c)) (string_unicode_values c') = string_unicode_values c \<and>
     take (length (bitvector_values c)) (bitvector_values c') = bitvector_values c \<and>
     take (length (outside_vector_values c)) (outside_vector_values c') = outside_vector_values c"

lemma later_refl [simp]: "later c c"
  by (simp add: later_def)

lemma take_eq_trans:
  assumes "map f (take (length xs) ys) = map f xs" and "map f (take (length ys) zs) = map f ys"
  shows "map f (take (length xs) zs) = map f xs"
proof -
  from assms(1) have "length (map f (take (length xs) ys)) = length (map f xs)" by simp
  then have le: "length xs \<le> length ys" by simp
  then have "map f (take (length xs) zs) = take (length xs) (map f (take (length ys) zs))"
    by (simp add: take_map [symmetric] min_def)
  also have "\<dots> = map f (take (length xs) ys)" by (simp add: assms(2) take_map)
  finally show ?thesis using assms(1) by simp
qed

lemmas take_trans = take_eq_trans [of "\<lambda>x. x", unfolded list.map_ident]

lemma later_trans: "later c1 c2 \<Longrightarrow> later c2 c3 \<Longrightarrow> later c1 c3"
  unfolding later_def by (blast intro: take_eq_trans take_trans)

text \<open>The shapes of a step: values are added, or one of them is marked.\<close>

lemma laterI:
  assumes "c_values c' = c_values c @ xs" and "string_unicode_values c' = string_unicode_values c @ ss"
    and "bitvector_values c' = bitvector_values c @ bs"
    and "outside_vector_values c' = outside_vector_values c @ os"
  shows "later c c'"
  using assms by (simp add: later_def)

lemma later_same:
  assumes "c_values c' = c_values c" and "string_unicode_values c' = string_unicode_values c"
    and "bitvector_values c' = bitvector_values c" and "outside_vector_values c' = outside_vector_values c"
  shows "later c c'"
  using assms by (simp add: later_def)

text \<open>What a later state has of a value.\<close>

lemma later_value:
  assumes "later c c'" and "cv_value_at c h = Some x"
  shows "\<exists>x'. cv_value_at c' h = Some x' \<and> value_id x' = value_id x"
proof -
  from assms(2) have h: "unat h < length (c_values c)" "c_values c ! unat h = x"
    by (auto simp: cv_value_at_def arr_get_Some_iff)
  from assms(1) have m: "map value_id (take (length (c_values c)) (c_values c')) = map value_id (c_values c)"
    by (simp add: later_def)
  then have l: "unat h < length (take (length (c_values c)) (c_values c'))"
    using h(1) by (metis length_map)
  have "value_id (take (length (c_values c)) (c_values c') ! unat h) = value_id (c_values c ! unat h)"
    using m h(1) l by (metis nth_map)
  with h l show ?thesis by (simp add: cv_value_at_def)
qed

lemma later_entry:
  assumes "take (length xs) ys = xs" and "arr_get xs i = Some b"
  shows "arr_get ys i = Some b"
  using assms by (metis arr_get_Some_iff length_take min_less_iff_conj nth_take)

section \<open>Every call leads to a later state\<close>

definition unit_size :: "u32 \<Rightarrow> nat" where
  "unit_size t = (if t = POINTLESS_UNICODE then 4 else 1)"

text \<open>The buffer of a string: the type, the number of units and the number of bytes agree.\<close>

definition string_fits :: "u32 \<Rightarrow> u8 list \<Rightarrow> bool" where
  "string_fits t buffer \<longleftrightarrow>
     (\<exists>len. read_u32 buffer 0 = Some len \<and> length buffer = 4 + unit_size t * (unat len + 1))"

text \<open>A step that does not touch the dictionary of strings, or adds a string.\<close>

definition adds_string :: "pointless_create_t \<Rightarrow> pointless_create_t \<Rightarrow> bool" where
  "adds_string c c' \<longleftrightarrow>
     (\<exists>t buffer h. t \<in> {POINTLESS_UNICODE, POINTLESS_STRING} \<and>
        (length buffer < 2 ^ 32 \<longrightarrow> string_fits t buffer) \<and> create_string_value c t buffer = (h, c'))"

definition effect :: "pointless_create_t \<Rightarrow> pointless_create_t \<Rightarrow> bool" where
  "effect c c' \<longleftrightarrow> later c c' \<and> (string_unicode_map_judy c' = string_unicode_map_judy c \<or> adds_string c c')"

lemma effect_push:
  "c_values c' = c_values c @ xs \<Longrightarrow> string_unicode_values c' = string_unicode_values c \<Longrightarrow>
   bitvector_values c' = bitvector_values c @ bs \<Longrightarrow> outside_vector_values c' = outside_vector_values c @ os \<Longrightarrow>
   string_unicode_map_judy c' = string_unicode_map_judy c \<Longrightarrow> effect c c'"
  unfolding effect_def by (intro conjI disjI1 laterI [of c' c xs "[]" bs os]) simp_all

lemma effect_values:
  "map value_id (take (length (c_values c)) (c_values c')) = map value_id (c_values c) \<Longrightarrow>
   string_unicode_values c' = string_unicode_values c \<Longrightarrow>
   bitvector_values c' = bitvector_values c \<Longrightarrow> outside_vector_values c' = outside_vector_values c \<Longrightarrow>
   string_unicode_map_judy c' = string_unicode_map_judy c \<Longrightarrow> effect c c'"
  by (simp add: effect_def later_def)

lemma effect_push1:
  "c_values c' = c_values c @ [last (c_values c')] \<Longrightarrow> string_unicode_values c' = string_unicode_values c \<Longrightarrow>
   bitvector_values c' = bitvector_values c \<Longrightarrow> outside_vector_values c' = outside_vector_values c \<Longrightarrow>
   string_unicode_map_judy c' = string_unicode_map_judy c \<Longrightarrow> effect c c'"
  by (rule effect_push [of _ _ "[last (c_values c')]" "[]" "[]"]) simp_all

lemma effect_push2:
  "c_values c' = c_values c @ [last (c_values c')] \<Longrightarrow> string_unicode_values c' = string_unicode_values c \<Longrightarrow>
   bitvector_values c' = bitvector_values c @ drop (length (bitvector_values c)) (bitvector_values c') \<Longrightarrow>
   outside_vector_values c' = outside_vector_values c \<Longrightarrow>
   string_unicode_map_judy c' = string_unicode_map_judy c \<Longrightarrow> effect c c'"
  by (rule effect_push [of _ _ "[last (c_values c')]" "drop (length (bitvector_values c)) (bitvector_values c')" "[]"])
    simp_all

named_theorems effects \<open>facts that a call has one of the allowed effects\<close>

lemma effect_refl [simp, effects]: "effect c c"
  by (rule effect_values) simp_all

lemma effect_cached:
  "pointless_create_i32 c v = Some (h, c') \<Longrightarrow> c' \<noteq> c \<Longrightarrow> effect c c'"
  "pointless_create_u32 c w = Some (h, c') \<Longrightarrow> c' \<noteq> c \<Longrightarrow> effect c c'"
  unfolding pointless_create_i32_def pointless_create_u32_def pointless_create_i32_priv_def
    pointless_create_u32_priv_def push_value_def Let_def
  by (auto elim!: bind_eq_Some_E split: if_split_asm intro!: effect_push1)

lemma effect_inlines [effects]:
  "pointless_create_i32 c v = Some (h, c') \<Longrightarrow> effect c c'"
  "pointless_create_u32 c w = Some (h, c') \<Longrightarrow> effect c c'"
  "pointless_create_float c w = (h, c') \<Longrightarrow> effect c c'"
  "pointless_create_boolean c v = (h, c') \<Longrightarrow> effect c c'"
  "pointless_create_null c = (h, c') \<Longrightarrow> effect c c'"
  "pointless_create_empty_slot c = (h, c') \<Longrightarrow> effect c c'"
  "pointless_create_bitvector_compressed c x = (h, c') \<Longrightarrow> effect c c'"
proof -
  show "pointless_create_i32 c v = Some (h, c') \<Longrightarrow> effect c c'"
    "pointless_create_u32 c w = Some (h, c') \<Longrightarrow> effect c c'"
    using effect_cached by (metis effect_refl)+
qed (auto simp: pointless_create_float_def pointless_create_boolean_def pointless_create_boolean_true_def
    pointless_create_boolean_false_def pointless_create_null_def pointless_create_boolean_true_priv_def
    pointless_create_boolean_false_priv_def pointless_create_null_priv_def
    pointless_create_empty_slot_def pointless_create_empty_slot_priv_def
    pointless_create_bitvector_compressed_def push_value_def Let_def
    split: if_split_asm intro: effect_push1)

lemma effect_vectors [effects]:
  "pointless_create_vector_priv c t n = (h, c') \<Longrightarrow> effect c c'"
  "pointless_create_vector_owner_priv c t bytes m = (h, c') \<Longrightarrow> effect c c'"
  unfolding pointless_create_vector_priv_def pointless_create_vector_owner_priv_def push_value_def Let_def
  by (auto split: if_split_asm intro: effect_push [where bs = "[]" and os = "[]"] effect_push [where bs = "[]"])

lemma effect_upd_priv: "upd_priv_vector c v vec = Some c' \<Longrightarrow> effect c c'"
  by (auto simp: upd_priv_vector_def elim!: bind_eq_Some_E intro: effect_values)

lemma effect_append_priv [effects]:
  "pointless_create_vector_append_priv c vector t n y = Some (h, c') \<Longrightarrow> effect c c'"
  by (auto simp: pointless_create_vector_append_priv_def elim!: bind_eq_Some_E split: if_split_asm
      dest: effect_upd_priv)

lemma effect_transfer_priv:
  "pointless_create_vector_transfer_priv c vector xs n = Some (h, c') \<Longrightarrow> effect c c'"
  by (auto simp: pointless_create_vector_transfer_priv_def elim!: bind_eq_Some_E split: if_split_asm
      dest: effect_upd_priv)

lemma effect_items [effects]:
  "pointless_create_vector_value_append c vector x = Some (h, c') \<Longrightarrow> effect c c'"
  "pointless_create_vector_value_set c vector i x = Some c' \<Longrightarrow> effect c c'"
  "pointless_create_vector_u32_transfer c vector xs n = Some (h, c') \<Longrightarrow> effect c c'"
  "pointless_create_vector_value_transfer c vector xs n = Some (h, c') \<Longrightarrow> effect c c'"
  unfolding pointless_create_vector_value_append_def pointless_create_vector_value_set_def
    pointless_create_vector_u32_transfer_def pointless_create_vector_value_transfer_def
  by (auto elim!: bind_eq_Some_E split: if_split_asm
      dest: effect_append_priv effect_transfer_priv effect_upd_priv)

lemma value_id_mark: "value_id (x\<lparr>cr_header := (cr_header x)\<lparr>is_set_map_vector := b\<rparr>\<rparr>) = value_id x"
  by (simp add: value_id_def)

lemma effect_mark:
  assumes "mark_set_map_vector c v = Some c'"
  shows "effect c c'"
  using assms
  by (auto simp: mark_set_map_vector_def upd_value_def arr_set_Some_iff cv_value_at_def arr_get_Some_iff
      map_update value_id_mark list_update_same_conv elim!: bind_eq_Some_E intro!: effect_values)

text \<open>Steps that leave the dictionary alone compose.\<close>

definition quiet :: "pointless_create_t \<Rightarrow> pointless_create_t \<Rightarrow> bool" where
  "quiet c c' \<longleftrightarrow> later c c' \<and> string_unicode_map_judy c' = string_unicode_map_judy c"

lemma quiet_trans: "quiet c1 c2 \<Longrightarrow> quiet c2 c3 \<Longrightarrow> quiet c1 c3"
  by (auto simp: quiet_def intro: later_trans)

lemma quiet_effect: "quiet c c' \<Longrightarrow> effect c c'"
  by (simp add: quiet_def effect_def)

lemma effect_later: "effect c c' \<Longrightarrow> later c c'"
  by (simp add: effect_def)

lemma quiet_vector_priv: "pointless_create_vector_priv c t n = (h, c') \<Longrightarrow> quiet c c'"
  using effect_later [OF effect_vectors(1)]
  by (auto simp: quiet_def pointless_create_vector_priv_def push_value_def Let_def)

lemma quiet_mark: "mark_set_map_vector c v = Some c' \<Longrightarrow> quiet c c'"
  using effect_later [OF effect_mark]
  by (auto simp: quiet_def mark_set_map_vector_def upd_value_def elim!: bind_eq_Some_E)

lemma quiet_push_value:
  "push_value c x = (h, c1) \<Longrightarrow> quiet c (c1\<lparr>set_values := ss\<rparr>)"
  "push_value c x = (h, c1) \<Longrightarrow> quiet c (c1\<lparr>map_values := ms\<rparr>)"
  by (auto simp: quiet_def push_value_def Let_def later_def)

lemma effect_set [effects]:
  assumes "pointless_create_set c = Some (s, c')"
  shows "effect c c'"
proof -
  obtain h c1 where h: "pointless_create_vector_priv c POINTLESS_VECTOR_U32 4 = (h, c1)" by fastforce
  obtain k c2 where k: "pointless_create_vector_priv c1 POINTLESS_VECTOR_VALUE 4 = (k, c2)" by fastforce
  have q: "quiet c c2" by (rule quiet_trans [OF quiet_vector_priv [OF h] quiet_vector_priv [OF k]])
  have "quiet c2 c'" if "c' \<noteq> c2"
    using that assms h k
    by (auto simp: pointless_create_set_def pointless_create_vector_u32_def pointless_create_vector_value_def
        Let_def split: if_split_asm prod.split_asm elim!: bind_eq_Some_E
        dest!: quiet_mark intro!: quiet_trans [OF quiet_trans quiet_push_value(1)])
  with quiet_effect [OF quiet_trans [OF q]] quiet_effect [OF q] show ?thesis by metis
qed

lemma effect_map [effects]:
  assumes "pointless_create_map c = Some (s, c')"
  shows "effect c c'"
proof -
  obtain h c1 where h: "pointless_create_vector_priv c POINTLESS_VECTOR_U32 4 = (h, c1)" by fastforce
  obtain k c2 where k: "pointless_create_vector_priv c1 POINTLESS_VECTOR_VALUE 4 = (k, c2)" by fastforce
  obtain v c3 where v: "pointless_create_vector_priv c2 POINTLESS_VECTOR_VALUE 4 = (v, c3)" by fastforce
  have q: "quiet c c3"
    by (rule quiet_trans [OF quiet_trans [OF quiet_vector_priv [OF h] quiet_vector_priv [OF k]] quiet_vector_priv [OF v]])
  have "quiet c3 c'" if "c' \<noteq> c3"
    using that assms h k v
    by (auto simp: pointless_create_map_def pointless_create_vector_u32_def pointless_create_vector_value_def
        Let_def split: if_split_asm prod.split_asm elim!: bind_eq_Some_E
        dest!: quiet_mark intro!: quiet_trans [OF quiet_trans [OF quiet_trans] quiet_push_value(2)])
  with quiet_effect [OF quiet_trans [OF q]] quiet_effect [OF q] show ?thesis by metis
qed

lemma effect_adds [effects]:
  "pointless_create_set_add c s k = Some (h, c') \<Longrightarrow> effect c c'"
  "pointless_create_map_add c m k v = Some (h, c') \<Longrightarrow> effect c c'"
  "effect c (pointless_create_set_root c r)"
  by (auto simp: pointless_create_set_add_def pointless_create_map_add_def pointless_create_set_root_def
      elim!: bind_eq_Some_E intro!: effect_values)

section \<open>Strings and bitvectors\<close>

lemma conv_loop_length: "string_conv_loop f dst src = Some r \<Longrightarrow> length r = length dst \<and> dst \<noteq> []"
proof (induction f dst src arbitrary: r rule: string_conv_loop.induct)
  case (3 f d ds x xs)
  then show ?case by (cases "x = 0") auto
qed simp_all

lemma length_concat_units [simp]: "length (concat (map (le_bytes w) vv)) = w * length vv"
  by (induction vv) simp_all

lemma string_buffer_fits:
  assumes "length vv = unat (n + 1 :: u64)" and "vv \<noteq> []" and "length (string_buffer (unit_size t) n vv) < 2 ^ 32"
  shows "string_fits t (string_buffer (unit_size t) n vv)"
proof -
  have l: "length (string_buffer (unit_size t) n vv) = 4 + unit_size t * length vv"
    by (simp add: string_buffer_def)
  have "0 < unit_size t" by (simp add: unit_size_def)
  then have "length vv \<le> unit_size t * length vv" by simp
  from le_less_trans [OF this] have lt: "length vv < 2 ^ 32" using l assms(3) by simp
  have "n + 1 \<noteq> 0" using assms(1,2) by (metis length_0_conv unsigned_0)
  then have n: "unat n + 1 = length vv" using assms(1) by (metis add.commute unatSuc Suc_eq_plus1)
  then have "unat (ucast n :: u32) = unat n"
    using lt by (simp add: unsigned_ucast_eq take_bit_eq_mod)
  moreover have "length (string_buffer (unit_size t) n vv) = 4 + unit_size t * (unat n + 1)"
    unfolding n by (rule l)
  ultimately show ?thesis unfolding string_fits_def by (auto simp: string_buffer_def)
qed

lemma effect_string_value:
  assumes "create_string_value c t buffer = (h, c')" and "t \<in> {POINTLESS_UNICODE, POINTLESS_STRING}"
    and "length buffer < 2 ^ 32 \<longrightarrow> string_fits t buffer"
  shows "effect c c'"
proof -
  have "later c c'"
    using assms(1)
    by (auto simp: create_string_value_def push_value_def Let_def later_def split: option.split_asm)
  moreover have "adds_string c c'" using assms unfolding adds_string_def by blast
  ultimately show ?thesis by (simp add: effect_def)
qed

lemma effect_unicode_ucs4 [effects]:
  "pointless_create_unicode_ucs4 c v = Some (h, c') \<Longrightarrow> effect c c'"
proof -
  assume "pointless_create_unicode_ucs4 c v = Some (h, c')"
  then obtain n vv where vv: "string_conv_loop id (replicate (unat (n + 1)) 0) v = Some vv"
    and c: "create_string_value c POINTLESS_UNICODE (string_buffer 4 n vv) = (h, c')"
    by (auto simp: pointless_create_unicode_ucs4_def pointless_ucs4_cpy_def elim!: bind_eq_Some_E)
  have u: "unit_size POINTLESS_UNICODE = 4" by (simp add: unit_size_def)
  from conv_loop_length [OF vv] have "length vv = unat (n + 1)" "vv \<noteq> []" by auto
  from string_buffer_fits [of vv n POINTLESS_UNICODE, OF this, unfolded u] show ?thesis
    by (intro effect_string_value [OF c]) simp_all
qed

lemma effect_string_ascii [effects]:
  "pointless_create_string_ascii c s = Some (h, c') \<Longrightarrow> effect c c'"
proof -
  assume "pointless_create_string_ascii c s = Some (h, c')"
  then obtain n vv where vv: "string_conv_loop id (replicate (unat (n + 1)) 0) s = Some vv"
    and c: "create_string_value c POINTLESS_STRING (string_buffer 1 n vv) = (h, c')"
    by (auto simp: pointless_create_string_ascii_def pointless_ascii_cpy_def elim!: bind_eq_Some_E)
  have u: "unit_size POINTLESS_STRING = 1" by (simp add: unit_size_def)
  from conv_loop_length [OF vv] have "length vv = unat (n + 1)" "vv \<noteq> []" by auto
  from string_buffer_fits [of vv n POINTLESS_STRING, OF this, unfolded u] show ?thesis
    by (intro effect_string_value [OF c]) simp_all
qed

lemma effect_converted [effects]:
  "pointless_create_unicode_ucs2 alloc c w = Some (h, c') \<Longrightarrow> effect c c'"
  "pointless_create_unicode_ascii alloc c s = Some (e, h, c') \<Longrightarrow> effect c c'"
  "pointless_create_string_ucs2 alloc c w = Some (h, c') \<Longrightarrow> effect c c'"
  "pointless_create_string_ucs4 alloc c v = Some (h, c') \<Longrightarrow> effect c c'"
  unfolding pointless_create_unicode_ucs2_def pointless_create_unicode_ascii_def
    pointless_create_string_ucs2_def pointless_create_string_ucs4_def
  by (auto elim!: bind_eq_Some_E split: option.split_asm dest: effect_unicode_ucs4 effect_string_ascii)

lemma effect_bitvectors [effects]:
  "pointless_create_bitvector c s n = Some (h, c') \<Longrightarrow> effect c c'"
  "pointless_create_bitvector_no_normalize c s n = Some (h, c') \<Longrightarrow> effect c c'"
proof -
  have "effect c c'" if "create_bitvector c s n norm = Some (h, c')" "c' \<noteq> c" for norm
    using that
    by (auto simp: create_bitvector_def push_value_def Let_def split: if_split_asm option.split_asm
        elim!: bind_eq_Some_E intro!: effect_push2)
  then show "pointless_create_bitvector c s n = Some (h, c') \<Longrightarrow> effect c c'"
    "pointless_create_bitvector_no_normalize c s n = Some (h, c') \<Longrightarrow> effect c c'"
    unfolding pointless_create_bitvector_def pointless_create_bitvector_no_normalize_def
    by (metis effect_refl)+
qed

lemma create_call_effect:
  assumes "create_call c c'"
  shows "effect c c'"
  using assms by (cases rule: create_call.cases) (erule effects | simp add: effects)+

section \<open>The dictionary of strings\<close>

definition dictionary_ok :: "pointless_create_t \<Rightarrow> bool" where
  "dictionary_ok c \<longleftrightarrow>
     (\<forall>buffer r. string_unicode_map_judy c buffer = Some r \<longrightarrow>
        (\<exists>x. cv_value_at c (ucast r) = Some x \<and> type_29 (cr_header x) \<in> {POINTLESS_UNICODE, POINTLESS_STRING} \<and>
             arr_get (string_unicode_values c) (unat (cr_data x)) = Some buffer \<and>
             (length buffer < 2 ^ 32 \<longrightarrow> string_fits (type_29 (cr_header x)) buffer)))"

lemma dictionary_later:
  assumes "dictionary_ok c" and "later c c'" and "string_unicode_map_judy c' buffer = string_unicode_map_judy c buffer"
    and "string_unicode_map_judy c' buffer = Some r"
  shows "\<exists>x. cv_value_at c' (ucast r) = Some x \<and> type_29 (cr_header x) \<in> {POINTLESS_UNICODE, POINTLESS_STRING} \<and>
             arr_get (string_unicode_values c') (unat (cr_data x)) = Some buffer \<and>
             (length buffer < 2 ^ 32 \<longrightarrow> string_fits (type_29 (cr_header x)) buffer)"
proof -
  from assms(1,3,4) obtain x where x: "cv_value_at c (ucast r) = Some x"
    "type_29 (cr_header x) \<in> {POINTLESS_UNICODE, POINTLESS_STRING}"
    "arr_get (string_unicode_values c) (unat (cr_data x)) = Some buffer"
    "length buffer < 2 ^ 32 \<longrightarrow> string_fits (type_29 (cr_header x)) buffer"
    unfolding dictionary_ok_def by (metis (no_types, lifting))
  from later_value [OF assms(2) x(1)] obtain x' where
    x': "cv_value_at c' (ucast r) = Some x'" "value_id x' = value_id x" by blast
  have "arr_get (string_unicode_values c') (unat (cr_data x)) = Some buffer"
    using later_entry [OF _ x(3)] assms(2) by (simp add: later_def)
  with x x' show ?thesis by (auto simp: value_id_def)
qed

lemma new_string:
  assumes "create_string_value c t buffer = (h, c')" and "string_unicode_map_judy c buffer = None"
    and "create_wf c" and "length (c_values c) < 2 ^ 32"
  shows "h = of_nat (length (c_values c))"
    "string_unicode_map_judy c' = (string_unicode_map_judy c)(buffer \<mapsto> of_nat (length (c_values c)))"
    "cv_value_at c' h = Some \<lparr>cr_header = mk_header t, cr_data = string_unicode_map_judy_count c\<rparr>"
    "arr_get (string_unicode_values c') (unat (string_unicode_map_judy_count c)) = Some buffer"
proof -
  have n: "string_unicode_map_judy_count c = of_nat (length (string_unicode_values c))"
    by (rule create_wfD(3) [OF assms(3)])
  have "length (string_unicode_values c) < 2 ^ 32"
    using table_length_le [OF create_wfD(1) [OF assms(3)], of Heap_String] assms(4) by (simp add: table_length_def)
  then have u: "unat (string_unicode_map_judy_count c) = length (string_unicode_values c)"
    by (simp add: n unat_of_nat)
  show "h = of_nat (length (c_values c))"
    "string_unicode_map_judy c' = (string_unicode_map_judy c)(buffer \<mapsto> of_nat (length (c_values c)))"
    "cv_value_at c' h = Some \<lparr>cr_header = mk_header t, cr_data = string_unicode_map_judy_count c\<rparr>"
    "arr_get (string_unicode_values c') (unat (string_unicode_map_judy_count c)) = Some buffer"
    using assms(1,2,4) u
    by (auto simp: create_string_value_def push_value_def Let_def cv_value_at_def unat_of_nat)
qed

lemma dictionary_step:
  assumes "effect c c'" and "dictionary_ok c" and "create_wf c" and "length (c_values c) < 2 ^ 32"
  shows "dictionary_ok c'"
  unfolding dictionary_ok_def
proof (intro allI impI)
  fix buffer r assume r: "string_unicode_map_judy c' buffer = Some r"
  show "\<exists>x. cv_value_at c' (ucast r) = Some x \<and> type_29 (cr_header x) \<in> {POINTLESS_UNICODE, POINTLESS_STRING} \<and>
             arr_get (string_unicode_values c') (unat (cr_data x)) = Some buffer \<and>
             (length buffer < 2 ^ 32 \<longrightarrow> string_fits (type_29 (cr_header x)) buffer)"
  proof (cases "string_unicode_map_judy c' buffer = string_unicode_map_judy c buffer")
    case True
    from dictionary_later [OF assms(2) effect_later [OF assms(1)] this r] show ?thesis .
  next
    case False
    with assms(1) obtain t b h where t: "t \<in> {POINTLESS_UNICODE, POINTLESS_STRING}"
      "length b < 2 ^ 32 \<longrightarrow> string_fits t b" and b: "create_string_value c t b = (h, c')"
      by (auto simp: effect_def adds_string_def)
    have new: "string_unicode_map_judy c b = None"
      using b False by (auto simp: create_string_value_def split: option.split_asm)
    note ns = new_string [OF b new assms(3,4)]
    have b: "buffer = b" using False ns(2) by (auto split: if_split_asm)
    have "ucast (of_nat (length (c_values c)) :: u64) = (of_nat (length (c_values c)) :: u32)"
      using assms(4) by (simp add: word_unat_eq_iff unsigned_ucast_eq unat_of_nat take_bit_eq_mod)
    then have "ucast r = h" using r ns(1,2) b by simp
    with ns t b show ?thesis by (auto simp: mk_header_def)
  qed
qed

lemma creation_dictionary:
  assumes "creation c"
  shows "dictionary_ok c"
  using assms
proof (induction rule: creation.induct)
  case begin_64
  show ?case by (simp add: dictionary_ok_def pointless_create_begin_64_def create_begin_def)
next
  case (call c c')
  then show ?case
    using dictionary_step [OF create_call_effect] wf_of_creation by auto
qed

end
