(* ===== verification/Output_Prepare.thy ===== *)
theory Output_Prepare
  imports Create_Reach
begin

text \<open>
  What the passes before writing do. The first one numbers the values that will be written; the later
  ones change types inside the vectors and compute the hash tables, but no value moves to another kind
  or to another number.
\<close>

section \<open>Numbered values\<close>

definition n_of_kind :: "heap_kind \<Rightarrow> pointless_create_value_t list \<Rightarrow> nat" where
  "n_of_kind k xs = length (filter (offset_kind k) xs)"

definition numbered_in :: "pointless_create_value_t list \<Rightarrow> bool" where
  "numbered_in xs \<longleftrightarrow>
     (\<forall>k. map cr_data (filter (offset_kind k) xs) = map of_nat [0..<n_of_kind k xs])"

lemma n_of_kind_simps [simp]:
  "n_of_kind k [] = 0"
  "n_of_kind k (xs @ [x]) = (if offset_kind k x then Suc (n_of_kind k xs) else n_of_kind k xs)"
  by (simp_all add: n_of_kind_def)

lemma n_of_kind_le: "n_of_kind k xs \<le> length xs"
  by (simp add: n_of_kind_def)

lemma numbered_in_Nil [simp]: "numbered_in []"
  by (simp add: numbered_in_def n_of_kind_def)

lemma numbered_in_snoc:
  "numbered_in (xs @ [x]) \<longleftrightarrow>
     numbered_in xs \<and> (\<forall>k. offset_kind k x \<longrightarrow> cr_data x = of_nat (n_of_kind k xs))"
  by (auto simp: numbered_in_def n_of_kind_def)

lemma numbered_in_of_numbered: "numbered c \<Longrightarrow> numbered_in (c_values c)"
  unfolding numbered_def numbered_in_def n_of_kind_def
  by (metis length_map length_upt minus_nat.diff_0)

lemma numbered_n_of_kind: "numbered c \<Longrightarrow> n_of_kind k (c_values c) = table_length k c"
  unfolding numbered_def n_of_kind_def by (metis length_map length_upt minus_nat.diff_0)

text \<open>The value at a position and the number it has.\<close>

lemma numbered_in_nth:
  assumes "numbered_in xs" and "i < length xs" and "offset_kind k (xs ! i)"
  shows "cr_data (xs ! i) = of_nat (n_of_kind k (take i xs))"
proof -
  have "xs = take i xs @ [xs ! i] @ drop (Suc i) xs" using assms(2) by (simp add: id_take_nth_drop)
  then have "map cr_data (filter (offset_kind k) xs) =
      map cr_data (filter (offset_kind k) (take i xs)) @ cr_data (xs ! i) #
      map cr_data (filter (offset_kind k) (drop (Suc i) xs))"
    using assms(3) by (metis append_Cons append_Nil filter.simps(2) filter_append list.simps(9) map_append)
  moreover have "n_of_kind k (take i xs) < n_of_kind k xs"
    by (subst (2) id_take_nth_drop [OF assms(2)]) (simp add: n_of_kind_def assms(3))
  ultimately show ?thesis
    using assms(1) unfolding numbered_in_def n_of_kind_def
    by (metis add_0 length_map nth_append_length nth_map_upt minus_nat.diff_0)
qed

lemma numbered_in_cong:
  assumes "length ys = length xs" and "numbered_in xs"
    and "\<And>i k. i < length xs \<Longrightarrow> cr_data (ys ! i) = cr_data (xs ! i) \<and> offset_kind k (ys ! i) = offset_kind k (xs ! i)"
  shows "numbered_in ys" "n_of_kind k ys = n_of_kind k xs"
proof -
  have "map cr_data (filter (offset_kind k) ys) = map cr_data (filter (offset_kind k) xs) \<and>
        n_of_kind k ys = n_of_kind k xs" for k
    using assms(1,3)
  proof (induction ys xs rule: list_induct2)
    case (Cons y ys x xs)
    have "cr_data y = cr_data x \<and> offset_kind k y = offset_kind k x" for k using Cons.prems [of 0] by simp
    moreover have "i < length xs \<Longrightarrow> cr_data (ys ! i) = cr_data (xs ! i) \<and>
        offset_kind k (ys ! i) = offset_kind k (xs ! i)" for i k using Cons.prems [of "Suc i"] by simp
    ultimately show ?case using Cons.IH by (simp add: n_of_kind_def)
  qed simp
  with assms(2) show "numbered_in ys" "n_of_kind k ys = n_of_kind k xs" by (simp_all add: numbered_in_def)
qed

section \<open>What the passes leave alone\<close>

definition same_tables :: "pointless_create_t \<Rightarrow> pointless_create_t \<Rightarrow> bool" where
  "same_tables c c' \<longleftrightarrow>
     outside_vector_values c' = outside_vector_values c \<and> set_values c' = set_values c \<and>
     map_values c' = map_values c \<and> string_unicode_values c' = string_unicode_values c \<and>
     bitvector_values c' = bitvector_values c \<and>
     string_unicode_map_judy_count c' = string_unicode_map_judy_count c \<and>
     bitvector_map_judy_count c' = bitvector_map_judy_count c \<and> c_root c' = c_root c \<and>
     c_version c' = c_version c"

lemma same_tables_refl [simp]: "same_tables c c"
  by (simp add: same_tables_def)

lemma same_tables_trans: "same_tables c1 c2 \<Longrightarrow> same_tables c2 c3 \<Longrightarrow> same_tables c1 c3"
  by (simp add: same_tables_def)

text \<open>Only vectors of small numbers are ever marked as compressed.\<close>

definition compressible :: "pointless_create_value_t \<Rightarrow> bool" where
  "compressible x \<longleftrightarrow> (is_compressed_vector (cr_header x) \<longrightarrow>
     number_width (type_29 (cr_header x)) \<noteq> None \<and>
     type_29 (cr_header x) \<notin> {POINTLESS_VECTOR_I64, POINTLESS_VECTOR_U64})"

text \<open>The slot of a value keeps its kind and number; only a vector of the library may change its type.\<close>

definition same_slot :: "pointless_create_value_t \<Rightarrow> pointless_create_value_t \<Rightarrow> bool" where
  "same_slot x y \<longleftrightarrow> cr_data y = cr_data x \<and> (\<forall>k. offset_kind k y = offset_kind k x) \<and>
     is_outside_vector (cr_header y) = is_outside_vector (cr_header x) \<and>
     (offset_kind Heap_Priv_Vector x \<and> number_width (type_29 (cr_header x)) = None \<or> y = x) \<and>
     (compressible x \<longrightarrow> compressible y)"

lemma same_slot_refl [simp]: "same_slot x x"
  by (simp add: same_slot_def)

lemma same_slot_trans: "same_slot x y \<Longrightarrow> same_slot y z \<Longrightarrow> same_slot x z"
  by (auto simp: same_slot_def)

definition keeps :: "nat \<Rightarrow> pointless_create_t \<Rightarrow> pointless_create_t \<Rightarrow> bool" where
  "keeps n c c' \<longleftrightarrow> same_tables c c' \<and> length (c_values c) \<le> length (c_values c') \<and>
     (\<forall>i < n. same_slot (c_values c ! i) (c_values c' ! i))"

lemma keeps_refl [simp]: "keeps n c c"
  by (simp add: keeps_def)

lemma keeps_trans: "keeps n c1 c2 \<Longrightarrow> keeps n c2 c3 \<Longrightarrow> keeps n c1 c3"
  unfolding keeps_def by (blast intro: same_tables_trans same_slot_trans le_trans)

lemma keeps_loop:
  assumes "for_loop f is c = Some (Inr c')"
    and "\<And>i c1 c2. i \<in> set is \<Longrightarrow> length (c_values c) \<le> length (c_values c1) \<Longrightarrow>
           f i c1 = Some (Inr c2) \<Longrightarrow> keeps n c1 c2"
  shows "keeps n c c'"
proof (rule for_loop_invariant [OF assms(1)])
  fix i c1 c2
  assume i: "i \<in> set is" and k: "keeps n c c1" and f: "f i c1 = Some (Inr c2)"
  from k have "length (c_values c) \<le> length (c_values c1)" by (simp add: keeps_def)
  from keeps_trans [OF k assms(2) [OF i this f]] show "keeps n c c2" .
qed simp

section \<open>Marking and compressing vectors\<close>

lemma keeps_upd_at:
  assumes "upd_at c i f = Some c'" and "cv_value_at c (of_nat i) = Some x" and "same_slot x (f x)"
  shows "keeps n c c'"
  using assms
  by (auto simp: upd_at_def upd_value_def arr_set_Some_iff keeps_def same_tables_def cv_value_at_def
      arr_get_Some_iff nth_list_update elim!: bind_eq_Some_E)

lemma same_slot_retype:
  assumes "type_29 (cr_header x) \<in> {POINTLESS_VECTOR_VALUE, POINTLESS_VECTOR_VALUE_HASHABLE}"
    and "\<not> is_outside_vector (cr_header x)"
    and "pointless_is_vector_type (type_29 (cr_header y))" "type_29 (cr_header y) \<noteq> POINTLESS_VECTOR_EMPTY"
    and "is_outside_vector (cr_header y) = is_outside_vector (cr_header x)" "cr_data y = cr_data x"
    and "compressible x \<longrightarrow> compressible y"
  shows "same_slot x y"
proof -
  have "offset_kind k x \<longleftrightarrow> k = Heap_Priv_Vector" "offset_kind k y \<longleftrightarrow> k = Heap_Priv_Vector" for k
    using assms by (cases k; auto simp: offset_kind_def Let_def pointless_is_vector_type_def)+
  moreover have "number_width (type_29 (cr_header x)) = None"
    using assms(1) by (auto simp: number_width_def)
  ultimately show ?thesis using assms(5-7) by (simp add: same_slot_def)
qed

lemma mark_hashable_keeps:
  assumes "mark_hashable marker i c = Some (Inr c')"
  shows "keeps n c c'"
proof -
  from assms obtain x where x: "cv_value_at c (of_nat i) = Some x"
    unfolding mark_hashable_def by (auto elim!: bind_eq_Some_E)
  let ?f = "\<lambda>x. x\<lparr>cr_header := (cr_header x)\<lparr>type_29 := POINTLESS_VECTOR_VALUE_HASHABLE\<rparr>\<rparr>"
  show ?thesis
  proof (cases "c' = c")
    case False
    with assms x have "type_29 (cr_header x) = POINTLESS_VECTOR_VALUE" "\<not> is_outside_vector (cr_header x)"
      and u: "upd_at c i ?f = Some c'"
      unfolding mark_hashable_def by (auto elim!: bind_eq_Some_E split: if_split_asm)
    then have "same_slot x (?f x)"
      by (intro same_slot_retype) (simp_all add: pointless_is_vector_type_def compressible_def number_width_def)
    from keeps_upd_at [OF u x this] show ?thesis .
  qed simp
qed

text \<open>What vectors are compressed to.\<close>

lemma compression_of_range_type:
  "compression_of_range a b \<in> {POINTLESS_VECTOR_VALUE, POINTLESS_VECTOR_I8, POINTLESS_VECTOR_U8,
     POINTLESS_VECTOR_I16, POINTLESS_VECTOR_U16, POINTLESS_VECTOR_I32, POINTLESS_VECTOR_U32}"
  by (simp add: compression_of_range_def)

lemma compression_vector:
  assumes "pointless_create_vector_compression c v = Some t" and "cv_value_type c v = Some t0"
    and "t0 \<in> {POINTLESS_VECTOR_VALUE, POINTLESS_VECTOR_VALUE_HASHABLE}"
  shows "t \<in> {POINTLESS_VECTOR_VALUE, POINTLESS_VECTOR_VALUE_HASHABLE, POINTLESS_VECTOR_I8,
     POINTLESS_VECTOR_U8, POINTLESS_VECTOR_I16, POINTLESS_VECTOR_U16, POINTLESS_VECTOR_I32,
     POINTLESS_VECTOR_U32, POINTLESS_VECTOR_FLOAT}"
proof -
  from assms(1,2) obtain r where "t = (case r of None \<Rightarrow> t0 | Some Floats \<Rightarrow> POINTLESS_VECTOR_FLOAT
      | Some Nothing_yet \<Rightarrow> compression_of_range 0 0
      | Some (Ints min_int max_int) \<Rightarrow> compression_of_range min_int max_int)"
    unfolding pointless_create_vector_compression_def by (auto elim!: bind_eq_Some_E)
  then consider "t = t0" | "t = POINTLESS_VECTOR_FLOAT" | a b where "t = compression_of_range a b"
    by (auto split: option.split_asm found.split_asm)
  then show ?thesis
  proof cases
    case (3 a b)
    with compression_of_range_type [of a b] show ?thesis by blast
  qed (use assms(3) in blast)+
qed

lemma compressed_type:
  assumes "t \<in> {POINTLESS_VECTOR_VALUE, POINTLESS_VECTOR_VALUE_HASHABLE, POINTLESS_VECTOR_I8,
     POINTLESS_VECTOR_U8, POINTLESS_VECTOR_I16, POINTLESS_VECTOR_U16, POINTLESS_VECTOR_I32,
     POINTLESS_VECTOR_U32, POINTLESS_VECTOR_FLOAT}"
  shows "pointless_is_vector_type t" "t \<noteq> POINTLESS_VECTOR_EMPTY"
    "t \<notin> {POINTLESS_VECTOR_VALUE, POINTLESS_VECTOR_VALUE_HASHABLE} \<Longrightarrow>
      number_width t \<noteq> None \<and> t \<notin> {POINTLESS_VECTOR_I64, POINTLESS_VECTOR_U64}"
  using assms by (elim insertE; simp add: pointless_is_vector_type_def number_width_def)+

lemma uncompressed_type:
  "t \<in> {POINTLESS_VECTOR_VALUE, POINTLESS_VECTOR_VALUE_HASHABLE} \<Longrightarrow> number_width t = None"
  by (elim insertE) (simp_all add: number_width_def)

lemma compress_vector_keeps:
  assumes "compress_vector i c = Some (Inr c')"
  shows "keeps n c c'"
proof -
  from assms obtain x where x: "cv_value_at c (of_nat i) = Some x"
    unfolding compress_vector_def by (auto elim!: bind_eq_Some_E)
  show ?thesis
  proof (cases "c' = c")
    case False
    let ?f = "\<lambda>t x. x\<lparr>cr_header := (cr_header x)\<lparr>type_29 := t, is_compressed_vector :=
        (if t \<notin> {POINTLESS_VECTOR_VALUE, POINTLESS_VECTOR_VALUE_HASHABLE} then True
         else is_compressed_vector (cr_header x))\<rparr>\<rparr>"
    from False assms x obtain t where
      ty: "type_29 (cr_header x) \<in> {POINTLESS_VECTOR_VALUE, POINTLESS_VECTOR_VALUE_HASHABLE}"
        "\<not> is_outside_vector (cr_header x)"
      and t: "pointless_create_vector_compression c (of_nat i) = Some t" and u: "upd_at c i (?f t) = Some c'"
      unfolding compress_vector_def by (auto elim!: bind_eq_Some_E split: if_split_asm)
    have "cv_value_type c (of_nat i) = Some (type_29 (cr_header x))"
      using x by (simp add: cv_value_type_def)
    note ct = compressed_type [OF compression_vector [OF t this ty(1)]]
    have "compressible x \<longrightarrow> compressible (?f t x)"
      using ct(3) uncompressed_type [OF ty(1)] by (simp add: compressible_def)
    with ct(1,2) ty have "same_slot x (?f t x)" by (intro same_slot_retype) simp_all
    from keeps_upd_at [OF u x this] show ?thesis .
  qed simp
qed

section \<open>Computing the hash tables\<close>

lemma upd_priv_vector_keeps: "upd_priv_vector c v vec = Some c' \<Longrightarrow> keeps n c c' \<and> c_values c' = c_values c"
  by (auto simp: upd_priv_vector_def keeps_def same_tables_def elim!: bind_eq_Some_E)

lemma transfer_priv_keeps:
  "pointless_create_vector_transfer_priv c v xs m = Some (h, c') \<Longrightarrow> keeps n c c' \<and> c_values c' = c_values c"
  by (auto simp: pointless_create_vector_transfer_priv_def elim!: bind_eq_Some_E split: if_split_asm
      dest: upd_priv_vector_keeps)

lemma value_transfer_keeps:
  "pointless_create_vector_value_transfer c v xs m = Some (h, c') \<Longrightarrow> keeps n c c' \<and> c_values c' = c_values c"
  by (auto simp: pointless_create_vector_value_transfer_def elim!: bind_eq_Some_E split: if_split_asm
      dest: transfer_priv_keeps)

lemma transfer_or_Inr:
  "transfer_or e r = Some (Inr c') \<Longrightarrow> \<exists>h. r = Some (h, c')"
  by (auto simp: transfer_or_def elim!: bind_eq_Some_E split: if_split_asm)

lemma transfer_table_keeps:
  assumes "transfer_table c sh sk sv m tbl = Some (Inr c')"
  shows "keeps n c c'"
proof -
  from assms obtain c1 c2 where c1: "transfer_or ''unable to transfer hash_serialize vector''
         (pointless_create_vector_u32_transfer c sh (hash_serialize tbl) m) = Some (Inr c1)"
    and c2: "transfer_or ''unable to transfer keys_serialize vector''
         (pointless_create_vector_value_transfer c1 sk (keys_serialize tbl) m) = Some (Inr c2)"
    and c3: "(case (sv, values_serialize tbl) of
        (Some sv, Some vs) \<Rightarrow> transfer_or ''unable to transfer values_serialize_vector''
           (pointless_create_vector_value_transfer c2 sv vs m)
      | _ \<Rightarrow> Some (Inr c2)) = Some (Inr c')"
    unfolding transfer_table_def by (auto elim!: bind_eq_Some_E split: sum.split_asm)
  have "keeps n c c1" using transfer_or_Inr [OF c1] transfer_priv_keeps
    by (auto simp: pointless_create_vector_u32_transfer_def)
  moreover have "keeps n c1 c2" using transfer_or_Inr [OF c2] value_transfer_keeps by blast
  moreover have "keeps n c2 c'"
    using c3 value_transfer_keeps by (auto split: option.split_asm dest!: transfer_or_Inr)
  ultimately show ?thesis by (blast intro: keeps_trans)
qed

lemma empty_slot_keeps:
  assumes "pointless_create_empty_slot c = (h, c')" and "n \<le> length (c_values c)"
  shows "keeps n c c'"
  using assms
  by (auto simp: pointless_create_empty_slot_def pointless_create_empty_slot_priv_def push_value_def
      Let_def keeps_def same_tables_def nth_append split: if_split_asm)

lemma create_tables_keeps:
  assumes "create_tables fuel ty i c = Some (Inr c')" and "n \<le> length (c_values c)"
  shows "keeps n c c'"
proof (cases "c' = c")
  case False
  with assms(1) have t: "pointless_hash_table_create fuel c (of_nat i) = Some (Inr c')"
    unfolding create_tables_def by (auto elim!: bind_eq_Some_E split: if_split_asm)
  obtain h c1 where h: "pointless_create_empty_slot c = (h, c1)" by fastforce
  from t h obtain sh sk sv m tbl where "transfer_table c1 sh sk sv m tbl = Some (Inr c')"
    unfolding pointless_hash_table_create_def
    by (auto simp: Let_def elim!: bind_eq_Some_E split: sum.split_asm if_split_asm)
  from keeps_trans [OF empty_slot_keeps [OF h assms(2)] transfer_table_keeps [OF this]] show ?thesis .
qed simp

end
