(* ===== verification/Output_Count.thy ===== *)
theory Output_Count
  imports Output_Prepare
begin

text \<open>
  The first pass before writing, which numbers the vectors that are kept and drops the empty ones.
\<close>

section \<open>The invariant of the pass\<close>

text \<open>What the pass makes of a value: an empty vector becomes a value, other vectors get a new number.\<close>

definition counted_slot :: "pointless_create_t \<Rightarrow> pointless_create_vector_priv_t list \<Rightarrow>
    pointless_create_value_t \<Rightarrow> pointless_create_value_t \<Rightarrow> bool" where
  "counted_slot c0 new x0 x \<longleftrightarrow>
     (if offset_kind Heap_Priv_Vector x0
      then (\<exists>vec. cv_get_priv_vector c0 x0 = Some vec \<and>
              (if vp_items vec = [] \<and> \<not> is_set_map_vector (cr_header x0)
               then x = x0\<lparr>cr_header := (cr_header x0)\<lparr>type_29 := POINTLESS_VECTOR_EMPTY\<rparr>, cr_data := 0\<rparr>
               else cr_header x = cr_header x0 \<and> arr_get new (unat (cr_data x)) = Some vec))
      else x = x0)"

lemma counted_slot_append: "counted_slot c0 new x0 x \<Longrightarrow> counted_slot c0 (new @ vs) x0 x"
  by (fastforce simp: counted_slot_def arr_get_Some_iff nth_append split: if_split_asm)

definition counted :: "pointless_create_t \<Rightarrow> nat \<Rightarrow> count_state \<Rightarrow> bool" where
  "counted c0 i st \<longleftrightarrow>
     (let vs = c_values (ct_create st); done = take i vs in
      ct_create st = c0\<lparr>c_values := vs\<rparr> \<and> length vs = length (c_values c0) \<and>
      drop i vs = drop i (c_values c0) \<and> numbered_in done \<and>
      length (ct_new_priv st) = n_of_kind Heap_Priv_Vector done \<and>
      ct_n_priv st = of_nat (n_of_kind Heap_Priv_Vector done) \<and>
      ct_n_outside st = of_nat (n_of_kind Heap_Outside_Vector done) \<and>
      ct_n_sets st = of_nat (n_of_kind Heap_Set done) \<and> ct_n_maps st = of_nat (n_of_kind Heap_Map done) \<and>
      (\<forall>k. k \<noteq> Heap_Priv_Vector \<longrightarrow> n_of_kind k done = n_of_kind k (take i (c_values c0))) \<and>
      (\<forall>j < i. counted_slot c0 (ct_new_priv st) (c_values c0 ! j) (vs ! j)))"

text \<open>One value; \<open>vs\<close> are the vectors it adds.\<close>

lemma counted_step:
  assumes "counted c0 i st" and "i < length (c_values c0)"
    and "st' = \<lparr>ct_create = (ct_create st)\<lparr>c_values := (c_values (ct_create st))[i := x]\<rparr>,
           ct_new_priv = ct_new_priv st @ vs,
           ct_n_priv = (if offset_kind Heap_Priv_Vector x then ct_n_priv st + 1 else ct_n_priv st),
           ct_n_outside = (if offset_kind Heap_Outside_Vector x then ct_n_outside st + 1 else ct_n_outside st),
           ct_n_sets = (if offset_kind Heap_Set x then ct_n_sets st + 1 else ct_n_sets st),
           ct_n_maps = (if offset_kind Heap_Map x then ct_n_maps st + 1 else ct_n_maps st)\<rparr>"
    and "\<And>k. offset_kind k x \<Longrightarrow> cr_data x = of_nat (n_of_kind k (take i (c_values (ct_create st))))"
    and "\<And>k. k \<noteq> Heap_Priv_Vector \<Longrightarrow> offset_kind k x = offset_kind k (c_values c0 ! i)"
    and "length vs = (if offset_kind Heap_Priv_Vector x then 1 else 0)"
    and "counted_slot c0 (ct_new_priv st @ vs) (c_values c0 ! i) x"
  shows "counted c0 (Suc i) st'"
proof -
  let ?vs = "c_values (ct_create st)"
  have len: "length ?vs = length (c_values c0)" using assms(1) by (simp add: counted_def Let_def)
  have t: "take (Suc i) (?vs[i := x]) = take i ?vs @ [x]"
    using assms(2) len by (simp add: take_Suc_conv_app_nth)
  have t0: "take (Suc i) (c_values c0) = take i (c_values c0) @ [c_values c0 ! i]"
    using assms(2) by (simp add: take_Suc_conv_app_nth)
  have d: "drop (Suc i) (?vs[i := x]) = drop (Suc i) (c_values c0)"
    using assms(1) by (simp add: counted_def Let_def) (metis drop_Suc tl_drop)
  have sl: "counted_slot c0 (ct_new_priv st @ vs) (c_values c0 ! j) (?vs[i := x] ! j)" if "j < Suc i" for j
    using that assms(1,2,7) len counted_slot_append
    by (cases "j = i") (auto simp: counted_def Let_def)
  have n: "numbered_in (take i ?vs @ [x])"
    using assms(1,4) by (simp add: numbered_in_snoc counted_def Let_def)
  have c0: "(ct_create st)\<lparr>c_values := ?vs[i := x]\<rparr> = c0\<lparr>c_values := ?vs[i := x]\<rparr>"
    using assms(1) unfolding counted_def Let_def
    by (metis (no_types, lifting) pointless_create_t.update_convs(3) pointless_create_t.surjective)
  show ?thesis
    using assms(1,5,6) len c0 d n sl
    unfolding counted_def Let_def assms(3)
    by (simp add: t t0)
qed

section \<open>The pass keeps the invariant\<close>

text \<open>Which of the branches of the pass a value takes.\<close>

lemma counted_kinds:
  assumes "value_ok c x"
  shows "offset_kind Heap_Priv_Vector x \<longleftrightarrow>
      (type_29 (cr_header x) = POINTLESS_VECTOR_VALUE \<or> number_width (type_29 (cr_header x)) \<noteq> None) \<and>
      \<not> is_outside_vector (cr_header x)"
    "offset_kind Heap_Outside_Vector x \<longleftrightarrow>
      (type_29 (cr_header x) = POINTLESS_VECTOR_VALUE \<or> number_width (type_29 (cr_header x)) \<noteq> None) \<and>
      is_outside_vector (cr_header x)"
  using assms
  by (auto simp: value_ok_def offset_kind_def Let_def pointless_is_vector_type_def number_width_def
      split: if_split_asm)

lemma set_map_kinds:
  "offset_kind Heap_Set x \<longleftrightarrow> type_29 (cr_header x) = POINTLESS_SET_VALUE"
  "offset_kind Heap_Map x \<longleftrightarrow> type_29 (cr_header x) = POINTLESS_MAP_VALUE_VALUE"
  by (simp_all add: offset_kind_def Let_def)

lemma upd_at_values:
  assumes "upd_at c i f = Some c'" and "i < length (c_values c)" and "length (c_values c) < 2 ^ 32"
  shows "c' = c\<lparr>c_values := (c_values c)[i := f (c_values c ! i)]\<rparr>"
  using assms
  by (auto simp: upd_at_def upd_value_def arr_set_Some_iff cv_value_at_def arr_get_Some_iff unat_of_nat
      elim!: bind_eq_Some_E)

lemma kind_of_empty:
  "\<not> offset_kind k (x\<lparr>cr_header := h\<lparr>type_29 := POINTLESS_VECTOR_EMPTY\<rparr>, cr_data := d\<rparr>)"
  by (cases k) (simp_all add: offset_kind_def pointless_is_vector_type_def)

lemma kind_of_data: "offset_kind k (x\<lparr>cr_data := d\<rparr>) = offset_kind k x"
  by (rule offset_kind_cong) simp_all

lemma counted_current:
  assumes "counted c0 i st" and "i < length (c_values c0)"
  shows "c_values (ct_create st) ! i = c_values c0 ! i" "length (c_values (ct_create st)) = length (c_values c0)"
    "cv_get_priv_vector (ct_create st) = cv_get_priv_vector c0"
proof -
  show "length (c_values (ct_create st)) = length (c_values c0)" using assms(1) by (simp add: counted_def Let_def)
  then show "c_values (ct_create st) ! i = c_values c0 ! i"
    using assms unfolding counted_def Let_def by (metis drop_eq_nths hd_drop_conv_nth)
  have "ct_create st = c0\<lparr>c_values := c_values (ct_create st)\<rparr>" using assms(1) by (simp add: counted_def Let_def)
  then have "priv_vector_values (ct_create st) = priv_vector_values c0"
    by (metis pointless_create_t.ext_inject pointless_create_t.surjective pointless_create_t.update_convs(3))
  then show "cv_get_priv_vector (ct_create st) = cv_get_priv_vector c0"
    by (simp add: fun_eq_iff cv_get_priv_vector_def)
qed

lemma counted_numbers:
  assumes "counted c0 i st" and "i < length (c_values c0)" and "numbered c0" and "k \<noteq> Heap_Priv_Vector"
    and "offset_kind k (c_values c0 ! i)"
  shows "cr_data (c_values c0 ! i) = of_nat (n_of_kind k (take i (c_values (ct_create st))))"
  using numbered_in_nth [OF numbered_in_of_numbered [OF assms(3)] assms(2,5)] assms(1,4)
  by (simp add: counted_def Let_def)

lemma counted_same:
  assumes "counted c0 i st" and "i < length (c_values c0)" and "numbered c0"
    and "\<not> offset_kind Heap_Priv_Vector (c_values c0 ! i)" and "cr_data x = cr_data (c_values c0 ! i)"
    and "cr_header x = cr_header (c_values c0 ! i)"
    and "st' = \<lparr>ct_create = (ct_create st)\<lparr>c_values := (c_values (ct_create st))[i := x]\<rparr>,
           ct_new_priv = ct_new_priv st, ct_n_priv = ct_n_priv st,
           ct_n_outside = (if offset_kind Heap_Outside_Vector x then ct_n_outside st + 1 else ct_n_outside st),
           ct_n_sets = (if offset_kind Heap_Set x then ct_n_sets st + 1 else ct_n_sets st),
           ct_n_maps = (if offset_kind Heap_Map x then ct_n_maps st + 1 else ct_n_maps st)\<rparr>"
  shows "counted c0 (Suc i) st'"
proof -
  have x: "x = c_values c0 ! i" using assms(5,6) by simp
  show ?thesis
  proof (rule counted_step [OF assms(1,2), where x = x and vs = "[]"])
    fix k assume "offset_kind k x"
    with assms(4) x show "cr_data x = of_nat (n_of_kind k (take i (c_values (ct_create st))))"
      using counted_numbers [OF assms(1,2,3), of k] by auto
  qed (use assms(4,7) x in \<open>simp_all add: counted_slot_def\<close>)
qed

lemma count_value_step:
  assumes "count_value i st = Some (Inr st')" and "counted c0 i st" and "create_wf c0"
    and "i < length (c_values c0)" and "length (c_values c0) < 2 ^ 32"
  shows "counted c0 (Suc i) st'"
proof -
  let ?x = "c_values c0 ! i" and ?c = "ct_create st"
  note cur = counted_current [OF assms(2,4)]
  have vx: "cv_value_at ?c (of_nat i) = Some ?x"
    using assms(4,5) cur by (simp add: cv_value_at_def unat_of_nat)
  have ok: "value_ok c0 ?x" using create_wfD(2) [OF assms(3)] assms(4) by simp
  note kinds = counted_kinds [OF ok] set_map_kinds [of ?x]
  have dis: "\<And>k k'. offset_kind k ?x \<Longrightarrow> offset_kind k' ?x \<Longrightarrow> k' = k" by (rule offset_kind_disjoint)
  have upd: "upd_at ?c i f = Some c' \<Longrightarrow> c' = ?c\<lparr>c_values := (c_values ?c)[i := f ?x]\<rparr>" for f c'
    using upd_at_values [of ?c i f c'] assms(4,5) cur by simp
  note same = counted_same [OF assms(2,4) create_wfD(1) [OF assms(3)]]
  consider (priv) "offset_kind Heap_Priv_Vector ?x" | (outside) "offset_kind Heap_Outside_Vector ?x"
    | (set) "offset_kind Heap_Set ?x" | (map) "offset_kind Heap_Map ?x"
    | (other) "\<not> offset_kind Heap_Priv_Vector ?x" "\<not> offset_kind Heap_Outside_Vector ?x"
        "\<not> offset_kind Heap_Set ?x" "\<not> offset_kind Heap_Map ?x" by blast
  then show ?thesis
  proof cases
    case priv
    from ok priv obtain vec where vec: "cv_get_priv_vector c0 ?x = Some vec" by (auto simp: value_ok_def)
    show ?thesis
    proof (cases "vp_items vec = [] \<and> \<not> is_set_map_vector (cr_header ?x)")
      case True
      let ?x' = "?x\<lparr>cr_header := (cr_header ?x)\<lparr>type_29 := POINTLESS_VECTOR_EMPTY\<rparr>, cr_data := 0\<rparr>"
      have st': "st' = st\<lparr>ct_create := ?c\<lparr>c_values := (c_values ?c)[i := ?x']\<rparr>\<rparr>"
        using assms(1) priv True vec vx cur kinds
        by (auto simp: count_value_def elim!: bind_eq_Some_E dest!: upd)
      show ?thesis
        by (rule counted_step [OF assms(2,4), where x = ?x' and vs = "[]"])
          (use priv True vec dis in \<open>auto simp: st' kind_of_empty counted_slot_def\<close>)
    next
      case False
      let ?x' = "?x\<lparr>cr_data := ct_n_priv st\<rparr>"
      have st': "st' = st\<lparr>ct_create := ?c\<lparr>c_values := (c_values ?c)[i := ?x']\<rparr>,
          ct_new_priv := ct_new_priv st @ [vec], ct_n_priv := ct_n_priv st + 1\<rparr>"
        using assms(1) priv False vec vx cur kinds
        by (auto simp: count_value_def elim!: bind_eq_Some_E dest!: upd)
      have no: "\<not> offset_kind k ?x" if "k \<noteq> Heap_Priv_Vector" for k using dis [OF priv] that by blast
      have n: "ct_n_priv st = of_nat (n_of_kind Heap_Priv_Vector (take i (c_values ?c)))"
        "length (ct_new_priv st) = n_of_kind Heap_Priv_Vector (take i (c_values ?c))"
        using assms(2) by (simp_all add: counted_def Let_def)
      have "length (ct_new_priv st) \<le> i"
        using n(2) n_of_kind_le [of Heap_Priv_Vector "take i (c_values ?c)"] by simp
      then have "unat (ct_n_priv st) = length (ct_new_priv st)"
        using n assms(4,5) by (simp add: unat_of_nat)
      then have get: "arr_get (ct_new_priv st @ [vec]) (unat (ct_n_priv st)) = Some vec" by simp
      then have slot: "counted_slot c0 (ct_new_priv st @ [vec]) ?x ?x'"
        using priv False vec by (auto simp: counted_slot_def)
      show ?thesis
        by (rule counted_step [OF assms(2,4), where x = ?x' and vs = "[vec]"])
          (use priv n(1) no slot dis in \<open>auto simp: st' kind_of_data\<close>)
    qed
  next
    case outside
    with kinds dis [OF outside] have st': "st' = st\<lparr>ct_n_outside := ct_n_outside st + 1\<rparr>"
      using assms(1) vx by (auto simp: count_value_def Let_def)
    show ?thesis
      by (rule same [of ?x]) (use outside dis [OF outside] cur st' assms(4) in
        \<open>auto simp: list_update_same_conv [THEN iffD2]\<close>)
  next
    case set
    let ?x' = "?x\<lparr>cr_data := ct_n_sets st\<rparr>"
    have "type_29 (cr_header ?x) = POINTLESS_SET_VALUE" using set kinds by simp
    then have st': "st' = st\<lparr>ct_create := ?c\<lparr>c_values := (c_values ?c)[i := ?x']\<rparr>, ct_n_sets := ct_n_sets st + 1\<rparr>"
      using assms(1) vx by (auto simp: count_value_def number_width_def Let_def elim!: bind_eq_Some_E dest!: upd)
    have "ct_n_sets st = cr_data ?x"
      using counted_numbers [OF assms(2,4) create_wfD(1) [OF assms(3)] _ set] assms(2)
      by (simp add: counted_def Let_def)
    then show ?thesis
      by (intro same [of ?x']) (use set dis [OF set] st' in \<open>auto simp: kind_of_data\<close>)
  next
    case map
    let ?x' = "?x\<lparr>cr_data := ct_n_maps st\<rparr>"
    have "type_29 (cr_header ?x) = POINTLESS_MAP_VALUE_VALUE" using map kinds by simp
    then have st': "st' = st\<lparr>ct_create := ?c\<lparr>c_values := (c_values ?c)[i := ?x']\<rparr>, ct_n_maps := ct_n_maps st + 1\<rparr>"
      using assms(1) vx by (auto simp: count_value_def number_width_def Let_def elim!: bind_eq_Some_E dest!: upd)
    have "ct_n_maps st = cr_data ?x"
      using counted_numbers [OF assms(2,4) create_wfD(1) [OF assms(3)] _ map] assms(2)
      by (simp add: counted_def Let_def)
    then show ?thesis
      by (intro same [of ?x']) (use map dis [OF map] st' in \<open>auto simp: kind_of_data\<close>)
  next
    case other
    with kinds have "st' = st" using assms(1) vx by (auto simp: count_value_def Let_def)
    with other show ?thesis
      by (intro same [of ?x]) (use cur in \<open>auto simp: list_update_same_conv [THEN iffD2] assms(4)\<close>)
  qed
qed

section \<open>All the passes\<close>

text \<open>The loops count up over the values.\<close>

lemma for_loop_upt:
  assumes "for_loop f [m..<n] s = Some (Inr s')" and "P m s" and "m \<le> n"
    and "\<And>i s s'. m \<le> i \<Longrightarrow> i < n \<Longrightarrow> P i s \<Longrightarrow> f i s = Some (Inr s') \<Longrightarrow> P (Suc i) s'"
  shows "P n s'"
  using assms
proof (induction "n - m" arbitrary: m s)
  case (Suc d)
  then have m: "[m..<n] = m # [Suc m..<n]" by (simp add: upt_conv_Cons)
  with Suc.prems(1) obtain s1 where s1: "f m s = Some (Inr s1)" "for_loop f [Suc m..<n] s1 = Some (Inr s')"
    by (auto simp: for_loop_Cons_Inr simp del: for_loop.simps)
  show ?case
    by (rule Suc.hyps(1) [OF _ s1(2)]) (use Suc.prems Suc.hyps(2) s1(1) in auto)
qed simp

lemma count_loop:
  assumes "for_loop count_value [0..<length (c_values c)]
      \<lparr>ct_create = c, ct_new_priv = [], ct_n_priv = 0, ct_n_outside = 0, ct_n_sets = 0, ct_n_maps = 0\<rparr> = Some (Inr st)"
    and "create_wf c" and "length (c_values c) < 2 ^ 32"
  shows "counted c (length (c_values c)) st"
proof (rule for_loop_upt [OF assms(1)])
  show "counted c 0 \<lparr>ct_create = c, ct_new_priv = [], ct_n_priv = 0, ct_n_outside = 0, ct_n_sets = 0, ct_n_maps = 0\<rparr>"
    by (simp add: counted_def)
qed (use count_value_step assms(2,3) in auto)

text \<open>What is known of the state that is written.\<close>

definition prepared :: "pointless_create_t \<Rightarrow> count_state \<Rightarrow> bool" where
  "prepared c0 st \<longleftrightarrow>
     (\<exists>st1. counted c0 (length (c_values c0)) st1 \<and>
        st = st1\<lparr>ct_create := ct_create st\<rparr> \<and>
        keeps (length (c_values c0)) ((ct_create st1)\<lparr>priv_vector_values := ct_new_priv st1\<rparr>) (ct_create st))"

lemma prepare_output_prepared:
  assumes "prepare_output fuel c = Some (Inr st)" and "create_wf c" and "length (c_values c) < 2 ^ 32"
  shows "prepared c st"
proof -
  let ?n = "length (c_values c)"
  have n: "unat (of_nat ?n :: u32) = ?n" using assms(3) by (simp add: unat_of_nat)
  from assms(1) obtain st1 marker c2 c3 c4 c5 where
    l1: "for_loop count_value [0..<?n]
      \<lparr>ct_create = c, ct_new_priv = [], ct_n_priv = 0, ct_n_outside = 0, ct_n_sets = 0, ct_n_maps = 0\<rparr> = Some (Inr st1)"
    and l2: "for_loop (mark_hashable marker) [0..<?n] ((ct_create st1)\<lparr>priv_vector_values := ct_new_priv st1\<rparr>) = Some (Inr c2)"
    and l3: "for_loop compress_vector [0..<?n] c2 = Some (Inr c3)"
    and l4: "for_loop (create_tables fuel POINTLESS_SET_VALUE) [0..<?n] c3 = Some (Inr c4)"
    and l5: "for_loop (create_tables fuel POINTLESS_MAP_VALUE_VALUE) [0..<?n] c4 = Some (Inr c5)"
    and st: "st = st1\<lparr>ct_create := c5\<rparr>"
    unfolding prepare_output_def Let_def n by (auto simp: and_then_Inr_iff split: if_split_asm)
  note cnt = count_loop [OF l1 assms(2,3)]
  let ?c1 = "(ct_create st1)\<lparr>priv_vector_values := ct_new_priv st1\<rparr>"
  have len: "length (c_values ?c1) = ?n" using cnt by (simp add: counted_def Let_def)
  have k2: "keeps ?n ?c1 c2" by (rule keeps_loop [OF l2]) (rule mark_hashable_keeps)
  have k3: "keeps ?n c2 c3" by (rule keeps_loop [OF l3]) (rule compress_vector_keeps)
  have n3: "?n \<le> length (c_values c3)" using k2 k3 len by (simp add: keeps_def)
  have k4: "keeps ?n c3 c4"
    by (rule keeps_loop [OF l4]) (rule create_tables_keeps, assumption, use n3 in simp)
  have n4: "?n \<le> length (c_values c4)" using k4 n3 by (simp add: keeps_def)
  have k5: "keeps ?n c4 c5"
    by (rule keeps_loop [OF l5]) (rule create_tables_keeps, assumption, use n4 in simp)
  have "keeps ?n ?c1 c5" by (rule keeps_trans [OF keeps_trans [OF keeps_trans [OF k2 k3] k4] k5])
  with cnt st show ?thesis unfolding prepared_def by auto
qed

end
