(* ===== verification/Output_Layout.thy ===== *)
theory Output_Layout
  imports Create_Output
begin

text \<open>
  Where the writer puts what it writes. The serialisation functions call back for every piece they
  write; the locale \<open>appending_cb\<close> is the contract of the callbacks, and inside it the bytes of every
  function are computed. The buffer callbacks meet the contract.
\<close>

section \<open>Padding\<close>

definition pad4 :: "u8 list \<Rightarrow> u8 list" where
  "pad4 bs = bs @ replicate ((4 - length bs mod 4) mod 4) 0"

lemma length_pad4: "length (pad4 bs) = length bs + (4 - length bs mod 4) mod 4"
  by (simp add: pad4_def)

lemma pad4_mod [simp]: "length (pad4 bs) mod 4 = 0"
proof -
  have "(n + (4 - n mod 4) mod 4) mod 4 = 0" for n :: nat
    by (simp add: mod_simps mod_add_right_eq) presburger
  then show ?thesis by (simp add: length_pad4)
qed

lemma pad4_append: "length xs mod 4 = 0 \<Longrightarrow> pad4 (xs @ ys) = xs @ pad4 ys"
  by (simp add: pad4_def mod_add_eq [of "length xs" 4 "length ys", symmetric])

lemma align_lookup_nat:
  assumes "r < 4"
  shows "unat ([0, 3, 2, 1] ! r :: u64) = (4 - r) mod 4"
proof -
  from assms consider "r = 0" | "r = 1" | "r = 2" | "r = 3" by linarith
  then show ?thesis by cases simp_all
qed

lemma align_lookup:
  "unat ([0, 3, 2, 1] ! unat (v mod 4 :: u64) :: u64) = (4 - unat v mod 4) mod 4"
proof -
  have r: "unat (v mod 4) = unat v mod 4" by (simp add: unat_mod)
  show ?thesis unfolding r by (rule align_lookup_nat) simp
qed

lemma unat_align:
  assumes "unat v + 3 < 2 ^ 64"
  shows "unat (align_next_4_64 v) = unat v + (4 - unat v mod 4) mod 4"
    "unat (align_next_4_size_t v) = unat v + (4 - unat v mod 4) mod 4"
proof -
  have "(4 - unat v mod 4) mod 4 < 4" by (rule mod_less_divisor) simp
  then have "unat v + unat ([0, 3, 2, 1] ! unat (v mod 4 :: u64) :: u64) < 2 ^ LENGTH(64)"
    using assms by (simp add: align_lookup)
  from unat_add_lem [THEN iffD1, OF this]
  show "unat (align_next_4_64 v) = unat v + (4 - unat v mod 4) mod 4"
    "unat (align_next_4_size_t v) = unat v + (4 - unat v mod 4) mod 4"
    by (simp_all add: align_next_4_64_def align_next_4_size_t_def align_lookup)
qed

section \<open>What is written for a value\<close>

definition string_image :: "nat \<Rightarrow> u8 list \<Rightarrow> u8 list option" where
  "string_image w buf =
     do { len \<leftarrow> read_u32 buf 0; chars \<leftarrow> bytes_at buf 4 (unat (len + 1) * w);
          Some (le_bytes 4 len @ chars) }"

definition outside_image :: "pointless_create_t \<Rightarrow> u32 \<Rightarrow> u8 list option" where
  "outside_image c v =
     do { vec \<leftarrow> cv_outside_vector_at c v;
          t \<leftarrow> cv_value_type c v;
          w \<leftarrow> number_width t;
          items \<leftarrow> bytes_at (vo_items vec) 0 (w * unat (vo_n_items vec));
          Some (le_bytes 4 (vo_n_items vec) @ items) }"

definition item_image ::
    "pointless_create_t \<Rightarrow> u32 \<Rightarrow> bool \<Rightarrow> u32 \<Rightarrow> pointless_create_vector_priv_t \<Rightarrow> nat \<Rightarrow> u8 list option" where
  "item_image c n_priv compressed t vec i =
     do { h \<leftarrow> read_u32 (vp_data vec) (4 * i); serialize_item c n_priv compressed t h }"

definition priv_items_image ::
    "pointless_create_t \<Rightarrow> u32 \<Rightarrow> pointless_create_value_t \<Rightarrow> pointless_create_vector_priv_t \<Rightarrow>
     u8 list option" where
  "priv_items_image c n_priv x vec =
     (let t = type_29 (cr_header x);
          uncompressed = t \<in> {POINTLESS_VECTOR_VALUE, POINTLESS_VECTOR_VALUE_HASHABLE};
          compressed = (\<not> uncompressed \<and> is_compressed_vector (cr_header x))
      in if \<not> uncompressed \<and> \<not> compressed
         then bytes_at (vp_data vec) 0
                ((case number_width t of None \<Rightarrow> 0 | Some w \<Rightarrow> w) * unat (vp_n_items vec))
         else map_option concat
                (those (map (item_image c n_priv compressed t vec) [0..<unat (vp_n_items vec)])))"

definition priv_image :: "pointless_create_t \<Rightarrow> u32 \<Rightarrow> u32 \<Rightarrow> u8 list option" where
  "priv_image c n_priv v =
     do { vec \<leftarrow> cv_priv_vector_at c v;
          x \<leftarrow> cv_value_at c v;
          items \<leftarrow> priv_items_image c n_priv x vec;
          Some (le_bytes 4 (vp_n_items vec) @ items) }"

definition bitvector_image :: "u8 list \<Rightarrow> u8 list option" where
  "bitvector_image buf =
     do { len \<leftarrow> read_u32 buf 0; bits \<leftarrow> bytes_at buf 4 (unat (ICEIL len 8));
          Some (le_bytes 4 len @ bits) }"

definition set_image :: "pointless_create_t \<Rightarrow> u32 \<Rightarrow> u32 \<Rightarrow> u8 list option" where
  "set_image c n_priv v =
     do { s \<leftarrow> cv_set_at c v;
          hv \<leftarrow> pointless_create_to_read_value c (cs_serialize_hash s) n_priv;
          kv \<leftarrow> pointless_create_to_read_value c (cs_serialize_keys s) n_priv;
          Some (set_header_bytes \<lparr>sh_n_items = of_nat (length (cs_keys s)), sh_padding = 0,
                                  sh_hash_vector = hv, sh_key_vector = kv\<rparr>) }"

definition map_image :: "pointless_create_t \<Rightarrow> u32 \<Rightarrow> u32 \<Rightarrow> u8 list option" where
  "map_image c n_priv v =
     do { m \<leftarrow> cv_map_at c v;
          hv \<leftarrow> pointless_create_to_read_value c (cm_serialize_hash m) n_priv;
          kv \<leftarrow> pointless_create_to_read_value c (cm_serialize_keys m) n_priv;
          vv \<leftarrow> pointless_create_to_read_value c (cm_serialize_values m) n_priv;
          Some (map_header_bytes \<lparr>mh_n_items = of_nat (length (cm_keys m)), mh_padding = 0,
                                  mh_hash_vector = hv, mh_key_vector = kv, mh_value_vector = vv\<rparr>) }"

definition heap_image ::
    "heap_kind \<Rightarrow> pointless_create_t \<Rightarrow> u32 \<Rightarrow> u32 \<Rightarrow> pointless_create_value_t \<Rightarrow> u8 list option" where
  "heap_image k c n_priv v x =
     (case k of
        Heap_String \<Rightarrow>
          if type_29 (cr_header x) = POINTLESS_UNICODE then Option.bind (cv_get_unicode c x) (string_image 4)
          else Option.bind (cv_get_string c x) (string_image 1)
      | Heap_Priv_Vector \<Rightarrow> priv_image c n_priv v
      | Heap_Outside_Vector \<Rightarrow> outside_image c v
      | Heap_Bitvector \<Rightarrow> Option.bind (cv_get_bitvector c x) bitvector_image
      | Heap_Set \<Rightarrow> set_image c n_priv v
      | Heap_Map \<Rightarrow> map_image c n_priv v)"

section \<open>The contract of the callbacks\<close>

locale appending_cb =
  fixes cb :: "'s pointless_create_cb_t" and content :: "'s \<Rightarrow> u8 list"
  assumes write_appends: "cb_write cb bs s = Inr s' \<Longrightarrow> content s' = content s @ bs"
    and align_pads: "cb_align_4 cb s = Inr s' \<Longrightarrow> content s' = pad4 (content s)"
begin

text \<open>Two pieces and the padding, the shape of most of the functions.\<close>

lemma two_pieces:
  assumes "and_then (Some (cb_write cb bs s)) (\<lambda>s. and_then (Some (cb_write cb cs s))
             (\<lambda>s. Some (cb_align_4 cb s))) = Some (Inr s')"
  shows "content s' = pad4 (content s @ bs @ cs)"
  using assms by (auto simp: and_then_Inr_iff dest!: write_appends align_pads)

lemma one_piece:
  assumes "and_then (Some (cb_write cb bs s)) (\<lambda>s. Some (cb_align_4 cb s)) = Some (Inr s')"
  shows "content s' = pad4 (content s @ bs)"
  using assms by (auto simp: and_then_Inr_iff dest!: write_appends align_pads)

lemma serialize_string_content:
  assumes "pointless_serialize_string cb buf s = Some (Inr s')"
  shows "\<exists>d. string_image 1 buf = Some d \<and> content s' = pad4 (content s @ d)"
  using assms unfolding pointless_serialize_string_def string_image_def
  by (auto elim!: bind_eq_Some_E dest!: two_pieces)

lemma serialize_unicode_content:
  assumes "pointless_serialize_unicode cb buf s = Some (Inr s')"
  shows "\<exists>d. string_image 4 buf = Some d \<and> content s' = pad4 (content s @ d)"
  using assms unfolding pointless_serialize_unicode_def string_image_def
  by (auto elim!: bind_eq_Some_E dest!: two_pieces)

lemma serialize_bitvector_content:
  assumes "pointless_serialize_bitvector cb buf s = Some (Inr s')"
  shows "\<exists>d. bitvector_image buf = Some d \<and> content s' = pad4 (content s @ d)"
  using assms unfolding pointless_serialize_bitvector_def bitvector_image_def
  by (auto elim!: bind_eq_Some_E dest!: two_pieces)

lemma serialize_set_content:
  assumes "pointless_serialize_set cb c v n_priv s = Some (Inr s')"
  shows "\<exists>d. set_image c n_priv v = Some d \<and> content s' = pad4 (content s @ d)"
  using assms unfolding pointless_serialize_set_def set_image_def
  by (auto elim!: bind_eq_Some_E dest!: one_piece)

lemma serialize_map_content:
  assumes "pointless_serialize_map cb c v n_priv s = Some (Inr s')"
  shows "\<exists>d. map_image c n_priv v = Some d \<and> content s' = pad4 (content s @ d)"
  using assms unfolding pointless_serialize_map_def map_image_def
  by (auto elim!: bind_eq_Some_E dest!: one_piece)

lemma serialize_outside_content:
  assumes "pointless_serialize_vector_outside c v cb s = Some (Inr s')"
  shows "\<exists>d. outside_image c v = Some d \<and> content s' = pad4 (content s @ d)"
  using assms unfolding pointless_serialize_vector_outside_def outside_image_def
  by (auto simp: and_then_Inr_iff elim!: bind_eq_Some_E split: option.split_asm
      dest!: write_appends align_pads)

lemma write_loop_content:
  assumes "for_loop (\<lambda>i s. do { h \<leftarrow> f i; bs \<leftarrow> g h; Some (cb_write cb bs s) }) is s = Some (Inr s')"
  shows "\<exists>ds. those (map (\<lambda>i. do { h \<leftarrow> f i; g h }) is) = Some ds \<and> content s' = content s @ concat ds"
  using assms
proof (induction "is" arbitrary: s)
  case (Cons i "is")
  then show ?case
    by (fastforce simp: for_loop_Cons_Inr elim!: bind_eq_Some_E dest!: write_appends simp del: for_loop.simps)
qed simp

lemma write_priv_items_content:
  assumes "write_priv_items c x vec cb n_priv s = Some (Inr s')"
  shows "\<exists>d. priv_items_image c n_priv x vec = Some d \<and> content s' = content s @ d"
  using assms write_loop_content unfolding write_priv_items_def priv_items_image_def Let_def item_image_def
  by (auto split: if_split_asm elim!: bind_eq_Some_E dest!: write_appends write_loop_content)

lemma serialize_priv_content:
  assumes "pointless_serialize_vector_priv c v cb n_priv s = Some (Inr s')"
  shows "\<exists>d. priv_image c n_priv v = Some d \<and> content s' = pad4 (content s @ d)"
  using assms unfolding pointless_serialize_vector_priv_def priv_image_def
  by (auto simp: and_then_Inr_iff elim!: bind_eq_Some_E dest!: write_appends align_pads
      write_priv_items_content)

lemma serialize_value_content:
  assumes "serialize_value cb c n_priv k v x s = Some (Inr s')"
  shows "\<exists>d. heap_image k c n_priv v x = Some d \<and> content s' = pad4 (content s @ d)"
  using assms unfolding serialize_value_def heap_image_def
  by (cases k) (auto split: if_split_asm elim!: bind_eq_Some_E dest!: serialize_string_content
      serialize_unicode_content serialize_bitvector_content serialize_set_content serialize_map_content
      serialize_outside_content serialize_priv_content)

text \<open>The objects of one kind, written from an aligned position.\<close>

lemma write_heap_content:
  assumes "write_heap cb c n_priv k is s = Some (Inr s')" and "length (content s) mod 4 = 0"
  shows "\<exists>ds. those (map (\<lambda>i. Option.bind (cv_value_at c (of_nat i)) (heap_image k c n_priv (of_nat i)))
              (filter (\<lambda>i. \<exists>x. cv_value_at c (of_nat i) = Some x \<and> heap_data_kind k x) is)) = Some ds \<and>
    content s' = content s @ concat (map pad4 ds)"
  using assms
proof (induction "is" arbitrary: s)
  case Nil
  then show ?case by (simp add: write_heap_def)
next
  case (Cons i "is")
  from Cons.prems(1) obtain x s1 where x: "cv_value_at c (of_nat i) = Some x"
    and s1: "(if heap_data_kind k x then serialize_value cb c n_priv k (of_nat i) x s else Some (Inr s)) = Some (Inr s1)"
    and r: "write_heap cb c n_priv k is s1 = Some (Inr s')"
    unfolding write_heap_def for_loop_Cons_Inr by (auto elim!: bind_eq_Some_E)
  show ?case
  proof (cases "heap_data_kind k x")
    case True
    with s1 obtain d where d: "heap_image k c n_priv (of_nat i) x = Some d" "content s1 = pad4 (content s @ d)"
      using serialize_value_content by fastforce
    with Cons.prems(2) have "content s1 = content s @ pad4 d" "length (content s1) mod 4 = 0"
      by (simp_all add: pad4_append) (metis pad4_append pad4_mod length_append)
    with Cons.IH [OF r] True x d show ?thesis by auto
  next
    case False
    with s1 Cons.IH [OF r] Cons.prems(2) x show ?thesis by simp
  qed
qed

end

text \<open>The buffer.\<close>

interpretation buffer: appending_cb "\<lparr>cb_write = dynarray_write, cb_align_4 = dynarray_align_4\<rparr>" "\<lambda>a. a"
proof
  fix bs s s' :: "u8 list"
  assume "cb_write \<lparr>cb_write = dynarray_write, cb_align_4 = dynarray_align_4\<rparr> bs s = Inr s'"
  then show "s' = s @ bs" by (simp add: dynarray_write_def push_bytes_def split: if_split_asm)
next
  fix s s' :: "u8 list"
  assume "cb_align_4 \<lparr>cb_write = dynarray_write, cb_align_4 = dynarray_align_4\<rparr> s = Inr s'"
  then have l: "length s < 2 ^ 63"
    and e: "s' = s @ replicate (unat (align_next_4_size_t (of_nat (length s))) - unat (of_nat (length s) :: u64)) 0"
    by (auto simp: dynarray_align_4_def push_bytes_def Let_def split: if_split_asm)
  have u: "unat (of_nat (length s) :: u64) = length s" using l by (simp add: unat_of_nat)
  have "unat (align_next_4_size_t (of_nat (length s))) = length s + (4 - length s mod 4) mod 4"
    using unat_align(2) [of "of_nat (length s)"] l by (simp add: u)
  with e u show "s' = pad4 s" by (simp add: pad4_def)
qed

end
