(* ===== verification/Output_Offsets.thy ===== *)
theory Output_Offsets
  imports Output_Layout
begin

text \<open>
  The offset vectors and the heap as a whole: the objects of a file in the order they are written, the
  offset of every one, and the bytes of a file in terms of both.
\<close>

section \<open>Collecting partial results\<close>

lemma those_append:
  "those (xs @ ys) = do { a \<leftarrow> those xs; b \<leftarrow> those ys; Some (a @ b) }"
proof (induction xs)
  case Nil
  show ?case by (cases "those ys") simp_all
next
  case (Cons x xs)
  then show ?case by (cases x; cases "those xs"; cases "those ys") simp_all
qed

lemma those_SomeD:
  "those xs = Some ys \<Longrightarrow> length ys = length xs \<and> (\<forall>i < length xs. xs ! i = Some (ys ! i))"
proof (induction xs arbitrary: ys)
  case (Cons x xs)
  then obtain y ys' where "x = Some y" "those xs = Some ys'" "ys = y # ys'"
    by (auto split: option.split_asm)
  with Cons.IH [of ys'] show ?case by (auto simp: nth_Cons split: nat.split)
qed simp

section \<open>The objects\<close>

text \<open>The values with heap data, kind by kind, each with its kind.\<close>

definition is_object :: "pointless_create_t \<Rightarrow> heap_kind \<Rightarrow> nat \<Rightarrow> bool" where
  "is_object c k i \<longleftrightarrow> (\<exists>x. cv_value_at c (of_nat i) = Some x \<and> offset_kind k x)"

definition objects :: "pointless_create_t \<Rightarrow> heap_kind list \<Rightarrow> nat list \<Rightarrow> (heap_kind \<times> nat) list" where
  "objects c ks is = concat (map (\<lambda>k. map (Pair k) (filter (is_object c k) is)) ks)"

definition object_size :: "pointless_create_t \<Rightarrow> heap_kind \<times> nat \<Rightarrow> u64 option" where
  "object_size c ob = Option.bind (cv_value_at c (of_nat (snd ob))) (heap_size (fst ob) c)"

definition object_image :: "pointless_create_t \<Rightarrow> u32 \<Rightarrow> heap_kind \<times> nat \<Rightarrow> u8 list option" where
  "object_image c n_priv ob =
     Option.bind (cv_value_at c (of_nat (snd ob))) (heap_image (fst ob) c n_priv (of_nat (snd ob)))"

text \<open>Both loops look at the same values.\<close>

definition kinds_agree :: "pointless_create_t \<Rightarrow> nat list \<Rightarrow> bool" where
  "kinds_agree c is \<longleftrightarrow>
     (\<forall>i \<in> set is. \<forall>x k. cv_value_at c (of_nat i) = Some x \<longrightarrow> heap_data_kind k x = offset_kind k x)"

lemma kinds_agree_filter:
  "kinds_agree c is \<Longrightarrow>
     filter (\<lambda>i. \<exists>x. cv_value_at c (of_nat i) = Some x \<and> heap_data_kind k x) is = filter (is_object c k) is"
  by (rule filter_cong) (auto simp: kinds_agree_def is_object_def)

section \<open>Offsets\<close>

fun running :: "u64 \<Rightarrow> u64 list \<Rightarrow> u64 list" where
  "running off [] = []"
| "running off (n # ns) = off # running (align_next_4_64 (off + n)) ns"

fun offset_after :: "u64 \<Rightarrow> u64 list \<Rightarrow> u64" where
  "offset_after off [] = off"
| "offset_after off (n # ns) = offset_after (align_next_4_64 (off + n)) ns"

lemma length_running [simp]: "length (running off ns) = length ns"
  by (induction ns arbitrary: off) simp_all

lemma running_append: "running off (ns @ ms) = running off ns @ running (offset_after off ns) ms"
  by (induction ns arbitrary: off) simp_all

lemma offset_after_append: "offset_after off (ns @ ms) = offset_after (offset_after off ns) ms"
  by (induction ns arbitrary: off) simp_all

text \<open>When the sizes are those of the objects, an offset is the position of the object in the heap.\<close>

lemma running_positions:
  assumes "map unat ns = map length ds" and "unat off + length (concat (map pad4 ds)) < 2 ^ 63"
    and "unat off mod 4 = 0" and "j < length ds"
  shows "unat (running off ns ! j) = unat off + length (concat (map pad4 (take j ds)))"
  using assms
proof (induction ns arbitrary: off ds j)
  case (Cons n ns)
  then obtain d ds' where ds: "ds = d # ds'" and n: "unat n = length d" and ns: "map unat ns = map length ds'"
    by (cases ds) auto
  show ?case
  proof (cases j)
    case (Suc j')
    let ?off = "align_next_4_64 (off + n)"
    have lt: "unat off + length (pad4 d) < 2 ^ 63" using Cons.prems(2) by (simp add: ds)
    then have "unat off + length d < 2 ^ 63" by (simp add: length_pad4)
    with n have o1: "unat (off + n) = unat off + length d"
      by (subst unat_add_lem [THEN iffD1]) simp_all
    have m: "(unat off + length d) mod 4 = length d mod 4"
      using Cons.prems(3) by (simp add: mod_add_eq [of "unat off" 4, symmetric])
    have o: "unat ?off = unat off + length (pad4 d)"
      using unat_align(1) [of "off + n"] lt o1 m by (simp add: length_pad4)
    then have "unat ?off mod 4 = 0"
      using Cons.prems(3) by (simp add: mod_add_eq [of "unat off" 4, symmetric])
    moreover have "unat ?off + length (concat (map pad4 ds')) < 2 ^ 63"
      using Cons.prems(2) o by (simp add: ds add.assoc)
    ultimately have "unat (running ?off ns ! j') = unat ?off + length (concat (map pad4 (take j' ds')))"
      using Cons.prems(4) Suc ds by (intro Cons.IH [OF ns]) simp_all
    then show ?thesis by (simp add: Suc ds o)
  qed simp
qed simp

section \<open>The bytes of the output\<close>

lemma length_header_bytes: "length (header_bytes h) = 32"
  by (simp add: header_bytes_def value_bytes_def)

lemma length_offset_bytes: "length (concat (map (le_bytes 8) (ws :: u64 list))) = 8 * length ws"
  by (induction ws) simp_all

context appending_cb
begin

lemma write_offset_content:
  assumes "write_offset cb n (s, off) = Some (Inr (s', off'))"
  shows "content s' = content s @ le_bytes 8 off \<and> off' = align_next_4_64 (off + n)"
  using assms by (auto simp: write_offset_def and_then_Inr_iff dest!: write_appends)

lemma write_offsets_content:
  assumes "write_offsets cb c k is (s, off) = Some (Inr (s', off'))"
  shows "\<exists>ns. those (map (object_size c) (map (Pair k) (filter (is_object c k) is))) = Some ns \<and>
    content s' = content s @ concat (map (le_bytes 8) (running off ns)) \<and> off' = offset_after off ns"
  using assms
proof (induction "is" arbitrary: s off)
  case Nil
  then show ?case by (simp add: write_offsets_def)
next
  case (Cons i "is")
  from Cons.prems obtain x s1 off1 where x: "cv_value_at c (of_nat i) = Some x"
    and s1: "(if offset_kind k x then do { n \<leftarrow> heap_size k c x; write_offset cb n (s, off) }
              else Some (Inr (s, off))) = Some (Inr (s1, off1))"
    and r: "write_offsets cb c k is (s1, off1) = Some (Inr (s', off'))"
    unfolding write_offsets_def for_loop_Cons_Inr by (auto elim!: bind_eq_Some_E)
  show ?case
  proof (cases "offset_kind k x")
    case True
    with s1 obtain n where n: "heap_size k c x = Some n" "write_offset cb n (s, off) = Some (Inr (s1, off1))"
      by (auto elim!: bind_eq_Some_E)
    from Cons.IH [OF r] write_offset_content [OF n(2)] n(1) True x show ?thesis
      by (auto simp: object_size_def is_object_def)
  next
    case False
    with s1 Cons.IH [OF r] x show ?thesis by (auto simp: is_object_def)
  qed
qed

lemma all_offsets_content:
  assumes "for_loop (\<lambda>k su. write_offsets cb c k is su) ks (s, off) = Some (Inr (s', off'))"
  shows "\<exists>ns. those (map (object_size c) (objects c ks is)) = Some ns \<and>
    content s' = content s @ concat (map (le_bytes 8) (running off ns))"
  using assms
proof (induction ks arbitrary: s off)
  case (Cons k ks)
  then obtain s1 off1 where w: "write_offsets cb c k is (s, off) = Some (Inr (s1, off1))"
    and r: "for_loop (\<lambda>k su. write_offsets cb c k is su) ks (s1, off1) = Some (Inr (s', off'))"
    by (auto simp: for_loop_Cons_Inr simp del: for_loop.simps)
  from write_offsets_content [OF w] Cons.IH [OF r] show ?case
    by (auto simp: objects_def those_append running_append simp del: map_map)
qed (simp add: objects_def)

lemma all_heap_content:
  assumes "for_loop (\<lambda>k s. write_heap cb c n_priv k is s) ks s = Some (Inr s')"
    and "length (content s) mod 4 = 0" and "kinds_agree c is"
  shows "\<exists>ds. those (map (object_image c n_priv) (objects c ks is)) = Some ds \<and>
    content s' = content s @ concat (map pad4 ds)"
  using assms(1,2)
proof (induction ks arbitrary: s)
  case (Cons k ks)
  then obtain s1 where w: "write_heap cb c n_priv k is s = Some (Inr s1)"
    and r: "for_loop (\<lambda>k s. write_heap cb c n_priv k is s) ks s1 = Some (Inr s')"
    by (auto simp: for_loop_Cons_Inr simp del: for_loop.simps)
  from write_heap_content [OF w Cons.prems(2)] obtain ds where
    ds: "those (map (object_image c n_priv) (map (Pair k) (filter (is_object c k) is))) = Some ds"
      "content s1 = content s @ concat (map pad4 ds)"
    unfolding kinds_agree_filter [OF assms(3)] by (auto simp: object_image_def o_def)
  have "length (concat (map pad4 ds)) mod 4 = 0"
    by (induction ds) (simp_all add: mod_add_eq [of "length (pad4 _)" 4, symmetric])
  then have "length (content s1) mod 4 = 0"
    using ds(2) Cons.prems(2) by (simp add: mod_add_eq [of "length (content s)" 4, symmetric])
  from Cons.IH [OF r this] ds show ?case by (auto simp: objects_def those_append simp del: map_map)
qed (simp add: objects_def)

lemma write_output_content:
  assumes "write_output st is cb s = Some (Inr s')" and "content s = []" and "kinds_agree (ct_create st) is"
  shows "\<exists>h ns ds. output_header st = Some h \<and>
    those (map (object_size (ct_create st)) (objects (ct_create st) heap_kinds is)) = Some ns \<and>
    those (map (object_image (ct_create st) (ct_n_priv st)) (objects (ct_create st) heap_kinds is)) = Some ds \<and>
    content s' = header_bytes h @ concat (map (le_bytes 8) (running 0 ns)) @ concat (map pad4 ds)"
proof -
  let ?c = "ct_create st"
  from assms(1) obtain h s1 s2 off where h: "output_header st = Some h"
    and s1: "cb_write cb (header_bytes h) s = Inr s1"
    and s2: "for_loop (\<lambda>k su. write_offsets cb ?c k is su) heap_kinds (s1, 0) = Some (Inr (s2, off))"
    and s3: "for_loop (\<lambda>k s. write_heap cb ?c (ct_n_priv st) k is s) heap_kinds s2 = Some (Inr s')"
    by (auto simp: write_output_def Let_def and_then_Inr_iff elim!: bind_eq_Some_E)
  have c1: "content s1 = header_bytes h" using write_appends [OF s1] assms(2) by simp
  from all_offsets_content [OF s2] obtain ns where
    ns: "those (map (object_size ?c) (objects ?c heap_kinds is)) = Some ns"
      "content s2 = header_bytes h @ concat (map (le_bytes 8) (running 0 ns))" using c1 by auto
  have "length (content s2) mod 4 = 0"
    by (simp add: ns(2) length_header_bytes length_offset_bytes)
  from all_heap_content [OF s3 this assms(3)] ns h show ?thesis by auto
qed

end

end
