(* ===== verification/Output_Sizes.thy ===== *)
theory Output_Sizes
  imports Output_Prepare Output_Offsets
begin

text \<open>The size the offsets are computed with is the length of what is written, below 4 gigabytes.\<close>

lemma length_bytes_at: "bytes_at buf pos n = Some bs \<Longrightarrow> length bs = n"
  by (auto simp: bytes_at_def split: if_split_asm)

lemma length_value_bytes [simp]: "length (value_bytes v) = 8"
  by (simp add: value_bytes_def)

lemma length_compressed_item:
  "number_width t = Some w \<Longrightarrow> t \<notin> {POINTLESS_VECTOR_I64, POINTLESS_VECTOR_U64} \<Longrightarrow>
   length (compressed_item t x) = w"
  by (auto simp: number_width_def compressed_item_def Let_def split: if_split_asm)

lemma length_concat_those:
  assumes "those xs = Some ds" and "\<And>d. Some d \<in> set xs \<Longrightarrow> length d = w"
  shows "length (concat ds) = w * length xs"
  using assms
proof (induction xs arbitrary: ds)
  case (Cons x xs)
  then obtain d ds' where "x = Some d" "those xs = Some ds'" "ds = d # ds'" by (auto split: option.split_asm)
  with Cons.IH [of ds'] Cons.prems(2) show ?case by fastforce
qed simp

text \<open>The number of bytes of an item of a vector of the library in the file.\<close>

definition file_width :: "u32 \<Rightarrow> nat" where
  "file_width t =
     (if t \<in> {POINTLESS_VECTOR_VALUE, POINTLESS_VECTOR_VALUE_HASHABLE} then 8
      else case number_width t of None \<Rightarrow> 0 | Some w \<Rightarrow> w)"

lemma length_priv_items:
  assumes "priv_items_image c n_priv x vec = Some d" and "compressible x"
  shows "length d = file_width (type_29 (cr_header x)) * unat (vp_n_items vec)"
proof -
  let ?t = "type_29 (cr_header x)"
  let ?unc = "?t \<in> {POINTLESS_VECTOR_VALUE, POINTLESS_VECTOR_VALUE_HASHABLE}"
  show ?thesis
  proof (cases "\<not> ?unc \<and> \<not> is_compressed_vector (cr_header x)")
    case True
    with assms(1) show ?thesis
      by (auto simp: priv_items_image_def file_width_def Let_def dest: length_bytes_at split: option.split)
  next
    case False
    let ?cmp = "\<not> ?unc \<and> is_compressed_vector (cr_header x)"
    from False have nc: "\<not> (\<not> ?unc \<and> \<not> ?cmp)" by blast
    from assms(1) have "map_option concat (those (map (item_image c n_priv ?cmp ?t vec)
        [0..<unat (vp_n_items vec)])) = Some d"
      unfolding priv_items_image_def Let_def if_not_P [OF nc] .
    then obtain ds where
      ds: "those (map (item_image c n_priv ?cmp ?t vec) [0..<unat (vp_n_items vec)]) = Some ds" "d = concat ds"
      by blast
    have "length b = file_width ?t" if "item_image c n_priv ?cmp ?t vec i = Some b" for i b
    proof (cases ?cmp)
      case True
      with assms(2) obtain w where "number_width ?t = Some w" "?t \<notin> {POINTLESS_VECTOR_I64, POINTLESS_VECTOR_U64}"
        by (auto simp: compressible_def)
      with that True length_compressed_item [of ?t w] show ?thesis
        by (auto simp: item_image_def serialize_item_def file_width_def elim!: bind_eq_Some_E)
    next
      case False
      with \<open>\<not> (\<not> ?unc \<and> \<not> is_compressed_vector (cr_header x))\<close> have ?unc by blast
      with that False show ?thesis
        by (auto simp: item_image_def serialize_item_def file_width_def elim!: bind_eq_Some_E)
    qed
    then have "length b = file_width ?t" if "Some b \<in> set (map (item_image c n_priv ?cmp ?t vec) [0..<unat (vp_n_items vec)])" for b
      using that unfolding set_map by (elim imageE) (metis (lifting))
    from length_concat_those [OF ds(1) this] show ?thesis unfolding ds(2) by simp
  qed
qed

lemma unat_truncated:
  assumes "m < 2 ^ 32"
  shows "unat (ucast (ucast (of_nat m :: u64) :: u32) :: u64) = m"
proof -
  have "unat (ucast (of_nat m :: u64) :: u32) = m"
    using assms by (simp add: unat_of_nat unsigned_ucast_eq take_bit_eq_mod)
  then show ?thesis by (simp add: unat_ucast_up)
qed

lemma unat_vector_size:
  assumes "4 + w * unat n < 2 ^ 32" 
  shows "unat (ucast (ucast (4 + (ucast n :: u64) * of_nat w) :: u32) :: u64) = 4 + w * unat (n :: u32)"
proof -
  have "unat (ucast n :: u64) = unat n" by (rule unat_ucast_up) simp
  then have "(ucast n :: u64) = of_nat (unat n)" by (simp add: word_unat_eq_iff unat_of_nat)
  then have "(4 + (ucast n :: u64) * of_nat w) = of_nat (4 + w * unat n)"
    by (simp add: mult.commute)
  with unat_truncated [OF assms] show ?thesis by (simp add: mult.commute)
qed

lemma vector_width:
  assumes "pointless_is_vector_type t" and "t \<noteq> POINTLESS_VECTOR_EMPTY"
  shows "vector_heap_size t n = ucast (4 + (ucast n :: u64) * of_nat (file_width t))"
proof (cases "t \<in> {POINTLESS_VECTOR_VALUE, POINTLESS_VECTOR_VALUE_HASHABLE}")
  case True
  then show ?thesis by (simp add: vector_heap_size_def file_width_def)
next
  case False
  with assms have "number_width t \<noteq> None" by (auto simp: pointless_is_vector_type_def number_width_def)
  with False show ?thesis by (auto simp: vector_heap_size_def file_width_def)
qed

lemma priv_heap_size:
  assumes "heap_size Heap_Priv_Vector c x = Some s" and "priv_image c n_priv v = Some d"
    and "cv_value_at c v = Some x" and "offset_kind Heap_Priv_Vector x" and "compressible x" and "length d < 2 ^ 32"
  shows "unat s = length d"
proof -
  let ?t = "type_29 (cr_header x)"
  from assms(1-3) obtain vec items where vec: "cv_get_priv_vector c x = Some vec"
    and s: "s = ucast (vector_heap_size ?t (vp_n_items vec))"
    and i: "priv_items_image c n_priv x vec = Some items" "d = le_bytes 4 (vp_n_items vec) @ items"
    by (auto simp: heap_size_def priv_image_def cv_priv_vector_at_def elim!: bind_eq_Some_E)
  from length_priv_items [OF i(1) assms(5)] i(2)
  have len: "length d = 4 + file_width ?t * unat (vp_n_items vec)" by simp
  have "vector_heap_size ?t (vp_n_items vec) =
      ucast (4 + (ucast (vp_n_items vec) :: u64) * of_nat (file_width ?t))"
    using assms(4) vector_width [of ?t] by (simp add: offset_kind_def Let_def)
  with unat_vector_size [of "file_width ?t" "vp_n_items vec"] len assms(6) s show ?thesis by simp
qed

lemma outside_heap_size:
  assumes "heap_size Heap_Outside_Vector c x = Some s" and "outside_image c v = Some d"
    and "cv_value_at c v = Some x" and "length d < 2 ^ 32"
  shows "unat s = length d"
proof -
  let ?t = "type_29 (cr_header x)"
  from assms(1-3) obtain vec w items where vec: "cv_get_outside_vector c x = Some vec"
    and w: "number_width ?t = Some w" and s: "s = ucast (vector_heap_size ?t (vo_n_items vec))"
    and i: "bytes_at (vo_items vec) 0 (w * unat (vo_n_items vec)) = Some items"
      "d = le_bytes 4 (vo_n_items vec) @ items"
    by (auto simp: heap_size_def outside_image_def cv_outside_vector_at_def cv_value_type_def elim!: bind_eq_Some_E)
  from length_bytes_at [OF i(1)] i(2) have len: "length d = 4 + w * unat (vo_n_items vec)" by simp
  have "vector_heap_size ?t (vo_n_items vec) = ucast (4 + (ucast (vo_n_items vec) :: u64) * of_nat w)"
    using w by (auto simp: vector_heap_size_def number_width_def split: if_split_asm)
  with unat_vector_size [of w "vo_n_items vec"] len assms(4) s show ?thesis by simp
qed

lemma unat_4_plus: "w \<le> 4 \<Longrightarrow> unat (4 + ucast (n :: u32) * of_nat w :: u64) = 4 + unat n * w"
proof -
  assume w: "w \<le> 4"
  have "unat n * w \<le> 2 ^ 32 * 4" by (rule mult_le_mono) (use w less_imp_le [OF unat_u32_less] in simp_all)
  then have l: "4 + unat n * w < 2 ^ 64" by simp
  have "unat (ucast n :: u64) = unat n" by (rule unat_ucast_up) simp
  then have "(ucast n :: u64) = of_nat (unat n)" by (simp add: word_unat_eq_iff unat_of_nat)
  then have "(4 + ucast n * of_nat w :: u64) = of_nat (4 + unat n * w)" by simp
  then show ?thesis using l by (simp only: unat_of_nat) simp
qed

lemma string_image_size:
  "string_image w buf = Some d \<Longrightarrow> read_u32 buf 0 = Some len \<Longrightarrow> length d = 4 + unat (len + 1) * w"
  by (auto simp: string_image_def dest: length_bytes_at elim!: bind_eq_Some_E)

lemma string_size:
  assumes "string_heap_size c x = Some s" and "heap_image Heap_String c n_priv v x = Some d"
  shows "unat s = length d"
proof (cases "type_29 (cr_header x) = POINTLESS_UNICODE")
  case True
  with assms obtain buffer len where b: "cv_get_unicode c x = Some buffer" "read_u32 buffer 0 = Some len"
    and s: "s = 4 + ucast (len + 1) * 4" and d: "string_image 4 buffer = Some d"
    by (auto simp: string_heap_size_def heap_image_def elim!: bind_eq_Some_E)
  show ?thesis using string_image_size [OF d b(2)] unat_4_plus [of 4 "len + 1"] by (simp add: s)
next
  case False
  with assms obtain buffer len where b: "cv_get_string c x = Some buffer" "read_u32 buffer 0 = Some len"
    and s: "s = 4 + ucast (len + 1) * 1" and d: "string_image 1 buffer = Some d"
    by (auto simp: string_heap_size_def heap_image_def elim!: bind_eq_Some_E)
  show ?thesis using string_image_size [OF d b(2)] unat_4_plus [of 1 "len + 1"] by (simp add: s)
qed

lemma bitvector_size:
  assumes "bitvector_heap_size c x = Some s" and "heap_image Heap_Bitvector c n_priv v x = Some d"
  shows "unat s = length d"
proof -
  from assms obtain buffer len bits where "cv_get_bitvector c x = Some buffer" "read_u32 buffer 0 = Some len"
    and s: "s = 4 + ucast (ICEIL len 8)" and d: "bytes_at buffer 4 (unat (ICEIL len 8)) = Some bits"
      "d = le_bytes 4 len @ bits"
    by (auto simp: bitvector_heap_size_def heap_image_def bitvector_image_def elim!: bind_eq_Some_E)
  then show ?thesis using length_bytes_at [OF d(1)] unat_4_plus [of 1 "ICEIL len 8"] by simp
qed

theorem heap_size_image:
  assumes "heap_size k c x = Some s" and "heap_image k c n_priv v x = Some d"
    and "cv_value_at c v = Some x" and "offset_kind k x" and "compressible x" and "length d < 2 ^ 32"
  shows "unat s = length d"
proof (cases k)
  case Heap_String
  with assms string_size show ?thesis by (simp add: heap_size_def)
next
  case Heap_Priv_Vector
  with assms priv_heap_size [of c x s n_priv v d] show ?thesis by (simp add: heap_image_def)
next
  case Heap_Outside_Vector
  with assms outside_heap_size [of c x s v d] show ?thesis by (simp add: heap_image_def)
next
  case Heap_Bitvector
  with assms bitvector_size show ?thesis by (simp add: heap_size_def)
next
  case Heap_Set
  with assms(1,2) show ?thesis
    by (auto simp: heap_size_def heap_image_def set_image_def set_header_bytes_def elim!: bind_eq_Some_E)
next
  case Heap_Map
  with assms(1,2) show ?thesis
    by (auto simp: heap_size_def heap_image_def map_image_def map_header_bytes_def elim!: bind_eq_Some_E)
qed

end
