(* ===== verification/Output_Objects.thy ===== *)
theory Output_Objects
  imports Output_Count Output_Sizes
begin

text \<open>
  The state that is written and the file it becomes: where an object of the creation lies in the file,
  and that a reader who follows the value of the object gets there.
\<close>

section \<open>The state that is written\<close>

lemma preparedD:
  assumes "prepared c st" and "create_wf c"
  defines "n \<equiv> length (c_values c)" and "c' \<equiv> ct_create st"
  shows "n \<le> length (c_values c')" "numbered_in (take n (c_values c'))"
    "ct_n_priv st = of_nat (n_of_kind Heap_Priv_Vector (take n (c_values c')))"
    "ct_n_outside st = of_nat (n_of_kind Heap_Outside_Vector (take n (c_values c')))"
    "ct_n_sets st = of_nat (n_of_kind Heap_Set (take n (c_values c')))"
    "ct_n_maps st = of_nat (n_of_kind Heap_Map (take n (c_values c')))"
    "k \<noteq> Heap_Priv_Vector \<Longrightarrow> n_of_kind k (take n (c_values c')) = table_length k c"
    "same_tables c c'"
    "i < n \<Longrightarrow> \<not> offset_kind Heap_Priv_Vector (c_values c ! i) \<Longrightarrow> c_values c' ! i = c_values c ! i"
    "i < n \<Longrightarrow> is_outside_vector (cr_header (c_values c' ! i)) \<Longrightarrow>
      number_width (type_29 (cr_header (c_values c' ! i))) \<noteq> None"
    "i < n \<Longrightarrow> compressible (c_values c' ! i)"
proof -
  from assms(1) obtain st1 where cnt: "counted c n st1" and st: "st = st1\<lparr>ct_create := c'\<rparr>"
    and k: "keeps n ((ct_create st1)\<lparr>priv_vector_values := ct_new_priv st1\<rparr>) c'"
    unfolding prepared_def n_def c'_def by auto
  let ?vs = "c_values (ct_create st1)"
  have len: "length ?vs = n" using cnt by (simp add: counted_def Let_def n_def)
  have slots: "i < n \<Longrightarrow> same_slot (?vs ! i) (c_values c' ! i)" for i using k by (simp add: keeps_def)
  show n: "n \<le> length (c_values c')" using k len by (simp add: keeps_def)
  have num: "numbered_in ?vs" using cnt len by (simp add: counted_def Let_def)
  have 1: "length (take n (c_values c')) = length ?vs" using n len by simp
  have 2: "i < length ?vs \<Longrightarrow> cr_data (take n (c_values c') ! i) = cr_data (?vs ! i) \<and>
     offset_kind k (take n (c_values c') ! i) = offset_kind k (?vs ! i)" for i k
    using slots len by (simp add: same_slot_def)
  note num' = numbered_in_cong [OF 1 num 2]
  show "numbered_in (take n (c_values c'))" by (rule num'(1))
  have cs: "ct_n_priv st1 = of_nat (n_of_kind Heap_Priv_Vector ?vs)"
    "ct_n_outside st1 = of_nat (n_of_kind Heap_Outside_Vector ?vs)"
    "ct_n_sets st1 = of_nat (n_of_kind Heap_Set ?vs)" "ct_n_maps st1 = of_nat (n_of_kind Heap_Map ?vs)"
    "k \<noteq> Heap_Priv_Vector \<Longrightarrow> n_of_kind k ?vs = n_of_kind k (c_values c)" for k
    using cnt len by (simp_all add: counted_def Let_def n_def)
  show "ct_n_priv st = of_nat (n_of_kind Heap_Priv_Vector (take n (c_values c')))"
    "ct_n_outside st = of_nat (n_of_kind Heap_Outside_Vector (take n (c_values c')))"
    "ct_n_sets st = of_nat (n_of_kind Heap_Set (take n (c_values c')))"
    "ct_n_maps st = of_nat (n_of_kind Heap_Map (take n (c_values c')))"
    by (simp_all add: st cs num'(2))
  show "k \<noteq> Heap_Priv_Vector \<Longrightarrow> n_of_kind k (take n (c_values c')) = table_length k c"
    using cs(5) numbered_n_of_kind [OF create_wfD(1) [OF assms(2)]] by (simp add: num'(2))
  have ct: "ct_create st1 = c\<lparr>c_values := ?vs\<rparr>" using cnt by (simp add: counted_def Let_def)
  have "same_tables c ((ct_create st1)\<lparr>priv_vector_values := ct_new_priv st1\<rparr>)"
    by (subst ct) (simp add: same_tables_def)
  with k show "same_tables c c'" unfolding keeps_def by (blast intro: same_tables_trans)
  have cslot: "i < n \<Longrightarrow> counted_slot c (ct_new_priv st1) (c_values c ! i) (?vs ! i)" for i
    using cnt by (simp add: counted_def Let_def)
  show same: "i < n \<Longrightarrow> \<not> offset_kind Heap_Priv_Vector (c_values c ! i) \<Longrightarrow> c_values c' ! i = c_values c ! i" for i
    using cslot [of i] slots [of i] by (auto simp: counted_slot_def same_slot_def)
  show "i < n \<Longrightarrow> is_outside_vector (cr_header (c_values c' ! i)) \<Longrightarrow>
      number_width (type_29 (cr_header (c_values c' ! i))) \<noteq> None"
  proof -
    assume i: "i < n" and out: "is_outside_vector (cr_header (c_values c' ! i))"
    have ok: "value_ok c (c_values c ! i)" using create_wfD(2) [OF assms(2)] i by (simp add: n_def)
    have "\<not> offset_kind Heap_Priv_Vector (c_values c' ! i)" using out by (simp add: offset_kind_def Let_def)
    then have np: "\<not> offset_kind Heap_Priv_Vector (?vs ! i)" using slots [OF i] by (simp add: same_slot_def)
    show ?thesis
    proof (cases "offset_kind Heap_Priv_Vector (c_values c ! i)")
      case True
      then have "\<not> is_outside_vector (cr_header (c_values c ! i))" by (simp add: offset_kind_def Let_def)
      moreover have "is_outside_vector (cr_header (?vs ! i)) = is_outside_vector (cr_header (c_values c ! i))"
        using cslot [OF i] by (auto simp: counted_slot_def split: if_split_asm)
      ultimately show ?thesis using out slots [OF i] by (simp add: same_slot_def)
    next
      case False
      with same [OF i] ok out show ?thesis by (simp add: value_ok_def)
    qed
  qed
  show "i < n \<Longrightarrow> compressible (c_values c' ! i)"
  proof -
    assume i: "i < n"
    have "\<not> is_compressed_vector (cr_header (c_values c ! i))"
      using create_wfD(2) [OF assms(2), of "c_values c ! i"] i by (simp add: n_def value_ok_def)
    then have "\<not> is_compressed_vector (cr_header (?vs ! i))"
      using cslot [OF i] by (auto simp: counted_slot_def split: if_split_asm)
    then show ?thesis using slots [OF i] by (simp add: same_slot_def compressible_def)
  qed
qed

section \<open>The order of the objects\<close>

lemma filter_upt_nth:
  assumes "P i" and "i < n"
  shows "filter P [0..<n] ! length (filter P [0..<i]) = i" "length (filter P [0..<i]) < length (filter P [0..<n])"
proof -
  have "[0..<n] = [0..<i] @ i # [Suc i..<n]"
    using assms(2) by (metis le_add1 add_0 less_imp_le upt_add_eq_append upt_conv_Cons le_Suc_ex zero_le)
  then show "filter P [0..<n] ! length (filter P [0..<i]) = i"
    "length (filter P [0..<i]) < length (filter P [0..<n])" using assms(1) by simp_all
qed

lemma length_filter_nth:
  "i \<le> length xs \<Longrightarrow> length (filter (\<lambda>i. P (xs ! i)) [0..<i]) = length (filter P (take i xs))"
proof (induction i)
  case (Suc i)
  then show ?case by (simp add: take_Suc_conv_app_nth)
qed simp

lemma is_object_iff:
  "i < length (c_values c) \<Longrightarrow> i < 2 ^ 32 \<Longrightarrow> is_object c k i = offset_kind k (c_values c ! i)"
  by (simp add: is_object_def cv_value_at_def unat_of_nat)

lemma n_objects_of_kind:
  assumes "n \<le> length (c_values c)" and "n < 2 ^ 32"
  shows "length (filter (is_object c k) [0..<n]) = n_of_kind k (take n (c_values c))"
proof -
  have "filter (is_object c k) [0..<n] = filter (\<lambda>i. offset_kind k (c_values c ! i)) [0..<n]"
    by (rule filter_cong) (use assms is_object_iff in auto)
  with length_filter_nth [OF assms(1), of "offset_kind k"] show ?thesis by (simp add: n_of_kind_def)
qed

lemma objects_append: "objects c (ks @ ks') is = objects c ks is @ objects c ks' is"
  by (simp add: objects_def)

text \<open>How many objects come before those of a kind.\<close>

definition objects_before :: "heap_kind \<Rightarrow> pointless_create_value_t list \<Rightarrow> nat" where
  "objects_before k xs = sum_list (map (\<lambda>k'. n_of_kind k' xs) (takeWhile ((\<noteq>) k) heap_kinds))"

lemma objects_before_simps:
  "objects_before Heap_String xs = 0"
  "objects_before Heap_Priv_Vector xs = n_of_kind Heap_String xs"
  "objects_before Heap_Outside_Vector xs = n_of_kind Heap_String xs + n_of_kind Heap_Priv_Vector xs"
  "objects_before Heap_Bitvector xs = n_of_kind Heap_String xs + n_of_kind Heap_Priv_Vector xs +
     n_of_kind Heap_Outside_Vector xs"
  "objects_before Heap_Set xs = n_of_kind Heap_String xs + n_of_kind Heap_Priv_Vector xs +
     n_of_kind Heap_Outside_Vector xs + n_of_kind Heap_Bitvector xs"
  "objects_before Heap_Map xs = n_of_kind Heap_String xs + n_of_kind Heap_Priv_Vector xs +
     n_of_kind Heap_Outside_Vector xs + n_of_kind Heap_Bitvector xs + n_of_kind Heap_Set xs"
  by (simp_all add: objects_before_def heap_kinds_def)

lemma length_objects:
  assumes "n \<le> length (c_values c)" and "n < 2 ^ 32"
  shows "length (objects c ks [0..<n]) = sum_list (map (\<lambda>k. n_of_kind k (take n (c_values c))) ks)"
  by (induction ks) (simp_all add: objects_def n_objects_of_kind [OF assms])

theorem object_index:
  fixes c :: pointless_create_t and n :: nat
  defines "xs \<equiv> take n (c_values c)"
  assumes "n \<le> length (c_values c)" and "n < 2 ^ 32" and "i < n" and "offset_kind k (c_values c ! i)"
    and "numbered_in xs"
  shows "cr_data (c_values c ! i) = of_nat (n_of_kind k (take i xs))"
    "n_of_kind k (take i xs) < n_of_kind k xs"
    "objects_before k xs + n_of_kind k (take i xs) < length (objects c heap_kinds [0..<n])"
    "objects c heap_kinds [0..<n] ! (objects_before k xs + n_of_kind k (take i xs)) = (k, i)"
proof -
  let ?f = "\<lambda>m. filter (is_object c k) [0..<m]"
  have len: "length xs = n" using assms(2) by (simp add: xs_def)
  have "xs ! i = c_values c ! i" using assms(4) by (simp add: xs_def)
  then show "cr_data (c_values c ! i) = of_nat (n_of_kind k (take i xs))"
    using numbered_in_nth [OF assms(6), of i k] assms(4,5) len by simp
  have j: "length (?f i) = n_of_kind k (take i xs)"
    using n_objects_of_kind [of i c k] assms(2-4) by (simp add: xs_def min_def)
  have n: "length (?f n) = n_of_kind k xs"
    using n_objects_of_kind [of n c k] assms(2,3) by (simp add: xs_def)
  have "is_object c k i" using is_object_iff [of i c k] assms(2-5) by simp
  note at = filter_upt_nth [of "is_object c k", OF this assms(4)]
  show lt: "n_of_kind k (take i xs) < n_of_kind k xs" using at(2) j n by simp
  obtain ks where ks: "heap_kinds = takeWhile ((\<noteq>) k) heap_kinds @ k # ks"
    by (cases k) (simp_all add: heap_kinds_def)
  let ?pre = "objects c (takeWhile ((\<noteq>) k) heap_kinds) [0..<n]"
  have obj: "objects c heap_kinds [0..<n] = ?pre @ map (Pair k) (?f n) @ objects c ks [0..<n]"
    by (subst ks) (simp add: objects_def)
  have pre: "length ?pre = objects_before k xs"
    by (simp add: length_objects [OF assms(2,3)] objects_before_def xs_def)
  show "objects_before k xs + n_of_kind k (take i xs) < length (objects c heap_kinds [0..<n])"
    unfolding obj using lt n by (simp add: pre)
  show "objects c heap_kinds [0..<n] ! (objects_before k xs + n_of_kind k (take i xs)) = (k, i)"
    unfolding obj using at(1) at(2) j by (simp add: nth_append pre [symmetric])
qed

end
