(* ===== verification/Output_Reader.thy ===== *)
theory Output_Reader
  imports Output_Objects Validate
begin

text \<open>
  Reading back what was written: the buffer the output function answers opens without an error, and
  for every object of the creation the reader is led to the bytes that were written for it.
\<close>

section \<open>The parts of a buffer\<close>

lemma read_le_shift: "read_le n (xs @ ys) (length xs + p) = read_le n ys p"
  by (simp add: read_le_def)

lemma read_le_here [simp]: "LENGTH('a) \<le> 8 * n \<Longrightarrow> read_le n (le_bytes n w @ ys) 0 = Some (w :: 'a::len word)"
  by (simp add: read_le_def)

lemma read_header_bytes: "read_header (header_bytes h @ ys) 0 = Some h"
  by (simp add: read_header_def read_value_def header_bytes_def value_bytes_def take_Cons')

lemma read_offset_entry:
  assumes "length xs = 32" and "m < length ws"
  shows "read_u64 (xs @ concat (map (le_bytes 8) ws) @ ys) (32 + 8 * m) = Some (ws ! m)"
proof -
  have l: "length (concat (map (le_bytes 8) (take m ws))) = 8 * m"
    using assms(2) by (simp add: length_offset_bytes)
  have "concat (map (le_bytes 8) ws) @ ys = concat (map (le_bytes 8) (take m ws)) @
      le_bytes 8 (ws ! m) @ concat (map (le_bytes 8) (drop (Suc m) ws)) @ ys"
    by (subst id_take_nth_drop [OF assms(2)]) simp
  then have "read_u64 (concat (map (le_bytes 8) ws) @ ys) (8 * m + 0) = Some (ws ! m)"
    by (simp only: l [symmetric] read_le_shift) simp
  then have "read_u64 (xs @ concat (map (le_bytes 8) ws) @ ys) (length xs + 8 * m) = Some (ws ! m)"
    by (simp only: read_le_shift add_0_right)
  then show ?thesis by (simp only: assms(1))
qed

lemma drop_to_object:
  assumes "m < length ds"
  shows "drop (length (concat (map pad4 (take m ds)))) (concat (map pad4 ds)) =
    pad4 (ds ! m) @ concat (map pad4 (drop (Suc m) ds))"
  by (subst (2) id_take_nth_drop [OF assms]) simp

section \<open>The file of a creation\<close>

text \<open>The buffer in terms of the state that is written.\<close>

definition file_of :: "pointless_create_t \<Rightarrow> count_state \<Rightarrow> pointless_header_t \<Rightarrow> u64 list \<Rightarrow> u8 list list \<Rightarrow>
    u8 list \<Rightarrow> bool" where
  "file_of c st h ns ds buf \<longleftrightarrow>
     (let c' = ct_create st; obs = objects c' heap_kinds [0..<length (c_values c)] in
      prepared c st \<and> output_header st = Some h \<and> c_version c = POINTLESS_FF_VERSION_OFFSET_64_NEWHASH \<and>
      those (map (object_size c') obs) = Some ns \<and>
      those (map (object_image c' (ct_n_priv st)) obs) = Some ds \<and>
      buf = header_bytes h @ concat (map (le_bytes 8) (running 0 ns)) @ concat (map pad4 ds))"

lemma heap_kinds_agree:
  assumes "is_outside_vector (cr_header x) \<longrightarrow> number_width (type_29 (cr_header x)) \<noteq> None"
  shows "heap_data_kind k x = offset_kind k x"
  using assms
  by (cases k) (auto simp: heap_data_kind_def offset_kind_def Let_def pointless_is_vector_type_def
      number_width_def split: if_split_asm)

lemma output_file:
  assumes "pointless_create_output_and_end_b fuel c = Some (Inr buf)" and "create_wf c"
    and "length (c_values c) < 2 ^ 32"
  shows "\<exists>st h ns ds. file_of c st h ns ds buf"
proof -
  let ?n = "length (c_values c)"
  have n: "unat (of_nat ?n :: u32) = ?n" using assms(3) by (simp add: unat_of_nat)
  from assms(1) obtain st where ver: "c_version c = POINTLESS_FF_VERSION_OFFSET_64_NEWHASH"
    and st: "prepare_output fuel c = Some (Inr st)"
    and w: "write_output st [0..<?n] \<lparr>cb_write = dynarray_write, cb_align_4 = dynarray_align_4\<rparr> [] = Some (Inr buf)"
    unfolding pointless_create_output_and_end_b_def create_output_and_end_def n
    by (auto simp: and_then_Inr_iff split: if_split_asm)
  note p = prepare_output_prepared [OF st assms(2,3)]
  have "kinds_agree (ct_create st) [0..<?n]"
    unfolding kinds_agree_def
  proof (intro ballI allI impI)
    fix i x k assume i: "i \<in> set [0..<?n]" and x: "cv_value_at (ct_create st) (of_nat i) = Some x"
    then have "x = c_values (ct_create st) ! i"
      using assms(3) by (auto simp: cv_value_at_def arr_get_Some_iff unat_of_nat)
    with preparedD(10) [OF p assms(2)] i show "heap_data_kind k x = offset_kind k x"
      by (intro heap_kinds_agree) auto
  qed
  from buffer.write_output_content [OF w _ this] p ver show ?thesis
    unfolding file_of_def Let_def by auto
qed

section \<open>Opening it\<close>

text \<open>How many objects of each kind the file has; none of the counts wraps around.\<close>

definition n_objects :: "pointless_create_t \<Rightarrow> count_state \<Rightarrow> heap_kind \<Rightarrow> nat" where
  "n_objects c st k = n_of_kind k (take (length (c_values c)) (c_values (ct_create st)))"

definition total_objects :: "pointless_create_t \<Rightarrow> count_state \<Rightarrow> nat" where
  "total_objects c st = n_objects c st Heap_String + n_objects c st Heap_Priv_Vector +
     n_objects c st Heap_Outside_Vector + n_objects c st Heap_Bitvector + n_objects c st Heap_Set +
     n_objects c st Heap_Map"

lemma length_of_those: "those xs = Some ys \<Longrightarrow> length ys = length xs"
  by (rule conjunct1 [OF those_SomeD])

lemma file_lengths:
  assumes "file_of c st h ns ds buf" and "create_wf c" and "length (c_values c) < 2 ^ 32"
  shows "length ns = total_objects c st" "length ds = total_objects c st"
    "length buf = 32 + 8 * total_objects c st + length (concat (map pad4 ds))"
proof -
  have p: "prepared c st" using assms(1) by (simp add: file_of_def Let_def)
  have obs: "length (objects (ct_create st) heap_kinds [0..<length (c_values c)]) = total_objects c st"
    using length_objects [OF preparedD(1) [OF p assms(2)] assms(3)]
    by (simp add: total_objects_def n_objects_def heap_kinds_def)
  show ns: "length ns = total_objects c st" and "length ds = total_objects c st"
    using assms(1) obs by (auto simp: file_of_def Let_def dest!: length_of_those)
  then show "length buf = 32 + 8 * total_objects c st + length (concat (map pad4 ds))"
    using assms(1) by (simp add: file_of_def Let_def length_header_bytes length_offset_bytes)
qed

lemma unat_of_nat_u32: "m < 2 ^ 32 \<Longrightarrow> unat (of_nat m :: u32) = m"
  by (simp add: unat_of_nat)

lemma header_counts:
  assumes "file_of c st h ns ds buf" and "create_wf c" and "length (c_values c) < 2 ^ 32"
    and "length buf < 2 ^ 32"
  shows "unat (n_string_unicode h) = n_objects c st Heap_String"
    "unat (n_vector h) = n_objects c st Heap_Priv_Vector + n_objects c st Heap_Outside_Vector"
    "unat (n_bitvector h) = n_objects c st Heap_Bitvector"
    "unat (n_set h) = n_objects c st Heap_Set" "unat (n_map h) = n_objects c st Heap_Map"
    "version h = POINTLESS_FF_VERSION_OFFSET_64_NEWHASH"
    "unat (ct_n_priv st) = n_objects c st Heap_Priv_Vector"
proof -
  have p: "prepared c st" using assms(1) by (simp add: file_of_def Let_def)
  note d = preparedD [OF p assms(2)]
  have "8 * total_objects c st < 2 ^ 32" using file_lengths(3) [OF assms(1-3)] assms(4) by simp
  then have lt: "total_objects c st < 2 ^ 32" by simp
  have k: "n_objects c st k \<le> total_objects c st" for k
    by (cases k) (simp_all add: total_objects_def)
  have pv: "n_objects c st Heap_Priv_Vector + n_objects c st Heap_Outside_Vector \<le> total_objects c st"
    by (simp add: total_objects_def)
  have t: "table_length k c = n_objects c st k" if "k \<noteq> Heap_Priv_Vector" for k
    using d(7) [OF that] by (simp add: n_objects_def)
  have st: "string_unicode_map_judy_count (ct_create st) = of_nat (n_objects c st Heap_String)"
    "bitvector_map_judy_count (ct_create st) = of_nat (n_objects c st Heap_Bitvector)"
    "c_version (ct_create st) = c_version c"
    using d(8) create_wfD(3,4) [OF assms(2)] t [of Heap_String] t [of Heap_Bitvector]
    by (simp_all add: same_tables_def table_length_def)
  obtain r where h: "h = \<lparr>root = r, n_string_unicode = of_nat (n_objects c st Heap_String),
       n_vector = of_nat (n_objects c st Heap_Priv_Vector) + of_nat (n_objects c st Heap_Outside_Vector),
       n_bitvector = of_nat (n_objects c st Heap_Bitvector), n_set = of_nat (n_objects c st Heap_Set),
       n_map = of_nat (n_objects c st Heap_Map), version = POINTLESS_FF_VERSION_OFFSET_64_NEWHASH\<rparr>"
    using assms(1) d(3-6) st
    by (auto simp: file_of_def Let_def output_header_def n_objects_def elim!: bind_eq_Some_E)
  have "of_nat (n_objects c st Heap_Priv_Vector) + of_nat (n_objects c st Heap_Outside_Vector) =
      (of_nat (n_objects c st Heap_Priv_Vector + n_objects c st Heap_Outside_Vector) :: u32)" by simp
  then show "unat (n_vector h) = n_objects c st Heap_Priv_Vector + n_objects c st Heap_Outside_Vector"
    unfolding h pointless_header_t.simps using pv lt by (simp only: unat_of_nat_u32)
  show "unat (n_string_unicode h) = n_objects c st Heap_String" "unat (n_bitvector h) = n_objects c st Heap_Bitvector"
    "unat (n_set h) = n_objects c st Heap_Set" "unat (n_map h) = n_objects c st Heap_Map"
    "version h = POINTLESS_FF_VERSION_OFFSET_64_NEWHASH"
    unfolding h pointless_header_t.simps using le_less_trans [OF k lt] by (simp_all only: unat_of_nat_u32)
  show "unat (ct_n_priv st) = n_objects c st Heap_Priv_Vector"
    using d(3) le_less_trans [OF k lt, of Heap_Priv_Vector] by (simp add: n_objects_def unat_of_nat_u32)
qed

lemma file_opens:
  assumes "file_of c st h ns ds buf" and "create_wf c" and "length (c_values c) < 2 ^ 32"
    and "length buf < 2 ^ 32"
  shows "pointless_open_b_skip_validate fuel buf = Some (Inr (init_handle buf h (of_nat (length buf)), None))"
proof -
  note l = file_lengths [OF assms(1-3)] and hc = header_counts [OF assms]
  have rh: "read_header buf 0 = Some h"
    using assms(1) read_header_bytes by (simp add: file_of_def Let_def)
  have u: "unat (of_nat (length buf) :: u64) = length buf" using assms(4) by (simp add: unat_of_nat)
  have w: "ucast (x :: u32) = (of_nat (unat x) :: u64)" for x
  proof -
    have "unat (ucast x :: u64) = unat x" by (rule unat_ucast_up) simp
    then show ?thesis by (simp add: word_unat_eq_iff unat_of_nat)
  qed
  have o: "offsets_size h = of_nat (32 + 8 * total_objects c st)"
    by (simp add: offsets_size_def w hc total_objects_def algebra_simps)
  have "unat (offsets_size h) = 32 + 8 * total_objects c st"
    using l(3) assms(4) unfolding o by (simp only: unat_of_nat) simp
  then have "\<not> (of_nat (length buf) :: u64) < offsets_size h"
    unfolding word_less_nat_alt u using l(3) by simp
  moreover have "\<not> (of_nat (length buf) :: u64) < 32"
    unfolding word_less_nat_alt u using l(3) by simp
  ultimately show ?thesis
    by (simp add: pointless_open_b_skip_validate_def pointless_init_def rh hc(6))
qed

section \<open>Following a value to its object\<close>

text \<open>The offset vector a kind of object is looked up in.\<close>

definition kind_offsets :: "pointless_t \<Rightarrow> heap_kind \<Rightarrow> addr" where
  "kind_offsets p k =
     (case k of
        Heap_String \<Rightarrow> string_unicode_offsets p
      | Heap_Priv_Vector \<Rightarrow> vector_offsets p
      | Heap_Outside_Vector \<Rightarrow> vector_offsets p
      | Heap_Bitvector \<Rightarrow> bitvector_offsets p
      | Heap_Set \<Rightarrow> set_offsets p
      | Heap_Map \<Rightarrow> map_offsets p)"

text \<open>The number a reader finds in a value: vectors of the caller come after those of the library.\<close>

lemma read_data:
  assumes "pointless_create_to_read_value c v n_priv = Some rv" and "cv_value_at c v = Some x"
    and "offset_kind k x" and "is_outside_vector (cr_header x) \<longrightarrow> number_width (type_29 (cr_header x)) \<noteq> None"
  shows "v_type rv = type_29 (cr_header x)"
    "v_data rv = (if k = Heap_Outside_Vector then cr_data x + n_priv else cr_data x)"
proof -
  have "is_outside_vector (cr_header x) \<longleftrightarrow> k = Heap_Outside_Vector"
    using assms(3,4)
    by (cases k) (auto simp: offset_kind_def Let_def pointless_is_vector_type_def number_width_def)
  then show "v_type rv = type_29 (cr_header x)"
    "v_data rv = (if k = Heap_Outside_Vector then cr_data x + n_priv else cr_data x)"
    using assms(1,2) by (auto simp: pointless_create_to_read_value_def)
qed

lemma those_map_nth:
  "those (map f xs) = Some ys \<Longrightarrow> m < length xs \<Longrightarrow> f (xs ! m) = Some (ys ! m)"
  using those_SomeD by fastforce

lemma objects_are_objects:
  "(k, i) \<in> set (objects c ks is) \<Longrightarrow> i \<in> set is \<and> is_object c k i"
  by (auto simp: objects_def)

lemma length_in_concat: "d \<in> set ds \<Longrightarrow> length d \<le> length (concat (map pad4 ds))"
  by (induction ds) (auto simp: length_pad4)

lemma file_sizes:
  assumes "file_of c st h ns ds buf" and "create_wf c" and "length (c_values c) < 2 ^ 32"
    and "length buf < 2 ^ 32"
  shows "map unat ns = map length ds"
proof (rule nth_equalityI)
  let ?c = "ct_create st" and ?n = "length (c_values c)"
  let ?obs = "objects ?c heap_kinds [0..<?n]"
  note fl = file_lengths [OF assms(1-3)]
  then show "length (map unat ns) = length (map length ds)" by simp
  have pr: "prepared c st" and nsz: "those (map (object_size ?c) ?obs) = Some ns"
    and dsz: "those (map (object_image ?c (ct_n_priv st)) ?obs) = Some ds"
    using assms(1) by (simp_all add: file_of_def Let_def)
  note d = preparedD [OF pr assms(2)]
  fix m assume "m < length (map unat ns)"
  then have m: "m < length ?obs" using length_of_those [OF nsz] by simp
  obtain k i where ob: "?obs ! m = (k, i)" by fastforce
  with nth_mem [OF m] have i: "i < ?n" "is_object ?c k i"
    using objects_are_objects by fastforce+
  then have k: "offset_kind k (c_values ?c ! i)" using is_object_iff [of i ?c k] d(1) assms(3) by simp
  have x: "cv_value_at ?c (of_nat i) = Some (c_values ?c ! i)"
    using i assms(3) d(1) by (simp add: cv_value_at_def unat_of_nat)
  have s: "heap_size k ?c (c_values ?c ! i) = Some (ns ! m)"
    using those_map_nth [OF nsz m] x by (simp add: ob object_size_def)
  have im: "heap_image k ?c (ct_n_priv st) (of_nat i) (c_values ?c ! i) = Some (ds ! m)"
    using those_map_nth [OF dsz m] x by (simp add: ob object_image_def)
  have "m < length ds" using m length_of_those [OF dsz] by simp
  then have "length (ds ! m) \<le> length (concat (map pad4 ds))" using length_in_concat by simp
  then have "length (ds ! m) < 2 ^ 32" using fl(3) assms(4) by simp
  from heap_size_image [OF s im x k d(11) [OF i(1)] this] \<open>m < length ds\<close> m length_of_those [OF nsz]
  show "map unat ns ! m = map length ds ! m" by simp
qed

theorem object_in_file:
  assumes f: "file_of c st h ns ds buf" and wf: "create_wf c" and len: "length (c_values c) < 2 ^ 32"
    and buf: "length buf < 2 ^ 32" and i: "i < length (c_values c)"
    and k: "offset_kind k (c_values (ct_create st) ! i)"
    and rv: "pointless_create_to_read_value (ct_create st) (of_nat i) (ct_n_priv st) = Some rv"
    and p: "p = init_handle buf h buflen"
  shows "\<exists>a d rest. PC_HEAP_OFFSET p (kind_offsets p k) (v_data rv) = Some a \<and>
    heap_image k (ct_create st) (ct_n_priv st) (of_nat i) (c_values (ct_create st) ! i) = Some d \<and>
    drop a buf = d @ rest"
proof -
  let ?c = "ct_create st" and ?n = "length (c_values c)"
  define xs where "xs = take ?n (c_values ?c)"
  define j where "j = n_of_kind k (take i xs)"
  define m where "m = objects_before k xs + j"
  let ?x = "c_values ?c ! i" and ?obs = "objects ?c heap_kinds [0..<?n]"
  have pr: "prepared c st" using f by (simp add: file_of_def Let_def)
  note d = preparedD [OF pr wf] and hc = header_counts [OF f wf len buf]
    and fl = file_lengths [OF f wf len]
  note ix = object_index [OF d(1) len i k, folded xs_def, OF d(2) [folded xs_def], folded j_def m_def]
  have no: "n_objects c st k' = n_of_kind k' xs" for k' by (simp add: n_objects_def xs_def)
  have obs: "length ?obs = total_objects c st"
    using length_objects [OF d(1) len] by (simp add: total_objects_def n_objects_def heap_kinds_def)
  have m: "m < total_objects c st" using ix(3) obs by (simp add: m_def)
  have tot: "8 * total_objects c st < 2 ^ 32" using fl(3) buf by simp
  have x: "cv_value_at ?c (of_nat i) = Some ?x"
    using i len d(1) by (simp add: cv_value_at_def unat_of_nat)
  note rd = read_data [OF rv x k] and out = d(10) [OF i]
  have "n_of_kind k xs \<le> total_objects c st" by (cases k) (simp_all add: total_objects_def no)
  then have j: "unat (cr_data ?x) = j" "j < n_of_kind k xs"
    using ix(1,2) tot by (simp_all add: unat_of_nat)
  have idx: "kind_offsets p k + 8 * unat (v_data rv) = 32 + 8 * m"
  proof (cases "k = Heap_Outside_Vector")
    case True
    have "n_of_kind Heap_Priv_Vector xs + j \<le> total_objects c st"
      using j(2) True by (simp add: total_objects_def no)
    then have "unat (v_data rv) = n_of_kind Heap_Priv_Vector xs + j"
      using rd(2) out True j(1) hc(7) tot by (simp add: unat_word_ariths no)
    with True show ?thesis
      by (simp add: p kind_offsets_def init_handle_def hc no m_def objects_before_simps Let_def)
  next
    case False
    then have "unat (v_data rv) = j" using rd(2) out j(1) by simp
    with False show ?thesis
      by (cases k) (simp_all add: p kind_offsets_def init_handle_def hc no m_def objects_before_simps Let_def)
  qed
  have hp: "heap_ptr p = 32 + 8 * total_objects c st"
    by (simp add: p init_handle_def hc Let_def total_objects_def)
  have pb: "p_buf p = buf" by (simp add: p init_handle_def Let_def)
  have nsz: "those (map (object_size ?c) ?obs) = Some ns"
    and dsz: "those (map (object_image ?c (ct_n_priv st)) ?obs) = Some ds"
    and b: "buf = header_bytes h @ concat (map (le_bytes 8) (running 0 ns)) @ concat (map pad4 ds)"
    using f by (simp_all add: file_of_def Let_def)
  have off: "PC_OFFSET p (kind_offsets p k) (v_data rv) = Some (running 0 ns ! m)"
    unfolding PC_OFFSET_def pb idx b
    by (rule read_offset_entry) (simp_all add: length_header_bytes fl(1) m)
  note szs = file_sizes [OF f wf len buf]
  have pos: "unat (running 0 ns ! m) = length (concat (map pad4 (take m ds)))"
    using running_positions [OF szs, of 0 m] fl buf m by simp
  have img: "object_image ?c (ct_n_priv st) (?obs ! m) = Some (ds ! m)"
    by (rule those_map_nth [OF dsz]) (simp add: obs m)
  then have img: "heap_image k ?c (ct_n_priv st) (of_nat i) ?x = Some (ds ! m)"
    using ix(4) x by (simp add: object_image_def m_def)
  have dr: "drop (heap_ptr p + unat (running 0 ns ! m)) buf = pad4 (ds ! m) @ concat (map pad4 (drop (Suc m) ds))"
    using drop_to_object [of m ds] m fl
    by (simp add: b hp pos length_header_bytes length_offset_bytes)
  show ?thesis
    using off img dr unfolding PC_HEAP_OFFSET_def pad4_def by auto
qed

end
