(* ===== verification/Round_Trip.thy ===== *)
theory Round_Trip
  imports Create_Later Output_Reader Strings_Laws
begin

text \<open>
  The writer and the reader together: a value that is created, however much is created after it, comes
  back from the file that is written with it as the root.
\<close>

section \<open>The root of a file\<close>

text \<open>Any number of calls, none of which makes a handle wrap around.\<close>

inductive creates :: "pointless_create_t \<Rightarrow> pointless_create_t \<Rightarrow> bool" where
  nothing: "creates c c"
| one_more: "creates c c1 \<Longrightarrow> length (c_values c1) < 2 ^ 32 - 4 \<Longrightarrow> create_call c1 c2 \<Longrightarrow> creates c c2"

lemma creates_creation:
  assumes "creates c c'" and "creation c"
  shows "creation c'"
  using assms by (induction rule: creates.induct) (auto intro: creation.call)

lemma creates_later:
  assumes "creates c c'"
  shows "later c c'"
  using assms
  by (induction rule: creates.induct) (auto intro: later_trans effect_later create_call_effect)

text \<open>The value named as the root, unless it is a vector of the library, and its object.\<close>

lemma root_object:
  assumes "pointless_create_output_and_end_b fuel c = Some (Inr buf)" and "create_wf c"
    and "length (c_values c) < 2 ^ 32" and "length buf < 2 ^ 32"
    and "cv_value_at c (c_root c) = Some x" and "offset_kind k x" and "k \<noteq> Heap_Priv_Vector"
  shows "\<exists>p c' n a d rest.
    pointless_open_b_skip_validate fuel' buf = Some (Inr (p, None)) \<and> p_buf p = buf \<and>
    v_type (pointless_root p) = type_29 (cr_header x) \<and> same_tables c c' \<and>
    cv_value_at c' (c_root c) = Some x \<and>
    PC_HEAP_OFFSET p (kind_offsets p k) (v_data (pointless_root p)) = Some a \<and>
    heap_image k c' n (c_root c) x = Some d \<and> drop a buf = d @ rest"
proof -
  from output_file [OF assms(1-3)] obtain st h ns ds where f: "file_of c st h ns ds buf" by blast
  let ?c = "ct_create st" and ?i = "unat (c_root c)" and ?p = "init_handle buf h (of_nat (length buf))"
  have pr: "prepared c st" and oh: "output_header st = Some h"
    using f by (simp_all add: file_of_def Let_def)
  note d = preparedD [OF pr assms(2)]
  have i: "?i < length (c_values c)" "c_values c ! ?i = x"
    using assms(5) by (auto simp: cv_value_at_def arr_get_Some_iff)
  have np: "\<not> offset_kind Heap_Priv_Vector x" using offset_kind_disjoint [OF assms(6)] assms(7) by metis
  then have x: "c_values ?c ! ?i = x" using d(9) [OF i(1)] i(2) by simp
  then have vx: "cv_value_at ?c (c_root c) = Some x" using i d(1) by (simp add: cv_value_at_def)
  have "c_root ?c = c_root c" using d(8) by (simp add: same_tables_def)
  then obtain r where r: "pointless_create_to_read_value ?c (c_root c) (ct_n_priv st) = Some r" "root h = r"
    using oh by (auto simp: output_header_def Let_def elim!: bind_eq_Some_E)
  have out: "is_outside_vector (cr_header x) \<longrightarrow> number_width (type_29 (cr_header x)) \<noteq> None"
    using d(10) [OF i(1)] x by simp
  have root: "pointless_root ?p = r" using r(2) by (simp add: pointless_root_def init_handle_def Let_def)
  have "offset_kind k (c_values ?c ! ?i)" using x assms(6) by simp
  from object_in_file [OF f assms(2-4) i(1) this _ refl, of r "of_nat (length buf)"] r(1)
  obtain a d' rest where "PC_HEAP_OFFSET ?p (kind_offsets ?p k) (v_data r) = Some a"
    "heap_image k ?c (ct_n_priv st) (c_root c) x = Some d'" "drop a buf = d' @ rest"
    using x by auto
  moreover have "p_buf ?p = buf" by (simp add: init_handle_def Let_def)
  moreover note file_opens [OF f assms(2-4)] read_data(1) [OF r(1) vx assms(6) out] d(8) vx
  ultimately show ?thesis unfolding root [symmetric] by blast
qed

section \<open>Strings\<close>

lemma code_points_append: "code_points xs = Some cs \<Longrightarrow> code_points (xs @ ys) = Some cs"
  by (induction xs arbitrary: cs) (auto split: if_splits)

lemma read_dropped:
  assumes "drop a buf = le_bytes 4 (len :: u32) @ ys"
  shows "read_u32 buf a = Some len" "drop (a + 4) buf = ys"
proof -
  have "a + 4 \<le> length buf"
  proof (rule ccontr)
    assume "\<not> a + 4 \<le> length buf"
    then have "length (drop a buf) < 4" by simp
    then show False by (simp add: assms)
  qed
  then show "read_u32 buf a = Some len" by (simp add: assms)
  have "drop (a + 4) buf = drop 4 (drop a buf)" by (simp add: add.commute)
  then show "drop (a + 4) buf = ys" by (simp add: assms)
qed

text \<open>What the heap form of a string becomes in the file.\<close>

lemma string_image_all:
  assumes "read_u32 buffer 0 = Some len" and "length buffer = 4 + w * (unat len + 1)" 
    and "string_image w buffer = Some d" and "unat len + 1 < 2 ^ 32"
  shows "d = le_bytes 4 len @ drop 4 buffer"
proof -
  have "unat (len + 1) = unat len + 1" using assms(4) by (simp add: unat_word_ariths)
  with assms show ?thesis
    by (auto simp: string_image_def bytes_at_def mult.commute elim!: bind_eq_Some_E split: if_split_asm)
qed

lemma string_fits_unique:
  assumes "string_fits t buffer" and "string_fits t' buffer"
  shows "unit_size t = unit_size t'"
proof -
  from assms obtain len where "length buffer = 4 + unit_size t * Suc (unat len)"
    "length buffer = 4 + unit_size t' * Suc (unat (len :: u32))" by (auto simp: string_fits_def)
  then have "unit_size t * Suc (unat len) = unit_size t' * Suc (unat len)" by linarith
  then show ?thesis by (simp only: mult_cancel2) simp
qed

text \<open>The string a creation function makes of its argument, and where it is found later.\<close>

lemma string_value_stored:
  assumes "create_string_value c t buffer = (h, c1)" and "creation c" and "length (c_values c) < 2 ^ 32"
    and "t \<in> {POINTLESS_UNICODE, POINTLESS_STRING}" and "string_fits t buffer" and "length buffer < 2 ^ 32"
    and "later c1 c2"
  shows "\<exists>x. cv_value_at c2 h = Some x \<and> type_29 (cr_header x) = t \<and> cv_get_string c2 x = Some buffer"
proof -
  have "\<exists>x. cv_value_at c1 h = Some x \<and> type_29 (cr_header x) = t \<and> cv_get_string c1 x = Some buffer"
  proof (cases "string_unicode_map_judy c buffer")
    case None
    note new_string [OF assms(1) None wf_of_creation [OF assms(2)] assms(3)]
    with assms(4) show ?thesis by (auto simp: cv_get_string_def mk_header_def)
  next
    case (Some r)
    then have c: "c1 = c" "h = ucast r" using assms(1) by (simp_all add: create_string_value_def)
    from creation_dictionary [OF assms(2)] Some obtain x where
      x: "cv_value_at c (ucast r) = Some x" "type_29 (cr_header x) \<in> {POINTLESS_UNICODE, POINTLESS_STRING}"
        "arr_get (string_unicode_values c) (unat (cr_data x)) = Some buffer"
        "length buffer < 2 ^ 32 \<longrightarrow> string_fits (type_29 (cr_header x)) buffer"
      unfolding dictionary_ok_def by (metis (no_types, lifting))
    have "unit_size (type_29 (cr_header x)) = unit_size t"
      using x(4) assms(5,6) by (blast intro: string_fits_unique)
    then have "type_29 (cr_header x) = t" using x(2) assms(4) by (auto simp: unit_size_def)
    with x c show ?thesis by (simp add: cv_get_string_def)
  qed
  then obtain x where x: "cv_value_at c1 h = Some x" "type_29 (cr_header x) = t"
    "arr_get (string_unicode_values c1) (unat (cr_data x)) = Some buffer"
    by (auto simp: cv_get_string_def)
  from later_value [OF assms(7) x(1)] obtain x' where
    x': "cv_value_at c2 h = Some x'" "value_id x' = value_id x" by blast
  have "arr_get (string_unicode_values c2) (unat (cr_data x)) = Some buffer"
    using later_entry [OF _ x(3)] assms(7) by (simp add: later_def)
  with x x' show ?thesis by (auto simp: value_id_def cv_get_string_def)
qed

text \<open>The root, when it is a string.\<close>

lemma root_string:
  assumes "pointless_create_output_and_end_b fuel (pointless_create_set_root c h) = Some (Inr buf)"
    and "creation c" and "length (c_values c) < 2 ^ 32" and "length buf < 2 ^ 32"
    and "cv_value_at c h = Some x" and "type_29 (cr_header x) = t" and "t \<in> {POINTLESS_UNICODE, POINTLESS_STRING}"
    and "cv_get_string c x = Some buffer" and "length buffer < 2 ^ 32"
    and "read_u32 buffer 0 = Some len" and "length buffer = 4 + unit_size t * (unat len + 1)"
  shows "\<exists>p a rest. pointless_open_b_skip_validate fuel' buf = Some (Inr (p, None)) \<and> p_buf p = buf \<and>
    v_type (pointless_root p) = t \<and>
    PC_HEAP_OFFSET p (string_unicode_offsets p) (v_data (pointless_root p)) = Some a \<and>
    read_u32 buf a = Some len \<and> drop (a + 4) buf = drop 4 buffer @ rest"
proof -
  let ?c = "pointless_create_set_root c h"
  have wf: "create_wf ?c" using wf_of_creation [OF assms(2)] by (simp add: pointless_create_set_root_def)
  have n: "length (c_values ?c) < 2 ^ 32" using assms(3) by (simp add: pointless_create_set_root_def)
  have x: "cv_value_at ?c (c_root ?c) = Some x"
    using assms(5) by (simp add: pointless_create_set_root_def cv_value_at_def)
  have k: "offset_kind Heap_String x" using assms(6,7) by (simp add: offset_kind_def)
  from root_object [OF assms(1) wf n assms(4) x k, of fuel'] obtain p c' m a d rest where
    p: "pointless_open_b_skip_validate fuel' buf = Some (Inr (p, None))" "p_buf p = buf"
      "v_type (pointless_root p) = type_29 (cr_header x)" and c': "same_tables ?c c'"
    and a: "PC_HEAP_OFFSET p (kind_offsets p Heap_String) (v_data (pointless_root p)) = Some a"
      "heap_image Heap_String c' m (c_root ?c) x = Some d" "drop a buf = d @ rest" by auto
  have b: "cv_get_string c' x = Some buffer" "cv_get_unicode c' x = Some buffer"
    using assms(8) c' by (simp_all add: cv_get_string_def cv_get_unicode_def same_tables_def pointless_create_set_root_def)
  have "string_image (unit_size t) buffer = Some d"
    using a(2) b assms(6,7) by (auto simp: heap_image_def unit_size_def split: if_split_asm)
  moreover have "unat len + 1 \<le> unit_size t * (unat len + 1)" by (simp add: unit_size_def)
  then have "unat len + 1 < 2 ^ 32" using assms(9,11) by linarith
  ultimately have "d = le_bytes 4 len @ drop 4 buffer" by (intro string_image_all [OF assms(10,11)])
  with a(3) have "drop a buf = le_bytes 4 len @ drop 4 buffer @ rest" by simp
  from read_dropped [OF this] p a(1) assms(6) show ?thesis by (auto simp: kind_offsets_def)
qed

lemma conv_id:
  assumes "code_points (s :: 'a::len word list) = Some cs" and "LENGTH('a) \<le> 32"
    and "string_conv_loop id (replicate (length cs + 1) 0) s = Some vv"
  shows "code_points vv = Some cs"
proof -
  have "\<exists>r. string_conv_loop id (replicate (length cs + 1) 0) s = Some r \<and> code_points r = Some cs \<and>
      length r = length (replicate (length cs + 1) (0 :: 'a word))"
    by (rule string_conv_loop_eq [OF assms(1)]) simp_all
  then show ?thesis unfolding assms(3) by auto
qed

lemma concat_le_bytes_1: "concat (map (le_bytes (Suc 0)) vv) = (vv :: u8 list)"
  by (induction vv) (simp_all add: le_bytes_def)

text \<open>The buffer made of a string of fewer than \<open>2^32\<close> bytes.\<close>

lemma buffer_of_string:
  assumes "code_points (s :: 'a::len word list) = Some cs" and "LENGTH('a) \<le> 32" and "length cs + 1 < 2 ^ 32"
    and "string_len_loop 0 s = Some n" and "string_conv_loop id (replicate (unat (n + 1)) 0) s = Some vv"
  shows "n = of_nat (length cs)" "length vv = length cs + 1" "code_points vv = Some cs"
    "read_u32 (string_buffer w n vv) 0 = Some (of_nat (length cs))"
    "length (string_buffer w n vv) = 4 + w * (length cs + 1)"
    "drop 4 (string_buffer w n vv) = concat (map (le_bytes w) vv)"
proof -
  from string_len_loop_eq [OF assms(1), of 0] assms(4) show n: "n = of_nat (length cs)" by simp
  have "unat (n + 1) = length cs + 1" using assms(3) unfolding n by (simp add: unat_word_ariths unat_of_nat)
  with assms(5) have c: "string_conv_loop id (replicate (length cs + 1) 0) s = Some vv" by simp
  from conv_loop_length [OF c] show l: "length vv = length cs + 1" by simp
  from conv_id [OF assms(1,2) c] show "code_points vv = Some cs" .
  show "read_u32 (string_buffer w n vv) 0 = Some (of_nat (length cs))"
    by (simp add: string_buffer_def n ucast_of_nat_u32)
  show "length (string_buffer w n vv) = 4 + w * (length cs + 1)"
    "drop 4 (string_buffer w n vv) = concat (map (le_bytes w) vv)"
    by (simp_all add: string_buffer_def l)
qed

text \<open>A creation of one string, for any cache: what it is written as.\<close>

definition one_string :: "u32 \<Rightarrow> u8 list \<Rightarrow> pointless_create_cache_t \<Rightarrow> (u8 list \<Rightarrow> u64 option) \<Rightarrow> pointless_create_t" where
  "one_string t buffer cache dictionary =
     \<lparr>c_root = 0, c_cache = cache, c_values = [\<lparr>cr_header = mk_header t, cr_data = 0\<rparr>],
      priv_vector_values = [], outside_vector_values = [], set_values = [], map_values = [],
      string_unicode_values = [buffer], bitvector_values = [],
      string_unicode_map_judy = dictionary, bitvector_map_judy = (\<lambda>_. None),
      string_unicode_map_judy_count = 1, bitvector_map_judy_count = 0, c_version = 2\<rparr>"

lemma upt_4_8: "[0..<4] = [0, 1, 2, 3]" "[0..<8] = [0, 1, 2, 3, 4, 5, 6, 7]"
  by (simp_all add: upt_rec)

lemmas output_evals = write_output_def output_header_def one_string_def heap_kinds_def write_offsets_def
  write_heap_def cv_value_at_def mk_header_def offset_kind_def heap_data_kind_def heap_size_def
  serialize_value_def string_heap_size_def write_offset_def dynarray_write_def dynarray_align_4_def
  push_bytes_def pointless_create_to_read_value_def pointless_serialize_string_def cv_get_string_def
  bytes_at_def align_next_4_64_def align_next_4_size_t_def header_bytes_def value_bytes_def
  pointless_is_vector_type_def number_width_def le_bytes_def upt_4_8

lemma one_string_marker:
  "pointless_cycle_marker_create (one_string POINTLESS_STRING [2, 0, 0, 0, 72, 105, 0] cache d) = Some (Inr [0])"
  by code_simp

lemma one_string_output:
  "pointless_create_output_and_end_b 1 (one_string POINTLESS_STRING [2, 0, 0, 0, 72, 105, 0] cache d) =
   Some (Inr [29, 0, 0, 0, 0, 0, 0, 0, 1, 0, 0, 0, 0, 0, 0, 0, 0, 0, 0, 0, 0, 0, 0, 0, 0, 0, 0, 0, 2, 0, 0, 0,
      0, 0, 0, 0, 0, 0, 0, 0, 2, 0, 0, 0, 72, 105, 0, 0])"
proof -
  let ?c = "one_string POINTLESS_STRING [2, 0, 0, 0, 72, 105, 0] cache d"
  let ?st = "\<lparr>ct_create = ?c, ct_new_priv = [], ct_n_priv = 0, ct_n_outside = 0, ct_n_sets = 0, ct_n_maps = 0\<rparr>"
  have "prepare_output 1 ?c = Some (Inr ?st)"
    using one_string_marker [of cache d]
    by (simp add: prepare_output_def one_string_def count_value_def mark_hashable_def compress_vector_def
        create_tables_def cv_value_at_def mk_header_def number_width_def cv_value_type_def)
  moreover have "write_output ?st [0] \<lparr>cb_write = dynarray_write, cb_align_4 = dynarray_align_4\<rparr> [] =
     Some (Inr [29, 0, 0, 0, 0, 0, 0, 0, 1, 0, 0, 0, 0, 0, 0, 0, 0, 0, 0, 0, 0, 0, 0, 0, 0, 0, 0, 0, 2, 0, 0, 0,
      0, 0, 0, 0, 0, 0, 0, 0, 2, 0, 0, 0, 72, 105, 0, 0])"
    by (simp add: output_evals)
  ultimately show ?thesis
    by (simp add: pointless_create_output_and_end_b_def create_output_and_end_def)
      (simp add: one_string_def)
qed

text \<open>
  C30 A string that is created comes back: whatever else is created before and after it, the file
  written with it as its root opens, its root is a string, and the characters and the length the reader
  answers are those of the argument.
\<close>

theorem string_round_trip:
  assumes "creation c0" and "length (c_values c0) < 2 ^ 32 - 4"
    and "code_points s = Some cs" and "length cs < 2 ^ 32 - 8"
    and "pointless_create_string_ascii c0 s = Some (h, c1)"
    and "creates c1 c2" and "length (c_values c2) < 2 ^ 32"
    and "pointless_create_output_and_end_b fuel (pointless_create_set_root c2 h) = Some (Inr buf)"
    and "length buf < 2 ^ 32"
  shows "\<exists>p t. pointless_open_b_skip_validate fuel' buf = Some (Inr (p, None)) \<and>
    v_type (pointless_root p) = POINTLESS_STRING \<and>
    pointless_reader_string_len p (pointless_root p) = Some (of_nat (length cs)) \<and>
    pointless_reader_string_value_ascii p (pointless_root p) = Some t \<and> code_points t = Some cs"
proof -
  have len: "length cs + 1 < 2 ^ 32" using assms(4) by simp
  from assms(5) obtain n vv where nv: "string_len_loop 0 s = Some n"
      "string_conv_loop id (replicate (unat (n + 1)) 0) s = Some vv"
    and v: "create_string_value c0 POINTLESS_STRING (string_buffer 1 n vv) = (h, c1)"
    by (auto simp: pointless_create_string_ascii_def pointless_ascii_len_def pointless_ascii_cpy_def
        elim!: bind_eq_Some_E)
  let ?buffer = "string_buffer 1 n vv"
  note b = buffer_of_string(1-3) [OF assms(3) _ len nv] buffer_of_string(4-6) [OF assms(3) _ len nv, where w = 1]
  have un: "unat (of_nat (length cs) :: u32) = length cs" using assms(4) by (simp add: unat_of_nat)
  have bl: "length ?buffer < 2 ^ 32" using b(5) assms(4) by simp
  have fits: "string_fits POINTLESS_STRING ?buffer"
    unfolding string_fits_def using b(4,5) by (intro exI [of _ "of_nat (length cs)"]) (simp add: un unit_size_def)
  from string_value_stored [OF v assms(1) _ _ fits bl creates_later [OF assms(6)]] assms(2) obtain x where
    x: "cv_value_at c2 h = Some x" "type_29 (cr_header x) = POINTLESS_STRING" "cv_get_string c2 x = Some ?buffer"
    by auto
  have "creation c1" by (rule creation.call [OF assms(1,2) create_call.string_ascii [OF assms(5)]])
  then have c2: "creation c2" by (rule creates_creation [OF assms(6)])
  have bl': "length ?buffer = 4 + unit_size POINTLESS_STRING * (unat (of_nat (length cs) :: u32) + 1)"
    using b(5) by (simp add: un unit_size_def)
  from root_string [OF assms(8) c2 assms(7,9) x(1,2) _ x(3) bl _ bl', of fuel'] b(4)
  obtain p a rest where p: "pointless_open_b_skip_validate fuel' buf = Some (Inr (p, None))" "p_buf p = buf"
    "v_type (pointless_root p) = POINTLESS_STRING"
    and a: "PC_HEAP_OFFSET p (string_unicode_offsets p) (v_data (pointless_root p)) = Some a"
    "read_u32 buf a = Some (of_nat (length cs))" "drop (a + 4) buf = drop 4 ?buffer @ rest" by auto
  have "drop (a + 4) buf = vv @ rest" using a(3) b(6) by (simp add: concat_le_bytes_1)
  then show ?thesis
    using p a code_points_append [OF b(3), of rest]
    by (simp add: pointless_reader_string_len_def pointless_reader_string_value_ascii_def)
qed

theorem string_round_trip_witness:
  "\<exists>c buf p t. pointless_create_string_ascii pointless_create_begin_64 [72, 105, 0] = Some (0, c) \<and>
     pointless_create_output_and_end_b 1 (pointless_create_set_root c 0) = Some (Inr buf) \<and>
     pointless_open_b_skip_validate 0 buf = Some (Inr (p, None)) \<and>
     pointless_reader_string_value_ascii p (pointless_root p) = Some t \<and> code_points t = Some [72, 105]"
proof -
  have three: "replicate 3 (0 :: u8) = [0, 0, 0]" by (simp add: numeral_3_eq_3)
  let ?c = "(one_string POINTLESS_STRING [2, 0, 0, 0, 72, 105, 0] (c_cache pointless_create_begin_64)
    [[2, 0, 0, 0, 72, 105, 0] \<mapsto> 0])"
  have c: "pointless_create_string_ascii pointless_create_begin_64 [72, 105, 0] = Some (0, ?c\<lparr>c_root := UINT32_MAX\<rparr>)"
    by (simp add: three one_string_def pointless_create_string_ascii_def pointless_ascii_len_def
        pointless_ascii_cpy_def string_buffer_def le_bytes_def upt_4_8
        create_string_value_def push_value_def pointless_create_begin_64_def create_begin_def)
  have r: "pointless_create_set_root (?c\<lparr>c_root := UINT32_MAX\<rparr>) 0 = ?c"
    by (simp add: pointless_create_set_root_def one_string_def)
  obtain buf where o: "pointless_create_output_and_end_b 1 (pointless_create_set_root (?c\<lparr>c_root := UINT32_MAX\<rparr>) 0) = Some (Inr buf)"
    "length buf < 2 ^ 32"
    unfolding r one_string_output by simp
  have l: "length (c_values pointless_create_begin_64) < 2 ^ 32 - 4" "length (c_values (?c\<lparr>c_root := UINT32_MAX\<rparr>)) < 2 ^ 32"
    by (simp_all add: pointless_create_begin_64_def create_begin_def one_string_def)
  have cp: "code_points [72, 105, 0 :: u8] = Some [72, 105]" "length [72, 105 :: u32] < 2 ^ 32 - 8" by simp_all
  from string_round_trip [OF creation.begin_64 l(1) cp c creates.nothing l(2) o, of 0] c o(1)
  show ?thesis by blast
qed

section \<open>Vectors of the caller\<close>

text \<open>A creation of one vector of two 16-bit numbers.\<close>

definition one_vector :: "u32 \<Rightarrow> pointless_create_cache_t \<Rightarrow> pointless_create_t" where
  "one_vector r cache =
     \<lparr>c_root = r, c_cache = cache,
      c_values = [\<lparr>cr_header = (mk_header POINTLESS_VECTOR_U16)\<lparr>is_outside_vector := True\<rparr>, cr_data = 0\<rparr>],
      priv_vector_values = [], outside_vector_values = [\<lparr>vo_items = [1, 0, 2, 1], vo_n_items = 2\<rparr>],
      set_values = [], map_values = [], string_unicode_values = [], bitvector_values = [],
      string_unicode_map_judy = (\<lambda>_. None), bitvector_map_judy = (\<lambda>_. None),
      string_unicode_map_judy_count = 0, bitvector_map_judy_count = 0, c_version = 2\<rparr>"

lemma one_vector_marker: "pointless_cycle_marker_create (one_vector 0 cache) = Some (Inr [0])"
  by code_simp

lemma one_vector_output:
  "\<exists>buf. pointless_create_output_and_end_b 1 (one_vector 0 cache) = Some (Inr buf) \<and> length buf < 2 ^ 32"
proof -
  let ?c = "one_vector 0 cache"
  let ?st = "\<lparr>ct_create = ?c, ct_new_priv = [], ct_n_priv = 0, ct_n_outside = 1, ct_n_sets = 0, ct_n_maps = 0\<rparr>"
  have "prepare_output 1 ?c = Some (Inr ?st)"
    using one_vector_marker [of cache]
    by (simp add: prepare_output_def one_vector_def count_value_def mark_hashable_def compress_vector_def
        create_tables_def cv_value_at_def mk_header_def number_width_def cv_value_type_def)
  moreover have "\<exists>buf. write_output ?st [0] \<lparr>cb_write = dynarray_write, cb_align_4 = dynarray_align_4\<rparr> [] =
     Some (Inr buf) \<and> length buf < 2 ^ 32"
    by (simp add: output_evals one_vector_def pointless_serialize_vector_outside_def vector_heap_size_def
       cv_get_outside_vector_def cv_outside_vector_at_def cv_value_type_def)
  ultimately show ?thesis
    by (simp add: pointless_create_output_and_end_b_def create_output_and_end_def)
      (simp add: one_vector_def)
qed

text \<open>
  C31 A vector of numbers of the caller that is not empty comes back: the root of the file has the type of
  the vector, the reader answers its number of items, and the items lie in the file as they lay in
  memory. (An empty one is stored as \<open>POINTLESS_VECTOR_EMPTY\<close> and loses its type.)
\<close>

theorem vector_round_trip:
  assumes "creation c0" and "length (c_values c0) < 2 ^ 32 - 4"
    and "number_width t = Some w" and "n \<noteq> 0"
    and "pointless_create_vector_owner_priv c0 t items n = (h, c1)"
    and "creates c1 c2" and "length (c_values c2) < 2 ^ 32"
    and "pointless_create_output_and_end_b fuel (pointless_create_set_root c2 h) = Some (Inr buf)"
    and "length buf < 2 ^ 32"
  shows "\<exists>p a. pointless_open_b_skip_validate fuel' buf = Some (Inr (p, None)) \<and>
    v_type (pointless_root p) = t \<and>
    pointless_reader_vector_n_items p (pointless_root p) = Some n \<and>
    pointless_reader_vector_base_ptr p (pointless_root p) = Some (Some a) \<and>
    w * unat n \<le> length items \<and>
    take (w * unat n) (drop a (p_buf p)) = take (w * unat n) items"
proof -
  let ?c = "pointless_create_set_root c2 h"
  let ?x = "\<lparr>cr_header = (mk_header t)\<lparr>is_outside_vector := True\<rparr>,
             cr_data = of_nat (length (outside_vector_values c0))\<rparr>"
  let ?vec = "\<lparr>vo_items = items, vo_n_items = n\<rparr>"
  have wf0: "create_wf c0" by (rule wf_of_creation [OF assms(1)])
  have nw: "number_width t \<noteq> None" using assms(3) by simp
  have c1: "c1 = c0\<lparr>c_values := c_values c0 @ [?x], outside_vector_values := outside_vector_values c0 @ [?vec]\<rparr>"
    "h = of_nat (length (c_values c0))"
    using assms(4,5) by (simp_all add: pointless_create_vector_owner_priv_def push_value_def Let_def)
  have "length (outside_vector_values c0) < 2 ^ 32"
    using table_length_le [OF create_wfD(1) [OF wf0], of Heap_Outside_Vector] assms(2) by (simp add: table_length_def)
  then have e1: "arr_get (outside_vector_values c1) (unat (cr_data ?x)) = Some ?vec"
    by (simp add: c1 unat_of_nat)
  have "unat h = length (c_values c0)" using assms(2) c1(2) by (simp add: unat_of_nat)
  then have v1: "cv_value_at c1 h = Some ?x" by (simp add: c1 cv_value_at_def)
  note later = creates_later [OF assms(6)]
  from later_value [OF later v1] obtain x where x: "cv_value_at c2 h = Some x" "value_id x = value_id ?x" by blast
  have e2: "arr_get (outside_vector_values c2) (unat (cr_data x)) = Some ?vec"
    using later_entry [OF _ e1] later x(2) by (simp add: later_def value_id_def)
  have t: "type_29 (cr_header x) = t" "is_outside_vector (cr_header x)"
    using x(2) by (simp_all add: value_id_def mk_header_def)
  have "offset_kind k x = offset_kind k ?x" for k
    by (rule offset_kind_cong) (use t in \<open>simp_all add: mk_header_def\<close>)
  then have k: "offset_kind Heap_Outside_Vector x" using kind_outside [OF nw] by simp
  have "creation c1" by (rule creation.call [OF assms(1,2) create_call.vector_owner [OF assms(5) nw]])
  then have c2: "creation c2" by (rule creates_creation [OF assms(6)])
  have wf: "create_wf ?c" using wf_of_creation [OF c2] by (simp add: pointless_create_set_root_def)
  have l: "length (c_values ?c) < 2 ^ 32" using assms(7) by (simp add: pointless_create_set_root_def)
  have xc: "cv_value_at ?c (c_root ?c) = Some x"
    using x(1) by (simp add: pointless_create_set_root_def cv_value_at_def)
  from root_object [OF assms(8) wf l assms(9) xc k, of fuel'] obtain p c' m a d rest where
    p: "pointless_open_b_skip_validate fuel' buf = Some (Inr (p, None))" "p_buf p = buf"
      "v_type (pointless_root p) = type_29 (cr_header x)" and c': "same_tables ?c c'"
    and vc: "cv_value_at c' (c_root ?c) = Some x"
    and a: "PC_HEAP_OFFSET p (kind_offsets p Heap_Outside_Vector) (v_data (pointless_root p)) = Some a"
      "heap_image Heap_Outside_Vector c' m (c_root ?c) x = Some d" "drop a buf = d @ rest" by auto
  have "cv_outside_vector_at c' (c_root ?c) = Some ?vec"
    using vc e2 c' by (simp add: cv_outside_vector_at_def cv_get_outside_vector_def same_tables_def
        pointless_create_set_root_def)
  then obtain bs where bs: "bytes_at items 0 (w * unat n) = Some bs" "d = le_bytes 4 n @ bs"
    using a(2) vc assms(3) t(1)
    by (auto simp: heap_image_def outside_image_def cv_value_type_def elim!: bind_eq_Some_E)
  have len: "w * unat n \<le> length items" "bs = take (w * unat n) items"
    using bs(1) by (auto simp: bytes_at_def split: if_split_asm)
  from a(3) bs(2) have dr: "drop a buf = le_bytes 4 n @ bs @ rest" by simp
  have ne: "t \<noteq> POINTLESS_VECTOR_EMPTY" using nw by (auto simp: number_width_def)
  have "take (w * unat n) (drop (a + 4) buf) = take (w * unat n) items"
    using read_dropped(2) [OF dr] len by simp
  with p a(1) t ne len(1) read_dropped(1) [OF dr] show ?thesis
    by (simp add: pointless_reader_vector_n_items_def pointless_reader_vector_base_ptr_def kind_offsets_def)
qed

theorem vector_round_trip_witness:
  "\<exists>c buf p a. pointless_create_vector_owner_priv pointless_create_begin_64 POINTLESS_VECTOR_U16 [1, 0, 2, 1] 2 = (0, c) \<and>
     pointless_create_output_and_end_b 1 (pointless_create_set_root c 0) = Some (Inr buf) \<and>
     pointless_open_b_skip_validate 0 buf = Some (Inr (p, None)) \<and>
     pointless_reader_vector_base_ptr p (pointless_root p) = Some (Some a) \<and>
     take 4 (drop a (p_buf p)) = [1, 0, 2, 1]"
proof -
  let ?k = "c_cache pointless_create_begin_64"
  have c: "pointless_create_vector_owner_priv pointless_create_begin_64 POINTLESS_VECTOR_U16 [1, 0, 2, 1] 2 =
      (0, one_vector UINT32_MAX ?k)"
    by (simp add: pointless_create_vector_owner_priv_def push_value_def pointless_create_begin_64_def
        create_begin_def one_vector_def)
  have r: "pointless_create_set_root (one_vector UINT32_MAX ?k) 0 = one_vector 0 ?k"
    by (simp add: pointless_create_set_root_def one_vector_def)
  from one_vector_output [of ?k] obtain buf where
    o: "pointless_create_output_and_end_b 1 (pointless_create_set_root (one_vector UINT32_MAX ?k) 0) = Some (Inr buf)"
    "length buf < 2 ^ 32" unfolding r by blast
  have l: "length (c_values pointless_create_begin_64) < 2 ^ 32 - 4" "length (c_values (one_vector UINT32_MAX ?k)) < 2 ^ 32"
    by (simp_all add: pointless_create_begin_64_def create_begin_def one_vector_def)
  have w: "number_width POINTLESS_VECTOR_U16 = Some 2" "(2 :: u32) \<noteq> 0" by (simp_all add: number_width_def)
  from vector_round_trip [OF creation.begin_64 l(1) w c creates.nothing l(2) o, of 0]
  obtain p a where "pointless_open_b_skip_validate 0 buf = Some (Inr (p, None))"
    "pointless_reader_vector_base_ptr p (pointless_root p) = Some (Some a)" "take 4 (drop a (p_buf p)) = [1, 0, 2, 1]"
    by auto
  with c o(1) show ?thesis by blast
qed

end
