(* ===== verification/Interning.thy ===== *)
theory Interning
  imports Round_Trip
begin

text \<open>
  Strings are kept once: the dictionary gives equal strings one handle and different strings different
  handles, for as long as the creation lasts.
\<close>

text \<open>The heap form of a byte string, from its characters.\<close>

definition ascii_form :: "u32 list \<Rightarrow> u8 list" where
  "ascii_form cs = le_bytes 4 (of_nat (length cs) :: u32) @ map ucast cs @ [0]"

lemma code_points_determine:
  "code_points (vv :: u8 list) = Some cs \<Longrightarrow> length vv = length cs + 1 \<Longrightarrow> vv = map ucast cs @ [0]"
proof (induction vv arbitrary: cs)
  case (Cons x xs)
  show ?case
    using Cons.prems(1)
  proof (cases rule: code_points_ConsE)
    case 1
    with Cons.prems(2) show ?thesis by simp
  next
    case (2 cs')
    have "ucast (ucast x :: u32) = x" using unsigned_less [of x, where 'a = nat]
      by (simp add: word_unat_eq_iff unat_ucast_u8 unat_ucast_up)
    with 2 Cons.IH [of cs'] Cons.prems(2) show ?thesis by simp
  qed
qed simp

lemma ascii_form_inj:
  assumes "ascii_form cs = ascii_form cs'" and "code_points (s :: u8 list) = Some cs"
    and "code_points (s' :: u8 list) = Some cs'"
  shows "cs = cs'"
proof -
  have "map ucast cs = (map ucast cs' :: u8 list)"
    using assms(1) by (simp add: ascii_form_def append_eq_append_conv)
  then have "map (ucast :: u8 \<Rightarrow> u32) (map ucast cs) = map ucast (map ucast cs' :: u8 list)" by (simp only:)
  then have m: "map (\<lambda>c. ucast (ucast c :: u8) :: u32) cs = map (\<lambda>c. ucast (ucast c :: u8)) cs'"
    by (simp only: list.map_comp o_def)
  have "map (\<lambda>c. ucast (ucast c :: u8)) xs = xs" if "code_points (t :: u8 list) = Some xs" for t xs
  proof (rule map_idI)
    fix c assume "c \<in> set xs"
    with code_points_below [OF that] show "ucast (ucast c :: u8) = c"
      by (simp add: word_unat_eq_iff unat_ucast_u8 unat_ucast_up)
  qed
  from m this [OF assms(2)] this [OF assms(3)] show ?thesis by simp
qed

lemma ascii_creates:
  assumes "code_points s = Some cs" and "length cs < 2 ^ 32 - 8"
  shows "pointless_create_string_ascii c s = Some (create_string_value c POINTLESS_STRING (ascii_form cs))"
proof -
  have len: "length cs + 1 < 2 ^ 32" using assms(2) by simp
  have n: "string_len_loop 0 s = Some (of_nat (length cs))" using string_len_loop_eq [OF assms(1), of 0] by simp
  have u: "unat (of_nat (length cs) + 1 :: u64) = length cs + 1"
    using len by (simp add: unat_word_ariths unat_of_nat)
  have "\<exists>vv. string_conv_loop id (replicate (length cs + 1) 0) s = Some vv \<and> code_points vv = Some cs \<and>
      length vv = length (replicate (length cs + 1) (0 :: u8))"
    by (rule string_conv_loop_eq [OF assms(1)]) simp_all
  then obtain vv where vv: "string_conv_loop id (replicate (length cs + 1) 0) s = Some vv"
    "code_points vv = Some cs" "length vv = length cs + 1" by auto
  then have "string_conv_loop id (replicate (unat (of_nat (length cs) + 1 :: u64)) 0) s = Some vv"
    unfolding u by blast
  moreover have "string_buffer 1 (of_nat (length cs)) vv = ascii_form cs"
    unfolding ascii_form_def code_points_determine [OF vv(2,3), symmetric]
    by (simp add: string_buffer_def concat_le_bytes_1 ucast_of_nat_u32)
  ultimately show ?thesis
    by (simp add: pointless_create_string_ascii_def pointless_ascii_len_def pointless_ascii_cpy_def n)
qed

lemma ascii_form_fits:
  "length cs < 2 ^ 32 - 8 \<Longrightarrow> string_fits POINTLESS_STRING (ascii_form cs) \<and> length (ascii_form cs) < 2 ^ 32"
  unfolding string_fits_def
  by (intro conjI exI [of _ "of_nat (length cs)"]) (simp_all add: ascii_form_def unit_size_def unat_of_nat)

text \<open>An entry of the dictionary stays.\<close>

lemma dictionary_stays:
  assumes "creates c c'" and "string_unicode_map_judy c buffer = Some r"
  shows "string_unicode_map_judy c' buffer = Some r"
  using assms
proof (induction rule: creates.induct)
  case (one_more c c1 c2)
  from create_call_effect [OF one_more.hyps(3)] one_more.IH [OF one_more.prems] show ?case
    by (auto simp: effect_def adds_string_def create_string_value_def push_value_def Let_def
        split: option.split_asm)
qed

lemma string_value_entered:
  assumes "create_string_value c t buffer = (h, c')" and "length (c_values c) < 2 ^ 32"
  shows "\<exists>r. string_unicode_map_judy c' buffer = Some r \<and> h = ucast r"
proof (cases "string_unicode_map_judy c buffer")
  case None
  have "ucast (of_nat (length (c_values c)) :: u64) = (of_nat (length (c_values c)) :: u32)"
    by (rule ucast_of_nat_u32)
  with None assms(1) show ?thesis by (auto simp: create_string_value_def push_value_def Let_def)
next
  case (Some r)
  with assms(1) show ?thesis by (auto simp: create_string_value_def)
qed

text \<open>
  C32 A string created again has the handle it got the first time, and the creation does not grow;
  a different string gets a different handle.
\<close>

theorem strings_interned:
  assumes "creation c0" and "length (c_values c0) < 2 ^ 32 - 4"
    and "code_points s = Some cs" and "length cs < 2 ^ 32 - 8"
    and "code_points s' = Some cs'" and "length cs' < 2 ^ 32 - 8"
    and "pointless_create_string_ascii c0 s = Some (h, c1)"
    and "creates c1 c2" and "length (c_values c2) < 2 ^ 32 - 4"
    and "pointless_create_string_ascii c2 s' = Some (h', c3)"
  shows "(h' = h \<longleftrightarrow> cs' = cs) \<and> (cs' = cs \<longrightarrow> c3 = c2)"
proof -
  have v: "create_string_value c0 POINTLESS_STRING (ascii_form cs) = (h, c1)"
    using assms(7) ascii_creates [OF assms(3,4), of c0] by simp
  have v': "create_string_value c2 POINTLESS_STRING (ascii_form cs') = (h', c3)"
    using assms(10) ascii_creates [OF assms(5,6), of c2] by simp
  have l0: "length (c_values c0) < 2 ^ 32" and l2: "length (c_values c2) < 2 ^ 32" using assms(2,9) by simp_all
  have c1: "creation c1" by (rule creation.call [OF assms(1,2) create_call.string_ascii [OF assms(7)]])
  have c2: "creation c2" by (rule creates_creation [OF assms(8) c1])
  from string_value_entered [OF v l0] obtain r where
    r: "string_unicode_map_judy c1 (ascii_form cs) = Some r" "h = ucast r" by blast
  from dictionary_stays [OF assms(8) r(1)] v' r(2) have same: "cs' = cs \<Longrightarrow> h' = h \<and> c3 = c2"
    by (auto simp: create_string_value_def)
  have "creates c1 c3" by (rule creates.one_more [OF assms(8,9) create_call.string_ascii [OF assms(10)]])
  note later = creates_later [OF this]
  note st = string_value_stored [OF v assms(1) l0 _ _ _ later] and st' = string_value_stored [OF v' c2 l2 _ _ _ later_refl]
  from st st' ascii_form_fits [OF assms(4)] ascii_form_fits [OF assms(6)]
  obtain x x' where "cv_value_at c3 h = Some x" "cv_get_string c3 x = Some (ascii_form cs)"
    "cv_value_at c3 h' = Some x'" "cv_get_string c3 x' = Some (ascii_form cs')" by auto
  then have "h' = h \<Longrightarrow> cs' = cs" using ascii_form_inj [OF _ assms(3,5)] by auto
  with same show ?thesis by blast
qed

theorem strings_interned_witness:
  "\<exists>c. pointless_create_string_ascii pointless_create_begin_64 [72, 105, 0] = Some (0, c) \<and>
     pointless_create_string_ascii c [72, 105, 0] = Some (0, c)"
proof -
  have cp: "code_points [72, 105, 0 :: u8] = Some [72, 105]" "length [72, 105 :: u32] < 2 ^ 32 - 8" by simp_all
  note ac = ascii_creates [OF cp]
  let ?b = pointless_create_begin_64
  have l0: "length (c_values ?b) < 2 ^ 32 - 4" by (simp add: pointless_create_begin_64_def create_begin_def)
  obtain c where c: "pointless_create_string_ascii ?b [72, 105, 0] = Some (0, c)" "length (c_values c) = 1"
    by (simp add: ac create_string_value_def push_value_def pointless_create_begin_64_def create_begin_def)
  obtain h' c3 where c3: "pointless_create_string_ascii c [72, 105, 0] = Some (h', c3)"
    unfolding ac by (metis surj_pair)
  have "length (c_values c) < 2 ^ 32 - 4" using c(2) by simp
  from strings_interned [OF creation.begin_64 l0 cp cp c(1) creates.nothing this c3] c(1) c3 show ?thesis by blast
qed

end
