(* ===== verification/Int_Eval.thy ===== *)
theory Int_Eval
  imports Int_Ops
begin

text \<open>
  The expression evaluator of \<open>src/pointless_int_ops.c\<close>: the tokenizer, the recursive descent parser that
  compiles an expression to postfix, and the evaluation of the postfix. The token array of a context is
  not cleared between uses, so its old contents are part of the state; of the two stacks only the
  entries below their counts are ever read, so they are lists. \<open>fuel\<close> bounds the recursion of the parser.
\<close>

section \<open>Tokens and contexts\<close>

abbreviation (input) INTOP_EVAL_NUMBER :: int where "INTOP_EVAL_NUMBER \<equiv> 0"
abbreviation (input) INTOP_EVAL_ADD :: int where "INTOP_EVAL_ADD \<equiv> 1"
abbreviation (input) INTOP_EVAL_SUB :: int where "INTOP_EVAL_SUB \<equiv> 2"
abbreviation (input) INTOP_EVAL_MUL :: int where "INTOP_EVAL_MUL \<equiv> 3"
abbreviation (input) INTOP_EVAL_DIV :: int where "INTOP_EVAL_DIV \<equiv> 4"
abbreviation (input) INTOP_EVAL_LPAREN :: int where "INTOP_EVAL_LPAREN \<equiv> 5"
abbreviation (input) INTOP_EVAL_RPAREN :: int where "INTOP_EVAL_RPAREN \<equiv> 6"
abbreviation (input) INTOP_EVAL_VARIABLE :: int where "INTOP_EVAL_VARIABLE \<equiv> 7"

abbreviation (input) INTOP_EVAL_MAX_N :: nat where "INTOP_EVAL_MAX_N \<equiv> 512"

record intop_eval_token_t =
  tok_type :: int
  tok_number :: intop_u64_t
  tok_var_index :: int

record intop_eval_context_t =
  ev_i :: nat
  ev_n :: nat
  ev_tokens :: "intop_eval_token_t list"
  ev_stack :: "intop_eval_token_t list"
  ev_eval :: "intop_eval_token_t list"
  ev_s_error :: "err option"
  ev_i_error :: nat

definition token_type_at :: "intop_eval_context_t \<Rightarrow> int option" where
  "token_type_at c = map_option tok_type (arr_get (ev_tokens c) (ev_i c))"

section \<open>The parser\<close>

definition intop_check_error :: "intop_eval_context_t \<Rightarrow> bool" where
  "intop_check_error c \<longleftrightarrow> ev_s_error c \<noteq> None"

definition intop_eval_check_bounds :: "intop_eval_context_t \<Rightarrow> bool" where
  "intop_eval_check_bounds c \<longleftrightarrow> ev_i c < INTOP_EVAL_MAX_N"

definition intop_eval_fail :: "err \<Rightarrow> intop_eval_context_t \<Rightarrow> intop_eval_context_t" where
  "intop_eval_fail e c = c\<lparr>ev_s_error := Some e, ev_i_error := ev_i c\<rparr>"

definition intop_eval_push :: "intop_eval_token_t \<Rightarrow> intop_eval_context_t \<Rightarrow> intop_eval_context_t" where
  "intop_eval_push token c =
     (if length (ev_stack c) = INTOP_EVAL_MAX_N then intop_eval_fail ''result stack overflow'' c
      else c\<lparr>ev_stack := ev_stack c @ [token]\<rparr>)"

text \<open>Whether the parser is at one of the given tokens.\<close>

definition at_token :: "int set \<Rightarrow> intop_eval_context_t \<Rightarrow> bool option" where
  "at_token ts c =
     (if intop_eval_check_bounds c then map_option (\<lambda>t. t \<in> ts) (token_type_at c) else Some False)"

definition push_token_at :: "nat \<Rightarrow> intop_eval_context_t \<Rightarrow> intop_eval_context_t option" where
  "push_token_at i c = map_option (\<lambda>t. intop_eval_push t c) (arr_get (ev_tokens c) i)"

definition advance :: "intop_eval_context_t \<Rightarrow> intop_eval_context_t" where
  "advance c = c\<lparr>ev_i := ev_i c + 1\<rparr>"

fun intop_eval_E :: "nat \<Rightarrow> intop_eval_context_t \<Rightarrow> intop_eval_context_t option"
  and intop_eval_Em :: "nat \<Rightarrow> intop_eval_context_t \<Rightarrow> intop_eval_context_t option"
  and intop_eval_T :: "nat \<Rightarrow> intop_eval_context_t \<Rightarrow> intop_eval_context_t option"
  and intop_eval_Tm :: "nat \<Rightarrow> intop_eval_context_t \<Rightarrow> intop_eval_context_t option"
  and intop_eval_F :: "nat \<Rightarrow> intop_eval_context_t \<Rightarrow> intop_eval_context_t option" where
  "intop_eval_E 0 c = None"
| "intop_eval_E (Suc fuel) c =
     (if intop_check_error c then Some c
      else do { c \<leftarrow> intop_eval_T fuel c; intop_eval_Em fuel c })"
| "intop_eval_Em 0 c = None"
| "intop_eval_Em (Suc fuel) c =
     (if intop_check_error c then Some c
      else do {
        b \<leftarrow> at_token {INTOP_EVAL_ADD, INTOP_EVAL_SUB} c;
        if b
        then do {
          let i = ev_i c;
          c \<leftarrow> intop_eval_T fuel (advance c);
          c \<leftarrow> intop_eval_Em fuel c;
          push_token_at i c }
        else Some c })"
| "intop_eval_T 0 c = None"
| "intop_eval_T (Suc fuel) c =
     (if intop_check_error c then Some c
      else do { c \<leftarrow> intop_eval_F fuel c; intop_eval_Tm fuel c })"
| "intop_eval_Tm 0 c = None"
| "intop_eval_Tm (Suc fuel) c =
     (if intop_check_error c then Some c
      else do {
        b \<leftarrow> at_token {INTOP_EVAL_MUL, INTOP_EVAL_DIV} c;
        if b
        then do {
          let i = ev_i c;
          c \<leftarrow> intop_eval_F fuel (advance c);
          c \<leftarrow> intop_eval_Tm fuel c;
          push_token_at i c }
        else Some c })"
| "intop_eval_F 0 c = None"
| "intop_eval_F (Suc fuel) c =
     (if intop_check_error c then Some c
      else do {
        b \<leftarrow> at_token {INTOP_EVAL_NUMBER, INTOP_EVAL_VARIABLE} c;
        if b then map_option advance (push_token_at (ev_i c) c)
        else do {
          b \<leftarrow> at_token {INTOP_EVAL_LPAREN} c;
          if \<not> b then Some (intop_eval_fail ''expected '(', number or variable'' c)
          else do {
            c \<leftarrow> intop_eval_E fuel (advance c);
            if intop_check_error c then Some c
            else do {
              b \<leftarrow> at_token {INTOP_EVAL_RPAREN} c;
              Some (if b then advance c else intop_eval_fail (''expected '' @ [CHR 0x27, CHR '')'', CHR 0x27]) c) } } } })"

section \<open>The tokenizer\<close>

definition is_digit :: "u8 \<Rightarrow> bool" where
  "is_digit ch \<longleftrightarrow> 48 \<le> ch \<and> ch \<le> 57"

fun digits_value :: "u8 list \<Rightarrow> int \<Rightarrow> int" where
  "digits_value [] acc = acc"
| "digits_value (d # ds) acc = digits_value ds (10 * acc + uint (d - 48))"

text \<open>\<open>strtoull\<close> on a string of digits: what does not fit is an error.\<close>

definition parse_number :: "u8 list \<Rightarrow> u64 option" where
  "parse_number ds = (let n = digits_value ds 0 in if n < 2 ^ 64 then Some (of_int n) else None)"

text \<open>The tokens of one character, by their type.\<close>

definition char_token :: "u8 \<Rightarrow> int option" where
  "char_token ch =
     (if ch = 40 then Some INTOP_EVAL_LPAREN else if ch = 41 then Some INTOP_EVAL_RPAREN
      else if ch = 45 then Some INTOP_EVAL_SUB else if ch = 43 then Some INTOP_EVAL_ADD
      else if ch = 47 then Some INTOP_EVAL_DIV else if ch = 42 then Some INTOP_EVAL_MUL else None)"

text \<open>Setting some members of the next token; the others keep what they had.\<close>

definition put_token ::
    "(intop_eval_token_t \<Rightarrow> intop_eval_token_t) \<Rightarrow> intop_eval_context_t \<Rightarrow> intop_eval_context_t option" where
  "put_token f c =
     do { old \<leftarrow> arr_get (ev_tokens c) (ev_n c);
          ts \<leftarrow> arr_set (ev_tokens c) (ev_n c) (f old);
          Some (c\<lparr>ev_tokens := ts, ev_n := ev_n c + 1\<rparr>) }"

text \<open>A number has at most 30 digits, its buffer 32 characters.\<close>

function intop_eval_tokenize ::
    "u8 list \<Rightarrow> int \<Rightarrow> intop_eval_context_t \<Rightarrow> (err option \<times> intop_eval_context_t) option" where
  "intop_eval_tokenize [] n_variables c = None"
| "intop_eval_tokenize (ch # s) n_variables c =
     (if ch = 0 then Some (None, c)
      else if INTOP_EVAL_MAX_N \<le> ev_n c then Some (Some ''too many tokens'', c)
      else if ch = 32 \<or> ch = 9 then intop_eval_tokenize s n_variables c
      else if ch = 120
      then do {
        c \<leftarrow> put_token (\<lambda>t. t\<lparr>tok_type := INTOP_EVAL_VARIABLE, tok_var_index := n_variables\<rparr>) c;
        intop_eval_tokenize s (n_variables + 1) c }
      else if is_digit ch
      then let token = take 31 (takeWhile is_digit (ch # s));
               s' = drop (length token) (ch # s)
           in if s' = [] then None
              else if length token = 31 then Some (Some ''too big of a number'', c)
              else (case parse_number token of
                      None \<Rightarrow> Some (Some ''invalid number'', c)
                    | Some v \<Rightarrow> do {
                        c \<leftarrow> put_token (\<lambda>t. t\<lparr>tok_type := INTOP_EVAL_NUMBER,
                                                tok_number := \<lparr>is_overflow = False, intval = v\<rparr>\<rparr>) c;
                        intop_eval_tokenize s' n_variables c })
      else (case char_token ch of
              None \<Rightarrow> Some (Some ''invalid token'', c)
            | Some t \<Rightarrow> do {
                c \<leftarrow> put_token (\<lambda>x. x\<lparr>tok_type := t\<rparr>) c;
                intop_eval_tokenize s n_variables c }))"
  by pat_completeness auto
termination
  by (relation "measure (\<lambda>(s, n, c). length s)") (auto simp: Let_def)

definition intop_eval_compile ::
    "nat \<Rightarrow> u8 list \<Rightarrow> intop_eval_context_t \<Rightarrow> (err option \<times> intop_eval_context_t) option" where
  "intop_eval_compile fuel s c =
     do { (e, c) \<leftarrow> intop_eval_tokenize s 0
            (c\<lparr>ev_i := 0, ev_n := 0, ev_stack := [], ev_eval := [], ev_s_error := None, ev_i_error := 0\<rparr>);
          (case e of
             Some e \<Rightarrow> Some (Some e, c)
           | None \<Rightarrow>
               if ev_n c = 0 then Some (Some ''no tokens'', c)
               else do {
                 c \<leftarrow> intop_eval_E fuel c;
                 Some (if intop_check_error c then ev_s_error c
                       else if ev_i c \<noteq> ev_n c then Some ''some parsing error'' else None, c) }) }"

section \<open>Evaluation\<close>

text \<open>
  One entry of the postfix on the stack of numbers, whose top is at the end of the list: \<open>a\<close> is the top,
  \<open>b\<close> the number below it. A stack too short for an operator is an access outside the array.
\<close>

definition intop_eval_operator ::
    "int \<Rightarrow> intop_u64_t \<Rightarrow> intop_u64_t \<Rightarrow> err + intop_u64_t" where
  "intop_eval_operator t a b =
     (if t = INTOP_EVAL_SUB then
        if intval a < intval b then Inl ''underflow''
        else Inr \<lparr>is_overflow = is_overflow a \<or> is_overflow b, intval = intval a - intval b\<rparr>
      else if t = INTOP_EVAL_ADD then Inr (intop_u64_add a b)
      else if t = INTOP_EVAL_DIV then
        if intval b = 0 then Inl ''division by zero''
        else Inr \<lparr>is_overflow = is_overflow a \<or> is_overflow b, intval = intval a div intval b\<rparr>
      else Inr (intop_u64_mult a b))"

definition intop_eval_step ::
    "intop_eval_token_t \<Rightarrow> intop_eval_token_t list \<Rightarrow> (err + intop_eval_token_t list) option" where
  "intop_eval_step x ev =
     (let t = tok_type x in
      if t = INTOP_EVAL_NUMBER then
        if length ev < INTOP_EVAL_MAX_N then Some (Inr (ev @ [x])) else None
      else if t = INTOP_EVAL_VARIABLE then Some (Inl ''not supported yet'')
      else if t \<in> {INTOP_EVAL_SUB, INTOP_EVAL_ADD, INTOP_EVAL_DIV, INTOP_EVAL_MUL} then
        if length ev < 2 then None
        else let top = ev ! (length ev - 1); below = ev ! (length ev - 2) in
             (case intop_eval_operator t (tok_number top) (tok_number below) of
                Inl e \<Rightarrow> Some (Inl e)
              | Inr r \<Rightarrow> Some (Inr (take (length ev - 2) ev @
                             [below\<lparr>tok_type := INTOP_EVAL_NUMBER, tok_number := r\<rparr>])))
      else Some (Inl ''invalid token''))"

definition intop_eval_eval :: "intop_eval_context_t \<Rightarrow> (err + u64) option" where
  "intop_eval_eval c =
     do { r \<leftarrow> for_loop intop_eval_step (ev_stack c) [];
          Some (case r of
                  Inl e \<Rightarrow> Inl e
                | Inr [x] \<Rightarrow>
                    if tok_type x \<noteq> INTOP_EVAL_NUMBER then Inl ''compile/eval error''
                    else if is_overflow (tok_number x) then Inl ''eval overflow''
                    else Inr (intval (tok_number x))
                | Inr _ \<Rightarrow> Inl ''compile/eval error'') }"

end
