(* ===== verification/Int_Eval_Laws.thy ===== *)
theory Int_Eval_Laws
  imports Int_Eval
begin

text \<open>
  The expression evaluator: the grammar its comment gives as an inductive definition, the postfix the
  parser makes of a word of the grammar, and what the evaluation of the postfix answers.
\<close>

section \<open>The parser returns\<close>

text \<open>How many tokens are left; every recursion that does not consume one goes three levels down at most.\<close>

definition tokens_left :: "intop_eval_context_t \<Rightarrow> nat" where
  "tokens_left c = INTOP_EVAL_MAX_N - ev_i c"

definition parser_ok :: "intop_eval_context_t \<Rightarrow> intop_eval_context_t option \<Rightarrow> bool" where
  "parser_ok c r \<longleftrightarrow> (\<exists>c'. r = Some c' \<and> length (ev_tokens c') = INTOP_EVAL_MAX_N \<and> ev_i c \<le> ev_i c')"

lemma at_token_returns:
  "length (ev_tokens c) = INTOP_EVAL_MAX_N \<Longrightarrow> \<exists>b. at_token ts c = Some b \<and> (b \<longrightarrow> ev_i c < INTOP_EVAL_MAX_N)"
  by (auto simp: at_token_def intop_eval_check_bounds_def token_type_at_def)

lemma push_ok:
  "length (ev_tokens c) = INTOP_EVAL_MAX_N \<Longrightarrow> i < INTOP_EVAL_MAX_N \<Longrightarrow>
   \<exists>c'. push_token_at i c = Some c' \<and> ev_tokens c' = ev_tokens c \<and> ev_i c' = ev_i c"
  by (simp add: push_token_at_def intop_eval_push_def intop_eval_fail_def)

lemma advance_simps [simp]:
  "ev_tokens (advance c) = ev_tokens c" "ev_i (advance c) = ev_i c + 1" "ev_stack (advance c) = ev_stack c"
  "ev_s_error (advance c) = ev_s_error c"
  by (simp_all add: advance_def)

lemma parser_okI: "length (ev_tokens c') = INTOP_EVAL_MAX_N \<Longrightarrow> ev_i c \<le> ev_i c' \<Longrightarrow> parser_ok c (Some c')"
  by (simp add: parser_ok_def)

lemma parser_okE:
  assumes "parser_ok c r"
  obtains c' where "r = Some c'" "length (ev_tokens c') = INTOP_EVAL_MAX_N" "ev_i c \<le> ev_i c'"
  using assms by (auto simp: parser_ok_def)

lemma parser_returns:
  assumes "length (ev_tokens c) = INTOP_EVAL_MAX_N"
  shows "3 * tokens_left c + 3 \<le> fuel \<Longrightarrow> parser_ok c (intop_eval_E fuel c)"
    and "3 * tokens_left c + 1 \<le> fuel \<Longrightarrow> parser_ok c (intop_eval_Em fuel c)"
    and "3 * tokens_left c + 2 \<le> fuel \<Longrightarrow> parser_ok c (intop_eval_T fuel c)"
    and "3 * tokens_left c + 1 \<le> fuel \<Longrightarrow> parser_ok c (intop_eval_Tm fuel c)"
    and "3 * tokens_left c + 1 \<le> fuel \<Longrightarrow> parser_ok c (intop_eval_F fuel c)"
  using assms
proof (induction fuel arbitrary: c)
  case (Suc fuel)
  {
    case 1
    show ?case
    proof (cases "intop_check_error c")
      case False
      have "parser_ok c (intop_eval_T fuel c)" using Suc.IH(3) [of c] 1 by simp
      then obtain c1 where c1: "intop_eval_T fuel c = Some c1" "length (ev_tokens c1) = INTOP_EVAL_MAX_N"
        "ev_i c \<le> ev_i c1" by (rule parser_okE)
      have "parser_ok c1 (intop_eval_Em fuel c1)" using Suc.IH(2) [of c1] 1 c1 by (simp add: tokens_left_def)
      with c1 False show ?thesis by (auto simp: parser_ok_def)
    qed (use 1 in \<open>simp add: parser_ok_def\<close>)
  next
    case 2
    from at_token_returns [OF 2(2)] obtain b where
      b: "at_token {INTOP_EVAL_ADD, INTOP_EVAL_SUB} c = Some b" "b \<longrightarrow> ev_i c < INTOP_EVAL_MAX_N" by blast
    show ?case
    proof (cases "intop_check_error c \<or> \<not> b")
      case False
      then have i: "ev_i c < INTOP_EVAL_MAX_N" using b by simp
      have "parser_ok (advance c) (intop_eval_T fuel (advance c))"
        using Suc.IH(3) [of "advance c"] 2 i by (simp add: tokens_left_def)
      then obtain c1 where c1: "intop_eval_T fuel (advance c) = Some c1" "length (ev_tokens c1) = INTOP_EVAL_MAX_N"
        "ev_i (advance c) \<le> ev_i c1" by (rule parser_okE)
      have "parser_ok c1 (intop_eval_Em fuel c1)"
        using Suc.IH(2) [of c1] 2 i c1 by (simp add: tokens_left_def)
      then obtain c2 where c2: "intop_eval_Em fuel c1 = Some c2" "length (ev_tokens c2) = INTOP_EVAL_MAX_N"
        "ev_i c1 \<le> ev_i c2" by (rule parser_okE)
      with push_ok [OF c2(2) i] c1 b False show ?thesis by (auto simp: parser_ok_def Let_def)
    qed (use b 2 in \<open>auto simp: parser_ok_def\<close>)
  next
    case 3
    show ?case
    proof (cases "intop_check_error c")
      case False
      have "parser_ok c (intop_eval_F fuel c)" using Suc.IH(5) [of c] 3 by simp
      then obtain c1 where c1: "intop_eval_F fuel c = Some c1" "length (ev_tokens c1) = INTOP_EVAL_MAX_N"
        "ev_i c \<le> ev_i c1" by (rule parser_okE)
      have "parser_ok c1 (intop_eval_Tm fuel c1)" using Suc.IH(4) [of c1] 3 c1 by (simp add: tokens_left_def)
      with c1 False show ?thesis by (auto simp: parser_ok_def)
    qed (use 3 in \<open>simp add: parser_ok_def\<close>)
  next
    case 4
    from at_token_returns [OF 4(2)] obtain b where
      b: "at_token {INTOP_EVAL_MUL, INTOP_EVAL_DIV} c = Some b" "b \<longrightarrow> ev_i c < INTOP_EVAL_MAX_N" by blast
    show ?case
    proof (cases "intop_check_error c \<or> \<not> b")
      case False
      then have i: "ev_i c < INTOP_EVAL_MAX_N" using b by simp
      have "parser_ok (advance c) (intop_eval_F fuel (advance c))"
        using Suc.IH(5) [of "advance c"] 4 i by (simp add: tokens_left_def)
      then obtain c1 where c1: "intop_eval_F fuel (advance c) = Some c1" "length (ev_tokens c1) = INTOP_EVAL_MAX_N"
        "ev_i (advance c) \<le> ev_i c1" by (rule parser_okE)
      have "parser_ok c1 (intop_eval_Tm fuel c1)"
        using Suc.IH(4) [of c1] 4 i c1 by (simp add: tokens_left_def)
      then obtain c2 where c2: "intop_eval_Tm fuel c1 = Some c2" "length (ev_tokens c2) = INTOP_EVAL_MAX_N"
        "ev_i c1 \<le> ev_i c2" by (rule parser_okE)
      with push_ok [OF c2(2) i] c1 b False show ?thesis by (auto simp: parser_ok_def Let_def)
    qed (use b 4 in \<open>auto simp: parser_ok_def\<close>)
  next
    case 5
    from at_token_returns [OF 5(2)] obtain b where
      b: "at_token {INTOP_EVAL_NUMBER, INTOP_EVAL_VARIABLE} c = Some b" "b \<longrightarrow> ev_i c < INTOP_EVAL_MAX_N" by blast
    from at_token_returns [OF 5(2)] obtain l where
      l: "at_token {INTOP_EVAL_LPAREN} c = Some l" "l \<longrightarrow> ev_i c < INTOP_EVAL_MAX_N" by blast
    show ?case
    proof (cases "intop_check_error c \<or> b \<or> \<not> l")
      case True
      with push_ok [OF 5(2), of "ev_i c"] b l 5 show ?thesis
        by (auto simp: parser_ok_def intop_eval_fail_def)
    next
      case False
      then have "parser_ok (advance c) (intop_eval_E fuel (advance c))"
        using Suc.IH(1) [of "advance c"] 5 l by (simp add: tokens_left_def)
      then obtain c1 where c1: "intop_eval_E fuel (advance c) = Some c1" "length (ev_tokens c1) = INTOP_EVAL_MAX_N"
        "ev_i (advance c) \<le> ev_i c1" by (rule parser_okE)
      from at_token_returns [OF c1(2)] obtain r where "at_token {INTOP_EVAL_RPAREN} c1 = Some r" by blast
      with c1 b l False show ?thesis by (auto simp: parser_ok_def intop_eval_fail_def)
    qed
  }
qed simp_all

text \<open>The tokenizer stops at the terminator at the latest.\<close>

lemma put_token_returns:
  assumes "ev_n c < INTOP_EVAL_MAX_N" and "length (ev_tokens c) = INTOP_EVAL_MAX_N"
  shows "\<exists>c'. put_token f c = Some c' \<and> length (ev_tokens c') = INTOP_EVAL_MAX_N"
  using assms by (simp add: put_token_def)

lemma drop_digits:
  assumes "0 \<in> set s" and "token = take 31 (takeWhile is_digit s)"
  shows "0 \<in> set (drop (length token) s)"
proof -
  have "\<forall>d \<in> set token. is_digit d"
    using assms(2) by (auto dest!: in_set_takeD set_takeWhileD)
  then have "0 \<notin> set token" by (auto simp: is_digit_def)
  moreover have "token = take (min 31 (length (takeWhile is_digit s))) s"
    unfolding assms(2) by (subst takeWhile_eq_take) simp
  then obtain n where n: "token = take n s" by blast
  then have "drop (length token) s = drop n s" by (cases "n \<le> length s") simp_all
  moreover have "set s = set token \<union> set (drop n s)" unfolding n by (simp flip: set_append)
  ultimately show ?thesis using assms(1) by auto
qed

lemma tokenize_number:
  assumes "ch \<noteq> 0" "ev_n c < INTOP_EVAL_MAX_N" "\<not> (ch = 32 \<or> ch = 9)" "ch \<noteq> 120" "is_digit ch"
    and "token = take 31 (takeWhile is_digit (ch # s))" and "s' = drop (length token) (ch # s)"
    and "s' \<noteq> []" "length token \<noteq> 31" "parse_number token = Some v"
    and "put_token (\<lambda>t. t\<lparr>tok_type := INTOP_EVAL_NUMBER,
           tok_number := \<lparr>is_overflow = False, intval = v\<rparr>\<rparr>) c = Some c1"
  shows "intop_eval_tokenize (ch # s) k c = intop_eval_tokenize s' k c1"
  unfolding intop_eval_tokenize.simps(2) Let_def assms(6) [symmetric] assms(7) [symmetric]
  using assms(1-5,8-11) by simp

lemma tokenize_returns:
  assumes "0 \<in> set s" and "length (ev_tokens c) = INTOP_EVAL_MAX_N"
  shows "\<exists>e c'. intop_eval_tokenize s k c = Some (e, c') \<and> length (ev_tokens c') = INTOP_EVAL_MAX_N"
  using assms
proof (induction s k c rule: intop_eval_tokenize.induct)
  case (2 ch s k c)
  let ?token = "take 31 (takeWhile is_digit (ch # s))"
  have d: "0 \<in> set (drop (length ?token) (ch # s))" by (rule drop_digits [OF 2(5) refl])
  consider "ch = 0" | "ch \<noteq> 0" "INTOP_EVAL_MAX_N \<le> ev_n c" | "ch \<noteq> 0" "ev_n c < INTOP_EVAL_MAX_N" by force
  then show ?case
  proof cases
    case 3
    then have s: "0 \<in> set s" using 2(5) by simp
    note put = put_token_returns [OF 3(2) 2(6)]
    show ?thesis
    proof (cases "ch = 32 \<or> ch = 9")
      case True
      with 3 s 2(1,6) show ?thesis by auto
    next
      case nsp: False
      show ?thesis
      proof (cases "ch = 120")
        case True
        obtain c1 where "put_token (\<lambda>t. t\<lparr>tok_type := INTOP_EVAL_VARIABLE, tok_var_index := k\<rparr>) c = Some c1"
          "length (ev_tokens c1) = INTOP_EVAL_MAX_N" using put by blast
        with 3 nsp True s 2(2) show ?thesis by simp
      next
        case nx: False
        show ?thesis
        proof (cases "is_digit ch")
          case True
          have ne: "drop (length ?token) (ch # s) \<noteq> []" using d by auto
          show ?thesis
          proof (cases "length ?token = 31 \<or> parse_number ?token = None")
            case True
            with 3 nsp nx \<open>is_digit ch\<close> ne 2(6) show ?thesis by (auto simp: Let_def)
          next
            case False
            then obtain v where v: "length ?token \<noteq> 31" "parse_number ?token = Some v" by auto
            obtain c1 where c1: "put_token (\<lambda>t. t\<lparr>tok_type := INTOP_EVAL_NUMBER,
                tok_number := \<lparr>is_overflow = False, intval = v\<rparr>\<rparr>) c = Some c1"
              "length (ev_tokens c1) = INTOP_EVAL_MAX_N" using put by blast
            have "\<exists>e c'. intop_eval_tokenize (drop (length ?token) (ch # s)) k c1 = Some (e, c') \<and>
                length (ev_tokens c') = INTOP_EVAL_MAX_N"
              by (rule 2(3) [OF _ _ _ _ _ refl refl ne v c1(1) d c1(2)])
                (use 3 nsp nx \<open>is_digit ch\<close> in simp_all)
            then show ?thesis
              unfolding tokenize_number [OF 3 nsp nx \<open>is_digit ch\<close> refl refl ne v c1(1)] .
          qed
        next
          case False
          show ?thesis
          proof (cases "char_token ch")
            case None
            with 3 nsp nx False 2(6) show ?thesis by simp
          next
            case (Some t)
            obtain c1 where "put_token (\<lambda>x. x\<lparr>tok_type := t\<rparr>) c = Some c1"
              "length (ev_tokens c1) = INTOP_EVAL_MAX_N" using put by blast
            with 3 nsp nx False Some s 2(4) show ?thesis by simp
          qed
        qed
      qed
    qed
  qed (use 2(6) in simp_all)
qed simp

lemma compile_returns:
  assumes "0 \<in> set s" and "length (ev_tokens c) = INTOP_EVAL_MAX_N"
  shows "\<exists>r. intop_eval_compile 1539 s c = Some r"
proof -
  let ?c = "c\<lparr>ev_i := 0, ev_n := 0, ev_stack := [], ev_eval := [], ev_s_error := None, ev_i_error := 0\<rparr>"
  from tokenize_returns [OF assms(1), of ?c 0] assms(2) obtain e c1 where
    c1: "intop_eval_tokenize s 0 ?c = Some (e, c1)" "length (ev_tokens c1) = INTOP_EVAL_MAX_N" by auto
  have "parser_ok c1 (intop_eval_E 1539 c1)"
    by (rule parser_returns(1) [OF c1(2)]) (simp add: tokens_left_def)
  with c1 show ?thesis by (auto simp: intop_eval_compile_def parser_ok_def split: option.split)
qed

section \<open>The grammar\<close>

text \<open>Syntax trees over tokens, and the grammar of the header: both kinds of operator associate to the right.\<close>

datatype syntree = Leaf intop_eval_token_t | Node intop_eval_token_t syntree syntree

inductive E_tokens :: "syntree \<Rightarrow> intop_eval_token_t list \<Rightarrow> bool"
  and T_tokens :: "syntree \<Rightarrow> intop_eval_token_t list \<Rightarrow> bool"
  and F_tokens :: "syntree \<Rightarrow> intop_eval_token_t list \<Rightarrow> bool" where
  F_number: "tok_type t = INTOP_EVAL_NUMBER \<Longrightarrow> F_tokens (Leaf t) [t]"
| F_paren: "E_tokens e ts \<Longrightarrow> tok_type l = INTOP_EVAL_LPAREN \<Longrightarrow> tok_type r = INTOP_EVAL_RPAREN \<Longrightarrow>
    F_tokens e (l # ts @ [r])"
| T_F: "F_tokens e ts \<Longrightarrow> T_tokens e ts"
| T_op: "F_tokens e ts \<Longrightarrow> T_tokens e' us \<Longrightarrow> tok_type t \<in> {INTOP_EVAL_MUL, INTOP_EVAL_DIV} \<Longrightarrow>
    T_tokens (Node t e e') (ts @ t # us)"
| E_T: "T_tokens e ts \<Longrightarrow> E_tokens e ts"
| E_op: "T_tokens e ts \<Longrightarrow> E_tokens e' us \<Longrightarrow> tok_type t \<in> {INTOP_EVAL_ADD, INTOP_EVAL_SUB} \<Longrightarrow>
    E_tokens (Node t e e') (ts @ t # us)"

fun postfix_of :: "syntree \<Rightarrow> intop_eval_token_t list" where
  "postfix_of (Leaf t) = [t]"
| "postfix_of (Node t e e') = postfix_of e @ postfix_of e' @ [t]"

text \<open>The parser is in a good state, in front of the tokens \<open>ts\<close>, with room for the results.\<close>

definition before_tokens :: "intop_eval_context_t \<Rightarrow> intop_eval_token_t list \<Rightarrow> bool" where
  "before_tokens c ts \<longleftrightarrow> length (ev_tokens c) = INTOP_EVAL_MAX_N \<and> drop (ev_i c) (ev_tokens c) = ts \<and>
     ev_s_error c = None \<and> length (ev_stack c) \<le> ev_i c \<and> ev_i c \<le> INTOP_EVAL_MAX_N"

definition after_tokens :: "intop_eval_context_t \<Rightarrow> nat \<Rightarrow> intop_eval_token_t list \<Rightarrow> intop_eval_context_t" where
  "after_tokens c n post = c\<lparr>ev_i := ev_i c + n, ev_stack := ev_stack c @ post\<rparr>"

lemma before_at:
  assumes "before_tokens c (t # ts)"
  shows "at_token A c = Some (tok_type t \<in> A)" "arr_get (ev_tokens c) (ev_i c) = Some t"
    "ev_i c < INTOP_EVAL_MAX_N" "\<not> intop_check_error c"
proof -
  have d: "drop (ev_i c) (ev_tokens c) = t # ts" and l: "length (ev_tokens c) = INTOP_EVAL_MAX_N"
    using assms by (simp_all add: before_tokens_def)
  from d have i: "ev_i c < length (ev_tokens c)" by (metis drop_all leI list.distinct(1))
  with d have "ev_tokens c ! ev_i c = t" by (metis hd_drop_conv_nth list.sel(1))
  with i l assms show "at_token A c = Some (tok_type t \<in> A)" "arr_get (ev_tokens c) (ev_i c) = Some t"
    "ev_i c < INTOP_EVAL_MAX_N" "\<not> intop_check_error c"
    by (simp_all add: at_token_def intop_eval_check_bounds_def token_type_at_def before_tokens_def
        intop_check_error_def)
qed

lemma before_none:
  assumes "before_tokens c ts" and "ts = [] \<or> tok_type (hd ts) \<notin> A"
  shows "at_token A c = Some False"
proof (cases ts)
  case Nil
  with assms(1) have "drop (ev_i c) (ev_tokens c) = []" "length (ev_tokens c) = INTOP_EVAL_MAX_N"
    by (simp_all add: before_tokens_def)
  then show ?thesis by (simp add: at_token_def intop_eval_check_bounds_def)
next
  case (Cons t ts')
  with assms before_at(1) [of c t ts' A] show ?thesis by simp
qed

lemma before_advance: "before_tokens c (t # ts) \<Longrightarrow> before_tokens (advance c) ts"
proof -
  assume b: "before_tokens c (t # ts)"
  then have "drop (Suc (ev_i c)) (ev_tokens c) = ts"
    by (simp add: before_tokens_def drop_Suc flip: tl_drop)
  then show ?thesis using b before_at(3) [OF b] by (auto simp: before_tokens_def)
qed

lemma before_after:
  assumes "before_tokens c (ts @ us)" and "length post \<le> length ts"
  shows "before_tokens (after_tokens c (length ts) post) us"
proof -
  have d: "drop (ev_i c) (ev_tokens c) = ts @ us" using assms(1) by (simp add: before_tokens_def)
  then have "drop (length ts) (drop (ev_i c) (ev_tokens c)) = us" by simp
  moreover have "length (drop (ev_i c) (ev_tokens c)) = length ts + length us" unfolding d by simp
  ultimately show ?thesis using assms by (auto simp: before_tokens_def after_tokens_def add.commute)
qed

lemma push_before:
  assumes "before_tokens c ts" and "length (ev_stack c) < ev_i c \<or> ev_i c < INTOP_EVAL_MAX_N"
  shows "intop_eval_push t c = c\<lparr>ev_stack := ev_stack c @ [t]\<rparr>"
  using assms by (auto simp: before_tokens_def intop_eval_push_def)

section \<open>Words of the grammar are compiled to their postfix\<close>

lemma postfix_length:
  "E_tokens e ts \<Longrightarrow> length (postfix_of e) \<le> length ts"
  "T_tokens e ts \<Longrightarrow> length (postfix_of e) \<le> length ts"
  "F_tokens e ts \<Longrightarrow> length (postfix_of e) \<le> length ts"
  by (induction rule: E_tokens_T_tokens_F_tokens.inducts) auto

lemma words_not_empty:
  "E_tokens e ts \<Longrightarrow> 1 \<le> length ts" "T_tokens e ts \<Longrightarrow> 1 \<le> length ts" "F_tokens e ts \<Longrightarrow> 1 \<le> length ts"
  by (induction rule: E_tokens_T_tokens_F_tokens.inducts) auto

lemma at_least_two: "3 \<le> n \<Longrightarrow> \<exists>g. n = Suc (Suc g)" for n :: nat
  by (metis add_2_eq_Suc le_Suc_ex numeral_3_eq_3 Suc_leD numeral_2_eq_2)

text \<open>The right operand and the operator, once the parser is in front of the operator.\<close>

lemma operator_pushed:
  assumes "before_tokens c (ts @ t # us @ rest)" and "length post \<le> length ts" and "length post' \<le> length us"
    and "c1 = after_tokens c (length ts) post" and "c2 = after_tokens (advance c1) (length us) post'"
  shows "push_token_at (ev_i c1) c2 = Some (after_tokens c (length ts + 1 + length us) (post @ post' @ [t]))"
proof -
  have b1: "before_tokens c1 (t # us @ rest)" unfolding assms(4) by (rule before_after [OF assms(1,2)])
  have b2: "before_tokens c2 rest" unfolding assms(5) by (rule before_after [OF before_advance [OF b1] assms(3)])
  have "ev_tokens c2 = ev_tokens c1" by (simp add: assms(5) after_tokens_def)
  with before_at(2) [OF b1] have g: "arr_get (ev_tokens c2) (ev_i c1) = Some t" by simp
  have "length (ev_stack c2) < ev_i c2"
    using assms b1 by (simp add: after_tokens_def before_tokens_def)
  with push_before [OF b2, of t] g show ?thesis
    by (simp add: push_token_at_def assms(4,5) after_tokens_def advance_def)
qed

lemma parser_correct:
  "E_tokens e ts \<Longrightarrow> before_tokens c (ts @ us) \<Longrightarrow>
     us = [] \<or> tok_type (hd us) \<notin> {INTOP_EVAL_ADD, INTOP_EVAL_SUB, INTOP_EVAL_MUL, INTOP_EVAL_DIV} \<Longrightarrow>
     3 * length ts + 2 \<le> fuel \<Longrightarrow> intop_eval_E fuel c = Some (after_tokens c (length ts) (postfix_of e))"
  "T_tokens e ts \<Longrightarrow> before_tokens c (ts @ us) \<Longrightarrow>
     us = [] \<or> tok_type (hd us) \<notin> {INTOP_EVAL_MUL, INTOP_EVAL_DIV} \<Longrightarrow>
     3 * length ts + 1 \<le> fuel \<Longrightarrow> intop_eval_T fuel c = Some (after_tokens c (length ts) (postfix_of e))"
  "F_tokens e ts \<Longrightarrow> before_tokens c (ts @ us) \<Longrightarrow>
     3 * length ts \<le> fuel \<Longrightarrow> intop_eval_F fuel c = Some (after_tokens c (length ts) (postfix_of e))"
proof (induction arbitrary: c us fuel and c us fuel and c us fuel rule: E_tokens_T_tokens_F_tokens.inducts)
  case (F_number t)
  then obtain f where f: "fuel = Suc f" by (cases fuel) auto
  have b: "before_tokens c (t # us)" using F_number.prems by simp
  have "intop_eval_push t c = c\<lparr>ev_stack := ev_stack c @ [t]\<rparr>"
    by (rule push_before [OF b]) (use before_at(3) [OF b] in simp)
  with before_at [OF b] F_number.hyps show ?case
    by (simp add: f push_token_at_def after_tokens_def advance_def)
next
  case (F_paren e ts l r)
  then obtain f where f: "fuel = Suc f" by (cases fuel) auto
  have b: "before_tokens c (l # ts @ r # us)" using F_paren.prems by simp
  note ba = before_advance [OF b]
  have e: "intop_eval_E f (advance c) = Some (after_tokens (advance c) (length ts) (postfix_of e))"
    by (rule F_paren.IH [OF ba]) (use F_paren.hyps F_paren.prems f in auto)
  let ?c1 = "after_tokens (advance c) (length ts) (postfix_of e)"
  have b1: "before_tokens ?c1 (r # us)" by (rule before_after [OF ba postfix_length(1) [OF F_paren.hyps(1)]])
  from before_at [OF b] before_at [OF b1] e F_paren.hyps show ?case
    by (simp add: f) (simp add: after_tokens_def advance_def)
next
  case (T_F e ts)
  have "3 \<le> fuel" using words_not_empty(3) [OF T_F.hyps] T_F.prems(3) by linarith
  then obtain g where g: "fuel = Suc (Suc g)" using at_least_two by blast
  have e: "intop_eval_F (Suc g) c = Some (after_tokens c (length ts) (postfix_of e))"
    by (rule T_F.IH [OF T_F.prems(1)]) (use T_F.prems g in simp)
  have b1: "before_tokens (after_tokens c (length ts) (postfix_of e)) us"
    by (rule before_after [OF T_F.prems(1) postfix_length(3) [OF T_F.hyps]])
  have "\<not> intop_check_error c" "\<not> intop_check_error (after_tokens c (length ts) (postfix_of e))"
    using T_F.prems(1) b1 by (simp_all add: before_tokens_def intop_check_error_def)
  with e before_none [OF b1 T_F.prems(2)] show ?case by (simp add: g del: intop_eval_F.simps)
next
  case (T_op e ts e' vs t)
  have "3 \<le> fuel" using T_op.prems(3) by simp
  then obtain g where g: "fuel = Suc (Suc g)" using at_least_two by blast
  have b: "before_tokens c (ts @ t # vs @ us)" using T_op.prems by simp
  let ?c1 = "after_tokens c (length ts) (postfix_of e)"
  have e: "intop_eval_F (Suc g) c = Some ?c1" by (rule T_op.IH(1) [OF b]) (use T_op.prems g in simp)
  have b1: "before_tokens ?c1 (t # vs @ us)" by (rule before_after [OF b postfix_length(3) [OF T_op.hyps(1)]])
  let ?c2 = "after_tokens (advance ?c1) (length vs) (postfix_of e')"
  have "intop_eval_T (Suc g) (advance ?c1) = Some ?c2"
    by (rule T_op.IH(2) [OF before_advance [OF b1]]) (use T_op.prems g in auto)
  then have r: "do { c \<leftarrow> intop_eval_F g (advance ?c1); intop_eval_Tm g c } = Some ?c2"
    using before_at(4) [OF b1] by (simp add: intop_check_error_def)
  have "push_token_at (ev_i ?c1) ?c2 = Some (after_tokens c (length (ts @ t # vs)) (postfix_of (Node t e e')))"
    using operator_pushed [OF b postfix_length(3) [OF T_op.hyps(1)] postfix_length(2) [OF T_op.hyps(2)] refl refl] by simp
  with e r before_at [OF b1] T_op.hyps(3) T_op.prems(1) show ?case
    by (auto simp: g intop_check_error_def before_tokens_def elim!: bind_eq_Some_E simp del: intop_eval_F.simps)
next
  case (E_T e ts)
  have "3 \<le> fuel" using words_not_empty(2) [OF E_T.hyps] E_T.prems(3) by linarith
  then obtain g where g: "fuel = Suc (Suc g)" using at_least_two by blast
  have e: "intop_eval_T (Suc g) c = Some (after_tokens c (length ts) (postfix_of e))"
    by (rule E_T.IH [OF E_T.prems(1)]) (use E_T.prems g in auto)
  have b1: "before_tokens (after_tokens c (length ts) (postfix_of e)) us"
    by (rule before_after [OF E_T.prems(1) postfix_length(2) [OF E_T.hyps]])
  have "\<not> intop_check_error c" "\<not> intop_check_error (after_tokens c (length ts) (postfix_of e))"
    using E_T.prems(1) b1 by (simp_all add: before_tokens_def intop_check_error_def)
  moreover have "us = [] \<or> tok_type (hd us) \<notin> {INTOP_EVAL_ADD, INTOP_EVAL_SUB}" using E_T.prems(2) by auto
  ultimately show ?case using e before_none [OF b1] by (simp add: g del: intop_eval_T.simps)
next
  case (E_op e ts e' vs t)
  have "3 \<le> fuel" using E_op.prems(3) by simp
  then obtain g where g: "fuel = Suc (Suc g)" using at_least_two by blast
  have b: "before_tokens c (ts @ t # vs @ us)" using E_op.prems by simp
  let ?c1 = "after_tokens c (length ts) (postfix_of e)"
  have e: "intop_eval_T (Suc g) c = Some ?c1"
    by (rule E_op.IH(1) [OF b]) (use E_op.prems E_op.hyps g in auto)
  have b1: "before_tokens ?c1 (t # vs @ us)" by (rule before_after [OF b postfix_length(2) [OF E_op.hyps(1)]])
  let ?c2 = "after_tokens (advance ?c1) (length vs) (postfix_of e')"
  have "intop_eval_E (Suc g) (advance ?c1) = Some ?c2"
    by (rule E_op.IH(2) [OF before_advance [OF b1] E_op.prems(2)]) (use E_op.prems g in auto)
  then have r: "do { c \<leftarrow> intop_eval_T g (advance ?c1); intop_eval_Em g c } = Some ?c2"
    using before_at(4) [OF b1] by (simp add: intop_check_error_def)
  have "push_token_at (ev_i ?c1) ?c2 = Some (after_tokens c (length (ts @ t # vs)) (postfix_of (Node t e e')))"
    using operator_pushed [OF b postfix_length(2) [OF E_op.hyps(1)] postfix_length(1) [OF E_op.hyps(2)] refl refl] by simp
  with e r before_at [OF b1] E_op.hyps(3) E_op.prems(1) show ?case
    by (auto simp: g intop_check_error_def before_tokens_def elim!: bind_eq_Some_E simp del: intop_eval_T.simps)
qed

section \<open>Evaluation\<close>

text \<open>
  The value of a tree: the operands from left to right, but the operator is applied to the right operand
  first and the left operand second.
\<close>

fun value_of :: "syntree \<Rightarrow> err + intop_u64_t" where
  "value_of (Leaf t) = Inr (tok_number t)"
| "value_of (Node t e e') =
     (case value_of e of
        Inl er \<Rightarrow> Inl er
      | Inr x \<Rightarrow> (case value_of e' of Inl er \<Rightarrow> Inl er | Inr y \<Rightarrow> intop_eval_operator (tok_type t) y x))"

fun well_formed :: "syntree \<Rightarrow> bool" where
  "well_formed (Leaf t) \<longleftrightarrow> tok_type t = INTOP_EVAL_NUMBER"
| "well_formed (Node t e e') \<longleftrightarrow>
     tok_type t \<in> {INTOP_EVAL_SUB, INTOP_EVAL_ADD, INTOP_EVAL_DIV, INTOP_EVAL_MUL} \<and> well_formed e \<and> well_formed e'"

lemma words_well_formed:
  "E_tokens e ts \<Longrightarrow> well_formed e" "T_tokens e ts \<Longrightarrow> well_formed e" "F_tokens e ts \<Longrightarrow> well_formed e"
  by (induction rule: E_tokens_T_tokens_F_tokens.inducts) auto

text \<open>Evaluating a postfix leaves its value on the stack, or stops at its error.\<close>

lemma eval_postfix:
  assumes "well_formed e" and "length ev + length (postfix_of e) \<le> INTOP_EVAL_MAX_N"
  shows "case value_of e of
      Inl er \<Rightarrow> for_loop intop_eval_step (postfix_of e @ rest) ev = Some (Inl er)
    | Inr v \<Rightarrow> \<exists>t. tok_type t = INTOP_EVAL_NUMBER \<and> tok_number t = v \<and>
        for_loop intop_eval_step (postfix_of e @ rest) ev = for_loop intop_eval_step rest (ev @ [t])"
  using assms
proof (induction e arbitrary: ev rest)
  case (Leaf t)
  then show ?case by (auto simp: intop_eval_step_def)
next
  case (Node t e e')
  note l = Node.IH(1) [of ev "postfix_of e' @ [t] @ rest"]
  show ?case
  proof (cases "value_of e")
    case (Inl er)
    with l Node.prems show ?thesis by simp
  next
    case (Inr x)
    with l Node.prems obtain a where a: "tok_type a = INTOP_EVAL_NUMBER" "tok_number a = x"
      "for_loop intop_eval_step (postfix_of (Node t e e') @ rest) ev =
       for_loop intop_eval_step (postfix_of e' @ [t] @ rest) (ev @ [a])" by auto
    note r = Node.IH(2) [of "ev @ [a]" "[t] @ rest"]
    have "1 \<le> length (postfix_of e)" by (cases e) simp_all
    then have room: "length (ev @ [a]) + length (postfix_of e') \<le> INTOP_EVAL_MAX_N" using Node.prems by simp
    show ?thesis
    proof (cases "value_of e'")
      case (Inl er)
      with r room Node.prems Inr a show ?thesis by simp
    next
      case v': (Inr y)
      with r room Node.prems obtain b where b: "tok_type b = INTOP_EVAL_NUMBER" "tok_number b = y"
        "for_loop intop_eval_step (postfix_of e' @ [t] @ rest) (ev @ [a]) =
         for_loop intop_eval_step (t # rest) (ev @ [a, b])" by auto
      have "intop_eval_step t (ev @ [a, b]) = Some (case intop_eval_operator (tok_type t) y x of
          Inl e \<Rightarrow> Inl e | Inr z \<Rightarrow> Inr (ev @ [a\<lparr>tok_type := INTOP_EVAL_NUMBER, tok_number := z\<rparr>]))"
        using Node.prems(1) a(2) b(2)
        by (auto simp: intop_eval_step_def nth_append Let_def split: sum.split)
      with a b Inr v' show ?thesis
        by (auto split: sum.split intro: exI [of _ "a\<lparr>tok_type := INTOP_EVAL_NUMBER, tok_number := z\<rparr>" for z])
    qed
  qed
qed

text \<open>
  C33 The expression evaluator computes the value of the syntax tree of its tokens: on every word of the
  grammar, unless operator tokens of an earlier use follow in the token array, the parser stops at
  the end of the word without an error and the evaluation answers the value of the tree or its error.
  In that value the operators associate to the right and are applied to the right operand first, so
  that a difference or a quotient has its operands swapped.
\<close>

theorem expression_value:
  assumes "E_tokens e ts" and "length (ev_tokens c) = INTOP_EVAL_MAX_N" and "ev_tokens c = ts @ us"
    and "us = [] \<or> tok_type (hd us) \<notin> {INTOP_EVAL_ADD, INTOP_EVAL_SUB, INTOP_EVAL_MUL, INTOP_EVAL_DIV}"
    and "ev_i c = 0" and "ev_stack c = []" and "ev_s_error c = None"
  shows "\<exists>c'. intop_eval_E 1539 c = Some c' \<and> \<not> intop_check_error c' \<and> ev_i c' = length ts \<and>
    intop_eval_eval c' = Some (case value_of e of
      Inl er \<Rightarrow> Inl er
    | Inr v \<Rightarrow> if is_overflow v then Inl ''eval overflow'' else Inr (intval v))"
proof -
  have b: "before_tokens c (ts @ us)" using assms by (simp add: before_tokens_def)
  have l: "length ts \<le> INTOP_EVAL_MAX_N" using assms(2,3) by simp
  let ?c = "after_tokens c (length ts) (postfix_of e)"
  have p: "intop_eval_E 1539 c = Some ?c" by (rule parser_correct(1) [OF assms(1) b assms(4)]) (use l in simp)
  have "intop_eval_eval ?c = Some (case value_of e of
      Inl er \<Rightarrow> Inl er
    | Inr v \<Rightarrow> if is_overflow v then Inl ''eval overflow'' else Inr (intval v))"
    using eval_postfix [OF words_well_formed(1) [OF assms(1)], of "[]" "[]"] postfix_length(1) [OF assms(1)] l assms(6)
    by (auto simp: intop_eval_eval_def after_tokens_def split: sum.split_asm)
  with p assms(5,7) show ?thesis by (simp add: after_tokens_def intop_check_error_def)
qed

text \<open>Tokens for the examples, and a token array that was used for an addition before.\<close>

definition number_token :: "u64 \<Rightarrow> intop_eval_token_t" where
  "number_token n = \<lparr>tok_type = INTOP_EVAL_NUMBER, tok_number = \<lparr>is_overflow = False, intval = n\<rparr>, tok_var_index = 0\<rparr>"

definition operator_token :: "int \<Rightarrow> intop_eval_token_t" where
  "operator_token t = \<lparr>tok_type = t, tok_number = \<lparr>is_overflow = False, intval = 0\<rparr>, tok_var_index = 0\<rparr>"

definition used_context :: "intop_eval_token_t list \<Rightarrow> intop_eval_context_t" where
  "used_context ts = \<lparr>ev_i = 0, ev_n = 0, ev_tokens = ts @ replicate (INTOP_EVAL_MAX_N - length ts) (number_token 0),
     ev_stack = [], ev_eval = [], ev_s_error = None, ev_i_error = 0\<rparr>"

lemma three_tokens:
  assumes "tok_type t \<in> {INTOP_EVAL_ADD, INTOP_EVAL_SUB}"
  shows "E_tokens (Node t (Leaf (number_token a)) (Leaf (number_token b))) ([number_token a] @ t # [number_token b])"
  using assms by (intro E_op T_F E_T F_number) (simp_all add: number_token_def)

theorem expression_value_witness:
  "\<exists>c. intop_eval_E 1539 (used_context [number_token 5, operator_token INTOP_EVAL_SUB, number_token 3]) = Some c \<and>
     intop_eval_eval c = Some (Inl ''underflow'')"
proof -
  let ?t = "operator_token INTOP_EVAL_SUB"
  have e: "E_tokens (Node ?t (Leaf (number_token 5)) (Leaf (number_token 3))) ([number_token 5] @ ?t # [number_token 3])"
    by (rule three_tokens) (simp add: operator_token_def)
  from expression_value [OF e, of "used_context [number_token 5, ?t, number_token 3]" "replicate 509 (number_token 0)"]
  show ?thesis
    by (auto simp: used_context_def number_token_def operator_token_def intop_eval_operator_def)
qed

text \<open>
  The parser looks past the tokens of the expression: the expression \<open>1\<close>, compiled with a context
  that was used for \<open>1 + 2\<close> before, is rejected with a parsing error.
\<close>

theorem stale_tokens_rejected:
  "\<exists>c. intop_eval_compile 1539 [49, 0]
     (used_context [number_token 1, operator_token INTOP_EVAL_ADD, number_token 2]) =
   Some (Some ''some parsing error'', c)"
proof -
  let ?t = "operator_token INTOP_EVAL_ADD"
  let ?c = "(used_context [number_token 1, ?t, number_token 2])\<lparr>ev_n := 1\<rparr>"
  have tok: "intop_eval_tokenize [49, 0] 0 (used_context [number_token 1, ?t, number_token 2]) = Some (None, ?c)"
    by (simp add: is_digit_def Let_def parse_number_def put_token_def used_context_def number_token_def)
  have e: "E_tokens (Node ?t (Leaf (number_token 1)) (Leaf (number_token 2))) ([number_token 1] @ ?t # [number_token 2])"
    by (rule three_tokens) (simp add: operator_token_def)
  have b: "before_tokens ?c (([number_token 1] @ ?t # [number_token 2]) @ replicate 509 (number_token 0))"
    by (simp add: before_tokens_def used_context_def)
  have "intop_eval_E 1539 ?c = Some (after_tokens ?c 3 (postfix_of (Node ?t (Leaf (number_token 1)) (Leaf (number_token 2)))))"
    using parser_correct(1) [OF e b, of 1539] by (simp add: number_token_def numeral_3_eq_3)
  moreover have "(used_context [number_token 1, ?t, number_token 2])\<lparr>ev_i := 0, ev_n := 0, ev_stack := [], ev_eval := [],
      ev_s_error := None, ev_i_error := 0\<rparr> = used_context [number_token 1, ?t, number_token 2]"
    by (simp add: used_context_def)
  ultimately show ?thesis
    using tok by (simp add: intop_eval_compile_def) (simp add: after_tokens_def used_context_def intop_check_error_def)
qed

text \<open>
  C34 Compiling a terminated string always returns, whatever the string and whatever the token array
  holds: the recursion of the parser is bounded by three times the size of the token array.
\<close>

theorem compile_terminates:
  assumes "0 \<in> set s" and "length (ev_tokens c) = INTOP_EVAL_MAX_N"
  shows "\<exists>e c'. intop_eval_compile 1539 s c = Some (e, c')"
  using compile_returns [OF assms] by auto

theorem compile_terminates_witness:
  "\<exists>e c'. intop_eval_compile 1539 [40, 49, 43, 0] (used_context []) = Some (e, c')"
  by (rule compile_terminates) (simp_all add: used_context_def)

end
