(* ===== verification/Reader_Helpers.thy ===== *)
theory Reader_Helpers
  imports Reader_Lookup
begin

text \<open>
  \<open>src/pointless_reader_helpers.c\<close>: typed access to the maps of a file by string or integer key,
  membership in sets and maps, and the test whether two containers have the same keys. All of it runs
  on the iterators of \<open>Reader_Lookup\<close> over the items of one hash.

  Answers: a C function that returns 1 and writes its out-parameters answers \<open>Some (Some out)\<close>, one
  that returns 0 answers \<open>Some None\<close>, and predicates answer \<open>Some\<close> of a boolean. The outer \<open>None\<close>
  is undefined behaviour or a loop that never ends, as everywhere.
\<close>

unbundle bit_operations_syntax

section \<open>Callbacks\<close>

text \<open>The callbacks on keys; \<open>user\<close> is their parameter.\<close>

definition check_string :: "pointless_t \<Rightarrow> pointless_value_t \<Rightarrow> u8 list \<Rightarrow> bool option" where
  "check_string p v user =
     (if v_type v = POINTLESS_UNICODE then
        do { s \<leftarrow> pointless_reader_unicode_value_ucs4 p v;
             c \<leftarrow> pointless_cmp_string_32_8 s user;
             Some (c = 0) }
      else if v_type v = POINTLESS_STRING then
        do { s \<leftarrow> pointless_reader_string_value_ascii p v;
             c \<leftarrow> pointless_cmp_string_8_8 s user;
             Some (c = 0) }
      else Some False)"

record check_string_n_t =
  csn_s :: "u8 list"
  csn_n :: u64

definition check_string_n :: "pointless_t \<Rightarrow> pointless_value_t \<Rightarrow> check_string_n_t \<Rightarrow> bool option" where
  "check_string_n p v user =
     (if v_type v = POINTLESS_UNICODE then
        do { s \<leftarrow> pointless_reader_unicode_value_ucs4 p v;
             c \<leftarrow> pointless_cmp_string_32_8_n s (csn_s user) (csn_n user);
             Some (c = 0) }
      else if v_type v = POINTLESS_STRING then
        do { s \<leftarrow> pointless_reader_string_value_ascii p v;
             c \<leftarrow> pointless_cmp_string_8_8_n s (csn_s user) (csn_n user);
             Some (c = 0) }
      else Some False)"

definition check_unicode :: "pointless_t \<Rightarrow> pointless_value_t \<Rightarrow> u32 list \<Rightarrow> bool option" where
  "check_unicode p v user =
     (if v_type v = POINTLESS_UNICODE then
        do { s \<leftarrow> pointless_reader_unicode_value_ucs4 p v;
             c \<leftarrow> pointless_cmp_string_32_32 s user;
             Some (c = 0) }
      else if v_type v = POINTLESS_STRING then
        do { s \<leftarrow> pointless_reader_string_value_ascii p v;
             c \<leftarrow> pointless_cmp_string_8_32 s user;
             Some (c = 0) }
      else Some False)"

definition check_i64 :: "pointless_t \<Rightarrow> pointless_value_t \<Rightarrow> i64 \<Rightarrow> bool option" where
  "check_i64 p v user =
     Some (pointless_is_integer_type (v_type v) \<and>
           user = pointless_get_int_as_int64 (v_type v) (v_data v))"

text \<open>The callbacks on values, which also produce the answer.\<close>

definition check_and_get_u32 :: "pointless_t \<Rightarrow> pointless_value_t \<Rightarrow> u32 option option" where
  "check_and_get_u32 p v =
     Some (if pointless_is_integer_type (v_type v) then
             (let iv = pointless_get_int_as_int64 (v_type v) (v_data v) in
              if 0 \<le> sint iv \<and> sint iv \<le> 4294967295 then Some (ucast iv) else None)
           else None)"

definition check_and_get_i64 :: "pointless_t \<Rightarrow> pointless_value_t \<Rightarrow> i64 option option" where
  "check_and_get_i64 p v =
     Some (if pointless_is_integer_type (v_type v)
           then Some (pointless_get_int_as_int64 (v_type v) (v_data v)) else None)"

definition get_value :: "pointless_t \<Rightarrow> pointless_value_t \<Rightarrow> pointless_value_t option option" where
  "get_value p v = Some (Some v)"

section \<open>The search among the items of one hash\<close>

text \<open>
  The iterator answers addresses, through which the callbacks read the key and the value. The value
  is read only when the key passed its test.
\<close>

partial_function (option) get_map_loop ::
    "pointless_t \<Rightarrow> pointless_value_t \<Rightarrow> u32 \<Rightarrow> (pointless_value_t \<Rightarrow> bool option) \<Rightarrow>
     (pointless_value_t \<Rightarrow> 'o option option) \<Rightarrow> pointless_hash_iter_state_t \<Rightarrow> 'o option option" where
  "get_map_loop p m hsh cb_k cb_v iter_state =
     do { r \<leftarrow> pointless_reader_map_iter_hash p m hsh iter_state;
          (case r of
             None \<Rightarrow> Some None
           | Some (kk, vv, st) \<Rightarrow> do {
               k \<leftarrow> read_value (p_buf p) kk;
               is_key \<leftarrow> cb_k k;
               if \<not> is_key then get_map_loop p m hsh cb_k cb_v st
               else do {
                 v \<leftarrow> read_value (p_buf p) vv;
                 out \<leftarrow> cb_v v;
                 (case out of
                    None \<Rightarrow> get_map_loop p m hsh cb_k cb_v st
                  | Some o' \<Rightarrow> Some (Some o')) } }) }"

declare get_map_loop.simps [code]

definition pointless_get_map_priv ::
    "pointless_t \<Rightarrow> pointless_value_t \<Rightarrow> u32 \<Rightarrow> (pointless_value_t \<Rightarrow> bool option) \<Rightarrow>
     (pointless_value_t \<Rightarrow> 'o option option) \<Rightarrow> 'o option option" where
  "pointless_get_map_priv p m hsh cb_k cb_v =
     do { st \<leftarrow> pointless_reader_map_iter_hash_init p m hsh;
          get_map_loop p m hsh cb_k cb_v st }"

partial_function (option) get_set_loop ::
    "pointless_t \<Rightarrow> pointless_value_t \<Rightarrow> u32 \<Rightarrow> (pointless_value_t \<Rightarrow> bool option) \<Rightarrow>
     pointless_hash_iter_state_t \<Rightarrow> bool option" where
  "get_set_loop p s hsh cb_k iter_state =
     do { r \<leftarrow> pointless_reader_set_iter_hash p s hsh iter_state;
          (case r of
             None \<Rightarrow> Some False
           | Some (kk, st) \<Rightarrow> do {
               k \<leftarrow> read_value (p_buf p) kk;
               is_key \<leftarrow> cb_k k;
               if is_key then Some True else get_set_loop p s hsh cb_k st }) }"

declare get_set_loop.simps [code]

definition pointless_get_set_priv ::
    "pointless_t \<Rightarrow> pointless_value_t \<Rightarrow> u32 \<Rightarrow> (pointless_value_t \<Rightarrow> bool option) \<Rightarrow> bool option" where
  "pointless_get_set_priv p s hsh cb_k =
     do { st \<leftarrow> pointless_reader_set_iter_hash_init p s hsh;
          get_set_loop p s hsh cb_k st }"

section \<open>Values by key\<close>

definition pointless_get_mapping_string_to_u32 ::
    "pointless_t \<Rightarrow> pointless_value_t \<Rightarrow> u8 list \<Rightarrow> u32 option option" where
  "pointless_get_mapping_string_to_u32 p m key =
     do { hsh \<leftarrow> pointless_hash_string_v1_32 key;
          pointless_get_map_priv p m hsh (\<lambda>v. check_string p v key) (check_and_get_u32 p) }"

definition pointless_get_mapping_string_to_i64 ::
    "pointless_t \<Rightarrow> pointless_value_t \<Rightarrow> u8 list \<Rightarrow> i64 option option" where
  "pointless_get_mapping_string_to_i64 p m key =
     do { hsh \<leftarrow> pointless_hash_string_v1_32 key;
          pointless_get_map_priv p m hsh (\<lambda>v. check_string p v key) (check_and_get_i64 p) }"

definition pointless_get_mapping_string_to_value ::
    "pointless_t \<Rightarrow> pointless_value_t \<Rightarrow> u8 list \<Rightarrow> pointless_value_t option option" where
  "pointless_get_mapping_string_to_value p m key =
     do { hsh \<leftarrow> pointless_hash_string_v1_32 key;
          pointless_get_map_priv p m hsh (\<lambda>v. check_string p v key) (get_value p) }"

definition pointless_get_mapping_string_n_to_value ::
    "pointless_t \<Rightarrow> pointless_value_t \<Rightarrow> u8 list \<Rightarrow> u64 \<Rightarrow> pointless_value_t option option" where
  "pointless_get_mapping_string_n_to_value p m key n =
     do { hsh \<leftarrow> pointless_hash_string_v1_32_n key n;
          pointless_get_map_priv p m hsh (\<lambda>v. check_string_n p v \<lparr>csn_s = key, csn_n = n\<rparr>) (get_value p) }"

text \<open>
  The two functions on \<open>uint32_t*\<close> keys hash the key through a cast to \<open>uint8_t*\<close>: the hash is that
  of the bytes of the units, in the order of a little-endian machine, up to the first zero byte.
\<close>

definition units_as_bytes :: "u32 list \<Rightarrow> u8 list" where
  "units_as_bytes key = concat (map (\<lambda>c. [ucast c, ucast (drop_bit 8 c), ucast (drop_bit 16 c),
     ucast (drop_bit 24 c)]) key)"

definition pointless_get_mapping_unicode_to_value ::
    "pointless_t \<Rightarrow> pointless_value_t \<Rightarrow> u32 list \<Rightarrow> pointless_value_t option option" where
  "pointless_get_mapping_unicode_to_value p m key =
     do { hsh \<leftarrow> pointless_hash_string_v1_32 (units_as_bytes key);
          pointless_get_map_priv p m hsh (\<lambda>v. check_unicode p v key) (get_value p) }"

definition pointless_get_mapping_unicode_to_u32 ::
    "pointless_t \<Rightarrow> pointless_value_t \<Rightarrow> u32 list \<Rightarrow> u32 option option" where
  "pointless_get_mapping_unicode_to_u32 p m key =
     do { hsh \<leftarrow> pointless_hash_string_v1_32 (units_as_bytes key);
          pointless_get_map_priv p m hsh (\<lambda>v. check_unicode p v key) (check_and_get_u32 p) }"

definition pointless_get_mapping_string_to_value_type ::
    "pointless_t \<Rightarrow> pointless_value_t \<Rightarrow> u8 list \<Rightarrow> u32 \<Rightarrow> pointless_value_t option option" where
  "pointless_get_mapping_string_to_value_type p m key t =
     do { hsh \<leftarrow> pointless_hash_string_v1_32 key;
          r \<leftarrow> pointless_get_map_priv p m hsh (\<lambda>v. check_string p v key) (get_value p);
          (case r of
             None \<Rightarrow> Some None
           | Some v \<Rightarrow> Some (if v_type v = t then Some v else None)) }"

definition pointless_get_mapping_string_to_set ::
    "pointless_t \<Rightarrow> pointless_value_t \<Rightarrow> u8 list \<Rightarrow> pointless_value_t option option" where
  "pointless_get_mapping_string_to_set p m key =
     pointless_get_mapping_string_to_value_type p m key POINTLESS_SET_VALUE"

definition pointless_get_mapping_string_to_map ::
    "pointless_t \<Rightarrow> pointless_value_t \<Rightarrow> u8 list \<Rightarrow> pointless_value_t option option" where
  "pointless_get_mapping_string_to_map p m key =
     pointless_get_mapping_string_to_value_type p m key POINTLESS_MAP_VALUE_VALUE"

definition pointless_get_mapping_int_to_value ::
    "pointless_t \<Rightarrow> pointless_value_t \<Rightarrow> i64 \<Rightarrow> pointless_value_t option option" where
  "pointless_get_mapping_int_to_value p m i =
     pointless_get_map_priv p m (pointless_hash_i64_32 i) (\<lambda>v. check_i64 p v i) (get_value p)"

definition pointless_is_int_in_set :: "pointless_t \<Rightarrow> pointless_value_t \<Rightarrow> i64 \<Rightarrow> bool option" where
  "pointless_is_int_in_set p s i =
     pointless_get_set_priv p s (pointless_hash_i64_32 i) (\<lambda>v. check_i64 p v i)"

definition pointless_is_int_in_map :: "pointless_t \<Rightarrow> pointless_value_t \<Rightarrow> i64 \<Rightarrow> bool option" where
  "pointless_is_int_in_map p m i =
     do { r \<leftarrow> pointless_get_map_priv p m (pointless_hash_i64_32 i) (\<lambda>v. check_i64 p v i) (get_value p);
          Some (r \<noteq> None) }"

section \<open>Vectors by key\<close>

text \<open>
  The typed readers of the switch are casts of \<open>pointless_reader_vector_base_ptr\<close>; the \<open>void*\<close> they
  are stored in is that address, null for the empty vector.
\<close>

definition native_vectors :: "u32 list" where
  "native_vectors =
     [POINTLESS_VECTOR_I8, POINTLESS_VECTOR_U8, POINTLESS_VECTOR_I16, POINTLESS_VECTOR_U16,
      POINTLESS_VECTOR_I32, POINTLESS_VECTOR_U32, POINTLESS_VECTOR_I64, POINTLESS_VECTOR_U64,
      POINTLESS_VECTOR_FLOAT]"

definition pointless_get_mapping_string_to_vector_priv ::
    "pointless_t \<Rightarrow> pointless_value_t \<Rightarrow> u8 list \<Rightarrow> u32 \<Rightarrow> (addr option \<times> u32) option option" where
  "pointless_get_mapping_string_to_vector_priv p m key vector_type =
     do { r \<leftarrow> pointless_get_mapping_string_to_value p m key;
          (case r of
             None \<Rightarrow> Some None
           | Some v \<Rightarrow>
               if v_type v = POINTLESS_VECTOR_EMPTY then Some (Some (None, 0))
               else if v_type v \<noteq> vector_type then Some None
               else if v_type v \<in> set native_vectors then
                 do { base \<leftarrow> pointless_reader_vector_base_ptr p v;
                      n_items \<leftarrow> pointless_reader_vector_n_items p v;
                      Some (Some (base, n_items)) }
               else Some None) }"

text \<open>
  Here the value is written before its type is looked at, so it is the caller's even when the answer
  is 0: the first component is the value written, the second the item count of the answer 1.
\<close>

definition pointless_get_mapping_string_to_vector ::
    "pointless_t \<Rightarrow> pointless_value_t \<Rightarrow> u8 list \<Rightarrow> (pointless_value_t option \<times> u32 option) option" where
  "pointless_get_mapping_string_to_vector p m key =
     do { r \<leftarrow> pointless_get_mapping_string_to_value p m key;
          (case r of
             None \<Rightarrow> Some (None, None)
           | Some v \<Rightarrow>
               if v_type v = POINTLESS_VECTOR_EMPTY \<or> v_type v \<in> set native_vectors then
                 do { n_items \<leftarrow> pointless_reader_vector_n_items p v; Some (Some v, Some n_items) }
               else Some (Some v, None)) }"

definition pointless_get_mapping_string_to_vector_i8 ::
    "pointless_t \<Rightarrow> pointless_value_t \<Rightarrow> u8 list \<Rightarrow> (addr option \<times> u32) option option" where
  "pointless_get_mapping_string_to_vector_i8 p m key =
     pointless_get_mapping_string_to_vector_priv p m key POINTLESS_VECTOR_I8"

definition pointless_get_mapping_string_to_vector_u8 ::
    "pointless_t \<Rightarrow> pointless_value_t \<Rightarrow> u8 list \<Rightarrow> (addr option \<times> u32) option option" where
  "pointless_get_mapping_string_to_vector_u8 p m key =
     pointless_get_mapping_string_to_vector_priv p m key POINTLESS_VECTOR_U8"

definition pointless_get_mapping_string_to_vector_i16 ::
    "pointless_t \<Rightarrow> pointless_value_t \<Rightarrow> u8 list \<Rightarrow> (addr option \<times> u32) option option" where
  "pointless_get_mapping_string_to_vector_i16 p m key =
     pointless_get_mapping_string_to_vector_priv p m key POINTLESS_VECTOR_I16"

definition pointless_get_mapping_string_to_vector_u16 ::
    "pointless_t \<Rightarrow> pointless_value_t \<Rightarrow> u8 list \<Rightarrow> (addr option \<times> u32) option option" where
  "pointless_get_mapping_string_to_vector_u16 p m key =
     pointless_get_mapping_string_to_vector_priv p m key POINTLESS_VECTOR_U16"

definition pointless_get_mapping_string_to_vector_i32 ::
    "pointless_t \<Rightarrow> pointless_value_t \<Rightarrow> u8 list \<Rightarrow> (addr option \<times> u32) option option" where
  "pointless_get_mapping_string_to_vector_i32 p m key =
     pointless_get_mapping_string_to_vector_priv p m key POINTLESS_VECTOR_I32"

definition pointless_get_mapping_string_to_vector_u32 ::
    "pointless_t \<Rightarrow> pointless_value_t \<Rightarrow> u8 list \<Rightarrow> (addr option \<times> u32) option option" where
  "pointless_get_mapping_string_to_vector_u32 p m key =
     pointless_get_mapping_string_to_vector_priv p m key POINTLESS_VECTOR_U32"

definition pointless_get_mapping_string_to_vector_i64 ::
    "pointless_t \<Rightarrow> pointless_value_t \<Rightarrow> u8 list \<Rightarrow> (addr option \<times> u32) option option" where
  "pointless_get_mapping_string_to_vector_i64 p m key =
     pointless_get_mapping_string_to_vector_priv p m key POINTLESS_VECTOR_I64"

definition pointless_get_mapping_string_to_vector_u64 ::
    "pointless_t \<Rightarrow> pointless_value_t \<Rightarrow> u8 list \<Rightarrow> (addr option \<times> u32) option option" where
  "pointless_get_mapping_string_to_vector_u64 p m key =
     pointless_get_mapping_string_to_vector_priv p m key POINTLESS_VECTOR_U64"

definition pointless_get_mapping_string_to_vector_float ::
    "pointless_t \<Rightarrow> pointless_value_t \<Rightarrow> u8 list \<Rightarrow> (addr option \<times> u32) option option" where
  "pointless_get_mapping_string_to_vector_float p m key =
     pointless_get_mapping_string_to_vector_priv p m key POINTLESS_VECTOR_FLOAT"

definition pointless_get_mapping_string_to_vector_value ::
    "pointless_t \<Rightarrow> pointless_value_t \<Rightarrow> u8 list \<Rightarrow> (addr option \<times> u32) option option" where
  "pointless_get_mapping_string_to_vector_value p m key =
     do { r \<leftarrow> pointless_get_mapping_string_to_value p m key;
          (case r of
             None \<Rightarrow> Some None
           | Some v \<Rightarrow>
               if v_type v = POINTLESS_VECTOR_EMPTY then Some (Some (None, 0))
               else if v_type v \<noteq> POINTLESS_VECTOR_VALUE \<and> v_type v \<noteq> POINTLESS_VECTOR_VALUE_HASHABLE
               then Some None
               else do { base \<leftarrow> pointless_reader_vector_base_ptr p v;
                         n_items \<leftarrow> pointless_reader_vector_n_items p v;
                         Some (Some (base, n_items)) }) }"

section \<open>Membership of acyclic values\<close>

text \<open>
  The key test of the two functions: the comparison without a depth limit, of the key of the table
  with \<open>k\<close>. The fuel bounds the recursion of hash and comparison.
\<close>

definition is_acyclic_key ::
    "nat \<Rightarrow> pointless_t \<Rightarrow> pointless_value_t \<Rightarrow> pointless_value_t \<Rightarrow> bool option" where
  "is_acyclic_key fuel p k kk =
     do { c \<leftarrow> pointless_cmp_reader_acyclic fuel p (pointless_value_to_complete kk) p
                 (pointless_value_to_complete k);
          Some (c = 0) }"

definition pointless_is_in_set_acyclic ::
    "nat \<Rightarrow> pointless_t \<Rightarrow> pointless_value_t \<Rightarrow> pointless_value_t \<Rightarrow> bool option" where
  "pointless_is_in_set_acyclic fuel p s k =
     do { hsh \<leftarrow> pointless_hash_reader_32 fuel p k;
          st \<leftarrow> pointless_reader_set_iter_hash_init p s hsh;
          get_set_loop p s hsh (is_acyclic_key fuel p k) st }"

partial_function (option) map_acyclic_loop ::
    "pointless_t \<Rightarrow> pointless_value_t \<Rightarrow> u32 \<Rightarrow> (pointless_value_t \<Rightarrow> bool option) \<Rightarrow>
     pointless_hash_iter_state_t \<Rightarrow> bool option" where
  "map_acyclic_loop p m hsh is_key iter_state =
     do { r \<leftarrow> pointless_reader_map_iter_hash p m hsh iter_state;
          (case r of
             None \<Rightarrow> Some False
           | Some (kk, vv, st) \<Rightarrow> do {
               k \<leftarrow> read_value (p_buf p) kk;
               b \<leftarrow> is_key k;
               if b then Some True else map_acyclic_loop p m hsh is_key st }) }"

declare map_acyclic_loop.simps [code]

definition pointless_is_in_map_acyclic ::
    "nat \<Rightarrow> pointless_t \<Rightarrow> pointless_value_t \<Rightarrow> pointless_value_t \<Rightarrow> bool option" where
  "pointless_is_in_map_acyclic fuel p m k =
     do { hsh \<leftarrow> pointless_hash_reader_32 fuel p k;
          st \<leftarrow> pointless_reader_map_iter_hash_init p m hsh;
          map_acyclic_loop p m hsh (is_acyclic_key fuel p k) st }"

section \<open>The same keys\<close>

text \<open>The loops over all keys of a set or a map that leave at the first key that is not in the other.\<close>

partial_function (option) all_set_keys ::
    "pointless_t \<Rightarrow> pointless_value_t \<Rightarrow> (pointless_value_t \<Rightarrow> bool option) \<Rightarrow> u32 \<Rightarrow> bool option" where
  "all_set_keys p s is_in iter_state =
     do { (r, st) \<leftarrow> pointless_reader_set_iter p s iter_state;
          (case r of
             None \<Rightarrow> Some True
           | Some kk \<Rightarrow> do {
               k \<leftarrow> read_value (p_buf p) kk;
               b \<leftarrow> is_in k;
               if b then all_set_keys p s is_in st else Some False }) }"

declare all_set_keys.simps [code]

partial_function (option) all_map_keys ::
    "pointless_t \<Rightarrow> pointless_value_t \<Rightarrow> (pointless_value_t \<Rightarrow> bool option) \<Rightarrow> u32 \<Rightarrow> bool option" where
  "all_map_keys p m is_in iter_state =
     do { (r, st) \<leftarrow> pointless_reader_map_iter p m iter_state;
          (case r of
             None \<Rightarrow> Some True
           | Some (kk, vv) \<Rightarrow> do {
               k \<leftarrow> read_value (p_buf p) kk;
               b \<leftarrow> is_in k;
               if b then all_map_keys p m is_in st else Some False }) }"

declare all_map_keys.simps [code]

definition pointless_has_same_keys_set_map ::
    "nat \<Rightarrow> pointless_t \<Rightarrow> pointless_value_t \<Rightarrow> pointless_value_t \<Rightarrow> bool option" where
  "pointless_has_same_keys_set_map fuel p s m =
     do { n_s \<leftarrow> pointless_reader_set_n_items p s;
          n_m \<leftarrow> pointless_reader_map_n_items p m;
          if n_s \<noteq> n_m then Some False
          else do {
            a \<leftarrow> all_set_keys p s (pointless_is_in_map_acyclic fuel p m) 0;
            if \<not> a then Some False
            else all_map_keys p m (pointless_is_in_set_acyclic fuel p s) 0 } }"

definition pointless_has_same_keys_map_map ::
    "nat \<Rightarrow> pointless_t \<Rightarrow> pointless_value_t \<Rightarrow> pointless_value_t \<Rightarrow> bool option" where
  "pointless_has_same_keys_map_map fuel p m_a m_b =
     do { n_a \<leftarrow> pointless_reader_map_n_items p m_a;
          n_b \<leftarrow> pointless_reader_map_n_items p m_b;
          if n_a \<noteq> n_b then Some False
          else do {
            a \<leftarrow> all_map_keys p m_a (pointless_is_in_map_acyclic fuel p m_b) 0;
            if \<not> a then Some False
            else all_map_keys p m_b (pointless_is_in_map_acyclic fuel p m_a) 0 } }"

end
