(* ===== verification/Path_Eval.thy ===== *)
theory Path_Eval
  imports Reader_Helpers Int_Eval
begin

text \<open>
  \<open>src/pointless_eval.c\<close>: access paths such as \<open>["key"][3][%u32]\<close> (with single quotes around the
  key) that select a value inside a value. A \<open>const char*\<close> is the list of the bytes from it to the end
  of its allocation; the variadic arguments are a list, of which every placeholder takes the first.
  The loop hands \<open>va_list ap\<close> to a function for every index of the path; on the platforms where it is an
  array (x86-64) the arguments taken there are gone afterwards, which is what the model does.
\<close>

unbundle bit_operations_syntax

section \<open>Characters\<close>

text \<open>\<open>isspace\<close> in the C locale.\<close>

definition isspace :: "u8 \<Rightarrow> bool" where
  "isspace c \<longleftrightarrow> c = 32 \<or> (9 \<le> c \<and> c \<le> 13)"

fun skip_whitespace :: "u8 list \<Rightarrow> u8 list option" where
  "skip_whitespace [] = None"
| "skip_whitespace (c # e) = (if isspace c then skip_whitespace e else Some (c # e))"

text \<open>
  \<open>strtoull\<close> on a string that starts with a digit: the value of the digits, and the rest of the string.
  Numbers of \<open>2 ^ 64\<close> and more are the error, which is the inner \<open>None\<close>.
\<close>

definition eval_parse_number :: "u8 list \<Rightarrow> (u64 \<times> u8 list) option option" where
  "eval_parse_number s =
     (let rest = dropWhile is_digit s in
      if rest = [] then None
      else (case parse_number (takeWhile is_digit s) of
              None \<Rightarrow> Some None
            | Some n \<Rightarrow> Some (Some (n, rest))))"

text \<open>\<open>strncmp\<close> with a literal of two characters.\<close>

definition starts_with :: "u8 \<Rightarrow> u8 \<Rightarrow> u8 list \<Rightarrow> bool option" where
  "starts_with a b e =
     do { c \<leftarrow> arr_get e 0;
          if c \<noteq> a then Some False else do { d \<leftarrow> arr_get e 1; Some (d = b) } }"

section \<open>Arguments\<close>

datatype eval_arg = Arg_u64 u64 | Arg_u32 u32 | Arg_i64 i64 | Arg_i32 i32 | Arg_str "u8 list"

text \<open>
  \<open>va_arg\<close> is defined when the argument has the type asked for, or the other signedness and a value
  that both can represent.
\<close>

fun arg_u64 :: "eval_arg \<Rightarrow> u64 option" where
  "arg_u64 (Arg_u64 x) = Some x"
| "arg_u64 (Arg_i64 x) = (if 0 \<le> sint x then Some x else None)"
| "arg_u64 _ = None"

fun arg_u32 :: "eval_arg \<Rightarrow> u32 option" where
  "arg_u32 (Arg_u32 x) = Some x"
| "arg_u32 (Arg_i32 x) = (if 0 \<le> sint x then Some x else None)"
| "arg_u32 _ = None"

fun arg_i64 :: "eval_arg \<Rightarrow> i64 option" where
  "arg_i64 (Arg_i64 x) = Some x"
| "arg_i64 (Arg_u64 x) = (if 0 \<le> sint x then Some x else None)"
| "arg_i64 _ = None"

fun arg_i32 :: "eval_arg \<Rightarrow> i32 option" where
  "arg_i32 (Arg_i32 x) = Some x"
| "arg_i32 (Arg_u32 x) = (if 0 \<le> sint x then Some x else None)"
| "arg_i32 _ = None"

fun arg_str :: "eval_arg \<Rightarrow> u8 list option" where
  "arg_str (Arg_str s) = Some s"
| "arg_str _ = None"

section \<open>One index\<close>

text \<open>The local variables of \<open>pointless_eval_get_single\<close>; \<open>ix_s\<close> is \<open>None\<close> for the null pointer.\<close>

record eval_index =
  ix_s :: "u8 list option"
  ix_s_n :: u64
  ix_u :: u64
  ix_i :: i64
  ix_unsigned :: bool

definition ix_init :: eval_index where
  "ix_init = \<lparr>ix_s = None, ix_s_n = 0, ix_u = 0, ix_i = 0, ix_unsigned = False\<rparr>"

text \<open>The loop over a quoted string: its length, and the rest from the quote or the terminator.\<close>

fun quoted_loop :: "u8 list \<Rightarrow> u64 \<Rightarrow> (u64 \<times> u8 list) option" where
  "quoted_loop [] s_n = None"
| "quoted_loop (c # e) s_n =
     (if c \<noteq> 0 \<and> c \<noteq> 39 then quoted_loop e (s_n + 1) else Some (s_n, c # e))"

text \<open>The placeholder after \<open>%u\<close> or \<open>%i\<close>.\<close>

definition placeholder_u :: "u8 list \<Rightarrow> eval_arg list \<Rightarrow> (eval_index \<times> u8 list \<times> eval_arg list) option option" where
  "placeholder_u e ap =
     do { is64 \<leftarrow> starts_with 54 52 e;
          if is64 then do {
            a \<leftarrow> arr_get ap 0; v \<leftarrow> arg_u64 a;
            Some (Some (ix_init\<lparr>ix_unsigned := True, ix_u := v\<rparr>, drop 2 e, tl ap)) }
          else do {
            is32 \<leftarrow> starts_with 51 50 e;
            if is32 then do {
              a \<leftarrow> arr_get ap 0; v \<leftarrow> arg_u32 a;
              Some (Some (ix_init\<lparr>ix_unsigned := True, ix_u := ucast v\<rparr>, drop 2 e, tl ap)) }
            else Some None } }"

definition placeholder_i :: "u8 list \<Rightarrow> eval_arg list \<Rightarrow> (eval_index \<times> u8 list \<times> eval_arg list) option option" where
  "placeholder_i e ap =
     do { is64 \<leftarrow> starts_with 54 52 e;
          if is64 then do {
            a \<leftarrow> arr_get ap 0; v \<leftarrow> arg_i64 a;
            Some (Some (ix_init\<lparr>ix_i := v\<rparr>, drop 2 e, tl ap)) }
          else do {
            is32 \<leftarrow> starts_with 51 50 e;
            if is32 then do {
              a \<leftarrow> arr_get ap 0; v \<leftarrow> arg_i32 a;
              Some (Some (ix_init\<lparr>ix_i := scast v\<rparr>, drop 2 e, tl ap)) }
            else Some None } }"

text \<open>
  The switch on the first character of the index. The branch of \<open>-\<close> leaves the switch before the number
  is read, so the flag \<open>is_neg\<close> it sets is 0 wherever a number is read; the branch of \<open>+\<close> leaves it, too,
  with the position on the first digit.
\<close>

definition eval_index_at :: "u8 list \<Rightarrow> eval_arg list \<Rightarrow> (eval_index \<times> u8 list \<times> eval_arg list) option option" where
  "eval_index_at e ap =
     do { c \<leftarrow> arr_get e 0;
          if c = 39 then do {
            (s_n, e') \<leftarrow> quoted_loop (tl e) 0;
            q \<leftarrow> arr_get e' 0;
            Some (if q \<noteq> 39 then None
                  else Some (ix_init\<lparr>ix_s := Some (tl e), ix_s_n := s_n\<rparr>, tl e', ap)) }
          else if c = 45 then Some (Some (ix_init, e, ap))
          else if c = 43 then do {
            d \<leftarrow> arr_get (tl e) 0;
            Some (if \<not> (48 \<le> d \<and> d \<le> 57) then None else Some (ix_init, tl e, ap)) }
          else if is_digit c then do {
            r \<leftarrow> eval_parse_number e;
            Some (map_option (\<lambda>(v_u, e'). (ix_init\<lparr>ix_u := v_u, ix_unsigned := True\<rparr>, e', ap)) r) }
          else if c = 37 then do {
            t \<leftarrow> arr_get (tl e) 0;
            if t = 117 then placeholder_u (drop 2 e) ap
            else if t = 105 then placeholder_i (drop 2 e) ap
            else if t = 115 then do {
              a \<leftarrow> arr_get ap 0; s \<leftarrow> arg_str a; n \<leftarrow> pointless_ascii_len s;
              Some (Some (ix_init\<lparr>ix_s := Some s, ix_s_n := n\<rparr>, drop 2 e, tl ap)) }
            else Some None }
          else Some None }"

text \<open>Selecting by the index.\<close>

definition eval_apply :: "pointless_t \<Rightarrow> pointless_value_t \<Rightarrow> eval_index \<Rightarrow> pointless_value_t option option" where
  "eval_apply p v ix =
     (if pointless_is_vector_type (v_type v) \<or> pointless_is_bitvector_type (v_type v) then
        if ix_s ix \<noteq> None \<or> \<not> ix_unsigned ix \<and> sint (ix_i ix) < 0 then Some None
        else do {
          n_items \<leftarrow> (if pointless_is_vector_type (v_type v) then pointless_reader_vector_n_items p v
                      else pointless_reader_bitvector_n_bits p v);
          if ix_unsigned ix \<and> ucast n_items \<le> ix_u ix then Some None
          else if \<not> ix_unsigned ix \<and> uint n_items \<le> sint (ix_i ix) then Some None
          else let i = (if ix_unsigned ix then ucast (ix_u ix) else ucast (ix_i ix)) in
            if pointless_is_vector_type (v_type v) then do {
              x \<leftarrow> pointless_reader_vector_value_case p v i;
              Some (Some (pointless_value_from_complete x)) }
            else do {
              b \<leftarrow> pointless_reader_bitvector_is_set p v i;
              Some (Some (if b \<noteq> 0 then pointless_value_create_as_read_bool_true
                          else pointless_value_create_as_read_bool_false)) } }
      else if v_type v = POINTLESS_MAP_VALUE_VALUE then
        (case ix_s ix of
           Some s \<Rightarrow> pointless_get_mapping_string_n_to_value p v s (ix_s_n ix)
         | None \<Rightarrow>
             if ix_unsigned ix \<and> 9223372036854775807 < uint (ix_u ix) then Some None
             else pointless_get_mapping_int_to_value p v (if ix_unsigned ix then ix_u ix else ix_i ix))
      else Some None)"

text \<open>
  The answer: the new position, \<open>None\<close> for 0, the value, which may have changed even then, and the
  arguments left.
\<close>

definition pointless_eval_get_single ::
    "pointless_t \<Rightarrow> pointless_value_t \<Rightarrow> u8 list \<Rightarrow> eval_arg list \<Rightarrow>
     (u8 list option \<times> pointless_value_t \<times> eval_arg list) option" where
  "pointless_eval_get_single p v e ap =
     do { e \<leftarrow> skip_whitespace e;
          c \<leftarrow> arr_get e 0;
          if c = 0 then Some (Some e, v, ap)
          else if c \<noteq> 91 then Some (None, v, ap)
          else do {
            r \<leftarrow> eval_index_at (tl e) ap;
            (case r of
               None \<Rightarrow> Some (None, v, ap)
             | Some (ix, e, ap) \<Rightarrow> do {
                 r \<leftarrow> eval_apply p v ix;
                 (case r of
                    None \<Rightarrow> Some (None, v, ap)
                  | Some v \<Rightarrow> do {
                      e \<leftarrow> skip_whitespace e;
                      c \<leftarrow> arr_get e 0;
                      if c \<noteq> 93 then Some (None, v, ap)
                      else do { e \<leftarrow> skip_whitespace (tl e); Some (Some e, v, ap) } }) }) } }"

section \<open>A path\<close>

text \<open>The answer is the value written through \<open>v\<close> and whether the function returns 1.\<close>

partial_function (option) eval_get_loop ::
    "pointless_t \<Rightarrow> pointless_value_t \<Rightarrow> u8 list \<Rightarrow> eval_arg list \<Rightarrow> (bool \<times> pointless_value_t) option" where
  "eval_get_loop p v e ap =
     do { c \<leftarrow> arr_get e 0;
          if c = 0 then Some (True, v)
          else do {
            (r, v, ap) \<leftarrow> pointless_eval_get_single p v e ap;
            (case r of
               None \<Rightarrow> Some (False, v)
             | Some e \<Rightarrow> eval_get_loop p v e ap) } }"

declare eval_get_loop.simps [code]

definition pointless_eval_get ::
    "pointless_t \<Rightarrow> pointless_value_t \<Rightarrow> u8 list \<Rightarrow> eval_arg list \<Rightarrow> (bool \<times> pointless_value_t) option" where
  "pointless_eval_get p v e ap = eval_get_loop p v e ap"

section \<open>Typed access\<close>

text \<open>
  The functions that write their results only when they return 1. A pointer to the bytes of a string or
  to the items of a vector is the view of the reader.
\<close>

definition eval_as ::
    "pointless_t \<Rightarrow> pointless_value_t \<Rightarrow> u8 list \<Rightarrow> eval_arg list \<Rightarrow>
     (pointless_value_t \<Rightarrow> 'o option option) \<Rightarrow> 'o option option" where
  "eval_as p v e ap f =
     do { (i, w) \<leftarrow> pointless_eval_get p v e ap; if i then f w else Some None }"

definition pointless_eval_get_as_string ::
    "pointless_t \<Rightarrow> pointless_value_t \<Rightarrow> u8 list \<Rightarrow> eval_arg list \<Rightarrow> u8 list option option" where
  "pointless_eval_get_as_string p v e ap =
     eval_as p v e ap (\<lambda>w.
       if v_type w = POINTLESS_STRING
       then do { s \<leftarrow> pointless_reader_string_value_ascii p w; Some (Some s) } else Some None)"

definition pointless_eval_get_as_u32 ::
    "pointless_t \<Rightarrow> pointless_value_t \<Rightarrow> u8 list \<Rightarrow> eval_arg list \<Rightarrow> u32 option option" where
  "pointless_eval_get_as_u32 p v e ap =
     eval_as p v e ap (\<lambda>w.
       Some (if v_type w = POINTLESS_U32 then Some (pointless_value_get_u32 (v_type w) (v_data w)) else None))"

definition pointless_eval_get_as_boolean ::
    "pointless_t \<Rightarrow> pointless_value_t \<Rightarrow> u8 list \<Rightarrow> eval_arg list \<Rightarrow> u32 option option" where
  "pointless_eval_get_as_boolean p v e ap =
     eval_as p v e ap (\<lambda>w.
       Some (if v_type w = POINTLESS_BOOLEAN then Some (pointless_value_get_bool (v_type w) (v_data w)) else None))"

text \<open>The two functions that hand out the value itself write it in any case.\<close>

definition pointless_eval_get_as_map ::
    "pointless_t \<Rightarrow> pointless_value_t \<Rightarrow> u8 list \<Rightarrow> eval_arg list \<Rightarrow> (bool \<times> pointless_value_t) option" where
  "pointless_eval_get_as_map p v e ap =
     do { (i, w) \<leftarrow> pointless_eval_get p v e ap; Some (i \<and> v_type w = POINTLESS_MAP_VALUE_VALUE, w) }"

definition pointless_eval_get_as_bitvector ::
    "pointless_t \<Rightarrow> pointless_value_t \<Rightarrow> u8 list \<Rightarrow> eval_arg list \<Rightarrow> (u32 option \<times> pointless_value_t) option" where
  "pointless_eval_get_as_bitvector p v e ap =
     do { (i, w) \<leftarrow> pointless_eval_get p v e ap;
          if i \<and> pointless_is_bitvector_type (v_type w)
          then do { n \<leftarrow> pointless_reader_bitvector_n_bits p w; Some (Some n, w) }
          else Some (None, w) }"

text \<open>
  Vectors: the item count and the items; for the empty vector only the count is written, and the items
  are \<open>None\<close>.
\<close>

definition eval_as_vector ::
    "u32 set \<Rightarrow> (pointless_t \<Rightarrow> pointless_value_t \<Rightarrow> 'a list option) \<Rightarrow> pointless_t \<Rightarrow> pointless_value_t \<Rightarrow>
     u8 list \<Rightarrow> eval_arg list \<Rightarrow> (u32 \<times> 'a list option) option option" where
  "eval_as_vector types items p v e ap =
     eval_as p v e ap (\<lambda>w.
       if v_type w = POINTLESS_VECTOR_EMPTY then Some (Some (0, None))
       else if v_type w \<in> types then
         do { n \<leftarrow> pointless_reader_vector_n_items p w; xs \<leftarrow> items p w; Some (Some (n, Some xs)) }
       else Some None)"

definition pointless_eval_get_as_vector_u8 ::
    "pointless_t \<Rightarrow> pointless_value_t \<Rightarrow> u8 list \<Rightarrow> eval_arg list \<Rightarrow> (u32 \<times> u8 list option) option option" where
  "pointless_eval_get_as_vector_u8 = eval_as_vector {POINTLESS_VECTOR_U8} pointless_reader_vector_u8"

definition pointless_eval_get_as_vector_u16 ::
    "pointless_t \<Rightarrow> pointless_value_t \<Rightarrow> u8 list \<Rightarrow> eval_arg list \<Rightarrow> (u32 \<times> u16 list option) option option" where
  "pointless_eval_get_as_vector_u16 = eval_as_vector {POINTLESS_VECTOR_U16} pointless_reader_vector_u16"

definition pointless_eval_get_as_vector_u32 ::
    "pointless_t \<Rightarrow> pointless_value_t \<Rightarrow> u8 list \<Rightarrow> eval_arg list \<Rightarrow> (u32 \<times> u32 list option) option option" where
  "pointless_eval_get_as_vector_u32 = eval_as_vector {POINTLESS_VECTOR_U32} pointless_reader_vector_u32"

definition pointless_eval_get_as_vector_u64 ::
    "pointless_t \<Rightarrow> pointless_value_t \<Rightarrow> u8 list \<Rightarrow> eval_arg list \<Rightarrow> (u32 \<times> u64 list option) option option" where
  "pointless_eval_get_as_vector_u64 = eval_as_vector {POINTLESS_VECTOR_U64} pointless_reader_vector_u64"

definition pointless_eval_get_as_vector_f ::
    "pointless_t \<Rightarrow> pointless_value_t \<Rightarrow> u8 list \<Rightarrow> eval_arg list \<Rightarrow> (u32 \<times> u32 list option) option option" where
  "pointless_eval_get_as_vector_f = eval_as_vector {POINTLESS_VECTOR_FLOAT} pointless_reader_vector_float"

definition pointless_eval_get_as_vector_value ::
    "pointless_t \<Rightarrow> pointless_value_t \<Rightarrow> u8 list \<Rightarrow> eval_arg list \<Rightarrow>
     (u32 \<times> pointless_value_t list option) option option" where
  "pointless_eval_get_as_vector_value =
     eval_as_vector {POINTLESS_VECTOR_VALUE, POINTLESS_VECTOR_VALUE_HASHABLE} pointless_reader_vector_value"

end
