(* ===== verification/Reader_Helpers_Laws.thy ===== *)
theory Reader_Helpers_Laws
  imports Reader_Helpers Lookup_Laws
begin

text \<open>
  What the helpers answer on a file that passed validation. The search among the items of one hash
  walks the probe sequence of that hash, as the lookup does; where the lookup of a key stops, every
  earlier bucket holds another hash or another key, so the search with a test that keys pass exactly
  when they denote the value searched for finds that key.
\<close>

unbundle bit_operations_syntax

section \<open>A search along the probe sequence of a valid table\<close>

text \<open>What such a search does at a bucket: miss, pass on, fail with the test, or hit.\<close>

definition search_act ::
    "(pointless_value_t \<Rightarrow> bool option) \<Rightarrow> 'r option \<Rightarrow> (nat \<Rightarrow> 'r option) \<Rightarrow> u32 \<Rightarrow> u32 list \<Rightarrow>
     pointless_value_t list \<Rightarrow> nat \<Rightarrow> 'r option option" where
  "search_act cb miss hit hsh hv kv b =
     (if \<not> used_slot kv b then Some miss
      else if hv ! b \<noteq> hsh then None
      else (case cb (kv ! b) of
              None \<Rightarrow> Some None
            | Some is_key \<Rightarrow> if is_key then Some (hit b) else None))"

lemma search_hit:
  assumes v: "table_valid fuel p n_items n hv kv"
    and loop: "probing_loop F (search_act cb miss hit hsh hv kv) (n - 1)"
    and test: "\<And>b. b < unat n \<Longrightarrow> used_slot kv b \<Longrightarrow> hv ! b = hsh \<Longrightarrow> cb (kv ! b) = Some (P (kv ! b))"
    and same: "\<And>b c. b < unat n \<Longrightarrow> c < unat n \<Longrightarrow> used_slot kv b \<Longrightarrow> used_slot kv c \<Longrightarrow> P (kv ! b) \<Longrightarrow>
      P (kv ! c) \<Longrightarrow> key_test p (kv ! b) (pointless_value_to_complete (kv ! c)) = Some (Inr True)"
    and b: "b < unat n" "used_slot kv b" "P (kv ! b)" "hv ! b = hsh"
  shows "F hsh hsh = hit b"
proof -
  from v obtain k where k: "k < 32" "n = 2 ^ k" by (auto simp: table_valid_def)
  then have n: "unat n = 2 ^ k" by (simp add: power_u32_less)
  let ?pa = "probe_act (key_test p (kv ! b)) hsh hv kv"
  let ?bkt = "probe_bucket hsh (2 ^ k - 1)"
  have bkt: "?bkt m < unat n" for m unfolding n by (rule probe_bucket_less [OF k(1)])
  have pa: "?pa c = (if \<not> used_slot kv c then Some (Some (Inr POINTLESS_HASH_TABLE_PROBE_MISS))
      else if hsh \<noteq> hv ! c then None
      else (case key_test p (kv ! b) (pointless_value_to_complete (kv ! c)) of
              None \<Rightarrow> Some None
            | Some (Inl e) \<Rightarrow> Some (Some (Inl e))
            | Some (Inr is_equal) \<Rightarrow> if is_equal then Some (Some (Inr (of_nat c))) else None))"
    if "c < unat n" for c
    using table_valid_bound(2,3) [OF v that] by (simp add: probe_act_def)
  have "?pa b \<noteq> None" using pa [OF b(1)] b same [of b b] by simp
  with b(1) obtain m where
    m: "?pa (?bkt m) = Some (pointless_hash_table_probe_priv (key_test p (kv ! b)) hsh (2 ^ k) hv kv)"
    and pass: "\<And>m'. m' < m \<Longrightarrow> ?pa (?bkt m') = None"
    using probe_stops [OF k(1), of b "key_test p (kv ! b)" hsh hv kv] n by auto
  have "pointless_hash_table_probe p hsh (kv ! b) n hv kv = Some (Inr (of_nat b))"
    using v b by (auto simp: table_valid_def)
  with m have stop: "?pa (?bkt m) = Some (Some (Inr (of_nat b)))" by (simp add: probe_is_priv k(2))
  have "of_nat b \<noteq> (POINTLESS_HASH_TABLE_PROBE_MISS :: u32)"
    using table_valid_bound(1) [OF v b(1)] by (auto simp: lookup_result_def)
  with stop have "of_nat (?bkt m) = (of_nat b :: u32)"
    by (auto simp: pa [OF bkt] split: if_split_asm option.split_asm sum.split_asm)
  then have bm: "?bkt m = b"
    using table_valid_bound(4) [OF v bkt] table_valid_bound(4) [OF v b(1)] by metis
  have "search_act cb miss hit hsh hv kv (?bkt m') = None" if "m' < m" for m'
  proof -
    let ?c = "?bkt m'"
    from pass [OF that] have u: "used_slot kv ?c"
      and no: "hv ! ?c = hsh \<Longrightarrow> \<exists>r. key_test p (kv ! b) (pointless_value_to_complete (kv ! ?c)) = Some r \<and>
        r \<noteq> Inr True"
      by (auto simp: pa [OF bkt] split: if_split_asm option.split_asm sum.split_asm)
    then have "hv ! ?c = hsh \<Longrightarrow> \<not> P (kv ! ?c)"
      using same [OF b(1) bkt b(2) u b(3)] by auto
    with u test [OF bkt u] show ?thesis by (simp add: search_act_def)
  qed
  moreover have "search_act cb miss hit hsh hv kv (?bkt m) = Some (hit b)"
    using test [OF b(1,2,4)] b by (simp add: bm search_act_def)
  ultimately show ?thesis using probing_stops [OF loop [unfolded k(2)]] by blast
qed

lemma search_miss:
  assumes v: "table_valid fuel p n_items n hv kv"
    and loop: "probing_loop F (search_act cb miss hit hsh hv kv) (n - 1)"
    and test: "\<And>b. b < unat n \<Longrightarrow> used_slot kv b \<Longrightarrow> hv ! b = hsh \<Longrightarrow> cb (kv ! b) = Some False"
  shows "F hsh hsh = miss"
proof -
  from v obtain k e where k: "k < 32" "n = 2 ^ k" and e: "e < unat n" "\<not> used_slot kv e"
    unfolding table_valid_def by blast
  then have n: "unat n = 2 ^ k" by (simp add: power_u32_less)
  let ?act = "search_act cb miss hit hsh hv kv"
  let ?bkt = "probe_bucket hsh (2 ^ k - 1)"
  have "?act e \<noteq> None" using e by (simp add: search_act_def)
  with e(1) obtain m where m: "?act (?bkt m) \<noteq> None" "\<forall>m' < m. ?act (?bkt m') = None"
    using first_stop [OF k(1), of e ?act hsh] n by auto
  have "?bkt m < unat n" unfolding n by (rule probe_bucket_less [OF k(1)])
  with m(1) test have "?act (?bkt m) = Some miss"
    by (auto simp: search_act_def split: if_split_asm)
  with m(2) show ?thesis using probing_stops [OF loop [unfolded k(2)]] by blast
qed

section \<open>The loops of the helpers are such searches\<close>

abbreviation iter_state :: "u32 \<Rightarrow> u32 \<Rightarrow> u32 \<Rightarrow> pointless_hash_iter_state_t" where
  "iter_state n i q \<equiv> \<lparr>it_perturb = q, it_i = i, it_mask = n - 1\<rparr>"

lemma iter_hash_loop_bucket:
  assumes "unat (i AND (n - 1)) < length kv" and "unat (i AND (n - 1)) < length hv"
  shows "iter_hash_loop hv kv hsh (iter_state n i q) =
    (let b = unat (i AND (n - 1)); st = iter_state n (push_bit 2 i + i + q + 1) (drop_bit 5 q) in
     if \<not> used_slot kv b then Some None
     else if hv ! b = hsh then Some (Some (b, st))
     else iter_hash_loop hv kv hsh st)"
  using assms by (subst iter_hash_loop.simps) (simp add: pointless_hash_table_probe_hash_def Let_def)

lemma mask_bucket:
  assumes "table_valid fuel p n_items n hv kv"
  shows "unat (i AND (n - 1)) < unat n"
proof -
  from assms obtain k where k: "k < 32" "n = 2 ^ k" by (auto simp: table_valid_def)
  then have "n \<noteq> 0" by (metis power_u32_less power_not_zero unsigned_0 zero_neq_numeral)
  have "i AND (n - 1) \<le> n - 1" by (rule word_and_le1)
  also have "n - 1 < n" using \<open>n \<noteq> 0\<close> unat_gt_0 [of n] by (simp add: word_less_nat_alt unat_minus_one)
  finally show ?thesis by (simp only: word_less_nat_alt)
qed

text \<open>The parts of a map, and of a set, that passed validation.\<close>

definition valid_map ::
    "nat \<Rightarrow> pointless_t \<Rightarrow> pointless_value_t \<Rightarrow> u32 \<Rightarrow> u32 list \<Rightarrow> pointless_value_t list \<Rightarrow>
     pointless_value_t list \<Rightarrow> bool" where
  "valid_map fuel p m n hv kv vv \<longleftrightarrow>
     (\<exists>h. map_header_at p m = Some h \<and>
        pointless_reader_vector_n_items p (mh_key_vector h) = Some n \<and>
        pointless_reader_vector_n_items p (mh_hash_vector h) = Some n \<and>
        pointless_reader_vector_u32 p (mh_hash_vector h) = Some hv \<and>
        pointless_reader_vector_value p (mh_key_vector h) = Some kv \<and>
        pointless_reader_vector_value p (mh_value_vector h) = Some vv \<and>
        table_valid fuel p (mh_n_items h) n hv kv \<and> unat n \<le> length vv)"

lemma valid_mapE:
  assumes "valid_map fuel p m n hv kv vv"
  obtains h where "map_header_at p m = Some h"
    "pointless_reader_vector_n_items p (mh_key_vector h) = Some n"
    "pointless_reader_vector_n_items p (mh_hash_vector h) = Some n"
    "pointless_reader_vector_u32 p (mh_hash_vector h) = Some hv"
    "pointless_reader_vector_value p (mh_key_vector h) = Some kv"
    "pointless_reader_vector_value p (mh_value_vector h) = Some vv"
    "table_valid fuel p (mh_n_items h) n hv kv" "unat n \<le> length vv"
  using assms by (auto simp: valid_map_def)

definition valid_set ::
    "nat \<Rightarrow> pointless_t \<Rightarrow> pointless_value_t \<Rightarrow> u32 \<Rightarrow> u32 list \<Rightarrow> pointless_value_t list \<Rightarrow> bool" where
  "valid_set fuel p s n hv kv \<longleftrightarrow>
     (\<exists>h. set_header_at p s = Some h \<and>
        pointless_reader_vector_n_items p (sh_key_vector h) = Some n \<and>
        pointless_reader_vector_n_items p (sh_hash_vector h) = Some n \<and>
        pointless_reader_vector_u32 p (sh_hash_vector h) = Some hv \<and>
        pointless_reader_vector_value p (sh_key_vector h) = Some kv \<and>
        table_valid fuel p (sh_n_items h) n hv kv)"

lemma valid_setE:
  assumes "valid_set fuel p s n hv kv"
  obtains h where "set_header_at p s = Some h"
    "pointless_reader_vector_n_items p (sh_key_vector h) = Some n"
    "pointless_reader_vector_n_items p (sh_hash_vector h) = Some n"
    "pointless_reader_vector_u32 p (sh_hash_vector h) = Some hv"
    "pointless_reader_vector_value p (sh_key_vector h) = Some kv"
    "table_valid fuel p (sh_n_items h) n hv kv"
  using assms by (auto simp: valid_set_def)

lemma get_map_probing:
  assumes "valid_map fuel p m n hv kv vv"
  shows "probing_loop (\<lambda>i q. get_map_loop p m hsh cb (get_value p) (iter_state n i q))
     (search_act cb (Some None) (\<lambda>b. Some (Some (vv ! b))) hsh hv kv) (n - 1)"
  unfolding probing_loop_def
proof (intro allI)
  from assms obtain h where header: "map_header_at p m = Some h"
    and hashes: "pointless_reader_vector_u32 p (mh_hash_vector h) = Some hv"
    and keys: "pointless_reader_vector_value p (mh_key_vector h) = Some kv"
    and vals: "pointless_reader_vector_value p (mh_value_vector h) = Some vv"
    and valid: "table_valid fuel p (mh_n_items h) n hv kv" and n_vals: "unat n \<le> length vv"
    by (rule valid_mapE)
  fix i q
  let ?b = "unat (i AND (n - 1))"
  let ?st = "iter_state n (push_bit 2 i + i + q + 1) (drop_bit 5 q)"
  have b: "?b < unat n" by (rule mask_bucket [OF valid])
  note bounds = table_valid_bound(2,3) [OF valid b]
  obtain a where a: "value_addr p (mh_key_vector h) ?b = Some a" "read_value (p_buf p) a = Some (kv ! ?b)"
    using value_addr_at [OF keys bounds(1)] by blast
  obtain c where c: "value_addr p (mh_value_vector h) ?b = Some c" "read_value (p_buf p) c = Some (vv ! ?b)"
    using value_addr_at [OF vals order_less_le_trans [OF b n_vals]] by blast
  note step = iter_hash_loop_bucket [OF bounds, of hsh q]
  note iter = pointless_reader_map_iter_hash_def header hashes keys
  consider (free) "\<not> used_slot kv ?b" | (pass) "used_slot kv ?b" "hv ! ?b \<noteq> hsh"
    | (key) "used_slot kv ?b" "hv ! ?b = hsh" by blast
  then show "get_map_loop p m hsh cb (get_value p) (iter_state n i q) =
    (case search_act cb (Some None) (\<lambda>b. Some (Some (vv ! b))) hsh hv kv ?b of
       None \<Rightarrow> get_map_loop p m hsh cb (get_value p) ?st | Some r \<Rightarrow> r)"
  proof cases
    case free
    then have "pointless_reader_map_iter_hash p m hsh (iter_state n i q) = Some None"
      by (simp add: iter step)
    with free show ?thesis by (subst get_map_loop.simps) (simp add: search_act_def)
  next
    case pass
    then have "pointless_reader_map_iter_hash p m hsh (iter_state n i q) =
        pointless_reader_map_iter_hash p m hsh ?st"
      by (simp add: iter step Let_def)
    with pass show ?thesis
      by (subst (1 2) get_map_loop.simps) (simp add: search_act_def)
  next
    case key
    then have "pointless_reader_map_iter_hash p m hsh (iter_state n i q) = Some (Some (a, c, ?st))"
      by (simp add: iter step a c Let_def)
    with key show ?thesis
      by (subst get_map_loop.simps)
        (simp add: search_act_def a c get_value_def split: option.split)
  qed
qed

lemma get_map_search:
  assumes "valid_map fuel p m n hv kv vv"
  shows "pointless_get_map_priv p m hsh cb (get_value p) =
     get_map_loop p m hsh cb (get_value p) (iter_state n hsh hsh)"
  using assms by (auto simp: valid_map_def pointless_get_map_priv_def
      pointless_reader_map_iter_hash_init_def pointless_hash_table_probe_hash_init_def)

lemma map_items_at:
  assumes "valid_map fuel p m n hv kv vv"
  shows "map_items p m = Some (map (\<lambda>i. (kv ! i, vv ! i)) (filter (used_slot kv) [0..<unat n]))"
  using assms by (auto simp: valid_map_def map_items_def)

lemma get_set_probing:
  assumes "valid_set fuel p s n hv kv"
  shows "probing_loop (\<lambda>i q. get_set_loop p s hsh cb (iter_state n i q))
     (search_act cb (Some False) (\<lambda>_. Some True) hsh hv kv) (n - 1)"
  unfolding probing_loop_def
proof (intro allI)
  from assms obtain h where header: "set_header_at p s = Some h"
    and hashes: "pointless_reader_vector_u32 p (sh_hash_vector h) = Some hv"
    and keys: "pointless_reader_vector_value p (sh_key_vector h) = Some kv"
    and valid: "table_valid fuel p (sh_n_items h) n hv kv"
    by (rule valid_setE)
  fix i q
  let ?b = "unat (i AND (n - 1))"
  let ?st = "iter_state n (push_bit 2 i + i + q + 1) (drop_bit 5 q)"
  have b: "?b < unat n" by (rule mask_bucket [OF valid])
  note bounds = table_valid_bound(2,3) [OF valid b]
  obtain a where a: "value_addr p (sh_key_vector h) ?b = Some a" "read_value (p_buf p) a = Some (kv ! ?b)"
    using value_addr_at [OF keys bounds(1)] by blast
  note step = iter_hash_loop_bucket [OF bounds, of hsh q]
  note iter = pointless_reader_set_iter_hash_def header hashes keys
  consider (free) "\<not> used_slot kv ?b" | (pass) "used_slot kv ?b" "hv ! ?b \<noteq> hsh"
    | (key) "used_slot kv ?b" "hv ! ?b = hsh" by blast
  then show "get_set_loop p s hsh cb (iter_state n i q) =
    (case search_act cb (Some False) (\<lambda>_. Some True) hsh hv kv ?b of
       None \<Rightarrow> get_set_loop p s hsh cb ?st | Some r \<Rightarrow> r)"
  proof cases
    case free
    then have "pointless_reader_set_iter_hash p s hsh (iter_state n i q) = Some None"
      by (simp add: iter step)
    with free show ?thesis by (subst get_set_loop.simps) (simp add: search_act_def)
  next
    case pass
    then have "pointless_reader_set_iter_hash p s hsh (iter_state n i q) =
        pointless_reader_set_iter_hash p s hsh ?st"
      by (simp add: iter step Let_def)
    with pass show ?thesis
      by (subst (1 2) get_set_loop.simps) (simp add: search_act_def)
  next
    case key
    then have "pointless_reader_set_iter_hash p s hsh (iter_state n i q) = Some (Some (a, ?st))"
      by (simp add: iter step a Let_def)
    with key show ?thesis
      by (subst get_set_loop.simps) (simp add: search_act_def a split: option.split)
  qed
qed

lemma get_set_search:
  assumes "valid_set fuel p s n hv kv"
  shows "pointless_get_set_priv p s hsh cb = get_set_loop p s hsh cb (iter_state n hsh hsh)"
  using assms by (auto simp: valid_set_def pointless_get_set_priv_def
      pointless_reader_set_iter_hash_init_def pointless_hash_table_probe_hash_init_def)

lemma set_keys_at:
  assumes "valid_set fuel p s n hv kv"
  shows "set_keys p s = Some (map ((!) kv) (filter (used_slot kv) [0..<unat n]))"
  using assms by (auto simp: valid_set_def set_keys_def)

lemma opened_map:
  assumes ok: "all_ok p" "reachable p m" and "table_ok fuel p m" and "v_type m = POINTLESS_MAP_VALUE_VALUE"
  shows "\<exists>n hv kv vv. valid_map fuel p m n hv kv vv"
proof -
  from map_table [OF assms(3,4)] obtain h n hv kv vv where t: "map_header_at p m = Some h"
    "pointless_reader_vector_n_items p (mh_key_vector h) = Some n"
    "pointless_reader_vector_n_items p (mh_hash_vector h) = Some n"
    "pointless_reader_vector_n_items p (mh_value_vector h) = Some n"
    "pointless_reader_vector_u32 p (mh_hash_vector h) = Some hv"
    "pointless_reader_vector_value p (mh_key_vector h) = Some kv"
    "pointless_reader_vector_value p (mh_value_vector h) = Some vv"
    "table_valid fuel p (mh_n_items h) n hv kv" .
  moreover have "unat n \<le> length vv" by (rule map_values_length [OF ok assms(4) t(1,4,7)])
  ultimately show ?thesis unfolding valid_map_def by blast
qed

lemma opened_set:
  assumes "table_ok fuel p s" and "v_type s = POINTLESS_SET_VALUE"
  shows "\<exists>n hv kv. valid_set fuel p s n hv kv"
  using set_table [OF assms] unfolding valid_set_def by metis

lemma filter_used_iff:
  "x \<in> set (map f (filter (used_slot kv) [0..<k])) \<longleftrightarrow> (\<exists>b < k. used_slot kv b \<and> x = f b)"
  by auto

section \<open>String keys\<close>

abbreviation string_key :: "pointless_t \<Rightarrow> pointless_value_t \<Rightarrow> u32 list \<Rightarrow> bool" where
  "string_key p x cs \<equiv> key_of 1 p (pointless_value_to_complete x) = Some (K_Str cs)"

lemma string_hash_loop_content:
  "string_hash_loop s x n = Some r \<Longrightarrow> \<exists>cs. code_points s = Some cs"
  by (induction s x n rule: string_hash_loop.induct) (auto split: if_split_asm)

lemma python_hash_content: "python_string_hash_32 s = Some r \<Longrightarrow> \<exists>cs. code_points s = Some cs"
  by (auto simp: python_string_hash_32_def elim!: bind_eq_Some_E dest: string_hash_loop_content)

lemma check_string_decides:
  assumes hsh: "pointless_hash_reader_32 f p y = Some hy" and key: "code_points key = Some cs"
  shows "check_string p y key = Some (string_key p y cs)"
proof -
  from hsh obtain g where f: "f = Suc g" by (cases f) simp_all
  consider (u) "v_type y = POINTLESS_UNICODE" | (s) "v_type y = POINTLESS_STRING"
    | (other) "v_type y \<noteq> POINTLESS_UNICODE" "v_type y \<noteq> POINTLESS_STRING" by blast
  then show ?thesis
  proof cases
    case u
    with hsh f obtain t where t: "pointless_reader_unicode_value_ucs4 p y = Some t"
      "python_string_hash_32 t = Some hy"
      by (auto simp: pointless_hash_reader_func_32_def pointless_hash_unicode_ucs4_v1_32_def
          elim!: bind_eq_Some_E)
    from python_hash_content [OF t(2)] obtain ct where ct: "code_points t = Some ct" ..
    from cmp_string_zeros(3) [OF ct key] obtain c where
      "cmp_string t key = Some c" "c = 0 \<longleftrightarrow> ct = cs" by blast
    with u t ct show ?thesis by (simp add: check_string_def pointless_cmp_string_32_8_def)
  next
    case s
    with hsh f obtain t where t: "pointless_reader_string_value_ascii p y = Some t"
      "python_string_hash_32 t = Some hy"
      by (auto simp: pointless_hash_reader_func_32_def pointless_hash_string_v1_32_def
          elim!: bind_eq_Some_E)
    from python_hash_content [OF t(2)] obtain ct where ct: "code_points t = Some ct" ..
    from cmp_string_zeros(1) [OF ct key] obtain c where
      "cmp_string t key = Some c" "c = 0 \<longleftrightarrow> ct = cs" by blast
    with s t ct show ?thesis by (simp add: check_string_def pointless_cmp_string_8_8_def)
  next
    case other
    then have "\<not> string_key p y cs" using key_of_StrD [of 1 p "pointless_value_to_complete y" cs] by auto
    with other show ?thesis by (simp add: check_string_def)
  qed
qed

lemma string_key_fuel:
  assumes "string_key p x cs"
  shows "key_of (Suc g) p (pointless_value_to_complete x) = Some (K_Str cs)"
  using key_of_StrD [OF assms] by auto

lemma string_key_test:
  assumes "string_key p x cs" and "string_key p y cs"
  shows "key_test p x (pointless_value_to_complete y) = Some (Inr True)"
proof -
  let ?x = "pointless_value_to_complete x" and ?y = "pointless_value_to_complete y"
  have t: "cv_type ?x = POINTLESS_UNICODE \<or> cv_type ?x = POINTLESS_STRING"
    "cv_type ?y = POINTLESS_UNICODE \<or> cv_type ?y = POINTLESS_STRING"
    using key_of_StrD [OF assms(1)] key_of_StrD [OF assms(2)] by blast+
  have "pointless_cmp_reader p ?x p ?y = map_option Inr (pointless_cmp_reader_string_unicode p ?x p ?y)"
    using cmp_reader_string [OF t(1) refl, of p p ?y] t(2) by simp
  then show ?thesis using cmp_reader_strings [OF assms] by (auto simp: key_test_def)
qed

lemma string_key_hash:
  assumes "string_key p x cs" and "pointless_hash_reader_32 f p x = Some h"
  shows "h = string_hash cs"
proof -
  from assms(2) obtain g where f: "f = Suc g" by (cases f) simp_all
  note k = string_key_fuel [OF assms(1), of g]
  from hash_reader_key [OF k same_key_strings(2) [OF k k]] assms(2) f show ?thesis by simp
qed

lemma get_string_value:
  assumes v: "valid_map fuel p m n hv kv vv" and key: "code_points key = Some cs"
    and items: "map_items p m = Some items"
  shows "\<exists>r. pointless_get_mapping_string_to_value p m key = Some r \<and>
    (\<forall>v. r = Some v \<longleftrightarrow> (\<exists>x. (x, v) \<in> set items \<and> string_key p x cs))"
proof -
  from v obtain n_items where valid: "table_valid fuel p n_items n hv kv" by (rule valid_mapE) blast
  let ?P = "\<lambda>x. string_key p x cs" and ?cb = "\<lambda>v. check_string p v key"
  let ?F = "\<lambda>i q. get_map_loop p m (string_hash cs) ?cb (get_value p) (iter_state n i q)"
  note loop = get_map_probing [OF v, of "string_hash cs" ?cb]
  have test: "?cb (kv ! b) = Some (?P (kv ! b))" if "b < unat n" for b
    by (rule check_string_decides [OF table_hash [OF valid that] key])
  have hash: "hv ! b = string_hash cs" if "b < unat n" "?P (kv ! b)" for b
    by (rule string_key_hash [OF that(2) table_hash [OF valid that(1)]])
  have get: "pointless_get_mapping_string_to_value p m key = ?F (string_hash cs) (string_hash cs)"
    using python_string_hash_32_eq [OF key]
    by (simp add: pointless_get_mapping_string_to_value_def pointless_hash_string_v1_32_def
        get_map_search [OF v])
  have hit: "?F (string_hash cs) (string_hash cs) = Some (Some (vv ! b))"
    if "b < unat n" "used_slot kv b" "?P (kv ! b)" for b
  proof (rule search_hit [OF valid loop, where P = ?P])
    show "?cb (kv ! c) = Some (?P (kv ! c))" if "c < unat n" for c by (rule test [OF that])
    show "key_test p (kv ! a) (pointless_value_to_complete (kv ! c)) = Some (Inr True)"
      if "?P (kv ! a)" "?P (kv ! c)" for a c by (rule string_key_test [OF that])
  qed (fact that hash [OF that(1,3)])+
  have miss: "?F (string_hash cs) (string_hash cs) = Some None"
    if "\<And>b. b < unat n \<Longrightarrow> used_slot kv b \<Longrightarrow> \<not> ?P (kv ! b)"
  proof (rule search_miss [OF valid loop])
    fix b assume b: "b < unat n" "used_slot kv b"
    show "?cb (kv ! b) = Some False" unfolding test [OF b(1)] using that [OF b] by simp
  qed
  have mem: "(x, v) \<in> set items \<longleftrightarrow> (\<exists>b < unat n. used_slot kv b \<and> x = kv ! b \<and> v = vv ! b)" for x v
    using items map_items_at [OF v] by auto
  let ?r = "?F (string_hash cs) (string_hash cs)"
  show ?thesis
  proof (cases "\<exists>b < unat n. used_slot kv b \<and> ?P (kv ! b)")
    case True
    then obtain b where b: "b < unat n" "used_slot kv b" "?P (kv ! b)" by blast
    have "Some (vv ! b) = Some v \<longleftrightarrow> (\<exists>x. (x, v) \<in> set items \<and> ?P x)" for v
    proof
      assume "Some (vv ! b) = Some v"
      then have "(kv ! b, v) \<in> set items" unfolding mem using b by blast
      with b(3) show "\<exists>x. (x, v) \<in> set items \<and> ?P x" by blast
    next
      assume "\<exists>x. (x, v) \<in> set items \<and> ?P x"
      then obtain x where "(x, v) \<in> set items" "?P x" by blast
      then obtain c where c: "c < unat n" "used_slot kv c" "?P (kv ! c)" "v = vv ! c"
        by (simp only: mem) blast
      from hit [OF b] hit [OF c(1-3)] c(4) show "Some (vv ! b) = Some v" by (simp only: option.inject)
    qed
    moreover have "pointless_get_mapping_string_to_value p m key = Some (Some (vv ! b))"
      unfolding get by (rule hit [OF b])
    ultimately show ?thesis by blast
  next
    case False
    then have none: "\<not> (\<exists>x. (x, v) \<in> set items \<and> ?P x)" for v unfolding mem by blast
    have "?r = Some None" by (rule miss) (use False in blast)
    then have "pointless_get_mapping_string_to_value p m key = Some None" unfolding get .
    with none show ?thesis by blast
  qed
qed

text \<open>The map from the byte string \<open>"a"\<close> to null.\<close>

definition string_map_image :: "u8 list" where
  "string_map_image =
     [18, 0, 0, 0, 0, 0, 0, 0, 1, 0, 0, 0, 3, 0, 0, 0, 0, 0, 0, 0, 0, 0, 0, 0,
      1, 0, 0, 0, 2, 0, 0, 0, 0, 0, 0, 0, 0, 0, 0, 0, 6, 0, 0, 0, 0, 0, 0, 0,
      18, 0, 0, 0, 0, 0, 0, 0, 38, 0, 0, 0, 0, 0, 0, 0, 58, 0, 0, 0, 0, 0, 0, 0,
      1, 0, 0, 0, 97, 0, 2, 0, 0, 0, 224, 177, 13, 228, 0, 0, 0, 0,
      2, 0, 0, 0, 29, 0, 0, 0, 0, 0, 0, 0, 19, 0, 0, 0, 0, 0, 0, 0,
      2, 0, 0, 0, 24, 0, 0, 0, 0, 0, 0, 0, 19, 0, 0, 0, 0, 0, 0, 0,
      1, 0, 0, 0, 0, 0, 0, 0, 7, 0, 0, 0, 0, 0, 0, 0, 1, 0, 0, 0, 1, 0, 0, 0,
      1, 0, 0, 0, 2, 0, 0, 0]"

abbreviation (input) string_map_handle :: pointless_t where
  "string_map_handle \<equiv> init_handle string_map_image \<lparr>root = \<lparr>v_type = 18, v_data = 0\<rparr>,
     n_string_unicode = 1, n_vector = 3, n_bitvector = 0, n_set = 0, n_map = 1, version = 2\<rparr> 162"

lemma string_map_opens: "pointless_open_b 1 string_map_image = Some (Inr (string_map_handle, None))"
  by code_simp

lemma string_map_items:
  "map_items string_map_handle \<lparr>v_type = 18, v_data = 0\<rparr> =
     Some [(\<lparr>v_type = 29, v_data = 0\<rparr>, \<lparr>v_type = 24, v_data = 0\<rparr>)]"
  by code_simp

lemma string_map_key: "string_key string_map_handle \<lparr>v_type = 29, v_data = 0\<rparr> [97]"
  by code_simp

lemma string_map_root: "pointless_root string_map_handle = \<lparr>v_type = 18, v_data = 0\<rparr>"
  by (simp add: pointless_root_def init_handle_def Let_def)

lemma string_map_size: "length string_map_image < 2 ^ 64"
  by (simp add: string_map_image_def)

lemmas string_map_facts =
  string_map_opens string_map_size reachable.root [of string_map_handle, unfolded string_map_root]

text \<open>
  C35 Access by a string key is exact: on a map of an opened file the function ends, and answers the
  value of the item whose key is a string of either type with the characters of the argument, or 0
  when there is none.
\<close>

theorem string_access_exact:
  assumes "pointless_open_b fuel buf = Some (Inr (p, warning))" and "length buf < 2 ^ 64"
    and "reachable p m" and "v_type m = POINTLESS_MAP_VALUE_VALUE" and "map_items p m = Some items"
    and "code_points key = Some cs"
  shows "\<exists>r. pointless_get_mapping_string_to_value p m key = Some r \<and>
    (\<forall>v. r = Some v \<longleftrightarrow> (\<exists>x. (x, v) \<in> set items \<and> string_key p x cs))"
proof -
  from opened_map [OF open_b_checked(1) [OF assms(1,2)] assms(3) open_b_tables [OF assms(1-3)] assms(4)]
  obtain n hv kv vv where "valid_map fuel p m n hv kv vv" by blast
  then show ?thesis by (rule get_string_value [OF _ assms(6,5)])
qed

theorem string_access_exact_witness:
  "pointless_get_mapping_string_to_value string_map_handle \<lparr>v_type = 18, v_data = 0\<rparr> [97, 0] =
     Some (Some \<lparr>v_type = 24, v_data = 0\<rparr>)"
proof -
  have key: "code_points [97, 0 :: u8] = Some [97]" by simp
  from string_access_exact [OF string_map_facts _ string_map_items key] obtain r where
    r: "pointless_get_mapping_string_to_value string_map_handle \<lparr>v_type = 18, v_data = 0\<rparr> [97, 0] = Some r"
    "\<forall>v. r = Some v \<longleftrightarrow> (\<exists>x. (x, v) \<in> set [(\<lparr>v_type = 29, v_data = 0\<rparr>, \<lparr>v_type = 24, v_data = 0\<rparr>)] \<and>
       string_key string_map_handle x [97])"
    by auto
  have "r = Some \<lparr>v_type = 24, v_data = 0\<rparr>"
    unfolding r(2) [rule_format] using string_map_key by (intro exI [of _ "\<lparr>v_type = 29, v_data = 0\<rparr>"]) simp
  with r(1) show ?thesis by simp
qed

end
