(* ===== verification/Int_Keys.thy ===== *)
theory Int_Keys
  imports Reader_Helpers_Laws
begin

text \<open>
  Integer keys of the helpers: membership of a 64-bit integer in a set or a map. The keys of a file
  are 32-bit integers hashed as they are, the argument is hashed modulo \<open>2 ^ 32 - 1\<close>.
\<close>

unbundle bit_operations_syntax

abbreviation int_key :: "i64 \<Rightarrow> pointless_value_t \<Rightarrow> bool" where
  "int_key i x \<equiv>
     pointless_is_integer_type (v_type x) \<and> i = pointless_get_int_as_int64 (v_type x) (v_data x)"

lemma hashable_integer:
  assumes "pointless_is_integer_type t" and "pointless_is_hashable t"
  shows "t = POINTLESS_I32 \<or> t = POINTLESS_U32"
  using assms by (auto simp: pointless_is_integer_type_def pointless_is_hashable_def
      pointless_hash_reader_func_32_def)

lemma hash_i64_mod: "unat (pointless_hash_i64_32 i) = unat i mod 4294967295"
proof -
  have "unat (i mod 4294967295) = unat i mod 4294967295" by (simp add: unat_mod)
  moreover have "unat i mod 4294967295 < 2 ^ 32" by (rule less_trans [of _ 4294967295]) simp_all
  ultimately show ?thesis
    by (simp add: pointless_hash_i64_32_def unsigned_ucast_eq take_bit_nat_eq_self)
qed

lemma sint_cases: "sint (d :: u32) = uint d \<or> sint d = uint d - 4294967296"
proof -
  have "take_bit 32 (uint d) = uint d" by (rule take_bit_int_eq_self) (use uint_lt2p [of d] in simp_all)
  then show ?thesis by (simp add: sint_uint signed_take_bit_eq_take_bit_minus)
qed

lemma uint_mod_max: "uint (d :: u32) mod 4294967295 = (if d = UINT32_MAX then 0 else uint d)"
proof (cases "d = UINT32_MAX")
  case False
  have "uint d < 4294967296" using uint_lt2p [of d] by simp
  moreover have "uint d \<noteq> 4294967295" using False by (simp add: word_uint_eq_iff)
  moreover have "0 \<le> uint d" by simp
  ultimately have "uint d < 4294967295" "0 \<le> uint d" by arith+
  with False show ?thesis by (simp add: mod_pos_pos_trivial)
qed simp

text \<open>The modulus does not see the sign extension: \<open>2 ^ 32\<close> and \<open>2 ^ 64\<close> are 1 modulo it.\<close>

lemma scast_mod_max: "uint (scast (d :: u32) :: u64) mod 4294967295 = uint d mod 4294967295"
proof -
  have u: "uint (scast d :: u64) = sint d mod 18446744073709551616"
    unfolding scast_eq uint_word_of_int by (simp only: len_bit0 len_num1) simp
  have d: "0 \<le> uint d" "uint d < 4294967296" using uint_lt2p [of d] by simp_all
  have "sint d mod 18446744073709551616 = uint d \<or>
    sint d mod 18446744073709551616 = uint d + 4294967295 * 4294967296"
    using sint_cases [of d]
  proof
    assume "sint d = uint d"
    moreover have "uint d mod 18446744073709551616 = uint d"
      by (rule mod_pos_pos_trivial) (use d in linarith)+
    ultimately show ?thesis by (simp only:) blast
  next
    assume s: "sint d = uint d - 4294967296"
    have "sint d mod 18446744073709551616 = (sint d + 18446744073709551616) mod 18446744073709551616"
      by (simp only: mod_add_self2)
    also have "sint d + 18446744073709551616 = uint d + 4294967295 * 4294967296" using s by linarith
    also have "\<dots> mod 18446744073709551616 = uint d + 4294967295 * 4294967296"
      by (rule mod_pos_pos_trivial) (use d in linarith)+
    finally show ?thesis by (rule disjI2)
  qed
  moreover have "(uint d + 4294967295 * 4294967296) mod 4294967295 = uint d mod 4294967295"
    by (rule mod_mult_self2)
  ultimately show ?thesis unfolding u by (elim disjE) (simp_all only:)
qed

lemma hash_i64_uint: "uint (pointless_hash_i64_32 i) = uint i mod 4294967295"
proof -
  have "uint i mod 4294967295 < 4294967296"
    by (rule less_trans [OF pos_mod_bound]) simp_all
  moreover have "uint (i mod 4294967295) = uint i mod 4294967295" by (simp add: uint_mod)
  ultimately show ?thesis
    by (simp add: pointless_hash_i64_32_def unsigned_ucast_eq take_bit_eq_mod mod_pos_pos_trivial)
qed

lemma hash_int_key:
  assumes "int_key i x" and "pointless_is_hashable (v_type x)"
  shows "pointless_hash_i64_32 i = (if v_data x = UINT32_MAX then 0 else v_data x)"
proof -
  have "uint i mod 4294967295 = uint (v_data x) mod 4294967295"
    using hashable_integer [of "v_type x"] assms scast_mod_max
    by (auto simp: pointless_get_int_as_int64_def pointless_value_get_i32_def pointless_value_get_u32_def)
  then have "uint (pointless_hash_i64_32 i) = (if v_data x = UINT32_MAX then 0 else uint (v_data x))"
    by (simp add: hash_i64_uint uint_mod_max)
  then show ?thesis by (simp add: word_uint_eq_iff split: if_split)
qed

text \<open>The two integers that are keys with the data \<open>UINT32_MAX\<close>.\<close>

lemma int_key_max:
  assumes "int_key i x" and "pointless_is_hashable (v_type x)"
  shows "v_data x = UINT32_MAX \<longleftrightarrow> i = -1 \<or> i = 4294967295"
proof -
  have i: "v_type x = POINTLESS_I32 \<and> sint i = sint (v_data x) \<or>
      v_type x = POINTLESS_U32 \<and> sint i = uint (v_data x)"
    using hashable_integer [of "v_type x"] assms
    by (auto simp: pointless_get_int_as_int64_def pointless_value_get_i32_def
        pointless_value_get_u32_def sint_ucast_u64 sint_up_scast is_up)
  have m: "i = -1 \<longleftrightarrow> sint i = -1" "i = 4294967295 \<longleftrightarrow> sint i = 4294967295"
    using signed_word_eqI [of i "-1"] signed_word_eqI [of i 4294967295] by auto
  have d: "v_data x = UINT32_MAX \<longleftrightarrow> uint (v_data x) = 4294967295" by (simp add: word_uint_eq_iff)
  have "0 \<le> uint (v_data x)" "uint (v_data x) < 4294967296" "sint (v_data x) < 2147483648"
    using uint_lt2p [of "v_data x"] sint_lt [of "v_data x"] by simp_all
  then show ?thesis unfolding m d
    using i sint_cases [of "v_data x"] by (elim disjE conjE) arith+
qed

lemma int_key_test:
  assumes "int_key i x" and "pointless_is_hashable (v_type x)"
    and "int_key i y" and "pointless_is_hashable (v_type y)"
  shows "key_test p x (pointless_value_to_complete y) = Some (Inr True)"
proof -
  have key: "key_of 1 p (pointless_value_to_complete z) = Some (K_Int (sint i))"
    if "int_key i z" "pointless_is_hashable (v_type z)" for z
    using hashable_integer [of "v_type z"] that
    by (auto simp: pointless_get_int_as_int64_def pointless_value_get_i32_def int_value_def
        pointless_value_get_u32_def sint_ucast_u64 sint_up_scast is_up pointless_value_to_complete_def
        complete_data_u32_def ucast_up_ucast_id)
  from cmp_rec_key_eq [OF key [OF assms(1,2)] key [OF assms(3,4)], of 0 256]
  show ?thesis by (auto simp: key_test_def pointless_cmp_reader_def)
qed

lemma check_i64_decides: "check_i64 p x i = Some (int_key i x)"
  by (simp add: check_i64_def)

lemma int_search:
  assumes v: "table_valid fuel p n_items n hv kv"
    and loop: "probing_loop F (search_act (\<lambda>x. check_i64 p x i) (Some False) (\<lambda>_. Some True)
      (pointless_hash_i64_32 i) hv kv) (n - 1)"
  shows "F (pointless_hash_i64_32 i) (pointless_hash_i64_32 i) =
    Some (i \<noteq> -1 \<and> i \<noteq> 4294967295 \<and> (\<exists>b < unat n. used_slot kv b \<and> int_key i (kv ! b)))"
proof -
  let ?h = "pointless_hash_i64_32 i"
  have hashable: "pointless_is_hashable (v_type (kv ! b))" if "b < unat n" for b
    using v that by (simp add: table_valid_def)
  have hash: "hv ! b = v_data (kv ! b)" if "b < unat n" "int_key i (kv ! b)" for b
  proof -
    from table_hash [OF v that(1)] obtain g where "fuel = Suc g" by (cases fuel) simp_all
    with table_hash [OF v that(1)] hashable_integer [OF _ hashable [OF that(1)]] that(2) show ?thesis
      by (auto simp: pointless_hash_reader_func_32_def pointless_hash_int_32_def
          pointless_hash_i32_32_def pointless_hash_u32_32_def)
  qed
  show ?thesis
  proof (cases "i \<noteq> -1 \<and> i \<noteq> 4294967295 \<and> (\<exists>b < unat n. used_slot kv b \<and> int_key i (kv ! b))")
    case True
    then obtain b where b: "b < unat n" "used_slot kv b" "int_key i (kv ! b)"
      and i: "i \<noteq> -1" "i \<noteq> 4294967295" by blast
    have "hv ! b = ?h"
      using hash_int_key [OF b(3) hashable [OF b(1)]] int_key_max [OF b(3) hashable [OF b(1)]] i
        hash [OF b(1,3)] by simp
    have "F ?h ?h = Some True"
    proof (rule search_hit [OF v loop, where P = "int_key i"])
      show "check_i64 p (kv ! c) i = Some (int_key i (kv ! c))" for c by (rule check_i64_decides)
      show "key_test p (kv ! a) (pointless_value_to_complete (kv ! c)) = Some (Inr True)"
        if "a < unat n" "c < unat n" "int_key i (kv ! a)" "int_key i (kv ! c)" for a c
        by (rule int_key_test [OF that(3) hashable [OF that(1)] that(4) hashable [OF that(2)]])
    qed (fact b \<open>hv ! b = ?h\<close>)+
    with True show ?thesis by simp
  next
    case False
    have "F ?h ?h = Some False"
    proof (rule search_miss [OF v loop])
      fix b assume b: "b < unat n" "used_slot kv b" "hv ! b = ?h"
      have "\<not> int_key i (kv ! b)"
      proof
        assume k: "int_key i (kv ! b)"
        with False b have "i = -1 \<or> i = 4294967295" by blast
        with int_key_max [OF k hashable [OF b(1)]] hash_int_key [OF k hashable [OF b(1)]]
          hash [OF b(1) k] b(3) show False by simp
      qed
      then show "check_i64 p (kv ! b) i = Some False" by (simp only: check_i64_decides)
    qed
    with False show ?thesis by simp
  qed
qed

text \<open>The set of the integer -1.\<close>

definition int_set_image :: "u8 list" where
  "int_set_image =
     [17, 0, 0, 0, 0, 0, 0, 0, 0, 0, 0, 0, 2, 0, 0, 0, 0, 0, 0, 0, 1, 0, 0, 0,
      0, 0, 0, 0, 2, 0, 0, 0, 0, 0, 0, 0, 0, 0, 0, 0, 12, 0, 0, 0, 0, 0, 0, 0,
      32, 0, 0, 0, 0, 0, 0, 0, 2, 0, 0, 0, 0, 0, 0, 0, 255, 255, 255, 255,
      2, 0, 0, 0, 19, 0, 0, 0, 0, 0, 0, 0, 20, 0, 0, 0, 255, 255, 255, 255,
      1, 0, 0, 0, 0, 0, 0, 0, 7, 0, 0, 0, 0, 0, 0, 0, 1, 0, 0, 0, 1, 0, 0, 0]"

abbreviation (input) int_set_handle :: pointless_t where
  "int_set_handle \<equiv> init_handle int_set_image \<lparr>root = \<lparr>v_type = 17, v_data = 0\<rparr>,
     n_string_unicode = 0, n_vector = 2, n_bitvector = 0, n_set = 1, n_map = 0, version = 2\<rparr> 112"

lemma int_set_opens: "pointless_open_b 1 int_set_image = Some (Inr (int_set_handle, None))"
  by code_simp

lemma int_set_keys:
  "set_keys int_set_handle \<lparr>v_type = 17, v_data = 0\<rparr> = Some [\<lparr>v_type = 20, v_data = 4294967295\<rparr>]"
  by code_simp

lemma int_set_root: "pointless_root int_set_handle = \<lparr>v_type = 17, v_data = 0\<rparr>"
  by (simp add: pointless_root_def init_handle_def Let_def)

lemma int_set_size: "length int_set_image < 2 ^ 64"
  by (simp add: int_set_image_def)

lemmas int_set_facts =
  int_set_opens int_set_size reachable.root [of int_set_handle, unfolded int_set_root]

text \<open>
  C36 Membership of an integer in a set of an opened file: the function ends and answers whether an
  integer key has the value asked for, except for -1 and 4294967295, which it never finds.
\<close>

theorem int_membership_exact:
  assumes "pointless_open_b fuel buf = Some (Inr (p, warning))" and "length buf < 2 ^ 64"
    and "reachable p s" and "v_type s = POINTLESS_SET_VALUE" and "set_keys p s = Some ks"
  shows "pointless_is_int_in_set p s i =
    Some (i \<noteq> -1 \<and> i \<noteq> 4294967295 \<and> (\<exists>x \<in> set ks. int_key i x))"
proof -
  from opened_set [OF open_b_tables [OF assms(1-3)] assms(4)] obtain n hv kv where
    v: "valid_set fuel p s n hv kv" by blast
  then obtain n_items where valid: "table_valid fuel p n_items n hv kv" by (rule valid_setE)
  have "(\<exists>x \<in> set ks. int_key i x) \<longleftrightarrow> (\<exists>b < unat n. used_slot kv b \<and> int_key i (kv ! b))"
    using assms(5) set_keys_at [OF v] by auto
  with int_search [OF valid get_set_probing [OF v]] show ?thesis
    by (simp only: pointless_is_int_in_set_def get_set_search [OF v])
qed

theorem int_membership_exact_witness:
  "pointless_is_int_in_set int_set_handle \<lparr>v_type = 17, v_data = 0\<rparr> (-1) = Some False \<and>
   int_key (-1) \<lparr>v_type = 20, v_data = 4294967295\<rparr>"
  using int_membership_exact [OF int_set_facts _ int_set_keys, of "-1"]
  by (simp add: pointless_is_integer_type_def pointless_get_int_as_int64_def pointless_value_get_i32_def)

end
