(* ===== verification/Path_Laws.thy ===== *)
theory Path_Laws
  imports Path_Eval Int_Keys
begin

text \<open>
  Evaluating the text of an access path is following its steps: a step selects an item of a vector, a bit
  of a bitvector, or the value of a map under an integer or a string.
\<close>

unbundle bit_operations_syntax

section \<open>Paths and their text\<close>

datatype path_step = At nat | Key "u8 list"

fun decimal :: "nat \<Rightarrow> u8 list" where
  "decimal n = (if n < 10 then [of_nat (48 + n)] else decimal (n div 10) @ [of_nat (48 + n mod 10)])"

declare decimal.simps [simp del]

fun step_text :: "path_step \<Rightarrow> u8 list" where
  "step_text (At n) = 91 # decimal n @ [93]"
| "step_text (Key k) = 91 # 39 # k @ [39, 93]"

definition path_text :: "path_step list \<Rightarrow> u8 list" where
  "path_text path = concat (map step_text path) @ [0]"

text \<open>Numbers of 64 bits, and keys that need no quoting and are not empty.\<close>

fun plain_step :: "path_step \<Rightarrow> bool" where
  "plain_step (At n) \<longleftrightarrow> n < 2 ^ 64"
| "plain_step (Key k) \<longleftrightarrow> k \<noteq> [] \<and> 0 \<notin> set k \<and> 39 \<notin> set k \<and> length k < 2 ^ 64"

text \<open>What a step selects, in terms of the reader.\<close>

fun select :: "pointless_t \<Rightarrow> pointless_value_t \<Rightarrow> path_step \<Rightarrow> pointless_value_t option option" where
  "select p v (At n) =
     (if pointless_is_vector_type (v_type v) then do {
        n_items \<leftarrow> pointless_reader_vector_n_items p v;
        if n < unat n_items
        then map_option (Some \<circ> pointless_value_from_complete)
               (pointless_reader_vector_value_case p v (of_nat n))
        else Some None }
      else if pointless_is_bitvector_type (v_type v) then do {
        n_bits \<leftarrow> pointless_reader_bitvector_n_bits p v;
        if n < unat n_bits
        then map_option (\<lambda>b. Some (if b \<noteq> 0 then pointless_value_create_as_read_bool_true
                                   else pointless_value_create_as_read_bool_false))
               (pointless_reader_bitvector_is_set p v (of_nat n))
        else Some None }
      else if v_type v = POINTLESS_MAP_VALUE_VALUE \<and> n < 2 ^ 63
      then pointless_get_mapping_int_to_value p v (of_nat n)
      else Some None)"
| "select p v (Key k) =
     (if v_type v = POINTLESS_MAP_VALUE_VALUE
      then pointless_get_mapping_string_to_value p v (k @ [0])
      else Some None)"

fun follow :: "pointless_t \<Rightarrow> pointless_value_t \<Rightarrow> path_step list \<Rightarrow> (bool \<times> pointless_value_t) option" where
  "follow p v [] = Some (True, v)"
| "follow p v (s # path) =
     do { r \<leftarrow> select p v s;
          (case r of None \<Rightarrow> Some (False, v) | Some w \<Rightarrow> follow p w path) }"

section \<open>Numbers\<close>

lemma digit_char:
  assumes "d < 10"
  shows "is_digit (of_nat (48 + d))" and "uint (of_nat (48 + d) - 48 :: u8) = int d"
proof -
  have "d \<in> set [0..<10]" using assms by simp
  then show "is_digit (of_nat (48 + d))" and "uint (of_nat (48 + d) - 48 :: u8) = int d"
    by (auto simp: upt_rec is_digit_def)
qed

lemma digits_value_append:
  "digits_value (xs @ ys) acc = digits_value ys (digits_value xs acc)"
  by (induction xs arbitrary: acc) simp_all

lemma decimal_digits: "list_all is_digit (decimal n)" and decimal_nonempty: "decimal n \<noteq> []"
  and decimal_value: "digits_value (decimal n) 0 = int n"
proof (induction n rule: decimal.induct)
  case (1 n)
  {
    case 1
    from "1.IH"(1) show ?case
      by (subst decimal.simps) (use digit_char(1) in \<open>auto\<close>)
  next
    case 2
    show ?case by (subst decimal.simps) simp
  next
    case 3
    show ?case
    proof (cases "n < 10")
      case True
      then show ?thesis using digit_char(2) [OF True] by (subst decimal.simps) simp
    next
      case False
      have "int n = 10 * int (n div 10) + int (n mod 10)" by presburger
      with "1.IH"(3) [OF False] digit_char(2) [of "n mod 10"] False show ?thesis
        by (subst decimal.simps) (simp add: digits_value_append)
    qed
  }
qed

lemma digit_not:
  assumes "is_digit c"
  shows "c \<noteq> 39" and "c \<noteq> 45" and "c \<noteq> 43" and "c \<noteq> 37"
  using assms by (auto simp: is_digit_def)

lemma index_number:
  assumes "n < 2 ^ 64"
  shows "eval_index_at (decimal n @ 93 # rest) ap =
    Some (Some (ix_init\<lparr>ix_u := of_nat n, ix_unsigned := True\<rparr>, 93 # rest, ap))"
proof -
  obtain c cs where c: "decimal n = c # cs" using decimal_nonempty [of n] by (cases "decimal n") auto
  then have d: "is_digit c" using decimal_digits [of n] by simp
  have "\<not> is_digit 93" by (simp add: is_digit_def)
  then have "takeWhile is_digit (decimal n @ 93 # rest) = decimal n"
    "dropWhile is_digit (decimal n @ 93 # rest) = 93 # rest"
    using decimal_digits [of n] by (simp_all add: list_all_iff)
  moreover have "int n < 2 ^ 64" using assms by (metis of_nat_less_iff of_nat_numeral of_nat_power)
  then have "parse_number (decimal n) = Some (of_nat n)"
    by (simp add: parse_number_def decimal_value)
  ultimately have "eval_parse_number (decimal n @ 93 # rest) = Some (Some (of_nat n, 93 # rest))"
    by (simp add: eval_parse_number_def)
  moreover have "arr_get (decimal n @ 93 # rest) 0 = Some c" by (simp add: c)
  ultimately show ?thesis using d digit_not [OF d] by (simp add: eval_index_at_def)
qed

section \<open>Quoted keys\<close>

lemma quoted_loop_key:
  assumes "0 \<notin> set k" and "39 \<notin> set k"
  shows "quoted_loop (k @ 39 # rest) i = Some (i + of_nat (length k), 39 # rest)"
  using assms by (induction k arbitrary: i) auto

lemma index_key:
  assumes "0 \<notin> set k" and "39 \<notin> set k"
  shows "eval_index_at (39 # k @ 39 # 93 # rest) ap =
    Some (Some (ix_init\<lparr>ix_s := Some (k @ 39 # 93 # rest), ix_s_n := of_nat (length k)\<rparr>, 93 # rest, ap))"
  by (simp add: eval_index_at_def quoted_loop_key [OF assms])

lemma unat_of_nat_u64: "n < 2 ^ 64 \<Longrightarrow> unat (of_nat n :: u64) = n"
  by (simp add: unat_of_nat)

lemma hash_n_loop_key:
  assumes "0 \<notin> set k" and "unat i + length k < 2 ^ 64"
  shows "string_hash_n_loop (k @ rest) x i (i + of_nat (length k)) = string_hash_loop (k @ [0]) x i"
  using assms
proof (induction k arbitrary: x i)
  case Nil
  then show ?case by (cases rest) simp_all
next
  case (Cons c k)
  have "unat (of_nat (length (c # k)) :: u64) = length (c # k)"
    using Cons.prems(2) by (intro unat_of_nat_u64) simp
  then have l: "unat (i + of_nat (length (c # k)) :: u64) = unat i + length (c # k)"
    using Cons.prems(2) by (subst unat_add_lem [THEN iffD1]) simp_all
  then have "i < i + of_nat (length (c # k))" by (simp only: word_less_nat_alt) simp
  moreover have "unat (i + 1) = unat i + 1"
    using Cons.prems(2) by (subst unat_add_lem [THEN iffD1]) simp_all
  then have "unat (i + 1) + length k < 2 ^ 64" using Cons.prems(2) by simp
  moreover have "i + of_nat (length (c # k)) = (i + 1) + of_nat (length k)" by simp
  ultimately show ?case using Cons.prems(1) Cons.IH [of "i + 1"] by (simp add: add.assoc)
qed

lemma hash_key:
  assumes "k \<noteq> []" and "0 \<notin> set k" and "length k < 2 ^ 64"
  shows "pointless_hash_string_v1_32_n (k @ rest) (of_nat (length k)) = pointless_hash_string_v1_32 (k @ [0])"
  using hash_n_loop_key [of k 0 rest] assms
  by (cases k) (simp_all add: pointless_hash_string_v1_32_n_def pointless_hash_string_v1_32_def
      python_string_hash_32_def)

lemma cmp_string_n_key:
  fixes a :: "'a::len word list" and k :: "u8 list"
  assumes "LENGTH('a) \<le> 32" and "0 \<notin> set k" and "unat i + length k < 2 ^ 64"
  shows "map_option (\<lambda>c. c = 0) (cmp_string_n a (k @ rest) i (i + of_nat (length k))) =
    map_option (\<lambda>c. c = 0) (cmp_string a (k @ [0]))"
  using assms(2,3)
proof (induction a arbitrary: k i)
  case (Cons x a)
  note zero = ucast_eq_0_up [OF assms(1), of x]
  show ?case
  proof (cases k)
    case Nil
    then show ?thesis using zero by auto
  next
    case k: (Cons c k')
    have "unat (of_nat (length k) :: u64) = length k"
      using Cons.prems(2) by (intro unat_of_nat_u64) simp
    then have "unat (i + of_nat (length k) :: u64) = unat i + length k"
      using Cons.prems(2) by (subst unat_add_lem [THEN iffD1]) simp_all
    then have l: "i < i + of_nat (length k)" using k by (simp only: word_less_nat_alt) simp
    have "unat (i + 1) = unat i + 1"
      using Cons.prems(2) k by (subst unat_add_lem [THEN iffD1]) simp_all
    then have s: "unat (i + 1) + length k' < 2 ^ 64" using Cons.prems(2) k by simp
    have n: "i + of_nat (length k) = (i + 1) + of_nat (length k')" using k by simp
    have c: "c \<noteq> 0" "0 \<notin> set k'" "(ucast c :: u32) \<noteq> 0"
      using Cons.prems(1) k ucast_eq_0_up [of c] by auto
    from Cons.IH [OF c(2) s] l c zero show ?thesis by (auto simp: k n add.assoc)
  qed
qed simp

lemma check_string_n_key:
  assumes "0 \<notin> set k" and "length k < 2 ^ 64"
  shows "check_string_n p v \<lparr>csn_s = k @ rest, csn_n = of_nat (length k)\<rparr> = check_string p v (k @ [0])"
proof -
  have m: "do { c \<leftarrow> r; Some (c = (0 :: int)) } = map_option (\<lambda>c. c = 0) r" for r
    by (cases r) simp_all
  from cmp_string_n_key [where 'a = 8, of k 0 _ rest] cmp_string_n_key [where 'a = 32, of k 0 _ rest]
  show ?thesis using assms
    by (simp add: check_string_n_def check_string_def m pointless_cmp_string_32_8_n_def
        pointless_cmp_string_8_8_n_def pointless_cmp_string_32_8_def pointless_cmp_string_8_8_def)
qed

lemma get_string_n:
  assumes "plain_step (Key k)"
  shows "pointless_get_mapping_string_n_to_value p v (k @ rest) (of_nat (length k)) =
    pointless_get_mapping_string_to_value p v (k @ [0])"
  using assms by (simp add: pointless_get_mapping_string_n_to_value_def
      pointless_get_mapping_string_to_value_def hash_key check_string_n_key)

section \<open>Evaluation\<close>

text \<open>The index of a step, as the parser builds it.\<close>

fun step_index :: "path_step \<Rightarrow> u8 list \<Rightarrow> eval_index" where
  "step_index (At n) rest = ix_init\<lparr>ix_u := of_nat n, ix_unsigned := True\<rparr>"
| "step_index (Key k) rest = ix_init\<lparr>ix_s := Some (k @ 39 # 93 # rest), ix_s_n := of_nat (length k)\<rparr>"

fun step_inner :: "path_step \<Rightarrow> u8 list" where
  "step_inner (At n) = decimal n"
| "step_inner (Key k) = 39 # k @ [39]"

lemma step_text_inner: "step_text s = 91 # step_inner s @ [93]"
  by (cases s) simp_all

lemma index_step:
  "plain_step s \<Longrightarrow> eval_index_at (step_inner s @ 93 # rest) ap = Some (Some (step_index s rest, 93 # rest, ap))"
  by (cases s) (simp_all add: index_number index_key)

lemma at_bound: "n < 2 ^ 64 \<Longrightarrow> ucast (m :: u32) \<le> (of_nat n :: u64) \<longleftrightarrow> unat m \<le> n"
  by (simp add: word_le_nat_alt unat_of_nat_u64 unat_ucast_up)

lemma ucast_of_nat_64_32: "(ucast (of_nat n :: u64) :: u32) = of_nat n"
  by (simp add: word_unat_eq_iff unsigned_ucast_eq unat_of_nat take_bit_nat_eq_self_iff take_bit_eq_mod
      mod_mod_cancel)

lemma apply_step:
  assumes "plain_step s"
  shows "eval_apply p v (step_index s rest) = select p v s"
proof (cases s)
  case (Key k)
  with assms get_string_n [of k p v "39 # 93 # rest"] show ?thesis
    by (auto simp: eval_apply_def ix_init_def pointless_is_vector_type_def pointless_is_bitvector_type_def)
next
  case (At n)
  then have n: "n < 2 ^ 64" using assms by simp
  note bound = at_bound [OF n]
  have i: "9223372036854775807 < uint (of_nat n :: u64) \<longleftrightarrow> \<not> n < 2 ^ 63"
  proof -
    have "uint (of_nat n :: u64) = int n" using unat_of_nat_u64 [OF n] by (simp add: uint_nat)
    then show ?thesis by auto
  qed
  consider (vector) "pointless_is_vector_type (v_type v)"
    | (bits) "\<not> pointless_is_vector_type (v_type v)" "pointless_is_bitvector_type (v_type v)"
    | (other) "\<not> pointless_is_vector_type (v_type v)" "\<not> pointless_is_bitvector_type (v_type v)"
    by blast
  then show ?thesis
  proof cases
    case vector
    then show ?thesis unfolding At
      by (cases "pointless_reader_vector_n_items p v";
          cases "pointless_reader_vector_value_case p v (of_nat n)")
        (simp_all add: eval_apply_def ix_init_def bound ucast_of_nat_64_32)
  next
    case bits
    then show ?thesis unfolding At
      by (cases "pointless_reader_bitvector_n_bits p v";
          cases "pointless_reader_bitvector_is_set p v (of_nat n)")
        (simp_all add: eval_apply_def ix_init_def bound ucast_of_nat_64_32)
  next
    case other
    then show ?thesis unfolding At by (simp add: eval_apply_def ix_init_def i)
  qed
qed

lemma path_text_head: "\<exists>c cs. path_text path = c # cs \<and> \<not> isspace c \<and> (c = 0 \<longleftrightarrow> path = [])"
  by (cases path) (simp_all add: path_text_def step_text_inner isspace_def)

lemma path_text_Cons: "path_text (s # path) = 91 # step_inner s @ 93 # path_text path"
  by (simp add: path_text_def step_text_inner)

lemma skip_path [simp]: "skip_whitespace (path_text path) = Some (path_text path)"
  using path_text_head [of path] by auto

lemma single_step:
  assumes "plain_step s"
  shows "pointless_eval_get_single p v (path_text (s # path)) ap =
    map_option (\<lambda>r. case r of None \<Rightarrow> (None, v, ap) | Some w \<Rightarrow> (Some (path_text path), w, ap)) (select p v s)"
proof -
  have "\<not> isspace 91" "\<not> isspace 93" by (simp_all add: isspace_def)
  then show ?thesis
    using index_step [OF assms, of "path_text path" ap] apply_step [OF assms, of p v "path_text path"]
    by (cases "select p v s")
      (simp_all add: pointless_eval_get_single_def path_text_Cons split: option.split)
qed

lemma eval_follows:
  assumes "list_all plain_step path"
  shows "eval_get_loop p v (path_text path) ap = follow p v path"
  using assms
proof (induction path arbitrary: v)
  case Nil
  show ?case by (subst eval_get_loop.simps) (simp add: path_text_def)
next
  case (Cons s path)
  have c: "arr_get (path_text (s # path)) 0 = Some 91" by (simp add: path_text_Cons)
  from Cons have "plain_step s" by simp
  from single_step [OF this, of p v path ap] c Cons show ?case
    by (subst eval_get_loop.simps, cases "select p v s") (simp_all split: option.split)
qed

text \<open>
  C37 Evaluating the text of a path is following its steps, for paths of 64-bit numbers and non-empty
  keys without quotes: a number selects the item of a vector, the bit of a bitvector, or the value under
  that integer in a map, a key the value under that string, and the function returns 1 exactly when
  every step selects something.
\<close>

theorem path_evaluation_follows:
  assumes "list_all plain_step path"
  shows "pointless_eval_get p v (path_text path) ap = follow p v path"
  unfolding pointless_eval_get_def by (rule eval_follows [OF assms])

theorem path_evaluation_follows_witness:
  "pointless_eval_get string_map_handle \<lparr>v_type = 18, v_data = 0\<rparr> [91, 39, 97, 39, 93, 0] [] =
     Some (True, \<lparr>v_type = 24, v_data = 0\<rparr>)"
proof -
  have "follow string_map_handle \<lparr>v_type = 18, v_data = 0\<rparr> [Key [97]] = Some (True, \<lparr>v_type = 24, v_data = 0\<rparr>)"
    by code_simp
  then show ?thesis
    using path_evaluation_follows [of "[Key [97]]" string_map_handle "\<lparr>v_type = 18, v_data = 0\<rparr>" "[]"]
    by (simp add: path_text_def)
qed

text \<open>A signed number is never accepted: \<open>-\<close> and \<open>+\<close> leave the switch before the number is read.\<close>

theorem signed_index_rejected:
  assumes "c = 45 \<or> c = 43" and "pointless_eval_get p v (91 # c # rest) ap = Some (r, w)"
  shows "\<not> r"
proof -
  have "arr_get (91 # c # rest) 0 = Some 91" by simp
  with assms(2) obtain e w' ap' where
    s: "pointless_eval_get_single p v (91 # c # rest) ap = Some (e, w', ap')"
    and l: "(case e of None \<Rightarrow> Some (False, w') | Some e \<Rightarrow> eval_get_loop p w' e ap') = Some (r, w)"
    by (auto simp: pointless_eval_get_def eval_get_loop.simps [of p v "91 # c # rest"]
        elim!: bind_eq_Some_E)
  have "e = None"
  proof (rule ccontr)
    assume "e \<noteq> None"
    with s obtain ix e1 ap1 e2 where i: "eval_index_at (c # rest) ap = Some (Some (ix, e1, ap1))"
      and k: "skip_whitespace e1 = Some e2" "arr_get e2 0 = Some 93"
      by (auto simp: pointless_eval_get_single_def isspace_def elim!: bind_eq_Some_E
          split: option.split_asm if_split_asm)
    have "\<exists>d. arr_get e1 0 = Some d \<and> (d = 45 \<or> is_digit d)"
      using assms(1) i by (auto simp: eval_index_at_def is_digit_def elim!: bind_eq_Some_E split: if_split_asm)
    then obtain d where d: "arr_get e1 0 = Some d" "d = 45 \<or> is_digit d" by blast
    then have "\<not> isspace d" by (auto simp: isspace_def is_digit_def word_le_nat_alt)
    moreover obtain e' where "e1 = d # e'" using d(1) by (cases e1) (auto simp: arr_get_def split: if_split_asm)
    ultimately have "e2 = d # e'" using k(1) by simp
    with k(2) d(2) show False by (auto simp: is_digit_def)
  qed
  with l show ?thesis by simp
qed

text \<open>The empty key in quotes is hashed with the byte of the quote, so it is not found.\<close>

lemma empty_key_hash:
  "pointless_hash_string_v1_32_n (39 # rest) 0 = Some 4992"
  "pointless_hash_string_v1_32 [0] = Some 0"
  by (simp_all add: pointless_hash_string_v1_32_n_def pointless_hash_string_v1_32_def python_string_hash_32_def)

end
