(* ===== verification/Create_Total.thy ===== *)
theory Create_Total
  imports Create_Later Strings_Laws
begin

text \<open>
  The calls of a creation return: on a well-formed state with room for the values they add, every
  function answers a handle that names a value, and the state stays well-formed.
\<close>

section \<open>Handles name values\<close>

text \<open>The handle names a value with the type and data of the given one.\<close>

definition named :: "pointless_create_t \<Rightarrow> pointless_create_value_t \<Rightarrow> u32 \<Rightarrow> bool" where
  "named c x h \<longleftrightarrow> (\<exists>y. cv_value_at c h = Some y \<and> value_id y = value_id x)"

text \<open>What the cache answers names the value that was asked for.\<close>

definition cache_ok :: "pointless_create_t \<Rightarrow> pointless_create_cache_t \<Rightarrow> bool" where
  "cache_ok c k \<longleftrightarrow> cache_wf k \<and> cc_init k = POINTLESS_CREATE_VALUE_FAIL \<and>
     (\<forall>v h. pointless_create_cache_get_i32 k v = Some h \<longrightarrow> h \<noteq> POINTLESS_CREATE_VALUE_FAIL \<longrightarrow>
        named c (pointless_value_create_i32 v) h) \<and>
     (\<forall>v h. pointless_create_cache_get_u32 k v = Some h \<longrightarrow> h \<noteq> POINTLESS_CREATE_VALUE_FAIL \<longrightarrow>
        named c (pointless_value_create_u32 v) h) \<and>
     (\<forall>(x, h) \<in> {(pointless_value_create_null, null_handle k),
                 (pointless_value_create_empty_slot, empty_slot_handle k),
                 (pointless_value_create_bool_true, true_handle k),
                 (pointless_value_create_bool_false, false_handle k)}.
        h \<noteq> POINTLESS_CREATE_VALUE_FAIL \<longrightarrow> named c x h)"

text \<open>The dictionary of bitvectors names bitvectors with the bytes it was asked for.\<close>

definition bitvectors_ok :: "pointless_create_t \<Rightarrow> bool" where
  "bitvectors_ok c \<longleftrightarrow>
     (\<forall>b r. bitvector_map_judy c b = Some r \<longrightarrow>
        (\<exists>x. cv_value_at c (ucast r) = Some x \<and> type_29 (cr_header x) = POINTLESS_BITVECTOR \<and>
             arr_get (bitvector_values c) (unat (cr_data x)) = Some b))"

definition handles_ok :: "pointless_create_t \<Rightarrow> bool" where
  "handles_ok c \<longleftrightarrow> cache_ok c (c_cache c) \<and> bitvectors_ok c"

text \<open>A state calls can go on from.\<close>

definition ready :: "pointless_create_t \<Rightarrow> bool" where
  "ready c \<longleftrightarrow> create_wf c \<and> dictionary_ok c \<and> handles_ok c \<and> length (c_values c) < 2 ^ 32 - 4"

definition grown :: "nat \<Rightarrow> pointless_create_t \<Rightarrow> pointless_create_t \<Rightarrow> bool" where
  "grown n c c' \<longleftrightarrow> ready c' \<and> later c c' \<and> length (c_values c) \<le> length (c_values c') \<and>
     length (c_values c') \<le> length (c_values c) + n"

definition handle_of :: "pointless_create_t \<Rightarrow> u32 \<Rightarrow> bool" where
  "handle_of c h \<longleftrightarrow> unat h < length (c_values c)"

definition gives :: "nat \<Rightarrow> pointless_create_t \<Rightarrow> (u32 \<times> pointless_create_t) option \<Rightarrow> bool" where
  "gives n c r \<longleftrightarrow> (\<exists>h c'. r = Some (h, c') \<and> grown n c c' \<and> handle_of c' h)"

lemma handle_not_fail: "ready c \<Longrightarrow> handle_of c h \<Longrightarrow> h \<noteq> POINTLESS_CREATE_VALUE_FAIL"
  by (auto simp: ready_def handle_of_def)

lemma handle_later: "grown n c c' \<Longrightarrow> handle_of c h \<Longrightarrow> handle_of c' h"
  by (simp add: grown_def handle_of_def)

lemma grown_refl: "ready c \<Longrightarrow> grown n c c"
  by (simp add: grown_def)

lemma grown_trans: "grown m c1 c2 \<Longrightarrow> grown n c2 c3 \<Longrightarrow> grown (m + n) c1 c3"
  unfolding grown_def using later_trans by auto

lemma grown_mono: "grown m c c' \<Longrightarrow> m \<le> n \<Longrightarrow> grown n c c'"
  by (simp add: grown_def)

lemma grownI:
  assumes "ready c" and "effect c c'" and "create_wf c'" and "handles_ok c'"
    and "length (c_values c) \<le> length (c_values c')" and "length (c_values c') \<le> length (c_values c) + n"
    and "length (c_values c) + n < 2 ^ 32 - 4"
  shows "grown n c c'"
proof -
  have "dictionary_ok c'"
    using assms(1) by (intro dictionary_step [OF assms(2)]) (simp_all add: ready_def)
  then show ?thesis using assms effect_later [OF assms(2)] by (simp add: grown_def ready_def)
qed

lemma ready_begin: "ready pointless_create_begin_64"
proof -
  let ?k = "pointless_create_cache_init POINTLESS_CREATE_VALUE_FAIL"
  have "h = POINTLESS_CREATE_VALUE_FAIL" if "pointless_create_cache_get_i32 ?k v = Some h" for v h
    using that i32s.get_init [of POINTLESS_CREATE_VALUE_FAIL v] by simp
  moreover have "h = POINTLESS_CREATE_VALUE_FAIL" if "pointless_create_cache_get_u32 ?k v = Some h" for v h
    using that u32s.get_init [of POINTLESS_CREATE_VALUE_FAIL v] by simp
  moreover have "cache_wf ?k" "cc_init ?k = POINTLESS_CREATE_VALUE_FAIL"
    by (simp_all add: cache_wf_def pointless_create_cache_init_def)
  ultimately have "cache_ok c ?k" for c
    unfolding cache_ok_def by (auto simp: pointless_create_cache_init_def)
  then have "handles_ok pointless_create_begin_64"
    by (simp add: handles_ok_def bitvectors_ok_def pointless_create_begin_64_def create_begin_def)
  moreover have "create_wf pointless_create_begin_64" "dictionary_ok pointless_create_begin_64"
    by (rule wf_of_creation [OF creation.begin_64] creation_dictionary [OF creation.begin_64])+
  ultimately show ?thesis by (simp add: ready_def pointless_create_begin_64_def create_begin_def)
qed

text \<open>Later states.\<close>

lemma named_later: "later c c' \<Longrightarrow> named c x h \<Longrightarrow> named c' x h"
  unfolding named_def using later_value by metis

lemma named_handle: "named c x h \<Longrightarrow> handle_of c h"
  by (auto simp: named_def handle_of_def cv_value_at_def arr_get_Some_iff)

lemma named_pushed:
  "push_value c x = (h, c1) \<Longrightarrow> c_values c' = c_values c1 \<Longrightarrow> length (c_values c) < 2 ^ 32 \<Longrightarrow> named c' x h"
  by (auto simp: push_value_def named_def cv_value_at_def unat_of_nat)

lemma cache_later: "later c c' \<Longrightarrow> cache_ok c k \<Longrightarrow> cache_ok c' k"
  unfolding cache_ok_def using named_later [of c c'] by blast

lemma bitvectors_later:
  assumes "later c c'" and "bitvectors_ok c" and "bitvector_map_judy c b = Some r"
  shows "\<exists>x. cv_value_at c' (ucast r) = Some x \<and> type_29 (cr_header x) = POINTLESS_BITVECTOR \<and>
    arr_get (bitvector_values c') (unat (cr_data x)) = Some b"
proof -
  from assms(2,3) obtain x where x: "cv_value_at c (ucast r) = Some x" "type_29 (cr_header x) = POINTLESS_BITVECTOR"
    "arr_get (bitvector_values c) (unat (cr_data x)) = Some b" unfolding bitvectors_ok_def by blast
  from later_value [OF assms(1) x(1)] obtain x' where
    x': "cv_value_at c' (ucast r) = Some x'" "value_id x' = value_id x" by blast
  moreover have "arr_get (bitvector_values c') (unat (cr_data x)) = Some b"
    using later_entry [OF _ x(3)] assms(1) by (simp add: later_def)
  ultimately show ?thesis using x(2) by (auto simp: value_id_def)
qed

lemma handles_later:
  assumes "handles_ok c" and "later c c'" and "c_cache c' = c_cache c" and "bitvector_map_judy c' = bitvector_map_judy c"
  shows "handles_ok c'"
  using assms cache_later [OF assms(2)] bitvectors_later [OF assms(2)]
  by (auto simp: handles_ok_def) (simp add: bitvectors_ok_def)

section \<open>The cache\<close>

lemma cached_i32:
  assumes k: "cache_ok c k" and upd: "pointless_create_cache_set_i32 k v h = Some k'"
    and h: "named c (pointless_value_create_i32 v) h"
  shows "cache_ok c k'"
proof -
  have wf: "cache_wf k" using k by (simp add: cache_ok_def)
  note get = i32s.get_upd [OF wf upd]
  have same: "u32_cache k' = u32_cache k" "null_handle k' = null_handle k" "empty_slot_handle k' = empty_slot_handle k"
    "true_handle k' = true_handle k" "false_handle k' = false_handle k" "cc_init k' = cc_init k"
    using upd by (auto simp: pointless_create_cache_set_i32_def split: if_split_asm elim!: bind_eq_Some_E)
  then have u: "pointless_create_cache_get_u32 k' w = pointless_create_cache_get_u32 k w" for w
    by (simp add: pointless_create_cache_get_u32_def)
  obtain k2 where "pointless_create_cache_set_i32 k v h = Some k2" "cache_wf k2" using i32s.upd_total [OF wf] by blast
  then have "cache_wf k'" using upd by simp
  then show ?thesis using k h unfolding cache_ok_def same u get by auto
qed

lemma cached_u32:
  assumes k: "cache_ok c k" and upd: "pointless_create_cache_set_u32 k v h = Some k'"
    and h: "named c (pointless_value_create_u32 v) h"
  shows "cache_ok c k'"
proof -
  have wf: "cache_wf k" using k by (simp add: cache_ok_def)
  note get = u32s.get_upd [OF wf upd]
  have same: "i32_cache k' = i32_cache k" "null_handle k' = null_handle k" "empty_slot_handle k' = empty_slot_handle k"
    "true_handle k' = true_handle k" "false_handle k' = false_handle k" "cc_init k' = cc_init k"
    using upd by (auto simp: pointless_create_cache_set_u32_def split: if_split_asm elim!: bind_eq_Some_E)
  then have i: "pointless_create_cache_get_i32 k' w = pointless_create_cache_get_i32 k w" for w
    by (simp add: pointless_create_cache_get_i32_def)
  obtain k2 where "pointless_create_cache_set_u32 k v h = Some k2" "cache_wf k2" using u32s.upd_total [OF wf] by blast
  then have "cache_wf k'" using upd by simp
  then show ?thesis using k h unfolding cache_ok_def same i get by auto
qed

text \<open>Answering a cached handle, and adding a value whose handle is cached.\<close>

lemma gives_cached:
  assumes "ready c" and "named c x h"
  shows "gives n c (Some (h, c))"
  using named_handle [OF assms(2)] grown_refl [OF assms(1)] by (auto simp: gives_def)

lemma gives_pushed:
  assumes rd: "ready c" and len: "length (c_values c) + 1 < 2 ^ 32 - 4"
    and push: "push_value c x = (h, c1)" and c': "c' = c1\<lparr>c_cache := k\<rparr>"
    and ef: "effect c c'" and wf: "create_wf c'"
    and k: "cache_ok c' (c_cache c) \<Longrightarrow> named c' x h \<Longrightarrow> cache_ok c' k"
  shows "gives 1 c (Some (h, c'))"
proof -
  have h: "unat h = length (c_values c)" and vs: "c_values c' = c_values c @ [x]"
    and b: "bitvector_map_judy c' = bitvector_map_judy c" "c_cache c' = k"
    using push len by (auto simp: push_value_def c' unat_of_nat)
  have ok: "handles_ok c" using rd by (simp add: ready_def)
  have n: "named c' x h" by (rule named_pushed [OF push]) (use len in \<open>simp_all add: c'\<close>)
  have l: "later c c'" by (rule effect_later [OF ef])
  have "cache_ok c' k" using ok by (intro k n cache_later [OF l]) (simp add: handles_ok_def)
  moreover have "bitvectors_ok c'"
    using bitvectors_later [OF l] ok b(1) by (simp add: handles_ok_def) (simp add: bitvectors_ok_def)
  ultimately have "handles_ok c'" by (simp add: handles_ok_def b(2))
  then have "grown 1 c c'" using vs len by (intro grownI [OF rd ef wf]) simp_all
  then show ?thesis using h vs by (auto simp: gives_def handle_of_def)
qed

lemma gives_i32:
  assumes "ready c" and "length (c_values c) + 1 < 2 ^ 32 - 4"
  shows "gives 1 c (pointless_create_i32 c v)"
proof -
  have ok: "cache_ok c (c_cache c)" using assms(1) by (simp add: ready_def handles_ok_def)
  then have k: "cache_wf (c_cache c)" by (simp add: cache_ok_def)
  from i32s.get_total [OF k] obtain h where h: "pointless_create_cache_get_i32 (c_cache c) v = Some h" by blast
  show ?thesis
  proof (cases "h = POINTLESS_CREATE_VALUE_FAIL")
    case False
    then have "pointless_create_i32 c v = Some (h, c)" by (simp add: pointless_create_i32_def h)
    moreover have "named c (pointless_value_create_i32 v) h" using ok h False unfolding cache_ok_def by blast
    ultimately show ?thesis using gives_cached [OF assms(1)] by simp
  next
    case True
    obtain g c1 where g: "push_value c (pointless_value_create_i32 v) = (g, c1)" by fastforce
    have "c_cache c1 = c_cache c" using g by (auto simp: push_value_def)
    with i32s.upd_total [OF k, of v g] obtain k' where
      k': "pointless_create_cache_set_i32 (c_cache c) v g = Some k'" "pointless_create_cache_set_i32 (c_cache c1) v g = Some k'"
      by metis
    have r: "pointless_create_i32 c v = Some (g, c1\<lparr>c_cache := k'\<rparr>)"
      using h True g k'(2) by (simp add: pointless_create_i32_def pointless_create_i32_priv_def)
    have "create_wf (c1\<lparr>c_cache := k'\<rparr>)" using wf_i32 [OF _ r] assms(1) by (simp add: ready_def)
    from gives_pushed [OF assms g refl effect_inlines(1) [OF r] this cached_i32 [OF _ k'(1)]] show ?thesis by (simp add: r)
  qed
qed

lemma gives_u32:
  assumes "ready c" and "length (c_values c) + 1 < 2 ^ 32 - 4"
  shows "gives 1 c (pointless_create_u32 c v)"
proof -
  have ok: "cache_ok c (c_cache c)" using assms(1) by (simp add: ready_def handles_ok_def)
  then have k: "cache_wf (c_cache c)" by (simp add: cache_ok_def)
  from u32s.get_total [OF k] obtain h where h: "pointless_create_cache_get_u32 (c_cache c) v = Some h" by blast
  show ?thesis
  proof (cases "h = POINTLESS_CREATE_VALUE_FAIL")
    case False
    then have "pointless_create_u32 c v = Some (h, c)" by (simp add: pointless_create_u32_def h)
    moreover have "named c (pointless_value_create_u32 v) h" using ok h False unfolding cache_ok_def by blast
    ultimately show ?thesis using gives_cached [OF assms(1)] by simp
  next
    case True
    obtain g c1 where g: "push_value c (pointless_value_create_u32 v) = (g, c1)" by fastforce
    have "c_cache c1 = c_cache c" using g by (auto simp: push_value_def)
    with u32s.upd_total [OF k, of v g] obtain k' where
      k': "pointless_create_cache_set_u32 (c_cache c) v g = Some k'" "pointless_create_cache_set_u32 (c_cache c1) v g = Some k'"
      by metis
    have r: "pointless_create_u32 c v = Some (g, c1\<lparr>c_cache := k'\<rparr>)"
      using h True g k'(2) by (simp add: pointless_create_u32_def pointless_create_u32_priv_def)
    have "create_wf (c1\<lparr>c_cache := k'\<rparr>)" using wf_u32 [OF _ r] assms(1) by (simp add: ready_def)
    from gives_pushed [OF assms g refl effect_inlines(2) [OF r] this cached_u32 [OF _ k'(1)]] show ?thesis by (simp add: r)
  qed
qed


lemma gives_constant:
  assumes rd: "ready c" and len: "length (c_values c) + 1 < 2 ^ 32 - 4"
    and op: "r = (if g \<noteq> POINTLESS_CREATE_VALUE_FAIL then (g, c)
      else let (h, c1) = push_value c x in (h, c1\<lparr>c_cache := upd (c_cache c1) h\<rparr>))"
    and g: "g \<noteq> POINTLESS_CREATE_VALUE_FAIL \<Longrightarrow> named c x g"
    and upd: "\<And>c' k h. cache_ok c' k \<Longrightarrow> named c' x h \<Longrightarrow> cache_ok c' (upd k h)"
    and ef: "\<And>h c'. r = (h, c') \<Longrightarrow> effect c c'" and wf: "\<And>h c'. create_wf c \<Longrightarrow> r = (h, c') \<Longrightarrow> create_wf c'"
  shows "gives 1 c (Some r)"
proof (cases "g = POINTLESS_CREATE_VALUE_FAIL")
  case False
  then show ?thesis using gives_cached [OF rd g [OF False]] op by simp
next
  case True
  obtain h c1 where h: "push_value c x = (h, c1)" by fastforce
  have r: "r = (h, c1\<lparr>c_cache := upd (c_cache c) h\<rparr>)"
    using op True h by (auto simp: push_value_def)
  have "create_wf (c1\<lparr>c_cache := upd (c_cache c) h\<rparr>)"
    using rd by (intro wf [OF _ r]) (simp add: ready_def)
  from gives_pushed [OF rd len h refl ef [OF r] this upd] show ?thesis by (simp add: r)
qed

lemmas constant_defs = pointless_create_cache_get_null_def pointless_create_cache_set_null_def
  pointless_create_cache_get_empty_slot_def pointless_create_cache_set_empty_slot_def
  pointless_create_cache_get_true_def pointless_create_cache_set_true_def
  pointless_create_cache_get_false_def pointless_create_cache_set_false_def

lemma cached_constants:
  assumes "cache_ok c k"
  shows "named c pointless_value_create_null h \<Longrightarrow> cache_ok c (k\<lparr>null_handle := h\<rparr>)"
    "named c pointless_value_create_empty_slot h \<Longrightarrow> cache_ok c (k\<lparr>empty_slot_handle := h\<rparr>)"
    "named c pointless_value_create_bool_true h \<Longrightarrow> cache_ok c (k\<lparr>true_handle := h\<rparr>)"
    "named c pointless_value_create_bool_false h \<Longrightarrow> cache_ok c (k\<lparr>false_handle := h\<rparr>)"
  using assms
  by (auto simp: cache_ok_def cache_wf_def pointless_create_cache_get_i32_def pointless_create_cache_get_u32_def)

lemma gives_constants:
  assumes "ready c" and "length (c_values c) + 1 < 2 ^ 32 - 4"
  shows "gives 1 c (Some (pointless_create_null c))" "gives 1 c (Some (pointless_create_empty_slot c))"
    "gives 1 c (Some (pointless_create_boolean_true c))" "gives 1 c (Some (pointless_create_boolean_false c))"
proof -
  have b: "pointless_create_boolean c 1 = pointless_create_boolean_true c"
    "pointless_create_boolean c 0 = pointless_create_boolean_false c"
    by (simp_all add: pointless_create_boolean_def)
  have ok: "cache_ok c (c_cache c)" using assms(1) by (simp add: ready_def handles_ok_def)
  show "gives 1 c (Some (pointless_create_null c))"
    by (rule gives_constant [OF assms _ _ cached_constants(1) effect_inlines(5) wf_null,
          of _ "null_handle (c_cache c)"])
      (use ok in \<open>auto simp: pointless_create_null_def pointless_create_null_priv_def constant_defs cache_ok_def\<close>)
  show "gives 1 c (Some (pointless_create_empty_slot c))"
    by (rule gives_constant [OF assms _ _ cached_constants(2) effect_inlines(6) wf_empty_slot,
          of _ "empty_slot_handle (c_cache c)"])
      (use ok in \<open>auto simp: pointless_create_empty_slot_def pointless_create_empty_slot_priv_def constant_defs cache_ok_def\<close>)
  show "gives 1 c (Some (pointless_create_boolean_true c))"
    by (rule gives_constant [OF assms _ _ cached_constants(3) effect_inlines(4) [of c 1, unfolded b] wf_true,
          of _ "true_handle (c_cache c)"])
      (use ok in \<open>auto simp: pointless_create_boolean_true_def pointless_create_boolean_true_priv_def constant_defs cache_ok_def\<close>)
  show "gives 1 c (Some (pointless_create_boolean_false c))"
    by (rule gives_constant [OF assms _ _ cached_constants(4) effect_inlines(4) [of c 0, unfolded b] wf_false,
          of _ "false_handle (c_cache c)"])
      (use ok in \<open>auto simp: pointless_create_boolean_false_def pointless_create_boolean_false_priv_def constant_defs cache_ok_def\<close>)
qed

section \<open>Values that are not cached\<close>

lemma gives_new:
  assumes rd: "ready c" and len: "length (c_values c) + n < 2 ^ 32 - 4"
    and vs: "length (c_values c) < length (c_values c')" "length (c_values c') \<le> length (c_values c) + n"
    and k: "c_cache c' = c_cache c" "bitvector_map_judy c' = bitvector_map_judy c"
    and ef: "effect c c'" and wf: "create_wf c'" and h: "unat h < length (c_values c')"
  shows "gives n c (Some (h, c'))"
proof -
  have "handles_ok c'" using rd by (intro handles_later [OF _ effect_later [OF ef] k]) (simp add: ready_def)
  then have "grown n c c'" using vs by (intro grownI [OF rd ef wf _ _ _ len]) simp_all
  then show ?thesis using h by (auto simp: gives_def handle_of_def)
qed

lemma pushed_handle:
  "push_value c x = (h, c') \<Longrightarrow> length (c_values c) < 2 ^ 32 \<Longrightarrow>
   unat h = length (c_values c) \<and> length (c_values c') = Suc (length (c_values c)) \<and>
   c_cache c' = c_cache c \<and> bitvector_map_judy c' = bitvector_map_judy c"
  by (auto simp: push_value_def unat_of_nat)

lemma gives_float:
  assumes "ready c" and len: "length (c_values c) + 1 < 2 ^ 32 - 4"
  shows "gives 1 c (Some (pointless_create_float c v))"
proof -
  obtain h c' where r: "pointless_create_float c v = (h, c')" by fastforce
  then have p: "push_value c (pointless_value_create_float v) = (h, c')" by (simp add: pointless_create_float_def)
  have wf: "create_wf c'" using wf_float [OF _ r] assms(1) by (simp add: ready_def)
  show ?thesis unfolding r
    using pushed_handle [OF p] len by (intro gives_new [OF assms _ _ _ _ effect_inlines(3) [OF r] wf]) simp_all
qed

lemma gives_compressed:
  assumes "ready c" and len: "length (c_values c) + 1 < 2 ^ 32 - 4"
    and t: "v_type v \<in> {POINTLESS_BITVECTOR_0, POINTLESS_BITVECTOR_1, POINTLESS_BITVECTOR_01,
                 POINTLESS_BITVECTOR_10, POINTLESS_BITVECTOR_PACKED}"
  shows "gives 1 c (Some (pointless_create_bitvector_compressed c v))"
proof -
  obtain h c' where r: "pointless_create_bitvector_compressed c v = (h, c')" by fastforce
  obtain x where p: "push_value c x = (h, c')" using r by (simp add: pointless_create_bitvector_compressed_def)
  have wf: "create_wf c'"
    using assms(1) len by (intro create_call_wf [OF create_call.bitvector_compressed [OF r t]]) (simp_all add: ready_def)
  show ?thesis unfolding r
    using pushed_handle [OF p] len by (intro gives_new [OF assms(1,2) _ _ _ _ effect_inlines(7) [OF r] wf]) simp_all
qed

lemma gives_vector_priv:
  assumes "ready c" and len: "length (c_values c) + 1 < 2 ^ 32 - 4" and w: "item_width t = Some n"
  shows "gives 1 c (Some (pointless_create_vector_priv c t n))"
proof -
  obtain h c' where r: "pointless_create_vector_priv c t n = (h, c')" by fastforce
  have c': "unat h = length (c_values c)" "length (c_values c') = Suc (length (c_values c))"
    "c_cache c' = c_cache c" "bitvector_map_judy c' = bitvector_map_judy c"
    using r len by (auto simp: pointless_create_vector_priv_def push_value_def unat_of_nat)
  have wf: "create_wf c'" using wf_vector_priv [OF _ _ w r] assms(1) by (simp add: ready_def)
  show ?thesis unfolding r
    using c' by (intro gives_new [OF assms(1,2) _ _ _ _ effect_vectors(1) [OF r] wf]) simp_all
qed

lemma gives_owner:
  assumes "ready c" and len: "length (c_values c) + 1 < 2 ^ 32 - 4" and t: "number_width t \<noteq> None"
  shows "gives 1 c (Some (pointless_create_vector_owner_priv c t bytes n))"
proof -
  obtain h c' where r: "pointless_create_vector_owner_priv c t bytes n = (h, c')" by fastforce
  have c': "unat h = length (c_values c)" "length (c_values c') = Suc (length (c_values c))"
    "c_cache c' = c_cache c" "bitvector_map_judy c' = bitvector_map_judy c"
    using r len by (auto simp: pointless_create_vector_owner_priv_def push_value_def unat_of_nat split: if_split_asm)
  have wf: "create_wf c'"
    using assms(1) len by (intro create_call_wf [OF create_call.vector_owner [OF r t]]) (simp_all add: ready_def)
  show ?thesis unfolding r
    using c' by (intro gives_new [OF assms(1,2) _ _ _ _ effect_vectors(2) [OF r] wf]) simp_all
qed

section \<open>Strings\<close>

lemma gives_string_value:
  assumes "ready c" and len: "length (c_values c) + 1 < 2 ^ 32 - 4"
    and r: "create_string_value c t buffer = (h, c')" and ef: "effect c c'" and wf: "create_wf c'"
  shows "gives 1 c (Some (h, c'))"
proof (cases "string_unicode_map_judy c buffer")
  case (Some d)
  then have hc: "h = ucast d" "c' = c" using r by (simp_all add: create_string_value_def)
  obtain x where "cv_value_at c (ucast d) = Some x"
    using assms(1) Some unfolding ready_def dictionary_ok_def by blast
  then have "handle_of c h" by (simp add: hc handle_of_def cv_value_at_def arr_get_Some_iff)
  then show ?thesis using grown_refl [OF assms(1)] hc(2) by (auto simp: gives_def)
next
  case None
  then have c': "unat h = length (c_values c)" "length (c_values c') = Suc (length (c_values c))"
    "c_cache c' = c_cache c" "bitvector_map_judy c' = bitvector_map_judy c"
    using r len by (auto simp: create_string_value_def push_value_def Let_def unat_of_nat)
  show ?thesis using c' by (intro gives_new [OF assms(1,2) _ _ _ _ ef wf]) simp_all
qed

lemma conversion_total:
  assumes "code_points (s :: 'a::len word list) = Some cs" and "length cs < 2 ^ 32"
  shows "\<exists>n vv. string_len_loop 0 s = Some n \<and> string_conv_loop id (replicate (unat (n + 1)) 0) s = Some vv"
proof -
  have n: "string_len_loop 0 s = Some (of_nat (length cs))" using string_len_loop_eq [OF assms(1), of 0] by simp
  have "length cs + 1 < 2 ^ 64" using assms(2) by simp
  then have u: "unat ((of_nat (length cs) :: u64) + 1) = length cs + 1"
    by (simp add: unat_word_ariths unat_of_nat)
  have "\<exists>r. string_conv_loop id (replicate (length cs + 1) 0) s = Some r \<and> code_points r = Some cs \<and>
      length r = length (replicate (length cs + 1) (0 :: 'a word))"
    by (rule string_conv_loop_eq [OF assms(1)]) simp_all
  then obtain r where "string_conv_loop id (replicate (unat ((of_nat (length cs) :: u64) + 1)) 0) s = Some r"
    unfolding u by blast
  with n show ?thesis by blast
qed

lemma gives_string_ascii:
  assumes "ready c" and "length (c_values c) + 1 < 2 ^ 32 - 4" and "code_points s = Some cs" "length cs < 2 ^ 32"
  shows "gives 1 c (pointless_create_string_ascii c s)"
proof -
  from conversion_total [OF assms(3,4)] obtain n vv where
    "string_len_loop 0 s = Some n" "string_conv_loop id (replicate (unat (n + 1)) 0) s = Some vv" by blast
  then obtain h c' where v: "create_string_value c POINTLESS_STRING (string_buffer 1 n vv) = (h, c')"
    and r: "pointless_create_string_ascii c s = Some (h, c')"
    by (auto simp: pointless_create_string_ascii_def pointless_ascii_len_def pointless_ascii_cpy_def) (metis surj_pair)
  have "create_wf c'" using wf_string_ascii [OF _ r] assms(1) by (simp add: ready_def)
  from gives_string_value [OF assms(1,2) v effect_string_ascii [OF r] this] show ?thesis by (simp add: r)
qed

lemma gives_unicode_ucs4:
  assumes "ready c" and "length (c_values c) + 1 < 2 ^ 32 - 4" and "code_points s = Some cs" "length cs < 2 ^ 32"
  shows "gives 1 c (pointless_create_unicode_ucs4 c s)"
proof -
  from conversion_total [OF assms(3,4)] obtain n vv where
    "string_len_loop 0 s = Some n" "string_conv_loop id (replicate (unat (n + 1)) 0) s = Some vv" by blast
  then obtain h c' where v: "create_string_value c POINTLESS_UNICODE (string_buffer 4 n vv) = (h, c')"
    and r: "pointless_create_unicode_ucs4 c s = Some (h, c')"
    by (auto simp: pointless_create_unicode_ucs4_def pointless_ucs4_len_def pointless_ucs4_cpy_def) (metis surj_pair)
  have "create_wf c'" using wf_unicode_ucs4 [OF _ r] assms(1) by (simp add: ready_def)
  from gives_string_value [OF assms(1,2) v effect_unicode_ucs4 [OF r] this] show ?thesis by (simp add: r)
qed


section \<open>Bitvectors\<close>

lemma buffer_bit_total: "i < 8 * length v \<Longrightarrow> i < 2 ^ 64 \<Longrightarrow> \<exists>b. buffer_bit v i = Some b"
  using bm_is_set_eq [of "of_nat i" v] by (auto simp: buffer_bit_def unat_of_nat)

lemma is_all_total: "(\<And>i. i \<in> set is \<Longrightarrow> \<exists>b. buffer_bit v i = Some b) \<Longrightarrow> \<exists>r. is_all_loop x v is = Some r"
  by (induction "is") fastforce+

lemma two_runs_total: "(\<And>i. i \<in> set is \<Longrightarrow> \<exists>b. buffer_bit v i = Some b) \<Longrightarrow> \<exists>r. two_runs_loop x v is a b = Some r"
proof (induction "is" arbitrary: a b)
  case (Cons i "is")
  from Cons.prems [of i] obtain q where q: "buffer_bit v i = Some q" by auto
  have "\<And>a b. \<exists>r. two_runs_loop x v is a b = Some r" using Cons by simp
  then show ?case using q by simp
qed simp

lemma pack_total:
  "(\<And>i. i \<in> set is \<Longrightarrow> i < 27 \<and> (\<exists>b. buffer_bit v i = Some b)) \<Longrightarrow> length data = 4 \<Longrightarrow>
   \<exists>r. pack_bits_loop v is data = Some r"
proof (induction "is" arbitrary: data)
  case (Cons i "is")
  from Cons.prems(1) [of i] obtain q where q: "buffer_bit v i = Some q" and i: "i < 27" by auto
  have u: "unat (of_nat (i + 5) :: u64) = i + 5" using i by (simp only: unat_of_nat) simp
  have "unat (of_nat (i + 5) :: u64) < 8 * length data" unfolding u using i Cons.prems(2) by simp
  from bm_set_eq [OF this] obtain d where d: "bm_set data (of_nat (i + 5)) = Some d" "length d = length data" by blast
  have "\<exists>r. pack_bits_loop v is d' = Some r" if "length d' = 4" for d'
    using Cons.IH [OF _ that] Cons.prems(1) by simp
  then show ?case using q d Cons.prems(2) by simp
qed simp

lemma compress_total:
  assumes "unat n \<le> 8 * length v"
  shows "\<exists>t d. compress_bitvector v n = Some (t, d)"
proof -
  have bits: "\<exists>b. buffer_bit v i = Some b" if "i \<in> set [0..<unat n]" for i
  proof (rule buffer_bit_total)
    have i: "i < unat n" using that by simp
    then show "i < 8 * length v" using assms by simp
    from i unsigned_less [of n] have "i < 2 ^ LENGTH(32)" by (rule less_trans)
    then show "i < 2 ^ 64" by simp
  qed
  obtain a0 where a0: "pointless_bitvector_is_all_0 v n = Some a0"
    using is_all_total [OF bits] unfolding pointless_bitvector_is_all_0_def by blast
  obtain a1 where a1: "pointless_bitvector_is_all_1 v n = Some a1"
    using is_all_total [OF bits] unfolding pointless_bitvector_is_all_1_def by blast
  obtain r01 where r01: "pointless_bitvector_is_01 v n = Some r01"
    using two_runs_total [OF bits] unfolding pointless_bitvector_is_01_def by blast
  obtain r10 where r10: "pointless_bitvector_is_10 v n = Some r10"
    using two_runs_total [OF bits] unfolding pointless_bitvector_is_10_def by blast
  have pack: "\<exists>r. pack_bits_loop v [0..<unat n] (le_bytes 4 (mk_bitvector_packed n 0)) = Some r" if "n \<le> 27"
  proof (rule pack_total)
    have "unat n \<le> 27" using that by (simp add: word_le_nat_alt)
    then show "i < 27 \<and> (\<exists>b. buffer_bit v i = Some b)" if "i \<in> set [0..<unat n]" for i
      using bits [OF that] that by auto
  qed simp
  show ?thesis
    unfolding compress_bitvector_def using a0 a1 r01 r10 pack
    by (auto simp: compress_01_or_10_def split: option.split)
qed

lemma gives_bitvector:
  assumes rd: "ready c" and len: "length (c_values c) + 1 < 2 ^ 32 - 4" and v: "unat (ICEIL n 8) \<le> length v"
  shows "gives 1 c (create_bitvector c v n norm)"
proof -
  have "unat n \<le> 8 * length v" using v by (simp add: unat_ICEIL_8)
  then obtain t d where t: "compress_bitvector v n = Some (t, d)" using compress_total by blast
  let ?b = "le_bytes 4 n @ take (unat (ICEIL n 8)) v"
  have ef: "effect c c'" if "create_bitvector c v n norm = Some (h, c')" for h c'
    using that effect_bitvectors [of c v n h c'] unfolding pointless_create_bitvector_def
      pointless_create_bitvector_no_normalize_def by (cases norm) simp_all
  show ?thesis
  proof (cases "t = POINTLESS_BITVECTOR \<and> norm \<and> bitvector_map_judy c ?b \<noteq> None")
    case True
    then obtain r where r: "bitvector_map_judy c ?b = Some r" by auto
    then have "create_bitvector c v n norm = Some (ucast r, c)"
      using t True v by (simp add: create_bitvector_def Let_def)
    moreover have "handle_of c (ucast r)"
      using rd r by (auto simp: ready_def handles_ok_def bitvectors_ok_def handle_of_def cv_value_at_def arr_get_Some_iff)
    ultimately show ?thesis using grown_refl [OF rd] by (auto simp: gives_def)
  next
    case False
    have new: "t = POINTLESS_BITVECTOR \<Longrightarrow> (if norm then bitvector_map_judy c ?b else None) = None"
      using False by auto
    have "create_bitvector c v n norm \<noteq> None"
      using t v new by (cases "t = POINTLESS_BITVECTOR") (simp_all add: create_bitvector_def Let_def split: prod.split)
    then obtain h c' where r: "create_bitvector c v n norm = Some (h, c')" by auto
    have c': "unat h = length (c_values c)" "length (c_values c') = Suc (length (c_values c))"
      "c_cache c' = c_cache c"
      "\<forall>b r. bitvector_map_judy c' b = Some r \<longrightarrow> bitvector_map_judy c b = Some r \<or>
         r = of_nat (length (c_values c)) \<and> bitvector_values c' = bitvector_values c @ [b] \<and>
         c_values c' ! length (c_values c) = \<lparr>cr_header = mk_header POINTLESS_BITVECTOR, cr_data = bitvector_map_judy_count c\<rparr>"
      using r t v new len
      by (cases "t = POINTLESS_BITVECTOR";
          auto simp: create_bitvector_def push_value_def Let_def unat_of_nat split: if_split_asm)+
    note h = c'(1) and vs = c'(2) and k = c'(3) and m = c'(4)
    have wf: "create_wf c'" using wf_bitvector [OF _ r] rd by (simp add: ready_def)
    have l: "later c c'" by (rule effect_later [OF ef [OF r]])
    have count: "unat (bitvector_map_judy_count c) = length (bitvector_values c)"
    proof -
      have wf0: "create_wf c" using rd by (simp add: ready_def)
      have "length (bitvector_values c) < 2 ^ 32"
        using table_length_le [OF create_wfD(1) [OF wf0], of Heap_Bitvector] len by (simp add: table_length_def)
      then show ?thesis by (simp add: create_wfD(4) [OF wf0] unat_of_nat)
    qed
    have "bitvectors_ok c'"
      unfolding bitvectors_ok_def
    proof (intro allI impI)
      fix b r assume "bitvector_map_judy c' b = Some r"
      with m consider "bitvector_map_judy c b = Some r"
        | "r = of_nat (length (c_values c))" "bitvector_values c' = bitvector_values c @ [b]"
          "c_values c' ! length (c_values c) = \<lparr>cr_header = mk_header POINTLESS_BITVECTOR, cr_data = bitvector_map_judy_count c\<rparr>"
        by blast
      then show "\<exists>x. cv_value_at c' (ucast r) = Some x \<and> type_29 (cr_header x) = POINTLESS_BITVECTOR \<and>
          arr_get (bitvector_values c') (unat (cr_data x)) = Some b"
      proof cases
        case 1
        then show ?thesis using bitvectors_later [OF l] rd by (simp add: ready_def handles_ok_def)
      next
        case 2
        have "unat (ucast (of_nat (length (c_values c)) :: u64) :: u32) = length (c_values c)"
          using len by (simp add: ucast_of_nat_u32 unat_of_nat)
        with 2 vs show ?thesis by (simp add: cv_value_at_def mk_header_def count)
      qed
    qed
    moreover have "cache_ok c' (c_cache c')" using cache_later [OF l] rd k by (simp add: ready_def handles_ok_def)
    ultimately have "handles_ok c'" by (simp add: handles_ok_def)
    then have "grown 1 c c'" using vs len by (intro grownI [OF rd ef [OF r] wf]) simp_all
    then show ?thesis using h vs by (auto simp: gives_def handle_of_def r)
  qed
qed

section \<open>Containers\<close>

lemma table_entry:
  assumes "ready c" and "cv_value_at c h = Some x" and "offset_kind k x"
  shows "unat (cr_data x) < table_length k c"
proof -
  have num: "numbered c" and len: "length (c_values c) < 2 ^ 32"
    using assms(1) create_wfD(1) by (auto simp: ready_def)
  have "x \<in> set (c_values c)" using assms(2) by (auto simp: cv_value_at_def arr_get_Some_iff)
  then have "cr_data x \<in> set (map cr_data (filter (offset_kind k) (c_values c)))" using assms(3) by simp
  then have "cr_data x \<in> set (map of_nat [0..<table_length k c])" using num unfolding numbered_def by metis
  then obtain i where i: "i < table_length k c" "cr_data x = of_nat i" by auto
  have "i < 2 ^ 32" using i(1) table_length_le [OF num, of k] len by linarith
  then show ?thesis using i by (simp add: unat_of_nat)
qed

text \<open>The kind of the value a handle names.\<close>

definition names :: "u32 \<Rightarrow> pointless_create_t \<Rightarrow> u32 \<Rightarrow> bool" where
  "names t c h \<longleftrightarrow> (\<exists>x. cv_value_at c h = Some x \<and> type_29 (cr_header x) = t \<and> \<not> is_outside_vector (cr_header x))"

lemma names_later: "later c c' \<Longrightarrow> names t c h \<Longrightarrow> names t c' h"
proof -
  assume l: "later c c'" and "names t c h"
  then obtain x where x: "cv_value_at c h = Some x" "type_29 (cr_header x) = t" "\<not> is_outside_vector (cr_header x)"
    by (auto simp: names_def)
  from later_value [OF l x(1)] obtain x' where "cv_value_at c' h = Some x'" "value_id x' = value_id x" by blast
  then show ?thesis using x(2,3) by (auto simp: names_def value_id_def)
qed

lemma names_handle: "names t c h \<Longrightarrow> handle_of c h"
  by (auto simp: names_def handle_of_def cv_value_at_def arr_get_Some_iff)

lemma gives_changed:
  assumes rd: "ready c" and vs: "c_values c' = c_values c"
    and k: "c_cache c' = c_cache c" "bitvector_map_judy c' = bitvector_map_judy c"
    and ef: "effect c c'" and wf: "create_wf c'" and h: "handle_of c h"
  shows "gives 0 c (Some (h, c'))"
proof -
  have "length (c_values c) < 2 ^ 32 - 4" using rd by (simp add: ready_def)
  moreover have "handles_ok c'" using rd by (intro handles_later [OF _ effect_later [OF ef] k]) (simp add: ready_def)
  ultimately have "grown 0 c c'" using vs by (intro grownI [OF rd ef wf]) simp_all
  then show ?thesis using h vs by (auto simp: gives_def handle_of_def)
qed

lemma gives_append:
  assumes rd: "ready c" and v: "names POINTLESS_VECTOR_VALUE c v" and x: "handle_of c x"
  shows "gives 0 c (pointless_create_vector_value_append c v x)"
proof -
  obtain y where y: "cv_value_at c v = Some y" "type_29 (cr_header y) = POINTLESS_VECTOR_VALUE"
    "\<not> is_outside_vector (cr_header y)" using v by (auto simp: names_def)
  have k: "offset_kind Heap_Priv_Vector y" using y by (simp add: offset_kind_def pointless_is_vector_type_def)
  have "y \<in> set (c_values c)" using y(1) by (auto simp: cv_value_at_def arr_get_Some_iff)
  then have "value_ok c y" using rd create_wfD(2) by (auto simp: ready_def)
  then obtain vec where vec: "cv_get_priv_vector c y = Some vec" "vp_item_size vec = 4"
    using k y(2) by (auto simp: value_ok_def item_width_def)
  have "unat (cr_data y) < length (priv_vector_values c)" using table_entry [OF rd y(1) k] by (simp add: table_length_def)
  then obtain c' where r: "pointless_create_vector_value_append c v x = Some (v, c')"
    and c': "c_values c' = c_values c" "c_cache c' = c_cache c" "bitvector_map_judy c' = bitvector_map_judy c"
    using x y(1) vec by (auto simp: pointless_create_vector_value_append_def handle_of_def arr_set_def
        pointless_create_vector_append_priv_def cv_priv_vector_at_def upd_priv_vector_def)
  have "create_wf c'"
    using rd by (intro create_call_wf [OF create_call.vector_value_append [OF r]]) (simp_all add: ready_def)
  from gives_changed [OF rd c' effect_items(1) [OF r] this names_handle [OF v]] show ?thesis by (simp add: r)
qed

lemma gives_set_add:
  assumes rd: "ready c" and v: "names POINTLESS_SET_VALUE c s"
  shows "gives 0 c (pointless_create_set_add c s k)"
proof -
  obtain y where y: "cv_value_at c s = Some y" "type_29 (cr_header y) = POINTLESS_SET_VALUE"
    using v by (auto simp: names_def)
  have "unat (cr_data y) < length (set_values c)"
    using table_entry [OF rd y(1), of Heap_Set] y(2) by (simp add: table_length_def offset_kind_def)
  then obtain c' where r: "pointless_create_set_add c s k = Some (s, c')"
    and c': "c_values c' = c_values c" "c_cache c' = c_cache c" "bitvector_map_judy c' = bitvector_map_judy c"
    using y(1) by (auto simp: pointless_create_set_add_def cv_set_at_def arr_set_def)
  have "create_wf c'" using wf_set_add [OF _ r] rd by (simp add: ready_def)
  from gives_changed [OF rd c' effect_adds(1) [OF r] this names_handle [OF v]] show ?thesis by (simp add: r)
qed

lemma gives_map_add:
  assumes rd: "ready c" and v: "names POINTLESS_MAP_VALUE_VALUE c m"
  shows "gives 0 c (pointless_create_map_add c m k x)"
proof -
  obtain y where y: "cv_value_at c m = Some y" "type_29 (cr_header y) = POINTLESS_MAP_VALUE_VALUE"
    using v by (auto simp: names_def)
  have "unat (cr_data y) < length (map_values c)"
    using table_entry [OF rd y(1), of Heap_Map] y(2) by (simp add: table_length_def offset_kind_def)
  then obtain c' where r: "pointless_create_map_add c m k x = Some (m, c')"
    and c': "c_values c' = c_values c" "c_cache c' = c_cache c" "bitvector_map_judy c' = bitvector_map_judy c"
    using y(1) by (auto simp: pointless_create_map_add_def cv_map_at_def arr_set_def)
  have "create_wf c'" using wf_map_add [OF _ r] rd by (simp add: ready_def)
  from gives_changed [OF rd c' effect_adds(2) [OF r] this names_handle [OF v]] show ?thesis by (simp add: r)
qed


section \<open>New containers\<close>

text \<open>What the parts of a new set or map are pushed with: the state before the last value.\<close>

definition plain :: "nat \<Rightarrow> pointless_create_t \<Rightarrow> pointless_create_t \<Rightarrow> bool" where
  "plain n c c' \<longleftrightarrow> length (c_values c') = length (c_values c) + n \<and> c_cache c' = c_cache c \<and>
     bitvector_map_judy c' = bitvector_map_judy c"

lemma plain_vector:
  assumes "length (c_values c) < 2 ^ 32"
  shows "\<exists>h c'. pointless_create_vector_priv c t n = (h, c') \<and> plain 1 c c' \<and> unat h = length (c_values c)"
  using assms by (auto simp: pointless_create_vector_priv_def push_value_def plain_def unat_of_nat)

lemma plain_mark:
  assumes "unat v < length (c_values c)"
  shows "\<exists>c'. mark_set_map_vector c v = Some c' \<and> plain 0 c c'"
  using assms by (auto simp: mark_set_map_vector_def upd_value_def cv_value_at_def arr_set_def plain_def)

lemma plain_trans: "plain m c1 c2 \<Longrightarrow> plain n c2 c3 \<Longrightarrow> plain (m + n) c1 c3"
  by (simp add: plain_def)

lemma not_fail: "unat h < 2 ^ 32 - 1 \<Longrightarrow> h \<noteq> POINTLESS_CREATE_VALUE_FAIL"
  by auto

lemma names_pushed:
  assumes "push_value c \<lparr>cr_header = mk_header t, cr_data = d\<rparr> = (h, c')" and "length (c_values c) < 2 ^ 32"
    and "c_values c'' = c_values c'"
  shows "names t c'' h"
  using assms by (auto simp: push_value_def names_def cv_value_at_def mk_header_def unat_of_nat)

lemma gives_vector_value:
  assumes "ready c" and "length (c_values c) + 1 < 2 ^ 32 - 4"
  shows "\<exists>h c'. pointless_create_vector_value c = (h, c') \<and> grown 1 c c' \<and> names POINTLESS_VECTOR_VALUE c' h"
proof -
  obtain h c' where r: "pointless_create_vector_value c = (h, c')" by fastforce
  have "gives 1 c (Some (h, c'))"
    using gives_vector_priv [OF assms, of POINTLESS_VECTOR_VALUE 4] r
    by (simp add: pointless_create_vector_value_def item_width_def)
  moreover have "names POINTLESS_VECTOR_VALUE c' h"
    using r assms(2) by (auto simp: pointless_create_vector_value_def pointless_create_vector_priv_def push_value_def
        names_def cv_value_at_def mk_header_def unat_of_nat)
  ultimately show ?thesis using r by (auto simp: gives_def)
qed

lemma gives_set:
  assumes rd: "ready c" and len: "length (c_values c) + 3 < 2 ^ 32 - 4"
  shows "\<exists>s c'. pointless_create_set c = Some (s, c') \<and> grown 3 c c' \<and> names POINTLESS_SET_VALUE c' s"
proof -
  let ?n = "length (c_values c)"
  let ?x = "\<lparr>cr_header = mk_header POINTLESS_SET_VALUE, cr_data = of_nat (length (set_values c))\<rparr>"
  obtain h c1 where h: "pointless_create_vector_u32 c = (h, c1)" "plain 1 c c1" "unat h = ?n"
    using plain_vector [of c POINTLESS_VECTOR_U32 4] len by (auto simp: pointless_create_vector_u32_def)
  obtain k c2 where k: "pointless_create_vector_value c1 = (k, c2)" "plain 1 c1 c2" "unat k = Suc ?n"
    using plain_vector [of c1 POINTLESS_VECTOR_VALUE 4] len h(2)
    by (auto simp: pointless_create_vector_value_def plain_def)
  obtain c3 where c3: "mark_set_map_vector c2 h = Some c3" "plain 0 c2 c3"
    using plain_mark [of h c2] h k by (auto simp: plain_def)
  obtain c4 where c4: "mark_set_map_vector c3 k = Some c4" "plain 0 c3 c4"
    using plain_mark [of k c3] h k c3 by (auto simp: plain_def)
  obtain s c5 where s: "push_value c4 ?x = (s, c5)" by fastforce
  have p4: "plain 2 c c4"
    using plain_trans [OF plain_trans [OF plain_trans [OF h(2) k(2)] c3(2)] c4(2)] by (simp add: numeral_2_eq_2)
  then have l4: "length (c_values c4) < 2 ^ 32" using len by (simp add: plain_def)
  let ?c = "c5\<lparr>set_values := set_values c5 @ [\<lparr>cs_keys = [], cs_serialize_hash = h, cs_serialize_keys = k\<rparr>]\<rparr>"
  have nf: "h \<noteq> POINTLESS_CREATE_VALUE_FAIL" "k \<noteq> POINTLESS_CREATE_VALUE_FAIL"
    using h(3) k(3) len by (auto intro!: not_fail)
  have r: "pointless_create_set c = Some (s, ?c)"
    using h(1) k(1) c3(1) c4(1) s nf by (simp add: pointless_create_set_def)
  have p: "plain 1 c4 ?c" "unat s = length (c_values c4)" using pushed_handle [OF s l4] by (simp_all add: plain_def)
  have wf: "create_wf ?c" using wf_set [OF _ _ r] rd len by (simp add: ready_def)
  have "gives 3 c (Some (s, ?c))"
    by (rule gives_new [OF rd len _ _ _ _ effect_set [OF r] wf]) (use p p4 in \<open>simp_all add: plain_def\<close>)
  moreover have "names POINTLESS_SET_VALUE ?c s" by (rule names_pushed [OF s l4]) simp
  ultimately show ?thesis using r by (auto simp: gives_def)
qed

lemma gives_map:
  assumes rd: "ready c" and len: "length (c_values c) + 4 < 2 ^ 32 - 4"
  shows "\<exists>s c'. pointless_create_map c = Some (s, c') \<and> grown 4 c c' \<and> names POINTLESS_MAP_VALUE_VALUE c' s"
proof -
  let ?n = "length (c_values c)"
  let ?x = "\<lparr>cr_header = mk_header POINTLESS_MAP_VALUE_VALUE, cr_data = of_nat (length (map_values c))\<rparr>"
  obtain h c1 where h: "pointless_create_vector_u32 c = (h, c1)" "plain 1 c c1" "unat h = ?n"
    using plain_vector [of c POINTLESS_VECTOR_U32 4] len by (auto simp: pointless_create_vector_u32_def)
  obtain k c2 where k: "pointless_create_vector_value c1 = (k, c2)" "plain 1 c1 c2" "unat k = Suc ?n"
    using plain_vector [of c1 POINTLESS_VECTOR_VALUE 4] len h(2)
    by (auto simp: pointless_create_vector_value_def plain_def)
  obtain v c2' where v: "pointless_create_vector_value c2 = (v, c2')" "plain 1 c2 c2'" "unat v = Suc (Suc ?n)"
    using plain_vector [of c2 POINTLESS_VECTOR_VALUE 4] len h(2) k(2)
    by (auto simp: pointless_create_vector_value_def plain_def)
  obtain c3 where c3: "mark_set_map_vector c2' h = Some c3" "plain 0 c2' c3"
    using plain_mark [of h c2'] h k v by (auto simp: plain_def)
  obtain c4 where c4: "mark_set_map_vector c3 k = Some c4" "plain 0 c3 c4"
    using plain_mark [of k c3] h k v c3 by (auto simp: plain_def)
  obtain c5 where c5: "mark_set_map_vector c4 v = Some c5" "plain 0 c4 c5"
    using plain_mark [of v c4] h k v c3 c4 by (auto simp: plain_def)
  obtain s c6 where s: "push_value c5 ?x = (s, c6)" by fastforce
  have p5: "plain 3 c c5"
    using plain_trans [OF plain_trans [OF plain_trans [OF plain_trans [OF plain_trans [OF h(2) k(2)] v(2)] c3(2)] c4(2)] c5(2)]
    by (simp add: numeral_3_eq_3)
  then have l5: "length (c_values c5) < 2 ^ 32" using len by (simp add: plain_def)
  let ?c = "c6\<lparr>map_values := map_values c6 @ [\<lparr>cm_keys = [], cm_values = [], cm_serialize_hash = h,
      cm_serialize_keys = k, cm_serialize_values = v\<rparr>]\<rparr>"
  have nf: "h \<noteq> POINTLESS_CREATE_VALUE_FAIL" "k \<noteq> POINTLESS_CREATE_VALUE_FAIL" "v \<noteq> POINTLESS_CREATE_VALUE_FAIL"
    using h(3) k(3) v(3) len by (auto intro!: not_fail)
  have r: "pointless_create_map c = Some (s, ?c)"
    using h(1) k(1) v(1) c3(1) c4(1) c5(1) s nf by (simp add: pointless_create_map_def)
  have p: "plain 1 c5 ?c" "unat s = length (c_values c5)" using pushed_handle [OF s l5] by (simp_all add: plain_def)
  have wf: "create_wf ?c" using wf_map [OF _ _ r] rd len by (simp add: ready_def)
  have "gives 4 c (Some (s, ?c))"
    by (rule gives_new [OF rd len _ _ _ _ effect_map [OF r] wf]) (use p p5 in \<open>simp_all add: plain_def\<close>)
  moreover have "names POINTLESS_MAP_VALUE_VALUE ?c s" by (rule names_pushed [OF s l5]) simp
  ultimately show ?thesis using r by (auto simp: gives_def)
qed

end
