(* ===== verification/Recreate.thy ===== *)
theory Recreate
  imports Reader_Lookup Create_Vectors Create_Values
begin

text \<open>
  \<open>src/pointless_recreate.c\<close>: copying a value of a file into a creation. Heap objects are copied once:
  five arrays map the reader's index of an object to the handle it was given, which also closes cycles.
  \<open>pointless_recreate_64\<close>, which runs it between two files, is in \<open>Files\<close>.
\<close>

unbundle bit_operations_syntax

section \<open>The state\<close>

record pointless_recreate_state_t =
  rs_c :: pointless_create_t
  rs_p :: pointless_t
  normalize_bitvector :: bool
  string_unicode_r_c_mapping :: "u32 list"
  vector_r_c_mapping :: "u32 list"
  bitvector_r_c_mapping :: "u32 list"
  set_r_c_mapping :: "u32 list"
  map_r_c_mapping :: "u32 list"

definition pointless_malloc_uint32_init :: "u32 \<Rightarrow> u32 \<Rightarrow> u32 list" where
  "pointless_malloc_uint32_init n_items init_value = replicate (unat n_items) init_value"

text \<open>The array a heap value is looked up in.\<close>

datatype r_c_kind = RC_String | RC_Vector | RC_Bitvector | RC_Set | RC_Map

definition r_c_kind :: "u32 \<Rightarrow> r_c_kind option" where
  "r_c_kind t =
     (if t \<in> {POINTLESS_VECTOR_VALUE, POINTLESS_VECTOR_VALUE_HASHABLE, POINTLESS_VECTOR_I8,
              POINTLESS_VECTOR_U8, POINTLESS_VECTOR_I16, POINTLESS_VECTOR_U16, POINTLESS_VECTOR_I32,
              POINTLESS_VECTOR_U32, POINTLESS_VECTOR_I64, POINTLESS_VECTOR_U64,
              POINTLESS_VECTOR_FLOAT} then Some RC_Vector
      else if t \<in> {POINTLESS_UNICODE, POINTLESS_STRING} then Some RC_String
      else if t = POINTLESS_BITVECTOR then Some RC_Bitvector
      else if t = POINTLESS_SET_VALUE then Some RC_Set
      else if t = POINTLESS_MAP_VALUE_VALUE then Some RC_Map
      else None)"

fun r_c_mapping :: "r_c_kind \<Rightarrow> pointless_recreate_state_t \<Rightarrow> u32 list" where
  "r_c_mapping RC_String state = string_unicode_r_c_mapping state"
| "r_c_mapping RC_Vector state = vector_r_c_mapping state"
| "r_c_mapping RC_Bitvector state = bitvector_r_c_mapping state"
| "r_c_mapping RC_Set state = set_r_c_mapping state"
| "r_c_mapping RC_Map state = map_r_c_mapping state"

fun with_r_c_mapping ::
    "r_c_kind \<Rightarrow> u32 list \<Rightarrow> pointless_recreate_state_t \<Rightarrow> pointless_recreate_state_t" where
  "with_r_c_mapping RC_String xs state = state\<lparr>string_unicode_r_c_mapping := xs\<rparr>"
| "with_r_c_mapping RC_Vector xs state = state\<lparr>vector_r_c_mapping := xs\<rparr>"
| "with_r_c_mapping RC_Bitvector xs state = state\<lparr>bitvector_r_c_mapping := xs\<rparr>"
| "with_r_c_mapping RC_Set xs state = state\<lparr>set_r_c_mapping := xs\<rparr>"
| "with_r_c_mapping RC_Map xs state = state\<lparr>map_r_c_mapping := xs\<rparr>"

text \<open>The handle an object was given before, \<open>UINT32_MAX\<close> for none.\<close>

definition previous_handle :: "pointless_recreate_state_t \<Rightarrow> pointless_value_t \<Rightarrow> u32 option" where
  "previous_handle state v =
     (case r_c_kind (v_type v) of
        None \<Rightarrow> Some UINT32_MAX
      | Some k \<Rightarrow> arr_get (r_c_mapping k state) (unat (v_data v)))"

definition set_handle_of ::
    "r_c_kind \<Rightarrow> pointless_value_t \<Rightarrow> u32 \<Rightarrow> pointless_recreate_state_t \<Rightarrow> pointless_recreate_state_t option" where
  "set_handle_of k v handle state =
     map_option (\<lambda>xs. with_r_c_mapping k xs state) (arr_set (r_c_mapping k state) (unat (v_data v)) handle)"

section \<open>Steps that may fail\<close>

text \<open>
  A step returns the state and an error or a result: the creation changes even when a later step fails.
\<close>

type_synonym 'a recreated = "(pointless_recreate_state_t \<times> (err + 'a)) option"

definition and_recreate ::
    "'a recreated \<Rightarrow> (pointless_recreate_state_t \<Rightarrow> 'a \<Rightarrow> 'b recreated) \<Rightarrow> 'b recreated" where
  "and_recreate r f =
     do { (state, x) \<leftarrow> r; (case x of Inl e \<Rightarrow> Some (state, Inl e) | Inr y \<Rightarrow> f state y) }"

text \<open>The macros \<open>POINTLESS_RECREATE_FUNC\<close>: a call that creates a value, and its check.\<close>

definition recreate_func ::
    "err \<Rightarrow> (u32 \<times> pointless_create_t) option \<Rightarrow> pointless_recreate_state_t \<Rightarrow> u32 recreated" where
  "recreate_func e call state =
     do { (handle, c) \<leftarrow> call;
          let state = state\<lparr>rs_c := c\<rparr>;
          Some (state, if handle = POINTLESS_CREATE_VALUE_FAIL then Inl e else Inr handle) }"

text \<open>Marking an object with its handle before going on.\<close>

definition marked ::
    "r_c_kind \<Rightarrow> pointless_value_t \<Rightarrow> (pointless_recreate_state_t \<Rightarrow> u32 \<Rightarrow> 'b recreated) \<Rightarrow>
     pointless_recreate_state_t \<Rightarrow> u32 \<Rightarrow> 'b recreated" where
  "marked k v f state handle = do { state \<leftarrow> set_handle_of k v handle state; f state handle }"

definition rc_return :: "pointless_recreate_state_t \<Rightarrow> 'a \<Rightarrow> 'a recreated" where
  "rc_return state x = Some (state, Inr x)"

section \<open>Containers\<close>

text \<open>The loops over the items of a container; \<open>rec\<close> is the recursive call.\<close>

fun recreate_items ::
    "(pointless_recreate_state_t \<Rightarrow> pointless_value_t \<Rightarrow> u32 recreated) \<Rightarrow> u32 \<Rightarrow> pointless_value_t list \<Rightarrow>
     nat list \<Rightarrow> pointless_recreate_state_t \<Rightarrow> u32 recreated" where
  "recreate_items rec handle child_v [] state = rc_return state handle"
| "recreate_items rec handle child_v (i # is) state =
     do { x \<leftarrow> arr_get child_v i;
          and_recreate (rec state x) (\<lambda>state child_handle.
          and_recreate (recreate_func ''pointless_create_vector_value_append() failure''
            (pointless_create_vector_value_append (rs_c state) handle child_handle) state) (\<lambda>state _.
          recreate_items rec handle child_v is state)) }"

partial_function (option) recreate_set_items ::
    "(pointless_recreate_state_t \<Rightarrow> pointless_value_t \<Rightarrow> u32 recreated) \<Rightarrow> u32 \<Rightarrow> pointless_value_t \<Rightarrow>
     u32 \<Rightarrow> pointless_recreate_state_t \<Rightarrow> u32 recreated" where
  "recreate_set_items rec handle v i state =
     do { (found, i) \<leftarrow> pointless_reader_set_iter (rs_p state) v i;
          (case found of
             None \<Rightarrow> Some (state, Inr handle)
           | Some key \<Rightarrow> do {
               k \<leftarrow> read_value (p_buf (rs_p state)) key;
               (state, r) \<leftarrow> rec state k;
               (case r of
                  Inl e \<Rightarrow> Some (state, Inl e)
                | Inr key_handle \<Rightarrow> do {
                    (state, r) \<leftarrow> recreate_func ''pointless_create_set_add() failure''
                      (pointless_create_set_add (rs_c state) handle key_handle) state;
                    (case r of
                       Inl e \<Rightarrow> Some (state, Inl e)
                     | Inr _ \<Rightarrow> recreate_set_items rec handle v i state) }) }) }"

declare recreate_set_items.simps [code]

partial_function (option) recreate_map_items ::
    "(pointless_recreate_state_t \<Rightarrow> pointless_value_t \<Rightarrow> u32 recreated) \<Rightarrow> u32 \<Rightarrow> pointless_value_t \<Rightarrow>
     u32 \<Rightarrow> pointless_recreate_state_t \<Rightarrow> u32 recreated" where
  "recreate_map_items rec handle v i state =
     do { (found, i) \<leftarrow> pointless_reader_map_iter (rs_p state) v i;
          (case found of
             None \<Rightarrow> Some (state, Inr handle)
           | Some (key, val) \<Rightarrow> do {
               k \<leftarrow> read_value (p_buf (rs_p state)) key;
               (state, r) \<leftarrow> rec state k;
               (case r of
                  Inl e \<Rightarrow> Some (state, Inl e)
                | Inr key_handle \<Rightarrow> do {
                    x \<leftarrow> read_value (p_buf (rs_p state)) val;
                    (state, r) \<leftarrow> rec state x;
                    (case r of
                       Inl e \<Rightarrow> Some (state, Inl e)
                     | Inr value_handle \<Rightarrow> do {
                         (state, r) \<leftarrow> recreate_func ''pointless_create_map_add() failure''
                           (pointless_create_map_add (rs_c state) handle key_handle value_handle) state;
                         (case r of
                            Inl e \<Rightarrow> Some (state, Inl e)
                          | Inr _ \<Rightarrow> recreate_map_items rec handle v i state) }) }) }) }"

declare recreate_map_items.simps [code]

section \<open>Leaves\<close>

text \<open>The vectors of numbers are handed to the creation where they lie in the file.\<close>

definition recreate_vector ::
    "pointless_recreate_state_t \<Rightarrow> pointless_value_t \<Rightarrow> err \<Rightarrow>
     (pointless_t \<Rightarrow> pointless_value_t \<Rightarrow> 'a list option) \<Rightarrow>
     (pointless_create_t \<Rightarrow> 'a list \<Rightarrow> u32 \<Rightarrow> u32 \<times> pointless_create_t) \<Rightarrow> u32 recreated" where
  "recreate_vector state v e items create =
     do { n_items \<leftarrow> pointless_reader_vector_n_items (rs_p state) v;
          xs \<leftarrow> items (rs_p state) v;
          and_recreate (recreate_func e (Some (create (rs_c state) xs n_items)) state)
            (marked RC_Vector v rc_return) }"

definition recreate_bitvector :: "pointless_recreate_state_t \<Rightarrow> pointless_value_t \<Rightarrow> u32 recreated" where
  "recreate_bitvector state v =
     do { n_bits \<leftarrow> pointless_reader_bitvector_n_bits (rs_p state) v;
          buffer \<leftarrow> pointless_reader_bitvector_buffer (rs_p state) v;
          let source_bits = drop 4 buffer;
          let n = unat (ICEIL n_bits 8);
          if length source_bits < n then None
          else
            let bits = take n source_bits in
            and_recreate (recreate_func ''pointless_create_bitvector() failure''
                (if normalize_bitvector state then pointless_create_bitvector (rs_c state) bits n_bits
                 else pointless_create_bitvector_no_normalize (rs_c state) bits n_bits) state)
              (marked RC_Bitvector v rc_return) }"

text \<open>The values without a heap object that can be shared, by their types.\<close>

definition recreate_inline :: "pointless_recreate_state_t \<Rightarrow> pointless_value_t \<Rightarrow> u32 recreated" where
  "recreate_inline state v =
     (let t = v_type v; c = rs_c state in
      if t = POINTLESS_VECTOR_EMPTY then
        recreate_func ''pointless_create_vector_value failure'' (Some (pointless_create_vector_value c)) state
      else if t \<in> {POINTLESS_BITVECTOR_0, POINTLESS_BITVECTOR_1, POINTLESS_BITVECTOR_01,
                   POINTLESS_BITVECTOR_10, POINTLESS_BITVECTOR_PACKED} then
        recreate_func ''out of memory'' (Some (pointless_create_bitvector_compressed c v)) state
      else if t = POINTLESS_EMPTY_SLOT then
        recreate_func ''pointless_create_empty_slot failure'' (Some (pointless_create_empty_slot c)) state
      else if t = POINTLESS_I32 then
        recreate_func ''pointless_create_i32 failure''
          (pointless_create_i32 c (pointless_value_get_i32 t (v_data v))) state
      else if t = POINTLESS_U32 then
        recreate_func ''pointless_create_u32 failure''
          (pointless_create_u32 c (pointless_value_get_u32 t (v_data v))) state
      else if t = POINTLESS_FLOAT then
        recreate_func ''pointless_create_float failure''
          (Some (pointless_create_float c (pointless_value_get_float t (v_data v)))) state
      else if t = POINTLESS_BOOLEAN then
        (if pointless_value_get_bool t (v_data v) \<noteq> 0
         then recreate_func ''pointless_create_boolean_true failure''
                (Some (pointless_create_boolean_true c)) state
         else recreate_func ''pointless_create_boolean_false failure''
                (Some (pointless_create_boolean_false c)) state)
      else if t = POINTLESS_NULL then
        recreate_func ''pointless_create_null failure'' (Some (pointless_create_null c)) state
      else Some (state, Inl ''unknown type''))"

section \<open>The recursion\<close>

text \<open>
  The parameter \<open>depth\<close> of the C function is not read; the fuel stands for the C stack.
\<close>

fun pointless_recreate_convert_rec ::
    "nat \<Rightarrow> pointless_recreate_state_t \<Rightarrow> pointless_value_t \<Rightarrow> u32 recreated" where
  "pointless_recreate_convert_rec 0 state v = None"
| "pointless_recreate_convert_rec (Suc fuel) state v =
     do { handle \<leftarrow> previous_handle state v;
          if handle \<noteq> UINT32_MAX then rc_return state handle
          else
            let t = v_type v; p = rs_p state; c = rs_c state in
            if t \<in> {POINTLESS_VECTOR_VALUE, POINTLESS_VECTOR_VALUE_HASHABLE} then do {
              n_items \<leftarrow> pointless_reader_vector_n_items p v;
              and_recreate (recreate_func ''pointless_create_vector_value() failure''
                  (Some (pointless_create_vector_value c)) state)
                (marked RC_Vector v (\<lambda>state handle. do {
                  child_v \<leftarrow> pointless_reader_vector_value p v;
                  recreate_items (pointless_recreate_convert_rec fuel) handle child_v
                    [0..<unat n_items] state })) }
            else if t = POINTLESS_VECTOR_I8 then
              recreate_vector state v ''pointless_create_vector_i8_owner failure''
                pointless_reader_vector_i8 pointless_create_vector_i8_owner
            else if t = POINTLESS_VECTOR_U8 then
              recreate_vector state v ''pointless_create_vector_u8_owner failure''
                pointless_reader_vector_u8 pointless_create_vector_u8_owner
            else if t = POINTLESS_VECTOR_I16 then
              recreate_vector state v ''pointless_create_vector_i16_owner failure''
                pointless_reader_vector_i16 pointless_create_vector_i16_owner
            else if t = POINTLESS_VECTOR_U16 then
              recreate_vector state v ''pointless_create_vector_u16_owner failure''
                pointless_reader_vector_u16 pointless_create_vector_u16_owner
            else if t = POINTLESS_VECTOR_I32 then
              recreate_vector state v ''pointless_create_vector_i32_owner failure''
                pointless_reader_vector_i32 pointless_create_vector_i32_owner
            else if t = POINTLESS_VECTOR_U32 then
              recreate_vector state v ''pointless_create_vector_u32_owner failure''
                pointless_reader_vector_u32 pointless_create_vector_u32_owner
            else if t = POINTLESS_VECTOR_I64 then
              recreate_vector state v ''pointless_create_vector_i64_owner failure''
                pointless_reader_vector_i64 pointless_create_vector_i64_owner
            else if t = POINTLESS_VECTOR_U64 then
              recreate_vector state v ''pointless_create_vector_u64_owner failure''
                pointless_reader_vector_u64 pointless_create_vector_u64_owner
            else if t = POINTLESS_VECTOR_FLOAT then
              recreate_vector state v ''pointless_create_vector_float_owner failure''
                pointless_reader_vector_float pointless_create_vector_float_owner
            else if t = POINTLESS_UNICODE then do {
              s \<leftarrow> pointless_reader_unicode_value_ucs4 p v;
              and_recreate (recreate_func ''pointless_create_unicode_ucs4 failure''
                  (pointless_create_unicode_ucs4 c s) state)
                (marked RC_String v rc_return) }
            else if t = POINTLESS_STRING then do {
              s \<leftarrow> pointless_reader_string_value_ascii p v;
              and_recreate (recreate_func ''pointless_create_string_ascii failure''
                  (pointless_create_string_ascii c s) state)
                (marked RC_String v rc_return) }
            else if t = POINTLESS_BITVECTOR then recreate_bitvector state v
            else if t = POINTLESS_SET_VALUE then
              and_recreate (recreate_func ''pointless_create_set failure'' (pointless_create_set c) state)
                (marked RC_Set v (\<lambda>state handle.
                  recreate_set_items (pointless_recreate_convert_rec fuel) handle v 0 state))
            else if t = POINTLESS_MAP_VALUE_VALUE then
              and_recreate (recreate_func ''pointless_create_map failure'' (pointless_create_map c) state)
                (marked RC_Map v (\<lambda>state handle.
                  recreate_map_items (pointless_recreate_convert_rec fuel) handle v 0 state))
            else recreate_inline state v }"

text \<open>The creation afterwards, and the error or the handle of the copy.\<close>

definition recreate_begin :: "pointless_t \<Rightarrow> pointless_create_t \<Rightarrow> pointless_recreate_state_t" where
  "recreate_begin p c =
     \<lparr>rs_c = c, rs_p = p, normalize_bitvector = True,
      string_unicode_r_c_mapping = pointless_malloc_uint32_init (n_string_unicode (header p)) UINT32_MAX,
      vector_r_c_mapping = pointless_malloc_uint32_init (n_vector (header p)) UINT32_MAX,
      bitvector_r_c_mapping = pointless_malloc_uint32_init (n_bitvector (header p)) UINT32_MAX,
      set_r_c_mapping = pointless_malloc_uint32_init (n_set (header p)) UINT32_MAX,
      map_r_c_mapping = pointless_malloc_uint32_init (n_map (header p)) UINT32_MAX\<rparr>"

definition pointless_recreate_value ::
    "nat \<Rightarrow> pointless_t \<Rightarrow> pointless_value_t \<Rightarrow> pointless_create_t \<Rightarrow>
     (pointless_create_t \<times> (err + u32)) option" where
  "pointless_recreate_value fuel p v c =
     do { (state, r) \<leftarrow> pointless_recreate_convert_rec fuel (recreate_begin p c) v;
          Some (rs_c state, r) }"

end
