(* ===== verification/Recreate_Laws.thy ===== *)
theory Recreate_Laws
  imports Create_Total Recreate Reader_Helpers_Laws
begin

text \<open>
  Copying a value of an opened file into a creation always ends with a handle. Every object of the file
  is created once: the measure is the number of objects without a handle, and each container pays in
  advance for the values it adds beside its own and for those of its items.
\<close>

section \<open>The invariant\<close>

fun n_objects :: "pointless_t \<Rightarrow> r_c_kind \<Rightarrow> u32" where
  "n_objects p RC_String = n_string_unicode (header p)"
| "n_objects p RC_Vector = n_vector (header p)"
| "n_objects p RC_Bitvector = n_bitvector (header p)"
| "n_objects p RC_Set = n_set (header p)"
| "n_objects p RC_Map = n_map (header p)"

definition rc_ok :: "pointless_t \<Rightarrow> pointless_recreate_state_t \<Rightarrow> bool" where
  "rc_ok p s \<longleftrightarrow> rs_p s = p \<and> ready (rs_c s) \<and>
     (\<forall>k. length (r_c_mapping k s) = unat (n_objects p k)) \<and>
     (\<forall>k. \<forall>h \<in> set (r_c_mapping k s). h = UINT32_MAX \<or> handle_of (rs_c s) h)"

text \<open>The objects without a handle.\<close>

definition no_handle :: "u32 list \<Rightarrow> nat" where
  "no_handle xs = length (filter (\<lambda>h. h = UINT32_MAX) xs)"

definition unmarked :: "pointless_recreate_state_t \<Rightarrow> nat" where
  "unmarked s = no_handle (string_unicode_r_c_mapping s) + no_handle (vector_r_c_mapping s) +
     no_handle (bitvector_r_c_mapping s) + no_handle (set_r_c_mapping s) + no_handle (map_r_c_mapping s)"

text \<open>
  What the creation of an object adds to the values at most, beside the value of the object itself: the
  values of its items, and the vectors of a set or a map.
\<close>

fun object_cost :: "pointless_t \<Rightarrow> r_c_kind \<Rightarrow> nat \<Rightarrow> nat" where
  "object_cost p RC_String i = 0"
| "object_cost p RC_Bitvector i = 0"
| "object_cost p RC_Vector i =
     (case pointless_reader_vector_n_items p \<lparr>v_type = POINTLESS_VECTOR_VALUE, v_data = of_nat i\<rparr> of
        None \<Rightarrow> 0 | Some n \<Rightarrow> unat n)"
| "object_cost p RC_Set i =
     2 + (case pointless_reader_set_n_items p \<lparr>v_type = POINTLESS_SET_VALUE, v_data = of_nat i\<rparr> of
            None \<Rightarrow> 0 | Some n \<Rightarrow> unat n)"
| "object_cost p RC_Map i =
     3 + 2 * (case pointless_reader_map_n_items p \<lparr>v_type = POINTLESS_MAP_VALUE_VALUE, v_data = of_nat i\<rparr> of
                None \<Rightarrow> 0 | Some n \<Rightarrow> unat n)"

definition r_c_kinds :: "r_c_kind list" where
  "r_c_kinds = [RC_String, RC_Vector, RC_Bitvector, RC_Set, RC_Map]"

text \<open>What the objects without a handle have still to pay.\<close>

definition unpaid :: "pointless_t \<Rightarrow> r_c_kind \<Rightarrow> u32 list \<Rightarrow> nat" where
  "unpaid p k xs = sum_list (map (\<lambda>i. if xs ! i = UINT32_MAX then object_cost p k i else 0) [0..<length xs])"

definition pot :: "pointless_t \<Rightarrow> pointless_recreate_state_t \<Rightarrow> nat" where
  "pot p s = length (c_values (rs_c s)) + sum_list (map (\<lambda>k. unpaid p k (r_c_mapping k s)) r_c_kinds)"

definition moved :: "pointless_t \<Rightarrow> nat \<Rightarrow> pointless_recreate_state_t \<Rightarrow> pointless_recreate_state_t \<Rightarrow> bool" where
  "moved p n s s' \<longleftrightarrow> rc_ok p s' \<and> later (rs_c s) (rs_c s') \<and>
     length (c_values (rs_c s)) \<le> length (c_values (rs_c s')) \<and> unmarked s' \<le> unmarked s \<and>
     pot p s' \<le> pot p s + n"

definition returns :: "pointless_t \<Rightarrow> nat \<Rightarrow> pointless_recreate_state_t \<Rightarrow> u32 recreated \<Rightarrow> bool" where
  "returns p n s r \<longleftrightarrow> (\<exists>s' h. r = Some (s', Inr h) \<and> moved p n s s' \<and> handle_of (rs_c s') h)"

lemma moved_refl: "rc_ok p s \<Longrightarrow> moved p n s s"
  by (simp add: moved_def)

lemma moved_trans:
  assumes "moved p m s1 s2" and "moved p n s2 s3"
  shows "moved p (m + n) s1 s3"
  using assms later_trans [of "rs_c s1" "rs_c s2" "rs_c s3"] by (simp add: moved_def)

lemma moved_mono: "moved p m s s' \<Longrightarrow> m \<le> n \<Longrightarrow> moved p n s s'"
  by (simp add: moved_def)

lemma moved_handle: "moved p n s s' \<Longrightarrow> handle_of (rs_c s) h \<Longrightarrow> handle_of (rs_c s') h"
  by (simp add: moved_def handle_of_def)

lemma moved_names: "moved p n s s' \<Longrightarrow> names t (rs_c s) h \<Longrightarrow> names t (rs_c s') h"
  unfolding moved_def using names_later by blast

lemma pot_length: "length (c_values (rs_c s)) \<le> pot p s"
  by (simp add: pot_def)

section \<open>Creating\<close>

lemma mapping_c [simp]: "r_c_mapping k (s\<lparr>rs_c := c\<rparr>) = r_c_mapping k s"
  by (cases k) simp_all

lemma unmarked_c [simp]: "unmarked (s\<lparr>rs_c := c\<rparr>) = unmarked s"
  by (simp add: unmarked_def)

lemma moved_c:
  assumes "rc_ok p s" and "grown n (rs_c s) c"
  shows "moved p n s (s\<lparr>rs_c := c\<rparr>)"
proof -
  have "rc_ok p (s\<lparr>rs_c := c\<rparr>)"
    using assms handle_later [OF assms(2)] unfolding rc_ok_def grown_def by auto
  then show ?thesis using assms(2) by (simp add: moved_def grown_def pot_def)
qed

lemma func_gives:
  assumes "gives n (rs_c s) call"
  shows "\<exists>h c. recreate_func e call s = Some (s\<lparr>rs_c := c\<rparr>, Inr h) \<and> grown n (rs_c s) c \<and> handle_of c h"
proof -
  obtain h c where h: "call = Some (h, c)" "grown n (rs_c s) c" "handle_of c h"
    using assms by (auto simp: gives_def)
  have "ready c" using h(2) by (simp add: grown_def)
  from handle_not_fail [OF this h(3)] have "recreate_func e call s = Some (s\<lparr>rs_c := c\<rparr>, Inr h)"
    by (simp add: recreate_func_def h(1))
  then show ?thesis using h(2,3) by blast
qed

lemma and_recreate_simps [simp]:
  "and_recreate (Some (s, Inr x)) f = f s x" "and_recreate (Some (s, Inl e)) f = Some (s, Inl e)"
  by (simp_all add: and_recreate_def)

section \<open>Marking\<close>

lemma no_handle_update:
  "i < length xs \<Longrightarrow> xs ! i = UINT32_MAX \<Longrightarrow> h \<noteq> UINT32_MAX \<Longrightarrow> Suc (no_handle (xs[i := h])) = no_handle xs"
  by (induction xs arbitrary: i) (auto simp: no_handle_def nth_Cons split: nat.split)

lemma mapping_with [simp]:
  "r_c_mapping j (with_r_c_mapping k xs s) = (if j = k then xs else r_c_mapping j s)"
  "rs_c (with_r_c_mapping k xs s) = rs_c s" "rs_p (with_r_c_mapping k xs s) = rs_p s"
  by (cases k; cases j; simp)+

lemma unmarked_with:
  assumes "Suc (no_handle xs) = no_handle (r_c_mapping k s)"
  shows "Suc (unmarked (with_r_c_mapping k xs s)) = unmarked s"
  using assms by (cases k) (auto simp: unmarked_def)

lemma sum_list_update:
  fixes f g :: "nat \<Rightarrow> nat"
  assumes "i < n" and "g i = 0" and "\<And>j. j \<noteq> i \<Longrightarrow> g j = f j"
  shows "sum_list (map g [0..<n]) + f i = sum_list (map f [0..<n])"
  using assms(1)
proof (induction n)
  case (Suc n)
  show ?case
  proof (cases "i = n")
    case True
    have "sum_list (map g [0..<n]) = sum_list (map f [0..<n])"
      by (rule arg_cong [where f = sum_list]) (use assms(3) True in simp)
    with True assms(2) show ?thesis by simp
  next
    case False
    with Suc assms(3) [of n] show ?thesis by simp
  qed
qed simp

lemma unpaid_update:
  assumes "i < length xs" and "xs ! i = UINT32_MAX" and "h \<noteq> UINT32_MAX"
  shows "unpaid p k (xs[i := h]) + object_cost p k i = unpaid p k xs"
proof -
  have "sum_list (map (\<lambda>j. if xs[i := h] ! j = UINT32_MAX then object_cost p k j else 0) [0..<length xs]) +
      (\<lambda>j. if xs ! j = UINT32_MAX then object_cost p k j else 0) i =
    sum_list (map (\<lambda>j. if xs ! j = UINT32_MAX then object_cost p k j else 0) [0..<length xs])"
    by (rule sum_list_update [OF assms(1)]) (use assms in simp_all)
  with assms(2) show ?thesis by (simp add: unpaid_def)
qed

lemma marking:
  assumes ok: "rc_ok p s" and k: "unat (v_data v) < unat (n_objects p k)"
    and free: "r_c_mapping k s ! unat (v_data v) = UINT32_MAX" and h: "handle_of (rs_c s) h"
  shows "\<exists>s'. set_handle_of k v h s = Some s' \<and> rc_ok p s' \<and> rs_c s' = rs_c s \<and> Suc (unmarked s') = unmarked s \<and>
    pot p s' + object_cost p k (unat (v_data v)) = pot p s"
proof -
  let ?i = "unat (v_data v)" and ?xs = "r_c_mapping k s"
  let ?s = "with_r_c_mapping k (?xs[?i := h]) s"
  have i: "?i < length ?xs" using ok k by (simp add: rc_ok_def)
  have nf: "h \<noteq> UINT32_MAX" using ok handle_not_fail [OF _ h] by (simp add: rc_ok_def)
  have "set_handle_of k v h s = Some ?s" using i by (simp add: set_handle_of_def arr_set_def)
  moreover have "g = UINT32_MAX \<or> handle_of (rs_c s) g" if "g \<in> set (?xs[?i := h])" for g
    using that h ok set_update_subset_insert [of ?xs ?i h] unfolding rc_ok_def by blast
  then have "rc_ok p ?s" using ok by (auto simp: rc_ok_def)
  moreover have "Suc (unmarked ?s) = unmarked s"
    by (rule unmarked_with) (rule no_handle_update [OF i free nf])
  moreover have "pot p ?s + object_cost p k ?i = pot p s"
    using unpaid_update [OF i free nf, of p k]
    by (cases k) (simp_all only: pot_def r_c_kinds_def list.map sum_list.Cons sum_list.Nil mapping_with r_c_kind.simps if_True if_False,
        simp_all)
  ultimately show ?thesis by fastforce
qed

text \<open>An object that was created, with \<open>n\<close> values, and marked.\<close>

lemma marked_moves:
  assumes ok: "rc_ok p s" and k: "unat (v_data v) < unat (n_objects p k)"
    and free: "r_c_mapping k s ! unat (v_data v) = UINT32_MAX"
    and c: "grown n (rs_c s) c" and h: "handle_of c h"
  obtains s' where "set_handle_of k v h (s\<lparr>rs_c := c\<rparr>) = Some s'" and "rs_c s' = c" and "rc_ok p s'"
    and "later (rs_c s) (rs_c s')" and "length (c_values (rs_c s)) \<le> length (c_values (rs_c s'))"
    and "Suc (unmarked s') = unmarked s"
    and "pot p s' + object_cost p k (unat (v_data v)) \<le> pot p s + n"
proof -
  have m: "moved p n s (s\<lparr>rs_c := c\<rparr>)" by (rule moved_c [OF ok c])
  then have ok': "rc_ok p (s\<lparr>rs_c := c\<rparr>)" by (simp add: moved_def)
  from marking [OF ok' k, of h] free h obtain s' where
    s': "set_handle_of k v h (s\<lparr>rs_c := c\<rparr>) = Some s'" "rc_ok p s'" "rs_c s' = c" "Suc (unmarked s') = unmarked s"
      "pot p s' + object_cost p k (unat (v_data v)) = pot p (s\<lparr>rs_c := c\<rparr>)"
    by auto
  then have "pot p s' + object_cost p k (unat (v_data v)) \<le> pot p s + n" using m by (simp add: moved_def)
  then show ?thesis using that s' m by (simp add: moved_def)
qed

section \<open>Leaves\<close>

text \<open>An object whose creation adds at most one value and has no items.\<close>

lemma leaf_returns:
  assumes ok: "rc_ok p s" and k: "unat (v_data v) < unat (n_objects p k)"
    and free: "r_c_mapping k s ! unat (v_data v) = UINT32_MAX" and g: "gives 1 (rs_c s) call"
  shows "returns p 1 s (and_recreate (recreate_func e call s) (marked k v rc_return))"
proof -
  from func_gives [OF g] obtain h c where
    h: "recreate_func e call s = Some (s\<lparr>rs_c := c\<rparr>, Inr h)" "grown 1 (rs_c s) c" "handle_of c h" by blast
  obtain s' where s': "set_handle_of k v h (s\<lparr>rs_c := c\<rparr>) = Some s'" "rs_c s' = c" "rc_ok p s'"
    "later (rs_c s) (rs_c s')" "length (c_values (rs_c s)) \<le> length (c_values (rs_c s'))"
    "Suc (unmarked s') = unmarked s" "pot p s' + object_cost p k (unat (v_data v)) \<le> pot p s + 1"
    by (rule marked_moves [OF ok k free h(2,3)])
  have "moved p 1 s s'" using s'(3-7) by (simp add: moved_def)
  then show ?thesis using h(1,3) s'(1,2) by (auto simp: returns_def marked_def rc_return_def)
qed

lemma inline_returns:
  assumes "rc_ok p s" and "gives 1 (rs_c s) call"
  shows "returns p 1 s (recreate_func e call s)"
proof -
  from func_gives [OF assms(2)] obtain h c where
    h: "recreate_func e call s = Some (s\<lparr>rs_c := c\<rparr>, Inr h)" "grown 1 (rs_c s) c" "handle_of c h" by blast
  show ?thesis using moved_c [OF assms(1) h(2)] h(1,3) by (auto simp: returns_def)
qed

text \<open>Opened files: what validation leaves.\<close>

definition opened :: "pointless_t \<Rightarrow> bool" where
  "opened p \<longleftrightarrow> all_ok p \<and> (\<exists>hf. \<forall>v. reachable p v \<longrightarrow> table_ok hf p v)"

lemma opened_ok: "opened p \<Longrightarrow> reachable p v \<Longrightarrow> wf_reader p \<and> value_ok p v"
  by (simp add: opened_def all_ok_def)

lemma known_type:
  assumes "value_ok p v"
  shows "v_type v \<in> {POINTLESS_VECTOR_VALUE, POINTLESS_VECTOR_VALUE_HASHABLE, POINTLESS_VECTOR_I8,
      POINTLESS_VECTOR_U8, POINTLESS_VECTOR_I16, POINTLESS_VECTOR_U16, POINTLESS_VECTOR_I32,
      POINTLESS_VECTOR_U32, POINTLESS_VECTOR_I64, POINTLESS_VECTOR_U64, POINTLESS_VECTOR_FLOAT} \<union>
     {POINTLESS_UNICODE, POINTLESS_STRING, POINTLESS_BITVECTOR, POINTLESS_SET_VALUE, POINTLESS_MAP_VALUE_VALUE} \<union>
     {POINTLESS_VECTOR_EMPTY, POINTLESS_BITVECTOR_0, POINTLESS_BITVECTOR_1, POINTLESS_BITVECTOR_01,
      POINTLESS_BITVECTOR_10, POINTLESS_BITVECTOR_PACKED, POINTLESS_EMPTY_SLOT, POINTLESS_I32, POINTLESS_U32,
      POINTLESS_FLOAT, POINTLESS_BOOLEAN, POINTLESS_NULL}"
proof -
  have "pointless_validate_heap_value p v = Some (Inr ())" using assms by (simp add: value_ok_def)
  then show ?thesis by (auto simp: pointless_validate_heap_value_def Let_def split: if_split_asm)
qed

lemma object_in:
  assumes "value_ok p v" and "r_c_kind (v_type v) = Some k"
  shows "unat (v_data v) < unat (n_objects p k)"
proof -
  have ref: "pointless_validate_heap_ref p v = Inr ()" using assms(1) by (simp add: value_ok_def)
  show ?thesis
    using assms(2) heap_ref_vector [OF ref] heap_ref_in [OF ref]
    by (auto simp: r_c_kind_def word_less_nat_alt split: if_split_asm)
qed

lemma object_slot:
  assumes "rc_ok p s" and "value_ok p v" and "r_c_kind (v_type v) = Some k"
  shows "unat (v_data v) < length (r_c_mapping k s)"
proof -
  have "length (r_c_mapping k s) = unat (n_objects p k)" using assms(1) unfolding rc_ok_def by blast
  then show ?thesis using object_in [OF assms(2,3)] by simp
qed

lemma recreate_vector_returns:
  assumes ok: "rc_ok p s" and len: "length (c_values (rs_c s)) + 1 < 2 ^ 32 - 4" and v: "value_ok p v"
    and k: "r_c_kind (v_type v) = Some RC_Vector" and free: "vector_r_c_mapping s ! unat (v_data v) = UINT32_MAX"
    and n: "pointless_reader_vector_n_items p v = Some n" and xs: "items p v = Some xs"
    and c: "\<And>c. create c xs n = pointless_create_vector_owner_priv c t bytes n" and t: "number_width t \<noteq> None"
  shows "returns p 1 s (recreate_vector s v e items create)"
proof -
  have p: "rs_p s = p" "ready (rs_c s)" using ok by (simp_all add: rc_ok_def)
  have g: "gives 1 (rs_c s) (Some (create (rs_c s) xs n))" unfolding c by (rule gives_owner [OF p(2) len t])
  have f: "r_c_mapping RC_Vector s ! unat (v_data v) = UINT32_MAX" using free by simp
  from leaf_returns [OF ok object_in [OF v k] f g] show ?thesis
    by (simp add: recreate_vector_def p(1) n xs)
qed

lemma bitvector_heap_buffer:
  assumes wf: "wf_reader p" and v: "value_ok p v" and t: "v_type v = POINTLESS_BITVECTOR"
  shows "\<exists>buf n. pointless_reader_bitvector_buffer p v = Some buf \<and>
    pointless_reader_bitvector_n_bits p v = Some n \<and> unat (ICEIL n 8) \<le> length (drop 4 buf)"
proof -
  have "pointless_validate_bitvector_heap p v = Some (Inr ())"
    using v t by (simp add: value_ok_def pointless_validate_heap_value_def Let_def)
  then obtain off n where off: "PC_OFFSET p (bitvector_offsets p) (v_data v) = Some off"
    and n: "heap_u32 p off = Some n" and len: "pointless_require_heap p off (4 + ucast (ICEIL n 8))"
    by (auto simp: pointless_validate_bitvector_heap_def elim!: bind_eq_Some_E split: if_splits)
  let ?buf = "drop (heap_ptr p + unat off) (p_buf p)"
  have b: "pointless_reader_bitvector_buffer p v = Some ?buf"
    using off by (simp add: pointless_reader_bitvector_buffer_def PC_HEAP_OFFSET_def)
  then have b': "reader_buffer_or_null p v = Some ?buf" using t by (simp add: reader_buffer_or_null_def)
  have "heap_ptr p + unat off + (4 + (unat n + 7) div 8) \<le> length (p_buf p)"
    using len wf by (simp add: require_heap_iff unat_bitvector_bytes wf_reader_def)
  then have blen: "4 + (unat n + 7) div 8 \<le> length ?buf" by simp
  then have "read_u32 ?buf 0 = Some n"
    using n by (simp add: heap_u32_def read_le_def split: if_splits)
  then have "pointless_reader_bitvector_n_bits p v = Some n"
    using b' t by (simp add: pointless_reader_bitvector_n_bits_def pointless_bitvector_n_bits_def)
  moreover have "unat (ICEIL n 8) \<le> length (drop 4 ?buf)" using blen by (simp add: unat_ICEIL_8)
  ultimately show ?thesis using b by blast
qed

lemma recreate_bitvector_returns:
  assumes ok: "rc_ok p s" and len: "length (c_values (rs_c s)) + 1 < 2 ^ 32 - 4"
    and wf: "wf_reader p" and v: "value_ok p v" and t: "v_type v = POINTLESS_BITVECTOR"
    and free: "bitvector_r_c_mapping s ! unat (v_data v) = UINT32_MAX"
  shows "returns p 1 s (recreate_bitvector s v)"
proof -
  have p: "rs_p s = p" "ready (rs_c s)" using ok by (simp_all add: rc_ok_def)
  from bitvector_heap_buffer [OF wf v t] obtain buf n where
    b: "pointless_reader_bitvector_buffer p v = Some buf" "pointless_reader_bitvector_n_bits p v = Some n"
      "unat (ICEIL n 8) \<le> length (drop 4 buf)" by blast
  let ?bits = "take (unat (ICEIL n 8)) (drop 4 buf)"
  have "unat (ICEIL n 8) \<le> length ?bits" using b(3) by simp
  then have g: "gives 1 (rs_c s) (create_bitvector (rs_c s) ?bits n norm)" for norm
    by (rule gives_bitvector [OF p(2) len])
  have k: "r_c_kind (v_type v) = Some RC_Bitvector" by (simp add: t r_c_kind_def)
  have f: "r_c_mapping RC_Bitvector s ! unat (v_data v) = UINT32_MAX" using free by simp
  from leaf_returns [OF ok object_in [OF v k] f g] b show ?thesis
    by (simp add: recreate_bitvector_def p(1) Let_def not_less pointless_create_bitvector_def
        pointless_create_bitvector_no_normalize_def)
qed

lemma recreate_inline_returns:
  assumes ok: "rc_ok p s" and len: "length (c_values (rs_c s)) + 1 < 2 ^ 32 - 4"
    and t: "v_type v \<in> {POINTLESS_VECTOR_EMPTY, POINTLESS_BITVECTOR_0, POINTLESS_BITVECTOR_1, POINTLESS_BITVECTOR_01,
      POINTLESS_BITVECTOR_10, POINTLESS_BITVECTOR_PACKED, POINTLESS_EMPTY_SLOT, POINTLESS_I32, POINTLESS_U32,
      POINTLESS_FLOAT, POINTLESS_BOOLEAN, POINTLESS_NULL}"
  shows "returns p 1 s (recreate_inline s v)"
proof -
  have rd: "ready (rs_c s)" using ok by (simp add: rc_ok_def)
  have vec: "gives 1 (rs_c s) (Some (pointless_create_vector_value (rs_c s)))"
    unfolding pointless_create_vector_value_def by (rule gives_vector_priv [OF rd len]) (simp add: item_width_def)
  note gives = vec gives_compressed [OF rd len, of v] gives_constants [OF rd len] gives_i32 [OF rd len]
    gives_u32 [OF rd len] gives_float [OF rd len]
  show ?thesis
    using t by (elim insertE emptyE) (simp_all add: recreate_inline_def Let_def inline_returns [OF ok] gives del: One_nat_def)
qed


section \<open>Loops\<close>

text \<open>What the recursive call is assumed to do in a loop.\<close>

definition rec_ok ::
    "pointless_t \<Rightarrow> nat \<Rightarrow> (pointless_recreate_state_t \<Rightarrow> pointless_value_t \<Rightarrow> u32 recreated) \<Rightarrow> bool" where
  "rec_ok p m rec \<longleftrightarrow> (\<forall>s v. rc_ok p s \<longrightarrow> reachable p v \<longrightarrow> unmarked s < m \<longrightarrow> pot p s + 1 < 2 ^ 32 - 4 \<longrightarrow>
     returns p 1 s (rec s v))"

lemma rec_step:
  assumes "rec_ok p m rec" and "rc_ok p s" and "reachable p v" and "unmarked s < m" and "pot p s + 1 < 2 ^ 32 - 4"
  obtains s' h where "rec s v = Some (s', Inr h)" and "moved p 1 s s'" and "handle_of (rs_c s') h"
    and "rc_ok p s'" and "unmarked s' < m" and "pot p s' \<le> pot p s + 1"
proof -
  from assms have "returns p 1 s (rec s v)" unfolding rec_ok_def by blast
  then obtain s' h where s': "rec s v = Some (s', Inr h)" "moved p 1 s s'" "handle_of (rs_c s') h"
    by (auto simp: returns_def)
  moreover have "rc_ok p s'" "unmarked s' < m" "pot p s' \<le> pot p s + 1"
    using s'(2) assms(4) by (simp_all add: moved_def)
  ultimately show ?thesis by (rule that)
qed

text \<open>Adding an item to a container of the creation.\<close>

lemma add_step:
  assumes ok: "rc_ok p s" and g: "gives 0 (rs_c s) call"
  obtains s' h where "recreate_func e call s = Some (s', Inr h)" and "moved p 0 s s'"
    and "rc_ok p s'" and "unmarked s' = unmarked s" and "pot p s' \<le> pot p s"
proof -
  from func_gives [OF g] obtain h c where
    h: "recreate_func e call s = Some (s\<lparr>rs_c := c\<rparr>, Inr h)" "grown 0 (rs_c s) c" by blast
  have m: "moved p 0 s (s\<lparr>rs_c := c\<rparr>)" by (rule moved_c [OF ok h(2)])
  show ?thesis
  proof (rule that [OF h(1) m])
    show "rc_ok p (s\<lparr>rs_c := c\<rparr>)" "pot p (s\<lparr>rs_c := c\<rparr>) \<le> pot p s" using m by (simp_all add: moved_def)
  qed simp
qed

lemma items_loop:
  assumes rec: "rec_ok p m rec"
    and "rc_ok p s" and "unmarked s < m" and "names POINTLESS_VECTOR_VALUE (rs_c s) h"
    and "\<forall>i \<in> set is. i < length xs \<and> reachable p (xs ! i)" and "pot p s + length is < 2 ^ 32 - 4"
  shows "\<exists>s'. recreate_items rec h xs is s = Some (s', Inr h) \<and> moved p (length is) s s'"
  using assms(2-)
proof (induction "is" arbitrary: s)
  case Nil
  then show ?case by (simp add: rc_return_def moved_refl)
next
  case (Cons i "is")
  have i: "i < length xs" "reachable p (xs ! i)" using Cons.prems(4) by simp_all
  have "pot p s + 1 < 2 ^ 32 - 4" using Cons.prems(5) by simp
  from rec_step [OF rec Cons.prems(1) i(2) Cons.prems(2) this] obtain s1 x where
    s1: "rec s (xs ! i) = Some (s1, Inr x)" "moved p 1 s s1" "handle_of (rs_c s1) x" "rc_ok p s1"
      "unmarked s1 < m" "pot p s1 \<le> pot p s + 1" .
  have n1: "names POINTLESS_VECTOR_VALUE (rs_c s1) h" by (rule moved_names [OF s1(2) Cons.prems(3)])
  have "gives 0 (rs_c s1) (pointless_create_vector_value_append (rs_c s1) h x)"
    using s1(4) by (intro gives_append n1 s1(3)) (simp add: rc_ok_def)
  from add_step [OF s1(4) this] obtain s2 g where
    s2: "recreate_func ''pointless_create_vector_value_append() failure''
           (pointless_create_vector_value_append (rs_c s1) h x) s1 = Some (s2, Inr g)"
      "moved p 0 s1 s2" "rc_ok p s2" "unmarked s2 = unmarked s1" "pot p s2 \<le> pot p s1" .
  have "unmarked s2 < m" "pot p s2 + length is < 2 ^ 32 - 4"
    using s1(5,6) s2(4,5) Cons.prems(5) by simp_all
  from Cons.IH [OF s2(3) this(1) moved_names [OF s2(2) n1] _ this(2)] Cons.prems(4) obtain s3 where
    s3: "recreate_items rec h xs is s2 = Some (s3, Inr h)" "moved p (length is) s2 s3" by auto
  have "moved p (1 + 0 + length is) s s3" by (rule moved_trans [OF moved_trans [OF s1(2) s2(2)] s3(2)])
  then show ?case using i(1) s1(1) s2(1) s3(1) by simp
qed

text \<open>One call of an iterator: the next slot in use, with its key and value.\<close>

lemma nat_u32: "i \<le> unat (n :: u32) \<Longrightarrow> unat (of_nat i :: u32) = i"
proof -
  assume "i \<le> unat n"
  then have "i < 2 ^ LENGTH(32)" using unsigned_less [of n] by (rule le_less_trans)
  then show ?thesis by (simp add: unsigned_of_nat take_bit_nat_eq_self)
qed

lemma set_iter_step:
  assumes t: "set_header_at p v = Some sh" "pointless_reader_vector_n_items p (sh_key_vector sh) = Some n"
      "pointless_reader_vector_value p (sh_key_vector sh) = Some kv"
    and len: "unat n \<le> length kv" and i: "i \<le> unat n"
  shows "used_from kv i (unat n) = [] \<Longrightarrow> \<exists>st. pointless_reader_set_iter p v (of_nat i) = Some (None, st)"
    and "used_from kv i (unat n) = j # js \<Longrightarrow>
      \<exists>a. pointless_reader_set_iter p v (of_nat i) = Some (Some a, of_nat (Suc j)) \<and> read_value (p_buf p) a = Some (kv ! j)"
proof -
  note u = nat_u32 [OF i]
  have le: "of_nat i \<le> n" using i by (simp add: word_le_nat_alt u)
  have lt: "of_nat i < n \<longleftrightarrow> i < unat n" by (simp add: word_less_nat_alt u)
  note spec = iter_loop_spec [OF len le, unfolded u]
  show "used_from kv i (unat n) = [] \<Longrightarrow> \<exists>st. pointless_reader_set_iter p v (of_nat i) = Some (None, st)"
    using t lt spec by (simp add: pointless_reader_set_iter_def)
  assume c: "used_from kv i (unat n) = j # js"
  note tl = used_from_tail [OF c]
  then have "j < length kv" using len by simp
  from value_addr_at [OF t(3) this] obtain a where
    a: "value_addr p (sh_key_vector sh) j = Some a" "read_value (p_buf p) a = Some (kv ! j)" by blast
  then show "\<exists>a. pointless_reader_set_iter p v (of_nat i) = Some (Some a, of_nat (Suc j)) \<and> read_value (p_buf p) a = Some (kv ! j)"
    using t lt spec tl c by (simp add: pointless_reader_set_iter_def)
qed

lemma map_iter_step:
  assumes t: "map_header_at p v = Some mh" "pointless_reader_vector_n_items p (mh_key_vector mh) = Some n"
      "pointless_reader_vector_value p (mh_key_vector mh) = Some kv"
      "pointless_reader_vector_value p (mh_value_vector mh) = Some vv"
    and len: "unat n \<le> length kv" "unat n \<le> length vv" and i: "i \<le> unat n"
  shows "used_from kv i (unat n) = [] \<Longrightarrow> \<exists>st. pointless_reader_map_iter p v (of_nat i) = Some (None, st)"
    and "used_from kv i (unat n) = j # js \<Longrightarrow>
      \<exists>a b. pointless_reader_map_iter p v (of_nat i) = Some (Some (a, b), of_nat (Suc j)) \<and>
        read_value (p_buf p) a = Some (kv ! j) \<and> read_value (p_buf p) b = Some (vv ! j)"
proof -
  note u = nat_u32 [OF i]
  have le: "of_nat i \<le> n" using i by (simp add: word_le_nat_alt u)
  have lt: "of_nat i < n \<longleftrightarrow> i < unat n" by (simp add: word_less_nat_alt u)
  note spec = iter_loop_spec [OF len(1) le, unfolded u]
  show "used_from kv i (unat n) = [] \<Longrightarrow> \<exists>st. pointless_reader_map_iter p v (of_nat i) = Some (None, st)"
    using t lt spec by (simp add: pointless_reader_map_iter_def)
  assume c: "used_from kv i (unat n) = j # js"
  note tl = used_from_tail [OF c]
  then have "j < length kv" "j < length vv" using len by simp_all
  from value_addr_at [OF t(3) this(1)] value_addr_at [OF t(4) this(2)] obtain a b where
    a: "value_addr p (mh_key_vector mh) j = Some a" "read_value (p_buf p) a = Some (kv ! j)"
      "value_addr p (mh_value_vector mh) j = Some b" "read_value (p_buf p) b = Some (vv ! j)" by blast
  then show "\<exists>a b. pointless_reader_map_iter p v (of_nat i) = Some (Some (a, b), of_nat (Suc j)) \<and>
      read_value (p_buf p) a = Some (kv ! j) \<and> read_value (p_buf p) b = Some (vv ! j)"
    using t lt spec tl c by (simp add: pointless_reader_map_iter_def)
qed

lemma set_loop:
  assumes rec: "rec_ok p m rec"
    and t: "set_header_at p v = Some sh" "pointless_reader_vector_n_items p (sh_key_vector sh) = Some n"
      "pointless_reader_vector_value p (sh_key_vector sh) = Some kv"
    and len: "unat n \<le> length kv" and reach: "\<forall>j < unat n. reachable p (kv ! j)"
    and "rc_ok p s" and "unmarked s < m" and "names POINTLESS_SET_VALUE (rs_c s) h"
    and "i \<le> unat n" and "pot p s + length (used_from kv i (unat n)) < 2 ^ 32 - 4"
  shows "\<exists>s'. recreate_set_items rec h v (of_nat i) s = Some (s', Inr h) \<and>
    moved p (length (used_from kv i (unat n))) s s'"
  using assms(7-)
proof (induction "used_from kv i (unat n)" arbitrary: i s)
  case Nil
  have "rs_p s = p" using Nil(2) by (simp add: rc_ok_def)
  moreover obtain st where "pointless_reader_set_iter p v (of_nat i) = Some (None, st)"
    using set_iter_step(1) [OF t len Nil(5)] Nil(1) by metis
  ultimately show ?case using Nil(2) by (subst recreate_set_items.simps) (simp add: moved_refl)
next
  case (Cons j js)
  note tl = used_from_tail [OF Cons(2) [symmetric]]
  have p: "rs_p s = p" using Cons(3) by (simp add: rc_ok_def)
  obtain a where a: "pointless_reader_set_iter p v (of_nat i) = Some (Some a, of_nat (Suc j))"
    "read_value (p_buf p) a = Some (kv ! j)"
    using set_iter_step(2) [OF t len Cons(6) Cons(2) [symmetric]] by blast
  have bound: "pot p s + Suc (length js) < 2 ^ 32 - 4" using Cons(7) unfolding Cons(2) [symmetric] by simp
  then have "pot p s + 1 < 2 ^ 32 - 4" by simp
  moreover have "reachable p (kv ! j)" using reach tl by blast
  ultimately obtain s1 x where
    s1: "rec s (kv ! j) = Some (s1, Inr x)" "moved p 1 s s1" "handle_of (rs_c s1) x" "rc_ok p s1"
      "unmarked s1 < m" "pot p s1 \<le> pot p s + 1"
    using rec_step [OF rec Cons(3) _ Cons(4)] by metis
  have n1: "names POINTLESS_SET_VALUE (rs_c s1) h" by (rule moved_names [OF s1(2) Cons(5)])
  have "gives 0 (rs_c s1) (pointless_create_set_add (rs_c s1) h x)"
    using s1(4) by (intro gives_set_add n1) (simp add: rc_ok_def)
  from add_step [OF s1(4) this] obtain s2 g where
    s2: "recreate_func ''pointless_create_set_add() failure'' (pointless_create_set_add (rs_c s1) h x) s1 = Some (s2, Inr g)"
      "moved p 0 s1 s2" "rc_ok p s2" "unmarked s2 = unmarked s1" "pot p s2 \<le> pot p s1" .
  have js: "js = used_from kv (Suc j) (unat n)" and j: "Suc j \<le> unat n" using tl by auto
  have "unmarked s2 < m" "pot p s2 + length (used_from kv (Suc j) (unat n)) < 2 ^ 32 - 4"
    using s1(5,6) s2(4,5) bound unfolding js [symmetric] by simp_all
  from Cons(1) [OF js s2(3) this(1) moved_names [OF s2(2) n1] j this(2)] obtain s3 where
    s3: "recreate_set_items rec h v (of_nat (Suc j)) s2 = Some (s3, Inr h)"
      "moved p (length js) s2 s3" unfolding js [symmetric] by blast
  have "moved p (1 + 0 + length js) s s3" by (rule moved_trans [OF moved_trans [OF s1(2) s2(2)] s3(2)])
  moreover have "recreate_set_items rec h v (of_nat i) s = Some (s3, Inr h)"
    by (subst recreate_set_items.simps) (simp add: p a s1(1) s2(1) s3(1) del: of_nat_Suc)
  ultimately show ?case unfolding Cons(2) [symmetric] by simp
qed

lemma map_loop:
  assumes rec: "rec_ok p m rec"
    and t: "map_header_at p v = Some mh" "pointless_reader_vector_n_items p (mh_key_vector mh) = Some n"
      "pointless_reader_vector_value p (mh_key_vector mh) = Some kv"
      "pointless_reader_vector_value p (mh_value_vector mh) = Some vv"
    and len: "unat n \<le> length kv" "unat n \<le> length vv"
    and reach: "\<forall>j < unat n. reachable p (kv ! j) \<and> reachable p (vv ! j)"
    and "rc_ok p s" and "unmarked s < m" and "names POINTLESS_MAP_VALUE_VALUE (rs_c s) h"
    and "i \<le> unat n" and "pot p s + 2 * length (used_from kv i (unat n)) < 2 ^ 32 - 4"
  shows "\<exists>s'. recreate_map_items rec h v (of_nat i) s = Some (s', Inr h) \<and>
    moved p (2 * length (used_from kv i (unat n))) s s'"
  using assms(9-)
proof (induction "used_from kv i (unat n)" arbitrary: i s)
  case Nil
  have "rs_p s = p" using Nil(2) by (simp add: rc_ok_def)
  moreover obtain st where "pointless_reader_map_iter p v (of_nat i) = Some (None, st)"
    using map_iter_step(1) [OF t len Nil(5)] Nil(1) by metis
  ultimately show ?case using Nil(2) by (subst recreate_map_items.simps) (simp add: moved_refl)
next
  case (Cons j js)
  note tl = used_from_tail [OF Cons(2) [symmetric]]
  have p: "rs_p s = p" using Cons(3) by (simp add: rc_ok_def)
  obtain a b where a: "pointless_reader_map_iter p v (of_nat i) = Some (Some (a, b), of_nat (Suc j))"
    "read_value (p_buf p) a = Some (kv ! j)" "read_value (p_buf p) b = Some (vv ! j)"
    using map_iter_step(2) [OF t len Cons(6) Cons(2) [symmetric]] by blast
  have bound: "pot p s + 2 + 2 * length js < 2 ^ 32 - 4" using Cons(7) unfolding Cons(2) [symmetric] by simp
  then have b1: "pot p s + 1 < 2 ^ 32 - 4" by simp
  have r: "reachable p (kv ! j)" "reachable p (vv ! j)" using reach tl by blast+
  from rec_step [OF rec Cons(3) r(1) Cons(4) b1] obtain s1 x where
    s1: "rec s (kv ! j) = Some (s1, Inr x)" "moved p 1 s s1" "handle_of (rs_c s1) x" "rc_ok p s1"
      "unmarked s1 < m" "pot p s1 \<le> pot p s + 1" .
  have p1: "rs_p s1 = p" using s1(4) by (simp add: rc_ok_def)
  have "pot p s1 + 1 < 2 ^ 32 - 4" using s1(6) bound by simp
  from rec_step [OF rec s1(4) r(2) s1(5) this] obtain s1' y where
    y: "rec s1 (vv ! j) = Some (s1', Inr y)" "moved p 1 s1 s1'" "handle_of (rs_c s1') y" "rc_ok p s1'"
      "unmarked s1' < m" "pot p s1' \<le> pot p s1 + 1" .
  have n1: "names POINTLESS_MAP_VALUE_VALUE (rs_c s1') h"
    by (rule moved_names [OF y(2) moved_names [OF s1(2) Cons(5)]])
  have "gives 0 (rs_c s1') (pointless_create_map_add (rs_c s1') h x y)"
    using y(4) by (intro gives_map_add n1) (simp add: rc_ok_def)
  from add_step [OF y(4) this] obtain s2 g where
    s2: "recreate_func ''pointless_create_map_add() failure'' (pointless_create_map_add (rs_c s1') h x y) s1' = Some (s2, Inr g)"
      "moved p 0 s1' s2" "rc_ok p s2" "unmarked s2 = unmarked s1'" "pot p s2 \<le> pot p s1'" .
  have js: "js = used_from kv (Suc j) (unat n)" and j: "Suc j \<le> unat n" using tl by auto
  have "unmarked s2 < m" "pot p s2 + 2 * length (used_from kv (Suc j) (unat n)) < 2 ^ 32 - 4"
    using s1(6) y(5,6) s2(4,5) bound unfolding js [symmetric] by simp_all
  from Cons(1) [OF js s2(3) this(1) moved_names [OF s2(2) n1] j this(2)] obtain s3 where
    s3: "recreate_map_items rec h v (of_nat (Suc j)) s2 = Some (s3, Inr h)"
      "moved p (2 * length js) s2 s3" unfolding js [symmetric] by blast
  have "moved p (1 + 1 + 0 + 2 * length js) s s3"
    by (rule moved_trans [OF moved_trans [OF moved_trans [OF s1(2) y(2)] s2(2)] s3(2)])
  moreover have "recreate_map_items rec h v (of_nat i) s = Some (s3, Inr h)"
    by (subst recreate_map_items.simps) (simp add: p p1 a s1(1) y(1) s2(1) s3(1) del: of_nat_Suc)
  ultimately show ?case unfolding Cons(2) [symmetric] by simp
qed


section \<open>Containers\<close>

lemma vector_bound:
  assumes "wf_reader p" and "value_ok p v" and "v_type v \<in> {POINTLESS_VECTOR_VALUE, POINTLESS_VECTOR_VALUE_HASHABLE}"
  obtains n xs where "pointless_reader_vector_n_items p v = Some n" and "pointless_reader_vector_value p v = Some xs"
    and "unat n \<le> length xs" and "unat n \<le> length (p_buf p)" and "children p v = Some (take (unat n) xs)"
proof -
  have t: "v_type v \<in> heap_vector_types" and l: "unat (vector_item_len (v_type v)) = 8"
    using assms(3) by (auto simp: vector_item_len_def)
  from vector_readable [OF assms(1,2) t] l obtain a n where
    a: "pointless_reader_vector_base_ptr p v = Some (Some a)"
    "pointless_reader_vector_n_items p v = Some n" "a + 8 * unat n \<le> length (p_buf p)" by metis
  have le: "unat n \<le> length (view_values (p_buf p) a)"
    using a(3) by (simp add: view_values_def length_chunks)
  have vv: "pointless_reader_vector_value p v = Some (view_values (p_buf p) a)"
    using a(1) by (simp add: pointless_reader_vector_value_def)
  moreover have "children p v = Some (take (unat n) (view_values (p_buf p) a))"
    using assms(3) a(2) vv le by (simp add: children_def)
  ultimately show ?thesis using that a(2,3) le by simp
qed

lemma item_reachable:
  assumes "reachable p v" and "children p v = Some (take n xs)" and "n \<le> length xs" and "i < n"
  shows "reachable p (xs ! i)"
proof (rule reachable.child [OF assms(1,2)])
  show "xs ! i \<in> set (take n xs)" using assms(3,4) by (metis in_set_conv_nth length_take min.absorb2 nth_take)
qed

lemma used_from_length: "length (used_from kv i n) \<le> n"
  using length_filter_le [of "used_slot kv" "[i..<n]"] by simp

text \<open>The tables of the sets and maps of an opened file, and their items.\<close>

lemma set_contents:
  assumes op: "opened p" and v: "reachable p v" and t: "v_type v = POINTLESS_SET_VALUE"
  obtains sh n kv where "set_header_at p v = Some sh" and "pointless_reader_vector_n_items p (sh_key_vector sh) = Some n"
    and "pointless_reader_vector_value p (sh_key_vector sh) = Some kv" and "unat n \<le> length kv"
    and "unat n \<le> length (p_buf p)"
    and "\<forall>j < unat n. reachable p (kv ! j)" and "length (used_from kv 0 (unat n)) = unat (sh_n_items sh)"
proof -
  obtain hf n hv kv where "valid_set hf p v n hv kv"
    using op v opened_set [OF _ t] unfolding opened_def by metis
  then obtain sh where sh: "set_header_at p v = Some sh" "pointless_reader_vector_n_items p (sh_key_vector sh) = Some n"
    "pointless_reader_vector_value p (sh_key_vector sh) = Some kv" "table_valid hf p (sh_n_items sh) n hv kv"
    by (auto elim!: valid_setE)
  have len: "unat n \<le> length kv" using sh(4) by (simp add: table_valid_def)
  have "children p v = Some [sh_hash_vector sh, sh_key_vector sh]" using t sh(1) by (simp add: children_def)
  then have kr: "reachable p (sh_key_vector sh)" by (rule reachable.child [OF v]) simp
  have kt: "v_type (sh_key_vector sh) = POINTLESS_VECTOR_VALUE_HASHABLE"
    using set_readable [OF _ t] opened_ok [OF op v] sh(1) by force
  obtain n' xs where xs: "pointless_reader_vector_n_items p (sh_key_vector sh) = Some n'"
    "pointless_reader_vector_value p (sh_key_vector sh) = Some xs" "unat n' \<le> length (p_buf p)"
    "children p (sh_key_vector sh) = Some (take (unat n') xs)"
    using vector_bound [of p "sh_key_vector sh"] opened_ok [OF op kr] kt by (metis insertCI)
  have "\<forall>j < unat n. reachable p (kv ! j)" using item_reachable [OF kr _ len] xs sh(2,3) by simp
  with that [OF sh(1-3) len] sh(2,4) xs(1,3) show ?thesis by (simp add: table_valid_def)
qed

lemma map_contents:
  assumes op: "opened p" and v: "reachable p v" and t: "v_type v = POINTLESS_MAP_VALUE_VALUE"
  obtains mh n kv vv where "map_header_at p v = Some mh" and "pointless_reader_vector_n_items p (mh_key_vector mh) = Some n"
    and "pointless_reader_vector_value p (mh_key_vector mh) = Some kv"
    and "pointless_reader_vector_value p (mh_value_vector mh) = Some vv"
    and "unat n \<le> length kv" and "unat n \<le> length vv" and "unat n \<le> length (p_buf p)"
    and "\<forall>j < unat n. reachable p (kv ! j) \<and> reachable p (vv ! j)"
    and "length (used_from kv 0 (unat n)) = unat (mh_n_items mh)"
proof -
  from op obtain hf where all: "all_ok p" and "table_ok hf p v" using v unfolding opened_def by blast
  from map_table [OF this(2) t] obtain mh n hv kv vv where mh: "map_header_at p v = Some mh"
    "pointless_reader_vector_n_items p (mh_key_vector mh) = Some n"
    "pointless_reader_vector_n_items p (mh_value_vector mh) = Some n"
    "pointless_reader_vector_value p (mh_key_vector mh) = Some kv"
    "pointless_reader_vector_value p (mh_value_vector mh) = Some vv"
    "table_valid hf p (mh_n_items mh) n hv kv" by metis
  have len: "unat n \<le> length kv" using mh(6) by (simp add: table_valid_def)
  have len2: "unat n \<le> length vv" by (rule map_values_length [OF all v t mh(1,3,5)])
  have c: "children p v = Some [mh_hash_vector mh, mh_key_vector mh, mh_value_vector mh]"
    using t mh(1) by (simp add: children_def)
  then have kr: "reachable p (mh_key_vector mh)" and vr: "reachable p (mh_value_vector mh)"
    by (auto intro: reachable.child [OF v])
  have kt: "v_type (mh_key_vector mh) = POINTLESS_VECTOR_VALUE_HASHABLE"
      "v_type (mh_value_vector mh) \<in> {POINTLESS_VECTOR_VALUE, POINTLESS_VECTOR_VALUE_HASHABLE}"
    using map_readable [OF _ t] opened_ok [OF op v] mh(1) by force+
  obtain n' xs where xs: "pointless_reader_vector_n_items p (mh_key_vector mh) = Some n'"
    "pointless_reader_vector_value p (mh_key_vector mh) = Some xs" "unat n' \<le> length (p_buf p)"
    "children p (mh_key_vector mh) = Some (take (unat n') xs)"
    using vector_bound [of p "mh_key_vector mh"] opened_ok [OF op kr] kt(1) by (metis insertCI)
  obtain m ys where ys: "pointless_reader_vector_n_items p (mh_value_vector mh) = Some m"
    "pointless_reader_vector_value p (mh_value_vector mh) = Some ys"
    "children p (mh_value_vector mh) = Some (take (unat m) ys)"
    using vector_bound [of p "mh_value_vector mh"] opened_ok [OF op vr] kt(2) by metis
  have "\<forall>j < unat n. reachable p (kv ! j) \<and> reachable p (vv ! j)"
    using item_reachable [OF kr _ len] item_reachable [OF vr _ len2] xs ys mh(2-5) by simp
  with that [OF mh(1,2,4,5) len len2] mh(2,6) xs(1,3) show ?thesis by (simp add: table_valid_def)
qed

text \<open>Filling a container that was created and marked.\<close>

lemma container_returns:
  assumes ok: "rc_ok p s" and v: "value_ok p v" and k: "r_c_kind (v_type v) = Some k"
    and free: "r_c_mapping k s ! unat (v_data v) = UINT32_MAX"
    and c: "call = Some (h, c)" "grown m (rs_c s) c" "names t c h"
    and m: "m + n \<le> object_cost p k (unat (v_data v)) + 1"
    and fill: "\<And>s'. rc_ok p s' \<Longrightarrow> Suc (unmarked s') = unmarked s \<Longrightarrow> names t (rs_c s') h \<Longrightarrow>
      pot p s' + object_cost p k (unat (v_data v)) \<le> pot p s + m \<Longrightarrow> \<exists>s''. f s' h = Some (s'', Inr h) \<and> moved p n s' s''"
  shows "returns p 1 s (and_recreate (recreate_func e call s) (marked k v f))"
proof -
  have h: "handle_of c h" by (rule names_handle [OF c(3)])
  have rd: "ready c" using c(2) by (simp add: grown_def)
  have func: "recreate_func e call s = Some (s\<lparr>rs_c := c\<rparr>, Inr h)"
    using handle_not_fail [OF rd h] by (simp add: recreate_func_def c(1))
  obtain s' where s': "set_handle_of k v h (s\<lparr>rs_c := c\<rparr>) = Some s'" "rs_c s' = c" "rc_ok p s'"
    "later (rs_c s) (rs_c s')" "length (c_values (rs_c s)) \<le> length (c_values (rs_c s'))"
    "Suc (unmarked s') = unmarked s" "pot p s' + object_cost p k (unat (v_data v)) \<le> pot p s + m"
    by (rule marked_moves [OF ok object_in [OF v k] free c(2) h])
  from fill [OF s'(3,6) _ s'(7)] c(3) s'(2) obtain s'' where
    s'': "f s' h = Some (s'', Inr h)" "moved p n s' s''" by auto
  have "later (rs_c s) (rs_c s'')" using later_trans [OF s'(4)] s''(2) by (simp add: moved_def)
  moreover have "pot p s'' \<le> pot p s + 1" using s''(2) s'(7) m by (simp add: moved_def)
  ultimately have "moved p 1 s s''" using s''(2) s'(5,6) by (simp add: moved_def)
  moreover have "handle_of (rs_c s'') h" using moved_handle [OF s''(2)] h s'(2) by simp
  ultimately show ?thesis by (auto simp: returns_def func marked_def s'(1) s''(1))
qed

text \<open>A fresh object leaves room for what it costs.\<close>

lemma room:
  assumes "i < length (r_c_mapping k s)" and "r_c_mapping k s ! i = UINT32_MAX"
  shows "length (c_values (rs_c s)) + object_cost p k i \<le> pot p s"
proof -
  have "object_cost p k i \<le> unpaid p k (r_c_mapping k s)"
    using unpaid_update [OF assms, of 0 p k] by simp
  then show ?thesis by (cases k) (simp_all add: pot_def r_c_kinds_def)
qed

text \<open>The costs of the containers of a file.\<close>

lemma container_cost:
  shows "v_type v \<noteq> POINTLESS_VECTOR_EMPTY \<Longrightarrow> pointless_reader_vector_n_items p v = Some n \<Longrightarrow>
      object_cost p RC_Vector (unat (v_data v)) = unat n"
    and "set_header_at p v = Some sh \<Longrightarrow> object_cost p RC_Set (unat (v_data v)) = 2 + unat (sh_n_items sh)"
    and "map_header_at p v = Some mh \<Longrightarrow> object_cost p RC_Map (unat (v_data v)) = 3 + 2 * unat (mh_n_items mh)"
  by (simp_all add: pointless_reader_vector_n_items_def pointless_reader_set_n_items_def
      pointless_reader_map_n_items_def set_header_at_def map_header_at_def)

lemma value_vector_returns:
  assumes op: "opened p" and rec: "rec_ok p m rec" and ok: "rc_ok p s" and v: "reachable p v"
    and t: "v_type v \<in> {POINTLESS_VECTOR_VALUE, POINTLESS_VECTOR_VALUE_HASHABLE}"
    and m: "unmarked s \<le> m" and pot: "pot p s + 1 < 2 ^ 32 - 4"
    and free: "r_c_mapping RC_Vector s ! unat (v_data v) = UINT32_MAX"
    and n: "pointless_reader_vector_n_items p v = Some n"
  shows "returns p 1 s (and_recreate (recreate_func e (Some (pointless_create_vector_value (rs_c s))) s)
    (marked RC_Vector v (\<lambda>state handle. do {
       child_v \<leftarrow> pointless_reader_vector_value p v;
       recreate_items rec handle child_v [0..<unat n] state })))"
proof -
  from opened_ok [OF op v] have wf: "wf_reader p" and vo: "value_ok p v" by simp_all
  obtain n' xs where xs: "pointless_reader_vector_n_items p v = Some n'" "pointless_reader_vector_value p v = Some xs"
    "unat n' \<le> length xs" "unat n' \<le> length (p_buf p)" "children p v = Some (take (unat n') xs)"
    by (rule vector_bound [OF wf vo t])
  have k: "r_c_kind (v_type v) = Some RC_Vector" using t by (auto simp: r_c_kind_def)
  have cost: "object_cost p RC_Vector (unat (v_data v)) = unat n"
    using t by (intro container_cost(1) n) auto
  have "ready (rs_c s)" using ok by (simp add: rc_ok_def)
  moreover have "length (c_values (rs_c s)) + 1 < 2 ^ 32 - 4" using pot pot_length [of s p] by simp
  ultimately obtain h c where h: "pointless_create_vector_value (rs_c s) = (h, c)" "grown 1 (rs_c s) c"
    "names POINTLESS_VECTOR_VALUE c h" using gives_vector_value by blast
  show ?thesis
  proof (rule container_returns [OF ok vo k free _ h(2,3), where n = "unat n"])
    fix s' assume s': "rc_ok p s'" "Suc (unmarked s') = unmarked s" "names POINTLESS_VECTOR_VALUE (rs_c s') h"
      "pot p s' + object_cost p RC_Vector (unat (v_data v)) \<le> pot p s + 1"
    have nn: "n' = n" using xs(1) n by simp
    have "\<forall>i \<in> set [0..<unat n]. i < length xs \<and> reachable p (xs ! i)"
      using item_reachable [OF v xs(5,3)] xs(3) by (auto simp: nn)
    moreover have "pot p s' + length [0..<unat n] < 2 ^ 32 - 4"
      using s'(4) pot cost by simp
    moreover have "unmarked s' < m" using s'(2) m by simp
    ultimately show "\<exists>s''. (do { child_v \<leftarrow> pointless_reader_vector_value p v;
        recreate_items rec h child_v [0..<unat n] s' }) = Some (s'', Inr h) \<and> moved p (unat n) s' s''"
      using items_loop [OF rec s'(1) _ s'(3)] xs(2) by fastforce
  qed (use cost h(1) in simp_all)
qed

lemma set_returns:
  assumes op: "opened p" and rec: "rec_ok p m rec" and ok: "rc_ok p s" and v: "reachable p v"
    and t: "v_type v = POINTLESS_SET_VALUE"
    and m: "unmarked s \<le> m" and pot: "pot p s + 1 < 2 ^ 32 - 4"
    and free: "r_c_mapping RC_Set s ! unat (v_data v) = UINT32_MAX"
  shows "returns p 1 s (and_recreate (recreate_func e (pointless_create_set (rs_c s)) s)
    (marked RC_Set v (\<lambda>state handle. recreate_set_items rec handle v 0 state)))"
proof -
  from opened_ok [OF op v] have wf: "wf_reader p" and vo: "value_ok p v" by simp_all
  have k: "r_c_kind (v_type v) = Some RC_Set" using t by (simp add: r_c_kind_def)
  have i: "unat (v_data v) < length (r_c_mapping RC_Set s)"
    by (rule object_slot [OF ok vo k])
  obtain sh n kv where sh: "set_header_at p v = Some sh" "pointless_reader_vector_n_items p (sh_key_vector sh) = Some n"
    "pointless_reader_vector_value p (sh_key_vector sh) = Some kv" "unat n \<le> length kv" "unat n \<le> length (p_buf p)"
    "\<forall>j < unat n. reachable p (kv ! j)" "length (used_from kv 0 (unat n)) = unat (sh_n_items sh)"
    by (rule set_contents [OF op v t])
  note cost = container_cost(2) [OF sh(1)]
  have "ready (rs_c s)" using ok by (simp add: rc_ok_def)
  moreover have "length (c_values (rs_c s)) + 3 < 2 ^ 32 - 4" using pot room [OF i free, of p] cost by simp
  ultimately obtain h c where h: "pointless_create_set (rs_c s) = Some (h, c)" "grown 3 (rs_c s) c"
    "names POINTLESS_SET_VALUE c h" using gives_set by blast
  show ?thesis
  proof (rule container_returns [OF ok vo k free h, where n = "length (used_from kv 0 (unat n))"])
    fix s' assume s': "rc_ok p s'" "Suc (unmarked s') = unmarked s" "names POINTLESS_SET_VALUE (rs_c s') h"
      "pot p s' + object_cost p RC_Set (unat (v_data v)) \<le> pot p s + 3"
    have "pot p s' + length (used_from kv 0 (unat n)) < 2 ^ 32 - 4" "unmarked s' < m"
      using s'(2,4) pot cost m by (simp_all add: sh(7))
    from set_loop [OF rec sh(1-4,6) s'(1) this(2) s'(3) _ this(1)]
    show "\<exists>s''. recreate_set_items rec h v 0 s' = Some (s'', Inr h) \<and> moved p (length (used_from kv 0 (unat n))) s' s''"
      by simp
  qed (use cost sh(7) in simp_all)
qed

lemma map_returns:
  assumes op: "opened p" and rec: "rec_ok p m rec" and ok: "rc_ok p s" and v: "reachable p v"
    and t: "v_type v = POINTLESS_MAP_VALUE_VALUE"
    and m: "unmarked s \<le> m" and pot: "pot p s + 1 < 2 ^ 32 - 4"
    and free: "r_c_mapping RC_Map s ! unat (v_data v) = UINT32_MAX"
  shows "returns p 1 s (and_recreate (recreate_func e (pointless_create_map (rs_c s)) s)
    (marked RC_Map v (\<lambda>state handle. recreate_map_items rec handle v 0 state)))"
proof -
  from opened_ok [OF op v] have wf: "wf_reader p" and vo: "value_ok p v" by simp_all
  have k: "r_c_kind (v_type v) = Some RC_Map" using t by (simp add: r_c_kind_def)
  have i: "unat (v_data v) < length (r_c_mapping RC_Map s)"
    by (rule object_slot [OF ok vo k])
  obtain mh n kv vv where mh: "map_header_at p v = Some mh" "pointless_reader_vector_n_items p (mh_key_vector mh) = Some n"
    "pointless_reader_vector_value p (mh_key_vector mh) = Some kv"
    "pointless_reader_vector_value p (mh_value_vector mh) = Some vv" "unat n \<le> length kv" "unat n \<le> length vv"
    "unat n \<le> length (p_buf p)" "\<forall>j < unat n. reachable p (kv ! j) \<and> reachable p (vv ! j)"
    "length (used_from kv 0 (unat n)) = unat (mh_n_items mh)"
    by (rule map_contents [OF op v t])
  note cost = container_cost(3) [OF mh(1)]
  have "ready (rs_c s)" using ok by (simp add: rc_ok_def)
  moreover have "length (c_values (rs_c s)) + 4 < 2 ^ 32 - 4" using pot room [OF i free, of p] cost by simp
  ultimately obtain h c where h: "pointless_create_map (rs_c s) = Some (h, c)" "grown 4 (rs_c s) c"
    "names POINTLESS_MAP_VALUE_VALUE c h" using gives_map by blast
  show ?thesis
  proof (rule container_returns [OF ok vo k free h, where n = "2 * length (used_from kv 0 (unat n))"])
    fix s' assume s': "rc_ok p s'" "Suc (unmarked s') = unmarked s" "names POINTLESS_MAP_VALUE_VALUE (rs_c s') h"
      "pot p s' + object_cost p RC_Map (unat (v_data v)) \<le> pot p s + 4"
    have "pot p s' + 2 * length (used_from kv 0 (unat n)) < 2 ^ 32 - 4" "unmarked s' < m"
      using s'(2,4) pot cost m by (simp_all add: mh(9))
    from map_loop [OF rec mh(1-6,8) s'(1) this(2) s'(3) _ this(1)]
    show "\<exists>s''. recreate_map_items rec h v 0 s' = Some (s'', Inr h) \<and> moved p (2 * length (used_from kv 0 (unat n))) s' s''"
      by simp
  qed (use cost mh(9) in simp_all)
qed


section \<open>The recursion\<close>

lemma known_returns:
  assumes ok: "rc_ok p s" and v: "value_ok p v" and k: "r_c_kind (v_type v) = Some k"
  shows "previous_handle state v = Some h \<Longrightarrow> state = s \<Longrightarrow> h \<noteq> UINT32_MAX \<Longrightarrow> returns p 1 s (rc_return s h)"
proof -
  assume h: "previous_handle state v = Some h" "state = s" "h \<noteq> UINT32_MAX"
  then have "h \<in> set (r_c_mapping k s)" using k by (auto simp: previous_handle_def arr_get_Some_iff)
  then have "handle_of (rs_c s) h" using ok h(3) unfolding rc_ok_def by blast
  then show ?thesis using moved_refl [OF ok] by (simp add: returns_def rc_return_def)
qed

lemma numbers_returns:
  assumes ok: "rc_ok p s" and wf: "wf_reader p" and v: "value_ok p v" and len: "length (c_values (rs_c s)) + 1 < 2 ^ 32 - 4"
    and t: "v_type v \<in> {POINTLESS_VECTOR_I8, POINTLESS_VECTOR_U8, POINTLESS_VECTOR_I16, POINTLESS_VECTOR_U16,
      POINTLESS_VECTOR_I32, POINTLESS_VECTOR_U32, POINTLESS_VECTOR_I64, POINTLESS_VECTOR_U64, POINTLESS_VECTOR_FLOAT}"
    and free: "vector_r_c_mapping s ! unat (v_data v) = UINT32_MAX"
    and n: "previous_handle s v = Some UINT32_MAX"
  shows "returns p 1 s (pointless_recreate_convert_rec (Suc fuel) s v)"
proof -
  have ht: "v_type v \<in> heap_vector_types" using t by blast
  obtain a c where a: "pointless_reader_vector_base_ptr p v = Some (Some a)" "pointless_reader_vector_n_items p v = Some c"
    using vector_readable [OF wf v ht] by metis
  have k: "r_c_kind (v_type v) = Some RC_Vector" using ht by (auto simp: r_c_kind_def)
  have view: "vector_view w p v = Some (view_le w (p_buf p) a)" for w by (simp add: vector_view_def a(1))
  note step = recreate_vector_returns [OF ok len v k free a(2)]
  have p: "rs_p s = p" using ok by (simp add: rc_ok_def)
  show ?thesis
    using t by (elim insertE emptyE)
      (simp_all add: n Let_def del: One_nat_def, (rule step, (simp add: vector_accessor_defs view; fail),
        (simp add: pointless_create_vector_i8_owner_def pointless_create_vector_u8_owner_def
          pointless_create_vector_i16_owner_def pointless_create_vector_u16_owner_def
          pointless_create_vector_i32_owner_def pointless_create_vector_u32_owner_def
          pointless_create_vector_i64_owner_def pointless_create_vector_u64_owner_def
          pointless_create_vector_float_owner_def; fail), (simp add: number_width_def; fail))+)
qed

lemma string_returns:
  assumes ok: "rc_ok p s" and v: "value_ok p v" and len: "length (c_values (rs_c s)) + 1 < 2 ^ 32 - 4"
    and t: "v_type v \<in> {POINTLESS_UNICODE, POINTLESS_STRING}"
    and free: "string_unicode_r_c_mapping s ! unat (v_data v) = UINT32_MAX"
    and n: "previous_handle s v = Some UINT32_MAX"
  shows "returns p 1 s (pointless_recreate_convert_rec (Suc fuel) s v)"
proof -
  have p: "rs_p s = p" "ready (rs_c s)" using ok by (simp_all add: rc_ok_def)
  have k: "r_c_kind (v_type v) = Some RC_String" using t by (auto simp: r_c_kind_def)
  have f: "r_c_mapping RC_String s ! unat (v_data v) = UINT32_MAX" using free by simp
  note leaf = leaf_returns [OF ok object_in [OF v k] f]
  have short: "length cs < 2 ^ 32" if "length cs = unat (m :: u32)" for cs :: "u32 list" and m
    using that unsigned_less [of m] by simp
  from t consider (unicode) "v_type v = POINTLESS_UNICODE" | (ascii) "v_type v = POINTLESS_STRING" by blast
  then show ?thesis
  proof cases
    case unicode
    from unicode_readable [OF v unicode] obtain x cs where
      x: "pointless_reader_unicode_value_ucs4 p v = Some x" "code_points x = Some cs" "length cs < 2 ^ 32"
      using short by blast
    show ?thesis using leaf [OF gives_unicode_ucs4 [OF p(2) len x(2,3)]] by (simp add: n Let_def unicode p x(1))
  next
    case ascii
    from string_readable [OF v ascii] obtain x cs where
      x: "pointless_reader_string_value_ascii p v = Some x" "code_points x = Some cs" "length cs < 2 ^ 32"
      using short by blast
    show ?thesis using leaf [OF gives_string_ascii [OF p(2) len x(2,3)]] by (simp add: n Let_def ascii p x(1))
  qed
qed

lemma step_returns:
  assumes op: "opened p" and rec: "rec_ok p m (pointless_recreate_convert_rec fuel)" and ok: "rc_ok p s"
    and v: "reachable p v" and m: "unmarked s \<le> m" and pot: "pot p s + 1 < 2 ^ 32 - 4"
  shows "returns p 1 s (pointless_recreate_convert_rec (Suc fuel) s v)"
proof -
  from opened_ok [OF op v] have wf: "wf_reader p" and vo: "value_ok p v" by simp_all
  have p: "rs_p s = p" using ok by (simp add: rc_ok_def)
  have len: "length (c_values (rs_c s)) + 1 < 2 ^ 32 - 4" using pot pot_length [of s p] by simp
  show ?thesis
  proof (cases "r_c_kind (v_type v)")
    case None
    have "v_type v \<in> {POINTLESS_VECTOR_EMPTY, POINTLESS_BITVECTOR_0, POINTLESS_BITVECTOR_1, POINTLESS_BITVECTOR_01,
      POINTLESS_BITVECTOR_10, POINTLESS_BITVECTOR_PACKED, POINTLESS_EMPTY_SLOT, POINTLESS_I32, POINTLESS_U32,
      POINTLESS_FLOAT, POINTLESS_BOOLEAN, POINTLESS_NULL}"
      using None known_type [OF vo] by (auto simp: r_c_kind_def split: if_split_asm)
    note inline = recreate_inline_returns [OF ok len this]
    have "previous_handle s v = Some UINT32_MAX" by (simp add: previous_handle_def None)
    then have "pointless_recreate_convert_rec (Suc fuel) s v = recreate_inline s v"
      using None by (simp add: Let_def) (auto simp: r_c_kind_def split: if_split_asm)
    with inline show ?thesis by simp
  next
    case (Some k)
    let ?i = "unat (v_data v)"
    have i: "?i < length (r_c_mapping k s)" by (rule object_slot [OF ok vo Some])
    have prev: "previous_handle s v = Some (r_c_mapping k s ! ?i)" using i by (simp add: previous_handle_def Some)
    show ?thesis
    proof (cases "r_c_mapping k s ! ?i = UINT32_MAX")
      case False
      from known_returns [OF ok vo Some prev refl False] show ?thesis by (simp add: prev False)
    next
      case free: True
      then have n: "previous_handle s v = Some UINT32_MAX" using prev by simp
      consider (items) "v_type v \<in> {POINTLESS_VECTOR_VALUE, POINTLESS_VECTOR_VALUE_HASHABLE}"
        | (numbers) "v_type v \<in> {POINTLESS_VECTOR_I8, POINTLESS_VECTOR_U8, POINTLESS_VECTOR_I16, POINTLESS_VECTOR_U16,
            POINTLESS_VECTOR_I32, POINTLESS_VECTOR_U32, POINTLESS_VECTOR_I64, POINTLESS_VECTOR_U64, POINTLESS_VECTOR_FLOAT}"
        | (string) "v_type v \<in> {POINTLESS_UNICODE, POINTLESS_STRING}" | (bits) "v_type v = POINTLESS_BITVECTOR"
        | (set) "v_type v = POINTLESS_SET_VALUE" | (map) "v_type v = POINTLESS_MAP_VALUE_VALUE"
        using Some by (auto simp: r_c_kind_def split: if_split_asm)
      then show ?thesis
      proof cases
        case items
        then have k: "k = RC_Vector" using Some by (auto simp: r_c_kind_def)
        obtain c where c: "pointless_reader_vector_n_items p v = Some c" using vector_bound [OF wf vo items] by metis
        from value_vector_returns [OF op rec ok v items m pot _ c] free k items show ?thesis
          by (elim insertE emptyE) (simp_all add: n Let_def p c del: One_nat_def)
      next
        case numbers
        then have k: "k = RC_Vector" using Some by (auto simp: r_c_kind_def)
        show ?thesis by (rule numbers_returns [OF ok wf vo len numbers _ n]) (use free k in simp)
      next
        case string
        then have k: "k = RC_String" using Some by (auto simp: r_c_kind_def)
        show ?thesis by (rule string_returns [OF ok vo len string _ n]) (use free k in simp)
      next
        case bits
        then have k: "k = RC_Bitvector" using Some by (auto simp: r_c_kind_def)
        from recreate_bitvector_returns [OF ok len wf vo bits] free k show ?thesis by (simp add: n Let_def bits del: One_nat_def)
      next
        case set
        then have k: "k = RC_Set" using Some by (auto simp: r_c_kind_def)
        from set_returns [OF op rec ok v set m pot] free k show ?thesis by (simp add: n Let_def set del: One_nat_def)
      next
        case map
        then have k: "k = RC_Map" using Some by (auto simp: r_c_kind_def)
        from map_returns [OF op rec ok v map m pot] free k show ?thesis by (simp add: n Let_def map del: One_nat_def)
      qed
    qed
  qed
qed

lemma recreate_rec_total:
  assumes "opened p"
  shows "rec_ok p fuel (pointless_recreate_convert_rec fuel)"
proof (induction fuel)
  case 0
  show ?case by (simp add: rec_ok_def)
next
  case (Suc fuel)
  show ?case unfolding rec_ok_def
  proof (intro allI impI)
    fix s v assume "rc_ok p s" "reachable p v" "unmarked s < Suc fuel" "pot p s + 1 < 2 ^ 32 - 4"
    then show "returns p 1 s (pointless_recreate_convert_rec (Suc fuel) s v)"
      by (intro step_returns [OF assms Suc.IH]) simp_all
  qed
qed


section \<open>The contract\<close>

definition all_objects :: "pointless_t \<Rightarrow> nat" where
  "all_objects p = unat (n_string_unicode (header p)) + unat (n_vector (header p)) + unat (n_bitvector (header p)) +
     unat (n_set (header p)) + unat (n_map (header p))"

text \<open>What a copy of everything in a file adds to the values of a creation at most, one root apart.\<close>

definition creation_bound :: "pointless_t \<Rightarrow> nat" where
  "creation_bound p =
     sum_list (map (\<lambda>k. sum_list (map (object_cost p k) [0..<unat (n_objects p k)])) r_c_kinds)"

lemma no_handle_replicate [simp]: "no_handle (replicate n UINT32_MAX) = n"
  by (simp add: no_handle_def)

lemma begin_ok:
  assumes "ready c"
  shows "rc_ok p (recreate_begin p c)" and "unmarked (recreate_begin p c) = all_objects p"
    and "pot p (recreate_begin p c) = length (c_values c) + creation_bound p"
proof -
  have m: "r_c_mapping k (recreate_begin p c) = replicate (unat (n_objects p k)) UINT32_MAX" for k
    by (cases k) (simp_all add: recreate_begin_def pointless_malloc_uint32_init_def)
  then show "rc_ok p (recreate_begin p c)" using assms by (simp add: rc_ok_def) (simp add: recreate_begin_def)
  have "unpaid p k (replicate n UINT32_MAX) = sum_list (map (object_cost p k) [0..<n])" for k n
    unfolding unpaid_def by (rule arg_cong [where f = sum_list]) simp
  then show "pot p (recreate_begin p c) = length (c_values c) + creation_bound p"
    unfolding pot_def m creation_bound_def by (simp add: recreate_begin_def)
  show "unmarked (recreate_begin p c) = all_objects p"
    by (simp add: unmarked_def recreate_begin_def pointless_malloc_uint32_init_def all_objects_def)
qed

lemma open_b_buf:
  "pointless_open_b hf buf = Some (Inr (p, warning)) \<Longrightarrow> p_buf p = buf"
  by (auto simp: pointless_open_b_def pointless_init_def init_handle_def Let_def elim!: bind_eq_Some_E
      split: if_split_asm sum.split_asm prod.split_asm)

lemma recreate_from:
  assumes "opened p" and "reachable p v" and "ready c" and "all_objects p < fuel"
    and "length (c_values c) + creation_bound p < 2 ^ 32 - 5"
  shows "\<exists>c' h. pointless_recreate_value fuel p v c = Some (c', Inr h) \<and> ready c' \<and> handle_of c' h \<and> later c c' \<and>
    length (c_values c') \<le> length (c_values c) + creation_bound p + 1"
proof -
  let ?s = "recreate_begin p c"
  note b = begin_ok [OF assms(3), of p]
  have c: "rs_c ?s = c" by (simp add: recreate_begin_def)
  have "pot p ?s + 1 < 2 ^ 32 - 4" using assms(5) by (simp add: b(3))
  then have "returns p 1 ?s (pointless_recreate_convert_rec fuel ?s v)"
    using recreate_rec_total [OF assms(1), of fuel] b assms(2,4) unfolding rec_ok_def by metis
  then obtain s' h where s': "pointless_recreate_convert_rec fuel ?s v = Some (s', Inr h)" "moved p 1 ?s s'"
    "handle_of (rs_c s') h" by (auto simp: returns_def)
  have "length (c_values (rs_c s')) \<le> pot p s'" by (rule pot_length)
  also have "\<dots> \<le> pot p ?s + 1" using s'(2) by (simp add: moved_def)
  finally have "length (c_values (rs_c s')) \<le> length (c_values c) + creation_bound p + 1"
    by (simp add: b(3))
  moreover have "ready (rs_c s')" "later c (rs_c s')" using s'(2) c by (simp_all add: moved_def rc_ok_def)
  ultimately show ?thesis using s'(1,3) by (auto simp: pointless_recreate_value_def)
qed

text \<open>
  C5 Copying a value of an opened file into a creation always ends with a handle, whatever sharing and cycles
  the file has: the recursion is no deeper than the file has objects, nothing outside the file or the
  arrays is read, the creation it leaves is well-formed and the handle names one of its values. The
  creation may be fresh or hold values already, as long as it is in a state calls can go on from
  (\<open>ready\<close>, which the copy leaves again) and 32-bit handles do not run out: an item of a vector or a set
  may add one value, an item of a map two, and a set or a map two or three for its vectors.
\<close>

theorem recreate_total:
  assumes "pointless_open_b hf buf = Some (Inr (p, warning))" and "length buf < 2 ^ 64"
    and "reachable p v" and "all_objects p < fuel"
    and "ready c" and "length (c_values c) + creation_bound p < 2 ^ 32 - 5"
  shows "\<exists>c' h. pointless_recreate_value fuel p v c = Some (c', Inr h) \<and>
    create_wf c' \<and> ready c' \<and> unat h < length (c_values c') \<and>
    length (c_values c') \<le> length (c_values c) + creation_bound p + 1"
proof -
  have "opened p"
    using open_b_checked(1) [OF assms(1,2)] open_b_tables [OF assms(1,2)] unfolding opened_def by blast
  from recreate_from [OF this assms(3,5,4,6)] show ?thesis by (auto simp: ready_def handle_of_def)
qed

text \<open>Copying the map from 1 to null into a fresh creation.\<close>

theorem recreate_total_witness:
  "\<exists>c h. pointless_recreate_value 10 map_handle (pointless_root map_handle) pointless_create_begin_64 = Some (c, Inr h) \<and>
    create_wf c \<and> ready c \<and> unat h < length (c_values c) \<and> length (c_values c) \<le> 12"
proof -
  have n: "all_objects map_handle = 4" and b: "creation_bound map_handle = 11" by code_simp+
  have "c_values pointless_create_begin_64 = []"
    by (simp add: pointless_create_begin_64_def create_begin_def)
  with recreate_total [OF map_image_opens image_sizes(1) reachable.root _ ready_begin, of 10] show ?thesis
    by (simp add: n b)
qed

end
