(* ===== verification/Files.thy ===== *)
theory Files
  imports Validate Create_Output Recreate
begin

text \<open>
  The files of the library: opening a file (\<open>src/pointless_reader.c\<close>), writing a creation to a file
  (\<open>src/pointless_create.c\<close>) and \<open>pointless_recreate_64\<close> (\<open>src/pointless_recreate.c\<close>). The calls of the
  operating system are arguments, collected in a record; \<open>'w\<close> is the state of the system, streams and
  file descriptors are numbers.
\<close>

section \<open>The calls of the system\<close>

datatype errno =
  EACCES | EINTR | EINVAL | EISDIR | ELOOP | EMFILE | ENAMETOOLONG | ENFILE | ENOENT | ENOMEM | ENOSPC
  | ENOTDIR | ENXIO | EOVERFLOW | EROFS | ETXTBSY | Errno_Other

text \<open>
  A failed \<open>fwrite\<close> has no state: what the code does after one does not depend on it.
\<close>

record 'w system =
  os_fopen :: "string \<Rightarrow> 'w \<Rightarrow> (errno + nat) \<times> 'w"
  os_fstat :: "nat \<Rightarrow> 'w \<Rightarrow> u64 option"
  os_mmap :: "nat \<Rightarrow> u64 \<Rightarrow> 'w \<Rightarrow> u8 list option"
  os_munmap :: "u8 list \<Rightarrow> 'w \<Rightarrow> 'w"
  os_mkstemp :: "string \<Rightarrow> 'w \<Rightarrow> (nat \<times> string) option \<times> 'w"
  os_fdopen :: "nat \<Rightarrow> 'w \<Rightarrow> nat option \<times> 'w"
  os_fwrite :: "nat \<Rightarrow> u8 list \<Rightarrow> 'w \<Rightarrow> 'w option"
  os_ftell :: "nat \<Rightarrow> 'w \<Rightarrow> int"
  os_fflush :: "nat \<Rightarrow> 'w \<Rightarrow> bool \<times> 'w"
  os_fsync :: "nat \<Rightarrow> 'w \<Rightarrow> bool \<times> 'w"
  os_fchmod :: "nat \<Rightarrow> 'w \<Rightarrow> bool \<times> 'w"
  os_fclose :: "nat \<Rightarrow> 'w \<Rightarrow> bool \<times> 'w"
  os_close :: "nat \<Rightarrow> 'w \<Rightarrow> 'w"
  os_rename :: "string \<Rightarrow> string \<Rightarrow> 'w \<Rightarrow> bool \<times> 'w"
  os_unlink :: "string \<Rightarrow> 'w \<Rightarrow> 'w"

section \<open>Opening a file\<close>

fun fopen_error :: "errno \<Rightarrow> err" where
  "fopen_error EACCES = ''fopen(): EACCES''"
| "fopen_error EINTR = ''fopen(): EINTR''"
| "fopen_error EINVAL = ''fopen(): EINVAL''"
| "fopen_error EISDIR = ''fopen(): EISDIR''"
| "fopen_error ELOOP = ''fopen(): ELOOP''"
| "fopen_error EMFILE = ''fopen(): EMFILE''"
| "fopen_error ENAMETOOLONG = ''fopen(): ENAMETOOLONG''"
| "fopen_error ENFILE = ''fopen(): ENFILE''"
| "fopen_error ENOENT = ''fopen(): ENOENT''"
| "fopen_error ENOMEM = ''fopen(): ENOMEM''"
| "fopen_error ENOSPC = ''fopen(): ENOSPC''"
| "fopen_error ENOTDIR = ''fopen(): ENOTDIR''"
| "fopen_error ENXIO = ''fopen(): ENXIO''"
| "fopen_error EOVERFLOW = ''fopen(): EOVERFLOW''"
| "fopen_error EROFS = ''fopen(): EROFS''"
| "fopen_error ETXTBSY = ''fopen(): ETXTBSY''"
| "fopen_error Errno_Other = ''fopen(): error''"

text \<open>What a handle holds of the system: the stream and the mapping, when there are any.\<close>

record open_file =
  of_fd :: "nat option"
  of_fd_ptr :: "u8 list option"

definition pointless_close :: "'w system \<Rightarrow> open_file \<Rightarrow> 'w \<Rightarrow> 'w" where
  "pointless_close os h w =
     (let w = (case of_fd_ptr h of None \<Rightarrow> w | Some m \<Rightarrow> os_munmap os m w)
      in case of_fd h of None \<Rightarrow> w | Some fd \<Rightarrow> snd (os_fclose os fd w))"

text \<open>
  A mapping that failed leaves \<open>MAP_FAILED\<close> in the handle, which is unmapped all the same; the call is
  refused and changes nothing.
\<close>

definition open_f_with ::
    "'w system \<Rightarrow> nat \<Rightarrow> string \<Rightarrow> bool \<Rightarrow> 'w \<Rightarrow>
     ((err + pointless_t \<times> err option \<times> open_file) \<times> 'w) option" where
  "open_f_with os fuel fname do_validate w =
     (case os_fopen os fname w of
        (Inl e, w) \<Rightarrow> Some (Inl (fopen_error e), pointless_close os \<lparr>of_fd = None, of_fd_ptr = None\<rparr> w)
      | (Inr fd, w) \<Rightarrow>
          let close = pointless_close os \<lparr>of_fd = Some fd, of_fd_ptr = None\<rparr> in
          (case os_fstat os fd w of
             None \<Rightarrow> Some (Inl ''fstat error'', close w)
           | Some st_size \<Rightarrow>
               if st_size = 0 then Some (Inl ''file is empty'', close w)
               else
                 (case os_mmap os fd st_size w of
                    None \<Rightarrow> Some (Inl ''mmap error'', close w)
                  | Some fd_ptr \<Rightarrow>
                      let h = \<lparr>of_fd = Some fd, of_fd_ptr = Some fd_ptr\<rparr> in
                      do { r \<leftarrow> pointless_init fuel fd_ptr st_size do_validate;
                           Some (case r of
                                   Inl e \<Rightarrow> (Inl e, pointless_close os h w)
                                 | Inr (p, warning) \<Rightarrow> (Inr (p, warning, h), w)) })))"

definition pointless_open_f ::
    "'w system \<Rightarrow> nat \<Rightarrow> string \<Rightarrow> 'w \<Rightarrow> ((err + pointless_t \<times> err option \<times> open_file) \<times> 'w) option" where
  "pointless_open_f os fuel fname w = open_f_with os fuel fname True w"

definition pointless_open_f_skip_validate ::
    "'w system \<Rightarrow> nat \<Rightarrow> string \<Rightarrow> 'w \<Rightarrow> ((err + pointless_t \<times> err option \<times> open_file) \<times> 'w) option" where
  "pointless_open_f_skip_validate os fuel fname w = open_f_with os fuel fname False w"

section \<open>Writing to a file\<close>

text \<open>
  The label \<open>cleanup\<close>. It frees the name of the temporary file first, so \<open>temp_fname\<close> has no contents any
  more when the file is to be removed by that name: reading it is undefined.
\<close>

definition output_cleanup ::
    "'w system \<Rightarrow> nat option \<Rightarrow> nat option \<Rightarrow> bool \<Rightarrow> err \<Rightarrow> 'w \<Rightarrow> ((err + unit) \<times> 'w) option" where
  "output_cleanup os f fd unlink_fname e w =
     (let temp_fname = None;
          w = (case f of None \<Rightarrow> w | Some f \<Rightarrow> snd (os_fclose os f w));
          fd = (if f = None then fd else None);
          w = (case fd of None \<Rightarrow> w | Some fd \<Rightarrow> os_close os fd w)
      in if unlink_fname
         then do { name \<leftarrow> temp_fname; Some (Inl e, os_unlink os name w) }
         else Some (Inl e, w))"

text \<open>The steps after the creation is written, each of which may fail.\<close>

definition output_finish ::
    "'w system \<Rightarrow> string \<Rightarrow> string \<Rightarrow> nat \<Rightarrow> nat \<Rightarrow> 'w \<Rightarrow> ((err + unit) \<times> 'w) option" where
  "output_finish os temp_fname fname fd f w =
     (let (ok, w) = os_fflush os f w in
      if \<not> ok then output_cleanup os (Some f) (Some fd) True ''fflush() failure'' w
      else let (ok, w) = os_fsync os fd w in
      if \<not> ok then output_cleanup os (Some f) (Some fd) True ''fsync failure'' w
      else let (ok, w) = os_fchmod os fd w in
      if \<not> ok then output_cleanup os (Some f) (Some fd) True ''fchmod failure'' w
      else let (ok, w) = os_fclose os f w in
      if \<not> ok then output_cleanup os None None True ''error closing file'' w
      else let (ok, w) = os_rename os temp_fname fname w in
      if \<not> ok then output_cleanup os None None True ''error renaming file'' w
      else Some (Inr (), w))"

definition file_callbacks :: "'w system \<Rightarrow> nat \<Rightarrow> 'w pointless_create_cb_t" where
  "file_callbacks os f =
     \<lparr>cb_write = file_write (os_fwrite os f),
      cb_align_4 = file_align_4 (os_fwrite os f) (os_ftell os f)\<rparr>"

definition pointless_create_output_and_end_f ::
    "'w system \<Rightarrow> nat \<Rightarrow> pointless_create_t \<Rightarrow> string \<Rightarrow> 'w \<Rightarrow> ((err + unit) \<times> 'w) option" where
  "pointless_create_output_and_end_f os fuel c fname w =
     (case os_mkstemp os (fname @ ''.XXXXXX'') w of
        (None, w) \<Rightarrow> output_cleanup os None None False ''error creating temporary file'' w
      | (Some (fd, temp_fname), w) \<Rightarrow>
          (case os_fdopen os fd w of
             (None, w) \<Rightarrow> output_cleanup os None (Some fd) True ''error attaching to temporary file'' w
           | (Some f, w) \<Rightarrow> do {
               r \<leftarrow> create_output_and_end fuel c (file_callbacks os f) w;
               (case r of
                  Inl e \<Rightarrow> output_cleanup os (Some f) (Some fd) True e w
                | Inr w \<Rightarrow> output_finish os temp_fname fname fd f w) }))"

section \<open>From file to file\<close>

text \<open>
  When the output fails the creation is ended twice; ending it again finds empty arrays.
\<close>

definition pointless_recreate_64 ::
    "'w system \<Rightarrow> nat \<Rightarrow> string \<Rightarrow> string \<Rightarrow> 'w \<Rightarrow> ((err + unit) \<times> 'w) option" where
  "pointless_recreate_64 os fuel fname_in fname_out w =
     do { (r, w) \<leftarrow> pointless_open_f os fuel fname_in w;
          (case r of
             Inl e \<Rightarrow> Some (Inl e, w)
           | Inr (p, _, h) \<Rightarrow> do {
               (c, created) \<leftarrow> pointless_recreate_value fuel p (pointless_root p) pointless_create_begin_64;
               (case created of
                  Inl e \<Rightarrow> Some (Inl e, pointless_close os h w)
                | Inr handle \<Rightarrow> do {
                    (r, w) \<leftarrow> pointless_create_output_and_end_f os fuel
                                 (pointless_create_set_root c handle) fname_out w;
                    Some (r, pointless_close os h w) }) }) }"

end
