(* ===== verification/Files_Laws.thy ===== *)
theory Files_Laws
  imports Files Round_Trip
begin

text \<open>
  What output to a file leaves behind: all or nothing, and the same bytes as output to a buffer.
\<close>

section \<open>Callbacks that simulate each other\<close>

text \<open>
  Everything the first pair of callbacks writes the second writes too, between related states.
\<close>

definition cb_sim :: "('s \<Rightarrow> 't \<Rightarrow> bool) \<Rightarrow> 's pointless_create_cb_t \<Rightarrow> 't pointless_create_cb_t \<Rightarrow> bool" where
  "cb_sim R cb cb' \<longleftrightarrow>
     (\<forall>bs s t s'. R s t \<longrightarrow> cb_write cb bs s = Inr s' \<longrightarrow> (\<exists>t'. cb_write cb' bs t = Inr t' \<and> R s' t')) \<and>
     (\<forall>s t s'. R s t \<longrightarrow> cb_align_4 cb s = Inr s' \<longrightarrow> (\<exists>t'. cb_align_4 cb' t = Inr t' \<and> R s' t'))"

definition run_sim :: "('s \<Rightarrow> 't \<Rightarrow> bool) \<Rightarrow> ('e + 's) option \<Rightarrow> ('e + 't) option \<Rightarrow> bool" where
  "run_sim R r q \<longleftrightarrow> (\<forall>s'. r = Some (Inr s') \<longrightarrow> (\<exists>t'. q = Some (Inr t') \<and> R s' t'))"

named_theorems sim \<open>steps that keep a simulation\<close>

lemma sim_Inl [sim]: "run_sim R (Some (Inl e)) q" "run_sim R None q"
  by (simp_all add: run_sim_def)

lemma sim_write [sim]:
  "cb_sim R cb cb' \<Longrightarrow> R s t \<Longrightarrow> run_sim R (Some (cb_write cb bs s)) (Some (cb_write cb' bs t))"
  by (auto simp: cb_sim_def run_sim_def)

lemma sim_align [sim]:
  "cb_sim R cb cb' \<Longrightarrow> R s t \<Longrightarrow> run_sim R (Some (cb_align_4 cb s)) (Some (cb_align_4 cb' t))"
  by (auto simp: cb_sim_def run_sim_def)

lemma sim_return [sim]: "R s t \<Longrightarrow> run_sim R (Some (Inr s)) (Some (Inr t))"
  by (simp add: run_sim_def)

lemma sim_and_then_other:
  assumes "run_sim Q r q" and "\<And>s t. Q s t \<Longrightarrow> run_sim R (f s) (g t)"
  shows "run_sim R (and_then r f) (and_then q g)"
proof (unfold run_sim_def, intro allI impI)
  fix s' assume "and_then r f = Some (Inr s')"
  then obtain s where s: "r = Some (Inr s)" "f s = Some (Inr s')" by (auto simp: and_then_Inr_iff)
  then obtain t where t: "q = Some (Inr t)" "Q s t" using assms(1) by (auto simp: run_sim_def)
  with assms(2) [OF t(2)] s(2) show "\<exists>t'. and_then q g = Some (Inr t') \<and> R s' t'"
    by (simp add: run_sim_def)
qed

lemmas sim_and_then [sim] = sim_and_then_other [where Q = R and R = R for R]

lemma sim_bind [sim]:
  "(\<And>x. m = Some x \<Longrightarrow> run_sim R (f x) (g x)) \<Longrightarrow> run_sim R (m \<bind> f) (m \<bind> g)"
  by (cases m) (simp_all add: run_sim_def)

lemma sim_if [sim]:
  "(b \<Longrightarrow> run_sim R r q) \<Longrightarrow> (\<not> b \<Longrightarrow> run_sim R r' q') \<Longrightarrow>
   run_sim R (if b then r else r') (if b then q else q')"
  by simp

lemma sim_for_loop [sim]:
  assumes "R s t" and "\<And>i s t. R s t \<Longrightarrow> run_sim R (f i s) (g i t)"
  shows "run_sim R (for_loop f is s) (for_loop g is t)"
  using assms(1)
proof (induction "is" arbitrary: s t)
  case (Cons i "is")
  show ?case
  proof (unfold run_sim_def, intro allI impI)
    fix s'' assume "for_loop f (i # is) s = Some (Inr s'')"
    then obtain s' where 1: "f i s = Some (Inr s')" "for_loop f is s' = Some (Inr s'')"
      by (auto simp only: for_loop_Cons_Inr)
    then obtain t' where 2: "g i t = Some (Inr t')" "R s' t'"
      using assms(2) [OF Cons.prems] by (auto simp: run_sim_def)
    with Cons.IH 1(2) show "\<exists>t''. for_loop g (i # is) t = Some (Inr t'') \<and> R s'' t''"
      by (auto simp: run_sim_def for_loop_Cons_Inr)
  qed
qed (simp add: run_sim_def)

lemma serialize_sim:
  assumes cb: "cb_sim R cb cb'" and s: "R s t"
  shows "run_sim R (pointless_serialize_string cb buf s) (pointless_serialize_string cb' buf t)"
    and "run_sim R (pointless_serialize_unicode cb buf s) (pointless_serialize_unicode cb' buf t)"
    and "run_sim R (pointless_serialize_bitvector cb buf s) (pointless_serialize_bitvector cb' buf t)"
    and "run_sim R (pointless_serialize_set cb c v n s) (pointless_serialize_set cb' c v n t)"
    and "run_sim R (pointless_serialize_map cb c v n s) (pointless_serialize_map cb' c v n t)"
  unfolding pointless_serialize_string_def pointless_serialize_unicode_def pointless_serialize_bitvector_def
    pointless_serialize_set_def pointless_serialize_map_def
  by (intro sim cb; (rule s | assumption))+

lemma outside_sim:
  assumes cb: "cb_sim R cb cb'" and s: "R s t"
  shows "run_sim R (pointless_serialize_vector_outside c v cb s) (pointless_serialize_vector_outside c v cb' t)"
proof -
  have "run_sim R (case w of None \<Rightarrow> Some (Inl e) | Some n \<Rightarrow> f n) (case w of None \<Rightarrow> Some (Inl e) | Some n \<Rightarrow> g n)"
    if "\<And>n. run_sim R (f n) (g n)" for w e f g
    using that by (cases w) (simp_all add: sim)
  note width = this
  show ?thesis
    unfolding pointless_serialize_vector_outside_def
    by (intro sim cb width; (rule s | assumption))
qed

lemma priv_items_sim:
  assumes cb: "cb_sim R cb cb'" and s: "R s t"
  shows "run_sim R (write_priv_items c x vec cb n s) (write_priv_items c x vec cb' n t)"
  unfolding write_priv_items_def Let_def
  by (intro sim cb; (rule s | assumption))

lemma priv_sim:
  assumes cb: "cb_sim R cb cb'" and s: "R s t"
  shows "run_sim R (pointless_serialize_vector_priv c v cb n s) (pointless_serialize_vector_priv c v cb' n t)"
  unfolding pointless_serialize_vector_priv_def
  by (intro sim priv_items_sim cb; (rule s | assumption))

lemma serialize_value_sim:
  assumes cb: "cb_sim R cb cb'" and s: "R s t"
  shows "run_sim R (serialize_value cb c n k v x s) (serialize_value cb' c n k v x t)"
  unfolding serialize_value_def
  by (cases k) (auto intro!: sim_bind serialize_sim outside_sim priv_sim cb s)

lemma write_heap_sim:
  assumes cb: "cb_sim R cb cb'" and s: "R s t"
  shows "run_sim R (write_heap cb c n k is s) (write_heap cb' c n k is t)"
  unfolding write_heap_def
  by (intro sim_for_loop s sim_bind) (simp add: serialize_value_sim cb sim_return)

definition with_offset :: "('s \<Rightarrow> 't \<Rightarrow> bool) \<Rightarrow> 's \<times> u64 \<Rightarrow> 't \<times> u64 \<Rightarrow> bool" where
  "with_offset R su tu \<longleftrightarrow> R (fst su) (fst tu) \<and> snd su = snd tu"

lemma write_offset_sim:
  assumes cb: "cb_sim R cb cb'" and su: "with_offset R su tu"
  shows "run_sim (with_offset R) (write_offset cb n su) (write_offset cb' n tu)"
proof -
  obtain s t u where st: "su = (s, u)" "tu = (t, u)" "R s t"
    using su by (cases su; cases tu) (auto simp: with_offset_def)
  show ?thesis unfolding st write_offset_def prod.case
    by (rule sim_and_then_other [OF sim_write [OF cb st(3)]])
      (simp add: run_sim_def with_offset_def)
qed

lemma write_offsets_sim:
  assumes cb: "cb_sim R cb cb'" and su: "with_offset R su tu"
  shows "run_sim (with_offset R) (write_offsets cb c k is su) (write_offsets cb' c k is tu)"
  unfolding write_offsets_def
proof (intro sim_for_loop su sim_bind)
  fix i su tu x assume R: "with_offset R su tu"
  show "run_sim (with_offset R)
      (if offset_kind k x then heap_size k c x \<bind> (\<lambda>n. write_offset cb n su) else Some (Inr su))
      (if offset_kind k x then heap_size k c x \<bind> (\<lambda>n. write_offset cb' n tu) else Some (Inr tu))"
    using R by (auto intro!: sim_bind write_offset_sim cb sim_return)
qed

lemma write_output_sim:
  assumes cb: "cb_sim R cb cb'" and s: "R s t"
  shows "run_sim R (write_output st is cb s) (write_output st is cb' t)"
  unfolding write_output_def Let_def
proof (intro sim_bind sim_and_then sim_write cb s)
  fix h s t assume R: "R s t"
  show "run_sim R
      (and_then (for_loop (\<lambda>k su. write_offsets cb (ct_create st) k is su) heap_kinds (s, 0))
        (\<lambda>(s, _). for_loop (\<lambda>k s. write_heap cb (ct_create st) (ct_n_priv st) k is s) heap_kinds s))
      (and_then (for_loop (\<lambda>k su. write_offsets cb' (ct_create st) k is su) heap_kinds (t, 0))
        (\<lambda>(s, _). for_loop (\<lambda>k s. write_heap cb' (ct_create st) (ct_n_priv st) k is s) heap_kinds s))"
  proof (rule sim_and_then_other [where Q = "with_offset R"])
    show "run_sim (with_offset R) (for_loop (\<lambda>k su. write_offsets cb (ct_create st) k is su) heap_kinds (s, 0))
        (for_loop (\<lambda>k su. write_offsets cb' (ct_create st) k is su) heap_kinds (t, 0))"
      by (intro sim_for_loop write_offsets_sim cb) (simp_all add: with_offset_def R)
  next
    fix su tu assume "with_offset R su tu"
    then show "run_sim R
        (case su of (s, _) \<Rightarrow> for_loop (\<lambda>k s. write_heap cb (ct_create st) (ct_n_priv st) k is s) heap_kinds s)
        (case tu of (s, _) \<Rightarrow> for_loop (\<lambda>k s. write_heap cb' (ct_create st) (ct_n_priv st) k is s) heap_kinds s)"
      by (cases su; cases tu) (auto simp: with_offset_def intro!: sim_for_loop write_heap_sim cb)
  qed
qed

lemma output_sim:
  assumes cb: "cb_sim R cb cb'" and s: "R s t"
  shows "run_sim R (create_output_and_end fuel c cb s) (create_output_and_end fuel c cb' t)"
proof -
  have "run_sim R (and_then r f) (and_then r g)"
    if "\<And>x. run_sim R (f x) (g x)" for r :: "(err + count_state) option" and f g
    using that by (auto simp: run_sim_def and_then_Inr_iff)
  then show ?thesis
    unfolding create_output_and_end_def using cb s
    by (simp add: write_output_sim sim_Inl)
qed


section \<open>What the system promises\<close>

text \<open>
  \<open>contents\<close> are the files by name, \<open>stream\<close> the file a stream writes and the bytes written through it.
  Only what the calls promise when they succeed, and that a failed \<open>mkstemp\<close> creates no file.
\<close>

record 'w view =
  contents :: "'w \<Rightarrow> string \<Rightarrow> u8 list option"
  fd_name :: "'w \<Rightarrow> nat \<Rightarrow> string option"
  stream :: "'w \<Rightarrow> nat \<Rightarrow> (string \<times> u8 list) option"

definition mkstemp_law :: "'w system \<Rightarrow> 'w view \<Rightarrow> bool" where
  "mkstemp_law os V \<longleftrightarrow> (\<forall>t w r w'. os_mkstemp os t w = (r, w') \<longrightarrow>
     (case r of
        None \<Rightarrow> contents V w' = contents V w
      | Some (fd, name) \<Rightarrow> length name = length t \<and> contents V w name = None \<and>
          contents V w' = (contents V w)(name \<mapsto> []) \<and> fd_name V w' fd = Some name))"

definition fdopen_law :: "'w system \<Rightarrow> 'w view \<Rightarrow> bool" where
  "fdopen_law os V \<longleftrightarrow> (\<forall>fd w f w' name. os_fdopen os fd w = (Some f, w') \<longrightarrow> fd_name V w fd = Some name \<longrightarrow>
     contents V w' = contents V w \<and> stream V w' f = Some (name, []))"

definition fwrite_law :: "'w system \<Rightarrow> 'w view \<Rightarrow> bool" where
  "fwrite_law os V \<longleftrightarrow> (\<forall>f bs w w' name past. os_fwrite os f bs w = Some w' \<longrightarrow> stream V w f = Some (name, past) \<longrightarrow>
     stream V w' f = Some (name, past @ bs) \<and> length (past @ bs) < 2 ^ 63 \<and>
     (\<forall>n. n \<noteq> name \<longrightarrow> contents V w' n = contents V w n))"

definition ftell_law :: "'w system \<Rightarrow> 'w view \<Rightarrow> bool" where
  "ftell_law os V \<longleftrightarrow> (\<forall>f w name past. stream V w f = Some (name, past) \<longrightarrow>
     os_ftell os f w \<in> {-1, int (length past)})"

definition fflush_law :: "'w system \<Rightarrow> 'w view \<Rightarrow> bool" where
  "fflush_law os V \<longleftrightarrow> (\<forall>f w w' name past. os_fflush os f w = (True, w') \<longrightarrow> stream V w f = Some (name, past) \<longrightarrow>
     contents V w' = (contents V w)(name \<mapsto> past) \<and> stream V w' f = Some (name, past))"

definition sync_law :: "'w system \<Rightarrow> 'w view \<Rightarrow> bool" where
  "sync_law os V \<longleftrightarrow> (\<forall>fd w w'. os_fsync os fd w = (True, w') \<or> os_fchmod os fd w = (True, w') \<longrightarrow>
     contents V w' = contents V w \<and> stream V w' = stream V w)"

definition fclose_law :: "'w system \<Rightarrow> 'w view \<Rightarrow> bool" where
  "fclose_law os V \<longleftrightarrow> (\<forall>f w w' name past. os_fclose os f w = (True, w') \<longrightarrow> stream V w f = Some (name, past) \<longrightarrow>
     contents V w' = (contents V w)(name \<mapsto> past))"

definition rename_law :: "'w system \<Rightarrow> 'w view \<Rightarrow> bool" where
  "rename_law os V \<longleftrightarrow> (\<forall>a b w w' bs. os_rename os a b w = (True, w') \<longrightarrow> a \<noteq> b \<longrightarrow> contents V w a = Some bs \<longrightarrow>
     contents V w' = (contents V w)(a := None, b \<mapsto> bs))"

definition files_law :: "'w system \<Rightarrow> 'w view \<Rightarrow> bool" where
  "files_law os V \<longleftrightarrow> mkstemp_law os V \<and> fdopen_law os V \<and> fwrite_law os V \<and> ftell_law os V \<and>
     fflush_law os V \<and> sync_law os V \<and> fclose_law os V \<and> rename_law os V"

section \<open>The file callbacks write what the buffer callbacks write\<close>

definition buffer_callbacks :: "u8 list pointless_create_cb_t" where
  "buffer_callbacks = \<lparr>cb_write = dynarray_write, cb_align_4 = dynarray_align_4\<rparr>"

definition streamed :: "'w view \<Rightarrow> nat \<Rightarrow> string \<Rightarrow> (string \<Rightarrow> u8 list option) \<Rightarrow> 'w \<Rightarrow> u8 list \<Rightarrow> bool" where
  "streamed V f name others w a \<longleftrightarrow> stream V w f = Some (name, a) \<and> length a < 2 ^ 63 \<and>
     (\<forall>n. n \<noteq> name \<longrightarrow> contents V w n = others n)"

lemma streamed_write:
  assumes "fwrite_law os V" "streamed V f name others w a" "os_fwrite os f bs w = Some w'"
  shows "push_bytes a bs = Some (a @ bs) \<and> streamed V f name others w' (a @ bs)"
  using assms unfolding fwrite_law_def streamed_def push_bytes_def by (auto 0 3)

lemma zero_bytes: "le_bytes 4 (0 :: u32) = replicate 4 0"
  by (simp add: le_bytes_def map_replicate_const)

lemma alignment_zeros:
  assumes "length a < 2 ^ 63"
  shows "replicate (unat (align_next_4_size_t (of_nat (length a))) - unat (of_nat (length a) :: u64)) (0 :: u8)
       = replicate ((4 - length a mod 4) mod 4) 0"
proof -
  have "unat (of_nat (length a) :: u64) = length a" using assms by (simp add: unat_of_nat)
  then show ?thesis using unat_align(2) [of "of_nat (length a)"] assms by simp
qed

lemma streamed_align:
  assumes laws: "fwrite_law os V" "ftell_law os V" and w: "streamed V f name others w a"
    and ok: "file_align_4 (os_fwrite os f) (os_ftell os f) w = Inr w'"
  shows "\<exists>a'. dynarray_align_4 a = Inr a' \<and> streamed V f name others w' a'"
proof -
  let ?n = "length a"
  have st: "stream V w f = Some (name, a)" and n: "?n < 2 ^ 63" using w by (simp_all add: streamed_def)
  have pos: "os_ftell os f w = int ?n"
  proof -
    have "os_ftell os f w \<noteq> -1" using ok by (auto simp: file_align_4_def Let_def)
    then show ?thesis using laws(2) st unfolding ftell_law_def by blast
  qed
  have z: "dynarray_align_4 a = (case push_bytes a (replicate ((4 - ?n mod 4) mod 4) 0) of
             None \<Rightarrow> Inl ''out of memory'' | Some a' \<Rightarrow> Inr a')"
    unfolding dynarray_align_4_def Let_def alignment_zeros [OF n] ..
  show ?thesis
  proof (cases "?n mod 4 = 0")
    case True
    then have "int (?n mod 4) = 0" by simp
    then have "int ?n mod 4 = 0" by (simp add: zmod_int)
    then have "w' = w" using ok by (simp add: file_align_4_def Let_def pos)
    then show ?thesis using w n True by (simp add: z push_bytes_def)
  next
    case False
    define r where "r = ?n mod 4"
    have r: "r < 4" "r \<noteq> 0" "int ?n mod 4 = int r" using False by (simp_all add: r_def zmod_int)
    then have ne: "int ?n mod 4 \<noteq> 0" by simp
    have k: "nat (4 - int ?n mod 4) = (4 - ?n mod 4) mod 4" and k4: "(4 - ?n mod 4) mod 4 \<le> 4"
      using r(1,2) unfolding r(3) r_def [symmetric] by (simp_all add: nat_diff_distrib)
    have "os_fwrite os f (take (nat (4 - int ?n mod 4)) (le_bytes 4 (0 :: u32))) w = Some w'"
      using ok ne by (simp add: file_align_4_def Let_def pos split: option.split_asm)
    then have "os_fwrite os f (replicate ((4 - ?n mod 4) mod 4) 0) w = Some w'"
      unfolding k zero_bytes take_replicate min_absorb1 [OF k4] .
    from streamed_write [OF laws(1) w this] show ?thesis unfolding z by simp
  qed
qed

lemma file_simulates_buffer:
  assumes "fwrite_law os V" "ftell_law os V"
  shows "cb_sim (streamed V f name others) (file_callbacks os f) buffer_callbacks"
  unfolding cb_sim_def
proof (intro conjI allI impI)
  fix bs w a w'
  assume w: "streamed V f name others w a" and ok: "cb_write (file_callbacks os f) bs w = Inr w'"
  show "\<exists>a'. cb_write buffer_callbacks bs a = Inr a' \<and> streamed V f name others w' a'"
  proof (cases "bs = []")
    case True
    then show ?thesis using w ok
      by (simp add: file_callbacks_def file_write_def buffer_callbacks_def dynarray_write_def
          push_bytes_def streamed_def)
  next
    case False
    then have "os_fwrite os f bs w = Some w'"
      using ok by (simp add: file_callbacks_def file_write_def split: option.split_asm)
    from streamed_write [OF assms(1) w this] show ?thesis
      by (simp add: buffer_callbacks_def dynarray_write_def)
  qed
next
  fix w a w'
  assume w: "streamed V f name others w a" and ok: "cb_align_4 (file_callbacks os f) w = Inr w'"
  show "\<exists>a'. cb_align_4 buffer_callbacks a = Inr a' \<and> streamed V f name others w' a'"
    using streamed_align [OF assms w, of w'] ok by (simp add: buffer_callbacks_def file_callbacks_def)
qed

section \<open>All or nothing\<close>

lemma cleanup_defined:
  "output_cleanup os f fd unlink e w = Some (r, w') \<Longrightarrow> \<not> unlink \<and> r = Inl e"
  by (auto simp: output_cleanup_def Let_def split: if_split_asm)

text \<open>Output that ends defined either could not create the temporary file or did every step.\<close>

lemma finish_defined:
  assumes "output_finish os name fname fd f w = Some (r, w')"
  shows "r = Inr ()" and "\<exists>w1 w2 w3 w4. os_fflush os f w = (True, w1) \<and> os_fsync os fd w1 = (True, w2) \<and>
      os_fchmod os fd w2 = (True, w3) \<and> os_fclose os f w3 = (True, w4) \<and>
      os_rename os name fname w4 = (True, w')"
  using assms unfolding output_finish_def Let_def
  by (auto split: prod.split_asm if_split_asm dest!: cleanup_defined)

lemma output_defined:
  assumes "pointless_create_output_and_end_f os fuel c fname w = Some (r, w')"
  obtains
    (no_file) "os_mkstemp os (fname @ ''.XXXXXX'') w = (None, w')" "r = Inl ''error creating temporary file''"
  | (written) fd name w1 f w2 w3 where "os_mkstemp os (fname @ ''.XXXXXX'') w = (Some (fd, name), w1)"
      "os_fdopen os fd w1 = (Some f, w2)"
      "create_output_and_end fuel c (file_callbacks os f) w2 = Some (Inr w3)"
      "output_finish os name fname fd f w3 = Some (r, w')"
proof -
  obtain m w1 where m: "os_mkstemp os (fname @ ''.XXXXXX'') w = (m, w1)" by fastforce
  show thesis
  proof (cases m)
    case None
    then have "r = Inl ''error creating temporary file''" "w' = w1"
      using assms by (auto simp: pointless_create_output_and_end_f_def m output_cleanup_def Let_def)
    then show ?thesis using no_file m None by simp
  next
    case (Some x)
    obtain fd name where x: "m = Some (fd, name)" using Some by (cases x) auto
    obtain f' w2 where f': "os_fdopen os fd w1 = (f', w2)" by fastforce
    show ?thesis
    proof (cases f')
      case None
      then show ?thesis using assms
        by (simp add: pointless_create_output_and_end_f_def m x f' output_cleanup_def Let_def)
    next
      case (Some f)
      show ?thesis using assms written [OF m [unfolded x] f' [unfolded Some]]
        by (auto simp: pointless_create_output_and_end_f_def m x f' Some split: sum.split_asm
            elim!: bind_eq_Some_E dest!: cleanup_defined)
    qed
  qed
qed

lemma finish_contents:
  assumes laws: "files_law os V" and st: "stream V w f = Some (name, bytes)"
    and others: "\<forall>n. n \<noteq> name \<longrightarrow> contents V w n = before n" and new: "before name = None"
    and ne: "name \<noteq> fname"
    and ok: "output_finish os name fname fd f w = Some (r, w')"
  shows "r = Inr () \<and> contents V w' = before(fname \<mapsto> bytes)"
proof -
  obtain w1 w2 w3 w4 where steps: "os_fflush os f w = (True, w1)" "os_fsync os fd w1 = (True, w2)"
      "os_fchmod os fd w2 = (True, w3)" "os_fclose os f w3 = (True, w4)"
      "os_rename os name fname w4 = (True, w')" and r: "r = Inr ()"
    using finish_defined [OF ok] by blast
  have 1: "contents V w1 = (contents V w)(name \<mapsto> bytes)" "stream V w1 f = Some (name, bytes)"
    using laws steps(1) st unfolding files_law_def fflush_law_def by blast+
  have 2: "contents V w2 = contents V w1" "stream V w2 = stream V w1"
    using laws steps(2) unfolding files_law_def sync_law_def by blast+
  have 3: "contents V w3 = contents V w2" "stream V w3 = stream V w2"
    using laws steps(3) unfolding files_law_def sync_law_def by blast+
  have 4: "contents V w4 = (contents V w3)(name \<mapsto> bytes)"
    using laws steps(4) 1 2 3 unfolding files_law_def fclose_law_def by metis
  have "contents V w4 name = Some bytes" by (simp add: 4)
  then have "contents V w' = (contents V w4)(name := None, fname \<mapsto> bytes)"
    using laws steps(5) ne unfolding files_law_def rename_law_def by blast
  moreover have "(contents V w4)(name := None) = before"
    using others new by (auto simp: 1 2 3 4 fun_eq_iff)
  ultimately show ?thesis using r by simp
qed

lemma output_file_all_or_nothing:
  assumes laws: "files_law os V"
    and ok: "pointless_create_output_and_end_f os fuel c fname w = Some (r, w')"
  shows "case r of
      Inl e \<Rightarrow> contents V w' = contents V w
    | Inr _ \<Rightarrow> (\<exists>bytes. pointless_create_output_and_end_b fuel c = Some (Inr bytes) \<and>
                 contents V w' = (contents V w)(fname \<mapsto> bytes))"
proof -
  from ok show ?thesis
  proof (cases rule: output_defined)
    case no_file
    have "mkstemp_law os V" using laws by (simp add: files_law_def)
    from this [unfolded mkstemp_law_def, rule_format, OF no_file(1)] show ?thesis
      by (simp add: no_file(2))
  next
    case (written fd name w1 f w2 w3)
    have "mkstemp_law os V" using laws by (simp add: files_law_def)
    from this [unfolded mkstemp_law_def, rule_format, OF written(1)]
    have 1: "length name = length (fname @ ''.XXXXXX'')" "contents V w name = None"
        "contents V w1 = (contents V w)(name \<mapsto> [])" "fd_name V w1 fd = Some name"
      by simp_all
    have 2: "contents V w2 = contents V w1" "stream V w2 f = Some (name, [])"
      using laws written(2) 1(4) unfolding files_law_def fdopen_law_def by blast+
    have start: "streamed V f name (contents V w) w2 []"
      using 1(3) 2 by (simp add: streamed_def)
    have "cb_sim (streamed V f name (contents V w)) (file_callbacks os f) buffer_callbacks"
      using laws by (intro file_simulates_buffer) (simp_all add: files_law_def)
    from output_sim [OF this start, of fuel c] obtain bytes where
      bytes: "create_output_and_end fuel c buffer_callbacks [] = Some (Inr bytes)"
        "streamed V f name (contents V w) w3 bytes"
      unfolding run_sim_def written(3) by auto
    have "length name \<noteq> length fname" unfolding 1(1) by simp
    then have ne: "name \<noteq> fname" by blast
    have s: "stream V w3 f = Some (name, bytes)" "\<forall>n. n \<noteq> name \<longrightarrow> contents V w3 n = contents V w n"
      using bytes(2) by (simp_all add: streamed_def)
    have "r = Inr () \<and> contents V w' = (contents V w)(fname \<mapsto> bytes)"
      by (rule finish_contents [OF laws s 1(2) ne written(4)])
    then show ?thesis using bytes(1)
      by (simp add: pointless_create_output_and_end_b_def buffer_callbacks_def)
  qed
qed

lemma output_failure_defined:
  assumes "pointless_create_output_and_end_f os fuel c fname w = Some (Inl e, w')"
  shows "fst (os_mkstemp os (fname @ ''.XXXXXX'') w) = None"
  using assms by (cases rule: output_defined) (auto dest: finish_defined(1))


text \<open>A system whose calls succeed on the files of the view, \<open>mkstemp\<close> apart.\<close>

definition no_failures :: "'w system \<Rightarrow> 'w view \<Rightarrow> bool" where
  "no_failures os V \<longleftrightarrow>
     (\<forall>fd w. fst (os_fdopen os fd w) \<noteq> None) \<and>
     (\<forall>f bs w name past. stream V w f = Some (name, past) \<longrightarrow> length past + length bs < 2 ^ 63 \<longrightarrow>
        os_fwrite os f bs w \<noteq> None) \<and>
     (\<forall>f w name past. stream V w f = Some (name, past) \<longrightarrow> os_ftell os f w = int (length past)) \<and>
     (\<forall>f w. fst (os_fflush os f w)) \<and> (\<forall>fd w. fst (os_fsync os fd w)) \<and> (\<forall>fd w. fst (os_fchmod os fd w)) \<and>
     (\<forall>f w. fst (os_fclose os f w)) \<and>
     (\<forall>a b w. contents V w a \<noteq> None \<longrightarrow> fst (os_rename os a b w))"

lemma buffer_simulates_file:
  assumes laws: "fwrite_law os V" "ftell_law os V" and no: "no_failures os V"
  shows "cb_sim (\<lambda>a w. streamed V f name others w a) buffer_callbacks (file_callbacks os f)"
  unfolding cb_sim_def
proof (intro conjI allI impI)
  have writes: "\<exists>w'. os_fwrite os f bs w = Some w'"
    if "streamed V f name others w a" "push_bytes a bs = Some a'" for bs a a' w
    using no that unfolding no_failures_def streamed_def push_bytes_def by (auto split: if_split_asm)
  {
    fix bs a w a'
    assume w: "streamed V f name others w a" and ok: "cb_write buffer_callbacks bs a = Inr a'"
    then have push: "push_bytes a bs = Some a'"
      by (simp add: buffer_callbacks_def dynarray_write_def split: option.split_asm)
    show "\<exists>w'. cb_write (file_callbacks os f) bs w = Inr w' \<and> streamed V f name others w' a'"
    proof (cases "bs = []")
      case True
      then show ?thesis using w push by (simp add: file_callbacks_def file_write_def push_bytes_def streamed_def)
    next
      case False
      obtain w' where w': "os_fwrite os f bs w = Some w'" using writes [OF w push] by blast
      from streamed_write [OF laws(1) w w'] push False w' show ?thesis
        by (simp add: file_callbacks_def file_write_def)
    qed
  next
    fix a w a'
    assume w: "streamed V f name others w a" and ok: "cb_align_4 buffer_callbacks a = Inr a'"
    let ?n = "length a"
    have n: "?n < 2 ^ 63" using w by (simp add: streamed_def)
    have pos: "os_ftell os f w = int ?n" using no w by (auto simp: no_failures_def streamed_def)
    have push: "push_bytes a (replicate ((4 - ?n mod 4) mod 4) 0) = Some a'"
      using ok alignment_zeros [OF n]
      by (simp add: buffer_callbacks_def dynarray_align_4_def Let_def split: option.split_asm)
    have "\<exists>w'. file_align_4 (os_fwrite os f) (os_ftell os f) w = Inr w'"
    proof (cases "int ?n mod 4 = 0")
      case False
      define r where "r = ?n mod 4"
      have r: "r < 4" "int ?n mod 4 = int r" by (simp_all add: r_def zmod_int)
      then have r0: "r \<noteq> 0" using False by simp
      have k: "nat (4 - int ?n mod 4) = (4 - ?n mod 4) mod 4" and k4: "(4 - ?n mod 4) mod 4 \<le> 4"
        using r(1) r0 unfolding r(2) r_def [symmetric] by (simp_all add: nat_diff_distrib)
      have "take (nat (4 - int ?n mod 4)) (le_bytes 4 (0 :: u32)) = replicate ((4 - ?n mod 4) mod 4) 0"
        unfolding k zero_bytes take_replicate min_absorb1 [OF k4] ..
      then show ?thesis using writes [OF w push] False by (auto simp: file_align_4_def Let_def pos)
    qed (simp add: file_align_4_def Let_def pos)
    then obtain w' where w': "file_align_4 (os_fwrite os f) (os_ftell os f) w = Inr w'" ..
    from streamed_align [OF laws w w'] ok w'
    show "\<exists>w'. cb_align_4 (file_callbacks os f) w = Inr w' \<and> streamed V f name others w' a'"
      by (simp add: buffer_callbacks_def file_callbacks_def)
  }
qed

lemma finish_succeeds:
  assumes laws: "files_law os V" and no: "no_failures os V" and st: "stream V w f = Some (name, bytes)"
  shows "\<exists>w'. output_finish os name fname fd f w = Some (Inr (), w')"
proof -
  have ok: "fst (os_fflush os f v)" "fst (os_fsync os fd v)" "fst (os_fchmod os fd v)" "fst (os_fclose os f v)" for v
    using no unfolding no_failures_def by blast+
  obtain w1 where 1: "os_fflush os f w = (True, w1)" using ok(1) [of w] by (cases "os_fflush os f w") simp
  obtain w2 where 2: "os_fsync os fd w1 = (True, w2)" using ok(2) [of w1] by (cases "os_fsync os fd w1") simp
  obtain w3 where 3: "os_fchmod os fd w2 = (True, w3)" using ok(3) [of w2] by (cases "os_fchmod os fd w2") simp
  obtain w4 where 4: "os_fclose os f w3 = (True, w4)" using ok(4) [of w3] by (cases "os_fclose os f w3") simp
  have s1: "stream V w1 f = Some (name, bytes)"
    using laws 1 st unfolding files_law_def fflush_law_def by blast
  have "stream V w3 = stream V w1"
    using laws 2 3 unfolding files_law_def sync_law_def by metis
  then have "contents V w4 = (contents V w3)(name \<mapsto> bytes)"
    using laws 4 s1 unfolding files_law_def fclose_law_def by metis
  then have "contents V w4 name \<noteq> None" by simp
  then have "fst (os_rename os name fname w4)" using no unfolding no_failures_def by blast
  then obtain w5 where 5: "os_rename os name fname w4 = (True, w5)" by (cases "os_rename os name fname w4") simp
  show ?thesis unfolding output_finish_def 1 Let_def prod.case 2 3 4 5 by simp
qed

lemma output_file_complete:
  assumes laws: "files_law os V" and no: "no_failures os V"
    and temp: "fst (os_mkstemp os (fname @ ''.XXXXXX'') w) \<noteq> None"
    and buf: "pointless_create_output_and_end_b fuel c = Some (Inr bytes)"
  shows "\<exists>w'. pointless_create_output_and_end_f os fuel c fname w = Some (Inr (), w')"
proof -
  obtain m w1 where m: "os_mkstemp os (fname @ ''.XXXXXX'') w = (m, w1)" by fastforce
  have "m \<noteq> None" using temp by (simp add: m)
  then obtain fd name where x: "m = Some (fd, name)" by (cases m) auto
  have "mkstemp_law os V" using laws by (simp add: files_law_def)
  from this [unfolded mkstemp_law_def, rule_format, OF m]
  have fd: "contents V w1 = (contents V w)(name \<mapsto> [])" "fd_name V w1 fd = Some name" by (simp_all add: x)
  obtain f' w2 where f': "os_fdopen os fd w1 = (f', w2)" by fastforce
  have "f' \<noteq> None" using no f' unfolding no_failures_def by (metis fst_conv)
  then obtain f where f: "f' = Some f" by (cases f') auto
  have 2: "contents V w2 = contents V w1" "stream V w2 f = Some (name, [])"
    using laws f' [unfolded f] fd(2) unfolding files_law_def fdopen_law_def by blast+
  have start: "streamed V f name (contents V w) w2 []"
    using fd(1) 2 by (simp add: streamed_def)
  have "cb_sim (\<lambda>a w'. streamed V f name (contents V w) w' a) buffer_callbacks (file_callbacks os f)"
    using laws by (intro buffer_simulates_file no) (simp_all add: files_law_def)
  from output_sim [OF this start, of fuel c] buf obtain w3 where
    w3: "create_output_and_end fuel c (file_callbacks os f) w2 = Some (Inr w3)"
      "streamed V f name (contents V w) w3 bytes"
    unfolding run_sim_def pointless_create_output_and_end_b_def buffer_callbacks_def by auto
  have "stream V w3 f = Some (name, bytes)" using w3(2) by (simp add: streamed_def)
  from finish_succeeds [OF laws no this] show ?thesis
    by (simp add: pointless_create_output_and_end_f_def m x f' f w3(1))
qed

section \<open>A system that keeps the laws\<close>

text \<open>Files in memory, with one stream and one descriptor.\<close>

record memory =
  mem_files :: "string \<Rightarrow> u8 list option"
  mem_fd :: "string option"
  mem_stream :: "(string \<times> u8 list) option"

definition temp_name :: "string \<Rightarrow> memory \<Rightarrow> string" where
  "temp_name t w = take (length t - 1) t @ (if t = [] then [] else ''A'')"

definition memory_system :: "memory system" where
  "memory_system =
     \<lparr>os_fopen = (\<lambda>_ w. (Inl ENOENT, w)), os_fstat = (\<lambda>_ _. None), os_mmap = (\<lambda>_ _ _. None),
      os_munmap = (\<lambda>_ w. w),
      os_mkstemp = (\<lambda>t w. let name = temp_name t w in
         if mem_files w name = None
         then (Some (3, name), w\<lparr>mem_files := (mem_files w)(name \<mapsto> []), mem_fd := Some name\<rparr>)
         else (None, w)),
      os_fdopen = (\<lambda>fd w. (Some 0, w\<lparr>mem_stream := map_option (\<lambda>n. (n, [])) (mem_fd w)\<rparr>)),
      os_fwrite = (\<lambda>f bs w. case mem_stream w of
           Some (n, past) \<Rightarrow> if length past + length bs < 2 ^ 63
                            then Some (w\<lparr>mem_stream := Some (n, past @ bs)\<rparr>) else None
         | None \<Rightarrow> None),
      os_ftell = (\<lambda>f w. case mem_stream w of Some (n, past) \<Rightarrow> int (length past) | None \<Rightarrow> -1),
      os_fflush = (\<lambda>f w. (True, case mem_stream w of
           Some (n, past) \<Rightarrow> w\<lparr>mem_files := (mem_files w)(n \<mapsto> past)\<rparr> | None \<Rightarrow> w)),
      os_fsync = (\<lambda>_ w. (True, w)), os_fchmod = (\<lambda>_ w. (True, w)),
      os_fclose = (\<lambda>f w. (True, case mem_stream w of
           Some (n, past) \<Rightarrow> w\<lparr>mem_files := (mem_files w)(n \<mapsto> past)\<rparr> | None \<Rightarrow> w)),
      os_close = (\<lambda>_ w. w),
      os_rename = (\<lambda>a b w. case mem_files w a of
           None \<Rightarrow> (False, w)
         | Some bs \<Rightarrow> (True, w\<lparr>mem_files := (mem_files w)(a := None, b \<mapsto> bs)\<rparr>)),
      os_unlink = (\<lambda>a w. w\<lparr>mem_files := (mem_files w)(a := None)\<rparr>)\<rparr>"

definition memory_view :: "memory view" where
  "memory_view = \<lparr>contents = mem_files, fd_name = (\<lambda>w _. mem_fd w), stream = (\<lambda>w _. mem_stream w)\<rparr>"

lemma memory_laws: "files_law memory_system memory_view"
  unfolding files_law_def
proof (intro conjI)
  show "mkstemp_law memory_system memory_view"
    by (auto simp: mkstemp_law_def memory_system_def memory_view_def temp_name_def Let_def split: if_split_asm)
  show "fdopen_law memory_system memory_view"
    by (auto simp: fdopen_law_def memory_system_def memory_view_def)
  show "fwrite_law memory_system memory_view"
    by (auto simp: fwrite_law_def memory_system_def memory_view_def split: option.split_asm if_split_asm)
  show "ftell_law memory_system memory_view"
    by (auto simp: ftell_law_def memory_system_def memory_view_def)
  show "fflush_law memory_system memory_view"
    by (auto simp: fflush_law_def memory_system_def memory_view_def)
  show "sync_law memory_system memory_view"
    by (auto simp: sync_law_def memory_system_def memory_view_def)
  show "fclose_law memory_system memory_view"
    by (auto simp: fclose_law_def memory_system_def memory_view_def)
  show "rename_law memory_system memory_view"
    by (auto simp: rename_law_def memory_system_def memory_view_def)
qed


lemma memory_succeeds: "no_failures memory_system memory_view"
  by (auto simp: no_failures_def memory_system_def memory_view_def split: option.split)

section \<open>The claims\<close>

text \<open>
  C38 Output to a file writes what output to a buffer writes. When it returns 1, the file has exactly the
  bytes of the buffer, and every other file, the temporary one included, is as before. It returns an
  error only when the temporary file cannot be created, and then it does and every file is as before;
  nothing is said of later failures, after which the cleanup is undefined. It returns 1 when the
  calls of the system succeed and output to a buffer does.
\<close>

theorem file_output_refines_buffer_output:
  assumes "files_law os V"
  shows "(\<forall>r w'. pointless_create_output_and_end_f os fuel c fname w = Some (r, w') \<longrightarrow>
      (case r of
         Inl e \<Rightarrow> contents V w' = contents V w \<and> fst (os_mkstemp os (fname @ ''.XXXXXX'') w) = None
       | Inr _ \<Rightarrow> (\<exists>bytes. pointless_create_output_and_end_b fuel c = Some (Inr bytes) \<and>
                    contents V w' = (contents V w)(fname \<mapsto> bytes)))) \<and>
    (fst (os_mkstemp os (fname @ ''.XXXXXX'') w) = None \<longrightarrow>
      (\<exists>e w'. pointless_create_output_and_end_f os fuel c fname w = Some (Inl e, w'))) \<and>
    (no_failures os V \<longrightarrow> fst (os_mkstemp os (fname @ ''.XXXXXX'') w) \<noteq> None \<longrightarrow>
      (\<exists>bytes. pointless_create_output_and_end_b fuel c = Some (Inr bytes)) \<longrightarrow>
      (\<exists>w'. pointless_create_output_and_end_f os fuel c fname w = Some (Inr (), w')))"
proof (intro conjI)
  show "\<forall>r w'. pointless_create_output_and_end_f os fuel c fname w = Some (r, w') \<longrightarrow>
      (case r of
         Inl e \<Rightarrow> contents V w' = contents V w \<and> fst (os_mkstemp os (fname @ ''.XXXXXX'') w) = None
       | Inr _ \<Rightarrow> (\<exists>bytes. pointless_create_output_and_end_b fuel c = Some (Inr bytes) \<and>
                    contents V w' = (contents V w)(fname \<mapsto> bytes)))"
    using output_file_all_or_nothing [OF assms, of fuel c fname w] output_failure_defined [of os fuel c fname w]
    by (fastforce split: sum.splits)
  show "fst (os_mkstemp os (fname @ ''.XXXXXX'') w) = None \<longrightarrow>
      (\<exists>e w'. pointless_create_output_and_end_f os fuel c fname w = Some (Inl e, w'))"
    by (auto simp: pointless_create_output_and_end_f_def output_cleanup_def split: prod.splits)
qed (use output_file_complete [OF assms] in blast)

definition hi_bytes :: "u8 list" where
  "hi_bytes = [29, 0, 0, 0, 0, 0, 0, 0, 1, 0, 0, 0, 0, 0, 0, 0, 0, 0, 0, 0, 0, 0, 0, 0, 0, 0, 0, 0, 2, 0, 0, 0,
      0, 0, 0, 0, 0, 0, 0, 0, 2, 0, 0, 0, 72, 105, 0, 0]"

theorem file_output_refines_buffer_output_witness:
  "\<exists>w'. pointless_create_output_and_end_f memory_system 1
       (one_string POINTLESS_STRING [2, 0, 0, 0, 72, 105, 0] (c_cache pointless_create_begin_64) (\<lambda>_. None))
       ''f'' \<lparr>mem_files = [''g'' \<mapsto> [1]], mem_fd = None, mem_stream = None\<rparr> = Some (Inr (), w') \<and>
     mem_files w' = [''g'' \<mapsto> [1], ''f'' \<mapsto> hi_bytes]"
proof -
  let ?w = "\<lparr>mem_files = [''g'' \<mapsto> [1]], mem_fd = None, mem_stream = None\<rparr>"
  have t: "fst (os_mkstemp memory_system (''f'' @ ''.XXXXXX'') ?w) \<noteq> None"
    by (simp add: memory_system_def temp_name_def Let_def)
  have c: "contents memory_view = mem_files" by (simp add: memory_view_def)
  have b: "pointless_create_output_and_end_b 1
      (one_string POINTLESS_STRING [2, 0, 0, 0, 72, 105, 0] (c_cache pointless_create_begin_64) (\<lambda>_. None)) =
      Some (Inr hi_bytes)"
    unfolding hi_bytes_def by (rule one_string_output)
  from file_output_refines_buffer_output [OF memory_laws, of 1 _ "''f''" ?w, unfolded c] b memory_succeeds t
  show ?thesis by fastforce
qed

text \<open>
  C39 Once the temporary file exists, output to a file never returns an error: the cleanup of every later
  failure frees the name of the file before it removes the file by that name, which is undefined.
\<close>

theorem failure_after_mkstemp_undefined:
  assumes "os_mkstemp os (fname @ ''.XXXXXX'') w = (Some temp, w1)"
  shows "pointless_create_output_and_end_f os fuel c fname w \<noteq> Some (Inl e, w')"
  using output_failure_defined [of os fuel c fname w e w'] assms by auto

text \<open>A creation without a root cannot be written.\<close>

theorem failure_after_mkstemp_undefined_witness:
  "create_output_and_end 1 pointless_create_begin_64 (file_callbacks memory_system 0)
     \<lparr>mem_files = [''f.XXXXXA'' \<mapsto> []], mem_fd = Some ''f.XXXXXA'', mem_stream = Some (''f.XXXXXA'', [])\<rparr> =
     Some (Inl ''root has not been set'') \<and>
   (\<forall>w'. pointless_create_output_and_end_f memory_system 1 pointless_create_begin_64 ''f''
     \<lparr>mem_files = Map.empty, mem_fd = None, mem_stream = None\<rparr> \<noteq> Some (Inl ''root has not been set'', w'))"
proof (rule conjI)
  show "create_output_and_end 1 pointless_create_begin_64 (file_callbacks memory_system 0)
     \<lparr>mem_files = [''f.XXXXXA'' \<mapsto> []], mem_fd = Some ''f.XXXXXA'', mem_stream = Some (''f.XXXXXA'', [])\<rparr> =
     Some (Inl ''root has not been set'')"
    by (simp add: create_output_and_end_def prepare_output_def pointless_create_begin_64_def create_begin_def)
  have "os_mkstemp memory_system (''f'' @ ''.XXXXXX'') \<lparr>mem_files = Map.empty, mem_fd = None, mem_stream = None\<rparr>
     = (Some (3, ''f.XXXXXA''), \<lparr>mem_files = [''f.XXXXXA'' \<mapsto> []], mem_fd = Some ''f.XXXXXA'', mem_stream = None\<rparr>)"
    by (simp add: memory_system_def temp_name_def Let_def)
  from failure_after_mkstemp_undefined [OF this]
  show "\<forall>w'. pointless_create_output_and_end_f memory_system 1 pointless_create_begin_64 ''f''
     \<lparr>mem_files = Map.empty, mem_fd = None, mem_stream = None\<rparr> \<noteq> Some (Inl ''root has not been set'', w')"
    by blast
qed

end
