(* ===== verification/Debug.thy ===== *)
theory Debug
  imports Reader_Lookup Custom_Sort Float32
begin

text \<open>
  \<open>src/pointless_debug.c\<close>: printing a value of a file. Output goes to the text \<open>ds_out\<close>, so \<open>fprintf\<close>
  appends to it. The containers being printed are on a stack, by which cycles are found and the
  depth is limited. Sets and maps are printed in the order of their keys, which are sorted in
  arrays of their own.

  \<open>*error\<close> starts with what the caller left there, and a container that does not fit on the stack sets
  it. Comparing keys may set it too, and once it is set comparisons of vectors answer differently; the
  model does not follow a sort in which this matters. Hence a step answers a sum: \<open>Inr\<close> the state after
  it, or \<open>Inl ()\<close> when keys were to be sorted of which a comparison sets an error, or vectors among them
  with an error set before. The laws give the values for which this never happens.
\<close>

unbundle bit_operations_syntax

record pointless_debug_state_t =
  ds_p :: pointless_t
  ds_out :: string
  ds_error :: "err option"
  ds_stack :: "u32 list"
  sort_set :: u32
  sort_map :: u32

type_synonym printed = "(unit + pointless_debug_state_t) option"

definition fprintf :: "pointless_debug_state_t \<Rightarrow> string \<Rightarrow> pointless_debug_state_t" where
  "fprintf state s = state\<lparr>ds_out := ds_out state @ s\<rparr>"

definition and_print :: "printed \<Rightarrow> (pointless_debug_state_t \<Rightarrow> printed) \<Rightarrow> printed" where
  "and_print r f = do { x \<leftarrow> r; (case x of Inl u \<Rightarrow> Some (Inl u) | Inr state \<Rightarrow> f state) }"

section \<open>Conversions of \<open>fprintf\<close>\<close>

text \<open>The digits of a number that is not negative.\<close>

function show_digits :: "int \<Rightarrow> string" where
  "show_digits n =
     (if n < 10 then [char_of (48 + n)] else show_digits (n div 10) @ [char_of (48 + n mod 10)])"
  by pat_completeness auto
termination by (relation "measure nat") auto

declare show_digits.simps [simp del]

text \<open>\<open>%i\<close>, \<open>%lli\<close>, \<open>%u\<close> and \<open>%llu\<close>.\<close>

definition show_int :: "int \<Rightarrow> string" where
  "show_int i = (if i < 0 then ''-'' else []) @ show_digits \<bar>i\<bar>"

text \<open>
  \<open>%.<d>f\<close> of a float widened to \<open>double\<close>: the number correctly rounded to \<open>d\<close> decimals, ties to even, as
  the C library does in the default rounding mode. The sign is the sign bit, also of a zero or a NaN.
\<close>

definition round_div :: "int \<Rightarrow> int \<Rightarrow> int" where
  "round_div n k =
     (let q = n div k; r = n mod k in if k < 2 * r \<or> (k = 2 * r \<and> odd q) then q + 1 else q)"

definition show_padded :: "nat \<Rightarrow> int \<Rightarrow> string" where
  "show_padded d n = (let s = show_digits n in replicate (d - length s) (CHR ''0'') @ s)"

definition show_float :: "nat \<Rightarrow> u32 \<Rightarrow> string" where
  "show_float d w =
     (if bit w 31 then ''-'' else []) @
     (case f32_bits_val w of
        F_NaN \<Rightarrow> ''nan''
      | F_Inf _ \<Rightarrow> ''inf''
      | F_Fin k \<Rightarrow>
          (let n = round_div (\<bar>k\<bar> * 10 ^ d) (2 ^ 149)
           in show_digits (n div 10 ^ d) @ (if d = 0 then [] else ''.'' @ show_padded d (n mod 10 ^ d))))"

section \<open>The stack of containers\<close>

definition pointless_print_has_container :: "pointless_debug_state_t \<Rightarrow> pointless_value_t \<Rightarrow> bool" where
  "pointless_print_has_container state v =
     (pointless_container_id (ds_p state) v \<in> set (ds_stack state))"

text \<open>Whether the container was pushed, and the state. The stack grows at its end.\<close>

definition pointless_print_push_container ::
    "pointless_debug_state_t \<Rightarrow> pointless_value_t \<Rightarrow> bool \<times> pointless_debug_state_t" where
  "pointless_print_push_container state v =
     (if length (ds_stack state) = POINTLESS_MAX_DEPTH
      then (False, state\<lparr>ds_error :=
              Some ''maximum recursion depth reached, file should not have passed validation''\<rparr>)
      else (True, state\<lparr>ds_stack := ds_stack state @ [pointless_container_id (ds_p state) v]\<rparr>))"

definition pointless_print_pop_container :: "pointless_debug_state_t \<Rightarrow> pointless_debug_state_t" where
  "pointless_print_pop_container state = state\<lparr>ds_stack := butlast (ds_stack state)\<rparr>"

section \<open>Values without items\<close>

definition pointless_print_integer ::
    "pointless_debug_state_t \<Rightarrow> pointless_value_t \<Rightarrow> pointless_debug_state_t" where
  "pointless_print_integer state v =
     fprintf state (show_int
       (if v_type v = POINTLESS_I32 then sint (pointless_value_get_i32 (v_type v) (v_data v))
        else if v_type v = POINTLESS_U32 then uint (pointless_value_get_u32 (v_type v) (v_data v))
        else 0))"

definition pointless_print_float ::
    "pointless_debug_state_t \<Rightarrow> pointless_value_t \<Rightarrow> pointless_debug_state_t" where
  "pointless_print_float state v =
     fprintf state (show_float 6 (pointless_value_get_float (v_type v) (v_data v)))"

definition pointless_print_boolean ::
    "pointless_debug_state_t \<Rightarrow> pointless_value_t \<Rightarrow> pointless_debug_state_t" where
  "pointless_print_boolean state v =
     fprintf state (if pointless_value_get_bool (v_type v) (v_data v) \<noteq> 0 then ''True'' else ''False'')"

definition pointless_print_null ::
    "pointless_debug_state_t \<Rightarrow> pointless_value_t \<Rightarrow> pointless_debug_state_t" where
  "pointless_print_null state v = fprintf state ''NULL''"

text \<open>The text of item \<open>i\<close> of a vector of numbers; nothing is printed for any other type.\<close>

definition vector_item_text :: "pointless_t \<Rightarrow> pointless_value_t \<Rightarrow> nat \<Rightarrow> string option" where
  "vector_item_text p v i =
     (let t = v_type v in
      if t = POINTLESS_VECTOR_I8 then
        do { xs \<leftarrow> pointless_reader_vector_i8 p v; x \<leftarrow> arr_get xs i; Some (show_int (sint x)) }
      else if t = POINTLESS_VECTOR_U8 then
        do { xs \<leftarrow> pointless_reader_vector_u8 p v; x \<leftarrow> arr_get xs i; Some (show_int (uint x)) }
      else if t = POINTLESS_VECTOR_I16 then
        do { xs \<leftarrow> pointless_reader_vector_i16 p v; x \<leftarrow> arr_get xs i; Some (show_int (sint x)) }
      else if t = POINTLESS_VECTOR_U16 then
        do { xs \<leftarrow> pointless_reader_vector_u16 p v; x \<leftarrow> arr_get xs i; Some (show_int (uint x)) }
      else if t = POINTLESS_VECTOR_I32 then
        do { xs \<leftarrow> pointless_reader_vector_i32 p v; x \<leftarrow> arr_get xs i; Some (show_int (sint x)) }
      else if t = POINTLESS_VECTOR_U32 then
        do { xs \<leftarrow> pointless_reader_vector_u32 p v; x \<leftarrow> arr_get xs i; Some (show_int (uint x)) }
      else if t = POINTLESS_VECTOR_I64 then
        do { xs \<leftarrow> pointless_reader_vector_i64 p v; x \<leftarrow> arr_get xs i; Some (show_int (sint x)) }
      else if t = POINTLESS_VECTOR_U64 then
        do { xs \<leftarrow> pointless_reader_vector_u64 p v; x \<leftarrow> arr_get xs i; Some (show_int (uint x)) }
      else if t = POINTLESS_VECTOR_FLOAT then
        do { xs \<leftarrow> pointless_reader_vector_float p v; x \<leftarrow> arr_get xs i; Some (show_float 0 x) }
      else Some [])"

fun print_numbers ::
    "nat \<Rightarrow> pointless_value_t \<Rightarrow> nat list \<Rightarrow> pointless_debug_state_t \<Rightarrow> pointless_debug_state_t option" where
  "print_numbers n v [] state = Some state"
| "print_numbers n v (i # is) state =
     do { s \<leftarrow> vector_item_text (ds_p state) v i;
          let state = fprintf state s;
          let state = (if i + 1 < n then fprintf state '','' else state);
          print_numbers n v is state }"

definition pointless_print_vector_other ::
    "pointless_debug_state_t \<Rightarrow> pointless_value_t \<Rightarrow> pointless_debug_state_t option" where
  "pointless_print_vector_other state v =
     do { n \<leftarrow> pointless_reader_vector_n_items (ds_p state) v;
          state \<leftarrow> print_numbers (unat n) v [0..<unat n] (fprintf state ''H['');
          Some (fprintf state '']'') }"

text \<open>The characters up to the terminating zero; those outside ASCII are question marks.\<close>

fun print_chars :: "'a::len word list \<Rightarrow> pointless_debug_state_t \<Rightarrow> pointless_debug_state_t option" where
  "print_chars [] state = None"
| "print_chars (c # s) state =
     (if c = 0 then Some state
      else print_chars s
        (fprintf state (if c < 128 then [char_of (unat c)] else ''?'')))"

definition pointless_print_unicode ::
    "pointless_debug_state_t \<Rightarrow> pointless_value_t \<Rightarrow> pointless_debug_state_t option" where
  "pointless_print_unicode state v =
     do { s \<leftarrow> pointless_reader_unicode_value_ucs4 (ds_p state) v;
          state \<leftarrow> print_chars s (fprintf state [CHR 0x22]);
          Some (fprintf state [CHR 0x22]) }"

definition pointless_print_string ::
    "pointless_debug_state_t \<Rightarrow> pointless_value_t \<Rightarrow> pointless_debug_state_t option" where
  "pointless_print_string state v =
     do { s \<leftarrow> pointless_reader_string_value_ascii (ds_p state) v;
          state \<leftarrow> print_chars s (fprintf state [CHR 0x22]);
          Some (fprintf state [CHR 0x22]) }"

fun print_bits ::
    "pointless_value_t \<Rightarrow> nat list \<Rightarrow> pointless_debug_state_t \<Rightarrow> pointless_debug_state_t option" where
  "print_bits v [] state = Some state"
| "print_bits v (i # is) state =
     do { b \<leftarrow> pointless_reader_bitvector_is_set (ds_p state) v (of_nat i);
          print_bits v is (fprintf state (show_int (if b \<noteq> 0 then 1 else 0))) }"

definition pointless_print_bitvector ::
    "pointless_debug_state_t \<Rightarrow> pointless_value_t \<Rightarrow> pointless_debug_state_t option" where
  "pointless_print_bitvector state v =
     do { n_bits \<leftarrow> pointless_reader_bitvector_n_bits (ds_p state) v;
          state \<leftarrow> print_bits v [0..<unat n_bits] (fprintf state ''<'');
          Some (fprintf state ''>'') }"

section \<open>Sorting the keys of sets and maps\<close>

text \<open>
  The arrays \<open>keys\<close> and \<open>values\<close>, as one array of pairs: the code only fills them and exchanges
  positions of both. A set has no values.
\<close>

type_synonym pv_item = "pointless_value_t \<times> pointless_value_t option"

definition compare_keys :: "pointless_t \<Rightarrow> pv_item \<Rightarrow> pv_item \<Rightarrow> (err + int) option" where
  "compare_keys p x y =
     pointless_cmp_reader p (pointless_value_to_complete (fst x)) p (pointless_value_to_complete (fst y))"

text \<open>
  A comparison that fails answers 0. The success it reports is \<open>state->error != 0\<close>, which tests the
  pointer to the error and not the error: it always succeeds.
\<close>

definition pv_cmp :: "pointless_t \<Rightarrow> pv_item list qsort_cmp" where
  "pv_cmp p a b items =
     (True, case compare_keys p (items ! nat a) (items ! nat b) of Some (Inr c) \<Rightarrow> c | _ \<Rightarrow> 0)"

definition pv_swap :: "pv_item list qsort_swap" where
  "pv_swap a b items = items[nat a := items ! nat b, nat b := items ! nat a]"

text \<open>
  Whether the sort can be followed. With fewer than two keys nothing is compared. Otherwise no
  comparison of two of the keys may set an error, because \<open>*error\<close> would then change during the sort.
  An error that was set before only matters to vectors: no other comparison reads \<open>*error\<close>. \<open>None\<close> if a
  comparison is undefined.
\<close>

definition sort_followed :: "pointless_debug_state_t \<Rightarrow> pv_item list \<Rightarrow> bool option" where
  "sort_followed state items =
     (if length items < 2 then Some True
      else do { rs \<leftarrow> those (map (\<lambda>(x, y). compare_keys (ds_p state) x y) (List.product items items));
                Some (list_all (\<lambda>r. case r of Inr c \<Rightarrow> True | Inl e \<Rightarrow> False) rs \<and>
                  (ds_error state = None \<or>
                   list_all (\<lambda>x. pointless_cmp_reader_func (v_type (fst x)) \<noteq> Some Cmp_Vector) items)) })"

text \<open>
  Filling the arrays: their room is the number of items the header says. What the iterator finds
  beyond it is written outside of them, what it does not find is left uninitialised.
\<close>

primrec collect_keys :: "nat \<Rightarrow> pointless_t \<Rightarrow> pointless_value_t \<Rightarrow> u32 \<Rightarrow> pv_item list option" where
  "collect_keys 0 p v i =
     do { (found, i) \<leftarrow> pointless_reader_set_iter p v i;
          (case found of None \<Rightarrow> Some [] | Some k \<Rightarrow> None) }"
| "collect_keys (Suc n) p v i =
     do { (found, i) \<leftarrow> pointless_reader_set_iter p v i;
          (case found of
             None \<Rightarrow> None
           | Some k \<Rightarrow> do { x \<leftarrow> read_value (p_buf p) k;
                            xs \<leftarrow> collect_keys n p v i;
                            Some ((x, None) # xs) }) }"

primrec collect_items :: "nat \<Rightarrow> pointless_t \<Rightarrow> pointless_value_t \<Rightarrow> u32 \<Rightarrow> pv_item list option" where
  "collect_items 0 p v i =
     do { (found, i) \<leftarrow> pointless_reader_map_iter p v i;
          (case found of None \<Rightarrow> Some [] | Some kv \<Rightarrow> None) }"
| "collect_items (Suc n) p v i =
     do { (found, i) \<leftarrow> pointless_reader_map_iter p v i;
          (case found of
             None \<Rightarrow> None
           | Some (k, val) \<Rightarrow> do { x \<leftarrow> read_value (p_buf p) k;
                                  y \<leftarrow> read_value (p_buf p) val;
                                  xs \<leftarrow> collect_items n p v i;
                                  Some ((x, Some y) # xs) }) }"

section \<open>Containers\<close>

text \<open>The loops over items; \<open>rec\<close> prints one value.\<close>

type_synonym print_rec = "pointless_debug_state_t \<Rightarrow> pointless_value_t \<Rightarrow> printed"

fun print_vector_items ::
    "print_rec \<Rightarrow> pointless_value_t list \<Rightarrow> nat \<Rightarrow> nat list \<Rightarrow> pointless_debug_state_t \<Rightarrow> printed" where
  "print_vector_items rec xs n [] state = Some (Inr state)"
| "print_vector_items rec xs n (i # is) state =
     do { x \<leftarrow> arr_get xs i;
          and_print (rec state x) (\<lambda>state.
          print_vector_items rec xs n is (if i + 1 < n then fprintf state '','' else state)) }"

definition pointless_print_vector_value ::
    "print_rec \<Rightarrow> pointless_debug_state_t \<Rightarrow> pointless_value_t \<Rightarrow> printed" where
  "pointless_print_vector_value rec state v =
     do { n_values \<leftarrow> pointless_reader_vector_n_items (ds_p state) v;
          xs \<leftarrow> pointless_reader_vector_value (ds_p state) v;
          let state = (if v_type v = POINTLESS_VECTOR_VALUE_HASHABLE then fprintf state ''H'' else state);
          and_print (print_vector_items rec xs (unat n_values) [0..<unat n_values] (fprintf state ''[''))
            (\<lambda>state. Some (Inr (fprintf state '']''))) }"

text \<open>An item of a map is its key, a colon and its value.\<close>

definition print_item :: "print_rec \<Rightarrow> pointless_debug_state_t \<Rightarrow> pv_item \<Rightarrow> printed" where
  "print_item rec state item =
     and_print (rec state (fst item)) (\<lambda>state.
       (case snd item of
          None \<Rightarrow> Some (Inr state)
        | Some val \<Rightarrow> rec (fprintf state '': '') val))"

text \<open>The sorted items. The flag is set before the first one.\<close>

fun print_items ::
    "print_rec \<Rightarrow> bool \<Rightarrow> pv_item list \<Rightarrow> pointless_debug_state_t \<Rightarrow> printed" where
  "print_items rec first [] state = Some (Inr state)"
| "print_items rec first (x # xs) state =
     and_print (print_item rec (if first then state else fprintf state '', '') x)
       (print_items rec False xs)"

text \<open>Without sorting the items are printed as the iterator finds them.\<close>

partial_function (option) print_set_iter ::
    "print_rec \<Rightarrow> pointless_value_t \<Rightarrow> bool \<Rightarrow> u32 \<Rightarrow> pointless_debug_state_t \<Rightarrow> printed" where
  "print_set_iter rec v first i state =
     do { (found, i) \<leftarrow> pointless_reader_set_iter (ds_p state) v i;
          (case found of
             None \<Rightarrow> Some (Inr state)
           | Some k \<Rightarrow> do {
               x \<leftarrow> read_value (p_buf (ds_p state)) k;
               r \<leftarrow> print_item rec (if first then state else fprintf state '', '') (x, None);
               (case r of Inl u \<Rightarrow> Some (Inl u)
                | Inr state \<Rightarrow> print_set_iter rec v False i state) }) }"

declare print_set_iter.simps [code]

partial_function (option) print_map_iter ::
    "print_rec \<Rightarrow> pointless_value_t \<Rightarrow> bool \<Rightarrow> u32 \<Rightarrow> pointless_debug_state_t \<Rightarrow> printed" where
  "print_map_iter rec v first i state =
     do { (found, i) \<leftarrow> pointless_reader_map_iter (ds_p state) v i;
          (case found of
             None \<Rightarrow> Some (Inr state)
           | Some (k, val) \<Rightarrow> do {
               x \<leftarrow> read_value (p_buf (ds_p state)) k;
               y \<leftarrow> read_value (p_buf (ds_p state)) val;
               r \<leftarrow> print_item rec (if first then state else fprintf state '', '') (x, Some y);
               (case r of Inl u \<Rightarrow> Some (Inl u)
                | Inr state \<Rightarrow> print_map_iter rec v False i state) }) }"

declare print_map_iter.simps [code]

text \<open>Sorting the arrays: whether the sort succeeds, and the arrays.\<close>

definition sort_items :: "pointless_debug_state_t \<Rightarrow> u32 \<Rightarrow> pv_item list \<Rightarrow> (unit + bool \<times> pv_item list) option" where
  "sort_items state n items =
     do { followed \<leftarrow> sort_followed state items;
          Some (if followed then Inr (bentley_sort (sint n) (pv_cmp (ds_p state)) pv_swap items)
                else Inl ()) }"

text \<open>A sort that fails ends the printing of the container.\<close>

definition pointless_print_set :: "print_rec \<Rightarrow> pointless_debug_state_t \<Rightarrow> pointless_value_t \<Rightarrow> printed" where
  "pointless_print_set rec state v =
     (let close = (\<lambda>state. Some (Inr (fprintf state ''])'')));
          pop_close = (\<lambda>state. close (pointless_print_pop_container state));
          state = fprintf state ''set([''
      in if pointless_print_has_container state v then close (fprintf state ''...'')
         else
           (case pointless_print_push_container state v of
              (pushed, state) \<Rightarrow>
                if \<not> pushed then Some (Inr state)
                else if sort_set state \<noteq> 0 then do {
                  n_keys \<leftarrow> pointless_reader_set_n_items (ds_p state) v;
                  keys \<leftarrow> collect_keys (unat n_keys) (ds_p state) v 0;
                  r \<leftarrow> sort_items state n_keys keys;
                  (case r of
                     Inl u \<Rightarrow> Some (Inl u)
                   | Inr (ok, keys) \<Rightarrow>
                       if ok then and_print (print_items rec True keys state) pop_close
                       else Some (Inr state)) }
                else and_print (print_set_iter rec v True 0 state) pop_close))"

definition pointless_print_map :: "print_rec \<Rightarrow> pointless_debug_state_t \<Rightarrow> pointless_value_t \<Rightarrow> printed" where
  "pointless_print_map rec state v =
     (let close = (\<lambda>state. Some (Inr (fprintf state ''}'')));
          pop_close = (\<lambda>state. close (pointless_print_pop_container state));
          state = fprintf state ''{''
      in if pointless_print_has_container state v then close (fprintf state ''...'')
         else
           (case pointless_print_push_container state v of
              (pushed, state) \<Rightarrow>
                if \<not> pushed then Some (Inr state)
                else if sort_map state \<noteq> 0 then do {
                  n_keys \<leftarrow> pointless_reader_map_n_items (ds_p state) v;
                  items \<leftarrow> collect_items (unat n_keys) (ds_p state) v 0;
                  r \<leftarrow> sort_items state n_keys items;
                  (case r of
                     Inl u \<Rightarrow> Some (Inl u)
                   | Inr (ok, items) \<Rightarrow>
                       if ok then and_print (print_items rec True items state) pop_close
                       else Some (Inr state)) }
                else and_print (print_map_iter rec v True 0 state) pop_close))"

section \<open>The recursion\<close>

text \<open>The parameter \<open>depth\<close> of the C functions is not read; the fuel stands for the C stack.\<close>

fun pointless_print_value :: "nat \<Rightarrow> pointless_debug_state_t \<Rightarrow> pointless_value_t \<Rightarrow> printed" where
  "pointless_print_value 0 state v = None"
| "pointless_print_value (Suc fuel) state v =
     (let t = v_type v in
      if t = POINTLESS_UNICODE then map_option Inr (pointless_print_unicode state v)
      else if t = POINTLESS_STRING then map_option Inr (pointless_print_string state v)
      else if t \<in> {POINTLESS_VECTOR_VALUE, POINTLESS_VECTOR_VALUE_HASHABLE} then
        (if pointless_print_has_container state v then Some (Inr (fprintf state ''[...]''))
         else
           (case pointless_print_push_container state v of
              (pushed, state) \<Rightarrow>
                if \<not> pushed then Some (Inr state)
                else and_print (pointless_print_vector_value (pointless_print_value fuel) state v)
                  (\<lambda>state. Some (Inr (pointless_print_pop_container state)))))
      else if t = POINTLESS_VECTOR_EMPTY then Some (Inr (fprintf state ''[]''))
      else if t \<in> {POINTLESS_VECTOR_I8, POINTLESS_VECTOR_U8, POINTLESS_VECTOR_I16, POINTLESS_VECTOR_U16,
                   POINTLESS_VECTOR_I32, POINTLESS_VECTOR_U32, POINTLESS_VECTOR_I64, POINTLESS_VECTOR_U64,
                   POINTLESS_VECTOR_FLOAT} then map_option Inr (pointless_print_vector_other state v)
      else if t \<in> {POINTLESS_BITVECTOR, POINTLESS_BITVECTOR_0, POINTLESS_BITVECTOR_1,
                   POINTLESS_BITVECTOR_10, POINTLESS_BITVECTOR_01, POINTLESS_BITVECTOR_PACKED} then
        map_option Inr (pointless_print_bitvector state v)
      else if t \<in> {POINTLESS_I32, POINTLESS_U32} then Some (Inr (pointless_print_integer state v))
      else if t = POINTLESS_FLOAT then Some (Inr (pointless_print_float state v))
      else if t = POINTLESS_BOOLEAN then Some (Inr (pointless_print_boolean state v))
      else if t = POINTLESS_NULL then Some (Inr (pointless_print_null state v))
      else if t = POINTLESS_SET_VALUE then
        pointless_print_set (pointless_print_value fuel) state v
      else if t = POINTLESS_MAP_VALUE_VALUE then
        pointless_print_map (pointless_print_value fuel) state v
      else Some (Inr (fprintf state (''<UNKNOWN:'' @ show_int (uint t) @ ''>''))))"

text \<open>What is printed, with the error and whether the call succeeds.\<close>

definition pointless_debug_print_priv ::
    "nat \<Rightarrow> pointless_t \<Rightarrow> pointless_value_t \<Rightarrow> err option \<Rightarrow> (unit + string \<times> err option \<times> bool) option" where
  "pointless_debug_print_priv fuel p v error =
     do { r \<leftarrow> pointless_print_value fuel
                \<lparr>ds_p = p, ds_out = [], ds_error = error, ds_stack = [], sort_set = 1, sort_map = 1\<rparr> v;
          Some (case r of
              Inl u \<Rightarrow> Inl u
            | Inr state \<Rightarrow>
                Inr (ds_out (fprintf state [CHR 0x0A]), ds_error state, ds_error state = None)) }"

definition pointless_debug_print ::
    "nat \<Rightarrow> pointless_t \<Rightarrow> err option \<Rightarrow> (unit + string \<times> err option \<times> bool) option" where
  "pointless_debug_print fuel p error = pointless_debug_print_priv fuel p (pointless_root p) error"

definition pointless_debug_print_value ::
    "nat \<Rightarrow> pointless_t \<Rightarrow> pointless_value_t \<Rightarrow> err option \<Rightarrow> (unit + string \<times> err option \<times> bool) option" where
  "pointless_debug_print_value fuel p v error = pointless_debug_print_priv fuel p v error"

end
