(* ===== verification/Debug_Cmp.thy ===== *)
theory Debug_Cmp
  imports Debug Recreate_Laws Custom_Sort_Order
begin

text \<open>
  Printing the values of an opened file (theory \<open>Debug\<close>): it ends and stays inside the file, as long
  as its bitvectors have one representation, and what a set of strings prints.
\<close>

section \<open>Comparing keys\<close>

text \<open>
  Comparing a bitvector of the heap with an inline one reads through a null pointer. All bitvectors
  of the file have one of the two representations.
\<close>

definition one_bitvector_kind :: "pointless_t \<Rightarrow> bool" where
  "one_bitvector_kind p \<longleftrightarrow>
     (\<exists>heap. \<forall>v. reachable p v \<longrightarrow> pointless_is_bitvector_type (v_type v) \<longrightarrow>
        (v_type v = POINTLESS_BITVECTOR) = heap)"

lemma complete_type [simp]: "cv_type (pointless_value_to_complete v) = v_type v"
  by (simp add: pointless_value_to_complete_def)

lemma cmp_bits_total:
  assumes "\<forall>j < i + k. fa (of_nat j) \<noteq> None" and "\<forall>j < i + k. fb (of_nat j) \<noteq> None"
  shows "cmp_bits_loop fa fb i k tail \<noteq> None"
  using assms
proof (induction k arbitrary: i)
  case (Suc k)
  have "fa (of_nat i) \<noteq> None" "fb (of_nat i) \<noteq> None" using Suc.prems by simp_all
  then obtain x y where xy: "fa (of_nat i) = Some x" "fb (of_nat i) = Some y" by blast
  have "cmp_bits_loop fa fb (Suc i) k tail \<noteq> None" by (rule Suc.IH) (use Suc.prems in simp_all)
  with xy show ?case by simp
qed simp

lemma inline_bits_total:
  assumes "value_ok p v" and "pointless_is_bitvector_type (v_type v)" and "v_type v \<noteq> POINTLESS_BITVECTOR"
    and "pointless_bitvector_n_bits (v_type v) (v_data v) [] = Some n" and "j < unat n"
  shows "pointless_bitvector_is_set (v_type v) d [] (of_nat j) \<noteq> None"
proof (cases "v_type v = POINTLESS_BITVECTOR_PACKED")
  case True
  let ?v = "v\<lparr>v_data := d\<rparr>"
  have n: "n = bitvector_packed_n_bits (v_data v)" using True assms(4) by (simp add: pointless_bitvector_n_bits_def)
  have "\<not> 27 < bitvector_packed_n_bits (v_data v)"
    using assms(1) True by (simp add: value_ok_def pointless_validate_inline_invariants_def Let_def split: if_splits)
  then have j: "j < 27" using assms(5) by (simp add: n word_less_nat_alt not_less)
  then have "unat (of_nat j :: u32) = j" by (simp add: unsigned_of_nat take_bit_nat_eq_self)
  then have "unat (of_nat j + 5 :: u32) = j + 5" using j by (simp add: unat_word_ariths)
  then have "unat (ucast (of_nat j + 5 :: u32) :: u64) < 8 * length (le_bytes 4 d)" using j by (simp add: unat_ucast_up)
  from bm_is_set_eq [OF this] show ?thesis
    by (auto simp: True pointless_bitvector_is_set_def pointless_bitvector_is_set_bits_def)
next
  case False
  with assms(2,3) have "v_type v \<in> {POINTLESS_BITVECTOR_0, POINTLESS_BITVECTOR_1, POINTLESS_BITVECTOR_01, POINTLESS_BITVECTOR_10}"
    by (auto simp: pointless_is_bitvector_type_def)
  then show ?thesis by (auto simp: pointless_bitvector_is_set_def pointless_bitvector_is_set_bits_def)
qed

lemma cmp_bitvectors_total:
  assumes wf: "wf_reader p" and ok: "value_ok p x" "value_ok p y"
    and t: "pointless_is_bitvector_type (v_type x)" "pointless_is_bitvector_type (v_type y)"
    and kind: "v_type x = POINTLESS_BITVECTOR \<longleftrightarrow> v_type y = POINTLESS_BITVECTOR"
  shows "pointless_cmp_reader_bitvector p (pointless_value_to_complete x) p (pointless_value_to_complete y) \<noteq> None"
proof -
  from bitvector_readable [OF wf ok(1) t(1)] obtain n bx where
    x: "reader_buffer_or_null p x = Some bx" "pointless_bitvector_n_bits (v_type x) (v_data x) bx = Some n"
    "\<forall>i < n. pointless_bitvector_is_set (v_type x) (v_data x) bx i \<noteq> None"
    by (fastforce simp: pointless_reader_bitvector_n_bits_def pointless_reader_bitvector_is_set_def elim!: bind_eq_Some_E)
  from bitvector_readable [OF wf ok(2) t(2)] obtain m b where
    y: "reader_buffer_or_null p y = Some b" "pointless_bitvector_n_bits (v_type y) (v_data y) b = Some m"
    "\<forall>i < m. pointless_bitvector_is_set (v_type y) (v_data y) b i \<noteq> None"
    by (fastforce simp: pointless_reader_bitvector_n_bits_def pointless_reader_bitvector_is_set_def elim!: bind_eq_Some_E)
  let ?k = "unat (if n < m then n else m)"
  have k: "j < unat n \<and> j < unat m \<and> of_nat j < n \<and> of_nat j < m" if "j < ?k" for j
  proof -
    from that have j: "j < unat n" "j < unat m" by (auto simp: word_less_nat_alt split: if_split_asm)
    then show ?thesis using nat_u32 [of j n] by (simp add: word_less_nat_alt)
  qed
  have fa: "\<forall>j < 0 + ?k. pointless_bitvector_is_set (v_type x) (v_data x) bx (of_nat j) \<noteq> None" using x(3) k by simp
  have fb: "\<forall>j < 0 + ?k. pointless_bitvector_is_set (v_type x) (v_data y) b (of_nat j) \<noteq> None"
  proof (cases "v_type x = POINTLESS_BITVECTOR")
    case True
    with kind have "v_type y = v_type x" by simp
    with y(3) k show ?thesis by simp
  next
    case False
    with kind have "bx = []" "b = []" using x(1) y(1) by (simp_all add: reader_buffer_or_null_def)
    with inline_bits_total [OF ok(1) t(1) False] x(2) k show ?thesis by simp
  qed
  have "pointless_bitvector_cmp_buffer_buffer (v_type x) (v_data x) bx (v_type y) (v_data y) b \<noteq> None"
    using cmp_bits_total [OF fa fb] x(2) y(2) by (simp add: pointless_bitvector_cmp_buffer_buffer_def Let_def)
  then show ?thesis
    using x(1) y(1) by (simp add: pointless_cmp_reader_bitvector_def)
qed

lemma cmp_strings_total:
  assumes "value_ok p x" "value_ok p y" and "v_type x \<in> {POINTLESS_UNICODE, POINTLESS_STRING}"
    and "v_type y \<in> {POINTLESS_UNICODE, POINTLESS_STRING}"
  shows "pointless_cmp_reader_string_unicode p (pointless_value_to_complete x) p (pointless_value_to_complete y) \<noteq> None"
proof -
  have "\<exists>cs. key_of 1 p (pointless_value_to_complete v) = Some (K_Str cs)"
    if "value_ok p v" "v_type v \<in> {POINTLESS_UNICODE, POINTLESS_STRING}" for v
    using that(2) unicode_readable [OF that(1)] string_readable [OF that(1)] by (auto simp: complete_type)
  with assms obtain a b where "key_of 1 p (pointless_value_to_complete x) = Some (K_Str a)"
    "key_of 1 p (pointless_value_to_complete y) = Some (K_Str b)" by metis
  from cmp_reader_strings [OF this] show ?thesis by auto
qed

text \<open>What comparisons are of: values of the file, and the items of its vectors of numbers.\<close>

definition comparable :: "pointless_t \<Rightarrow> pointless_complete_value_t \<Rightarrow> bool" where
  "comparable p a \<longleftrightarrow> (\<exists>v. reachable p v \<and> a = pointless_value_to_complete v) \<or>
     cv_type a \<in> {POINTLESS_I32, POINTLESS_U32, POINTLESS_I64, POINTLESS_U64, POINTLESS_FLOAT}"

lemma cmp_func_cases:
  assumes "pointless_cmp_reader_func t = Some f"
  shows "f = Cmp_String_Unicode \<Longrightarrow> t \<in> {POINTLESS_UNICODE, POINTLESS_STRING}"
    and "f = Cmp_Bitvector \<Longrightarrow> pointless_is_bitvector_type t"
    and "f = Cmp_Vector \<Longrightarrow> t = POINTLESS_VECTOR_EMPTY \<or> t \<in> heap_vector_types"
    and "f \<in> {Cmp_String_Unicode, Cmp_Bitvector, Cmp_Vector} \<Longrightarrow>
      t \<notin> {POINTLESS_I32, POINTLESS_U32, POINTLESS_I64, POINTLESS_U64, POINTLESS_FLOAT}"
  using assms by (auto simp: pointless_cmp_reader_func_def pointless_is_bitvector_type_def split: if_split_asm)

lemma comparable_value:
  assumes "comparable p a" and "pointless_cmp_reader_func (cv_type a) = Some f"
    and "f \<in> {Cmp_String_Unicode, Cmp_Bitvector, Cmp_Vector}"
  obtains v where "reachable p v" and "a = pointless_value_to_complete v"
  using assms(1) cmp_func_cases(4) [OF assms(2,3)] unfolding comparable_def by blast

lemma comparable_func:
  assumes "opened p" and "comparable p a"
  shows "pointless_cmp_reader_func (cv_type a) \<noteq> None"
proof -
  consider v where "reachable p v" "a = pointless_value_to_complete v"
    | "cv_type a \<in> {POINTLESS_I32, POINTLESS_U32, POINTLESS_I64, POINTLESS_U64, POINTLESS_FLOAT}"
    using assms(2) unfolding comparable_def by blast
  then show ?thesis
  proof cases
    case 1
    have "value_ok p v" using opened_ok [OF assms(1) 1(1)] by simp
    from known_type [OF this] 1(2) show ?thesis by (auto simp: pointless_cmp_reader_func_def)
  qed (auto simp: pointless_cmp_reader_func_def)
qed

lemma vector_item_comparable:
  assumes "opened p" and "reachable p v" and "v_type v \<in> heap_vector_types"
    and "pointless_reader_vector_n_items p v = Some n" and "i < unat n"
  shows "\<exists>x. pointless_cmp_vector_value_reader p (pointless_value_to_complete v) i = Some x \<and> comparable p x"
proof -
  note ok = opened_ok [OF assms(1,2)]
  have i: "(of_nat i :: u32) < n" "unat (of_nat i :: u32) = i"
    using nat_u32 [of i n] assms(5) by (simp_all add: word_less_nat_alt)
  from vector_item_readable [OF _ _ assms(3,4) i(1)] ok obtain y where
    y: "pointless_reader_vector_value_case p v (of_nat i) = Some y" by blast
  show ?thesis
  proof (cases "v_type v \<in> {POINTLESS_VECTOR_VALUE, POINTLESS_VECTOR_VALUE_HASHABLE}")
    case True
    obtain m xs where b: "pointless_reader_vector_n_items p v = Some m" "pointless_reader_vector_value p v = Some xs"
      "unat m \<le> length xs" "unat m \<le> length (p_buf p)" "children p v = Some (take (unat m) xs)"
      by (rule vector_bound [of p v]) (use ok True in auto)
    then have m: "m = n" using assms(4) by simp
    have "reachable p (xs ! i)" by (rule item_reachable [OF assms(2) b(5,3)]) (simp add: m assms(5))
    moreover have "pointless_cmp_vector_value_reader p (pointless_value_to_complete v) i =
        Some (pointless_value_to_complete (xs ! i))"
      using True b(2,3) assms(5) by (simp add: pointless_cmp_vector_value_reader_def Let_def arr_get_def m)
    ultimately show ?thesis unfolding comparable_def by blast
  next
    case False
    with assms(3) y show ?thesis
      by (auto simp: pointless_cmp_vector_value_reader_def pointless_reader_vector_value_case_def Let_def i(2)
          comparable_def pointless_complete_value_create_as_read_i32_def pointless_complete_value_create_as_read_u32_def
          pointless_complete_value_create_as_read_i64_def pointless_complete_value_create_as_read_u64_def
          pointless_complete_value_create_as_read_float_def pointless_value_create_as_read_i32_def
          pointless_value_create_as_read_u32_def pointless_value_create_as_read_float_def
          elim!: bind_eq_Some_E)
  qed
qed

lemma cmp_vector_loop_total:
  assumes "\<forall>i \<in> set is. f i \<noteq> None"
  shows "cmp_vector_loop True f is tail \<noteq> None"
  using assms by (induction "is") (auto split: sum.split)

lemma comparison_total:
  assumes op: "opened p" and kind: "one_bitvector_kind p"
    and "comparable p a" and "comparable p b" and "514 \<le> depth + 2 * fuel" and "0 < fuel"
  shows "pointless_cmp_reader_rec fuel True p a p b depth \<noteq> None"
  using assms(3-)
proof (induction fuel arbitrary: a b depth)
  case (Suc fuel)
  show ?case
  proof (cases "512 \<le> depth \<or> pointless_cmp_reader_func (cv_type a) \<noteq> pointless_cmp_reader_func (cv_type b)")
    case True
    then show ?thesis by auto
  next
    case False
    then have d: "depth < 512" and eq: "pointless_cmp_reader_func (cv_type b) = pointless_cmp_reader_func (cv_type a)"
      by simp_all
    obtain f where f: "pointless_cmp_reader_func (cv_type a) = Some f"
      using comparable_func [OF op Suc.prems(1)] by blast
    note fb = f [folded eq]
    have two: "\<exists>x y. reachable p x \<and> a = pointless_value_to_complete x \<and> reachable p y \<and> b = pointless_value_to_complete y"
      if "f \<in> {Cmp_String_Unicode, Cmp_Bitvector, Cmp_Vector}"
      using comparable_value [OF Suc.prems(1) f that] comparable_value [OF Suc.prems(2) fb that] by metis
    show ?thesis
    proof (cases "f \<in> {Cmp_String_Unicode, Cmp_Bitvector, Cmp_Vector}")
      case other: False
      then show ?thesis using False f eq by (cases f) (auto simp: set_error_def)
    next
      case three: True
      from two [OF this] obtain x y where
        x: "reachable p x" "a = pointless_value_to_complete x" and
        y: "reachable p y" "b = pointless_value_to_complete y" by blast
      note okx = opened_ok [OF op x(1)] and oky = opened_ok [OF op y(1)]
      from three consider (str) "f = Cmp_String_Unicode" | (bits) "f = Cmp_Bitvector" | (vec) "f = Cmp_Vector" by blast
      then show ?thesis
      proof cases
        case str
        then have "pointless_cmp_reader_string_unicode p a p b \<noteq> None"
          using cmp_strings_total [of p x y] cmp_func_cases(1) [OF f] cmp_func_cases(1) [OF fb] okx oky x(2) y(2) by simp
        with str f eq d show ?thesis by simp
      next
        case bits
        have t: "pointless_is_bitvector_type (v_type x)" "pointless_is_bitvector_type (v_type y)"
          using cmp_func_cases(2) [OF f bits] cmp_func_cases(2) [OF fb bits] x(2) y(2) by simp_all
        have "v_type x = POINTLESS_BITVECTOR \<longleftrightarrow> v_type y = POINTLESS_BITVECTOR"
          using kind x(1) y(1) t unfolding one_bitvector_kind_def by blast
        from cmp_bitvectors_total [OF _ _ _ t this] okx oky
        have "pointless_cmp_reader_bitvector p a p b \<noteq> None" using x(2) y(2) by simp
        with bits f eq d show ?thesis by simp
      next
        case vec
        have len: "\<exists>n. pointless_reader_vector_n_items p v = Some n \<and>
            (\<forall>i < unat n. \<exists>z. pointless_cmp_vector_value_reader p (pointless_value_to_complete v) i = Some z \<and> comparable p z)"
          if "reachable p v" "v_type v = POINTLESS_VECTOR_EMPTY \<or> v_type v \<in> heap_vector_types" for v
        proof (cases "v_type v = POINTLESS_VECTOR_EMPTY")
          case True
          then show ?thesis by (simp add: pointless_reader_vector_n_items_def)
        next
          case False
          with that(2) have t: "v_type v \<in> heap_vector_types" by simp
          have "wf_reader p" "value_ok p v" using opened_ok [OF op that(1)] by simp_all
          from vector_readable [OF this t] obtain n where "pointless_reader_vector_n_items p v = Some n" by metis
          with vector_item_comparable [OF op that(1) t] show ?thesis by blast
        qed
        obtain n where n: "pointless_reader_vector_n_items p x = Some n"
          "\<forall>i < unat n. \<exists>z. pointless_cmp_vector_value_reader p a i = Some z \<and> comparable p z"
          using len [OF x(1)] cmp_func_cases(3) [OF f vec] x(2) by auto
        obtain m where m: "pointless_reader_vector_n_items p y = Some m"
          "\<forall>i < unat m. \<exists>z. pointless_cmp_vector_value_reader p b i = Some z \<and> comparable p z"
          using len [OF y(1)] cmp_func_cases(3) [OF fb vec] y(2) by auto
        let ?k = "if n < m then n else m"
        have "cmp_vector_loop True
            (\<lambda>i. do { c_a \<leftarrow> pointless_cmp_vector_value_reader p a i;
                      c_b \<leftarrow> pointless_cmp_vector_value_reader p b i;
                      pointless_cmp_reader_rec fuel True p c_a p c_b (depth + 2) })
            [0..<unat ?k] (SIMPLE_CMP n m) \<noteq> None"
        proof (rule cmp_vector_loop_total, rule ballI)
          fix i assume "i \<in> set [0..<unat ?k]"
          then have "i < unat n" "i < unat m" by (auto simp: word_less_nat_alt split: if_split_asm)
          then obtain ca cb where c: "pointless_cmp_vector_value_reader p a i = Some ca" "comparable p ca"
            "pointless_cmp_vector_value_reader p b i = Some cb" "comparable p cb" using n(2) m(2) by blast
          have "pointless_cmp_reader_rec fuel True p ca p cb (depth + 2) \<noteq> None"
            by (rule Suc.IH [OF c(2,4)]) (use d Suc.prems(3) in simp_all)
          with c(1,3) show "do { c_a \<leftarrow> pointless_cmp_vector_value_reader p a i;
              c_b \<leftarrow> pointless_cmp_vector_value_reader p b i;
              pointless_cmp_reader_rec fuel True p c_a p c_b (depth + 2) } \<noteq> None" by simp
        qed
        with vec f eq d n(1) m(1) x(2) y(2) show ?thesis by (simp add: Let_def)
      qed
    qed
  qed
qed simp

lemma compare_keys_total:
  assumes "opened p" and "one_bitvector_kind p" and "reachable p (fst x)" and "reachable p (fst y)"
  shows "compare_keys p x y \<noteq> None"
  unfolding compare_keys_def pointless_cmp_reader_def
  by (rule comparison_total [OF assms(1,2)]) (use assms(3,4) in \<open>auto simp: comparable_def\<close>)

section \<open>Comparisons that set no error\<close>

text \<open>
  A value is nested at most \<open>n\<close> deep when no chain of vectors, sets and maps in it is longer; the
  vectors a set or a map is stored in count as well.
\<close>

fun nested :: "nat \<Rightarrow> pointless_t \<Rightarrow> pointless_value_t \<Rightarrow> bool" where
  "nested 0 p v \<longleftrightarrow> v_type v \<notin> heap_vector_types \<union> {POINTLESS_SET_VALUE, POINTLESS_MAP_VALUE_VALUE}"
| "nested (Suc n) p v \<longleftrightarrow> list_all (nested n p) (case children p v of None \<Rightarrow> [] | Some cs \<Rightarrow> cs)"

lemma nested_child:
  assumes "nested n p v" and "children p v = Some cs" and "c \<in> set cs"
  obtains m where "n = Suc m" and "nested m p c"
proof (cases n)
  case 0
  with assms show ?thesis by (auto simp: children_def)
next
  case (Suc m)
  with assms that show ?thesis by (auto simp: list_all_iff)
qed

lemma nested_mono: "nested n p v \<Longrightarrow> n \<le> m \<Longrightarrow> nested m p v"
proof (induction m arbitrary: n v)
  case (Suc m)
  show ?case
  proof (cases "children p v")
    case (Some cs)
    have "nested m p c" if "c \<in> set cs" for c
      using nested_child [OF Suc.prems(1) Some that] Suc.IH Suc.prems(2) by fastforce
    with Some show ?thesis by (simp add: list_all_iff)
  qed simp
qed simp

text \<open>What the keys of a table are: hashable values, also inside of vectors.\<close>

definition hashed :: "pointless_t \<Rightarrow> pointless_value_t \<Rightarrow> bool" where
  "hashed p v \<longleftrightarrow> (\<exists>f. pointless_hash_reader_32 f p v \<noteq> None)"

lemma hashed_type:
  assumes "hashed p v"
  shows "v_type v \<notin> {POINTLESS_VECTOR_VALUE, POINTLESS_SET_VALUE, POINTLESS_MAP_VALUE_VALUE}"
proof -
  from assms obtain f where "pointless_hash_reader_32 f p v \<noteq> None" unfolding hashed_def by blast
  then show ?thesis by (cases f) (auto simp: pointless_hash_reader_func_32_def)
qed

lemma vector_hash_loop_defined:
  "vector_hash_loop f is st \<noteq> None \<Longrightarrow> i \<in> set is \<Longrightarrow> f i \<noteq> None"
  by (induction f "is" st rule: vector_hash_loop.induct) (auto split: bind_splits)

lemma hashed_item:
  assumes "hashed p v" and t: "v_type v = POINTLESS_VECTOR_VALUE_HASHABLE"
    and n: "pointless_reader_vector_n_items p v = Some n" and xs: "pointless_reader_vector_value p v = Some xs"
    and i: "i < unat n" "i < length xs"
  shows "hashed p (xs ! i)"
proof -
  from assms(1) obtain f where "pointless_hash_reader_32 f p v \<noteq> None" unfolding hashed_def by blast
  moreover have "pointless_hash_reader_func_32 (v_type v) = Some Hash_Vector" using t by (simp add: hash_func_vector)
  ultimately obtain g where
    "vector_hash_loop (hash_vector_item (pointless_hash_reader_32 g p) p v) [0..<unat n] (pointless_vector_hash_init_32 n) \<noteq> None"
    using n by (cases f) (auto simp: pointless_hash_reader_vector_32_priv_def)
  from vector_hash_loop_defined [OF this, of i] i(1)
  have "hash_vector_item (pointless_hash_reader_32 g p) p v i \<noteq> None" by simp
  then have "pointless_hash_reader_32 g p (xs ! i) \<noteq> None"
    using xs i(2) by (simp add: hash_vector_item_def t arr_get_def)
  then show ?thesis unfolding hashed_def by blast
qed

definition clean_key :: "pointless_t \<Rightarrow> nat \<Rightarrow> pointless_complete_value_t \<Rightarrow> bool" where
  "clean_key p n a \<longleftrightarrow>
     (\<exists>v. reachable p v \<and> a = pointless_value_to_complete v \<and> nested n p v \<and> hashed p v) \<or>
     cv_type a \<in> {POINTLESS_I32, POINTLESS_U32, POINTLESS_I64, POINTLESS_U64, POINTLESS_FLOAT}"

lemma clean_key_item:
  assumes op: "opened p" and v: "reachable p v" "nested n p v" "hashed p v" and t: "v_type v \<in> heap_vector_types"
    and len: "pointless_reader_vector_n_items p v = Some k" "i < unat k"
  shows "\<exists>m x. n = Suc m \<and> pointless_cmp_vector_value_reader p (pointless_value_to_complete v) i = Some x \<and>
    clean_key p m x"
proof -
  obtain m where m: "n = Suc m" using v(2) t by (cases n) auto
  obtain x where x: "pointless_cmp_vector_value_reader p (pointless_value_to_complete v) i = Some x" "comparable p x"
    using vector_item_comparable [OF op v(1) t len] by blast
  show ?thesis
  proof (cases "v_type v = POINTLESS_VECTOR_VALUE_HASHABLE")
    case True
    obtain k' xs where b: "pointless_reader_vector_n_items p v = Some k'" "pointless_reader_vector_value p v = Some xs"
      "unat k' \<le> length xs" "unat k' \<le> length (p_buf p)" "children p v = Some (take (unat k') xs)"
      by (rule vector_bound [of p v]) (use opened_ok [OF op v(1)] True in auto)
    then have k: "k' = k" using len(1) by simp
    have i: "i < length xs" using b(3) len(2) by (simp add: k)
    have "xs ! i \<in> set (take (unat k) xs)" using i len(2) by (auto simp: in_set_conv_nth intro!: exI [of _ i])
    then have "nested m p (xs ! i)" "reachable p (xs ! i)"
      using nested_child [OF v(2) b(5)] reachable.child [OF v(1) b(5)] m k by auto
    moreover have "hashed p (xs ! i)" by (rule hashed_item [OF v(3) True len(1) b(2) len(2) i])
    moreover have "x = pointless_value_to_complete (xs ! i)"
      using x(1) True b(2) i by (simp add: pointless_cmp_vector_value_reader_def Let_def arr_get_def)
    ultimately show ?thesis using m x(1) unfolding clean_key_def by blast
  next
    case False
    with t hashed_type [OF v(3)] have "v_type v \<in> heap_vector_types - {POINTLESS_VECTOR_VALUE, POINTLESS_VECTOR_VALUE_HASHABLE}"
      by auto
    with x(1) have "cv_type x \<in> {POINTLESS_I32, POINTLESS_U32, POINTLESS_I64, POINTLESS_U64, POINTLESS_FLOAT}"
      by (auto simp: pointless_cmp_vector_value_reader_def Let_def
          pointless_complete_value_create_as_read_i32_def pointless_complete_value_create_as_read_u32_def
          pointless_complete_value_create_as_read_i64_def pointless_complete_value_create_as_read_u64_def
          pointless_complete_value_create_as_read_float_def pointless_value_create_as_read_i32_def
          pointless_value_create_as_read_u32_def pointless_value_create_as_read_float_def
          elim!: bind_eq_Some_E)
    with m x(1) show ?thesis unfolding clean_key_def by blast
  qed
qed

lemma cmp_vector_loop_clean:
  assumes "\<forall>i \<in> set is. \<forall>e. f i \<noteq> Some (Inl e)"
  shows "cmp_vector_loop True f is tail \<noteq> Some (Inl e)"
  using assms by (induction "is") (auto split: bind_splits sum.splits)

lemma comparison_clean:
  assumes op: "opened p" and "clean_key p n a" and "depth + 2 * n \<le> 510"
  shows "pointless_cmp_reader_rec fuel True p a q b depth \<noteq> Some (Inl e)"
  using assms(2-)
proof (induction fuel arbitrary: n a b depth e)
  case (Suc fuel)
  have d: "depth < 512" using Suc.prems(2) by simp
  consider (num) "pointless_cmp_reader_func (cv_type a) = Some Cmp_Int_Float"
    | (val) v where "reachable p v" "a = pointless_value_to_complete v" "nested n p v" "hashed p v"
    using Suc.prems(1) unfolding clean_key_def by (auto simp: pointless_cmp_reader_func_def)
  then show ?case
  proof cases
    case num
    with d show ?thesis
      by (cases "pointless_cmp_reader_func (cv_type b) = Some Cmp_Int_Float") (simp_all add: Let_def)
  next
    case val
    have t: "v_type v \<notin> {POINTLESS_SET_VALUE, POINTLESS_MAP_VALUE_VALUE}" using hashed_type [OF val(4)] by simp
    then have nf: "pointless_cmp_reader_func (cv_type a) \<noteq> Some Cmp_Set" "pointless_cmp_reader_func (cv_type a) \<noteq> Some Cmp_Map"
      using val(2) by (auto simp: pointless_cmp_reader_func_def split: if_split_asm)
    show ?thesis
    proof (cases "pointless_cmp_reader_func (cv_type a) = Some Cmp_Vector \<and> pointless_cmp_reader_func (cv_type b) = Some Cmp_Vector")
      case False
      show ?thesis
      proof (cases "pointless_cmp_reader_func (cv_type b) = pointless_cmp_reader_func (cv_type a)")
        case eq: True
        show ?thesis
        proof (cases "pointless_cmp_reader_func (cv_type a)")
          case (Some f)
          then have "f \<notin> {Cmp_Set, Cmp_Map, Cmp_Vector}" using nf eq False by auto
          with d eq Some show ?thesis by (cases f) simp_all
        qed (use d eq in simp)
      qed (use d in \<open>auto simp: Let_def\<close>)
    next
      case vec: True
      have step: "cmp_vector_loop True
          (\<lambda>i. do { c_a \<leftarrow> pointless_cmp_vector_value_reader p a i;
                    c_b \<leftarrow> pointless_cmp_vector_value_reader q b i;
                    pointless_cmp_reader_rec fuel True p c_a q c_b (depth + 2) })
          [0..<unat (if k < l then k else l)] tail \<noteq> Some (Inl e)"
        if k: "pointless_reader_vector_n_items p v = Some k" for k l tail
      proof (rule cmp_vector_loop_clean, intro ballI allI)
        fix i e assume "i \<in> set [0..<unat (if k < l then k else l)]"
        then have i: "i < unat k" by (auto simp: word_less_nat_alt split: if_split_asm)
        have "v_type v \<in> heap_vector_types"
          using cmp_func_cases(3) [of "cv_type a" Cmp_Vector] vec val(2) i k
          by (auto simp: pointless_reader_vector_n_items_def)
        from clean_key_item [OF op val(1,3,4) this k i] obtain m x where
          x: "n = Suc m" "pointless_cmp_vector_value_reader p a i = Some x" "clean_key p m x" using val(2) by blast
        show "do { c_a \<leftarrow> pointless_cmp_vector_value_reader p a i;
            c_b \<leftarrow> pointless_cmp_vector_value_reader q b i;
            pointless_cmp_reader_rec fuel True p c_a q c_b (depth + 2) } \<noteq> Some (Inl e)"
          using Suc.IH [OF x(3), of "depth + 2" _ e] x(1,2) Suc.prems(2)
          by (cases "pointless_cmp_vector_value_reader q b i") simp_all
      qed
      show ?thesis using vec d step val(2) by (auto simp: Let_def bind_eq_Some_conv)
    qed
  qed
qed simp

lemma compare_keys_clean:
  assumes "opened p" and "one_bitvector_kind p" and "reachable p (fst x)" and "reachable p (fst y)"
    and "hashed p (fst x)" and "nested 255 p (fst x) \<or> nested 0 p (fst x)"
  shows "\<exists>c. compare_keys p x y = Some (Inr c)"
proof -
  have "\<exists>n. clean_key p n (pointless_value_to_complete (fst x)) \<and> 0 + 2 * n \<le> (510 :: nat)"
    using assms(3,5,6) unfolding clean_key_def by force
  then have "compare_keys p x y \<noteq> Some (Inl e)" for e
    using comparison_clean [OF assms(1)] unfolding compare_keys_def pointless_cmp_reader_def by blast
  moreover obtain r where "compare_keys p x y = Some r" using compare_keys_total [OF assms(1-4)] by blast
  ultimately show ?thesis by (cases r) auto
qed

text \<open>A file without heap bitvectors is such a file.\<close>

lemma no_heap_bitvectors:
  assumes "opened p" and "n_bitvector (header p) = 0"
  shows "one_bitvector_kind p"
  unfolding one_bitvector_kind_def
proof (intro exI [of _ False] allI impI)
  fix v assume "reachable p v"
  then have "value_ok p v" using opened_ok [OF assms(1)] by simp
  from object_in [OF this, of RC_Bitvector] assms(2)
  show "(v_type v = POINTLESS_BITVECTOR) = False" by (auto simp: r_c_kind_def)
qed

text \<open>
  C24 Comparing two values of an opened file whose bitvectors are all in the heap or all inline always ends
  and reads nothing outside the file, also when the vectors compared contain themselves. It sets no error
  when the first value can be hashed and is nested at most 255 deep.
\<close>

theorem file_values_compared:
  assumes "pointless_open_b hf buf = Some (Inr (p, warning))" and "length buf < 2 ^ 64"
    and "one_bitvector_kind p" and "reachable p v" and "reachable p w"
  shows "\<exists>r. pointless_cmp_reader p (pointless_value_to_complete v) p (pointless_value_to_complete w) = Some r \<and>
    (hashed p v \<and> nested 255 p v \<longrightarrow> (\<exists>c. r = Inr c))"
proof -
  have op: "opened p"
    using open_b_checked(1) [OF assms(1,2)] open_b_tables [OF assms(1,2)] unfolding opened_def by blast
  obtain r where "compare_keys p (v, None) (w, None) = Some r"
    using compare_keys_total [OF op assms(3), of "(v, None)" "(w, None)"] assms(4,5) by auto
  moreover have "\<exists>c. compare_keys p (v, None) (w, None) = Some (Inr c)" if "hashed p v" "nested 255 p v"
    using compare_keys_clean [OF op assms(3), of "(v, None)" "(w, None)"] assms(4,5) that by simp
  ultimately show ?thesis by (auto simp: compare_keys_def)
qed

text \<open>The vector of the hashes of a map, compared with the vector of its keys.\<close>

theorem file_values_compared_witness:
  "\<exists>c. pointless_cmp_reader map_handle (pointless_value_to_complete \<lparr>v_type = POINTLESS_VECTOR_U32, v_data = 0\<rparr>)
     map_handle (pointless_value_to_complete \<lparr>v_type = POINTLESS_VECTOR_VALUE_HASHABLE, v_data = 1\<rparr>) = Some (Inr c)"
proof -
  let ?v = "\<lparr>v_type = POINTLESS_VECTOR_U32, v_data = 0\<rparr>"
  let ?w = "\<lparr>v_type = POINTLESS_VECTOR_VALUE_HASHABLE, v_data = 1\<rparr>"
  have op: "opened map_handle"
    using open_b_checked(1) [OF map_image_opens image_sizes(1)] open_b_tables [OF map_image_opens image_sizes(1)]
    unfolding opened_def by blast
  have "n_bitvector (header map_handle) = 0" by (simp add: init_handle_def Let_def)
  note kind = no_heap_bitvectors [OF op this]
  have c: "children map_handle (pointless_root map_handle) = Some [?v, ?w, \<lparr>v_type = POINTLESS_VECTOR_VALUE, v_data = 2\<rparr>]"
    by code_simp
  have r: "reachable map_handle ?v" "reachable map_handle ?w"
    using reachable.child [OF reachable.root c] by simp_all
  have "pointless_hash_reader_32 1 map_handle ?v \<noteq> None" by code_simp
  then have "hashed map_handle ?v" unfolding hashed_def by blast
  moreover have "nested 1 map_handle ?v" by code_simp
  then have "nested 255 map_handle ?v" by (rule nested_mono) simp
  ultimately show ?thesis
    using file_values_compared [OF map_image_opens image_sizes(1) kind r] by blast
qed

end
