(* ===== verification/Debug_Sort.thy ===== *)
theory Debug_Sort
  imports Debug Custom_Sort_Order Cmp_Laws
begin

text \<open>
  The sort of \<open>src/custom_sort.c\<close> with a comparison that never reports a failure always succeeds;
  the comparison of \<open>src/pointless_debug.c\<close> is one.
\<close>

locale infallible =
  fixes cmp :: "'s qsort_cmp"
  assumes reports_success: "fst (cmp a b u)"
begin

lemma adapter: "cmp_adapter a b cmp u False = (snd (cmp a b u), False)"
  using reports_success [of a b u] by (cases "cmp a b u") (simp add: cmp_adapter_def)

lemma insert_loop_succeeds: "\<exists>u'. insert_loop cmp swap a pl False u = (True, False, u')"
proof (induction "nat (pl - a)" arbitrary: pl u rule: less_induct)
  case less
  show ?case
  proof (cases "pl > a \<and> snd (cmp (pl - 1) pl u) > 0")
    case True
    then show ?thesis using less [of "pl - 1" "swap pl (pl - 1) u"]
      by (subst insert_loop.simps) (simp add: adapter)
  next
    case False
    then show ?thesis by (subst insert_loop.simps) (auto simp: adapter)
  qed
qed

lemma insertion_loop_succeeds: "fst (insertion_loop cmp swap a n pm False u)"
proof (induction "nat (a + n - pm)" arbitrary: pm u rule: less_induct)
  case less
  obtain u' where "insert_loop cmp swap a pm False u = (True, False, u')" using insert_loop_succeeds by blast
  then show ?case using less [of "pm + 1" u'] by (subst insertion_loop.simps) simp
qed

lemma presorted_loop_succeeds: "\<exists>b. presorted_loop cmp a n pm False u = Inr (b, False)"
proof (induction "nat (a + n - pm)" arbitrary: pm rule: less_induct)
  case less
  then show ?case using less [of "pm + 1"] by (subst presorted_loop.simps) (auto simp: adapter)
qed

lemma choose_pivot_succeeds: "choose_pivot cmp a n u \<noteq> None"
proof -
  have "med3 i j k cmp u \<noteq> None" for i j k by (auto simp: med3_def Let_def adapter)
  then show ?thesis
    by (simp add: choose_pivot_def Let_def bind_eq_None_conv del: not_None_eq split: if_split)
qed

lemma left_scan_succeeds: "\<exists>qa qb u'. left_scan cmp swap a pa pb pc False u = Inr (qa, qb, False, u')"
proof (induction "nat (pc + 1 - pb)" arbitrary: pa pb u rule: less_induct)
  case less
  then show ?case
    using less [of "pb + 1" "pa + 1" "swap pa pb u"] less [of "pb + 1" pa u]
    by (subst left_scan.simps) (auto simp: adapter)
qed

lemma right_scan_succeeds: "\<exists>qc qd u'. right_scan cmp swap a pb pc pd False u = Inr (qc, qd, False, u')"
proof (induction "nat (pc + 1 - pb)" arbitrary: pc pd u rule: less_induct)
  case less
  then show ?case
    using less [of "pc - 1" "pd - 1" "swap pc pd u"] less [of "pc - 1" pd u]
    by (subst right_scan.simps) (auto simp: adapter)
qed

lemma partition_loop_succeeds: "\<exists>r. partition_loop cmp swap a pa pb pc pd False u = Inr r"
proof (induction "nat (pc + 1 - pb)" arbitrary: pa pb pc pd u rule: less_induct)
  case less
  obtain qa qb u1 where l: "left_scan cmp swap a pa pb pc False u = Inr (qa, qb, False, u1)"
    using left_scan_succeeds by blast
  obtain qc qd u2 where r: "right_scan cmp swap a qb pc pd False u1 = Inr (qc, qd, False, u2)"
    using right_scan_succeeds by blast
  show ?case
  proof (cases "qb > qc")
    case True
    then show ?thesis by (subst partition_loop.simps) (simp add: l r)
  next
    case False
    show ?thesis
    proof (cases "pb \<le> pc + 1")
      case le: True
      have lb: "pb \<le> qb" "qb \<le> pc + 1" using left_scan_bounds [OF l le] by simp_all
      have "qc \<le> pc" using right_scan_bounds [OF r lb(2)] by simp
      with lb False have "nat (qc - 1 + 1 - (qb + 1)) < nat (pc + 1 - pb)" by linarith
      from less [OF this] False show ?thesis by (subst partition_loop.simps) (simp add: l r)
    next
      case gt: False
      then have "qb = pb" using l by (subst (asm) left_scan.simps) simp
      moreover from this gt have "qc = pc" using r by (subst (asm) right_scan.simps) simp
      ultimately show ?thesis using gt False by simp
    qed
  qed
qed

lemma bentley_succeeds: "fst (bentley_qsort_priv a n cmp swap u)"
proof (induction "nat n" arbitrary: a n u rule: less_induct)
  case less
  show ?case
  proof (cases "n < 7")
    case True
    then show ?thesis by (subst bentley_qsort_priv.simps) (simp add: insertion_loop_succeeds)
  next
    case False
    obtain ok w where r: "bentley_qsort_priv a n cmp swap u = (ok, w)" by fastforce
    obtain b where p: "presorted_loop cmp a n (a + 1) False u = Inr (b, False)"
      using presorted_loop_succeeds by blast
    obtain pm where pm: "choose_pivot cmp a n u = Some pm" using choose_pivot_succeeds by blast
    obtain q where q: "partition_loop cmp swap a (a + 1) (a + 1) (a + (n - 1)) (a + (n - 1)) False (swap a pm u) = Inr q"
      using partition_loop_succeeds by blast
    obtain pa pb pc pd u1 where q': "q = (pa, pb, pc, pd, u1)" by (cases q)
    note bounds = partition_bounds [OF q [unfolded q']]
    have part: "fst (bentley_qsort_priv a' k cmp swap v)" if "k < n" "1 < k" for a' k v
      by (rule less) (use that in simp)
    let ?u2 = "collect_equal swap a n pa pb pc pd u1"
    obtain ok1 u3 where one: "(if pb - pa > 1 then bentley_qsort_priv a (pb - pa) cmp swap ?u2 else (True, ?u2)) = (ok1, u3)"
      by fastforce
    have k: "pb - pa < n" "pd - pc < n" using bounds False by auto
    have "ok1" using one part [OF k(1), of a ?u2] by (auto split: if_split_asm)
    moreover have "fst (if pd - pc > 1 then bentley_qsort_priv (a + n - (pd - pc)) (pd - pc) cmp swap u3 else (True, u3))"
      using part [OF k(2), of "a + n - (pd - pc)" u3] by simp
    ultimately show ?thesis using False p pm q one
      by (cases b) (subst bentley_qsort_priv.simps, simp add: q' Let_def)+
  qed
qed

end

lemma pv_cmp_array: "pv_cmp p = array_cmp (\<lambda>x y. (True, case compare_keys p x y of Some (Inr c) \<Rightarrow> c | _ \<Rightarrow> 0))"
  by (simp add: fun_eq_iff pv_cmp_def array_cmp_def item_def)

lemma pv_swap_array: "pv_swap = array_swap"
  by (simp add: fun_eq_iff pv_swap_def array_swap_def)

interpretation keys: infallible "pv_cmp p"
  by unfold_locales (simp add: pv_cmp_def)

text \<open>Sorting the keys of a container succeeds and leaves a permutation, whatever the size makes of the count.\<close>

lemma keys_sorted:
  assumes "length items = unat n"
  obtains items' where "bentley_sort (sint (n :: u32)) (pv_cmp p) pv_swap items = (True, items')"
    and "mset items' = mset items"
proof -
  obtain ok items' where r: "bentley_qsort_priv 0 (sint n) (pv_cmp p) pv_swap items = (ok, items')" by (cases "bentley_qsort_priv 0 (sint n) (pv_cmp p) pv_swap items")
  have "fst (bentley_qsort_priv 0 (sint n) (pv_cmp p) pv_swap items)" by (rule keys.bentley_succeeds)
  then have ok: "ok" unfolding r by simp
  have "mset items' = mset items"
  proof (cases "0 \<le> sint n")
    case True
    then have "sint n = uint n" by (rule uint_nonneg_sint [symmetric])
    then have n: "sint n = int (length items)" by (simp only: assms uint_nat)
    have "perm_in 0 (0 + int (length items)) items items'"
      by (rule bentley_perm [OF r [unfolded n pv_cmp_array pv_swap_array]]) (simp add: range_in_def)
    then show ?thesis by (simp add: perm_in_def)
  next
    case False
    have "insertion_loop (pv_cmp p) pv_swap 0 (sint n) (0 + 1) False items = (True, items)"
      using False by (subst insertion_loop.simps) simp
    moreover have "bentley_qsort_priv 0 (sint n) (pv_cmp p) pv_swap items =
        insertion_loop (pv_cmp p) pv_swap 0 (sint n) (0 + 1) False items"
      using False by (subst bentley_qsort_priv.simps) (simp only: if_P)
    ultimately have "items' = items" using r by simp
    then show ?thesis by simp
  qed
  with r ok show ?thesis by (intro that [of items']) (simp_all only: bentley_sort_def)
qed

end
