(* ===== verification/Debug_Laws.thy ===== *)
theory Debug_Laws
  imports Debug_Cmp Debug_Sort
begin

text \<open>
  Printing the values of an opened file (theory \<open>Debug\<close>) ends and stays inside the file when its
  bitvectors have one representation.
\<close>

section \<open>Values whose keys can be sorted\<close>

text \<open>No key of a set or a map is a vector.\<close>

definition flat_key :: "pointless_value_t \<Rightarrow> bool" where
  "flat_key k \<longleftrightarrow> pointless_cmp_reader_func (v_type k) \<noteq> Some Cmp_Vector"

definition flat_keys :: "pointless_t \<Rightarrow> bool" where
  "flat_keys p \<longleftrightarrow> (\<forall>v. reachable p v \<longrightarrow>
     (\<forall>keys. v_type v = POINTLESS_SET_VALUE \<longrightarrow> set_keys p v = Some keys \<longrightarrow> list_all flat_key keys) \<and>
     (\<forall>items. v_type v = POINTLESS_MAP_VALUE_VALUE \<longrightarrow> map_items p v = Some items \<longrightarrow>
        list_all (\<lambda>(k, x). flat_key k) items))"

text \<open>
  What can be printed in a state: any value if the keys are flat, otherwise one that is nested less
  deep than the comparison of keys allows, as long as no error is set.
\<close>

definition fits :: "pointless_t \<Rightarrow> pointless_debug_state_t \<Rightarrow> pointless_value_t \<Rightarrow> bool" where
  "fits p st v \<longleftrightarrow> flat_keys p \<or>
     ds_error st = None \<and> (\<exists>n. nested n p v \<and> length (ds_stack st) + n \<le> 255)"

text \<open>A key of a table that can be sorted.\<close>

definition key_fits :: "pointless_t \<Rightarrow> pointless_value_t \<Rightarrow> bool" where
  "key_fits p k \<longleftrightarrow> reachable p k \<and> hashed p k \<and> (flat_keys p \<longrightarrow> flat_key k)"

lemma flat_nested: "hashed p k \<Longrightarrow> flat_key k \<Longrightarrow> nested 0 p k"
  using hashed_type [of p k] by (auto simp: flat_key_def pointless_cmp_reader_func_def)

lemma compare_fits:
  assumes "opened p" and "one_bitvector_kind p" and "key_fits p (fst x)" and "key_fits p (fst y)" and "fits p st (fst x)"
  shows "\<exists>c. compare_keys p x y = Some (Inr c)"
proof (rule compare_keys_clean [OF assms(1,2)])
  show "reachable p (fst x)" "reachable p (fst y)" "hashed p (fst x)" using assms(3,4) by (simp_all add: key_fits_def)
  show "nested 255 p (fst x) \<or> nested 0 p (fst x)"
  proof (cases "flat_keys p")
    case True
    then have "nested 0 p (fst x)" using assms(3) flat_nested unfolding key_fits_def by blast
    then show ?thesis ..
  next
    case False
    with assms(5) obtain n where "nested n p (fst x)" "n \<le> 255" by (auto simp: fits_def)
    then show ?thesis using nested_mono by blast
  qed
qed

lemma fits_pushed:
  assumes "fits p st v" and "children p v = Some cs" and "c \<in> set cs"
  shows "fits p (st\<lparr>ds_stack := ds_stack st @ [i]\<rparr>) c"
proof (cases "flat_keys p")
  case False
  with assms(1) obtain n where n: "ds_error st = None" "nested n p v" "length (ds_stack st) + n \<le> 255"
    by (auto simp: fits_def)
  from nested_child [OF n(2) assms(2,3)] obtain m where "n = Suc m" "nested m p c" by metis
  with n show ?thesis by (auto simp: fits_def intro!: exI [of _ m])
qed (simp add: fits_def)

lemma fits_shorter: "fits p (st\<lparr>ds_stack := ds_stack st @ [i]\<rparr>) v \<Longrightarrow> fits p st v"
  by (force simp: fits_def)

lemma fits_fields: "fits p st v \<Longrightarrow> ds_error st' = ds_error st \<Longrightarrow> length (ds_stack st') = length (ds_stack st) \<Longrightarrow> fits p st' v"
  by (simp add: fits_def)

lemma set_keys_fit:
  assumes op: "opened p" and v: "reachable p v" "v_type v = POINTLESS_SET_VALUE" and "fits p st v"
    and h: "set_header_at p v = Some sh" "pointless_reader_vector_n_items p (sh_key_vector sh) = Some n"
      "pointless_reader_vector_value p (sh_key_vector sh) = Some kv"
    and j: "j < unat n" "used_slot kv j"
  shows "key_fits p (kv ! j) \<and> fits p (st\<lparr>ds_stack := ds_stack st @ [i]\<rparr>) (kv ! j)"
proof -
  from op v obtain hf where "table_ok hf p v" unfolding opened_def by blast
  from set_table [OF this v(2)] h obtain hv where tv: "table_valid hf p (sh_n_items sh) n hv kv" by force
  have len: "unat n \<le> length kv" using tv by (simp add: table_valid_def)
  have hash: "hashed p (kv ! j)" using table_hash [OF tv j(1)] unfolding hashed_def by auto
  have c: "children p v = Some [sh_hash_vector sh, sh_key_vector sh]" using v(2) h(1) by (simp add: children_def)
  then have kr: "reachable p (sh_key_vector sh)" by (rule reachable.child [OF v(1)]) simp
  have kt: "v_type (sh_key_vector sh) = POINTLESS_VECTOR_VALUE_HASHABLE"
    using set_readable [OF _ v(2)] opened_ok [OF op v(1)] h(1) by force
  then have kc: "children p (sh_key_vector sh) = Some (take (unat n) kv)"
    using h(2,3) len by (simp add: children_def)
  have mem: "kv ! j \<in> set (take (unat n) kv)" using j(1) len by (auto simp: in_set_conv_nth intro!: exI [of _ j])
  have reach: "reachable p (kv ! j)" by (rule reachable.child [OF kr kc mem])
  have "kv ! j \<in> set (map ((!) kv) (filter (used_slot kv) [0..<unat n]))" using j by auto
  moreover have "set_keys p v = Some (map ((!) kv) (filter (used_slot kv) [0..<unat n]))"
    using h by (simp add: set_keys_def)
  ultimately have flat: "flat_keys p \<longrightarrow> flat_key (kv ! j)" using v unfolding flat_keys_def list_all_iff by blast
  have "fits p (st\<lparr>ds_stack := ds_stack st @ [i]\<rparr>) (sh_key_vector sh)" by (rule fits_pushed [OF assms(4) c]) simp
  from fits_shorter [OF fits_pushed [OF this kc mem]] hash reach flat show ?thesis by (simp add: key_fits_def)
qed

lemma map_items_fit:
  assumes op: "opened p" and v: "reachable p v" "v_type v = POINTLESS_MAP_VALUE_VALUE" and "fits p st v"
    and h: "map_header_at p v = Some mh" "pointless_reader_vector_n_items p (mh_key_vector mh) = Some n"
      "pointless_reader_vector_value p (mh_key_vector mh) = Some kv" "pointless_reader_vector_value p (mh_value_vector mh) = Some vv"
    and j: "j < unat n" "used_slot kv j"
  shows "key_fits p (kv ! j) \<and> fits p (st\<lparr>ds_stack := ds_stack st @ [i]\<rparr>) (kv ! j) \<and>
    fits p (st\<lparr>ds_stack := ds_stack st @ [i]\<rparr>) (vv ! j)"
proof -
  from op v obtain hf where tb: "table_ok hf p v" and all: "all_ok p" unfolding opened_def by blast
  from map_table [OF tb v(2)] h obtain hv where tv: "table_valid hf p (mh_n_items mh) n hv kv"
    and nv: "pointless_reader_vector_n_items p (mh_value_vector mh) = Some n" by force
  have len: "unat n \<le> length kv" using tv by (simp add: table_valid_def)
  have len2: "unat n \<le> length vv" by (rule map_values_length [OF all v h(1) nv h(4)])
  have hash: "hashed p (kv ! j)" using table_hash [OF tv j(1)] unfolding hashed_def by auto
  have c: "children p v = Some [mh_hash_vector mh, mh_key_vector mh, mh_value_vector mh]"
    using v(2) h(1) by (simp add: children_def)
  then have kr: "reachable p (mh_key_vector mh)" by (rule reachable.child [OF v(1)]) simp
  have kt: "v_type (mh_key_vector mh) \<in> {POINTLESS_VECTOR_VALUE, POINTLESS_VECTOR_VALUE_HASHABLE}"
      "v_type (mh_value_vector mh) \<in> {POINTLESS_VECTOR_VALUE, POINTLESS_VECTOR_VALUE_HASHABLE}"
    using map_readable [OF _ v(2)] opened_ok [OF op v(1)] h(1) by force+
  then have kc: "children p (mh_key_vector mh) = Some (take (unat n) kv)"
      "children p (mh_value_vector mh) = Some (take (unat n) vv)"
    using h(2-4) nv len len2 by (simp_all add: children_def)
  have mem: "kv ! j \<in> set (take (unat n) kv)" "vv ! j \<in> set (take (unat n) vv)"
    using j(1) len len2 by (auto simp: in_set_conv_nth intro!: exI [of _ j])
  have reach: "reachable p (kv ! j)" by (rule reachable.child [OF kr kc(1) mem(1)])
  have "(kv ! j, vv ! j) \<in> set (map (\<lambda>i. (kv ! i, vv ! i)) (filter (used_slot kv) [0..<unat n]))" using j by auto
  moreover have "map_items p v = Some (map (\<lambda>i. (kv ! i, vv ! i)) (filter (used_slot kv) [0..<unat n]))"
    using h by (simp add: map_items_def)
  ultimately have flat: "flat_keys p \<longrightarrow> flat_key (kv ! j)" using v unfolding flat_keys_def list_all_iff by blast
  have "fits p (st\<lparr>ds_stack := ds_stack st @ [i]\<rparr>) (mh_key_vector mh)"
      "fits p (st\<lparr>ds_stack := ds_stack st @ [i]\<rparr>) (mh_value_vector mh)"
    by (rule fits_pushed [OF assms(4) c], simp)+
  from fits_shorter [OF fits_pushed [OF this(1) kc(1) mem(1)]] fits_shorter [OF fits_pushed [OF this(2) kc(2) mem(2)]]
    hash reach flat show ?thesis by (simp add: key_fits_def)
qed

section \<open>Steps\<close>

text \<open>
  Printing adds to the output and leaves the rest of the state. It sets an error at most where the
  keys are flat and none is read.
\<close>

definition prints :: "pointless_debug_state_t \<Rightarrow> pointless_debug_state_t \<Rightarrow> bool" where
  "prints st st' \<longleftrightarrow> (\<exists>t e. st' = st\<lparr>ds_out := ds_out st @ t, ds_error := e\<rparr> \<and>
     (flat_keys (ds_p st) \<or> e = ds_error st))"

definition printed :: "pointless_debug_state_t \<Rightarrow> printed \<Rightarrow> bool" where
  "printed st r \<longleftrightarrow> (\<exists>st'. r = Some (Inr st') \<and> prints st st')"

definition printing :: "pointless_t \<Rightarrow> pointless_debug_state_t \<Rightarrow> bool" where
  "printing p st \<longleftrightarrow> ds_p st = p \<and> sort_set st \<noteq> 0 \<and> sort_map st \<noteq> 0 \<and> length (ds_stack st) \<le> 512"

lemma prints_fprintf [intro!, simp]: "prints st (fprintf st s)"
  by (auto simp: prints_def fprintf_def intro!: exI [of _ s] exI [of _ "ds_error st"])

lemma prints_refl [intro!, simp]: "prints st st"
  by (auto simp: prints_def intro!: exI [of _ "[]"] exI [of _ "ds_error st"])

lemma prints_trans: "prints st1 st2 \<Longrightarrow> prints st2 st3 \<Longrightarrow> prints st1 st3"
  by (force simp: prints_def)

lemma prints_fields: "prints st st' \<Longrightarrow> ds_p st' = ds_p st \<and> ds_stack st' = ds_stack st \<and>
    sort_set st' = sort_set st \<and> sort_map st' = sort_map st"
  by (auto simp: prints_def)

lemma fits_prints: "fits p st v \<Longrightarrow> printing p st \<Longrightarrow> prints st st' \<Longrightarrow> fits p st' v"
  by (auto simp: fits_def printing_def prints_def)

lemma printing_prints: "printing p st \<Longrightarrow> prints st st' \<Longrightarrow> printing p st'"
  by (simp add: printing_def prints_fields)

lemma fprintf_fields [simp]: "ds_p (fprintf st s) = ds_p st" "ds_stack (fprintf st s) = ds_stack st"
    "sort_set (fprintf st s) = sort_set st" "sort_map (fprintf st s) = sort_map st"
    "ds_error (fprintf st s) = ds_error st"
  by (simp_all add: fprintf_def)

lemma printed_Some [simp]: "printed st (Some (Inr st')) \<longleftrightarrow> prints st st'"
  by (simp add: printed_def)

lemma printed_from: "prints st st' \<Longrightarrow> printed st' r \<Longrightarrow> printed st r"
  using prints_trans by (auto simp: printed_def)

lemma printed_and:
  assumes "printed st r" and "\<And>st'. prints st st' \<Longrightarrow> printed st' (f st')"
  shows "printed st (and_print r f)"
proof -
  obtain st' where st': "r = Some (Inr st')" "prints st st'" using assms(1) by (auto simp: printed_def)
  then show ?thesis using printed_from [OF st'(2) assms(2) [OF st'(2)]] by (simp add: and_print_def)
qed

section \<open>Leaves\<close>

lemma item_text_total:
  assumes "wf_reader p" and "value_ok p v"
    and "v_type v \<in> heap_vector_types - {POINTLESS_VECTOR_VALUE, POINTLESS_VECTOR_VALUE_HASHABLE}"
    and "pointless_reader_vector_n_items p v = Some n" and "i < unat n"
  shows "vector_item_text p v i \<noteq> None"
proof -
  have i: "(of_nat i :: u32) < n" "unat (of_nat i :: u32) = i"
    using nat_u32 [of i n] assms(5) by (simp_all add: word_less_nat_alt)
  from vector_item_readable [OF assms(1,2) _ assms(4) i(1)] assms(3) obtain y where
    "pointless_reader_vector_value_case p v (of_nat i) = Some y" by blast
  with assms(3) show ?thesis
    by (auto simp: vector_item_text_def pointless_reader_vector_value_case_def Let_def i(2) elim!: bind_eq_Some_E)
qed

lemma print_numbers_prints:
  assumes "\<forall>i \<in> set is. vector_item_text (ds_p st) v i \<noteq> None"
  shows "\<exists>st'. print_numbers n v is st = Some st' \<and> prints st st'"
  using assms
proof (induction "is" arbitrary: st)
  case (Cons i "is")
  then obtain s where s: "vector_item_text (ds_p st) v i = Some s" by auto
  let ?st = "if i + 1 < n then fprintf (fprintf st s) '','' else fprintf st s"
  have st: "prints st ?st" by (auto intro: prints_trans)
  then have "\<forall>i \<in> set is. vector_item_text (ds_p ?st) v i \<noteq> None" using Cons.prems prints_fields by auto
  from Cons.IH [OF this] st s show ?case by (auto simp: Let_def intro: prints_trans)
qed simp

lemma vector_other_prints:
  assumes "wf_reader (ds_p st)" and "value_ok (ds_p st) v"
    and t: "v_type v \<in> heap_vector_types - {POINTLESS_VECTOR_VALUE, POINTLESS_VECTOR_VALUE_HASHABLE}"
  shows "\<exists>st'. pointless_print_vector_other st v = Some st' \<and> prints st st'"
proof -
  obtain n where n: "pointless_reader_vector_n_items (ds_p st) v = Some n"
    using vector_readable [OF assms(1,2)] t by (metis DiffD1)
  have "\<forall>i \<in> set [0..<unat n]. vector_item_text (ds_p (fprintf st ''H['')) v i \<noteq> None"
    using item_text_total [OF assms(1,2) t n] by simp
  from print_numbers_prints [OF this, of "unat n"] obtain st' where
    "print_numbers (unat n) v [0..<unat n] (fprintf st ''H['') = Some st'" "prints (fprintf st ''H['') st'" by blast
  then show ?thesis using n by (auto simp: pointless_print_vector_other_def intro: prints_trans)
qed

lemma print_chars_prints: "code_points s = Some cs \<Longrightarrow> \<exists>st'. print_chars s st = Some st' \<and> prints st st'"
proof (induction s arbitrary: st cs)
  case (Cons c s)
  show ?case
  proof (cases "c = 0")
    case False
    with Cons.prems obtain ds where ds: "code_points s = Some ds" by (auto split: if_split_asm)
    from Cons.IH [OF this, of "fprintf st (if c < 128 then [char_of (unat c)] else ''?'')"] False
    show ?thesis by (auto intro: prints_trans [OF prints_fprintf])
  qed simp
qed simp

lemma strings_print:
  assumes "value_ok (ds_p st) v"
  shows "v_type v = POINTLESS_UNICODE \<Longrightarrow> \<exists>st'. pointless_print_unicode st v = Some st' \<and> prints st st'"
    and "v_type v = POINTLESS_STRING \<Longrightarrow> \<exists>st'. pointless_print_string st v = Some st' \<and> prints st st'"
proof -
  assume "v_type v = POINTLESS_UNICODE"
  from unicode_readable [OF assms this] obtain s cs where
    s: "pointless_reader_unicode_value_ucs4 (ds_p st) v = Some s" "code_points s = Some cs" by blast
  obtain st' where "print_chars s (fprintf st [CHR 0x22]) = Some st'" "prints (fprintf st [CHR 0x22]) st'"
    using print_chars_prints [OF s(2)] by blast
  then show "\<exists>st'. pointless_print_unicode st v = Some st' \<and> prints st st'"
    using s(1) by (auto simp: pointless_print_unicode_def intro: prints_trans)
next
  assume "v_type v = POINTLESS_STRING"
  from string_readable [OF assms this] obtain s cs where
    s: "pointless_reader_string_value_ascii (ds_p st) v = Some s" "code_points s = Some cs" by blast
  obtain st' where "print_chars s (fprintf st [CHR 0x22]) = Some st'" "prints (fprintf st [CHR 0x22]) st'"
    using print_chars_prints [OF s(2)] by blast
  then show "\<exists>st'. pointless_print_string st v = Some st' \<and> prints st st'"
    using s(1) by (auto simp: pointless_print_string_def intro: prints_trans)
qed

lemma print_bits_prints:
  assumes "\<forall>i \<in> set is. pointless_reader_bitvector_is_set (ds_p st) v (of_nat i) \<noteq> None"
  shows "\<exists>st'. print_bits v is st = Some st' \<and> prints st st'"
  using assms
proof (induction "is" arbitrary: st)
  case (Cons i "is")
  then obtain b where b: "pointless_reader_bitvector_is_set (ds_p st) v (of_nat i) = Some b" by auto
  let ?st = "fprintf st (show_int (if b \<noteq> 0 then 1 else 0))"
  have "\<forall>i \<in> set is. pointless_reader_bitvector_is_set (ds_p ?st) v (of_nat i) \<noteq> None" using Cons.prems by simp
  from Cons.IH [OF this] b show ?case by (auto intro: prints_trans [OF prints_fprintf])
qed simp

lemma bitvector_prints:
  assumes "wf_reader (ds_p st)" and "value_ok (ds_p st) v" and "pointless_is_bitvector_type (v_type v)"
  shows "\<exists>st'. pointless_print_bitvector st v = Some st' \<and> prints st st'"
proof -
  from bitvector_readable [OF assms] obtain n where n: "pointless_reader_bitvector_n_bits (ds_p st) v = Some n"
    "\<forall>i < n. \<exists>b. pointless_reader_bitvector_is_set (ds_p st) v i = Some b" by blast
  have "\<forall>i \<in> set [0..<unat n]. pointless_reader_bitvector_is_set (ds_p (fprintf st ''<'')) v (of_nat i) \<noteq> None"
  proof
    fix i assume "i \<in> set [0..<unat n]"
    then have "(of_nat i :: u32) < n" using nat_u32 [of i n] by (simp add: word_less_nat_alt)
    with n(2) show "pointless_reader_bitvector_is_set (ds_p (fprintf st ''<'')) v (of_nat i) \<noteq> None" by auto
  qed
  from print_bits_prints [OF this] obtain st' where
    "print_bits v [0..<unat n] (fprintf st ''<'') = Some st'" "prints (fprintf st ''<'') st'" by blast
  then show ?thesis using n(1) by (auto simp: pointless_print_bitvector_def intro: prints_trans)
qed

section \<open>The items of sets and maps\<close>

lemma collect_keys_eq:
  assumes t: "set_header_at p v = Some sh" "pointless_reader_vector_n_items p (sh_key_vector sh) = Some n"
      "pointless_reader_vector_value p (sh_key_vector sh) = Some kv"
    and len: "unat n \<le> length kv"
    and "i \<le> unat n" and "length (used_from kv i (unat n)) = k"
  shows "collect_keys k p v (of_nat i) = Some (map (\<lambda>j. (kv ! j, None)) (used_from kv i (unat n)))"
  using assms(5-)
proof (induction k arbitrary: i)
  case 0
  then obtain st where "pointless_reader_set_iter p v (of_nat i) = Some (None, st)"
    using set_iter_step(1) [OF t len 0(1)] by auto
  then show ?case using 0(2) by simp
next
  case (Suc k)
  then obtain j js where c: "used_from kv i (unat n) = j # js" by (metis length_Suc_conv)
  note tl = used_from_tail [OF c]
  obtain a where a: "pointless_reader_set_iter p v (of_nat i) = Some (Some a, of_nat (Suc j))"
    "read_value (p_buf p) a = Some (kv ! j)" using set_iter_step(2) [OF t len Suc(2) c] by blast
  have "collect_keys k p v (of_nat (Suc j)) = Some (map (\<lambda>j. (kv ! j, None)) js)"
    using Suc.IH [of "Suc j"] tl Suc(3) c by auto
  with a show ?case unfolding c by (simp del: of_nat_Suc)
qed

lemma collect_items_eq:
  assumes t: "map_header_at p v = Some mh" "pointless_reader_vector_n_items p (mh_key_vector mh) = Some n"
      "pointless_reader_vector_value p (mh_key_vector mh) = Some kv"
      "pointless_reader_vector_value p (mh_value_vector mh) = Some vv"
    and len: "unat n \<le> length kv" "unat n \<le> length vv"
    and "i \<le> unat n" and "length (used_from kv i (unat n)) = k"
  shows "collect_items k p v (of_nat i) = Some (map (\<lambda>j. (kv ! j, Some (vv ! j))) (used_from kv i (unat n)))"
  using assms(7-)
proof (induction k arbitrary: i)
  case 0
  then obtain st where "pointless_reader_map_iter p v (of_nat i) = Some (None, st)"
    using map_iter_step(1) [OF t len 0(1)] by auto
  then show ?case using 0(2) by simp
next
  case (Suc k)
  then obtain j js where c: "used_from kv i (unat n) = j # js" by (metis length_Suc_conv)
  note tl = used_from_tail [OF c]
  obtain a b where a: "pointless_reader_map_iter p v (of_nat i) = Some (Some (a, b), of_nat (Suc j))"
    "read_value (p_buf p) a = Some (kv ! j)" "read_value (p_buf p) b = Some (vv ! j)"
    using map_iter_step(2) [OF t len Suc(2) c] by blast
  have "collect_items k p v (of_nat (Suc j)) = Some (map (\<lambda>j. (kv ! j, Some (vv ! j))) js)"
    using Suc.IH [of "Suc j"] tl Suc(3) c by auto
  with a show ?case unfolding c by (simp del: of_nat_Suc)
qed

section \<open>Containers\<close>

text \<open>The recursive call prints every value that fits on what is left of the stack.\<close>

definition prints_values :: "pointless_t \<Rightarrow> nat \<Rightarrow> print_rec \<Rightarrow> bool" where
  "prints_values p m rec \<longleftrightarrow>
     (\<forall>st v. printing p st \<longrightarrow> reachable p v \<longrightarrow> fits p st v \<longrightarrow> 512 - length (ds_stack st) < m \<longrightarrow> printed st (rec st v))"

lemma vector_items_printed:
  assumes rec: "prints_values p m rec"
    and reach: "\<forall>i \<in> set is. i < length xs \<and> reachable p (xs ! i) \<and> fits p st (xs ! i)"
    and "printing p st" and "512 - length (ds_stack st) < m"
  shows "printed st (print_vector_items rec xs n is st)"
  using assms(2-)
proof (induction "is" arbitrary: st)
  case (Cons i "is")
  have g: "arr_get xs i = Some (xs ! i)" using Cons.prems(1) by (simp add: arr_get_def)
  have "printed st (rec st (xs ! i))" using rec Cons.prems unfolding prints_values_def by simp
  then show ?case unfolding print_vector_items.simps g bind.bind_lunit
  proof (rule printed_and)
    fix st' assume st': "prints st st'"
    let ?st = "if i + 1 < n then fprintf st' '','' else st'"
    have p: "prints st' ?st" by simp
    have q: "prints st ?st" by (rule prints_trans [OF st' p])
    have "printed ?st (print_vector_items rec xs n is ?st)"
    proof (rule Cons.IH)
      show "\<forall>i \<in> set is. i < length xs \<and> reachable p (xs ! i) \<and> fits p ?st (xs ! i)"
        using Cons.prems(1) fits_prints [OF _ Cons.prems(2) q] by simp
    qed (use Cons.prems(3) prints_fields [OF q] printing_prints [OF Cons.prems(2) q] in simp_all)
    then show "printed st' (print_vector_items rec xs n is ?st)" by (rule printed_from [OF p])
  qed
qed simp

lemma item_printed:
  assumes rec: "prints_values p m rec" and "reachable p (fst x) \<and> fits p st (fst x)"
    and "\<forall>y. snd x = Some y \<longrightarrow> reachable p y \<and> fits p st y"
    and st: "printing p st" "512 - length (ds_stack st) < m"
  shows "printed st (print_item rec st x)"
  unfolding print_item_def
proof (rule printed_and)
  show "printed st (rec st (fst x))" using rec assms(2) st unfolding prints_values_def by blast
next
  fix st' assume st': "prints st st'"
  show "printed st' (case snd x of None \<Rightarrow> Some (Inr st') | Some val \<Rightarrow> rec (fprintf st' '': '') val)"
  proof (cases "snd x")
    case (Some y)
    have q: "prints st (fprintf st' '': '')" by (rule prints_trans [OF st' prints_fprintf])
    have "printed (fprintf st' '': '') (rec (fprintf st' '': '') y)"
      using rec assms(3) Some st(2) printing_prints [OF st(1) q] prints_fields [OF q] fits_prints [OF _ st(1) q]
      unfolding prints_values_def by simp
    with Some show ?thesis by (simp add: printed_from [OF prints_fprintf])
  qed simp
qed

definition item_fits :: "pointless_t \<Rightarrow> pointless_debug_state_t \<Rightarrow> pv_item \<Rightarrow> bool" where
  "item_fits p st x \<longleftrightarrow> key_fits p (fst x) \<and> fits p st (fst x) \<and> (\<forall>y. snd x = Some y \<longrightarrow> reachable p y \<and> fits p st y)"

lemma item_fits_prints: "item_fits p st x \<Longrightarrow> printing p st \<Longrightarrow> prints st st' \<Longrightarrow> item_fits p st' x"
  unfolding item_fits_def using fits_prints by blast

lemma items_printed:
  assumes rec: "prints_values p m rec" and "\<forall>x \<in> set xs. item_fits p st x"
    and "printing p st" and "512 - length (ds_stack st) < m"
  shows "printed st (print_items rec first xs st)"
  using assms(2-)
proof (induction xs arbitrary: st first)
  case (Cons x xs)
  let ?st = "if first then st else fprintf st '', ''"
  have p: "prints st ?st" by simp
  have "item_fits p ?st x" using Cons.prems(1) item_fits_prints [OF _ Cons.prems(2) p] by simp
  then have "printed ?st (print_item rec ?st x)"
    using Cons.prems prints_fields [OF p]
    by (intro item_printed [OF rec] printing_prints [OF _ p]) (simp_all add: item_fits_def key_fits_def)
  then have "printed ?st (and_print (print_item rec ?st x) (print_items rec False xs))"
  proof (rule printed_and)
    fix st' assume "prints ?st st'"
    then have q: "prints st st'" by (rule prints_trans [OF p])
    show "printed st' (print_items rec False xs st')"
      using Cons.prems item_fits_prints [OF _ Cons.prems(2) q] prints_fields [OF q]
      by (intro Cons.IH printing_prints [OF _ q]) simp_all
  qed
  then show ?case by (simp add: printed_from [OF p])
qed simp

text \<open>Between a push and its pop. The stack of a value that is not nested deep is never full.\<close>

lemma pushed_state:
  assumes "printing p st" and "length (ds_stack st) < 512"
  shows "pointless_print_push_container st v = (True, st\<lparr>ds_stack := ds_stack st @ [pointless_container_id (ds_p st) v]\<rparr>)"
    and "printing p (st\<lparr>ds_stack := ds_stack st @ [i]\<rparr>)"
  using assms by (simp_all add: pointless_print_push_container_def printing_def)

lemma not_pushed:
  assumes "\<not> length (ds_stack st) < 512" and "printing p st" and "fits p st v"
  obtains st' where "pointless_print_push_container st w = (False, st')" and "prints st st'"
proof -
  have "length (ds_stack st) = 512" using assms by (simp add: printing_def)
  moreover from this have "flat_keys (ds_p st)" using assms(2,3) by (auto simp: fits_def printing_def)
  then have "prints st (st\<lparr>ds_error := e\<rparr>)" for e
    by (auto simp: prints_def intro!: exI [of _ "[]"] exI [of _ e])
  ultimately show ?thesis using that by (simp add: pointless_print_push_container_def)
qed

lemma popped:
  assumes "prints (st\<lparr>ds_stack := ds_stack st @ [i]\<rparr>) st'"
  shows "prints st (pointless_print_pop_container st')"
proof -
  obtain t e where st': "st' = st\<lparr>ds_stack := ds_stack st @ [i], ds_out := ds_out st @ t, ds_error := e\<rparr>"
      "flat_keys (ds_p st) \<or> e = ds_error st"
    using assms by (auto simp: prints_def)
  then have "pointless_print_pop_container st' = st\<lparr>ds_out := ds_out st @ t, ds_error := e\<rparr>"
    by (simp add: pointless_print_pop_container_def)
  with st'(2) show ?thesis unfolding prints_def by blast
qed

text \<open>A container that is printed between a push and its pop, followed by \<open>s\<close>.\<close>

lemma pushed_printed:
  assumes "printed (st\<lparr>ds_stack := ds_stack st @ [i]\<rparr>) (f (st\<lparr>ds_stack := ds_stack st @ [i]\<rparr>))"
  shows "printed st (and_print (f (st\<lparr>ds_stack := ds_stack st @ [i]\<rparr>))
    (\<lambda>st. Some (Inr (fprintf (pointless_print_pop_container st) s))))"
proof -
  obtain st' where "f (st\<lparr>ds_stack := ds_stack st @ [i]\<rparr>) = Some (Inr st')" "prints (st\<lparr>ds_stack := ds_stack st @ [i]\<rparr>) st'"
    using assms by (auto simp: printed_def)
  then show ?thesis using prints_trans [OF popped prints_fprintf] by (simp add: and_print_def)
qed

lemma sort_followed_items:
  assumes "opened p" and "one_bitvector_kind p" and "ds_p st = p" and fit: "\<forall>x \<in> set items. item_fits p st x"
  shows "sort_followed st items = Some True"
proof -
  have "\<exists>rs. those (map (\<lambda>(x, y). compare_keys p x y) qs) = Some rs \<and> list_all (\<lambda>r. case r of Inr c \<Rightarrow> True | Inl e \<Rightarrow> False) rs"
    if "set qs \<subseteq> set items \<times> set items" for qs
    using that
  proof (induction qs)
    case (Cons q qs)
    obtain x y where q: "q = (x, y)" by (cases q)
    have "item_fits p st x" "item_fits p st y" using fit Cons.prems q by auto
    then obtain c where "compare_keys p x y = Some (Inr c)"
      using compare_fits [OF assms(1,2)] unfolding item_fits_def by blast
    with Cons q show ?case by auto
  qed simp
  from this [of "List.product items items"] obtain rs where
    rs: "those (map (\<lambda>(x, y). compare_keys p x y) (List.product items items)) = Some rs"
      "list_all (\<lambda>r. case r of Inr c \<Rightarrow> True | Inl e \<Rightarrow> False) rs" by auto
  have "ds_error st = None \<or> list_all (\<lambda>x. flat_key (fst x)) items"
    using fit by (cases "flat_keys p"; cases items) (auto simp: item_fits_def key_fits_def fits_def list_all_iff)
  with rs assms(3) show ?thesis by (simp add: sort_followed_def flat_key_def)
qed

lemma sort_items_sorted:
  assumes "opened p" and "one_bitvector_kind p" and "ds_p st = p" and "\<forall>x \<in> set items. item_fits p st x"
    and n: "length items = unat n"
  obtains items' where "sort_items st n items = Some (Inr (True, items'))" and "set items' = set items"
proof -
  obtain items' where s: "bentley_sort (sint n) (pv_cmp p) pv_swap items = (True, items')" "mset items' = mset items"
    by (rule keys_sorted [OF n])
  have "set items' = set items" using s(2) by (rule mset_eq_setD)
  with s(1) sort_followed_items [OF assms(1-4)] assms(3) that show ?thesis by (simp add: sort_items_def)
qed

lemma sorted_container_printed:
  assumes op: "opened p" and kind: "one_bitvector_kind p" and rec: "prints_values p m rec"
    and st': "st' = st\<lparr>ds_stack := ds_stack st @ [i]\<rparr>"
    and fit: "\<forall>x \<in> set items. item_fits p st' x" and n: "length items = unat n"
    and st: "printing p st" "512 - length (ds_stack st) < Suc m" "length (ds_stack st) < 512"
  shows "printed st (do { r \<leftarrow> sort_items st' n items;
    (case r of
       Inl u \<Rightarrow> Some (Inl u)
     | Inr (ok, items) \<Rightarrow>
         if ok then and_print (print_items rec True items st')
           (\<lambda>st. Some (Inr (fprintf (pointless_print_pop_container st) s)))
         else Some (Inr st')) })"
proof -
  have p: "ds_p st' = p" "printing p st'" using st(1,3) by (simp_all add: st' printing_def)
  obtain items' where s: "sort_items st' n items = Some (Inr (True, items'))" "set items' = set items"
    by (rule sort_items_sorted [OF op kind p(1) fit n])
  have "printed st' (print_items rec True items' st')"
    using fit s(2) st(2,3) p(2) by (intro items_printed [OF rec]) (simp_all add: st')
  from pushed_printed [where f = "print_items rec True items'", OF this [unfolded st'], of s] show ?thesis unfolding st' using s(1) [unfolded st'] by simp
qed

text \<open>A container that is on the stack already, or that does not fit on it, is not entered.\<close>

lemma entered_cases:
  assumes "printing p st" and "fits p st v"
  obtains (cycle) "pointless_print_has_container st v"
    | (full) st' where "\<not> pointless_print_has_container st v"
        "pointless_print_push_container st v = (False, st')" "prints st st'"
    | (push) i where "\<not> pointless_print_has_container st v" "length (ds_stack st) < 512"
        "pointless_print_push_container st v = (True, st\<lparr>ds_stack := ds_stack st @ [i]\<rparr>)"
proof (cases "length (ds_stack st) < 512")
  case True
  with cycle push pushed_state(1) [OF assms(1) True] show ?thesis by blast
next
  case False
  from not_pushed [OF this assms] cycle full show ?thesis by metis
qed

lemma set_printed:
  assumes op: "opened p" and kind: "one_bitvector_kind p" and rec: "prints_values p m rec"
    and v: "reachable p v" "v_type v = POINTLESS_SET_VALUE"
    and st: "printing p st" "512 - length (ds_stack st) < Suc m" and fit: "fits p st v"
  shows "printed st (pointless_print_set rec st v)"
proof -
  let ?st = "fprintf st ''set([''"
  have st1: "printing p ?st" using st(1) by (rule printing_prints) simp
  have fit1: "fits p ?st v" by (rule fits_prints [OF fit st(1)]) simp
  obtain sh n kv where c: "set_header_at p v = Some sh" "pointless_reader_vector_n_items p (sh_key_vector sh) = Some n"
    "pointless_reader_vector_value p (sh_key_vector sh) = Some kv" "unat n \<le> length kv"
    "unat n \<le> length (p_buf p)" "\<forall>j < unat n. reachable p (kv ! j)" "length (used_from kv 0 (unat n)) = unat (sh_n_items sh)"
    by (rule set_contents [OF op v])
  let ?items = "map (\<lambda>j. (kv ! j, None)) (used_from kv 0 (unat n)) :: pv_item list"
  have keys: "collect_keys (unat (sh_n_items sh)) p v 0 = Some ?items"
    using collect_keys_eq [OF c(1-4), of 0] c(7) by simp
  have ni: "pointless_reader_set_n_items p v = Some (sh_n_items sh)"
    using c(1) by (simp add: pointless_reader_set_n_items_def)
  have "printed ?st (pointless_print_set rec st v)"
  proof (rule entered_cases [OF st1 fit1])
    assume "pointless_print_has_container ?st v"
    then show ?thesis by (simp add: pointless_print_set_def Let_def prints_trans [OF prints_fprintf prints_fprintf])
  next
    fix st' assume "\<not> pointless_print_has_container ?st v" "pointless_print_push_container ?st v = (False, st')" "prints ?st st'"
    then show ?thesis by (simp add: pointless_print_set_def)
  next
    fix i assume push: "\<not> pointless_print_has_container ?st v" "length (ds_stack ?st) < 512"
      "pointless_print_push_container ?st v = (True, ?st\<lparr>ds_stack := ds_stack ?st @ [i]\<rparr>)"
    have p: "ds_p st = p" "sort_set st \<noteq> 0" using st(1) by (simp_all add: printing_def)
    have reach: "\<forall>x \<in> set ?items. item_fits p (?st\<lparr>ds_stack := ds_stack ?st @ [i]\<rparr>) x"
      using set_keys_fit [OF op v fit1 c(1-3)] by (auto simp: item_fits_def)
    have "length ?items = unat (sh_n_items sh)" using c(7) by simp
    from sorted_container_printed [OF op kind rec refl reach this st1 _ push(2), of "''])''", unfolded fprintf_fields] st(2)
    show ?thesis using push(1,3) p ni keys by (simp add: pointless_print_set_def Let_def)
  qed
  then show ?thesis by (rule printed_from [OF prints_fprintf])
qed

lemma map_printed:
  assumes op: "opened p" and kind: "one_bitvector_kind p" and rec: "prints_values p m rec"
    and v: "reachable p v" "v_type v = POINTLESS_MAP_VALUE_VALUE"
    and st: "printing p st" "512 - length (ds_stack st) < Suc m" and fit: "fits p st v"
  shows "printed st (pointless_print_map rec st v)"
proof -
  let ?st = "fprintf st ''{''"
  have st1: "printing p ?st" using st(1) by (rule printing_prints) simp
  have fit1: "fits p ?st v" by (rule fits_prints [OF fit st(1)]) simp
  obtain mh n kv vv where c: "map_header_at p v = Some mh" "pointless_reader_vector_n_items p (mh_key_vector mh) = Some n"
    "pointless_reader_vector_value p (mh_key_vector mh) = Some kv"
    "pointless_reader_vector_value p (mh_value_vector mh) = Some vv" "unat n \<le> length kv" "unat n \<le> length vv"
    "unat n \<le> length (p_buf p)" "\<forall>j < unat n. reachable p (kv ! j) \<and> reachable p (vv ! j)" "length (used_from kv 0 (unat n)) = unat (mh_n_items mh)"
    by (rule map_contents [OF op v])
  let ?items = "map (\<lambda>j. (kv ! j, Some (vv ! j))) (used_from kv 0 (unat n)) :: pv_item list"
  have keys: "collect_items (unat (mh_n_items mh)) p v 0 = Some ?items"
    using collect_items_eq [OF c(1-6), of 0] c(9) by simp
  have ni: "pointless_reader_map_n_items p v = Some (mh_n_items mh)"
    using c(1) by (simp add: pointless_reader_map_n_items_def)
  have "printed ?st (pointless_print_map rec st v)"
  proof (rule entered_cases [OF st1 fit1])
    assume "pointless_print_has_container ?st v"
    then show ?thesis by (simp add: pointless_print_map_def Let_def prints_trans [OF prints_fprintf prints_fprintf])
  next
    fix st' assume "\<not> pointless_print_has_container ?st v" "pointless_print_push_container ?st v = (False, st')" "prints ?st st'"
    then show ?thesis by (simp add: pointless_print_map_def)
  next
    fix i assume push: "\<not> pointless_print_has_container ?st v" "length (ds_stack ?st) < 512"
      "pointless_print_push_container ?st v = (True, ?st\<lparr>ds_stack := ds_stack ?st @ [i]\<rparr>)"
    have p: "ds_p st = p" "sort_map st \<noteq> 0" using st(1) by (simp_all add: printing_def)
    have reach: "\<forall>x \<in> set ?items. item_fits p (?st\<lparr>ds_stack := ds_stack ?st @ [i]\<rparr>) x"
      using map_items_fit [OF op v fit1 c(1-4)] c(8) by (auto simp: item_fits_def)
    have "length ?items = unat (mh_n_items mh)" using c(9) by simp
    from sorted_container_printed [OF op kind rec refl reach this st1 _ push(2), of "''}''", unfolded fprintf_fields] st(2)
    show ?thesis using push(1,3) p ni keys by (simp add: pointless_print_map_def Let_def)
  qed
  then show ?thesis by (rule printed_from [OF prints_fprintf])
qed

lemma vector_printed:
  assumes op: "opened p" and rec: "prints_values p m rec" and v: "reachable p v"
    and t: "v_type v \<in> {POINTLESS_VECTOR_VALUE, POINTLESS_VECTOR_VALUE_HASHABLE}"
    and st: "printing p st" "512 - length (ds_stack st) < m"
    and fit: "\<And>cs c. children p v = Some cs \<Longrightarrow> c \<in> set cs \<Longrightarrow> fits p st c"
  shows "printed st (pointless_print_vector_value rec st v)"
proof -
  have p: "ds_p st = p" using st(1) by (simp add: printing_def)
  obtain n xs where b: "pointless_reader_vector_n_items p v = Some n" "pointless_reader_vector_value p v = Some xs"
    "unat n \<le> length xs" "children p v = Some (take (unat n) xs)"
    using vector_bound [of p v] opened_ok [OF op v] t by metis
  let ?st = "fprintf (if v_type v = POINTLESS_VECTOR_VALUE_HASHABLE then fprintf st ''H'' else st) ''[''"
  have q: "prints st ?st" by (auto intro: prints_trans)
  have "fits p ?st (xs ! i)" if "i < unat n" for i
  proof (rule fits_prints [OF fit [OF b(4)] st(1) q])
    show "xs ! i \<in> set (take (unat n) xs)" using that b(3) by (auto simp: in_set_conv_nth intro!: exI [of _ i])
  qed
  then have "\<forall>i \<in> set [0..<unat n]. i < length xs \<and> reachable p (xs ! i) \<and> fits p ?st (xs ! i)"
    using b(3) item_reachable [OF v b(4,3)] by auto
  then have "printed ?st (print_vector_items rec xs (unat n) [0..<unat n] ?st)"
    using st prints_fields [OF q] by (intro vector_items_printed [OF rec] printing_prints [OF st(1) q]) simp_all
  then have "printed ?st (and_print (print_vector_items rec xs (unat n) [0..<unat n] ?st) (\<lambda>st. Some (Inr (fprintf st '']''))))"
    by (rule printed_and) simp
  from printed_from [OF q this] show ?thesis using b(1,2) p by (simp add: pointless_print_vector_value_def Let_def)
qed

lemma value_vector_printed:
  assumes op: "opened p" and rec: "prints_values p m rec" and v: "reachable p v"
    and t: "v_type v \<in> {POINTLESS_VECTOR_VALUE, POINTLESS_VECTOR_VALUE_HASHABLE}"
    and st: "printing p st" "512 - length (ds_stack st) < Suc m" and fit: "fits p st v"
  shows "printed st
    (if pointless_print_has_container st v then Some (Inr (fprintf st ''[...]''))
     else
       (case pointless_print_push_container st v of
          (pushed, state) \<Rightarrow>
            if \<not> pushed then Some (Inr state)
            else and_print (pointless_print_vector_value rec state v)
              (\<lambda>state. Some (Inr (pointless_print_pop_container state)))))"
proof (rule entered_cases [OF st(1) fit])
  fix i assume push: "\<not> pointless_print_has_container st v" "length (ds_stack st) < 512"
    "pointless_print_push_container st v = (True, st\<lparr>ds_stack := ds_stack st @ [i]\<rparr>)"
  let ?st = "st\<lparr>ds_stack := ds_stack st @ [i]\<rparr>"
  have "printed ?st (pointless_print_vector_value rec ?st v)"
    using st push(2) pushed_state(2) [OF st(1) push(2)] fits_pushed [OF fit]
    by (intro vector_printed [OF op rec v t]) simp_all
  from pushed_printed [where f = "\<lambda>st. pointless_print_vector_value rec st v", OF this]
  have "printed st (and_print (pointless_print_vector_value rec ?st v)
      (\<lambda>st. Some (Inr (fprintf (pointless_print_pop_container st) []))))" .
  moreover have "fprintf s [] = s" for s by (simp add: fprintf_def)
  ultimately show ?thesis using push(1,3) by simp
qed simp_all

section \<open>The contract\<close>

lemma value_printed:
  assumes op: "opened p" and kind: "one_bitvector_kind p"
  shows "prints_values p fuel (pointless_print_value fuel)"
proof (induction fuel)
  case (Suc fuel)
  show ?case
    unfolding prints_values_def
  proof (intro allI impI)
    fix st v assume st: "printing p st" and v: "reachable p v" and fit: "fits p st v" and depth: "512 - length (ds_stack st) < Suc fuel"
    have p: "ds_p st = p" using st by (simp add: printing_def)
    have ok: "wf_reader (ds_p st)" "value_ok (ds_p st) v" using opened_ok [OF op v] by (simp_all add: p)
    consider "v_type v = POINTLESS_UNICODE" | "v_type v = POINTLESS_STRING"
      | "v_type v \<in> {POINTLESS_VECTOR_VALUE, POINTLESS_VECTOR_VALUE_HASHABLE}"
      | "v_type v \<in> heap_vector_types - {POINTLESS_VECTOR_VALUE, POINTLESS_VECTOR_VALUE_HASHABLE}"
      | "pointless_is_bitvector_type (v_type v)"
      | "v_type v = POINTLESS_SET_VALUE" | "v_type v = POINTLESS_MAP_VALUE_VALUE"
      | "v_type v \<in> {POINTLESS_VECTOR_EMPTY, POINTLESS_EMPTY_SLOT, POINTLESS_I32, POINTLESS_U32, POINTLESS_FLOAT,
          POINTLESS_BOOLEAN, POINTLESS_NULL}"
      using known_type [OF ok(2)] by (auto simp: pointless_is_bitvector_type_def)
    then show "printed st (pointless_print_value (Suc fuel) st v)"
    proof cases
      case 1
      with strings_print(1) [OF ok(2)] show ?thesis by auto
    next
      case 2
      with strings_print(2) [OF ok(2)] show ?thesis by auto
    next
      case 3
      from value_vector_printed [OF op Suc.IH v 3 st depth fit] 3 show ?thesis by auto
    next
      case 4
      with vector_other_prints [OF ok 4] show ?thesis by auto
    next
      case 5
      with bitvector_prints [OF ok 5] show ?thesis by (auto simp: pointless_is_bitvector_type_def)
    next
      case 6
      with set_printed [OF op kind Suc.IH v 6 st depth fit] show ?thesis by simp
    next
      case 7
      with map_printed [OF op kind Suc.IH v 7 st depth fit] show ?thesis by simp
    next
      case 8
      then show ?thesis
        by (auto simp: pointless_print_integer_def pointless_print_float_def pointless_print_boolean_def
            pointless_print_null_def)
    qed
  qed
qed (simp add: prints_values_def)

text \<open>
  C6 Printing a value of an opened file always ends and reads nothing outside the file, whatever sharing
  and cycles the file has, provided its bitvectors are all in the heap or all inline, and either no key
  of a set or map of the file is a vector, or no error is set before and the value is nested at most 255
  deep (counting the vectors that sets and maps are stored in). It then answers the output: no sort of
  keys is abandoned, and the containers on the stack bound the recursion by 513 calls.
\<close>

theorem debug_print_total:
  assumes "pointless_open_b hf buf = Some (Inr (p, warning))" and "length buf < 2 ^ 64"
    and "one_bitvector_kind p" and "reachable p v" and "512 < fuel"
    and "flat_keys p \<or> error = None \<and> nested 255 p v"
  shows "\<exists>out. pointless_debug_print_value fuel p v error = Some (Inr out)"
proof -
  have op: "opened p"
    using open_b_checked(1) [OF assms(1,2)] open_b_tables [OF assms(1,2)] unfolding opened_def by blast
  let ?st = "\<lparr>ds_p = p, ds_out = [], ds_error = error, ds_stack = [], sort_set = 1, sort_map = 1\<rparr>"
  have "fits p ?st v" using assms(6) by (auto simp: fits_def)
  then have "printed ?st (pointless_print_value fuel ?st v)"
    using value_printed [OF op assms(3), of fuel] assms(4,5) by (simp add: prints_values_def printing_def)
  then show ?thesis
    by (auto simp: printed_def pointless_debug_print_value_def pointless_debug_print_priv_def)
qed

lemma map_handle_nested: "nested 255 map_handle (pointless_root map_handle)"
proof -
  have "nested 3 map_handle (pointless_root map_handle)" by code_simp
  then show ?thesis by (rule nested_mono) simp
qed

theorem debug_print_total_witness:
  "\<exists>out. pointless_debug_print_value 513 map_handle (pointless_root map_handle) None = Some (Inr out)"
proof -
  have op: "opened map_handle"
    using open_b_checked(1) [OF map_image_opens image_sizes(1)] open_b_tables [OF map_image_opens image_sizes(1)]
    unfolding opened_def by blast
  have "n_bitvector (header map_handle) = 0" by (simp add: init_handle_def Let_def)
  from no_heap_bitvectors [OF op this] show ?thesis
    by (rule debug_print_total [OF map_image_opens image_sizes(1) _ reachable.root])
      (simp, intro disjI2 conjI refl map_handle_nested)
qed

section \<open>Bitvectors of two representations\<close>

text \<open>
  A set of a bitvector of 32 bits, in the heap, and one of 3 bits, inline: what creating this set and
  writing it gives.
\<close>

definition bits_image :: "u8 list" where
  "bits_image =
     [17, 0, 0, 0, 0, 0, 0, 0, 0, 0, 0, 0, 2, 0, 0, 0, 1, 0, 0, 0, 1, 0, 0, 0,
      0, 0, 0, 0, 2, 0, 0, 0, 0, 0, 0, 0, 0, 0, 0, 0, 20, 0, 0, 0, 0, 0, 0, 0,
      56, 0, 0, 0, 0, 0, 0, 0, 64, 0, 0, 0, 0, 0, 0, 0, 4, 0, 0, 0, 12, 12, 195, 251,
      0, 0, 0, 0, 6, 202, 154, 59, 0, 0, 0, 0, 4, 0, 0, 0, 11, 0, 0, 0, 0, 0, 0, 0,
      19, 0, 0, 0, 0, 0, 0, 0, 16, 0, 0, 0, 163, 0, 0, 0, 19, 0, 0, 0, 0, 0, 0, 0,
      32, 0, 0, 0, 1, 2, 3, 5, 2, 0, 0, 0, 0, 0, 0, 0, 7, 0, 0, 0, 0, 0, 0, 0,
      1, 0, 0, 0, 1, 0, 0, 0]"

abbreviation (input) bits_handle :: pointless_t where
  "bits_handle \<equiv> init_handle bits_image \<lparr>root = \<lparr>v_type = 17, v_data = 0\<rparr>, n_string_unicode = 0,
     n_vector = 2, n_bitvector = 1, n_set = 1, n_map = 0, version = 2\<rparr> 152"

lemma bits_image_opens: "pointless_open_b 1 bits_image = Some (Inr (bits_handle, None))"
  by code_simp

lemma bits_image_keys:
  "collect_keys 2 bits_handle \<lparr>v_type = 17, v_data = 0\<rparr> 0 =
     Some [(\<lparr>v_type = 11, v_data = 0\<rparr>, None), (\<lparr>v_type = 16, v_data = 163\<rparr>, None)]"
  by code_simp

lemma bits_image_set: "pointless_reader_set_n_items bits_handle \<lparr>v_type = 17, v_data = 0\<rparr> = Some 2"
  by code_simp

lemma bits_image_compare:
  "compare_keys bits_handle (\<lparr>v_type = 11, v_data = 0\<rparr>, None) (\<lparr>v_type = 16, v_data = 163\<rparr>, None) = None"
  by code_simp

lemma bits_image_root: "pointless_root bits_handle = \<lparr>v_type = 17, v_data = 0\<rparr>"
  by (simp add: pointless_root_def init_handle_def Let_def)

text \<open>
  C40 Printing a file that opened without an error can be undefined: a set of a long and a short bitvector,
  written by the library itself, passes validation, and the comparison that sorts its keys reads the
  inline bitvector through a null pointer.
\<close>

theorem debug_print_undefined:
  "\<exists>p. pointless_open_b 1 bits_image = Some (Inr (p, None)) \<and>
     (\<forall>fuel. pointless_debug_print fuel p None = None)"
proof (intro exI conjI allI)
  show "pointless_open_b 1 bits_image = Some (Inr (bits_handle, None))" by (rule bits_image_opens)
next
  fix fuel
  let ?items = "[(\<lparr>v_type = 11, v_data = 0\<rparr>, None), (\<lparr>v_type = 16, v_data = 163\<rparr>, None)] :: pv_item list"
  have s: "sort_items st 2 ?items = None" if "ds_p st = bits_handle" for st
    using bits_image_compare that by (simp add: sort_items_def sort_followed_def split: option.split)
  have "pointless_print_set rec st \<lparr>v_type = 17, v_data = 0\<rparr> = None"
    if "ds_p st = bits_handle" "ds_stack st = []" "sort_set st = 1" for rec st
    using that bits_image_set bits_image_keys
    by (simp add: pointless_print_set_def Let_def pointless_print_has_container_def pointless_print_push_container_def s)
  then show "pointless_debug_print fuel bits_handle None = None"
    by (cases fuel) (simp_all add: pointless_debug_print_def pointless_debug_print_priv_def bits_image_root)
qed

end
