(* ===== verification/Spec2Isabelle.thy ===== *)
theory Spec2Isabelle
  imports Hash_Table_Laws Validate_Laws Key_Laws Lookup_Laws Dynarray_Laws Create_Cache Custom_Sort_Order Interning Int_Eval_Laws Path_Laws
    Recreate_Laws Files_Laws Debug_Laws
begin

text \<open>
  The C library of py-pointless (\<open>src/src/\<close>, \<open>src/include/pointless/\<close>): files that hold one value built
  from numbers, strings, bitvectors, vectors, sets and maps, with sharing and cycles. A file is mapped
  and read in place; it is written from a \<^emph>\<open>creation\<close>, which names its values by handles.

  \<^bold>\<open>The parts and their theories.\<close> Beside a theory \<open>T\<close> with the definitions stands \<open>T_Laws\<close> with what is
  proved of them.

  \<^item> Shared: \<open>Prelude\<close> (words, arrays, errors, loops, little-endian bytes), \<open>Pointless_Defs\<close> and \<open>Value\<close>
    (\<open>pointless_defs.h\<close>, \<open>pointless_value.c\<close>), \<open>Float32\<close> (the floats of C), \<open>Int_Ops\<close>
    (\<open>pointless_int_ops.c\<close>: checked arithmetic), \<open>Bit_Utils\<close> (\<open>bitutils.c\<close>), \<open>Bitvector\<close>, \<open>Strings\<close>
    (\<open>pointless_unicode_utils.c\<close> and the string parts of the hash and the comparison).
  \<^item> Reading: \<open>Reader_Data\<close> (the handle and the accessors of \<open>pointless_reader.c\<close>), \<open>Hash\<close>, \<open>Cmp\<close>,
    \<open>Hash_Table\<close> with \<open>Probe_Sequence\<close>, \<open>Reader_Lookup\<close> (sets and maps of a file), \<open>Reader_Helpers\<close>
    (typed access by key), \<open>Path_Eval\<close> (access paths as text).
  \<^item> Validation: \<open>Validate_Value\<close> (one value), \<open>Walk\<close> (all values), \<open>Cycle_Marker\<close>, \<open>Validate\<close> (the three
    passes, \<open>pointless_init\<close> and \<open>pointless_open_b\<close>). Opening a file runs pass 1 (references and heap data
    of every reachable value), marks the containers on cycles, and runs passes 2 (what may be hashed)
    and 3 (the hash tables).
  \<^item> Writing: \<open>Dynarray\<close>, \<open>Create_Cache\<close>, \<open>Create_State\<close>, \<open>Create_Values\<close>, \<open>Create_Vectors\<close>,
    \<open>Create_Compare\<close>, \<open>Custom_Sort\<close>, \<open>Create_Table\<close>, \<open>Create_Cycle\<close>, \<open>Create_Output\<close>
    (\<open>pointless_create.c\<close>, \<open>pointless_create_cache.c\<close>, \<open>pointless_dynarray.c\<close>, \<open>custom_sort.c\<close>).
  \<^item> Across: \<open>Recreate\<close> (\<open>pointless_recreate.c\<close>: copying a value of a file into a creation), \<open>Files\<close>
    (\<open>pointless_open_f\<close>, \<open>pointless_create_output_and_end_f\<close>, \<open>pointless_recreate_64\<close>), \<open>Int_Eval\<close> (the
    expression evaluator of \<open>pointless_int_ops.c\<close>), \<open>Debug\<close> (\<open>pointless_debug.c\<close>: printing a value).

  \<^bold>\<open>How state corresponds.\<close> A file image is a list of bytes and a pointer into it a position;
  \<open>pointless_t\<close>, \<open>pointless_create_t\<close>, the cache and the states of the walk, of the validation and of the
  copy are records with the fields of the C structs. A C array is the list of the items from the
  pointer to the end of its allocation. A function that may read or write outside an allocation, call
  a null function pointer or not return answers an \<open>option\<close>, with \<open>None\<close> for these; a function that
  reports an error answers \<open>Inl\<close> the message or \<open>Inr\<close> the result. Integers are words of their width.
  The dynamic arrays of a creation are lists, which \<open>Dynarray_Laws\<close> justifies; Judy arrays are finite
  maps; the callbacks of the output, the walk and the sort are arguments, and so are the calls of the
  operating system (\<open>system\<close> in \<open>Files\<close>), whose documented behaviour is \<open>files_law\<close>.

  \<^bold>\<open>What the lemmas show.\<close>

  \<^item> \<open>Validate_Laws\<close>: the header and pass 1 of any image are read within the image, and an image that opens
    can be read: every accessor on every reachable value stays in the image. \<open>Walk_Laws\<close> makes the
    argument once for all passes, for any sharing and cycles.
  \<^item> \<open>Hash_Table_Laws\<close>: the probe sequence visits every bucket, so probing a table with a free bucket
    ends; populating a table and probing it agree; duplicates are reported. \<open>Lookup_Laws\<close>,
    \<open>Reader_Helpers_Laws\<close> and \<open>Int_Keys\<close> carry this to the maps and sets of an opened file, for the
    lookups, the iterators and the typed access; \<open>Path_Laws\<close> to access paths.
  \<^item> \<open>Key_Laws\<close>, \<open>Cmp_Laws\<close>, \<open>Bitvector_Laws\<close>, \<open>Strings_Laws\<close>, \<open>Float_Laws\<close>: the comparison and the hash in
    terms of the abstract key a value denotes, whatever the width of its numbers and strings; bitvectors are
    compared by their bits when they have one representation.
  \<^item> \<open>Create_Laws\<close>, \<open>Create_Reach\<close>, \<open>Create_Later\<close>: the invariant of a creation, kept by every function of
    the interface, and what later calls cannot change. \<open>Create_Total\<close>: the calls return. \<open>Interning\<close>:
    equal strings get one handle.
  \<^item> \<open>Output_Layout\<close>, \<open>Output_Sizes\<close>, \<open>Output_Offsets\<close>, \<open>Output_Count\<close>, \<open>Output_Prepare\<close>,
    \<open>Output_Objects\<close>, \<open>Output_Reader\<close>, \<open>Round_Trip\<close>: where the output puts the bytes of every object, that a
    reader who follows the offsets gets there, and that strings and vectors come back.
  \<^item> \<open>Recreate_Laws\<close>: copying a value of an opened file ends with a handle of a well-formed creation.
    \<open>Files_Laws\<close>: output to a file that succeeds leaves the bytes of the output to a buffer and nothing
    else; after a failure with the temporary file there the cleanup is undefined.
  \<^item> \<open>Debug_Sort\<close>, \<open>Debug_Cmp\<close>, \<open>Debug_Laws\<close>: comparing and printing the values of an opened file end and
    read nothing outside it when its bitvectors have one representation, printing as long as no
    comparison of keys can set an error; with two representations printing can be undefined.
  \<^item> \<open>Custom_Sort_Laws\<close>, \<open>Custom_Sort_Order\<close>, \<open>Dynarray_Laws\<close>, \<open>Int_Eval_Laws\<close>: the sort permutes and sorts, a
    dynamic array refines a list, the evaluator computes the value of the syntax tree.

  The interfaces are locales with interpretations on the model: the callbacks of the output
  (\<open>appending_cb\<close>), a cache of handles (\<open>handle_cache\<close>), a pass of the walk (\<open>checked_walk\<close>) and others in
  the theories that provide them.

  \<^bold>\<open>Bounds and fuel.\<close> The C stack is fuel. The comparison and the marking of cycles stop at a nesting of
  256, so 257 calls are enough; the walk and the printing stop at 512, so 513 are. The fuel of the hash is the nesting
  of vectors in a key, of \<open>pointless_recreate_convert_rec\<close> the number of objects of the file (more than
  that is enough, \<open>recreate_total\<close>), of the parser of expressions the size of its stacks. An iterator is
  called at most \<open>2 ^ 32\<close> times. Loops the C code may not leave are partial functions, and a claim that one
  ends is a theorem (\<open>probe_terminates\<close>). The theorems about images need an image of less than
  \<open>2 ^ 64\<close> bytes, the ones about written files of less than \<open>2 ^ 32\<close>; a creation has fewer than
  \<open>2 ^ 32 - 4\<close> values, so that no handle wraps around or equals the failure value.

  \<^bold>\<open>Assumptions of the model.\<close> Allocation succeeds, except where an argument \<open>alloc\<close> says otherwise. The
  asserts are compiled out, as \<open>setup.py\<close> does. The machine is a little-endian 64-bit one, where unaligned
  access is defined. A mapped file does not change while it is open.

  \<^bold>\<open>Not modelled.\<close> What \<open>pointless_debug.c\<close> prints when a comparison sets an error while keys are sorted, or
  when keys that are vectors are sorted with an error set before (\<open>sort_followed\<close>);
  \<open>pointless_malloc.c\<close> wraps the allocator of C; the Python bindings (\<open>src/python/\<close>) are glue between this
  library and the interpreter, whose objects and reference counts are not part of the sources; the Judy
  arrays (\<open>src/judy-1.0.5/\<close>) are a vendored library, used through its interface.
\<close>

end
